(* ===== verification/Enums.thy ===== *)
theory Enums
  imports Prelude
begin

text \<open>
  The closed vocabularies shared by the panel and the agents (shared/src/enums.ts), one constructor
  per string of the source.
\<close>

datatype node_status = Node_Online | Node_Offline

datatype role = Admin | Plain_User

datatype instance_role = Owner | Operator | Viewer

datatype instance_status =
  Installing | Install_Failed | Stopped | Starting | Running | Stopping | Crashed | Unknown

datatype backup_status = Pending | Backup_Running | Completed | Failed

datatype variable_type = Text_Var | Number_Var | Boolean_Var | Select_Var | Version_Var

datatype port_protocol = Tcp | Udp | Both

datatype stop_signal = SIGTERM | SIGINT | SIGKILL

datatype config_file_format = Properties | Json | Ini | Yaml | Xml_Properties | Source_Cfg

datatype image_pull_policy = Pull_Missing | Pull_Always

datatype database_engine = Mariadb

datatype two_factor_method = Totp_Method | Email_Method

datatype second_factor = Totp_Factor | Email_Factor | Recovery_Factor

datatype console_transport_kind = Telnet | Rcon | Fifo

datatype player_list_format = List_Json | List_Lines | List_Xml

datatype player_field_type = Field_Text | Field_Number | Field_Select | Field_Player

text \<open>The string the source writes for a status, with \<open>_\<close> as in \<open>INSTANCE_STATUSES\<close>.\<close>

fun status_name :: "instance_status \<Rightarrow> string" where
  "status_name Installing = ''installing''"
| "status_name Install_Failed = ''install_failed''"
| "status_name Stopped = ''stopped''"
| "status_name Starting = ''starting''"
| "status_name Running = ''running''"
| "status_name Stopping = ''stopping''"
| "status_name Crashed = ''crashed''"
| "status_name Unknown = ''unknown''"

definition instance_statuses :: "instance_status list" where
  "instance_statuses =
     [Installing, Install_Failed, Stopped, Starting, Running, Stopping, Crashed, Unknown]"

lemma instance_statuses_complete: "set instance_statuses = UNIV" "distinct instance_statuses"
  by (auto simp: instance_statuses_def) (metis instance_status.exhaust)

fun protocol_name :: "port_protocol \<Rightarrow> string" where
  "protocol_name Tcp = ''tcp''"
| "protocol_name Udp = ''udp''"
| "protocol_name Both = ''both''"

end
