(* ===== verification/Paths.thy ===== *)
theory Paths
  imports Enums
begin

text \<open>
  Where volumes and host mounts may go (shared/src/api/templates.ts, \<open>containerPathProblem\<close> and
  \<open>hostPathProblem\<close>) and which host mounts a node allows (modules/instances/mounts.ts). The
  lexical resolution of a path, which the code never computes, is the yardstick: an accepted path
  is its own resolution, so comparing strings is comparing places.
\<close>

section \<open>Clean absolute paths\<close>

definition reserved_container_trees :: "string list" where
  "reserved_container_trees = [''/proc'', ''/sys'', ''/dev'', ''/data'', ''/gsm'']"

definition reserved_container_dirs :: "string list" where
  "reserved_container_dirs = [''/'', ''/bin'', ''/boot'', ''/etc'', ''/lib'', ''/lib32'', ''/lib64'',
     ''/run'', ''/sbin'', ''/usr'', ''/var'']"

definition path_char :: "char \<Rightarrow> bool" where
  "path_char c \<longleftrightarrow> is_alnum c \<or> c \<in> set ''._@+-/''"

text \<open>\<open>path.split("/").slice(1)\<close>\<close>

definition segments :: "string \<Rightarrow> string list" where
  "segments p = tl (split_on (CHR ''/'') p)"

definition absolute_path_problem :: "string \<Rightarrow> string option" where
  "absolute_path_problem p =
     (if \<not> prefix ''/'' p then Some ''Must be an absolute path''
      else if p \<noteq> ''/'' \<and> suffix ''/'' p then Some ''Must not end with a slash''
      else if \<not> list_all path_char p then Some ''Letters, digits, / and . _ - @ + only''
      else if list_ex (\<lambda>s. s = ''.'' \<or> s = ''..'' \<or> (s = [] \<and> p \<noteq> ''/'')) (segments p)
        then Some ''Must not contain empty, . or .. parts''
      else None)"

definition container_path_problem :: "string \<Rightarrow> string option" where
  "container_path_problem p = (case absolute_path_problem p of
     Some problem \<Rightarrow> Some problem
   | None \<Rightarrow>
       if p \<in> set reserved_container_dirs then Some (p @ '' cannot be replaced'')
       else (case find (\<lambda>r. p = r \<or> prefix (r @ ''/'') p) reserved_container_trees of
         Some tree \<Rightarrow> Some (tree @ '' is reserved'')
       | None \<Rightarrow> None))"

definition host_path_problem :: "string \<Rightarrow> string option" where
  "host_path_problem p = (case absolute_path_problem p of
     Some problem \<Rightarrow> Some problem
   | None \<Rightarrow> if p = ''/'' then Some ''Cannot mount the whole node'' else None)"

section \<open>What a path means\<close>

text \<open>Lexical resolution: empty and \<open>.\<close> parts vanish, \<open>..\<close> goes up (not above the root).\<close>

fun resolve :: "string list \<Rightarrow> string list \<Rightarrow> string list" where
  "resolve done [] = done"
| "resolve done (s # ss) =
     (if s = [] \<or> s = ''.'' then resolve done ss
      else if s = ''..'' then resolve (butlast done) ss
      else resolve (done @ [s]) ss)"

definition place :: "string \<Rightarrow> string list" where
  "place p = resolve [] (segments p)"

text \<open>\<open>p\<close> is the directory \<open>d\<close> or somewhere below it.\<close>

definition below :: "string \<Rightarrow> string \<Rightarrow> bool" where
  "below p d \<longleftrightarrow> prefix (place d) (place p)"

definition clean_segment :: "string \<Rightarrow> bool" where
  "clean_segment s \<longleftrightarrow> s \<noteq> [] \<and> s \<noteq> ''.'' \<and> s \<noteq> ''..'' \<and> CHR ''/'' \<notin> set s"

lemma resolve_clean: "list_all clean_segment ss \<Longrightarrow> resolve done ss = done @ ss"
  by (induction ss arbitrary: "done") (auto simp: clean_segment_def)

lemma segments_of: "prefix ''/'' p \<Longrightarrow> p = CHR ''/'' # join ''/'' (segments p)"
proof -
  assume "prefix ''/'' p"
  then obtain q where p: "p = CHR ''/'' # q" by (auto simp: prefix_def)
  then have "segments p = split_on (CHR ''/'') q" by (simp add: segments_def)
  with p show ?thesis by simp
qed

lemma segments_root [simp]: "segments ''/'' = [[]]"
  by (simp add: segments_def)

lemma absolute_path_clean:
  assumes "absolute_path_problem p = None" and "p \<noteq> ''/''"
  shows "segments p \<noteq> [] \<and> list_all clean_segment (segments p) \<and> place p = segments p
    \<and> p = CHR ''/'' # join ''/'' (place p)"
proof -
  from assms have abs: "prefix ''/'' p"
    and ok: "list_all (\<lambda>s. s \<noteq> ''.'' \<and> s \<noteq> ''..'' \<and> s \<noteq> []) (segments p)"
    by (auto simp: absolute_path_problem_def list_all_iff list_ex_iff split: if_splits)
  from abs obtain q where p: "p = CHR ''/'' # q" by (auto simp: prefix_def)
  then have seg: "segments p = split_on (CHR ''/'') q" by (simp add: segments_def)
  have "list_all clean_segment (segments p)"
    using ok split_on_parts [of _ "CHR ''/''" q]
    unfolding seg by (auto simp: list_all_iff clean_segment_def)
  then show ?thesis
    using segments_of [OF abs] resolve_clean [of "segments p" "[]"] seg
    by (simp add: place_def)
qed

lemma place_root [simp]: "place ''/'' = []"
  by (simp add: place_def)

lemma join_slash_append:
  "us \<noteq> [] \<Longrightarrow> ws \<noteq> [] \<Longrightarrow> join ''/'' (us @ ws) = join ''/'' us @ CHR ''/'' # join ''/'' ws"
  by (induction "''/''" us rule: join.induct) (auto simp: join_Cons)

lemma join_prefix_segments:
  assumes "list_all clean_segment us" "list_all clean_segment vs" "us \<noteq> []" "vs \<noteq> []"
  shows "prefix us vs \<longleftrightarrow>
    join ''/'' us = join ''/'' vs \<or> prefix (join ''/'' us @ ''/'') (join ''/'' vs)"
proof -
  have slash: "\<forall>w\<in>set us. CHR ''/'' \<notin> set w" "\<forall>w\<in>set vs. CHR ''/'' \<notin> set w"
    using assms(1,2) by (auto simp: list_all_iff clean_segment_def)
  have split_us: "split_on (CHR ''/'') (join ''/'' us) = us"
    and split_vs: "split_on (CHR ''/'') (join ''/'' vs) = vs"
    using split_join assms(3,4) slash by auto
  have extend: "split_on (CHR ''/'') (join ''/'' ws @ CHR ''/'' # t) = ws @ split_on (CHR ''/'') t"
    if "ws \<noteq> []" "\<forall>w\<in>set ws. CHR ''/'' \<notin> set w" for ws t
    using that by (induction "''/''" ws rule: join.induct) (auto simp: split_on_append)
  show ?thesis
  proof
    assume "prefix us vs"
    then obtain ws where "vs = us @ ws" by (auto simp: prefix_def)
    then show "join ''/'' us = join ''/'' vs \<or> prefix (join ''/'' us @ ''/'') (join ''/'' vs)"
      using join_slash_append [OF assms(3), of ws] by (cases "ws = []") auto
  next
    assume "join ''/'' us = join ''/'' vs \<or> prefix (join ''/'' us @ ''/'') (join ''/'' vs)"
    then show "prefix us vs"
    proof
      assume "join ''/'' us = join ''/'' vs"
      then have "us = vs" using split_us split_vs by metis
      then show ?thesis by simp
    next
      assume "prefix (join ''/'' us @ ''/'') (join ''/'' vs)"
      then obtain t where "join ''/'' vs = join ''/'' us @ CHR ''/'' # t" by (auto simp: prefix_def)
      then have "vs = us @ split_on (CHR ''/'') t"
        using extend [OF assms(3) slash(1), of t] split_vs by metis
      then show ?thesis by simp
    qed
  qed
qed

text \<open>On clean paths, comparing strings the way the code does is comparing places.\<close>

lemma below_iff:
  assumes p: "absolute_path_problem p = None" "p \<noteq> ''/''"
    and d: "absolute_path_problem d = None" "d \<noteq> ''/''"
  shows "below p d \<longleftrightarrow> p = d \<or> prefix (d @ ''/'') p"
proof -
  obtain ps where ps: "segments p = ps" by simp
  obtain ds where ds: "segments d = ds" by simp
  have "below p d \<longleftrightarrow> prefix ds ps"
    using absolute_path_clean [OF p] absolute_path_clean [OF d] ps ds by (simp add: below_def)
  also have "\<dots> \<longleftrightarrow> join ''/'' ds = join ''/'' ps \<or> prefix (join ''/'' ds @ ''/'') (join ''/'' ps)"
    using absolute_path_clean [OF p] absolute_path_clean [OF d] ps ds
    by (intro join_prefix_segments) auto
  also have "\<dots> \<longleftrightarrow> p = d \<or> prefix (d @ ''/'') p"
  proof -
    have "p = CHR ''/'' # join ''/'' ps" "d = CHR ''/'' # join ''/'' ds"
      using absolute_path_clean [OF p] absolute_path_clean [OF d] ps ds by auto
    then show ?thesis by auto
  qed
  finally show ?thesis .
qed

lemma reserved_trees_clean:
  "r \<in> set reserved_container_trees \<Longrightarrow> absolute_path_problem r = None \<and> r \<noteq> ''/''"
  by (auto simp: reserved_container_trees_def absolute_path_problem_def path_char_def
      char_class_defs segments_def suffix_def)

text \<open>A mount point the schema accepts is its own lexical resolution, is not the root, replaces
  no directory the image needs, and lies neither at nor below any reserved tree.\<close>

theorem container_path_safe:
  assumes "container_path_problem p = None"
  shows "place p = segments p \<and> place p \<noteq> [] \<and> p = CHR ''/'' # join ''/'' (place p)
    \<and> p \<notin> set reserved_container_dirs \<and> (\<forall>r\<in>set reserved_container_trees. \<not> below p r)"
proof -
  from assms have p: "absolute_path_problem p = None" and dirs: "p \<notin> set reserved_container_dirs"
    and trees: "find (\<lambda>r. p = r \<or> prefix (r @ ''/'') p) reserved_container_trees = None"
    by (auto simp: container_path_problem_def split: option.splits if_splits)
  from dirs have ne: "p \<noteq> ''/''" by (auto simp: reserved_container_dirs_def)
  have "\<not> below p r" if "r \<in> set reserved_container_trees" for r
    using trees that below_iff [OF p ne, of r] reserved_trees_clean [OF that]
    by (auto simp: find_None_iff)
  then show ?thesis
    using absolute_path_clean [OF p ne] dirs by auto
qed

theorem container_path_safe_witness:
  "\<not> below ''/opt/game'' ''/data'' \<and> place ''/opt/game'' = [''opt'', ''game'']"
proof -
  have "container_path_problem ''/opt/game'' = None"
    by (simp add: container_path_problem_def absolute_path_problem_def path_char_def suffix_def
        char_class_defs segments_def reserved_container_dirs_def reserved_container_trees_def)
  from container_path_safe [OF this] show ?thesis
    by (simp add: reserved_container_trees_def segments_def)
qed

section \<open>Host mounts\<close>

record host_mount =
  host_path :: string
  container_path :: string
  read_only :: bool

text \<open>The request schema \<open>HostMounts\<close>.\<close>

definition host_mount_ok :: "host_mount \<Rightarrow> bool" where
  "host_mount_ok m \<longleftrightarrow> len_between 2 500 (host_path m) \<and> host_path_problem (host_path m) = None
     \<and> len_between 2 300 (container_path m) \<and> container_path_problem (container_path m) = None"

definition host_mounts_ok :: "host_mount list \<Rightarrow> bool" where
  "host_mounts_ok ms \<longleftrightarrow> length ms \<le> 16 \<and> list_all host_mount_ok ms \<and> distinct (map container_path ms)"

definition strip_slashes :: "string \<Rightarrow> string" where
  "strip_slashes s = rev (dropWhile (\<lambda>c. c = CHR ''/'') (rev s))"

definition within_dir :: "string \<Rightarrow> string \<Rightarrow> bool" where
  "within_dir p d = (let r = strip_slashes d in p = r \<or> prefix (r @ ''/'') p)"

definition mount_problems ::
    "string \<Rightarrow> string list \<Rightarrow> string list \<Rightarrow> nat \<Rightarrow> host_mount \<Rightarrow> (string \<times> detail) list" where
  "mount_problems node_name roots volume_paths i m =
     (if container_path m \<in> set volume_paths
      then [(''mounts.'' @ digits_of i @ ''.containerPath'', Msg ''A template volume is mounted there'')]
      else [])
     @ (if \<not> list_ex (within_dir (host_path m)) roots
        then [(''mounts.'' @ digits_of i @ ''.hostPath'',
               Msg (''Not under a directory '' @ node_name @ '' allows ('' @ join '', '' roots @ '')''))]
        else [])"

definition check_mounts ::
    "string \<Rightarrow> string list option \<Rightarrow> host_mount list \<Rightarrow> string list \<Rightarrow> host_mount list result" where
  "check_mounts node_name inventory_roots mounts volume_paths =
     (if mounts = [] then Inr []
      else let roots = (case inventory_roots of Some rs \<Rightarrow> rs | None \<Rightarrow> []) in
        if roots = [] then Inl (bad_request (node_name @ '' allows no host mounts; list the directories instances may mount under host_mounts in its agent's config.yaml''))
        else let problems = concat (map (\<lambda>(i, m). mount_problems node_name roots volume_paths i m)
                                      (enumerate 0 mounts)) in
          if problems \<noteq> [] then Inl (bad_request_with ''Some mounts are not allowed'' problems)
          else Inr mounts)"

lemma within_below:
  assumes p: "host_path_problem p = None"
    and d: "absolute_path_problem (strip_slashes d) = None \<or> strip_slashes d = []"
    and nr: "strip_slashes d \<noteq> ''/''"
  shows "within_dir p d \<longleftrightarrow> below p (if strip_slashes d = [] then ''/'' else strip_slashes d)"
proof (cases "strip_slashes d = []")
  case True
  have "prefix ''/'' p" using p
    by (auto simp: host_path_problem_def absolute_path_problem_def split: if_splits)
  with True show ?thesis by (simp add: within_dir_def below_def)
next
  case False
  have "absolute_path_problem p = None" "p \<noteq> ''/''"
    using p by (auto simp: host_path_problem_def split: option.splits if_splits)
  from below_iff [OF this _ nr] d False show ?thesis by (simp add: within_dir_def Let_def)
qed

lemma strip_slashes_not_root: "strip_slashes d \<noteq> ''/''"
proof
  assume "strip_slashes d = ''/''"
  then have "dropWhile (\<lambda>c. c = CHR ''/'') (rev d) = ''/''"
    by (simp add: strip_slashes_def rev_swap)
  then show False
    using hd_dropWhile [of "\<lambda>c. c = CHR ''/''" "rev d"] by simp
qed

lemma mount_problems_enumerate:
  "concat (map (\<lambda>(i, m). mount_problems n roots vols i m) (enumerate k ms)) = [] \<longleftrightarrow>
    (\<forall>m\<in>set ms. container_path m \<notin> set vols \<and> list_ex (within_dir (host_path m)) roots)"
  by (induction ms arbitrary: k) (auto simp: mount_problems_def)

text \<open>For mounts that passed the request schema and roots that are clean directories, mounts are
  accepted exactly when none is mounted over a template volume and every one lies at or below a
  root the node allows; what is accepted is stored unchanged.\<close>

theorem check_mounts_iff:
  assumes "host_mounts_ok ms" and "ms \<noteq> []"
    and "\<forall>d\<in>set roots. absolute_path_problem (strip_slashes d) = None \<or> strip_slashes d = []"
  shows "(check_mounts n (Some roots) ms vols = Inr ms \<longleftrightarrow>
      (\<forall>m\<in>set ms. container_path m \<notin> set vols
        \<and> (\<exists>d\<in>set roots. below (host_path m) (if strip_slashes d = [] then ''/'' else strip_slashes d))))
    \<and> (\<forall>out. check_mounts n (Some roots) ms vols = Inr out \<longrightarrow> out = ms)"
proof -
  have host: "host_path_problem (host_path m) = None" if "m \<in> set ms" for m
    using assms(1) that by (auto simp: host_mounts_ok_def host_mount_ok_def list_all_iff)
  have "list_ex (within_dir (host_path m)) roots \<longleftrightarrow>
      (\<exists>d\<in>set roots. below (host_path m) (if strip_slashes d = [] then ''/'' else strip_slashes d))"
    if "m \<in> set ms" for m
    using within_below [OF host [OF that] _ strip_slashes_not_root] assms(3)
    by (auto simp: list_ex_iff)
  then have "(\<forall>m\<in>set ms. container_path m \<notin> set vols \<and> list_ex (within_dir (host_path m)) roots) \<longleftrightarrow>
      (\<forall>m\<in>set ms. container_path m \<notin> set vols
        \<and> (\<exists>d\<in>set roots. below (host_path m) (if strip_slashes d = [] then ''/'' else strip_slashes d)))"
    by auto
  moreover have "check_mounts n (Some roots) ms vols = Inr ms \<longleftrightarrow>
      roots \<noteq> [] \<and> (\<forall>m\<in>set ms. container_path m \<notin> set vols \<and> list_ex (within_dir (host_path m)) roots)"
    using assms(2) mount_problems_enumerate [of n roots vols 0 ms]
    by (auto simp: check_mounts_def Let_def)
  moreover have "check_mounts n (Some roots) ms vols = Inr out \<Longrightarrow> out = ms" for out
    using assms(2) by (auto simp: check_mounts_def Let_def split: if_splits)
  ultimately show ?thesis
    using assms(2) by (cases ms) auto
qed

theorem check_mounts_iff_witness:
  "check_mounts ''n1'' (Some [''/srv/'', ''/mnt/a''])
     [\<lparr>host_path = ''/srv/maps'', container_path = ''/maps'', read_only = True\<rparr>] [''/cfg'']
   = Inr [\<lparr>host_path = ''/srv/maps'', container_path = ''/maps'', read_only = True\<rparr>]"
proof -
  let ?ms = "[\<lparr>host_path = ''/srv/maps'', container_path = ''/maps'', read_only = True\<rparr>]"
  have ok: "host_mounts_ok ?ms"
    by (simp add: host_mounts_ok_def host_mount_ok_def len_between_def host_path_problem_def
        container_path_problem_def absolute_path_problem_def path_char_def suffix_def
        char_class_defs segments_def reserved_container_dirs_def reserved_container_trees_def)
  have roots: "\<forall>d\<in>set [''/srv/'', ''/mnt/a''].
      absolute_path_problem (strip_slashes d) = None \<or> strip_slashes d = []"
    by (simp add: strip_slashes_def absolute_path_problem_def path_char_def suffix_def
        char_class_defs segments_def)
  have "below ''/srv/maps'' ''/srv''"
    by (simp add: below_def place_def segments_def)
  then have "\<exists>d\<in>set [''/srv/'', ''/mnt/a'']. below ''/srv/maps''
      (if strip_slashes d = [] then ''/'' else strip_slashes d)"
    by (simp add: strip_slashes_def)
  with check_mounts_iff [OF ok _ roots, of "''n1''" "[''/cfg'']"] show ?thesis
    by simp
qed

end
