(* ===== verification/Template.thy ===== *)
theory Template
  imports Paths
begin

text \<open>
  Templates (shared/src/api/templates.ts): the records a definition is made of, the checks its
  schema adds beyond field shapes, and the functions the panel and the server share (runs of
  ports, substitution, JVM heap, one variable's value).
\<close>

section \<open>Names\<close>

definition variable_name_re :: "string \<Rightarrow> bool" where
  "variable_name_re = re_name is_upper (\<lambda>c. is_upper c \<or> is_digit c \<or> c = CHR ''_'') 0 63"

definition template_slug_re :: "string \<Rightarrow> bool" where
  "template_slug_re =
     re_name (\<lambda>c. is_lower c \<or> is_digit c) (\<lambda>c. is_lower c \<or> is_digit c \<or> c = CHR ''-'') 1 63"

definition volume_name_re :: "string \<Rightarrow> bool" where
  "volume_name_re =
     re_name is_lower (\<lambda>c. is_lower c \<or> is_digit c \<or> c = CHR ''_'' \<or> c = CHR ''-'') 0 31"

definition env_name_re :: "string \<Rightarrow> bool" where
  "env_name_re = re_name (\<lambda>c. is_upper c \<or> is_lower c \<or> c = CHR ''_'')
     (\<lambda>c. is_alnum c \<or> c = CHR ''_'') 0 127"

definition database_name_re :: "string \<Rightarrow> bool" where
  "database_name_re = re_name is_lower (\<lambda>c. is_lower c \<or> is_digit c \<or> c = CHR ''_'') 0 31"

definition port_name_re :: "string \<Rightarrow> bool" where
  "port_name_re = re_name is_lower (\<lambda>c. is_lower c \<or> is_digit c \<or> c = CHR ''_'') 0 31"

section \<open>Records\<close>

record select_option =
  so_value :: string
  so_label :: string

record template_variable =
  tv_name :: string
  tv_label :: string
  tv_description :: string
  tv_type :: variable_type
  tv_default :: string
  tv_required :: bool
  tv_options :: "select_option list"
  tv_allow_custom :: bool
  tv_min :: "rat option"
  tv_max :: "rat option"
  tv_version_source :: "string option"
  tv_depends_on :: "string option"
  tv_editable :: bool
  tv_viewable :: bool
  tv_pattern :: "string option"
  tv_group :: string

record template_port =
  tp_name :: string
  tp_label :: string
  tp_protocol :: port_protocol
  tp_default :: int
  tp_primary :: bool
  tp_follows :: "string option"

record template_config_file =
  cf_path :: string
  cf_format :: config_file_format
  cf_values :: "(string \<times> string) list"

record template_volume =
  vol_name :: string
  vol_label :: string
  vol_description :: string
  vol_path :: string
  vol_seed :: bool
  vol_backup :: bool

record container_user =
  uid :: int
  gid :: int

record template_container =
  tc_entrypoint :: "string list option"
  tc_user :: "container_user option"
  tc_pull :: image_pull_policy
  tc_seccomp_unconfined :: bool

record template_database =
  tdb_engine :: database_engine
  tdb_image :: string
  tdb_name :: string
  tdb_memory_mb :: int
  tdb_enabled_by :: "string option"

record template_install =
  ti_image :: "string option"
  ti_script :: string
  ti_resolver :: "string option"
  ti_timeout_seconds :: int

record template_stop =
  ts_command :: "string option"
  ts_signal :: stop_signal
  ts_timeout_seconds :: int

record template_transport =
  tr_kind :: console_transport_kind
  tr_port :: "int option"
  tr_path :: "string option"
  tr_password :: string
  tr_ignore :: "string option"

record template_console =
  tcon_ready_pattern :: "string option"
  tcon_transport :: "template_transport option"

record resource_limits =
  memory_mb :: int
  cpu_cores :: rat
  disk_mb :: int

record template_image =
  img_label :: string
  img_ref :: string

record template_definition =
  td_slug :: string
  td_name :: string
  td_game :: string
  td_description :: string
  td_icon :: string
  td_tags :: "string list"
  td_image :: string
  td_images :: "template_image list"
  td_install :: template_install
  td_startup :: string
  td_stop :: template_stop
  td_console :: template_console
  td_variables :: "template_variable list"
  td_ports :: "template_port list"
  td_files :: "template_config_file list"
  td_env :: "(string \<times> string) list"
  td_volumes :: "template_volume list"
  td_container :: template_container
  td_database :: "template_database option"
  td_resources :: resource_limits
  td_restart_on_crash :: bool
  td_backup_ignore :: "string list"

section \<open>The schema's own checks\<close>

text \<open>An issue: where in the definition, and why.\<close>

datatype issue = Issue (where_at: "string list") (why: string)

fun port_issues :: "template_port list \<Rightarrow> template_port list \<Rightarrow> issue list" where
  "port_issues prev [] = []"
| "port_issues prev (p # ps) =
     (let loc = (\<lambda>field. [''ports'', digits_of (length prev), field]) in
      (if tp_name p \<in> tp_name ` set prev then [Issue (loc ''name'') ''Duplicate port name''] else [])
      @ (case tp_follows p of
           None \<Rightarrow> []
         | Some f \<Rightarrow>
             (if f \<notin> tp_name ` set prev
              then [Issue (loc ''follows'') ''Must name a port listed before this one''] else [])
             @ (if list_ex (\<lambda>q. tp_follows q = Some f) prev
                then [Issue (loc ''follows'') (''Only one port can follow '' @ f)] else [])
             @ (if tp_primary p
                then [Issue (loc ''primary'') ''A port that follows another cannot be the primary one'']
                else []))
      @ port_issues (prev @ [p]) ps)"

fun volume_issues :: "template_volume list \<Rightarrow> template_volume list \<Rightarrow> issue list" where
  "volume_issues prev [] = []"
| "volume_issues prev (v # vs) =
     (if vol_name v \<in> vol_name ` set prev
      then [Issue [''volumes'', digits_of (length prev), ''name''] ''Duplicate volume''] else [])
     @ (if vol_path v \<in> vol_path ` set prev
        then [Issue [''volumes'', digits_of (length prev), ''path''] ''Another volume is mounted there'']
        else [])
     @ volume_issues (prev @ [v]) vs"

definition env_issues :: "(string \<times> string) list \<Rightarrow> issue list" where
  "env_issues env = concat (map (\<lambda>(k, _). if prefix ''GSM_'' k
     then [Issue [''env'', k] ''GSM_* variables are set by the platform''] else []) env)"

definition enabled_by_issues :: "template_definition \<Rightarrow> issue list" where
  "enabled_by_issues d =
     (case truthy (Option.bind (td_database d) tdb_enabled_by) of
       None \<Rightarrow> []
     | Some by \<Rightarrow>
         if \<not> list_ex (\<lambda>v. tv_name v = by \<and> tv_type v = Boolean_Var) (td_variables d)
         then [Issue [''database'', ''enabledBy''] ''Must name a boolean variable of this template'']
         else [])"

definition transport_issues :: "template_transport \<Rightarrow> issue list" where
  "transport_issues t =
     (if tr_kind t \<noteq> Fifo
      then (if tr_port t = None then [Issue [''port''] ''Needs the console's port''] else [])
      else (case tr_path t of
        None \<Rightarrow> [Issue [''path''] ''Needs the pipe's path'']
      | Some p \<Rightarrow> (case absolute_path_problem p of
          None \<Rightarrow> [] | Some problem \<Rightarrow> [Issue [''path''] problem])))"

definition template_issues :: "template_definition \<Rightarrow> issue list" where
  "template_issues d = port_issues [] (td_ports d) @ volume_issues [] (td_volumes d)
     @ env_issues (td_env d) @ enabled_by_issues d"

text \<open>What passing the port checks means, as a property of the list.\<close>

definition ports_ok :: "template_port list \<Rightarrow> bool" where
  "ports_ok ps \<longleftrightarrow> port_issues [] ps = []"

lemma port_issues_append:
  "port_issues prev (ps @ qs) = port_issues prev ps @ port_issues (prev @ ps) qs"
  by (induction ps arbitrary: prev) (auto simp: Let_def)

lemma ports_ok_snoc: "ports_ok (ps @ [p]) \<longleftrightarrow> ports_ok ps \<and> tp_name p \<notin> tp_name ` set ps
    \<and> (\<forall>f. tp_follows p = Some f \<longrightarrow>
         f \<in> tp_name ` set ps \<and> (\<forall>q\<in>set ps. tp_follows q \<noteq> Some f) \<and> \<not> tp_primary p)"
  by (auto simp: ports_ok_def port_issues_append Let_def list_ex_iff split: option.splits)

lemma ports_ok_Nil [simp]: "ports_ok []"
  by (simp add: ports_ok_def)

lemma ports_ok_distinct: "ports_ok ps \<Longrightarrow> distinct (map tp_name ps)"
  by (induction ps rule: rev_induct) (auto simp: ports_ok_snoc)

section \<open>Runs of ports\<close>

text \<open>\<open>portRun\<close>: walk to the port the run starts at. \<open>n\<close> is \<open>ports.length\<close>, which bounds the walk.\<close>

function port_run_from :: "template_port list \<Rightarrow> nat \<Rightarrow> string \<Rightarrow> nat \<Rightarrow> string \<times> nat" where
  "port_run_from ports n head offset =
     (case truthy (Option.bind (find (\<lambda>p. tp_name p = head) ports) tp_follows) of
        None \<Rightarrow> (head, offset)
      | Some f \<Rightarrow> if offset \<ge> n then (head, offset) else port_run_from ports n f (offset + 1))"
  by pat_completeness auto
termination
  by (relation "measure (\<lambda>(_, n, _, offset). n - offset)") auto

declare port_run_from.simps [simp del]

definition port_run :: "template_port list \<Rightarrow> string \<Rightarrow> string \<times> nat" where
  "port_run ports name = port_run_from ports (length ports) name 0"

section \<open>Databases\<close>

definition database_enabled ::
    "template_database option \<Rightarrow> template_variable list \<Rightarrow> (string \<times> string) list \<Rightarrow> bool" where
  "database_enabled db variables vars = (case db of
     None \<Rightarrow> False
   | Some d \<Rightarrow> (case tdb_enabled_by d of
       None \<Rightarrow> True
     | Some by \<Rightarrow>
         (case map_of vars by of
            Some v \<Rightarrow> v = ''true''
          | None \<Rightarrow> map_option tv_default (find (\<lambda>v. tv_name v = by) variables) = Some ''true'')))"

section \<open>The JVM heap\<close>

text \<open>
  \<open>memoryMb\<close> is an integer (the schemas say so). The double products \<open>memoryMb * 0.75\<close> and
  \<open>memoryMb * 0.15\<close> round to the exact value when that is an integer and otherwise stay at least
  a twentieth away from one, so their floors are the integer divisions below.
\<close>

definition heap_for_memory :: "int \<Rightarrow> int" where
  "heap_for_memory m =
     (if m \<le> 0 then 2048
      else if m \<le> 1024 then max 256 (m * 3 div 4)
      else m - min 1024 (max 384 (m * 3 div 20)))"

text \<open>The heap given to a container with at least 512 MiB leaves at least a quarter, 384 MiB or
  15 percent of the limit free (up to 1 GiB), and is never below 256 MiB; only limits below 256 MiB
  get a heap larger than the container itself.\<close>

theorem heap_fits:
  "256 \<le> heap_for_memory m
   \<and> (0 < m \<and> m < 256 \<longrightarrow> m < heap_for_memory m)
   \<and> (256 \<le> m \<longrightarrow> heap_for_memory m \<le> m)
   \<and> (342 \<le> m \<and> m \<le> 1024 \<longrightarrow> 4 * heap_for_memory m \<le> 3 * m)
   \<and> (1024 < m \<longrightarrow> 384 \<le> m - heap_for_memory m \<and> m - heap_for_memory m \<le> 1024
        \<and> (m * 3 div 20 \<le> 1024 \<longrightarrow> m * 3 div 20 \<le> m - heap_for_memory m))"
  unfolding heap_for_memory_def by (auto simp: min_def max_def)

theorem heap_fits_witness:
  "heap_for_memory 100 = 256 \<and> heap_for_memory 2048 = 1664
   \<and> 100 < heap_for_memory 100"
  using heap_fits [of 100] by (simp add: heap_for_memory_def)

end
