(* ===== verification/Ports.thy ===== *)
theory Ports
  imports Template
begin

text \<open>
  Port allocation on a node's pool (server/src/modules/instances/ports.ts). A port and the ports
  that follow it are placed as one block: first the blocks the operator chose, then the others at
  the template's default or at the next free place a cursor finds. The result is proved to be what
  the callers rely on for every template the schema accepts.
\<close>

record allocation =
  al_name :: string
  al_label :: string
  al_protocol :: port_protocol
  al_port :: int
  al_primary :: bool

record port_range =
  range_start :: int
  range_end :: int

text \<open>\<open>headOf\<close>: the walk from a port to the first of its block, bounded by \<open>n = ports.length\<close>.\<close>

function head_of_from ::
    "(string \<Rightarrow> template_port option) \<Rightarrow> nat \<Rightarrow> template_port \<Rightarrow> nat \<Rightarrow> template_port \<times> nat" where
  "head_of_from by_name n head offset =
     (case Option.bind (truthy (tp_follows head)) by_name of
        None \<Rightarrow> (head, offset)
      | Some h \<Rightarrow> if offset < n then head_of_from by_name n h (offset + 1) else (head, offset))"
  by pat_completeness auto
termination
  by (relation "measure (\<lambda>(_, n, _, offset). n - offset)") auto

declare head_of_from.simps [simp del]

definition head_of :: "template_port list \<Rightarrow> template_port \<Rightarrow> template_port \<times> nat" where
  "head_of ports p = head_of_from (index_by tp_name ports) (length ports) p 0"

text \<open>\<open>size\<close>: every block's head name and how many ports it spans, in the order of first meeting.\<close>

definition add_size ::
    "template_port list \<Rightarrow> (string \<times> nat) list \<Rightarrow> template_port \<Rightarrow> (string \<times> nat) list" where
  "add_size ports sizes p = (let (head, offset) = head_of ports p in
     AList.update (tp_name head)
       (max (case map_of sizes (tp_name head) of Some n \<Rightarrow> n | None \<Rightarrow> 1) (offset + 1)) sizes)"

definition block_sizes :: "template_port list \<Rightarrow> (string \<times> nat) list" where
  "block_sizes ports = foldl (add_size ports) [] ports"

fun block_free :: "int set \<Rightarrow> int \<Rightarrow> nat \<Rightarrow> bool" where
  "block_free taken x 0 = True"
| "block_free taken x (Suc n) =
     (if x < 1 \<or> x > 65535 \<or> x \<in> taken then False else block_free taken (x + 1) n)"

definition take_block :: "int set \<Rightarrow> int \<Rightarrow> nat \<Rightarrow> int set" where
  "take_block taken s n = taken \<union> {s ..< s + int n}"

definition chosen_error :: "int set \<Rightarrow> int \<Rightarrow> nat \<Rightarrow> http_error" where
  "chosen_error taken port n =
     (case find (\<lambda>x. x \<in> taken) (map (\<lambda>k. port + int k) [0..<n]) of
        None \<Rightarrow> bad_request (''Port '' @ string_of_int port @ '' needs '' @ digits_of n
          @ '' ports in a row'')
      | Some busy \<Rightarrow> conflict (''Port '' @ string_of_int busy @ '' is already in use on this node''))"

fun place_chosen :: "(string \<times> int) list \<Rightarrow> int set \<Rightarrow> (string \<rightharpoonup> int) \<Rightarrow> (string \<times> nat) list \<Rightarrow>
    (int set \<times> (string \<rightharpoonup> int)) result" where
  "place_chosen choices taken first [] = Inr (taken, first)"
| "place_chosen choices taken first ((name, n) # rest) =
     (case map_of choices name of
        None \<Rightarrow> place_chosen choices taken first rest
      | Some port \<Rightarrow>
          if \<not> block_free taken port n then Inl (chosen_error taken port n)
          else place_chosen choices (take_block taken port n) (first(name \<mapsto> port)) rest)"

text \<open>The cursor's walk: \<open>while (cursor + n - 1 <= range.end && !blockFree(cursor, n)) cursor++\<close>.\<close>

function next_free :: "int set \<Rightarrow> nat \<Rightarrow> int \<Rightarrow> int \<Rightarrow> int" where
  "next_free taken n upto_port cursor =
     (if cursor + int n - 1 \<le> upto_port \<and> \<not> block_free taken cursor n
      then next_free taken n upto_port (cursor + 1) else cursor)"
  by pat_completeness auto
termination
  by (relation "measure (\<lambda>(_, n, upto_port, cursor). nat (upto_port + 2 - int n - cursor))") auto

declare next_free.simps [simp del]

definition exhausted_error :: "port_range \<Rightarrow> nat \<Rightarrow> http_error" where
  "exhausted_error pool n = conflict (''The node's port range '' @ string_of_int (range_start pool)
     @ ''-'' @ string_of_int (range_end pool)
     @ (if n > 1 then '' has no '' @ digits_of n @ '' free ports in a row''
        else '' has no free ports left''))"

definition default_fits :: "int set \<Rightarrow> port_range \<Rightarrow> int \<Rightarrow> nat \<Rightarrow> bool" where
  "default_fits taken pool wanted n \<longleftrightarrow> wanted \<ge> range_start pool
     \<and> wanted + int n - 1 \<le> range_end pool \<and> block_free taken wanted n"

text \<open>The second loop. A head that is not a port cannot happen (\<open>byName.get(name)!\<close>); JavaScript
  would throw there, so the model does too.\<close>

fun place_rest :: "(string \<Rightarrow> template_port option) \<Rightarrow> port_range \<Rightarrow> int \<Rightarrow> int set \<Rightarrow>
    (string \<rightharpoonup> int) \<Rightarrow> (string \<times> nat) list \<Rightarrow> (int set \<times> (string \<rightharpoonup> int)) result" where
  "place_rest by_name pool cursor taken first [] = Inr (taken, first)"
| "place_rest by_name pool cursor taken first ((name, n) # rest) =
     (if first name \<noteq> None then place_rest by_name pool cursor taken first rest
      else case by_name name of
        None \<Rightarrow> Inl internal_error
      | Some h \<Rightarrow>
          if default_fits taken pool (tp_default h) n
          then place_rest by_name pool cursor (take_block taken (tp_default h) n)
                 (first(name \<mapsto> tp_default h)) rest
          else let c = next_free taken n (range_end pool) cursor in
            if c + int n - 1 > range_end pool then Inl (exhausted_error pool n)
            else place_rest by_name pool c (take_block taken c n) (first(name \<mapsto> c)) rest)"

definition to_allocation :: "template_port list \<Rightarrow> (string \<times> int) list \<Rightarrow> (string \<rightharpoonup> int) \<Rightarrow>
    template_port \<Rightarrow> allocation result" where
  "to_allocation ports choices first p =
     (let (head, offset) = head_of ports p in
      case first (tp_name head) of
        None \<Rightarrow> Inl internal_error
      | Some f \<Rightarrow> let port = f + int offset in
          if offset > 0 \<and> map_of choices (tp_name p) \<noteq> None \<and> map_of choices (tp_name p) \<noteq> Some port
          then Inl (bad_request (''Port '' @ [CHR 0x22] @ tp_name p @ [CHR 0x22] @ '' is always ''
            @ tp_name head @ '' + '' @ digits_of offset @ '' ('' @ string_of_int port @ '')''))
          else Inr \<lparr>al_name = tp_name p, al_label = tp_label p, al_protocol = tp_protocol p,
                    al_port = port, al_primary = tp_primary p\<rparr>)"

definition allocate_ports ::
    "template_port list \<Rightarrow> (string \<times> int) list \<Rightarrow> int set \<Rightarrow> port_range \<Rightarrow> allocation list result" where
  "allocate_ports ports choices used pool =
     (let by_name = index_by tp_name ports; sizes = block_sizes ports in
      case find (\<lambda>name. by_name name = None) (map fst choices) of
        Some name \<Rightarrow> Inl (bad_request (''Unknown port '' @ [CHR 0x22] @ name @ [CHR 0x22]))
      | None \<Rightarrow>
          then_do (place_chosen choices used Map.empty sizes) (\<lambda>(taken, first).
          then_do (place_rest by_name pool (range_start pool) taken first sizes) (\<lambda>(taken, first).
          map_result (to_allocation ports choices first) ports)))"

section \<open>Runs\<close>

text \<open>\<open>run_of ports p h k\<close>: following from \<open>p\<close> reaches \<open>h\<close>, which follows nothing, after \<open>k\<close> steps.\<close>

inductive run_of :: "template_port list \<Rightarrow> template_port \<Rightarrow> template_port \<Rightarrow> nat \<Rightarrow> bool"
  for ports where
  run_head: "h \<in> set ports \<Longrightarrow> tp_follows h = None \<Longrightarrow> run_of ports h h 0"
| run_next: "p \<in> set ports \<Longrightarrow> tp_follows p = Some (tp_name q) \<Longrightarrow> run_of ports q h k \<Longrightarrow>
    run_of ports p h (Suc k)"

inductive_cases run_of_0E: "run_of ports p h 0"
inductive_cases run_of_SucE: "run_of ports p h (Suc k)"

text \<open>The schema's guarantees: the port checks of \<open>superRefine\<close> and the shape of names.\<close>

definition template_ports_ok :: "template_port list \<Rightarrow> bool" where
  "template_ports_ok ports \<longleftrightarrow> ports_ok ports \<and> list_all (\<lambda>p. port_name_re (tp_name p)) ports"

lemma port_name_nonempty: "port_name_re s \<Longrightarrow> s \<noteq> []"
  by (auto simp: port_name_re_def re_name_def)

lemma template_ports_okD:
  assumes "template_ports_ok ports"
  shows "ports_ok ports"
    and "index_by tp_name ports n = Some q \<longleftrightarrow> q \<in> set ports \<and> tp_name q = n"
    and "p \<in> set ports \<Longrightarrow> tp_name p \<noteq> []"
proof -
  from assms show ok: "ports_ok ports" by (simp add: template_ports_ok_def)
  show "index_by tp_name ports n = Some q \<longleftrightarrow> q \<in> set ports \<and> tp_name q = n"
    using index_by_distinct [OF ports_ok_distinct [OF ok]] .
  show "p \<in> set ports \<Longrightarrow> tp_name p \<noteq> []"
    using assms port_name_nonempty by (auto simp: template_ports_ok_def list_all_iff)
qed

lemma run_of_mono: "run_of ports p h k \<Longrightarrow> set ports \<subseteq> set ports' \<Longrightarrow> run_of ports' p h k"
  by (induction rule: run_of.induct) (auto intro: run_of.intros)

lemma run_of_member: "run_of ports p h k \<Longrightarrow> p \<in> set ports \<and> h \<in> set ports \<and> tp_follows h = None"
  by (induction rule: run_of.induct) auto

lemma run_of_exists: "ports_ok ports \<Longrightarrow> p \<in> set ports \<Longrightarrow> \<exists>h k. run_of ports p h k \<and> k < length ports"
proof (induction ports arbitrary: p rule: rev_induct)
  case (snoc x ports)
  from snoc.prems(1) have ok: "ports_ok ports" by (simp add: ports_ok_snoc)
  have old: "\<exists>h k. run_of (ports @ [x]) q h k \<and> k < length ports" if "q \<in> set ports" for q
    using snoc.IH [OF ok that] run_of_mono [of ports q _ _ "ports @ [x]"] by auto
  show ?case
  proof (cases "p \<in> set ports")
    case True
    with old [OF True] show ?thesis by (auto intro: less_SucI)
  next
    case False
    with snoc.prems(2) have p: "p = x" by simp
    show ?thesis
    proof (cases "tp_follows x")
      case None
      then have "run_of (ports @ [x]) x x 0" by (intro run_head) auto
      with p show ?thesis by auto
    next
      case (Some f)
      then obtain q where "q \<in> set ports" "f = tp_name q"
        using snoc.prems(1) by (auto simp: ports_ok_snoc)
      with old obtain h k where "run_of (ports @ [x]) q h k" "k < length ports" by blast
      then have "run_of (ports @ [x]) x h (Suc k)"
        using Some \<open>f = tp_name q\<close> by (intro run_next [of _ _ q]) auto
      with p \<open>k < length ports\<close> show ?thesis by auto
    qed
  qed
qed simp

lemma follows_unique:
  "ports_ok ports \<Longrightarrow> p \<in> set ports \<Longrightarrow> q \<in> set ports \<Longrightarrow> tp_follows p = Some f \<Longrightarrow>
    tp_follows q = Some f \<Longrightarrow> p = q"
  by (induction ports rule: rev_induct) (auto simp: ports_ok_snoc)

lemma name_unique:
  "ports_ok ports \<Longrightarrow> p \<in> set ports \<Longrightarrow> q \<in> set ports \<Longrightarrow> tp_name p = tp_name q \<Longrightarrow> p = q"
  by (meson ports_ok_distinct distinct_map inj_onD)

lemma run_of_inj:
  assumes "ports_ok ports"
  shows "run_of ports p h k \<Longrightarrow> run_of ports p' h k \<Longrightarrow> p = p'"
proof (induction k arbitrary: p p')
  case 0
  then show ?case by (auto elim!: run_of_0E)
next
  case (Suc k)
  from Suc.prems obtain q q' where
    q: "p \<in> set ports" "tp_follows p = Some (tp_name q)" "run_of ports q h k" and
    q': "p' \<in> set ports" "tp_follows p' = Some (tp_name q')" "run_of ports q' h k"
    by (auto elim!: run_of_SucE)
  have "q = q'" using Suc.IH q(3) q'(3) .
  with q q' follows_unique [OF assms] show ?case by metis
qed

lemma run_of_det:
  assumes "ports_ok ports"
  shows "run_of ports p h k \<Longrightarrow> run_of ports p h' k' \<Longrightarrow> h = h' \<and> k = k'"
proof (induction arbitrary: h' k' rule: run_of.induct)
  case (run_head h)
  from run_head(3) show ?case by (cases rule: run_of.cases) (use run_head in auto)
next
  case (run_next p q h k)
  from run_next.prems obtain q' j where
    q': "tp_name q' = tp_name q" "run_of ports q' h' j" "k' = Suc j"
    by (cases rule: run_of.cases) (use run_next.hyps in auto)
  then have "q' = q"
    using name_unique [OF assms] run_of_member run_next.hyps(3) by metis
  with q' run_next.IH show ?case by blast
qed

lemma head_of_from_run:
  assumes ok: "template_ports_ok ports"
  shows "run_of ports p h k \<Longrightarrow> offset + k \<le> n \<Longrightarrow>
    head_of_from (index_by tp_name ports) n p offset = (h, offset + k)"
proof (induction arbitrary: offset rule: run_of.induct)
  case (run_head h)
  then show ?case by (simp add: head_of_from.simps [of _ _ h])
next
  case (run_next p q h k)
  have mem: "q \<in> set ports" using run_of_member run_next by blast
  then have "index_by tp_name ports (tp_name q) = Some q" "tp_name q \<noteq> []"
    by (simp_all add: template_ports_okD [OF ok])
  then show ?case
    using run_next by (simp add: head_of_from.simps [of _ _ p])
qed

lemma head_of_run:
  assumes "template_ports_ok ports" and "p \<in> set ports"
  obtains h k where "head_of ports p = (h, k)" "run_of ports p h k"
proof -
  from run_of_exists [OF template_ports_okD(1) [OF assms(1)] assms(2)]
  obtain h k where "run_of ports p h k" "k < length ports" by blast
  with head_of_from_run [OF assms(1), of p h k 0 "length ports"] show ?thesis
    by (intro that) (auto simp: head_of_def)
qed

section \<open>Sizes and placement\<close>

lemma sizes_invariant:
  "set qs \<subseteq> set ports \<Longrightarrow>
    distinct (map fst (foldl (add_size ports) [] qs))
    \<and> (\<forall>p\<in>set qs. \<exists>n. map_of (foldl (add_size ports) [] qs) (tp_name (fst (head_of ports p))) = Some n
          \<and> snd (head_of ports p) < n)
    \<and> (\<forall>name n. map_of (foldl (add_size ports) [] qs) name = Some n \<longrightarrow>
          (\<exists>p\<in>set qs. name = tp_name (fst (head_of ports p)) \<and> n = snd (head_of ports p) + 1))"
proof (induction qs rule: rev_induct)
  case (snoc p qs)
  define sizes where "sizes = foldl (add_size ports) [] qs"
  obtain h k where hk: "head_of ports p = (h, k)" by fastforce
  have new: "foldl (add_size ports) [] (qs @ [p])
      = AList.update (tp_name h) (max (case map_of sizes (tp_name h) of Some n \<Rightarrow> n | None \<Rightarrow> 1) (k + 1)) sizes"
    by (simp add: add_size_def hk sizes_def)
  from snoc have IH: "distinct (map fst sizes)"
    "\<forall>q\<in>set qs. \<exists>n. map_of sizes (tp_name (fst (head_of ports q))) = Some n \<and> snd (head_of ports q) < n"
    "\<forall>name n. map_of sizes name = Some n \<longrightarrow>
       (\<exists>q\<in>set qs. name = tp_name (fst (head_of ports q)) \<and> n = snd (head_of ports q) + 1)"
    by (auto simp: sizes_def)
  have "\<exists>n. map_of (foldl (add_size ports) [] (qs @ [p])) (tp_name (fst (head_of ports q))) = Some n
      \<and> snd (head_of ports q) < n" if "q \<in> set (qs @ [p])" for q
    using that IH(2) unfolding new by (auto simp: update_conv' hk)
  moreover have "\<exists>q\<in>set (qs @ [p]). name = tp_name (fst (head_of ports q)) \<and> n = snd (head_of ports q) + 1"
    if "map_of (foldl (add_size ports) [] (qs @ [p])) name = Some n" for name n
    using that IH(3) unfolding new
    by (auto simp: update_conv' hk max_def split: if_splits option.splits)
  moreover have "distinct (map fst (foldl (add_size ports) [] (qs @ [p])))"
    unfolding new using IH(1) by (rule distinct_update)
  ultimately show ?case by blast
qed simp

lemma block_sizes_distinct: "distinct (map fst (block_sizes ports))"
  using sizes_invariant [of ports ports] by (simp add: block_sizes_def)

lemma block_sizes_covers: "p \<in> set ports \<Longrightarrow> head_of ports p = (h, k) \<Longrightarrow>
    \<exists>n. map_of (block_sizes ports) (tp_name h) = Some n \<and> k < n"
  using sizes_invariant [of ports ports] by (force simp: block_sizes_def)

lemma block_sizes_exact: "map_of (block_sizes ports) name = Some n \<Longrightarrow>
    \<exists>p\<in>set ports. \<exists>h k. head_of ports p = (h, k) \<and> name = tp_name h \<and> n = k + 1"
proof -
  assume "map_of (block_sizes ports) name = Some n"
  then obtain p where "p \<in> set ports" "name = tp_name (fst (head_of ports p))" "n = snd (head_of ports p) + 1"
    using sizes_invariant [of ports ports] unfolding block_sizes_def by blast
  then show ?thesis by (metis prod.collapse)
qed

lemma block_free_iff:
  "block_free taken s n \<longleftrightarrow> (\<forall>x. s \<le> x \<and> x < s + int n \<longrightarrow> 1 \<le> x \<and> x \<le> 65535 \<and> x \<notin> taken)"
proof (induction taken s n rule: block_free.induct)
  case (2 taken s n)
  have "(\<forall>x. s \<le> x \<and> x < s + int (Suc n) \<longrightarrow> Q x) \<longleftrightarrow> Q s \<and> (\<forall>x. s + 1 \<le> x \<and> x < s + 1 + int n \<longrightarrow> Q x)"
    for Q :: "int \<Rightarrow> bool"
  proof -
    have "s \<le> x \<and> x < s + int (Suc n) \<longleftrightarrow> x = s \<or> (s + 1 \<le> x \<and> x < s + 1 + int n)" for x
      by auto
    then show ?thesis by auto
  qed
  with 2 show ?case by auto
qed auto

text \<open>What both placement loops keep: every placed block is inside the port numbers, avoids what
  other instances use, and blocks do not overlap.\<close>

definition placed :: "int set \<Rightarrow> (string \<Rightarrow> nat) \<Rightarrow> int set \<Rightarrow> (string \<rightharpoonup> int) \<Rightarrow> bool" where
  "placed used sz taken first \<longleftrightarrow> used \<subseteq> taken
     \<and> (\<forall>a s. first a = Some s \<longrightarrow> {s ..< s + int (sz a)} \<subseteq> taken
          \<and> {s ..< s + int (sz a)} \<subseteq> {1..65535} \<and> {s ..< s + int (sz a)} \<inter> used = {})
     \<and> (\<forall>a b s t. first a = Some s \<and> first b = Some t \<and> a \<noteq> b \<longrightarrow>
          {s ..< s + int (sz a)} \<inter> {t ..< t + int (sz b)} = {})"

lemma placed_start: "placed used sz used Map.empty"
  by (simp add: placed_def)

lemma placed_step:
  assumes "placed used sz taken first" and "block_free taken s (sz a)" and "first a = None"
  shows "placed used sz (take_block taken s (sz a)) (first(a \<mapsto> s))"
proof -
  have block: "{s ..< s + int (sz a)} \<subseteq> {1..65535}" "{s ..< s + int (sz a)} \<inter> taken = {}"
    using assms(2) by (auto simp: block_free_iff)
  have old: "{t ..< t + int (sz b)} \<subseteq> taken" "{t ..< t + int (sz b)} \<subseteq> {1..65535}"
      "{t ..< t + int (sz b)} \<inter> used = {}" if "first b = Some t" for b t
    using that assms(1) by (simp_all add: placed_def)
  have apart: "{t ..< t + int (sz b)} \<inter> {u ..< u + int (sz c)} = {}"
    if "(first(a \<mapsto> s)) b = Some t" "(first(a \<mapsto> s)) c = Some u" "b \<noteq> c" for b c t u
  proof (cases "b = a \<or> c = a")
    case True
    with that old(1) block(2) show ?thesis by (fastforce split: if_splits)
  next
    case False
    with that assms(1) show ?thesis by (simp add: placed_def)
  qed
  have used: "used \<subseteq> taken" using assms(1) by (simp add: placed_def)
  have each: "{t ..< t + int (sz b)} \<subseteq> take_block taken s (sz a)
      \<and> {t ..< t + int (sz b)} \<subseteq> {1..65535} \<and> {t ..< t + int (sz b)} \<inter> used = {}"
    if "(first(a \<mapsto> s)) b = Some t" for b t
  proof (cases "b = a")
    case True
    with that block used show ?thesis by (simp add: take_block_def) blast
  next
    case False
    with that old [of b t] show ?thesis by (simp add: take_block_def) blast
  qed
  have "used \<subseteq> take_block taken s (sz a)" using used by (auto simp: take_block_def)
  then show ?thesis
    unfolding placed_def using each apart by blast
qed

lemma place_chosen_placed:
  assumes "place_chosen choices taken first sizes = Inr (taken', first')"
    and "placed used sz taken first" and "distinct (map fst sizes)"
    and "\<forall>(a, n)\<in>set sizes. n = sz a \<and> first a = None"
    and "\<forall>a s. first a = Some s \<longrightarrow> map_of choices a = Some s"
  shows "placed used sz taken' first'
    \<and> (\<forall>a s. first' a = Some s \<longrightarrow> map_of choices a = Some s)
    \<and> (\<forall>a\<in>fst ` set sizes. first' a = map_of choices a)
    \<and> (\<forall>a. a \<notin> fst ` set sizes \<longrightarrow> first' a = first a)"
  using assms
proof (induction choices taken first sizes rule: place_chosen.induct)
  case (2 choices taken first name n rest)
  have keys: "fst ` set ((name, n) # rest) = insert name (fst ` set rest)" by simp
  show ?case
  proof (cases "map_of choices name")
    case None
    have "placed used sz taken' first'
      \<and> (\<forall>a s. first' a = Some s \<longrightarrow> map_of choices a = Some s)
      \<and> (\<forall>a\<in>fst ` set rest. first' a = map_of choices a)
      \<and> (\<forall>a. a \<notin> fst ` set rest \<longrightarrow> first' a = first a)"
    proof (rule "2.IH"(1) [OF None])
      show "place_chosen choices taken first rest = Inr (taken', first')"
        using "2.prems"(1) None by simp
    qed (use "2.prems" in simp_all)
    then have IH: "placed used sz taken' first'" "\<forall>a s. first' a = Some s \<longrightarrow> map_of choices a = Some s"
        "\<forall>a\<in>fst ` set rest. first' a = map_of choices a"
        "\<forall>a. a \<notin> fst ` set rest \<longrightarrow> first' a = first a"
      by blast+
    have "first name = None" "name \<notin> fst ` set rest" using "2.prems"(3,4) by auto
    then have "first' name = map_of choices name" using IH(4) None by metis
    with IH(1,2,3,4) show ?thesis unfolding keys by blast
  next
    case (Some port)
    with "2.prems" have free: "block_free taken port (sz name)" and n: "n = sz name" "first name = None"
      by (auto split: if_splits)
    have "placed used sz taken' first'
      \<and> (\<forall>a s. first' a = Some s \<longrightarrow> map_of choices a = Some s)
      \<and> (\<forall>a\<in>fst ` set rest. first' a = map_of choices a)
      \<and> (\<forall>a. a \<notin> fst ` set rest \<longrightarrow> first' a = (first(name \<mapsto> port)) a)"
    proof (rule "2.IH"(2) [OF Some])
      show "\<not> \<not> block_free taken port n" using free n by simp
      show "place_chosen choices (take_block taken port n) (first(name \<mapsto> port)) rest = Inr (taken', first')"
        using "2.prems"(1) Some free n by simp
      show "placed used sz (take_block taken port n) (first(name \<mapsto> port))"
        using placed_step [OF "2.prems"(2) free] n by simp
    next
      show "distinct (map fst rest)" using "2.prems"(3) by simp
      show "\<forall>(a, n)\<in>set rest. n = sz a \<and> (first(name \<mapsto> port)) a = None"
        using "2.prems"(3,4) by force
      show "\<forall>a s. (first(name \<mapsto> port)) a = Some s \<longrightarrow> map_of choices a = Some s"
        using "2.prems"(5) Some by simp
    qed
    then have IH: "placed used sz taken' first'" "\<forall>a s. first' a = Some s \<longrightarrow> map_of choices a = Some s"
        "\<forall>a\<in>fst ` set rest. first' a = map_of choices a"
        "\<forall>a. a \<notin> fst ` set rest \<longrightarrow> first' a = (first(name \<mapsto> port)) a"
      by blast+
    have "name \<notin> fst ` set rest" using "2.prems"(3) by auto
    then have "first' name = map_of choices name" using IH(4) Some by (metis fun_upd_same)
    moreover have "first' a = first a" if "a \<notin> insert name (fst ` set rest)" for a
      using that IH(4) by (metis fun_upd_other insert_iff)
    ultimately show ?thesis using IH(1,2,3) unfolding keys by blast
  qed
qed simp

lemma next_free_spec:
  "cursor \<le> next_free taken n upto_port cursor
   \<and> (next_free taken n upto_port cursor + int n - 1 \<le> upto_port \<longrightarrow>
        block_free taken (next_free taken n upto_port cursor) n)
   \<and> (\<forall>x. cursor \<le> x \<and> x < next_free taken n upto_port cursor \<longrightarrow> \<not> block_free taken x n)"
proof (induction taken n upto_port cursor rule: next_free.induct)
  case (1 taken n upto_port cursor)
  show ?case
  proof (cases "cursor + int n - 1 \<le> upto_port \<and> \<not> block_free taken cursor n")
    case True
    then have step: "next_free taken n upto_port cursor = next_free taken n upto_port (cursor + 1)"
      by (subst next_free.simps) simp
    have "\<not> block_free taken x n" if "cursor \<le> x" "x < next_free taken n upto_port (cursor + 1)" for x
      using that 1 [OF True] True by (cases "x = cursor") auto
    with 1 [OF True] step show ?thesis by auto
  next
    case False
    then have "next_free taken n upto_port cursor = cursor" by (subst next_free.simps) auto
    with False show ?thesis by auto
  qed
qed

lemma place_rest_placed:
  assumes "place_rest by_name pool cursor taken first sizes = Inr (taken', first')"
    and "placed used sz taken first" and "distinct (map fst sizes)"
    and "\<forall>(a, n)\<in>set sizes. n = sz a" and "range_start pool \<le> cursor"
  shows "placed used sz taken' first'
    \<and> (\<forall>a. a \<notin> fst ` set sizes \<or> first a \<noteq> None \<longrightarrow> first' a = first a)
    \<and> (\<forall>a\<in>fst ` set sizes. \<exists>s. first' a = Some s
          \<and> (first a = None \<longrightarrow> range_start pool \<le> s \<and> s + int (sz a) - 1 \<le> range_end pool))"
  using assms
proof (induction by_name pool cursor taken first sizes rule: place_rest.induct)
  case (2 by_name pool cursor taken first name n rest)
  have keys: "fst ` set ((name, n) # rest) = insert name (fst ` set rest)" by simp
  have fresh: "name \<notin> fst ` set rest" and n: "n = sz name" and rest: "distinct (map fst rest)"
      "\<forall>(a, n)\<in>set rest. n = sz a"
    using "2.prems"(3,4) by auto
  show ?case
  proof (cases "first name = None")
    case False
    have "placed used sz taken' first'
      \<and> (\<forall>a. a \<notin> fst ` set rest \<or> first a \<noteq> None \<longrightarrow> first' a = first a)
      \<and> (\<forall>a\<in>fst ` set rest. \<exists>s. first' a = Some s
          \<and> (first a = None \<longrightarrow> range_start pool \<le> s \<and> s + int (sz a) - 1 \<le> range_end pool))"
      using "2.prems" False rest by (intro "2.IH"(1)) simp_all
    with False show ?thesis unfolding keys by fastforce
  next
    case True
    with "2.prems"(1) obtain h where h: "by_name name = Some h"
      by (auto split: option.splits)
    define c where "c = next_free taken n (range_end pool) cursor"
    obtain s cursor' where s: "block_free taken s n" "range_start pool \<le> s"
        "s + int n - 1 \<le> range_end pool" "range_start pool \<le> cursor'"
      and go: "place_rest by_name pool cursor' (take_block taken s n) (first(name \<mapsto> s)) rest
          = Inr (taken', first')"
      and IH: "placed used sz (take_block taken s n) (first(name \<mapsto> s)) \<Longrightarrow>
          \<forall>(a, n)\<in>set rest. n = sz a \<Longrightarrow> placed used sz taken' first'
      \<and> (\<forall>a. a \<notin> fst ` set rest \<or> (first(name \<mapsto> s)) a \<noteq> None \<longrightarrow> first' a = (first(name \<mapsto> s)) a)
      \<and> (\<forall>a\<in>fst ` set rest. \<exists>u. first' a = Some u \<and> ((first(name \<mapsto> s)) a = None \<longrightarrow>
            range_start pool \<le> u \<and> u + int (sz a) - 1 \<le> range_end pool))"
    proof (cases "default_fits taken pool (tp_default h) n")
      case fits: True
      with "2.prems"(1) True h
      have go: "place_rest by_name pool cursor (take_block taken (tp_default h) n)
          (first(name \<mapsto> tp_default h)) rest = Inr (taken', first')" by simp
      show ?thesis
      proof (rule that [of "tp_default h" cursor])
        assume "placed used sz (take_block taken (tp_default h) n) (first(name \<mapsto> tp_default h))"
          and "\<forall>(a, n)\<in>set rest. n = sz a"
        then show "placed used sz taken' first'
          \<and> (\<forall>a. a \<notin> fst ` set rest \<or> (first(name \<mapsto> tp_default h)) a \<noteq> None \<longrightarrow>
                first' a = (first(name \<mapsto> tp_default h)) a)
          \<and> (\<forall>a\<in>fst ` set rest. \<exists>u. first' a = Some u \<and> ((first(name \<mapsto> tp_default h)) a = None \<longrightarrow>
                range_start pool \<le> u \<and> u + int (sz a) - 1 \<le> range_end pool))"
          using True rest(1) "2.prems"(5) by (intro "2.IH"(2) [OF _ h fits go]) (assumption | simp)+
      qed (use fits go "2.prems"(5) in \<open>simp_all add: default_fits_def\<close>)
    next
      case unfit: False
      with "2.prems"(1) True h have room: "\<not> c + int n - 1 > range_end pool"
        and go: "place_rest by_name pool c (take_block taken c n) (first(name \<mapsto> c)) rest
          = Inr (taken', first')"
        by (auto simp: Let_def c_def split: if_splits)
      have c: "cursor \<le> c" "block_free taken c n"
        using next_free_spec [of cursor taken n "range_end pool"] room by (auto simp: c_def)
      show ?thesis
      proof (rule that [of c c])
        assume "placed used sz (take_block taken c n) (first(name \<mapsto> c))"
          and "\<forall>(a, n)\<in>set rest. n = sz a"
        then show "placed used sz taken' first'
          \<and> (\<forall>a. a \<notin> fst ` set rest \<or> (first(name \<mapsto> c)) a \<noteq> None \<longrightarrow>
                first' a = (first(name \<mapsto> c)) a)
          \<and> (\<forall>a\<in>fst ` set rest. \<exists>u. first' a = Some u \<and> ((first(name \<mapsto> c)) a = None \<longrightarrow>
                range_start pool \<le> u \<and> u + int (sz a) - 1 \<le> range_end pool))"
          using True rest(1) "2.prems"(5) c(1) room
          by (intro "2.IH"(3) [OF _ h unfit c_def]) (assumption | rule go | linarith | simp)+
      qed (use c room go "2.prems"(5) in simp_all)
    qed
    have "placed used sz (take_block taken s n) (first(name \<mapsto> s))"
      using placed_step [OF "2.prems"(2)] s(1) True n by simp
    from IH [OF this rest(2)]
    have IH': "placed used sz taken' first'"
        "\<forall>a. a \<notin> fst ` set rest \<or> (first(name \<mapsto> s)) a \<noteq> None \<longrightarrow> first' a = (first(name \<mapsto> s)) a"
        "\<forall>a\<in>fst ` set rest. \<exists>u. first' a = Some u \<and> ((first(name \<mapsto> s)) a = None \<longrightarrow>
            range_start pool \<le> u \<and> u + int (sz a) - 1 \<le> range_end pool)"
      by blast+
    have "first' name = Some s" using IH'(2) by (metis fun_upd_same option.distinct(1))
    moreover have "first' a = first a" if "a \<notin> insert name (fst ` set rest) \<or> first a \<noteq> None" for a
      using that IH'(2) True by (metis fun_upd_other insert_iff)
    moreover have "\<exists>u. first' a = Some u \<and> (first a = None \<longrightarrow>
        range_start pool \<le> u \<and> u + int (sz a) - 1 \<le> range_end pool)" if "a \<in> fst ` set rest" for a
      using IH'(3) that fresh by (metis fun_upd_other)
    ultimately show ?thesis
      using IH'(1) s n unfolding keys by blast
  qed
qed simp

section \<open>What callers rely on\<close>

text \<open>An allocation fits a template on a node: one entry per template port in order, all on
  different unused port numbers, followers right after the port they follow, the operator's choices
  honoured, and a block nobody chose wholly inside the node's pool.\<close>

definition describes :: "template_port \<Rightarrow> allocation \<Rightarrow> bool" where
  "describes p a \<longleftrightarrow> al_name a = tp_name p \<and> al_label a = tp_label p
     \<and> al_protocol a = tp_protocol p \<and> al_primary a = tp_primary p"

definition fits_node :: "template_port list \<Rightarrow> (string \<times> int) list \<Rightarrow> int set \<Rightarrow> port_range \<Rightarrow>
    allocation list \<Rightarrow> bool" where
  "fits_node ports choices used pool as \<longleftrightarrow>
     list_all2 describes ports as
     \<and> distinct (map al_port as)
     \<and> (\<forall>a\<in>set as. 1 \<le> al_port a \<and> al_port a \<le> 65535 \<and> al_port a \<notin> used)
     \<and> (\<forall>i<length ports. \<forall>j<length ports. tp_follows (ports ! i) = Some (tp_name (ports ! j)) \<longrightarrow>
          al_port (as ! i) = al_port (as ! j) + 1)
     \<and> (\<forall>i<length ports. \<forall>c. map_of choices (tp_name (ports ! i)) = Some c \<longrightarrow> al_port (as ! i) = c)
     \<and> (\<forall>i<length ports. map_of choices (tp_name (fst (head_of ports (ports ! i)))) = None \<longrightarrow>
          range_start pool \<le> al_port (as ! i) \<and> al_port (as ! i) \<le> range_end pool)"

text \<open>The number a port gets from the head numbers.\<close>

definition number_of :: "template_port list \<Rightarrow> (string \<rightharpoonup> int) \<Rightarrow> template_port \<Rightarrow> int" where
  "number_of ports first p = the (first (tp_name (fst (head_of ports p)))) + int (snd (head_of ports p))"

lemma to_allocation_Inr:
  "to_allocation ports choices first p = Inr a \<Longrightarrow> describes p a
    \<and> first (tp_name (fst (head_of ports p))) \<noteq> None \<and> al_port a = number_of ports first p
    \<and> (0 < snd (head_of ports p) \<longrightarrow> map_of choices (tp_name p) \<in> {None, Some (al_port a)})"
  by (auto simp: to_allocation_def describes_def number_of_def Let_def
      split: prod.splits option.splits if_splits)

text \<open>The numbers both loops leave behind, in terms of the template alone.\<close>

lemma allocate_placed:
  assumes "allocate_ports ports choices used pool = Inr as"
  obtains taken first sz where
    "placed used sz taken first" "map_result (to_allocation ports choices first) ports = Inr as"
    "\<forall>p\<in>set ports. snd (head_of ports p) < sz (tp_name (fst (head_of ports p)))"
    "\<forall>p\<in>set ports. (case map_of choices (tp_name (fst (head_of ports p))) of
        Some c \<Rightarrow> first (tp_name (fst (head_of ports p))) = Some c
      | None \<Rightarrow> \<exists>s. first (tp_name (fst (head_of ports p))) = Some s \<and> range_start pool \<le> s
          \<and> s + int (sz (tp_name (fst (head_of ports p)))) - 1 \<le> range_end pool)"
proof -
  define sizes where "sizes = block_sizes ports"
  define sz where "sz = (\<lambda>a. case map_of sizes a of Some n \<Rightarrow> n | None \<Rightarrow> 0)"
  have sz: "\<forall>(a, n)\<in>set sizes. n = sz a" and dist: "distinct (map fst sizes)"
    using block_sizes_distinct [of ports] by (auto simp: sz_def sizes_def)
  from assms obtain taken1 first1 taken first where
    chosen: "place_chosen choices used Map.empty sizes = Inr (taken1, first1)" and
    rest: "place_rest (index_by tp_name ports) pool (range_start pool) taken1 first1 sizes = Inr (taken, first)" and
    map: "map_result (to_allocation ports choices first) ports = Inr as"
    by (auto simp: allocate_ports_def Let_def sizes_def result_simps split: option.splits)
  have sz0: "\<forall>(a, n)\<in>set sizes. n = sz a \<and> Map.empty a = None" using sz by auto
  from place_chosen_placed [OF chosen placed_start dist sz0]
  have p1: "placed used sz taken1 first1"
    and c1: "\<And>a. a \<in> fst ` set sizes \<Longrightarrow> first1 a = map_of choices a" by auto
  note r = place_rest_placed [OF rest p1 dist sz order_refl]
  show ?thesis
  proof (rule that)
    show "placed used sz taken first" using r by blast
    show "map_result (to_allocation ports choices first) ports = Inr as" by (fact map)
    have each: "snd (head_of ports p) < sz (tp_name (fst (head_of ports p)))
      \<and> (case map_of choices (tp_name (fst (head_of ports p))) of
        Some c \<Rightarrow> first (tp_name (fst (head_of ports p))) = Some c
      | None \<Rightarrow> \<exists>s. first (tp_name (fst (head_of ports p))) = Some s \<and> range_start pool \<le> s
          \<and> s + int (sz (tp_name (fst (head_of ports p)))) - 1 \<le> range_end pool)"
      if p: "p \<in> set ports" for p
    proof -
    obtain h k where hk: "head_of ports p = (h, k)" by fastforce
    from block_sizes_covers [OF p hk] obtain n where n: "map_of sizes (tp_name h) = Some n" "k < n"
      by (auto simp: sizes_def)
    then have "k < sz (tp_name h)" by (simp add: sz_def)
    have mem: "tp_name h \<in> fst ` set sizes" using n(1) by (force dest: map_of_SomeD)
    from r mem obtain s where s: "first (tp_name h) = Some s"
      "first1 (tp_name h) = None \<longrightarrow> range_start pool \<le> s \<and> s + int (sz (tp_name h)) - 1 \<le> range_end pool"
      "first1 (tp_name h) \<noteq> None \<longrightarrow> first (tp_name h) = first1 (tp_name h)" by blast
    with c1 [OF mem] \<open>k < sz (tp_name h)\<close> show ?thesis
      by (cases "map_of choices (tp_name h)") (auto simp: hk)
    qed
    then show "\<forall>p\<in>set ports. snd (head_of ports p) < sz (tp_name (fst (head_of ports p)))" by blast
    show "\<forall>p\<in>set ports. (case map_of choices (tp_name (fst (head_of ports p))) of
        Some c \<Rightarrow> first (tp_name (fst (head_of ports p))) = Some c
      | None \<Rightarrow> \<exists>s. first (tp_name (fst (head_of ports p))) = Some s \<and> range_start pool \<le> s
          \<and> s + int (sz (tp_name (fst (head_of ports p)))) - 1 \<le> range_end pool)"
      using each by blast
  qed
qed

lemma head_of_follower:
  assumes ok: "template_ports_ok ports" and "p \<in> set ports" "q \<in> set ports"
    and "tp_follows p = Some (tp_name q)"
  shows "fst (head_of ports p) = fst (head_of ports q) \<and> snd (head_of ports p) = snd (head_of ports q) + 1"
proof -
  from head_of_run [OF ok assms(3)] obtain h k where q: "head_of ports q = (h, k)" "run_of ports q h k" .
  from head_of_run [OF ok assms(2)] obtain h' k' where p: "head_of ports p = (h', k')" "run_of ports p h' k'" .
  from p(2) show ?thesis
  proof (cases rule: run_of.cases)
    case (run_next q' j)
    then have "q' \<in> set ports" "tp_name q' = tp_name q" using assms(4) run_of_member by auto
    then have "q' = q" using name_unique [OF template_ports_okD(1) [OF ok]] assms(3) by blast
    with run_next(4) have "run_of ports q h' j" by simp
    with q(2) have "h' = h" "j = k"
      using run_of_det [OF template_ports_okD(1) [OF ok]] by blast+
    then show ?thesis using p(1) q(1) run_next(1) by simp
  qed (use assms(4) in auto)
qed

lemma number_of_distinct:
  assumes ok: "template_ports_ok ports" and placed: "placed used sz taken first"
    and inside: "\<And>p. p \<in> set ports \<Longrightarrow> snd (head_of ports p) < sz (tp_name (fst (head_of ports p)))"
    and known: "\<And>p. p \<in> set ports \<Longrightarrow> first (tp_name (fst (head_of ports p))) \<noteq> None"
    and p: "p \<in> set ports" and q: "q \<in> set ports" and neq: "p \<noteq> q"
  shows "number_of ports first p \<noteq> number_of ports first q"
proof -
  from head_of_run [OF ok p] obtain h k where p': "head_of ports p = (h, k)" "run_of ports p h k" .
  from head_of_run [OF ok q] obtain h' k' where q': "head_of ports q = (h', k')" "run_of ports q h' k'" .
  from known [OF p] known [OF q] obtain s t where s: "first (tp_name h) = Some s" "first (tp_name h') = Some t"
    by (auto simp: p'(1) q'(1))
  have mem: "number_of ports first p \<in> {s ..< s + int (sz (tp_name h))}"
      "number_of ports first q \<in> {t ..< t + int (sz (tp_name h'))}"
    using inside [OF p] inside [OF q] s by (auto simp: number_of_def p'(1) q'(1))
  show ?thesis
  proof (cases "h = h'")
    case True
    then have "k \<noteq> k'"
      using run_of_inj [OF template_ports_okD(1) [OF ok]] p'(2) q'(2) neq by blast
    with True s show ?thesis by (simp add: number_of_def p'(1) q'(1))
  next
    case False
    then have "tp_name h \<noteq> tp_name h'"
      using name_unique [OF template_ports_okD(1) [OF ok]] run_of_member p'(2) q'(2) by metis
    with placed s have "{s ..< s + int (sz (tp_name h))} \<inter> {t ..< t + int (sz (tp_name h'))} = {}"
      unfolding placed_def by blast
    with mem show ?thesis by (metis disjoint_iff)
  qed
qed

lemma number_of_bounds:
  assumes "placed used sz taken first"
    and inside: "snd (head_of ports p) < sz (tp_name (fst (head_of ports p)))"
    and "first (tp_name (fst (head_of ports p))) \<noteq> None"
  shows "1 \<le> number_of ports first p \<and> number_of ports first p \<le> 65535 \<and> number_of ports first p \<notin> used"
proof -
  obtain h k where hk: "head_of ports p = (h, k)" by fastforce
  from assms(3) obtain s where s: "first (tp_name h) = Some s" by (auto simp: hk)
  have "number_of ports first p \<in> {s ..< s + int (sz (tp_name h))}"
    using inside s by (auto simp: number_of_def hk)
  moreover have "{s ..< s + int (sz (tp_name h))} \<subseteq> {1..65535}"
      "{s ..< s + int (sz (tp_name h))} \<inter> used = {}"
    using assms(1) s unfolding placed_def by blast+
  ultimately have "number_of ports first p \<in> {1..65535}" "number_of ports first p \<notin> used" by blast+
  then show ?thesis by simp
qed

lemma allocation_fits:
  assumes ok: "template_ports_ok ports"
    and result: "allocate_ports ports choices used pool = Inr as"
  shows "fits_node ports choices used pool as"
proof -
  obtain taken first sz where
    placed: "placed used sz taken first" and
    map: "map_result (to_allocation ports choices first) ports = Inr as" and
    inside': "\<forall>p\<in>set ports. snd (head_of ports p) < sz (tp_name (fst (head_of ports p)))" and
    firsts': "\<forall>p\<in>set ports. (case map_of choices (tp_name (fst (head_of ports p))) of
        Some c \<Rightarrow> first (tp_name (fst (head_of ports p))) = Some c
      | None \<Rightarrow> \<exists>s. first (tp_name (fst (head_of ports p))) = Some s \<and> range_start pool \<le> s
          \<and> s + int (sz (tp_name (fst (head_of ports p)))) - 1 \<le> range_end pool)"
    by (rule allocate_placed [OF result]) (rule that, assumption+)
  note inside = inside' [rule_format] and firsts = firsts' [rule_format]
  have all: "list_all2 (\<lambda>p a. to_allocation ports choices first p = Inr a) ports as"
    using map by (simp add: map_result_Inr)
  then have len: "length as = length ports" by (simp add: list_all2_lengthD)
  have nth: "describes (ports ! i) (as ! i)" "first (tp_name (fst (head_of ports (ports ! i)))) \<noteq> None"
      "al_port (as ! i) = number_of ports first (ports ! i)"
      "0 < snd (head_of ports (ports ! i)) \<longrightarrow> map_of choices (tp_name (ports ! i)) \<in> {None, Some (al_port (as ! i))}"
    if "i < length ports" for i
    using to_allocation_Inr list_all2_nthD [OF all that] by blast+
  have known: "first (tp_name (fst (head_of ports p))) \<noteq> None" if "p \<in> set ports" for p
    using that nth(2) by (metis in_set_conv_nth)
  have bounds: "1 \<le> al_port (as ! i) \<and> al_port (as ! i) \<le> 65535 \<and> al_port (as ! i) \<notin> used"
    if i: "i < length ports" for i
    using number_of_bounds [OF placed inside [of "ports ! i"] nth(2) [OF i]] i nth(3) [OF i] by simp
  have "distinct ports" using ports_ok_distinct [OF template_ports_okD(1) [OF ok]] by (simp add: distinct_map)
  then have "distinct (map al_port as)"
    using number_of_distinct [OF ok placed inside known] nth(3) len
    by (auto simp: distinct_conv_nth)
  moreover have "al_port (as ! i) = al_port (as ! j) + 1"
    if "i < length ports" "j < length ports" "tp_follows (ports ! i) = Some (tp_name (ports ! j))" for i j
    using head_of_follower [OF ok _ _ that(3)] nth(3) that by (simp add: number_of_def)
  moreover have "al_port (as ! i) = c" if i: "i < length ports" and c: "map_of choices (tp_name (ports ! i)) = Some c" for i c
  proof (cases "snd (head_of ports (ports ! i)) = 0")
    case True
    then have "fst (head_of ports (ports ! i)) = ports ! i"
      using head_of_run [OF ok, of "ports ! i"] i by (metis fst_conv nth_mem run_of_0E snd_conv)
    with c firsts [of "ports ! i"] i True nth(3) [OF i] show ?thesis by (simp add: number_of_def)
  next
    case False
    with nth(4) [OF i] c show ?thesis by simp
  qed
  moreover have "range_start pool \<le> al_port (as ! i) \<and> al_port (as ! i) \<le> range_end pool"
    if i: "i < length ports" and "map_of choices (tp_name (fst (head_of ports (ports ! i)))) = None" for i
    using firsts [of "ports ! i"] inside [of "ports ! i"] that nth(3) [OF i] by (auto simp: number_of_def)
  moreover have "list_all2 describes ports as" using nth(1) len by (simp add: list_all2_conv_all_nth)
  moreover have "\<forall>a\<in>set as. 1 \<le> al_port a \<and> al_port a \<le> 65535 \<and> al_port a \<notin> used"
    using bounds len by (metis in_set_conv_nth)
  ultimately show ?thesis unfolding fits_node_def by blast
qed

text \<open>C26. For every template whose ports pass the schema, whatever the operator chose and whatever
  is in use, a successful allocation fits the node: one entry per template port, pairwise different
  ports between 1 and 65535 that no other instance uses, each follower exactly one above the port it
  follows, every choice honoured, and every block nobody chose inside the node's pool.\<close>

theorem allocate_ports_sound:
  assumes "template_ports_ok ports" and "allocate_ports ports choices used pool = Inr as"
  shows "fits_node ports choices used pool as"
  using assms by (rule allocation_fits)

lemmas allocate_eval = allocate_ports_def block_sizes_def add_size_def head_of_def
  head_of_from.simps index_by_def take_block_def default_fits_def next_free.simps to_allocation_def
  Let_def then_do_def

definition plain_port :: "string \<Rightarrow> int \<Rightarrow> string option \<Rightarrow> template_port" where
  "plain_port n d f = \<lparr>tp_name = n, tp_label = n, tp_protocol = Udp, tp_default = d,
     tp_primary = False, tp_follows = f\<rparr>"

text \<open>The three-port run of the repository's own test, with its default place taken.\<close>

theorem allocate_ports_sound_witness:
  "\<exists>as. allocate_ports [plain_port ''game'' 26900 None, plain_port ''game_2'' 26901 (Some ''game''),
       plain_port ''game_3'' 26902 (Some ''game_2'')] [] {26902} \<lparr>range_start = 26900, range_end = 26999\<rparr>
     = Inr as \<and> map al_port as = [26903, 26904, 26905]
   \<and> fits_node [plain_port ''game'' 26900 None, plain_port ''game_2'' 26901 (Some ''game''),
       plain_port ''game_3'' 26902 (Some ''game_2'')] [] {26902} \<lparr>range_start = 26900, range_end = 26999\<rparr> as"
  (is "\<exists>as. allocate_ports ?ps [] ?used ?pool = Inr as \<and> _")
proof -
  have ok: "template_ports_ok ?ps"
    by (simp add: template_ports_ok_def ports_ok_def plain_port_def port_name_re_def re_name_def
        char_class_defs Let_def)
  have "\<exists>as. allocate_ports ?ps [] ?used ?pool = Inr as \<and> map al_port as = [26903, 26904, 26905]"
    by (simp add: allocate_eval plain_port_def)
  then obtain as where as: "allocate_ports ?ps [] ?used ?pool = Inr as" "map al_port as = [26903, 26904, 26905]"
    by (elim exE conjE)
  show ?thesis using allocate_ports_sound [OF ok as(1)] as by (intro exI conjI)
qed

section \<open>When allocation succeeds\<close>

definition available :: "port_range \<Rightarrow> int set \<Rightarrow> int set" where
  "available pool taken = {x. range_start pool \<le> x \<and> x \<le> range_end pool \<and> 1 \<le> x \<and> x \<le> 65535 \<and> x \<notin> taken}"

lemma finite_available [simp]: "finite (available pool taken)"
  by (rule finite_subset [of _ "{1..65535}"]) (auto simp: available_def)

lemma available_take: "available pool (take_block taken s 1) = available pool taken - {s}"
  by (auto simp: available_def take_block_def)

lemma block_free_single: "block_free taken x 1 \<longleftrightarrow> 1 \<le> x \<and> x \<le> 65535 \<and> x \<notin> taken"
  by auto

lemma single_fits: "default_fits taken pool d 1 \<longleftrightarrow> d \<in> available pool taken"
  by (auto simp: default_fits_def available_def)

text \<open>\<open>passed pool taken cursor\<close>: the cursor has left no free port of the pool behind.\<close>

definition passed :: "port_range \<Rightarrow> int set \<Rightarrow> int \<Rightarrow> bool" where
  "passed pool taken cursor \<longleftrightarrow> range_start pool \<le> cursor
     \<and> (\<forall>x. range_start pool \<le> x \<and> x < cursor \<longrightarrow> x \<notin> available pool taken)"

lemma passed_take: "passed pool taken cursor \<Longrightarrow> passed pool (take_block taken s 1) cursor"
  unfolding passed_def available_take by blast

lemma next_free_single:
  assumes "passed pool taken cursor"
  defines "c \<equiv> next_free taken 1 (range_end pool) cursor"
  shows "passed pool taken c" and "c \<le> range_end pool \<Longrightarrow> c \<in> available pool taken"
    and "\<not> c \<le> range_end pool \<Longrightarrow> available pool taken = {}"
proof -
  have c: "cursor \<le> c" "c \<le> range_end pool \<Longrightarrow> block_free taken c 1"
      "\<And>x. cursor \<le> x \<Longrightarrow> x < c \<Longrightarrow> \<not> block_free taken x 1"
    using next_free_spec [of cursor taken 1 "range_end pool"] by (auto simp: c_def simp del: block_free.simps)
  have start: "range_start pool \<le> cursor" using assms(1) by (simp add: passed_def)
  have skipped: "x \<notin> available pool taken" if "range_start pool \<le> x" "x < c" for x
  proof (cases "x < cursor")
    case True
    with assms(1) that show ?thesis by (simp add: passed_def)
  next
    case False
    with c(3) [of x] that show ?thesis unfolding block_free_single by (auto simp: available_def)
  qed
  then show "passed pool taken c" using start c(1) by (simp add: passed_def)
  show "c \<in> available pool taken" if "c \<le> range_end pool"
    using c(1) c(2) [OF that] that start unfolding block_free_single by (simp add: available_def)
  show "available pool taken = {}" if e: "\<not> c \<le> range_end pool"
  proof -
    have "x \<notin> available pool taken" for x
      using skipped [of x] e by (cases "range_start pool \<le> x \<and> x \<le> range_end pool") (auto simp: available_def)
    then show ?thesis by blast
  qed
qed

lemma place_rest_single:
  assumes "\<forall>(a, n)\<in>set sizes. n = 1 \<and> first a = None \<and> by_name a \<noteq> None" and "distinct (map fst sizes)"
    and "passed pool taken cursor"
  shows "(\<exists>r. place_rest by_name pool cursor taken first sizes = Inr r)
    \<longleftrightarrow> length sizes \<le> card (available pool taken)"
  using assms
proof (induction sizes arbitrary: cursor taken first)
  case (Cons entry rest)
  obtain a n where entry: "entry = (a, n)" by (cases entry)
  with Cons.prems(1) obtain h where h: "n = 1" "first a = None" "by_name a = Some h" by auto
  define c where "c = next_free taken 1 (range_end pool) cursor"
  note nf = next_free_single [OF Cons.prems(3), folded c_def]
  have step: "(\<exists>r. place_rest by_name pool cur (take_block taken s 1) (first(a \<mapsto> s)) rest = Inr r)
      \<longleftrightarrow> length (entry # rest) \<le> card (available pool taken)"
    if s: "s \<in> available pool taken" and cur: "passed pool taken cur" for s cur
  proof -
    have others: "\<forall>(b, m)\<in>set rest. m = 1 \<and> (first(a \<mapsto> s)) b = None \<and> by_name b \<noteq> None"
    proof (intro ballI, split prod.split, intro allI impI)
      fix e b m assume e: "e \<in> set rest" "e = (b, m)"
      then have "b \<in> fst ` set rest" by force
      moreover have "a \<notin> fst ` set rest" using Cons.prems(2) by (simp add: entry)
      ultimately have "b \<noteq> a" by blast
      moreover have "case e of (b, m) \<Rightarrow> m = 1 \<and> first b = None \<and> by_name b \<noteq> None"
        using Cons.prems(1) e(1) by simp
      ultimately show "m = 1 \<and> (first(a \<mapsto> s)) b = None \<and> by_name b \<noteq> None" by (simp add: e(2))
    qed
    have "distinct (map fst rest)" using Cons.prems(2) by simp
    note IH = Cons.IH [OF others this passed_take [OF cur]]
    have "card (available pool (take_block taken s 1)) = card (available pool taken) - 1"
      using s by (simp only: available_take card_Diff_singleton)
    with IH have "(\<exists>r. place_rest by_name pool cur (take_block taken s 1) (first(a \<mapsto> s)) rest = Inr r)
        \<longleftrightarrow> length rest \<le> card (available pool taken) - 1"
      by (simp only:)
    moreover have "0 < card (available pool taken)"
      using s by (auto simp: card_gt_0_iff)
    ultimately show ?thesis by auto
  qed
  have unfold: "place_rest by_name pool cursor taken first (entry # rest) =
     (if tp_default h \<in> available pool taken
      then place_rest by_name pool cursor (take_block taken (tp_default h) 1) (first(a \<mapsto> tp_default h)) rest
      else if c > range_end pool then Inl (exhausted_error pool 1)
      else place_rest by_name pool c (take_block taken c 1) (first(a \<mapsto> c)) rest)"
    using h by (simp add: entry Let_def c_def single_fits [unfolded One_nat_def])
  show ?case
  proof (cases "tp_default h \<in> available pool taken")
    case True
    with step [OF True Cons.prems(3)] show ?thesis by (simp only: unfold if_True)
  next
    case miss: False
    show ?thesis
    proof (cases "c \<le> range_end pool")
      case True
      from step [OF nf(2) [OF True] nf(1)] miss True show ?thesis by (simp add: unfold)
    next
      case False
      with nf(3) [OF False] miss show ?thesis by (simp add: unfold)
    qed
  qed
qed simp

lemma plain_heads:
  assumes "template_ports_ok ports" and "\<forall>p\<in>set ports. tp_follows p = None" and "p \<in> set ports"
  shows "head_of ports p = (p, 0)"
  using assms by (simp add: head_of_def head_of_from.simps)

lemma plain_sizes:
  assumes ok: "template_ports_ok ports" and plain: "\<forall>p\<in>set ports. tp_follows p = None"
  shows "\<forall>(a, n)\<in>set (block_sizes ports). n = 1 \<and> index_by tp_name ports a \<noteq> None"
    and "fst ` set (block_sizes ports) = tp_name ` set ports"
    and "length (block_sizes ports) = length ports"
proof -
  have exact: "\<exists>p\<in>set ports. a = tp_name p \<and> n = 1" if "(a, n) \<in> set (block_sizes ports)" for a n
  proof -
    have "map_of (block_sizes ports) a = Some n"
      using that block_sizes_distinct by simp
    from block_sizes_exact [OF this] plain_heads [OF ok plain] show ?thesis by auto
  qed
  then show "\<forall>(a, n)\<in>set (block_sizes ports). n = 1 \<and> index_by tp_name ports a \<noteq> None"
    using template_ports_okD(2) [OF ok] by fastforce
  have "tp_name p \<in> fst ` set (block_sizes ports)" if "p \<in> set ports" for p
    using block_sizes_covers [OF that plain_heads [OF ok plain that]] by (force dest: map_of_SomeD)
  with exact show names: "fst ` set (block_sizes ports) = tp_name ` set ports" by force
  have "length (block_sizes ports) = card (fst ` set (block_sizes ports))"
    using distinct_card [OF block_sizes_distinct [of ports]] by simp
  also have "\<dots> = length ports"
    using distinct_card [OF ports_ok_distinct [OF template_ports_okD(1) [OF ok]]] by (simp add: names)
  finally show "length (block_sizes ports) = length ports" .
qed

lemma plain_succeeds:
  assumes ok: "template_ports_ok ports" and plain: "\<forall>p\<in>set ports. tp_follows p = None"
    and found: "\<forall>p\<in>set ports. first (tp_name p) \<noteq> None"
  shows "\<exists>as. map_result (to_allocation ports choices first) ports = Inr as"
proof -
  have "\<exists>a. to_allocation ports choices first p = Inr a" if "p \<in> set ports" for p
    using found that plain_heads [OF ok plain that] by (auto simp: to_allocation_def)
  then have "\<forall>p\<in>set ports. \<exists>a. to_allocation ports choices first p = Inr a" by blast
  then obtain f where "\<forall>p\<in>set ports. to_allocation ports choices first p = Inr (f p)" by metis
  then have "map_result (to_allocation ports choices first) ports = Inr (map f ports)"
    by (auto simp: map_result_Inr list_all2_conv_all_nth)
  then show ?thesis by blast
qed

lemma place_rest_finds:
  "place_rest by_name pool cursor taken first sizes = Inr (taken', first') \<Longrightarrow>
    (first a \<noteq> None \<or> a \<in> fst ` set sizes) \<Longrightarrow> first' a \<noteq> None"
proof (induction sizes arbitrary: cursor taken first)
  case (Cons entry rest)
  obtain b n where entry: "entry = (b, n)" by (cases entry)
  show ?case
  proof (cases "first b")
    case None
    with Cons.prems(1) obtain cur tk s where
      "place_rest by_name pool cur tk (first(b \<mapsto> s)) rest = Inr (taken', first')"
      by (auto simp: entry Let_def split: option.splits if_splits)
    from Cons.IH [OF this] Cons.prems(2) show ?thesis by (auto simp: entry)
  next
    case (Some x)
    with Cons.prems(1) have "place_rest by_name pool cursor taken first rest = Inr (taken', first')"
      by (simp add: entry)
    from Cons.IH [OF this] Cons.prems(2) Some show ?thesis by (auto simp: entry)
  qed
qed simp

text \<open>C27. For a template whose ports are all independent and no choices, allocation succeeds exactly
  when the node's pool has at least as many free ports as the template needs.\<close>

theorem plain_allocation_complete:
  assumes ok: "template_ports_ok ports" and plain: "\<forall>p\<in>set ports. tp_follows p = None"
  shows "(\<exists>as. allocate_ports ports [] used pool = Inr as)
    \<longleftrightarrow> length ports \<le> card (available pool used)"
proof -
  note sizes = plain_sizes [OF ok plain]
  have chosen: "place_chosen [] used Map.empty sz = Inr (used, Map.empty)" for sz
    by (induction sz) auto
  have "(\<exists>as. allocate_ports ports [] used pool = Inr as)
      \<longleftrightarrow> (\<exists>r. place_rest (index_by tp_name ports) pool (range_start pool) used Map.empty (block_sizes ports) = Inr r)"
  proof
    assume "\<exists>r. place_rest (index_by tp_name ports) pool (range_start pool) used Map.empty (block_sizes ports) = Inr r"
    then obtain taken first where
      r: "place_rest (index_by tp_name ports) pool (range_start pool) used Map.empty (block_sizes ports) = Inr (taken, first)"
      by auto
    have "first (tp_name p) \<noteq> None" if "p \<in> set ports" for p
      using place_rest_finds [OF r, of "tp_name p"] that sizes(2) by simp
    with plain_succeeds [OF ok plain] obtain as where
      "map_result (to_allocation ports [] first) ports = Inr as" by blast
    with r show "\<exists>as. allocate_ports ports [] used pool = Inr as"
      by (simp add: allocate_ports_def chosen then_do_def)
  qed (auto simp: allocate_ports_def chosen result_simps)
  also have "\<dots> \<longleftrightarrow> length (block_sizes ports) \<le> card (available pool used)"
    using sizes(1) block_sizes_distinct by (intro place_rest_single) (auto simp: passed_def)
  finally show ?thesis by (simp add: sizes(3))
qed

theorem plain_allocation_complete_witness:
  "\<not> (\<exists>as. allocate_ports [plain_port ''a'' 100 None, plain_port ''b'' 101 None] [] {100}
       \<lparr>range_start = 100, range_end = 101\<rparr> = Inr as)"
proof -
  have ok: "template_ports_ok [plain_port ''a'' 100 None, plain_port ''b'' 101 None]"
    by (simp add: template_ports_ok_def ports_ok_def plain_port_def port_name_re_def re_name_def
        char_class_defs Let_def)
  have "available \<lparr>range_start = 100, range_end = 101\<rparr> {100} = {101}"
    by (auto simp: available_def)
  then show ?thesis
    using plain_allocation_complete [OF ok, of "{100}" "\<lparr>range_start = 100, range_end = 101\<rparr>"]
    by (simp add: plain_port_def)
qed

text \<open>With runs it is not so: the cursor never goes back to a gap it skipped for a larger block. Here
  the pool has four free ports for four template ports; the template that names the run first is
  refused because port 100 was passed over, the one that names the single port first succeeds.\<close>

theorem cursor_skips_free_ports:
  "allocate_ports [plain_port ''a'' 1 None, plain_port ''a2'' 2 (Some ''a''), plain_port ''a3'' 3 (Some ''a2''),
     plain_port ''b'' 4 None] [] {101} \<lparr>range_start = 100, range_end = 104\<rparr>
   = Inl (exhausted_error \<lparr>range_start = 100, range_end = 104\<rparr> 1)
   \<and> 100 \<in> available \<lparr>range_start = 100, range_end = 104\<rparr> {101, 102, 103, 104}
   \<and> map_option (map al_port) (case allocate_ports [plain_port ''b'' 4 None, plain_port ''a'' 1 None,
        plain_port ''a2'' 2 (Some ''a''), plain_port ''a3'' 3 (Some ''a2'')] [] {101}
        \<lparr>range_start = 100, range_end = 104\<rparr> of Inl _ \<Rightarrow> None | Inr as \<Rightarrow> Some as)
     = Some [100, 102, 103, 104]"
  by (simp add: allocate_eval plain_port_def available_def)

lemma find_by_name:
  assumes ok: "template_ports_ok ports" and q: "q \<in> set ports"
  shows "find (\<lambda>p. tp_name p = tp_name q) ports = Some q"
proof -
  have "find (\<lambda>p. tp_name p = tp_name q) ports \<noteq> None" using q by (auto simp: find_None_iff)
  then obtain p where p: "find (\<lambda>p. tp_name p = tp_name q) ports = Some p" by blast
  then have "p \<in> set ports" "tp_name p = tp_name q" by (auto simp: find_Some_iff)
  with name_unique [OF template_ports_okD(1) [OF ok] _ q] p show ?thesis by simp
qed

lemma port_run_of:
  assumes ok: "template_ports_ok ports"
  shows "run_of ports p h k \<Longrightarrow> offset + k \<le> n \<Longrightarrow>
    port_run_from ports n (tp_name p) offset = (tp_name h, offset + k)"
proof (induction arbitrary: offset rule: run_of.induct)
  case (run_head h)
  with find_by_name [OF ok run_head(1)] show ?case
    by (simp add: port_run_from.simps [of _ _ "tp_name h"])
next
  case (run_next p q h k)
  have "q \<in> set ports" using run_of_member run_next.hyps by blast
  with template_ports_okD(3) [OF ok] have "tp_name q \<noteq> []" .
  with find_by_name [OF ok run_next.hyps(1)] run_next show ?case
    by (simp add: port_run_from.simps [of _ _ "tp_name p"])
qed

text \<open>The two walks over \<open>follows\<close> agree on every template the schema accepts: the name and offset
  the web form and the settings validation compute (\<open>portRun\<close>) are the head and offset the allocator
  places a port by (\<open>headOf\<close>).\<close>

theorem head_of_is_port_run:
  assumes ok: "template_ports_ok ports" and p: "p \<in> set ports"
  shows "port_run ports (tp_name p) = (tp_name (fst (head_of ports p)), snd (head_of ports p))"
proof -
  from run_of_exists [OF template_ports_okD(1) [OF ok] p]
  obtain h k where run: "run_of ports p h k" "k < length ports" by blast
  with head_of_from_run [OF ok run(1), of 0 "length ports"] port_run_of [OF ok run(1), of 0 "length ports"]
  show ?thesis by (simp add: head_of_def port_run_def)
qed

theorem head_of_is_port_run_witness:
  "port_run [plain_port ''game'' 26900 None, plain_port ''game_2'' 26901 (Some ''game'')] ''game_2''
     = (''game'', 1)
   \<and> fst (head_of [plain_port ''game'' 26900 None, plain_port ''game_2'' 26901 (Some ''game'')]
       (plain_port ''game_2'' 26901 (Some ''game''))) = plain_port ''game'' 26900 None"
  (is "_ \<and> fst (head_of ?ps ?p) = _")
proof -
  have ok: "template_ports_ok ?ps"
    by (simp add: template_ports_ok_def ports_ok_def plain_port_def port_name_re_def re_name_def
        char_class_defs Let_def)
  have h: "head_of ?ps ?p = (plain_port ''game'' 26900 None, 1)"
    by (simp add: head_of_def head_of_from.simps index_by_def plain_port_def)
  have "port_run ?ps (tp_name ?p) = (tp_name (fst (head_of ?ps ?p)), snd (head_of ?ps ?p))"
    by (rule head_of_is_port_run [OF ok]) simp
  with h show ?thesis by (simp add: plain_port_def)
qed
end
