(* ===== verification/Variables.thy ===== *)
theory Variables
  imports Ports "HOL-Library.Log_Nat"
begin

text \<open>
  The values of a template's variables: filling placeholders (\<open>substitute\<close>), checking one value
  (\<open>validateVariable\<close>, both in shared/src/api/templates.ts), and merging what a user sends over what
  an instance has (\<open>mergeVariables\<close> and \<open>pickImage\<close> in server/src/modules/instances/service.ts).
\<close>

section \<open>Placeholders\<close>

definition name_char :: "char \<Rightarrow> bool" where
  "name_char c \<longleftrightarrow> is_upper c \<or> is_digit c \<or> c = CHR ''_''"

text \<open>
  One match of \<open>{{\s*([A-Z][A-Z0-9_]*)\s*}}\<close> at the start of the text: the name and what follows.
  White space, names and braces share no character, so the greedy classes never backtrack.
\<close>

definition match_placeholder :: "string \<Rightarrow> (string \<times> string) option" where
  "match_placeholder s =
     (if \<not> prefix ''{{'' s then None
      else let body = dropWhile is_space (drop 2 s);
               name = takeWhile name_char body;
               close = dropWhile is_space (dropWhile name_char body) in
        if name \<noteq> [] \<and> is_upper (hd name) \<and> prefix ''}}'' close then Some (name, drop 2 close)
        else None)"

lemma match_placeholder_shorter:
  "match_placeholder s = Some (name, rest) \<Longrightarrow> length rest < length s"
proof -
  assume m: "match_placeholder s = Some (name, rest)"
  define body where "body = dropWhile is_space (drop 2 s)"
  define close where "close = dropWhile is_space (dropWhile name_char body)"
  from m have "prefix ''{{'' s" "rest = drop 2 close"
    by (auto simp: match_placeholder_def Let_def body_def close_def split: if_splits)
  moreover have "length close \<le> length body" "length body \<le> length s - 2"
    by (auto simp: close_def body_def intro: order_trans [OF length_dropWhile_le] )
  ultimately show ?thesis by (auto simp: prefix_def)
qed

text \<open>\<open>text.replace(/{{...}}/g, ...)\<close>: leftmost matches, one pass, unknown names left as they are.\<close>

function substitute :: "string \<Rightarrow> (string \<rightharpoonup> string) \<Rightarrow> string" where
  "substitute [] vars = []"
| "substitute (c # s) vars =
     (case match_placeholder (c # s) of
        None \<Rightarrow> c # substitute s vars
      | Some (name, rest) \<Rightarrow>
          (case vars name of Some v \<Rightarrow> v | None \<Rightarrow> take (length (c # s) - length rest) (c # s))
          @ substitute rest vars)"
  by pat_completeness auto
termination
  by (relation "measure (\<lambda>(s, _). length s)") (auto dest: match_placeholder_shorter)

declare substitute.simps(2) [simp del]

text \<open>A text as its author sees it: literal parts and placeholders.\<close>

datatype piece = Lit string | Placeholder string string string

fun piece_text :: "piece \<Rightarrow> string" where
  "piece_text (Lit s) = s"
| "piece_text (Placeholder before name after) = ''{{'' @ before @ name @ after @ ''}}''"

fun piece_ok :: "piece \<Rightarrow> bool" where
  "piece_ok (Lit s) \<longleftrightarrow> CHR 0x7B \<notin> set s"
| "piece_ok (Placeholder before name after) \<longleftrightarrow> list_all is_space before \<and> list_all is_space after
     \<and> name \<noteq> [] \<and> is_upper (hd name) \<and> list_all name_char name"

fun piece_value :: "(string \<rightharpoonup> string) \<Rightarrow> piece \<Rightarrow> string" where
  "piece_value vars (Lit s) = s"
| "piece_value vars (Placeholder before name after) =
     (case vars name of Some v \<Rightarrow> v | None \<Rightarrow> piece_text (Placeholder before name after))"

lemma class_disjoint:
  "is_space c \<Longrightarrow> \<not> name_char c" "name_char c \<Longrightarrow> \<not> is_space c"
  "\<not> is_space CHR 0x7D" "\<not> name_char CHR 0x7D" "\<not> is_space CHR 0x7B" "\<not> name_char CHR 0x7B"
  by (auto simp: name_char_def char_class_defs)

lemma dropWhile_class: "list_all P xs \<Longrightarrow> ys = [] \<or> \<not> P (hd ys) \<Longrightarrow>
    dropWhile P (xs @ ys) = ys \<and> takeWhile P (xs @ ys) = xs"
  by (induction xs) (cases ys; auto)+

lemma match_placeholder_piece:
  assumes ok: "piece_ok (Placeholder before name after)"
  shows "match_placeholder (piece_text (Placeholder before name after) @ rest) = Some (name, rest)"
proof -
  from ok have b: "list_all is_space before" "list_all is_space after" "list_all name_char name"
    and n: "name \<noteq> []" "is_upper (hd name)" by auto
  obtain n0 ns where name: "name = n0 # ns" using n(1) by (cases name) auto
  with b(3) have start: "\<not> is_space n0" using class_disjoint(2) by simp
  have s1: "dropWhile is_space (before @ name @ after @ ''}}'' @ rest) = name @ after @ ''}}'' @ rest"
    using dropWhile_class [OF b(1), of "name @ after @ ''}}'' @ rest"] start by (simp add: name)
  have "after @ ''}}'' @ rest = [] \<or> \<not> name_char (hd (after @ ''}}'' @ rest))"
    using b(2) class_disjoint by (cases after) auto
  note s2 = dropWhile_class [OF b(3) this]
  have s3: "dropWhile is_space (after @ ''}}'' @ rest) = ''}}'' @ rest"
    using dropWhile_class [OF b(2), of "''}}'' @ rest"] class_disjoint by simp
  show ?thesis
    using s1 s2 s3 n by (simp add: match_placeholder_def Let_def)
qed

lemma substitute_literal: "CHR 0x7B \<notin> set s \<Longrightarrow> substitute (s @ t) vars = s @ substitute t vars"
  by (induction s) (auto simp: substitute.simps match_placeholder_def split: option.splits)

lemma substitute_placeholder:
  assumes ok: "piece_ok (Placeholder before name after)"
  shows "substitute (piece_text (Placeholder before name after) @ t) vars
    = piece_value vars (Placeholder before name after) @ substitute t vars"
proof -
  define p where "p = piece_text (Placeholder before name after)"
  obtain c s where p: "p = c # s" by (cases p) (auto simp: p_def)
  have m: "match_placeholder (c # s @ t) = Some (name, t)"
    using match_placeholder_piece [OF ok, of t, folded p_def] by (simp only: p append_Cons)
  have "take (length (c # s @ t) - length t) (c # s @ t) = p" by (simp add: p)
  with m show ?thesis
    unfolding p_def [symmetric] piece_value.simps by (simp add: p substitute.simps split: option.splits)
qed

text \<open>Substitution is one pass over the text: in a text made of literal parts and placeholders every
  known placeholder becomes its value as it is, placeholders inside values included, and everything
  else stays.\<close>

theorem substitute_pieces:
  assumes "list_all piece_ok ps"
  shows "substitute (concat (map piece_text ps)) vars = concat (map (piece_value vars) ps)"
  using assms
proof (induction ps)
  case (Cons p ps)
  then show ?case
  proof (cases p)
    case (Lit s)
    with Cons show ?thesis by (simp add: substitute_literal)
  next
    case (Placeholder before name after)
    with Cons substitute_placeholder [of before name after "concat (map piece_text ps)" vars]
    show ?thesis by (simp del: piece_text.simps piece_value.simps)
  qed
qed simp

theorem substitute_pieces_witness:
  "substitute ''-p {{ PORT }} {{X}}'' [''PORT'' \<mapsto> ''{{X}}''] = ''-p {{X}} {{X}}''"
proof -
  have "list_all piece_ok [Lit ''-p '', Placeholder '' '' ''PORT'' '' '', Lit '' '', Placeholder [] ''X'' []]"
    by (simp add: name_char_def char_class_defs)
  from substitute_pieces [OF this, of "[''PORT'' \<mapsto> ''{{X}}'']"] show ?thesis by simp
qed

section \<open>Numbers as JavaScript reads them\<close>

text \<open>\<open>Number(text)\<close>: not a number, an infinity, or the double nearest to the decimal or based literal.\<close>

datatype js_number = NaN | Infinite | Finite rat

definition round_half_even :: "rat \<Rightarrow> int" where
  "round_half_even x = (let f = \<lfloor>x\<rfloor>; d = x - of_int f in
     if d < 1/2 then f else if d > 1/2 then f + 1 else if even f then f else f + 1)"

definition log2_floor :: "rat \<Rightarrow> int" where
  "log2_floor q = (let (n, d) = quotient_of q; k = bitlen n - bitlen d in
     if 2 powi k \<le> q then k else k - 1)"

text \<open>IEEE 754 binary64, round to nearest, ties to even: 53 significant bits, least exponent -1074.\<close>

definition round_double :: "rat \<Rightarrow> js_number" where
  "round_double x =
     (if x = 0 then Finite 0
      else let e = max (-1074) (log2_floor \<bar>x\<bar> - 52);
               r = of_int (round_half_even (x / 2 powi e)) * 2 powi e in
        if 2 ^ 1024 \<le> \<bar>r\<bar> then Infinite else Finite r)"

definition digit_value :: "char \<Rightarrow> nat" where
  "digit_value c = (if is_digit c then of_char c - 48
     else if is_lower c then of_char c - 87 else if is_upper c then of_char c - 55 else 99)"

definition based :: "nat \<Rightarrow> string \<Rightarrow> js_number" where
  "based b s = (if s = [] \<or> list_ex (\<lambda>c. b \<le> digit_value c) s then NaN
     else round_double (of_nat (foldl (\<lambda>n c. n * b + digit_value c) 0 s)))"

text \<open>The exponent part after the digits; \<open>None\<close> when the text does not end there.\<close>

definition exponent_part :: "string \<Rightarrow> int option" where
  "exponent_part s = (case s of
     [] \<Rightarrow> Some 0
   | c # t \<Rightarrow>
       if c \<noteq> CHR ''e'' \<and> c \<noteq> CHR ''E'' then None
       else let neg = prefix ''-'' t; ds = (if prefix ''-'' t \<or> prefix ''+'' t then tl t else t) in
         if ds = [] \<or> \<not> list_all is_digit ds then None
         else Some ((if neg then -1 else 1) * int (nat_of_digits ds)))"

definition unsigned_decimal :: "string \<Rightarrow> rat option" where
  "unsigned_decimal s =
     (let ip = takeWhile is_digit s; r = dropWhile is_digit s;
          dot = prefix ''.'' r;
          fp = (if dot then takeWhile is_digit (tl r) else []);
          r2 = (if dot then dropWhile is_digit (tl r) else r) in
      if ip = [] \<and> fp = [] then None
      else map_option (\<lambda>e. of_nat (nat_of_digits (ip @ fp)) * 10 powi (e - int (length fp)))
             (exponent_part r2))"

definition decimal :: "string \<Rightarrow> js_number" where
  "decimal s =
     (let neg = prefix ''-'' s; t = (if prefix ''-'' s \<or> prefix ''+'' s then tl s else s) in
      if t = ''Infinity'' then Infinite
      else case unsigned_decimal t of
        None \<Rightarrow> NaN
      | Some q \<Rightarrow> round_double (if neg then - q else q))"

definition js_number_of :: "string \<Rightarrow> js_number" where
  "js_number_of text =
     (let s = js_trim text in
      if s = [] then Finite 0
      else if prefix ''0x'' s \<or> prefix ''0X'' s then based 16 (drop 2 s)
      else if prefix ''0o'' s \<or> prefix ''0O'' s then based 8 (drop 2 s)
      else if prefix ''0b'' s \<or> prefix ''0B'' s then based 2 (drop 2 s)
      else decimal s)"

section \<open>One value\<close>

definition line_breaking :: "char \<Rightarrow> bool" where
  "line_breaking c \<longleftrightarrow> (of_char c :: nat) \<in> {0, 10, 13}"

definition number_problem :: "template_variable \<Rightarrow> string \<Rightarrow> detail option" where
  "number_problem v text = (case js_number_of text of
     Finite n \<Rightarrow>
       (case tv_min v of
          Some lo \<Rightarrow> if n < lo then Some (At_Least lo)
                     else (case tv_max v of
                       Some hi \<Rightarrow> if n > hi then Some (At_Most hi) else None
                     | None \<Rightarrow> None)
        | None \<Rightarrow> (case tv_max v of
            Some hi \<Rightarrow> if n > hi then Some (At_Most hi) else None
          | None \<Rightarrow> None))
   | _ \<Rightarrow> Some (Msg ''Must be a number''))"

definition type_problem :: "template_variable \<Rightarrow> string \<Rightarrow> detail option" where
  "type_problem v text = (case tv_type v of
     Number_Var \<Rightarrow> number_problem v text
   | Boolean_Var \<Rightarrow>
       if text \<noteq> ''true'' \<and> text \<noteq> ''false'' then Some (Msg ''Must be true or false'') else None
   | Select_Var \<Rightarrow>
       if \<not> tv_allow_custom v \<and> \<not> list_ex (\<lambda>o'. so_value o' = text) (tv_options v)
       then Some (Msg ''Not one of the options'') else None
   | _ \<Rightarrow> None)"

text \<open>
  \<open>re_test p s\<close> stands for \<open>new RegExp(p).test(s)\<close>, \<open>None\<close> when the pattern does not compile: the
  regular expression engine is a parameter.
\<close>

definition validate_variable ::
    "(string \<Rightarrow> string \<Rightarrow> bool option) \<Rightarrow> template_variable \<Rightarrow> string \<Rightarrow> detail option" where
  "validate_variable re_test v text =
     (if text = [] then (if tv_required v then Some (Msg ''Required'') else None)
      else case type_problem v text of
        Some problem \<Rightarrow> Some problem
      | None \<Rightarrow>
          if (case truthy (tv_pattern v) of None \<Rightarrow> False | Some p \<Rightarrow> re_test p text = Some False)
          then Some (Msg ''Does not match the expected format'')
          else if list_ex line_breaking text then Some (Msg ''Must be a single line'')
          else None)"

section \<open>Integers\<close>

lemma round_half_even_int [simp]: "round_half_even (of_int m) = m"
  by (simp add: round_half_even_def Let_def)

lemma log2_floor_int:
  assumes "0 < n"
  shows "log2_floor (of_int n) = bitlen n - 1"
proof -
  have b: "2 ^ nat (bitlen n - 1) \<le> n" "0 < bitlen n"
    using bitlen_bounds [OF assms] assms bitlen_eq_zero_iff [of n] bitlen_nonneg [of n] by auto
  have "(2::rat) powi (bitlen n - 1) = of_int (2 ^ nat (bitlen n - 1))"
    using b(2) by (simp add: power_int_def)
  also have "\<dots> \<le> of_int n" using b(1) by (simp only: of_int_le_iff)
  finally show ?thesis
    by (simp add: log2_floor_def Let_def bitlen_alt_def [of 1] floorlog_def)
qed

lemma round_double_int:
  assumes "\<bar>n\<bar> < 2 ^ 53"
  shows "round_double (of_int n) = Finite (of_int n)"
proof (cases "n = 0")
  case False
  define e where "e = max (-1074) (bitlen \<bar>n\<bar> - 1 - 52)"
  have "bitlen \<bar>n\<bar> \<le> 53" using bitlen_le_iff_power [of "\<bar>n\<bar>" 53] assms by simp
  then have e: "e \<le> 0" by (simp add: e_def)
  have log: "log2_floor \<bar>of_int n\<bar> = bitlen \<bar>n\<bar> - 1"
    using log2_floor_int [of "\<bar>n\<bar>"] False by simp
  have "of_int n / (2::rat) powi e = of_int (n * 2 ^ nat (- e))"
    using e by (auto simp: power_int_def field_simps)
  then have scaled: "round_half_even (of_int n / 2 powi e) = n * 2 ^ nat (- e)" by (simp only: round_half_even_int)
  have unscaled: "of_int (n * 2 ^ nat (- e)) * (2::rat) powi e = of_int n"
    using e by (auto simp: power_int_def field_simps)
  have "\<bar>n\<bar> < 2 ^ 1024"
    using assms power_increasing [of 53 1024 "2::int"] by linarith
  then have "\<not> (2::rat) ^ 1024 \<le> \<bar>of_int n\<bar>"
    using of_int_less_iff [of "\<bar>n\<bar>" "2 ^ 1024", where ?'a = rat] by simp
  then show ?thesis
    unfolding round_double_def Let_def log e_def [symmetric] scaled unscaled using False by simp
qed (simp add: round_double_def)

lemma digit_not_special: "is_digit c \<Longrightarrow> \<not> is_space c \<and> c \<noteq> CHR ''x'' \<and> c \<noteq> CHR ''X'' \<and> c \<noteq> CHR ''o''
    \<and> c \<noteq> CHR ''O'' \<and> c \<noteq> CHR ''b'' \<and> c \<noteq> CHR ''B'' \<and> c \<noteq> CHR ''-'' \<and> c \<noteq> CHR ''+'' \<and> c \<noteq> CHR ''I''
    \<and> c \<noteq> CHR ''.'' \<and> \<not> line_breaking c"
  by (auto simp: char_class_defs line_breaking_def)

lemma dropWhile_none: "list_all (\<lambda>c. \<not> P c) s \<Longrightarrow> dropWhile P s = s"
  by (cases s) auto

lemma js_trim_id: "list_all (\<lambda>c. \<not> is_space c) s \<Longrightarrow> js_trim s = s"
  by (simp add: js_trim_def dropWhile_none)

lemma string_of_int_cases:
  obtains ds where "ds \<noteq> []" "list_all is_digit ds" "string_of_int n = ds" "nat_of_digits ds = nat n" "0 \<le> n"
  | ds where "ds \<noteq> []" "list_all is_digit ds" "string_of_int n = CHR ''-'' # ds"
      "nat_of_digits ds = nat (- n)" "n < 0"
proof (cases "n < 0")
  case True
  then show ?thesis
    using digits_of_digits [of "nat (- n)"]
    by (intro that(2) [of "digits_of (nat (- n))"]) (simp_all add: string_of_int_def list_all_iff)
next
  case False
  then show ?thesis
    using digits_of_digits [of "nat n"]
    by (intro that(1) [of "digits_of (nat n)"]) (simp_all add: string_of_int_def list_all_iff)
qed

lemma unsigned_digits: "ds \<noteq> [] \<Longrightarrow> list_all is_digit ds \<Longrightarrow> unsigned_decimal ds = Some (of_nat (nat_of_digits ds))"
  by (simp add: unsigned_decimal_def exponent_part_def takeWhile_eq_all_conv [THEN iffD2] list_all_iff
      dropWhile_eq_Nil_conv [THEN iffD2])

lemma js_number_of_int:
  assumes "\<bar>n\<bar> < 2 ^ 53"
  shows "js_number_of (string_of_int n) = Finite (of_int n)"
proof (cases rule: string_of_int_cases [of n])
  case (1 ds)
  obtain d es where ds: "ds = d # es" using 1(1) by (cases ds) auto
  have sp: "\<And>c. c \<in> set ds \<Longrightarrow> is_digit c" using 1(2) by (simp add: list_all_iff)
  note no = digit_not_special [OF sp]
  have "js_trim ds = ds" using no by (intro js_trim_id) (auto simp: list_all_iff)
  moreover have "decimal ds = Finite (of_int n)"
    using no [of d] unsigned_digits [OF 1(1,2)] 1(4,5) round_double_int [OF assms] by (auto simp: decimal_def Let_def ds)
  moreover have "\<not> prefix [a, c] ds" if "c \<in> set ''xXoObB''" for a c
  proof
    assume "prefix [a, c] ds"
    then have "c \<in> set ds" by (auto simp: prefix_def)
    with no [of c] that show False by auto
  qed
  ultimately show ?thesis using 1(1,3) by (simp add: js_number_of_def Let_def)
next
  case (2 ds)
  have sp: "\<And>c. c \<in> set ds \<Longrightarrow> is_digit c" using 2(2) by (simp add: list_all_iff)
  note no = digit_not_special [OF sp]
  have "js_trim (CHR ''-'' # ds) = CHR ''-'' # ds" using no
    by (intro js_trim_id) (auto simp: list_all_iff is_space_def)
  moreover have "decimal (CHR ''-'' # ds) = Finite (of_int n)"
    using no [of "hd ds"] unsigned_digits [OF 2(1,2)] 2(1,4,5) round_double_int [OF assms]
    by (cases ds) (auto simp: decimal_def Let_def)
  ultimately show ?thesis using 2(3) by (simp add: js_number_of_def Let_def)
qed

text \<open>A number variable without a pattern accepts an integer in decimal notation exactly when it
  lies between the declared bounds, for every integer a double holds exactly.\<close>

theorem number_variable_bounds:
  assumes "tv_type v = Number_Var" and "truthy (tv_pattern v) = None" and "\<bar>n\<bar> < 2 ^ 53"
  shows "validate_variable re_test v (string_of_int n) = None
    \<longleftrightarrow> (\<forall>lo. tv_min v = Some lo \<longrightarrow> lo \<le> of_int n) \<and> (\<forall>hi. tv_max v = Some hi \<longrightarrow> of_int n \<le> hi)"
proof -
  have "string_of_int n \<noteq> [] \<and> \<not> list_ex line_breaking (string_of_int n)"
    using digit_not_special
    by (cases rule: string_of_int_cases [of n]) (auto simp: list_ex_iff list_all_iff line_breaking_def)
  then show ?thesis
    using assms js_number_of_int [OF assms(3)]
    by (auto simp: validate_variable_def type_problem_def number_problem_def split: option.splits)
qed

definition sample_number :: template_variable where
  "sample_number = \<lparr>tv_name = ''MAX_PLAYERS'', tv_label = ''Players'', tv_description = [], tv_type = Number_Var,
     tv_default = ''20'', tv_required = True, tv_options = [], tv_allow_custom = False, tv_min = Some 1,
     tv_max = Some 100, tv_version_source = None, tv_depends_on = None, tv_editable = True,
     tv_viewable = True, tv_pattern = None, tv_group = []\<rparr>"

theorem number_variable_bounds_witness:
  "validate_variable (\<lambda>_ _. None) sample_number (string_of_int 100) = None
   \<and> validate_variable (\<lambda>_ _. None) sample_number (string_of_int (- 1)) \<noteq> None"
  using number_variable_bounds [of sample_number 100 "\<lambda>_ _. None"]
    number_variable_bounds [of sample_number "-1" "\<lambda>_ _. None"]
  by (simp add: sample_number_def)

section \<open>Merging what a user sends\<close>

text \<open>The value a variable had: \<open>current?.[v.name] ?? v.default\<close>.\<close>

definition value_before :: "(string \<times> string) list option \<Rightarrow> template_variable \<Rightarrow> string" where
  "value_before current v = (case Option.bind current (\<lambda>vars. map_of vars (tv_name v)) of
     Some x \<Rightarrow> x | None \<Rightarrow> tv_default v)"

fun merge_loop :: "(string \<Rightarrow> string \<Rightarrow> bool option) \<Rightarrow> (string \<times> string) list option \<Rightarrow>
    (string \<times> string) list \<Rightarrow> instance_role \<Rightarrow> (string \<times> string) list \<Rightarrow> (string \<times> detail) list \<Rightarrow>
    template_variable list \<Rightarrow> ((string \<times> string) list \<times> (string \<times> detail) list) result" where
  "merge_loop re_test current input who out problems [] = Inr (out, problems)"
| "merge_loop re_test current input who out problems (v # vs) =
     (let before = value_before current v;
          asked = (case map_of input (tv_name v) of Some x \<Rightarrow> x | None \<Rightarrow> before) in
      if asked \<noteq> before \<and> \<not> tv_editable v \<and> who \<noteq> Owner
      then Inl (forbidden (tv_label v @ '' can only be changed by an owner''))
      else merge_loop re_test current input who (AList.update (tv_name v) asked out)
        (case validate_variable re_test v asked of
           None \<Rightarrow> problems | Some problem \<Rightarrow> AList.update (tv_name v) problem problems) vs)"

definition merge_variables :: "(string \<Rightarrow> string \<Rightarrow> bool option) \<Rightarrow> template_variable list \<Rightarrow>
    (string \<times> string) list option \<Rightarrow> (string \<times> string) list \<Rightarrow> instance_role \<Rightarrow>
    (string \<times> string) list result" where
  "merge_variables re_test variables current input who =
     (case find (\<lambda>name. index_by tv_name variables name = None) (map fst input) of
        Some name \<Rightarrow> Inl (bad_request (''Unknown variable '' @ name))
      | None \<Rightarrow>
          then_do (merge_loop re_test current input who [] [] variables) (\<lambda>(out, problems).
            if problems \<noteq> [] then Inl (bad_request_with ''Some variables are invalid'' problems)
            else Inr out))"

definition pick_image :: "template_definition \<Rightarrow> string option \<Rightarrow> string option \<Rightarrow> string result" where
  "pick_image def chosen current = (case chosen of
     None \<Rightarrow> Inr (case current of Some c \<Rightarrow> c | None \<Rightarrow> td_image def)
   | Some i \<Rightarrow>
       if i \<notin> set (td_image def # map img_ref (td_images def))
       then Inl (bad_request ''That image is not one the template offers'')
       else Inr i)"

text \<open>What a merge asks for, variable by variable, and when it is allowed.\<close>

definition asked_for ::
    "(string \<times> string) list option \<Rightarrow> (string \<times> string) list \<Rightarrow> template_variable \<Rightarrow> string" where
  "asked_for current input v =
     (case map_of input (tv_name v) of Some x \<Rightarrow> x | None \<Rightarrow> value_before current v)"

definition may_change :: "(string \<times> string) list option \<Rightarrow> (string \<times> string) list \<Rightarrow>
    instance_role \<Rightarrow> template_variable \<Rightarrow> bool" where
  "may_change current input who v \<longleftrightarrow>
     asked_for current input v = value_before current v \<or> tv_editable v \<or> who = Owner"

lemma update_new: "k \<notin> fst ` set xs \<Longrightarrow> AList.update k v xs = xs @ [(k, v)]"
  by (induction xs) auto

lemma merge_loop_Inr:
  "distinct (map tv_name vs) \<Longrightarrow> fst ` set out \<inter> tv_name ` set vs = {} \<Longrightarrow>
    merge_loop re_test current input who out problems vs = Inr (out', problems') \<longleftrightarrow>
      list_all (may_change current input who) vs
      \<and> out' = out @ map (\<lambda>v. (tv_name v, asked_for current input v)) vs
      \<and> problems' = foldl (\<lambda>ps v. case validate_variable re_test v (asked_for current input v) of
          None \<Rightarrow> ps | Some problem \<Rightarrow> AList.update (tv_name v) problem ps) problems vs"
proof (induction vs arbitrary: out problems)
  case (Cons v vs)
  have fresh: "AList.update (tv_name v) x out = out @ [(tv_name v, x)]" for x
    using Cons.prems(2) by (intro update_new) auto
  have "fst ` set (out @ [(tv_name v, x)]) \<inter> tv_name ` set vs = {}" for x
    using Cons.prems by auto
  from Cons.IH [OF _ this] Cons.prems(1) show ?case
    by (auto simp: Let_def asked_for_def [symmetric] may_change_def fresh)
qed auto

lemma no_problems: "foldl (\<lambda>ps v. case f v of None \<Rightarrow> ps | Some problem \<Rightarrow> AList.update (key v) problem ps) ps vs = []
    \<longleftrightarrow> ps = [] \<and> list_all (\<lambda>v. f v = None) vs"
proof (induction vs arbitrary: ps)
  case (Cons v vs)
  have "AList.update k x ps \<noteq> []" for k x by (cases ps) auto
  with Cons show ?case by (auto split: option.splits)
qed simp

lemma merge_result:
  assumes "distinct (map tv_name variables)"
  shows "merge_variables re_test variables current input who = Inr out \<longleftrightarrow>
    fst ` set input \<subseteq> tv_name ` set variables
    \<and> list_all (may_change current input who) variables
    \<and> list_all (\<lambda>v. validate_variable re_test v (asked_for current input v) = None) variables
    \<and> out = map (\<lambda>v. (tv_name v, asked_for current input v)) variables"
proof -
  have known: "find (\<lambda>name. index_by tv_name variables name = None) (map fst input) = None
      \<longleftrightarrow> fst ` set input \<subseteq> tv_name ` set variables"
    by (auto simp: find_None_iff index_by_None)
  note loop = merge_loop_Inr [OF assms, of "[]", simplified]
  show ?thesis
    unfolding known [symmetric]
    by (auto simp: merge_variables_def loop result_simps no_problems split: option.splits if_splits)
qed

text \<open>A merge succeeds exactly when every name sent is a variable of the template, every change is
  to an editable variable or made by an owner, and every resulting value is valid; the result gives
  each variable, in the template's order, the value sent, else the one it had, else its default.\<close>

theorem merge_variables_iff:
  assumes "distinct (map tv_name variables)"
  shows "merge_variables re_test variables current input who = Inr out \<longleftrightarrow>
    fst ` set input \<subseteq> tv_name ` set variables
    \<and> list_all (may_change current input who) variables
    \<and> list_all (\<lambda>v. validate_variable re_test v (asked_for current input v) = None) variables
    \<and> out = map (\<lambda>v. (tv_name v, asked_for current input v)) variables"
  using assms by (rule merge_result)

definition sample_text :: template_variable where
  "sample_text = sample_number\<lparr>tv_name := ''MOTD'', tv_type := Text_Var, tv_min := None, tv_max := None\<rparr>"

lemmas sample_defs = sample_text_def sample_number_def

theorem merge_variables_iff_witness:
  "merge_variables (\<lambda>_ _. None) [sample_text, sample_text\<lparr>tv_name := ''SLOTS'', tv_editable := False\<rparr>]
     None [(''MOTD'', ''hi'')] Viewer
   = Inr [(''MOTD'', ''hi''), (''SLOTS'', ''20'')]"
proof -
  have d: "distinct (map tv_name [sample_text, sample_text\<lparr>tv_name := ''SLOTS'', tv_editable := False\<rparr>])"
    by (simp add: sample_defs)
  show ?thesis
    unfolding merge_variables_iff [OF d]
    by (simp add: may_change_def asked_for_def value_before_def sample_defs validate_variable_def
        type_problem_def line_breaking_def)
qed

lemma valid_single_line: "validate_variable re_test v text = None \<Longrightarrow> \<not> list_ex line_breaking text"
  by (cases "text = []") (auto simp: validate_variable_def split: if_splits option.splits)

text \<open>No accepted value breaks a line: whatever a template declares and a user sends, the values an
  instance ends up with contain no NUL, line feed or carriage return.\<close>

theorem merged_values_single_line:
  assumes "merge_variables re_test variables current input who = Inr out"
    and "distinct (map tv_name variables)" and "(name, text) \<in> set out"
  shows "\<not> list_ex line_breaking text"
proof -
  have "list_all (\<lambda>v. validate_variable re_test v (asked_for current input v) = None) variables
      \<and> out = map (\<lambda>v. (tv_name v, asked_for current input v)) variables"
    using assms(1,2) merge_result by blast
  with assms(3) valid_single_line show ?thesis by (auto simp: list_all_iff)
qed

theorem merged_values_single_line_witness:
  "\<not> list_ex line_breaking ''hi''"
proof (rule merged_values_single_line)
  show "merge_variables (\<lambda>_ _. None) [sample_text] None [(''MOTD'', ''hi'')] Viewer = Inr [(''MOTD'', ''hi'')]"
    by (simp add: merge_variables_def index_by_def value_before_def sample_defs validate_variable_def
        type_problem_def line_breaking_def then_do_def)
qed (simp_all add: sample_defs)

end
