(* ===== verification/Version.thy ===== *)
theory Version
  imports Prelude
begin

text \<open>
  Agent versions (shared/src/version.ts): the parser of \<open>VERSION_RE\<close>, the comparison, and the
  test the panel uses to offer an update and to refuse an agent that is too old. A numeric part is
  a natural number; JavaScript rounds one of more than 15 digits, the model does not.
\<close>

section \<open>Parsing\<close>

record parsed_version =
  major :: nat
  minor :: nat
  patch :: nat
  prerelease :: "string list"

text \<open>The pieces of \<open>VERSION_RE\<close>. Each takes the longest run; what follows a run is never a
  character of it, so the regular expression has no other way to match.\<close>

definition re_number :: "string \<Rightarrow> (nat \<times> string) option" where
  "re_number s = (let ds = takeWhile is_digit s in
     if ds = [] then None else Some (nat_of_digits ds, dropWhile is_digit s))"

definition re_char :: "char \<Rightarrow> string \<Rightarrow> string option" where
  "re_char c s = (case s of [] \<Rightarrow> None | x # xs \<Rightarrow> if x = c then Some xs else None)"

definition tag_char :: "char \<Rightarrow> bool" where
  "tag_char c \<longleftrightarrow> is_alnum c \<or> c = CHR ''.'' \<or> c = CHR ''-''"

definition re_tag :: "char \<Rightarrow> string \<Rightarrow> (string \<times> string) option" where
  "re_tag c s = (case re_char c s of
     None \<Rightarrow> Some ([], s)
   | Some t \<Rightarrow> (if takeWhile tag_char t = [] then None
               else Some (takeWhile tag_char t, dropWhile tag_char t)))"

definition re_version :: "string \<Rightarrow> (nat \<times> nat \<times> nat \<times> string) option" where
  "re_version s =
     Option.bind (re_number (case re_char (CHR ''v'') s of Some t \<Rightarrow> t | None \<Rightarrow> s)) (\<lambda>(a, s1).
     Option.bind (re_char (CHR ''.'') s1) (\<lambda>s2.
     Option.bind (re_number s2) (\<lambda>(b, s3).
     Option.bind (re_char (CHR ''.'') s3) (\<lambda>s4.
     Option.bind (re_number s4) (\<lambda>(c, s5).
     Option.bind (re_tag (CHR ''-'') s5) (\<lambda>(pre, s6).
     Option.bind (re_tag (CHR ''+'') s6) (\<lambda>(_, rest).
     if rest = [] then Some (a, b, c, pre) else None)))))))"

definition parse_version :: "string option \<Rightarrow> parsed_version option" where
  "parse_version v = (case truthy v of
     None \<Rightarrow> None
   | Some s \<Rightarrow> (case re_version (js_trim s) of
       None \<Rightarrow> None
     | Some (a, b, c, pre) \<Rightarrow>
         Some \<lparr>major = a, minor = b, patch = c,
               prerelease = (if pre = [] then [] else split_on (CHR ''.'') pre)\<rparr>))"

section \<open>Comparing\<close>

definition numeric_ident :: "string \<Rightarrow> bool" where
  "numeric_ident s \<longleftrightarrow> s \<noteq> [] \<and> list_all is_digit s"

definition cmp_ident :: "string \<Rightarrow> string \<Rightarrow> int" where
  "cmp_ident a b =
     (let na = numeric_ident a; nb = numeric_ident b in
      if na \<and> nb then int (nat_of_digits a) - int (nat_of_digits b)
      else if na then -1
      else if nb then 1
      else if a < b then -1 else if a > b then 1 else 0)"

fun cmp_prerelease :: "string list \<Rightarrow> string list \<Rightarrow> int" where
  "cmp_prerelease [] [] = 0"
| "cmp_prerelease [] (y # ys) = -1"
| "cmp_prerelease (x # xs) [] = 1"
| "cmp_prerelease (x # xs) (y # ys) =
     (let c = cmp_ident x y in if c \<noteq> 0 then c else cmp_prerelease xs ys)"

definition cmp_parsed :: "parsed_version \<Rightarrow> parsed_version \<Rightarrow> int" where
  "cmp_parsed a b =
     (if major a \<noteq> major b then int (major a) - int (major b)
      else if minor a \<noteq> minor b then int (minor a) - int (minor b)
      else if patch a \<noteq> patch b then int (patch a) - int (patch b)
      else if prerelease a = [] \<and> prerelease b = [] then 0
      else if prerelease a = [] then 1
      else if prerelease b = [] then -1
      else cmp_prerelease (prerelease a) (prerelease b))"

definition compare_versions :: "string option \<Rightarrow> string option \<Rightarrow> int option" where
  "compare_versions a b = (case (parse_version a, parse_version b) of
     (Some pa, Some pb) \<Rightarrow> Some (cmp_parsed pa pb) | _ \<Rightarrow> None)"

definition is_outdated_version :: "string option \<Rightarrow> string option \<Rightarrow> bool" where
  "is_outdated_version agent latest =
     (case compare_versions agent latest of None \<Rightarrow> False | Some c \<Rightarrow> c < 0)"

lemmas version_eval = is_outdated_version_def compare_versions_def parse_version_def re_version_def
  re_number_def re_tag_def re_char_def tag_char_def char_class_defs nat_of_digits_def digit_val_def
  js_trim_def cmp_parsed_def cmp_ident_def numeric_ident_def Let_def

section \<open>Comparators\<close>

text \<open>What a three-way comparison must promise for sorting and "older than" to make sense.\<close>

locale three_way =
  fixes cmp :: "'a \<Rightarrow> 'a \<Rightarrow> int"
  assumes swap: "sgn (cmp y x) = - sgn (cmp x y)"
    and le_trans: "cmp x y \<le> 0 \<Longrightarrow> cmp y z \<le> 0 \<Longrightarrow> cmp x z \<le> 0"
begin

lemma refl: "cmp x x = 0"
proof -
  have "sgn (cmp x x) = 0" using swap [of x x] by linarith
  then show ?thesis by (simp add: sgn_0_0)
qed

lemma sgn_cases: "(cmp y x < 0 \<and> 0 < cmp x y) \<or> (cmp y x = 0 \<and> cmp x y = 0) \<or> (0 < cmp y x \<and> cmp x y < 0)"
  using swap [of y x] by (auto simp: sgn_if split: if_splits)

lemma swap_less: "cmp y x < 0 \<longleftrightarrow> 0 < cmp x y"
  using sgn_cases [of y x] by linarith

lemma swap_eq: "cmp y x = 0 \<longleftrightarrow> cmp x y = 0"
  using sgn_cases [of y x] by linarith

lemma less_trans:
  assumes "cmp x y < 0" and "cmp y z < 0"
  shows "cmp x z < 0"
proof (rule ccontr)
  assume "\<not> cmp x z < 0"
  then have "cmp z x \<le> 0" by (metis linorder_not_less swap_less)
  with assms(1) have "cmp z y \<le> 0" by (intro le_trans [of z x y]) auto
  with assms(2) show False by (metis linorder_not_less swap_less)
qed

lemma less_irrefl: "\<not> cmp x x < 0"
  by (simp add: refl)

lemma less_asym: "cmp x y < 0 \<Longrightarrow> \<not> cmp y x < 0"
  using sgn_cases [of x y] by linarith

lemma trichotomy: "cmp x y < 0 \<or> cmp x y = 0 \<or> cmp y x < 0"
  using sgn_cases [of x y] by linarith

lemma le_cycle: "cmp x y \<le> 0 \<Longrightarrow> cmp y z \<le> 0 \<Longrightarrow> cmp x z = 0 \<Longrightarrow> cmp x y = 0 \<and> cmp y z = 0"
  using le_trans [of z x y] le_trans [of y z x] sgn_cases [of x z] sgn_cases [of x y] sgn_cases [of y z]
  by linarith

end

lemma cmp_ident_swap: "sgn (cmp_ident y x) = - sgn (cmp_ident x y)"
  by (cases "numeric_ident x"; cases "numeric_ident y")
    (auto simp: cmp_ident_def sgn_if)

lemma cmp_ident_trans: "cmp_ident x y \<le> 0 \<Longrightarrow> cmp_ident y z \<le> 0 \<Longrightarrow> cmp_ident x z \<le> 0"
  by (cases "numeric_ident x"; cases "numeric_ident y"; cases "numeric_ident z")
    (auto simp: cmp_ident_def split: if_splits)

interpretation ident: three_way cmp_ident
  by unfold_locales (fact cmp_ident_swap, fact cmp_ident_trans)

lemma cmp_prerelease_swap: "sgn (cmp_prerelease ys xs) = - sgn (cmp_prerelease xs ys)"
proof (induction xs ys rule: cmp_prerelease.induct)
  case (4 x xs y ys)
  show ?case
  proof (cases "cmp_ident x y = 0")
    case True
    moreover have "cmp_ident y x = 0" using True ident.swap_eq by blast
    ultimately show ?thesis using "4.IH" by simp
  next
    case False
    then have "cmp_ident y x \<noteq> 0" using ident.swap_eq by blast
    with False show ?thesis using cmp_ident_swap [of y x] by (simp add: Let_def)
  qed
qed simp_all

lemma cmp_prerelease_trans:
  "cmp_prerelease xs ys \<le> 0 \<Longrightarrow> cmp_prerelease ys zs \<le> 0 \<Longrightarrow> cmp_prerelease xs zs \<le> 0"
proof (induction xs ys arbitrary: zs rule: cmp_prerelease.induct)
  case (4 x xs y ys)
  show ?case
  proof (cases zs)
    case (Cons z zs')
    have le: "cmp_ident x y \<le> 0" "cmp_ident y z \<le> 0"
      using "4.prems" by (auto simp: Cons Let_def split: if_splits)
    then have xz: "cmp_ident x z \<le> 0" by (rule ident.le_trans)
    have both: "cmp_ident x y = 0 \<and> cmp_ident y z = 0" if "cmp_ident x z = 0"
      using ident.le_cycle [OF le that] .
    show ?thesis
    proof (cases "cmp_ident x z = 0")
      case True
      then have "cmp_ident x y = 0" "cmp_ident y z = 0" using both by simp_all
      then have "cmp_prerelease xs zs' \<le> 0"
        using "4.prems" by - (rule "4.IH" [OF HOL.refl], simp_all add: Cons)
      with True show ?thesis by (simp add: Cons)
    next
      case False
      with xz show ?thesis by (simp add: Cons Let_def)
    qed
  qed (use "4.prems" in simp)
next
  case (1)
  then show ?case by simp
next
  case (2 y ys)
  then show ?case by (cases zs) simp_all
next
  case (3 x xs)
  then show ?case by simp
qed

interpretation prerelease: three_way cmp_prerelease
  by unfold_locales (fact cmp_prerelease_swap, fact cmp_prerelease_trans)

lemma cmp_parsed_swap: "sgn (cmp_parsed b a) = - sgn (cmp_parsed a b)"
proof -
  have diff: "sgn (int j - int i) = - sgn (int i - int j)" for i j
    by (simp add: sgn_if)
  show ?thesis
    using cmp_prerelease_swap [of "prerelease b" "prerelease a"]
    by (auto simp: cmp_parsed_def intro: diff)
qed

lemma cmp_parsed_trans: "cmp_parsed a b \<le> 0 \<Longrightarrow> cmp_parsed b c \<le> 0 \<Longrightarrow> cmp_parsed a c \<le> 0"
  by (auto simp: cmp_parsed_def split: if_splits intro: prerelease.le_trans)

interpretation version: three_way cmp_parsed
  by unfold_locales (fact cmp_parsed_swap, fact cmp_parsed_trans)

section \<open>Printing a version and reading it back\<close>

definition print_version :: "parsed_version \<Rightarrow> string" where
  "print_version v = digits_of (major v) @ ''.'' @ digits_of (minor v) @ ''.'' @ digits_of (patch v)
     @ (if prerelease v = [] then [] else CHR ''-'' # join ''.'' (prerelease v))"

definition ident_char :: "char \<Rightarrow> bool" where
  "ident_char c \<longleftrightarrow> is_alnum c \<or> c = CHR ''-''"

definition wf_version :: "parsed_version \<Rightarrow> bool" where
  "wf_version v \<longleftrightarrow> list_all (list_all ident_char) (prerelease v) \<and> prerelease v \<noteq> [[]]"

lemma run_of: "list_all P xs \<Longrightarrow> (ys = [] \<or> \<not> P (hd ys)) \<Longrightarrow>
    takeWhile P (xs @ ys) = xs \<and> dropWhile P (xs @ ys) = ys"
  by (induction xs) (cases ys; auto)+

lemma re_number_digits:
  "(rest = [] \<or> \<not> is_digit (hd rest)) \<Longrightarrow> re_number (digits_of n @ rest) = Some (n, rest)"
  using run_of [of is_digit "digits_of n" rest] digits_of_digits [of n]
  by (simp add: re_number_def list_all_iff)

lemma tag_char_not_space: "tag_char c \<Longrightarrow> \<not> is_space c"
  by (auto simp: tag_char_def is_alnum_def is_digit_def is_lower_def is_upper_def is_space_def)

lemma js_trim_no_space: "list_all (\<lambda>c. \<not> is_space c) s \<Longrightarrow> js_trim s = s"
proof -
  have drop: "dropWhile P xs = xs" if "\<forall>x\<in>set xs. \<not> P x" for P and xs :: string
    using that by (cases xs) auto
  assume "list_all (\<lambda>c. \<not> is_space c) s"
  then show ?thesis by (simp add: js_trim_def drop list_all_iff)
qed

lemma join_tag_chars: "list_all (list_all ident_char) ws \<Longrightarrow> list_all tag_char (join ''.'' ws)"
  by (induction "''.''" ws rule: join.induct)
    (auto simp: list_all_iff ident_char_def tag_char_def)

lemma join_nonempty: "ws \<noteq> [] \<Longrightarrow> ws \<noteq> [[]] \<Longrightarrow> join ''.'' ws \<noteq> []"
  by (cases "(''.'', ws)" rule: join.cases) auto

lemma print_version_tag_chars: "wf_version v \<Longrightarrow> list_all tag_char (print_version v)"
  using digits_of_digits join_tag_chars [of "prerelease v"]
  by (auto simp: print_version_def wf_version_def list_all_iff tag_char_def is_alnum_def)

lemma re_char_Cons [simp]: "re_char c (x # xs) = (if x = c then Some xs else None)"
  and re_char_Nil [simp]: "re_char c [] = None"
  by (simp_all add: re_char_def)

lemma re_char_digits: "\<not> is_digit c \<Longrightarrow> re_char c (digits_of n @ rest) = None"
  using digits_of_digits [of n] by (cases "digits_of n") (auto simp: re_char_def)

lemma re_version_print:
  assumes "wf_version v"
  shows "re_version (print_version v) =
    Some (major v, minor v, patch v, join ''.'' (prerelease v))"
proof -
  have nd: "\<not> is_digit (CHR ''.'')" "\<not> is_digit (CHR ''-'')" "\<not> is_digit (CHR ''v'')"
    by (simp_all add: is_digit_def)
  have plus: "re_tag (CHR ''+'') [] = Some ([], [])" and minus: "re_tag (CHR ''-'') [] = Some ([], [])"
    by (simp_all add: re_tag_def)
  show ?thesis
  proof (cases "prerelease v = []")
    case True
    then show ?thesis
      using re_number_digits [of "[]" "patch v"]
      by (simp add: re_version_def print_version_def re_number_digits re_char_digits nd plus minus)
  next
    case False
    define t where "t = join ''.'' (prerelease v)"
    have tag: "list_all tag_char t" and ne: "t \<noteq> []"
      using assms False join_tag_chars join_nonempty by (auto simp: t_def wf_version_def)
    have whole: "takeWhile tag_char t = t" "dropWhile tag_char t = []"
      using run_of [OF tag, of "[]"] by simp_all
    have "re_tag (CHR ''-'') (CHR ''-'' # t) = Some (t, [])"
      using ne by (simp add: re_tag_def whole)
    with False show ?thesis
      by (simp add: re_version_def print_version_def re_number_digits re_char_digits nd plus
          flip: t_def)
  qed
qed

text \<open>A version written as \<open>MAJOR.MINOR.PATCH[-identifiers]\<close> is read back unchanged by
  \<open>parseVersion\<close>.\<close>

theorem parse_print_version:
  "wf_version v \<Longrightarrow> parse_version (Some (print_version v)) = Some v"
proof -
  assume wf: "wf_version v"
  have "print_version v \<noteq> []" by (simp add: print_version_def)
  moreover have "js_trim (print_version v) = print_version v"
    using print_version_tag_chars [OF wf] tag_char_not_space
    by (intro js_trim_no_space) (auto simp: list_all_iff)
  moreover have "split_on (CHR ''.'') (join ''.'' (prerelease v)) = prerelease v"
    if "prerelease v \<noteq> []"
  proof (rule split_join [OF that])
    have "\<not> ident_char (CHR ''.'')"
      by (simp add: ident_char_def is_alnum_def is_digit_def is_lower_def is_upper_def)
    with wf show "\<forall>w\<in>set (prerelease v). CHR ''.'' \<notin> set w"
      by (auto simp: wf_version_def list_all_iff)
  qed
  moreover have "join ''.'' (prerelease v) = [] \<longleftrightarrow> prerelease v = []"
    using wf join_nonempty [of "prerelease v"] by (auto simp: wf_version_def)
  ultimately show ?thesis
    by (simp add: parse_version_def re_version_print [OF wf])
qed

theorem parse_print_version_witness:
  "parse_version (Some (print_version \<lparr>major = 1, minor = 20, patch = 3, prerelease = [''rc'', ''1'']\<rparr>))
     = Some \<lparr>major = 1, minor = 20, patch = 3, prerelease = [''rc'', ''1'']\<rparr>"
  by (rule parse_print_version) (simp add: wf_version_def ident_char_def char_class_defs)

text \<open>"Older than" is a strict order on version strings: nothing is older than itself, never
  both ways round, and it is transitive; of two versions that parse, neither is older exactly when
  the comparison says 0.\<close>

theorem is_outdated_strict_order:
  "\<not> is_outdated_version a a
   \<and> (is_outdated_version a b \<longrightarrow> \<not> is_outdated_version b a)
   \<and> (is_outdated_version a b \<and> is_outdated_version b c \<longrightarrow> is_outdated_version a c)
   \<and> (parse_version a \<noteq> None \<and> parse_version b \<noteq> None \<longrightarrow>
        (\<not> is_outdated_version a b \<and> \<not> is_outdated_version b a
           \<longleftrightarrow> compare_versions a b = Some 0))"
proof -
  have swap: "0 \<le> cmp_parsed y x \<and> 0 \<le> cmp_parsed x y \<longleftrightarrow> cmp_parsed x y = 0" for x y
    using version.sgn_cases [of x y] by linarith
  show ?thesis
    by (cases "parse_version a"; cases "parse_version b"; cases "parse_version c")
      (auto simp: is_outdated_version_def compare_versions_def version.less_irrefl not_less swap
        version.swap_eq dest: version.less_asym intro: version.less_trans)
qed

theorem is_outdated_strict_order_witness:
  "is_outdated_version (Some ''v0.5.9'') (Some ''0.6.0-rc.1'')
   \<and> is_outdated_version (Some ''0.6.0-rc.1'') (Some ''0.6.0'')
   \<and> is_outdated_version (Some ''v0.5.9'') (Some ''0.6.0'')"
proof -
  have a: "is_outdated_version (Some ''v0.5.9'') (Some ''0.6.0-rc.1'')"
    by (simp add: version_eval)
  have b: "is_outdated_version (Some ''0.6.0-rc.1'') (Some ''0.6.0'')"
    by (simp add: version_eval)
  show ?thesis using a b is_outdated_strict_order by blast
qed

end
