(* ===== verification/Models.thy ===== *)
theory Models
  imports Variables Version
begin

text \<open>
  The rows the services keep (the \<open>models.ts\<close> files of server/src/modules) and the states and
  statistics agents report (shared/src/protocol/instances.ts), as records. Columns that no modelled
  operation reads are left out of the node and the user; instants are milliseconds.
\<close>

section \<open>What agents report\<close>

record instance_state =
  st_uuid :: string
  st_state :: instance_status
  st_container_id :: "string option"
  st_started_at :: "int option"
  st_exit_code :: "int option"
  st_installed :: bool
  st_error :: "string option"

text \<open>The states an agent may report: \<open>AGENT_INSTANCE_STATES\<close>.\<close>

definition agent_states :: "instance_status list" where
  "agent_states = [Stopped, Starting, Running, Stopping, Crashed, Installing]"

record instance_stats =
  stats_uuid :: string
  stats_at :: int
  cpu_pct :: rat
  mem_used_bytes :: int
  mem_limit_bytes :: int
  net_rx_bytes :: int
  net_tx_bytes :: int
  disk_used_bytes :: int
  uptime_seconds :: int

datatype reachability_status = Reach_Open | Reach_Closed | Reach_Timeout | Reach_Error | Reach_Untested

datatype reach_method = Probe_Method | Connect_Method

record port_reachability =
  pr_name :: string
  pr_label :: string
  pr_port :: int
  pr_protocol :: port_protocol
  pr_status :: reachability_status
  pr_detail :: "string option"
  pr_method :: "reach_method option"
  pr_checked_at :: int

record instance_reachability =
  ir_host :: string
  ir_checked_at :: int
  ir_ports :: "port_reachability list"

datatype firewall_backend = Ufw | Firewalld

datatype firewall_rule_state = Rule_Open | Rule_Existing | Rule_Error

record firewall_rule =
  fr_port :: int
  fr_protocol :: port_protocol
  fr_state :: firewall_rule_state
  fr_error :: "string option"

record instance_firewall =
  ifw_open :: bool
  ifw_rules :: "firewall_rule list"
  ifw_updated_at :: int

section \<open>Rows\<close>

record instance_row =
  i_id :: nat
  i_uuid :: string
  i_name :: string
  i_description :: "string option"
  i_node_id :: nat
  i_template_id :: nat
  i_status :: instance_status
  i_error :: "string option"
  i_image :: string
  i_variables :: "(string \<times> string) list"
  i_limits :: resource_limits
  i_restart_on_crash :: bool
  i_auto_start :: bool
  i_startup_override :: "string option"
  i_installed_at :: "int option"
  i_last_started_at :: "int option"
  i_last_stats :: "instance_stats option"
  i_container_id :: "string option"
  i_reachability :: "instance_reachability option"
  i_firewall :: "instance_firewall option"
  i_mounts :: "host_mount list option"
  i_created_by :: "nat option"

text \<open>An \<open>InstancePort\<close> is an allocation with the instance and the node it belongs to.\<close>

record instance_port = allocation +
  ip_instance_id :: nat
  ip_node_id :: nat

record instance_user =
  iu_instance_id :: nat
  iu_user_id :: nat
  iu_role :: instance_role
  iu_granted_by :: "nat option"

record node_row =
  n_id :: nat
  n_name :: string
  n_status :: node_status
  n_agent_version :: "string option"
  n_host_mount_roots :: "string list option"
  n_public_address :: "string option"
  n_bind_address :: string
  n_port_range_start :: int
  n_port_range_end :: int
  n_sftp_port :: "int option"
  n_sftp_host_key :: "string option"
  n_sftp_error :: "string option"
  n_firewall_managed :: bool
  n_firewall_backend :: "firewall_backend option"
  n_firewall_error :: "string option"
  n_firewall_sftp :: "firewall_rule list option"

record node_user =
  nu_node_id :: nat
  nu_user_id :: nat

record user_row =
  u_id :: nat
  u_email :: string
  u_name :: string
  u_password_hash :: string
  u_role :: role
  u_disabled :: bool
  u_two_factor_email :: bool
  u_totp_secret :: "string option"
  u_totp_enabled_at :: "int option"
  u_totp_last_step :: "int option"
  u_last_login_at :: "int option"

definition two_factor_methods :: "user_row \<Rightarrow> two_factor_method list" where
  "two_factor_methods u = (if u_totp_enabled_at u \<noteq> None then [Totp_Method] else [])
     @ (if u_two_factor_email u then [Email_Method] else [])"

definition has_two_factor :: "user_row \<Rightarrow> bool" where
  "has_two_factor u \<longleftrightarrow> two_factor_methods u \<noteq> []"

definition is_admin :: "user_row \<Rightarrow> bool" where
  "is_admin u \<longleftrightarrow> u_role u = Admin"

section \<open>Rows for the witnesses\<close>

definition sample_template :: template_definition where
  "sample_template = \<lparr>td_slug = ''game'', td_name = ''Game'', td_game = ''Game'', td_description = [],
     td_icon = [], td_tags = [], td_image = ''gsm-java:21'', td_images = [],
     td_install = \<lparr>ti_image = None, ti_script = ''true'', ti_resolver = None, ti_timeout_seconds = 1800\<rparr>,
     td_startup = ''run --port {{GSM_PORT_GAME}}'',
     td_stop = \<lparr>ts_command = None, ts_signal = SIGTERM, ts_timeout_seconds = 30\<rparr>,
     td_console = \<lparr>tcon_ready_pattern = None, tcon_transport = None\<rparr>, td_variables = [],
     td_ports = [plain_port ''game'' 30000 None], td_files = [],
     td_env = [(''GSM_BIND'', ''10.0.0.1''), (''LISTEN'', ''{{GSM_BIND}}'')], td_volumes = [],
     td_container = \<lparr>tc_entrypoint = None, tc_user = None, tc_pull = Pull_Missing,
       tc_seccomp_unconfined = False\<rparr>, td_database = None,
     td_resources = \<lparr>memory_mb = 2048, cpu_cores = 0, disk_mb = 0\<rparr>, td_restart_on_crash = True,
     td_backup_ignore = []\<rparr>"

definition sample_instance :: instance_row where
  "sample_instance = \<lparr>i_id = 1, i_uuid = ''u1'', i_name = ''one'', i_description = None, i_node_id = 1,
     i_template_id = 1, i_status = Stopped, i_error = None, i_image = ''gsm-java:21'',
     i_variables = [(''GSM_BIND'', ''6.6.6.6'')],
     i_limits = \<lparr>memory_mb = 2048, cpu_cores = 0, disk_mb = 0\<rparr>, i_restart_on_crash = True,
     i_auto_start = False, i_startup_override = None, i_installed_at = Some 0, i_last_started_at = None,
     i_last_stats = None, i_container_id = None, i_reachability = None, i_firewall = None,
     i_mounts = None, i_created_by = None\<rparr>"

definition sample_ports :: "allocation list" where
  "sample_ports = [\<lparr>al_name = ''game'', al_label = ''Game'', al_protocol = Both, al_port = 30000,
     al_primary = True\<rparr>]"

lemmas sample_rows = sample_template_def sample_instance_def sample_ports_def

definition sample_user :: user_row where
  "sample_user = \<lparr>u_id = 5, u_email = ''a@b'', u_name = ''A'', u_password_hash = [], u_role = Plain_User,
     u_disabled = False, u_two_factor_email = False, u_totp_secret = None, u_totp_enabled_at = None,
     u_totp_last_step = None, u_last_login_at = None\<rparr>"

definition sample_node :: node_row where
  "sample_node = \<lparr>n_id = 1, n_name = ''node'', n_status = Node_Online, n_agent_version = Some ''0.6.0'',
     n_host_mount_roots = None, n_public_address = None, n_bind_address = ''0.0.0.0'',
     n_port_range_start = 30000, n_port_range_end = 30999, n_sftp_port = Some 2022,
     n_sftp_host_key = None, n_sftp_error = None, n_firewall_managed = False,
     n_firewall_backend = None, n_firewall_error = None, n_firewall_sftp = None\<rparr>"

end
