(* ===== verification/Access.thy ===== *)
theory Access
  imports Models
begin

text \<open>
  Who may do what (server/src/modules/instances/access.ts, server/src/modules/nodes/access.ts and the
  permission table of shared/src/api/instances.ts), over a store of rows. A row lookup is the first
  row with the key, as \<open>findByPk\<close> and \<open>findOne\<close> give it.
\<close>

section \<open>The store\<close>

record store =
  s_instances :: "instance_row list"
  s_ports :: "instance_port list"
  s_instance_users :: "instance_user list"
  s_nodes :: "node_row list"
  s_node_users :: "node_user list"
  s_users :: "user_row list"
  s_templates :: "(nat \<times> template_definition) list"

definition find_instance :: "store \<Rightarrow> nat \<Rightarrow> instance_row option" where
  "find_instance st id' = find (\<lambda>i. i_id i = id') (s_instances st)"

definition find_node :: "store \<Rightarrow> nat \<Rightarrow> node_row option" where
  "find_node st id' = find (\<lambda>n. n_id n = id') (s_nodes st)"

definition find_user :: "store \<Rightarrow> nat \<Rightarrow> user_row option" where
  "find_user st id' = find (\<lambda>u. u_id u = id') (s_users st)"

definition find_grant :: "store \<Rightarrow> nat \<Rightarrow> nat \<Rightarrow> instance_user option" where
  "find_grant st iid uid' =
     find (\<lambda>g. iu_instance_id g = iid \<and> iu_user_id g = uid') (s_instance_users st)"

text \<open>The primary keys of the tables.\<close>

definition keys_unique :: "store \<Rightarrow> bool" where
  "keys_unique st \<longleftrightarrow> distinct (map i_id (s_instances st)) \<and> distinct (map n_id (s_nodes st))
     \<and> distinct (map u_id (s_users st))
     \<and> distinct (map (\<lambda>g. (iu_instance_id g, iu_user_id g)) (s_instance_users st))
     \<and> distinct (map (\<lambda>o'. (nu_node_id o', nu_user_id o')) (s_node_users st))"

section \<open>Permissions\<close>

text \<open>Roles in order of what they may do.\<close>

instantiation instance_role :: linorder
begin

definition role_rank :: "instance_role \<Rightarrow> nat" where
  "role_rank r = (case r of Viewer \<Rightarrow> 0 | Operator \<Rightarrow> 1 | Owner \<Rightarrow> 2)"

definition less_eq_instance_role :: "instance_role \<Rightarrow> instance_role \<Rightarrow> bool" where
  "less_eq_instance_role a b \<longleftrightarrow> role_rank a \<le> role_rank b"

definition less_instance_role :: "instance_role \<Rightarrow> instance_role \<Rightarrow> bool" where
  "less_instance_role a b \<longleftrightarrow> role_rank a < role_rank b"

instance
  by standard (auto simp: less_eq_instance_role_def less_instance_role_def role_rank_def
      split: instance_role.splits)

end

lemmas role_order = less_eq_instance_role_def less_instance_role_def role_rank_def

datatype instance_permission = View | Console_Permission | Command | Power | Files | Backups | Settings
  | Players_Permission | Access_Permission | Delete | Reinstall | Firewall_Permission

fun permission_roles :: "instance_permission \<Rightarrow> instance_role list" where
  "permission_roles View = [Owner, Operator, Viewer]"
| "permission_roles Console_Permission = [Owner, Operator, Viewer]"
| "permission_roles Command = [Owner, Operator]"
| "permission_roles Power = [Owner, Operator]"
| "permission_roles Files = [Owner, Operator]"
| "permission_roles Backups = [Owner, Operator]"
| "permission_roles Settings = [Owner, Operator]"
| "permission_roles Players_Permission = [Owner, Operator]"
| "permission_roles Access_Permission = [Owner]"
| "permission_roles Delete = [Owner]"
| "permission_roles Reinstall = [Owner]"
| "permission_roles Firewall_Permission = [Owner]"

definition role_allows :: "instance_role option \<Rightarrow> instance_permission \<Rightarrow> bool" where
  "role_allows who p \<longleftrightarrow> (case who of None \<Rightarrow> False | Some r \<Rightarrow> r \<in> set (permission_roles p))"

text \<open>The role an error message asks for.\<close>

fun permission_role :: "instance_permission \<Rightarrow> instance_role" where
  "permission_role Access_Permission = Owner"
| "permission_role Delete = Owner"
| "permission_role Reinstall = Owner"
| "permission_role Firewall_Permission = Owner"
| "permission_role View = Viewer"
| "permission_role Console_Permission = Viewer"
| "permission_role _ = Operator"

fun role_name :: "instance_role \<Rightarrow> string" where
  "role_name Owner = ''owner''"
| "role_name Operator = ''operator''"
| "role_name Viewer = ''viewer''"

text \<open>The permission table is monotone and the 403 message does not mislead: a role has a
  permission exactly when it is at least the role the message asks for.\<close>

theorem role_allows_threshold: "role_allows (Some r) p \<longleftrightarrow> permission_role p \<le> r"
  by (cases p; cases r) (simp_all add: role_allows_def role_order)

section \<open>Nodes\<close>

definition owns_node :: "store \<Rightarrow> user_row \<Rightarrow> nat \<Rightarrow> bool" where
  "owns_node st u nid \<longleftrightarrow> u_role u = Admin
     \<or> length (filter (\<lambda>o'. nu_user_id o' = u_id u \<and> nu_node_id o' = nid) (s_node_users st)) > 0"

text \<open>\<open>None\<close> stands for the scope of admins: everything.\<close>

definition node_scope_for_user :: "store \<Rightarrow> user_row \<Rightarrow> nat set option" where
  "node_scope_for_user st u = (if u_role u = Admin then None
     else Some (set (map nu_node_id (filter (\<lambda>o'. nu_user_id o' = u_id u) (s_node_users st)))))"

definition in_node_scope :: "nat set option \<Rightarrow> nat \<Rightarrow> bool" where
  "in_node_scope scope nid \<longleftrightarrow> (case scope of None \<Rightarrow> True | Some ns \<Rightarrow> nid \<in> ns)"

definition assert_node_access :: "store \<Rightarrow> user_row \<Rightarrow> nat \<Rightarrow> unit result" where
  "assert_node_access st u nid = guard (owns_node st u nid) (not_found ''Node'')"

definition node_owner_ids :: "store \<Rightarrow> nat \<Rightarrow> nat list" where
  "node_owner_ids st nid = map nu_user_id (filter (\<lambda>o'. nu_node_id o' = nid) (s_node_users st))"

lemma in_node_scope_iff: "in_node_scope (node_scope_for_user st u) nid \<longleftrightarrow> owns_node st u nid"
  by (force simp: in_node_scope_def node_scope_for_user_def owns_node_def filter_empty_conv)

section \<open>Instances\<close>

type_synonym instance_scope = "(nat \<rightharpoonup> instance_role) option"

definition scope_for_user :: "store \<Rightarrow> user_row \<Rightarrow> instance_scope" where
  "scope_for_user st u =
     (if u_role u = Admin then None
      else let grants = filter (\<lambda>g. iu_user_id g = u_id u) (s_instance_users st);
               nodes = map nu_node_id (filter (\<lambda>o'. nu_user_id o' = u_id u) (s_node_users st));
               granted = foldl (\<lambda>m g. m(iu_instance_id g \<mapsto> iu_role g)) Map.empty grants;
               owned = (if nodes = [] then []
                        else filter (\<lambda>i. i_node_id i \<in> set nodes) (s_instances st)) in
        Some (foldl (\<lambda>m i. m(i_id i \<mapsto> Owner)) granted owned))"

definition in_scope :: "instance_scope \<Rightarrow> nat \<Rightarrow> bool" where
  "in_scope scope iid \<longleftrightarrow> (case scope of None \<Rightarrow> True | Some m \<Rightarrow> m iid \<noteq> None)"

definition role_in :: "instance_scope \<Rightarrow> nat \<Rightarrow> instance_role option" where
  "role_in scope iid = (case scope of None \<Rightarrow> Some Owner | Some m \<Rightarrow> m iid)"

definition role_on :: "store \<Rightarrow> user_row \<Rightarrow> nat \<Rightarrow> instance_role option" where
  "role_on st u iid =
     (if u_role u = Admin then Some Owner
      else case find_instance st iid of
        None \<Rightarrow> None
      | Some i \<Rightarrow> if owns_node st u (i_node_id i) then Some Owner
          else map_option iu_role (find_grant st iid (u_id u)))"

definition assert_instance_permission ::
    "store \<Rightarrow> user_row \<Rightarrow> nat \<Rightarrow> instance_permission \<Rightarrow> instance_role result" where
  "assert_instance_permission st u iid p =
     (case role_on st u iid of
        None \<Rightarrow> Inl (not_found ''Instance'')
      | Some r \<Rightarrow>
          if \<not> role_allows (Some r) p
          then Inl (forbidden (''Requires the '' @ role_name (permission_role p) @ '' role on this instance''))
          else Inr r)"

lemma foldl_owner: "foldl (\<lambda>m i. m(i_id i \<mapsto> Owner)) m is iid
    = (if iid \<in> i_id ` set is then Some Owner else m iid)"
  by (induction "is" arbitrary: m) auto

lemma foldl_grants:
  assumes "distinct (map iu_instance_id gs)"
  shows "foldl (\<lambda>m g. m(iu_instance_id g \<mapsto> iu_role g)) m gs iid
    = (case find (\<lambda>g. iu_instance_id g = iid) gs of Some g \<Rightarrow> Some (iu_role g) | None \<Rightarrow> m iid)"
  using assms
proof (induction gs arbitrary: m)
  case (Cons g gs)
  have "find (\<lambda>g. iu_instance_id g = iid) gs = None" if "iu_instance_id g = iid"
    using Cons.prems that unfolding find_None_iff by (metis distinct.simps(2) image_eqI list.simps(9) set_map)
  with Cons show ?case by (auto split: option.splits)
qed simp

lemma find_filter: "find P (filter Q xs) = find (\<lambda>x. P x \<and> Q x) xs"
  by (induction xs) auto

lemma user_grants_distinct:
  "keys_unique st \<Longrightarrow> distinct (map iu_instance_id (filter (\<lambda>g. iu_user_id g = uid') (s_instance_users st)))"
  unfolding keys_unique_def distinct_map inj_on_def by (auto intro: distinct_filter)

definition sample_store :: store where
  "sample_store = \<lparr>s_instances = [sample_instance, sample_instance\<lparr>i_id := 2, i_uuid := ''u2''\<rparr>], s_ports = [],
     s_instance_users = [\<lparr>iu_instance_id = 1, iu_user_id = 5, iu_role = Viewer, iu_granted_by = None\<rparr>],
     s_nodes = [sample_node], s_node_users = [], s_users = [sample_user], s_templates = [(1, sample_template)]\<rparr>"

lemmas sample_store_defs = sample_store_def sample_user_def sample_node_def sample_instance_def

text \<open>C39. The two ways the server computes a role agree on every instance that exists: the scope a
  request computes once, which filters lists and browser messages, and the role checked before an
  operation on one instance.\<close>

theorem role_in_scope:
  assumes "keys_unique st" and "find_instance st iid = Some i"
  shows "role_in (scope_for_user st u) iid = role_on st u iid"
proof (cases "u_role u = Admin")
  case False
  have i: "i \<in> set (s_instances st)" "i_id i = iid"
    using assms(2) by (auto simp: find_instance_def find_Some_iff)
  have only: "j = i" if "j \<in> set (s_instances st)" "i_id j = iid" for j
    using assms(1) i that by (auto simp: keys_unique_def distinct_map inj_on_def)
  define nodes where "nodes = map nu_node_id (filter (\<lambda>o'. nu_user_id o' = u_id u) (s_node_users st))"
  have owned: "iid \<in> i_id ` set (filter (\<lambda>i. i_node_id i \<in> set nodes) (s_instances st))
      \<longleftrightarrow> owns_node st u (i_node_id i)"
  proof -
    have "owns_node st u (i_node_id i) \<longleftrightarrow> i_node_id i \<in> set nodes"
      using in_node_scope_iff [of st u "i_node_id i"] False
      by (simp add: in_node_scope_def node_scope_for_user_def nodes_def)
    moreover have "iid \<in> i_id ` set (filter (\<lambda>i. i_node_id i \<in> set nodes) (s_instances st))
        \<longleftrightarrow> i_node_id i \<in> set nodes"
    proof
      assume "i_node_id i \<in> set nodes"
      with i show "iid \<in> i_id ` set (filter (\<lambda>i. i_node_id i \<in> set nodes) (s_instances st))" by force
    next
      assume "iid \<in> i_id ` set (filter (\<lambda>i. i_node_id i \<in> set nodes) (s_instances st))"
      then obtain j where "j \<in> set (s_instances st)" "i_id j = iid" "i_node_id j \<in> set nodes" by auto
      with only [of j] show "i_node_id i \<in> set nodes" by simp
    qed
    ultimately show ?thesis by simp
  qed
  have grant: "find (\<lambda>g. iu_instance_id g = iid) (filter (\<lambda>g. iu_user_id g = u_id u) (s_instance_users st))
      = find_grant st iid (u_id u)"
    by (simp add: find_filter find_grant_def)
  have "role_in (scope_for_user st u) iid =
      (if iid \<in> i_id ` set (filter (\<lambda>i. i_node_id i \<in> set nodes) (s_instances st)) then Some Owner
       else case find_grant st iid (u_id u) of Some g \<Rightarrow> Some (iu_role g) | None \<Rightarrow> None)"
    using False foldl_grants [OF user_grants_distinct [OF assms(1)]]
    by (auto simp: role_in_def scope_for_user_def Let_def nodes_def [symmetric] foldl_owner grant)
  with owned False assms(2) show ?thesis
    by (auto simp: role_on_def split: option.splits)
qed (simp add: role_in_def scope_for_user_def role_on_def)

theorem role_in_scope_witness:
  "role_in (scope_for_user sample_store sample_user) 1 = Some Viewer"
proof -
  have "keys_unique sample_store" "find_instance sample_store 1 = Some sample_instance"
    by (simp_all add: keys_unique_def find_instance_def sample_store_defs)
  from role_in_scope [OF this, of sample_user] show ?thesis
    by (simp add: role_on_def find_instance_def find_grant_def owns_node_def sample_store_defs)
qed

text \<open>Ids cannot be probed: for a user without a role on an instance, every check on it answers
  exactly what it answers for an id that does not exist.\<close>

theorem hidden_like_missing:
  assumes "u_role u \<noteq> Admin" and "role_on st u iid = None" and "find_instance st missing = None"
  shows "assert_instance_permission st u iid p = assert_instance_permission st u missing p"
  using assms by (simp add: assert_instance_permission_def role_on_def)

theorem hidden_like_missing_witness:
  "assert_instance_permission sample_store sample_user 2 View
   = assert_instance_permission sample_store sample_user 3 View"
  by (rule hidden_like_missing)
    (simp_all add: role_on_def find_instance_def find_grant_def owns_node_def sample_store_defs)

end
