(* ===== verification/Spec.thy ===== *)
theory Spec
  imports Models
begin

text \<open>
  What the server sends an agent for an instance (server/src/modules/instances/spec.ts): the
  environment, the database, the container specification and the install run. The keyed hash of
  \<open>instanceSecret\<close> is a parameter: \<open>hmac m\<close> is the base64url text of HMAC-SHA256 of \<open>m\<close> under
  SESSION_SECRET.
\<close>

section \<open>Records (shared/src/protocol/instances.ts)\<close>

record port_binding =
  pb_name :: string
  pb_protocol :: port_protocol
  pb_host :: int
  pb_container :: int

record config_file_spec =
  cs_path :: string
  cs_format :: config_file_format
  cs_values :: "(string \<times> string) list"

record console_transport =
  ct_kind :: console_transport_kind
  ct_port :: int
  ct_path :: "string option"
  ct_password :: string
  ct_ignore :: "string option"

record volume_spec =
  vs_name :: string
  vs_path :: string
  vs_seed :: bool

record database_spec =
  ds_engine :: database_engine
  ds_image :: string
  ds_name :: string
  ds_user :: string
  ds_password :: string
  ds_root_password :: string
  ds_memory_mb :: int

record instance_spec =
  sp_uuid :: string
  sp_name :: string
  sp_image :: string
  sp_startup :: string
  sp_env :: "string \<rightharpoonup> string"
  sp_ports :: "port_binding list"
  sp_bind_address :: string
  sp_limits :: resource_limits
  sp_stop :: template_stop
  sp_ready_pattern :: "string option"
  sp_transport :: "console_transport option"
  sp_files :: "config_file_spec list"
  sp_restart_on_crash :: bool
  sp_user :: container_user
  sp_entrypoint :: "string list option"
  sp_volumes :: "volume_spec list"
  sp_mounts :: "host_mount list"
  sp_pull :: image_pull_policy
  sp_seccomp_unconfined :: bool
  sp_database :: "database_spec option"

record install_spec =
  is_image :: "string option"
  is_script :: string
  is_env :: "(string \<times> string) list"
  is_timeout_seconds :: int

section \<open>Images and secrets\<close>

definition qualify_image :: "string \<Rightarrow> string \<Rightarrow> string" where
  "qualify_image ref registry =
     (let head = takeWhile (\<lambda>c. c \<noteq> CHR '':'') ref in
      if CHR ''/'' \<in> set head \<or> registry = [] then ref
      else strip_slashes registry @ ''/'' @ ref)"

definition instance_secret :: "(string \<Rightarrow> string) \<Rightarrow> string \<Rightarrow> string \<Rightarrow> nat \<Rightarrow> string" where
  "instance_secret hmac u purpose len = take len (hmac (purpose @ '':'' @ u))"

definition console_password :: "(string \<Rightarrow> string) \<Rightarrow> string \<Rightarrow> string" where
  "console_password hmac u = instance_secret hmac u ''console-password'' 24"

definition database_passwords :: "(string \<Rightarrow> string) \<Rightarrow> string \<Rightarrow> string \<times> string" where
  "database_passwords hmac u =
     (instance_secret hmac u ''db-password'' 32, instance_secret hmac u ''db-root-password'' 32)"

section \<open>The environment\<close>

definition database_host :: string where
  "database_host = ''db''"

definition database_port :: int where
  "database_port = 3306"

text \<open>\<open>toUpperCase\<close> on the ASCII letters, the only ones a port name has.\<close>

definition js_upper :: "char \<Rightarrow> char" where
  "js_upper c = (if is_lower c then char_of ((of_char c :: nat) - 32) else c)"

definition port_env_name :: "string \<Rightarrow> string" where
  "port_env_name name = ''GSM_PORT_'' @ map js_upper name"

definition instance_facts ::
    "(string \<Rightarrow> string) \<Rightarrow> 'i instance_row_scheme \<Rightarrow> (string \<times> string) list" where
  "instance_facts hmac i =
     [(''GSM_INSTANCE_UUID'', i_uuid i),
      (''GSM_INSTANCE_NAME'', i_name i),
      (''GSM_MEMORY_MB'', string_of_int (memory_mb (i_limits i))),
      (''GSM_HEAP_MB'', string_of_int (heap_for_memory (memory_mb (i_limits i)))),
      (''GSM_BIND'', ''0.0.0.0''),
      (''GSM_CONSOLE_PASSWORD'', console_password hmac (i_uuid i))]"

definition database_facts :: "(string \<Rightarrow> string) \<Rightarrow> 'i instance_row_scheme \<Rightarrow>
    template_definition option \<Rightarrow> (string \<times> string) list" where
  "database_facts hmac i def = (case def of None \<Rightarrow> [] | Some d \<Rightarrow>
     (case td_database d of None \<Rightarrow> [] | Some db \<Rightarrow>
       let on = database_enabled (td_database d) (td_variables d) (i_variables i);
           or_empty = (\<lambda>s. if on then s else []) in
       [(''GSM_DB_HOST'', or_empty database_host),
        (''GSM_DB_PORT'', or_empty (string_of_int database_port)),
        (''GSM_DB_NAME'', or_empty (tdb_name db)),
        (''GSM_DB_USER'', or_empty (tdb_name db)),
        (''GSM_DB_PASSWORD'', or_empty (fst (database_passwords hmac (i_uuid i))))]))"

text \<open>Assignments \<open>env[k] = v\<close> in order.\<close>

definition set_all :: "(string \<rightharpoonup> string) \<Rightarrow> (string \<times> string) list \<Rightarrow> (string \<rightharpoonup> string)" where
  "set_all env kvs = foldl (\<lambda>e (k, v). e(k \<mapsto> v)) env kvs"

definition env_facts :: "(string \<Rightarrow> string) \<Rightarrow> 'i instance_row_scheme \<Rightarrow> 'p allocation_scheme list \<Rightarrow>
    template_definition option \<Rightarrow> (string \<rightharpoonup> string)" where
  "env_facts hmac i ports def = set_all Map.empty
     (i_variables i @ instance_facts hmac i
      @ map (\<lambda>p. (port_env_name (al_name p), string_of_int (al_port p))) ports
      @ database_facts hmac i def)"

text \<open>The template's own environment comes last and may not set GSM names. Assigning text to the
  property \<open>__proto__\<close> of a JavaScript object does nothing.\<close>

definition template_env ::
    "template_definition option \<Rightarrow> (string \<rightharpoonup> string) \<Rightarrow> (string \<times> string) list" where
  "template_env def facts = (case def of None \<Rightarrow> []
   | Some d \<Rightarrow> map (\<lambda>(k, v). (k, substitute v facts))
       (filter (\<lambda>(k, _). \<not> prefix ''GSM_'' k \<and> k \<noteq> ''__proto__'') (td_env d)))"

definition build_env :: "(string \<Rightarrow> string) \<Rightarrow> 'i instance_row_scheme \<Rightarrow> 'p allocation_scheme list \<Rightarrow>
    template_definition option \<Rightarrow> (string \<rightharpoonup> string)" where
  "build_env hmac i ports def =
     (let facts = env_facts hmac i ports def in set_all facts (template_env def facts))"

section \<open>The specification\<close>

definition database_spec_of ::
    "(string \<Rightarrow> string) \<Rightarrow> 'i instance_row_scheme \<Rightarrow> template_definition \<Rightarrow> database_spec option" where
  "database_spec_of hmac i def = (case td_database def of None \<Rightarrow> None | Some db \<Rightarrow>
     if \<not> database_enabled (td_database def) (td_variables def) (i_variables i) then None
     else Some \<lparr>ds_engine = tdb_engine db, ds_image = tdb_image db, ds_name = tdb_name db,
       ds_user = tdb_name db, ds_password = fst (database_passwords hmac (i_uuid i)),
       ds_root_password = snd (database_passwords hmac (i_uuid i)), ds_memory_mb = tdb_memory_mb db\<rparr>)"

definition port_bindings :: "'p allocation_scheme list \<Rightarrow> port_binding list" where
  "port_bindings ports = concat (map (\<lambda>p.
     map (\<lambda>proto. \<lparr>pb_name = al_name p, pb_protocol = proto, pb_host = al_port p, pb_container = al_port p\<rparr>)
       (if al_protocol p = Both then [Tcp, Udp] else [al_protocol p])) ports)"

definition container_default_user :: container_user where
  "container_default_user = \<lparr>uid = 1500, gid = 1500\<rparr>"

definition build_spec :: "(string \<Rightarrow> string) \<Rightarrow> 'i instance_row_scheme \<Rightarrow> template_definition \<Rightarrow>
    node_row \<Rightarrow> 'p allocation_scheme list \<Rightarrow> string \<Rightarrow> instance_spec" where
  "build_spec hmac i def node ports registry =
     (let env = build_env hmac i ports (Some def) in
      \<lparr>sp_uuid = i_uuid i, sp_name = i_name i, sp_image = qualify_image (i_image i) registry,
       sp_startup = substitute (case truthy (i_startup_override i) of Some s \<Rightarrow> s | None \<Rightarrow> td_startup def) env,
       sp_env = env, sp_ports = port_bindings ports, sp_bind_address = n_bind_address node,
       sp_limits = i_limits i, sp_stop = td_stop def,
       sp_ready_pattern = tcon_ready_pattern (td_console def),
       sp_transport = map_option (\<lambda>t. \<lparr>ct_kind = tr_kind t,
           ct_port = (case tr_port t of Some p \<Rightarrow> p | None \<Rightarrow> 0), ct_path = tr_path t,
           ct_password = substitute (tr_password t) env, ct_ignore = tr_ignore t\<rparr>)
         (tcon_transport (td_console def)),
       sp_files = map (\<lambda>f. \<lparr>cs_path = cf_path f, cs_format = cf_format f,
           cs_values = map (\<lambda>(k, v). (k, substitute v env)) (cf_values f)\<rparr>) (td_files def),
       sp_restart_on_crash = i_restart_on_crash i,
       sp_user = (case tc_user (td_container def) of Some u \<Rightarrow> u | None \<Rightarrow> container_default_user),
       sp_entrypoint = tc_entrypoint (td_container def),
       sp_volumes = map (\<lambda>v. \<lparr>vs_name = vol_name v, vs_path = vol_path v, vs_seed = vol_seed v\<rparr>) (td_volumes def),
       sp_mounts = (case i_mounts i of Some ms \<Rightarrow> ms | None \<Rightarrow> []),
       sp_pull = tc_pull (td_container def),
       sp_seccomp_unconfined = tc_seccomp_unconfined (td_container def),
       sp_database = database_spec_of hmac i def\<rparr>)"

definition new_agent_feature :: "instance_spec \<Rightarrow> string option" where
  "new_agent_feature spec =
     (if sp_volumes spec \<noteq> [] then Some ''Volumes''
      else if sp_mounts spec \<noteq> [] then Some ''Host mounts''
      else if sp_database spec \<noteq> None then Some ''A database''
      else if sp_entrypoint spec \<noteq> None then Some ''An entrypoint override''
      else if sp_pull spec \<noteq> Pull_Missing then Some ''Pulling the image on every start''
      else if sp_seccomp_unconfined spec then Some ''Running without seccomp''
      else if list_ex (\<lambda>f. cs_format f = Source_Cfg) (sp_files spec) then Some ''Source .cfg config files''
      else if map_option ct_kind (sp_transport spec) = Some Fifo then Some ''A console pipe''
      else None)"

definition volume_backup_ignore :: "template_definition \<Rightarrow> string list" where
  "volume_backup_ignore def =
     map (\<lambda>v. ''volumes/'' @ vol_name v @ ''/**'') (filter (\<lambda>v. \<not> vol_backup v) (td_volumes def))"

definition build_install ::
    "template_definition \<Rightarrow> (string \<times> string) list \<Rightarrow> string \<Rightarrow> install_spec" where
  "build_install def resolved registry =
     \<lparr>is_image = map_option (\<lambda>i. qualify_image i registry) (truthy (ti_image (td_install def))),
      is_script = ti_script (td_install def), is_env = resolved,
      is_timeout_seconds = ti_timeout_seconds (td_install def)\<rparr>"

section \<open>What ends up in the environment\<close>

definition platform_facts :: "(string \<Rightarrow> string) \<Rightarrow> 'i instance_row_scheme \<Rightarrow> 'p allocation_scheme list \<Rightarrow>
    template_definition option \<Rightarrow> (string \<times> string) list" where
  "platform_facts hmac i ports def = instance_facts hmac i
     @ map (\<lambda>p. (port_env_name (al_name p), string_of_int (al_port p))) ports
     @ database_facts hmac i def"

lemma set_all_lookup: "set_all env kvs k = (case map_of (rev kvs) k of Some v \<Rightarrow> Some v | None \<Rightarrow> env k)"
proof (induction kvs arbitrary: env)
  case (Cons kv kvs)
  then show ?case
    by (cases kv) (auto simp: set_all_def map_add_def split: option.splits)
qed (simp add: set_all_def)

lemma map_of_rev_distinct: "distinct (map fst kvs) \<Longrightarrow> map_of (rev kvs) = map_of kvs"
  by (subst map_of_inject_set) (simp_all add: rev_map [symmetric])

lemma js_upper_inj:
  assumes "c \<in> {c. is_lower c \<or> is_digit c \<or> c = CHR ''_''}" "d \<in> {c. is_lower c \<or> is_digit c \<or> c = CHR ''_''}"
    and "js_upper c = js_upper d"
  shows "c = d"
proof -
  have up: "of_char (js_upper x) = (if is_lower x then (of_char x :: nat) - 32 else of_char x)" for x
  proof -
    have "(of_char x :: nat) < 256" by simp
    then show ?thesis by (auto simp: js_upper_def is_lower_def)
  qed
  have "(of_char (js_upper c) :: nat) = of_char (js_upper d)" using assms(3) by simp
  then have "(of_char c :: nat) = of_char d"
    using assms(1,2) unfolding up
    by (auto simp: is_lower_def is_digit_def simp del: of_char_eq_iff split: if_splits)
  then show ?thesis by (simp add: of_char_eq_iff)
qed

lemma port_env_name_inj:
  assumes "port_name_re a" "port_name_re b" "port_env_name a = port_env_name b"
  shows "a = b"
proof -
  have chars: "set x \<subseteq> {c. is_lower c \<or> is_digit c \<or> c = CHR ''_''}" if "port_name_re x" for x
    using that by (auto simp: port_name_re_def re_name_def list_all_iff split: list.splits)
  have "inj_on js_upper {c. is_lower c \<or> is_digit c \<or> c = CHR ''_''}"
    using js_upper_inj by (meson inj_onI)
  then have "inj_on js_upper (set a \<union> set b)"
    using chars [OF assms(1)] chars [OF assms(2)] by (meson Un_least inj_on_subset)
  with assms(3) show ?thesis
    by (simp add: port_env_name_def inj_on_map_eq_map)
qed

lemma platform_facts_distinct:
  assumes "distinct (map al_name ports)" and "\<forall>p\<in>set ports. port_name_re (al_name p)"
  shows "distinct (map fst (platform_facts hmac i ports def))"
proof -
  have "distinct (map (\<lambda>p. port_env_name (al_name p)) ports)"
    using assms port_env_name_inj by (auto simp: distinct_map inj_on_def)
  moreover have "distinct (map fst (instance_facts hmac i @ database_facts hmac i def))"
    by (auto simp: instance_facts_def database_facts_def Let_def split: option.splits)
  moreover have "(port_env_name n, v) \<notin> set (instance_facts hmac i @ database_facts hmac i def)" for n v
    by (auto simp: instance_facts_def database_facts_def port_env_name_def Let_def split: option.splits)
  ultimately show ?thesis by (auto simp: platform_facts_def comp_def)
qed

lemma platform_facts_gsm: "(k, v) \<in> set (platform_facts hmac i ports def) \<Longrightarrow> prefix ''GSM_'' k"
  by (auto simp: platform_facts_def instance_facts_def database_facts_def port_env_name_def Let_def
      split: option.splits)

lemma template_env_not_gsm: "(k, v) \<in> set (template_env def facts) \<Longrightarrow> \<not> prefix ''GSM_'' k"
  by (auto simp: template_env_def split: option.splits)

text \<open>The container's environment, name by name: a platform fact is always what the platform says,
  whatever the instance's variables and the template's environment hold; any other name is the
  template's when it sets one, with its placeholders filled from variables and facts, else the variable.\<close>

theorem build_env_lookup:
  assumes "distinct (map al_name ports)" and "\<forall>p\<in>set ports. port_name_re (al_name p)"
  shows "build_env hmac i ports def k =
    (case map_of (platform_facts hmac i ports def) k of Some v \<Rightarrow> Some v
     | None \<Rightarrow> (case map_of (rev (template_env def (env_facts hmac i ports def))) k of Some v \<Rightarrow> Some v
     | None \<Rightarrow> map_of (rev (i_variables i)) k))"
proof -
  have facts: "env_facts hmac i ports def k = (case map_of (platform_facts hmac i ports def) k of
      Some v \<Rightarrow> Some v | None \<Rightarrow> map_of (rev (i_variables i)) k)"
    using map_of_rev_distinct [OF platform_facts_distinct [OF assms, of hmac i def]]
    by (auto simp: env_facts_def platform_facts_def [symmetric] set_all_lookup map_add_def split: option.splits)
  have "map_of (platform_facts hmac i ports def) k = None"
    if "map_of (rev (template_env def (env_facts hmac i ports def))) k = Some v" for v
    using that platform_facts_gsm template_env_not_gsm
    by (metis map_of_SomeD not_None_eq set_rev)
  with facts show ?thesis
    by (auto simp: build_env_def Let_def set_all_lookup split: option.splits)
qed

theorem build_env_lookup_witness:
  "build_env (\<lambda>m. m) sample_instance sample_ports (Some sample_template) ''GSM_BIND'' = Some ''0.0.0.0''
   \<and> build_env (\<lambda>m. m) sample_instance sample_ports (Some sample_template) ''LISTEN'' = Some ''0.0.0.0''"
proof -
  have names: "distinct (map al_name sample_ports)" "\<forall>p\<in>set sample_ports. port_name_re (al_name p)"
    by (simp_all add: sample_rows port_name_re_def re_name_def char_class_defs)
  have bind: "env_facts (\<lambda>m. m) sample_instance sample_ports (Some sample_template) ''GSM_BIND'' = Some ''0.0.0.0''"
    by (simp add: env_facts_def set_all_def instance_facts_def database_facts_def sample_rows port_env_name_def)
  have "substitute ''{{GSM_BIND}}'' (env_facts (\<lambda>m. m) sample_instance sample_ports (Some sample_template)) = ''0.0.0.0''"
    by (simp add: substitute.simps(2) match_placeholder_def Let_def name_char_def char_class_defs bind)
  then have "template_env (Some sample_template)
      (env_facts (\<lambda>m. m) sample_instance sample_ports (Some sample_template)) = [(''LISTEN'', ''0.0.0.0'')]"
    by (simp add: template_env_def sample_template_def)
  then show ?thesis
    unfolding build_env_lookup [OF names]
    by (simp add: platform_facts_def instance_facts_def database_facts_def port_env_name_def sample_ports_def
        sample_template_def)
qed

section \<open>Ports and images\<close>

lemma distinct_concat_map:
  "distinct xs \<Longrightarrow> (\<And>x. x \<in> set xs \<Longrightarrow> distinct (f x)) \<Longrightarrow>
    (\<And>x y z. x \<in> set xs \<Longrightarrow> y \<in> set xs \<Longrightarrow> z \<in> set (f x) \<Longrightarrow> z \<in> set (f y) \<Longrightarrow> x = y) \<Longrightarrow>
    distinct (concat (map f xs))"
  by (induction xs) auto

text \<open>The ports published for an instance whose ports were allocated are within the protocol's
  limits (at most two bindings per port, numbers between 1 and 65535) and no two of them publish the
  same node port for the same protocol, so Docker can bind them all.\<close>

theorem allocated_bindings_distinct:
  assumes "template_ports_ok ports" and "allocate_ports ports choices used pool = Inr as"
  shows "distinct (map (\<lambda>b. (pb_host b, pb_protocol b)) (port_bindings as))
    \<and> length (port_bindings as) \<le> 2 * length ports
    \<and> (\<forall>b\<in>set (port_bindings as). 1 \<le> pb_host b \<and> pb_host b \<le> 65535 \<and> pb_protocol b \<noteq> Both)"
proof -
  have fits: "fits_node ports choices used pool as" using allocation_fits [OF assms] .
  then have d: "distinct (map al_port as)" and range: "\<forall>a\<in>set as. 1 \<le> al_port a \<and> al_port a \<le> 65535"
    and len: "length as = length ports"
    by (auto simp: fits_node_def list_all2_lengthD)
  define f where "f = (\<lambda>p :: allocation. map (Pair (al_port p))
    (if al_protocol p = Both then [Tcp, Udp] else [al_protocol p]))"
  have "map (\<lambda>b. (pb_host b, pb_protocol b)) (port_bindings as) = concat (map f as)"
    by (simp add: port_bindings_def map_concat comp_def f_def)
  moreover have "distinct (concat (map f as))"
  proof (rule distinct_concat_map)
    show "distinct as" using d by (simp add: distinct_map)
    show "x = y" if "x \<in> set as" "y \<in> set as" "z \<in> set (f x)" "z \<in> set (f y)" for x y z
      using that d by (auto simp: f_def distinct_map inj_on_def split: if_splits)
  qed (auto simp: f_def)
  moreover have "length (port_bindings as) \<le> 2 * length as"
    by (induction as) (auto simp: port_bindings_def)
  moreover have "1 \<le> pb_host b \<and> pb_host b \<le> 65535 \<and> pb_protocol b \<noteq> Both" if "b \<in> set (port_bindings as)" for b
    using that range by (auto simp: port_bindings_def split: if_splits)
  ultimately show ?thesis using len by simp
qed

theorem allocated_bindings_distinct_witness:
  "\<exists>as. allocate_ports [(plain_port ''game'' 30000 None)\<lparr>tp_protocol := Both\<rparr>] [] {}
      \<lparr>range_start = 30000, range_end = 30009\<rparr> = Inr as
    \<and> map pb_protocol (port_bindings as) = [Tcp, Udp]
    \<and> distinct (map (\<lambda>b. (pb_host b, pb_protocol b)) (port_bindings as))"
proof -
  have ok: "template_ports_ok [(plain_port ''game'' 30000 None)\<lparr>tp_protocol := Both\<rparr>]"
    by (simp add: template_ports_ok_def ports_ok_def plain_port_def port_name_re_def re_name_def
        char_class_defs Let_def)
  obtain as where as: "allocate_ports [(plain_port ''game'' 30000 None)\<lparr>tp_protocol := Both\<rparr>] [] {}
      \<lparr>range_start = 30000, range_end = 30009\<rparr> = Inr as" "map pb_protocol (port_bindings as) = [Tcp, Udp]"
    by (simp add: allocate_eval plain_port_def port_bindings_def)
  show ?thesis
    using as allocated_bindings_distinct [OF ok as(1), THEN conjunct1] by (intro exI [of _ as] conjI)
qed

text \<open>An image reference that names a registry with a port is not kept: the panel's registry is put
  in front of it, because the text before the first colon is taken for the whole path.\<close>

theorem qualify_image_host_port:
  assumes "CHR '':'' \<notin> set host" and "CHR ''/'' \<notin> set host" and "registry \<noteq> []"
  shows "qualify_image (host @ '':'' @ rest) registry = strip_slashes registry @ ''/'' @ host @ '':'' @ rest"
proof -
  have "takeWhile (\<lambda>c. c \<noteq> CHR '':'') (host @ '':'' @ rest) = host"
    using assms(1) by (induction host) auto
  with assms show ?thesis by (simp add: qualify_image_def Let_def)
qed

theorem qualify_image_host_port_witness:
  "qualify_image ''hub.local:5000/game:1'' ''ghcr.io/gsm/'' = ''ghcr.io/gsm/hub.local:5000/game:1''"
  using qualify_image_host_port [of "''hub.local''" "''ghcr.io/gsm/''" "''5000/game:1''"]
  by (simp add: strip_slashes_def)

end
