(* ===== verification/Console.thy ===== *)
theory Console
  imports Prelude
begin

text \<open>
  The console lines the server keeps in memory (server/src/modules/instances/console.ts): the ring
  buffer behind each console, and the history that holds one buffer per instance and stream.
\<close>

section \<open>The last lines of a list\<close>

definition last_n :: "nat \<Rightarrow> 'a list \<Rightarrow> 'a list" where
  "last_n n xs = drop (length xs - n) xs"

lemma length_last_n [simp]: "length (last_n n xs) = min n (length xs)"
  by (simp add: last_n_def)

lemma last_n_short: "length xs \<le> n \<Longrightarrow> last_n n xs = xs"
  by (simp add: last_n_def)

lemma last_n_Nil [simp]: "last_n n [] = []"
  by (simp add: last_n_def)

lemma last_n_append: "last_n n (last_n n xs @ ys) = last_n n (xs @ ys)"
proof (cases "length xs \<le> n")
  case True
  then show ?thesis by (simp add: last_n_short)
next
  case False
  then have "drop (length ys) (drop (length xs - n) xs) = drop (length xs + length ys - n) xs"
    by (simp add: add.commute)
  with False show ?thesis by (simp add: last_n_def)
qed

lemma last_n_last_n: "last_n m (last_n n xs) = last_n (min m n) xs"
  by (cases "length xs \<le> n") (auto simp: last_n_def min_def)

section \<open>Streams and keys\<close>

datatype console_stream = Console_Stream | Install_Stream

fun stream_name :: "console_stream \<Rightarrow> string" where
  "stream_name Console_Stream = ''console''"
| "stream_name Install_Stream = ''install''"

definition history_key :: "int \<Rightarrow> console_stream \<Rightarrow> string" where
  "history_key i s = string_of_int i @ '':'' @ stream_name s"

lemma colon_not_in_int: "CHR '':'' \<notin> set (string_of_int i)"
  using digits_of_digits [of "nat i"] digits_of_digits [of "nat (- i)"]
  by (auto simp: string_of_int_def is_digit_def)

lemma history_key_inject [simp]: "history_key i s = history_key j t \<longleftrightarrow> i = j \<and> s = t"
proof -
  have "split_on (CHR '':'') (history_key k u) = string_of_int k # split_on (CHR '':'') (stream_name u)"
    for k u
    using split_on_append [OF colon_not_in_int, of k "stream_name u"]
    by (simp add: history_key_def)
  then have "history_key i s = history_key j t \<Longrightarrow> i = j \<and> split_on (CHR '':'') (stream_name s)
      = split_on (CHR '':'') (stream_name t)"
    by (metis list.inject string_of_int_inject)
  moreover have "split_on (CHR '':'') (stream_name s) = split_on (CHR '':'') (stream_name t) \<Longrightarrow> s = t"
    by (cases s; cases t) simp_all
  ultimately show ?thesis by auto
qed

section \<open>The ring buffer\<close>

record 'a ring_buffer =
  items :: "'a list"
  start :: nat
  capacity :: nat

definition new_ring :: "nat \<Rightarrow> 'a ring_buffer" where
  "new_ring n = \<lparr>items = [], start = 0, capacity = n\<rparr>"

definition rb_push :: "'a ring_buffer \<Rightarrow> 'a \<Rightarrow> 'a ring_buffer" where
  "rb_push b x =
     (if length (items b) < capacity b then b\<lparr>items := items b @ [x]\<rparr>
      else b\<lparr>items := (items b)[start b := x], start := (start b + 1) mod capacity b\<rparr>)"

definition rb_to_array :: "'a ring_buffer \<Rightarrow> 'a list" where
  "rb_to_array b =
     (if length (items b) < capacity b then items b
      else drop (start b) (items b) @ take (start b) (items b))"

definition rb_length :: "'a ring_buffer \<Rightarrow> nat" where
  "rb_length b = length (items b)"

definition rb_clear :: "'a ring_buffer \<Rightarrow> 'a ring_buffer" where
  "rb_clear b = b\<lparr>items := [], start := 0\<rparr>"

text \<open>What the buffer keeps true: the write position is inside a full buffer and 0 before.\<close>

definition rb_inv :: "'a ring_buffer \<Rightarrow> bool" where
  "rb_inv b \<longleftrightarrow> 0 < capacity b \<and> length (items b) \<le> capacity b
     \<and> (if length (items b) < capacity b then start b = 0 else start b < capacity b)"

text \<open>The interface a console relies on: pushing keeps the last \<open>cap\<close> lines.\<close>

locale bounded_log =
  fixes push :: "'b \<Rightarrow> 'a \<Rightarrow> 'b"
    and contents :: "'b \<Rightarrow> 'a list"
    and cap :: "'b \<Rightarrow> nat"
    and inv :: "'b \<Rightarrow> bool"
  assumes inv_push: "inv b \<Longrightarrow> inv (push b x)"
    and cap_push: "cap (push b x) = cap b"
    and contents_push: "inv b \<Longrightarrow> contents (push b x) = last_n (cap b) (contents b @ [x])"
    and contents_bounded: "inv b \<Longrightarrow> length (contents b) \<le> cap b"
begin

lemma push_all_inv: "inv b \<Longrightarrow> inv (foldl push b xs) \<and> cap (foldl push b xs) = cap b"
  by (induction xs arbitrary: b) (simp_all add: inv_push cap_push)

lemma push_all_contents: "inv b \<Longrightarrow> contents (foldl push b xs) = last_n (cap b) (contents b @ xs)"
proof (induction xs arbitrary: b)
  case Nil
  then show ?case by (simp add: last_n_short contents_bounded)
next
  case (Cons x xs)
  then show ?case
    by (simp add: inv_push cap_push contents_push last_n_append)
qed

end

lemma rb_inv_new: "0 < n \<Longrightarrow> rb_inv (new_ring n)"
  by (simp add: rb_inv_def new_ring_def)

lemma rb_inv_push: "rb_inv b \<Longrightarrow> rb_inv (rb_push b x)"
  by (auto simp: rb_inv_def rb_push_def)

lemma rb_to_array_bounded: "rb_inv b \<Longrightarrow> length (rb_to_array b) \<le> capacity b"
  by (auto simp: rb_inv_def rb_to_array_def)

lemma rb_to_array_push_full:
  assumes "rb_inv b" and full: "\<not> length (items b) < capacity b"
  shows "rb_to_array (rb_push b x) = tl (rb_to_array b) @ [x]"
proof -
  define s where "s = start b"
  have len: "length (items b) = capacity b" and s: "s < length (items b)"
    using assms by (auto simp: rb_inv_def s_def)
  then have old: "rb_to_array b = items b ! s # drop (Suc s) (items b) @ take s (items b)"
    by (simp add: rb_to_array_def s_def Cons_nth_drop_Suc)
  show ?thesis
  proof (cases "Suc s < capacity b")
    case True
    with len s old show ?thesis
      by (simp add: rb_to_array_def rb_push_def take_Suc_conv_app_nth flip: s_def)
  next
    case False
    with len s have last: "Suc s = capacity b" by simp
    then have "(items b)[s := x] = take s (items b) @ [x]"
      using len by (simp add: upd_conv_take_nth_drop)
    with last len old show ?thesis
      by (simp add: rb_to_array_def rb_push_def flip: s_def)
  qed
qed

lemma rb_to_array_push:
  assumes "rb_inv b"
  shows "rb_to_array (rb_push b x) = last_n (capacity b) (rb_to_array b @ [x])"
proof (cases "length (items b) < capacity b")
  case True
  with assms show ?thesis
    by (auto simp: rb_to_array_def rb_push_def rb_inv_def last_n_def)
next
  case False
  with assms have "length (rb_to_array b) = capacity b" "rb_to_array b \<noteq> []"
    by (auto simp: rb_to_array_def rb_inv_def)
  then have "last_n (capacity b) (rb_to_array b @ [x]) = tl (rb_to_array b) @ [x]"
    by (cases "rb_to_array b") (auto simp: last_n_def)
  with rb_to_array_push_full [OF assms False] show ?thesis by simp
qed

interpretation ring: bounded_log rb_push rb_to_array capacity rb_inv
  by unfold_locales
    (auto simp: rb_inv_push rb_to_array_push rb_to_array_bounded, simp add: rb_push_def)

section \<open>The history\<close>

record 'a console_history =
  buffers :: "(string \<times> 'a ring_buffer) list"
  hist_capacity :: nat

definition new_history :: "'a console_history" where
  "new_history = \<lparr>buffers = [], hist_capacity = 1000\<rparr>"

definition set_capacity :: "'a console_history \<Rightarrow> nat \<Rightarrow> 'a console_history" where
  "set_capacity h n = h\<lparr>hist_capacity := n\<rparr>"

definition hist_append ::
    "'a console_history \<Rightarrow> int \<Rightarrow> console_stream \<Rightarrow> 'a list \<Rightarrow> 'a console_history" where
  "hist_append h i s ls =
     (let k = history_key i s;
          buf = (case map_of (buffers h) k of Some b \<Rightarrow> b | None \<Rightarrow> new_ring (hist_capacity h))
      in h\<lparr>buffers := AList.update k (foldl rb_push buf ls) (buffers h)\<rparr>)"

definition hist_tail :: "'a console_history \<Rightarrow> int \<Rightarrow> console_stream \<Rightarrow> int \<Rightarrow> 'a list" where
  "hist_tail h i s n =
     (let all = (case map_of (buffers h) (history_key i s) of Some b \<Rightarrow> rb_to_array b | None \<Rightarrow> [])
      in drop (nat (max 0 (int (length all) - n))) all)"

definition hist_clear :: "'a console_history \<Rightarrow> int \<Rightarrow> console_stream option \<Rightarrow> 'a console_history" where
  "hist_clear h i s = (case s of
     Some st \<Rightarrow> h\<lparr>buffers := AList.delete (history_key i st) (buffers h)\<rparr>
   | None \<Rightarrow> h\<lparr>buffers := AList.delete (history_key i Install_Stream)
       (AList.delete (history_key i Console_Stream) (buffers h))\<rparr>)"

section \<open>What the history promises\<close>

text \<open>
  The specification remembers every line appended to a console since it was opened or last
  cleared, and the capacity in force when its buffer was made.
\<close>

datatype 'a hist_op =
  Set_Capacity nat | Append int console_stream "'a list" | Clear int "console_stream option"

fun run_op :: "'a console_history \<Rightarrow> 'a hist_op \<Rightarrow> 'a console_history" where
  "run_op h (Set_Capacity n) = set_capacity h n"
| "run_op h (Append i s ls) = hist_append h i s ls"
| "run_op h (Clear i s) = hist_clear h i s"

type_synonym 'a spec_history = "nat \<times> (int \<times> console_stream \<Rightarrow> (nat \<times> 'a list) option)"

fun spec_op :: "'a spec_history \<Rightarrow> 'a hist_op \<Rightarrow> 'a spec_history" where
  "spec_op (c, f) (Set_Capacity n) = (n, f)"
| "spec_op (c, f) (Append i s ls) =
     (c, f((i, s) \<mapsto> (case f (i, s) of Some (k, old) \<Rightarrow> (k, old @ ls) | None \<Rightarrow> (c, ls))))"
| "spec_op (c, f) (Clear i (Some s)) = (c, f((i, s) := None))"
| "spec_op (c, f) (Clear i None) = (c, f((i, Console_Stream) := None, (i, Install_Stream) := None))"

definition spec_tail :: "'a spec_history \<Rightarrow> int \<Rightarrow> console_stream \<Rightarrow> nat \<Rightarrow> 'a list" where
  "spec_tail sp i s n = (case snd sp (i, s) of None \<Rightarrow> [] | Some (k, ls) \<Rightarrow> last_n (min n k) ls)"

fun op_ok :: "'a hist_op \<Rightarrow> bool" where
  "op_ok (Set_Capacity n) \<longleftrightarrow> 0 < n"
| "op_ok _ \<longleftrightarrow> True"

fun buffer_rel :: "'a ring_buffer option \<Rightarrow> (nat \<times> 'a list) option \<Rightarrow> bool" where
  "buffer_rel None None \<longleftrightarrow> True"
| "buffer_rel (Some b) (Some (k, ls)) \<longleftrightarrow>
     rb_inv b \<and> capacity b = k \<and> rb_to_array b = last_n k ls"
| "buffer_rel _ _ \<longleftrightarrow> False"

definition hist_rel :: "'a console_history \<Rightarrow> 'a spec_history \<Rightarrow> bool" where
  "hist_rel h sp \<longleftrightarrow> hist_capacity h = fst sp \<and> 0 < fst sp
     \<and> (\<forall>i s. buffer_rel (map_of (buffers h) (history_key i s)) (snd sp (i, s)))"

lemma buffer_rel_push:
  assumes "buffer_rel ob os" and "0 < c"
  shows "buffer_rel (Some (foldl rb_push (case ob of Some b \<Rightarrow> b | None \<Rightarrow> new_ring c) ls))
    (Some (case os of Some (k, old) \<Rightarrow> (k, old @ ls) | None \<Rightarrow> (c, ls)))"
proof (cases "(ob, os)" rule: buffer_rel.cases)
  case 1
  have "rb_to_array (new_ring c :: 'a ring_buffer) = []" "capacity (new_ring c :: 'a ring_buffer) = c"
    using assms(2) by (simp_all add: rb_to_array_def new_ring_def)
  with 1 assms(2) show ?thesis
    using ring.push_all_inv [OF rb_inv_new, of c ls] ring.push_all_contents [OF rb_inv_new, of c ls]
    by simp
next
  case (2 b k old)
  with assms(1) show ?thesis
    using ring.push_all_inv [of b ls] ring.push_all_contents [of b ls] by (simp add: last_n_append)
qed (use assms in simp_all)

lemma hist_rel_step: "hist_rel h sp \<Longrightarrow> op_ok e \<Longrightarrow> hist_rel (run_op h e) (spec_op sp e)"
proof (cases "(sp, e)" rule: spec_op.cases)
  case (2 c f i s ls)
  assume rel: "hist_rel h sp" and ok: "op_ok e"
  have "buffer_rel (Some (foldl rb_push (case map_of (buffers h) (history_key i s) of
      Some b \<Rightarrow> b | None \<Rightarrow> new_ring c) ls))
    (Some (case f (i, s) of Some (k, old) \<Rightarrow> (k, old @ ls) | None \<Rightarrow> (c, ls)))"
    using rel 2 by (intro buffer_rel_push) (simp_all add: hist_rel_def)
  with rel 2 show ?thesis
    by (auto simp: hist_rel_def hist_append_def Let_def update_conv')
qed (auto simp: hist_rel_def set_capacity_def hist_clear_def delete_conv')

lemma hist_rel_run: "hist_rel h sp \<Longrightarrow> list_all op_ok es \<Longrightarrow>
    hist_rel (foldl run_op h es) (foldl spec_op sp es)"
  by (induction es arbitrary: h sp) (simp_all add: hist_rel_step)

lemma hist_rel_new: "hist_rel new_history (1000, \<lambda>_. None)"
  by (simp add: hist_rel_def new_history_def)

lemma hist_rel_tail: "hist_rel h sp \<Longrightarrow> hist_tail h i s (int n) = spec_tail sp i s n"
proof -
  assume "hist_rel h sp"
  then have rel: "buffer_rel (map_of (buffers h) (history_key i s)) (snd sp (i, s))"
    by (simp add: hist_rel_def)
  have tail: "drop (nat (max 0 (int (length xs) - int n))) xs = last_n n xs" for xs :: "'a list"
    by (simp add: last_n_def nat_diff_distrib max_def)
  from rel show ?thesis
    by (cases "(map_of (buffers h) (history_key i s), snd sp (i, s))" rule: buffer_rel.cases)
      (auto simp: hist_tail_def spec_tail_def tail last_n_last_n)
qed

text \<open>C40. Whatever the order of appends, clears and capacity changes, the tail of a console is the
  last lines appended to that console since it was last cleared: never another instance's or
  stream's, in order, and as many as were asked for and fit the capacity its buffer was made with.\<close>

theorem hist_tail_refines:
  "list_all op_ok es \<Longrightarrow>
    hist_tail (foldl run_op new_history es) i s (int n)
      = spec_tail (foldl spec_op (1000, \<lambda>_. None) es) i s n"
  by (rule hist_rel_tail, rule hist_rel_run, rule hist_rel_new)

theorem hist_tail_refines_witness:
  "hist_tail (foldl run_op new_history
     [Set_Capacity 2, Append 7 Console_Stream [1, 2, 3 :: nat], Append 8 Console_Stream [9],
      Append 7 Console_Stream [4]]) 7 Console_Stream (int 5) = [3, 4]"
proof -
  have "list_all op_ok [Set_Capacity 2, Append 7 Console_Stream [1, 2, 3 :: nat],
      Append 8 Console_Stream [9], Append 7 Console_Stream [4]]"
    by simp
  from hist_tail_refines [OF this, of 7 Console_Stream 5] show ?thesis
    by (simp add: spec_tail_def last_n_def)
qed

end
