(* ===== verification/Instances.thy ===== *)
theory Instances
  imports Access Spec Console
begin

text \<open>
  Instances: rows, port reservations and the operations that drive the agent
  (server/src/modules/instances/service.ts), and the agent's events folded into rows
  (server/src/modules/instances/agent-events.ts). A handler that waits for the agent is split at the
  request: what happens before it, and what happens with the answer, which may come after other
  handlers ran. What a handler tells the rest of the server is appended to \<open>p_effects\<close>.
\<close>

section \<open>The panel's state\<close>

record console_line =
  cl_at :: int
  cl_text :: string

datatype power_action = Start | Stop | Restart | Kill

datatype effect =
    Broadcast_Status nat instance_status "string option"
  | Broadcast_Updated nat
  | Broadcast_Console nat console_stream "console_line list"
  | Broadcast_Stats nat instance_stats
  | Access_Changed "nat list"
  | Ports_Changed nat
  | Instance_Deleted nat nat
  | Instance_Running nat
  | Instance_State nat instance_state
  | Reconnect_User nat
  | Players_Status nat instance_status
  | Players_Console nat "console_line list"
  | Players_Forget nat
  | Players_Resync "nat list"
  | Audit "nat option" string nat

record panel =
  p_store :: store
  p_next_id :: nat
  p_connected :: "nat set"
  p_registry :: string
  p_history :: "console_line console_history"
  p_capacity_loaded :: int
  p_uuids :: "string \<rightharpoonup> nat"
  p_stats_written :: "nat \<rightharpoonup> int"
  p_effects :: "effect list"

definition tell :: "effect list \<Rightarrow> panel \<Rightarrow> panel" where
  "tell es p = p\<lparr>p_effects := p_effects p @ es\<rparr>"

definition change_instances :: "(instance_row list \<Rightarrow> instance_row list) \<Rightarrow> panel \<Rightarrow> panel" where
  "change_instances f p = p\<lparr>p_store := (p_store p)\<lparr>s_instances := f (s_instances (p_store p))\<rparr>\<rparr>"

text \<open>\<open>row.save()\<close>: an update of the row with that id.\<close>

definition save_instance :: "instance_row \<Rightarrow> panel \<Rightarrow> panel" where
  "save_instance row = change_instances (map (\<lambda>r. if i_id r = i_id row then row else r))"

definition get_instance :: "panel \<Rightarrow> nat \<Rightarrow> instance_row result" where
  "get_instance p iid = (case find_instance (p_store p) iid of
     None \<Rightarrow> Inl (not_found ''Instance'') | Some i \<Rightarrow> Inr i)"

definition is_connected :: "panel \<Rightarrow> nat \<Rightarrow> bool" where
  "is_connected p nid \<longleftrightarrow> nid \<in> p_connected p"

definition find_template :: "panel \<Rightarrow> nat \<Rightarrow> template_definition option" where
  "find_template p tid = map_of (s_templates (p_store p)) tid"

section \<open>States the agent reports\<close>

text \<open>The guard that keeps \<open>installing\<close>, and the row \<open>applyState\<close> leaves.\<close>

definition keeps_installing :: "instance_row \<Rightarrow> instance_state \<Rightarrow> bool" where
  "keeps_installing i s \<longleftrightarrow> i_status i = Installing \<and> st_state s \<noteq> Installing
     \<and> st_state s = Stopped \<and> \<not> st_installed s"

definition applied_row :: "int \<Rightarrow> instance_row \<Rightarrow> instance_state \<Rightarrow> instance_row" where
  "applied_row now i s =
     i\<lparr>i_status := st_state s, i_error := st_error s, i_container_id := st_container_id s,
       i_last_started_at :=
         (if (st_state s = Starting \<or> st_state s = Running) \<and> i_status i \<noteq> Running \<and> i_status i \<noteq> Starting
          then Some (case st_started_at s of Some t \<Rightarrow> t | None \<Rightarrow> now) else i_last_started_at i),
       i_installed_at :=
         (if st_installed s \<and> i_installed_at i = None then Some now else i_installed_at i)\<rparr>"

definition apply_effects :: "instance_row \<Rightarrow> instance_state \<Rightarrow> effect list" where
  "apply_effects i s =
     (if i_status i \<noteq> st_state s then [Players_Status (i_id i) (st_state s)] else [])
     @ (if i_status i \<noteq> Running \<and> st_state s = Running then [Instance_Running (i_id i)] else [])
     @ (if i_status i \<noteq> st_state s \<or> truthy (st_error s) \<noteq> None
        then [Broadcast_Status (i_id i) (st_state s) (st_error s)] else [])"

definition apply_state :: "int \<Rightarrow> instance_row \<Rightarrow> instance_state \<Rightarrow> panel \<Rightarrow> panel" where
  "apply_state now i s p =
     (if keeps_installing i s then p
      else tell (apply_effects i s) (save_instance (applied_row now i s) p))"

definition find_by_uuid :: "panel \<Rightarrow> nat \<Rightarrow> string \<Rightarrow> instance_row option" where
  "find_by_uuid p nid u = find (\<lambda>i. i_uuid i = u \<and> i_node_id i = nid) (s_instances (p_store p))"

definition on_state :: "int \<Rightarrow> nat \<Rightarrow> instance_state \<Rightarrow> panel \<Rightarrow> panel" where
  "on_state now nid s p = (case find_by_uuid p nid (st_uuid s) of
     None \<Rightarrow> p
   | Some i \<Rightarrow> tell [Instance_State nid s]
       (apply_state now i s (p\<lparr>p_uuids := (p_uuids p)(st_uuid s \<mapsto> i_id i)\<rparr>)))"

definition instance_id_for :: "panel \<Rightarrow> nat \<Rightarrow> string \<Rightarrow> nat option \<times> panel" where
  "instance_id_for p nid u = (case p_uuids p u of
     Some iid \<Rightarrow> (Some iid, p)
   | None \<Rightarrow> (case find_by_uuid p nid u of
       None \<Rightarrow> (None, p)
     | Some i \<Rightarrow> (Some (i_id i), p\<lparr>p_uuids := (p_uuids p)(u \<mapsto> i_id i)\<rparr>)))"

definition forget_uuid :: "string \<Rightarrow> panel \<Rightarrow> panel" where
  "forget_uuid u p = p\<lparr>p_uuids := (p_uuids p)(u := None)\<rparr>"

text \<open>\<open>lines_setting\<close> is the console history setting, read again at most once a minute.\<close>

definition push_console ::
    "int \<Rightarrow> nat \<Rightarrow> nat \<Rightarrow> console_stream \<Rightarrow> console_line list \<Rightarrow> panel \<Rightarrow> panel" where
  "push_console now lines_setting iid stream ls p =
     (let p1 = (if now - p_capacity_loaded p > 60000
                then p\<lparr>p_capacity_loaded := now, p_history := set_capacity (p_history p) lines_setting\<rparr>
                else p);
          p2 = p1\<lparr>p_history := hist_append (p_history p1) (int iid) stream ls\<rparr> in
      tell (Broadcast_Console iid stream ls
        # (if stream = Console_Stream then [Players_Console iid ls] else [])) p2)"

definition on_console :: "int \<Rightarrow> nat \<Rightarrow> nat \<Rightarrow> string \<Rightarrow> console_stream \<Rightarrow> console_line list \<Rightarrow>
    panel \<Rightarrow> panel" where
  "on_console now lines_setting nid u stream ls p = (case instance_id_for p nid u of
     (None, p1) \<Rightarrow> p1
   | (Some iid, p1) \<Rightarrow> push_console now lines_setting iid stream ls p1)"

definition on_stat :: "int \<Rightarrow> nat \<Rightarrow> panel \<Rightarrow> instance_stats \<Rightarrow> panel" where
  "on_stat now nid p s = (case instance_id_for p nid (stats_uuid s) of
     (None, p1) \<Rightarrow> p1
   | (Some iid, p1) \<Rightarrow>
       let p2 = tell [Broadcast_Stats iid s] p1;
           recent = (case p_stats_written p2 iid of Some t \<Rightarrow> t | None \<Rightarrow> 0) in
       if now - recent \<ge> 10000
       then change_instances (map (\<lambda>r. if i_id r = iid then r\<lparr>i_last_stats := Some s\<rparr> else r))
              (p2\<lparr>p_stats_written := (p_stats_written p2)(iid \<mapsto> now)\<rparr>)
       else p2)"

definition on_stats :: "int \<Rightarrow> nat \<Rightarrow> instance_stats list \<Rightarrow> panel \<Rightarrow> panel" where
  "on_stats now nid ss p = foldl (on_stat now nid) p ss"

section \<open>Create, update, delete\<close>

record create_input =
  ci_name :: string
  ci_description :: "string option"
  ci_node_id :: nat
  ci_template_id :: nat
  ci_image :: "string option"
  ci_variables :: "(string \<times> string) list"
  ci_ports :: "(string \<times> int) list"
  ci_limits :: "resource_limits option"
  ci_restart_on_crash :: "bool option"
  ci_auto_start :: bool
  ci_install :: bool
  ci_owner_user_id :: "nat option"

text \<open>In an update, a missing field is \<open>None\<close>; where null is a value too it is \<open>Some None\<close>.\<close>

record update_input =
  ui_name :: "string option"
  ui_description :: "string option option"
  ui_image :: "string option"
  ui_variables :: "(string \<times> string) list option"
  ui_ports :: "(string \<times> int) list option"
  ui_limits :: "resource_limits option"
  ui_restart_on_crash :: "bool option"
  ui_auto_start :: "bool option"
  ui_startup_override :: "string option option"
  ui_mounts :: "host_mount list option"

definition used_ports :: "store \<Rightarrow> nat \<Rightarrow> nat option \<Rightarrow> int set" where
  "used_ports st nid except =
     al_port ` set (filter (\<lambda>p. ip_node_id p = nid \<and> Some (ip_instance_id p) \<noteq> except) (s_ports st))
     \<union> (case Option.bind (find_node st nid) n_sftp_port of Some port \<Rightarrow> {port} | None \<Rightarrow> {})"

definition node_pool :: "node_row \<Rightarrow> port_range" where
  "node_pool n = \<lparr>range_start = n_port_range_start n, range_end = n_port_range_end n\<rparr>"

definition port_rows :: "nat \<Rightarrow> nat \<Rightarrow> allocation list \<Rightarrow> instance_port list" where
  "port_rows iid nid as =
     map (\<lambda>a. allocation.extend a \<lparr>ip_instance_id = iid, ip_node_id = nid\<rparr>) as"

definition new_row :: "create_input \<Rightarrow> template_definition \<Rightarrow> nat \<Rightarrow> string \<Rightarrow> nat \<Rightarrow>
    (string \<times> string) list \<Rightarrow> string \<Rightarrow> instance_row" where
  "new_row input def iid u actor variables chosen_image =
     \<lparr>i_id = iid, i_uuid = u, i_name = ci_name input, i_description = ci_description input,
      i_node_id = ci_node_id input, i_template_id = ci_template_id input, i_status = Stopped,
      i_error = None, i_image = chosen_image, i_variables = variables,
      i_limits = (case ci_limits input of Some l \<Rightarrow> l | None \<Rightarrow> td_resources def),
      i_restart_on_crash =
        (case ci_restart_on_crash input of Some b \<Rightarrow> b | None \<Rightarrow> td_restart_on_crash def),
      i_auto_start = ci_auto_start input, i_startup_override = None, i_installed_at = None,
      i_last_started_at = None, i_last_stats = None, i_container_id = None, i_reachability = None,
      i_firewall = None, i_mounts = None, i_created_by = Some actor\<rparr>"

text \<open>The rows a create adds, or the error that rolls the transaction back.\<close>

definition create_rows :: "(string \<Rightarrow> string \<Rightarrow> bool option) \<Rightarrow> string \<Rightarrow> create_input \<Rightarrow> nat \<Rightarrow> panel \<Rightarrow>
    (instance_row \<times> instance_port list \<times> instance_user list) result" where
  "create_rows re_test u input actor p =
     (case find_node (p_store p) (ci_node_id input) of
        None \<Rightarrow> Inl (bad_request ''Unknown node'')
      | Some node \<Rightarrow> (case find_template p (ci_template_id input) of
          None \<Rightarrow> Inl (bad_request ''Unknown template'')
        | Some def \<Rightarrow>
            then_do (merge_variables re_test (td_variables def) None (ci_variables input) Owner) (\<lambda>variables.
            then_do (pick_image def (ci_image input) None) (\<lambda>chosen.
            then_do (allocate_ports (td_ports def) (ci_ports input)
                (used_ports (p_store p) (n_id node) None) (node_pool node)) (\<lambda>as.
            let iid = p_next_id p in
            case ci_owner_user_id input of
              None \<Rightarrow> Inr (new_row input def iid u actor variables chosen, port_rows iid (n_id node) as, [])
            | Some uid' \<Rightarrow>
                if find_user (p_store p) uid' = None then Inl (bad_request ''Unknown owner'')
                else Inr (new_row input def iid u actor variables chosen, port_rows iid (n_id node) as,
                  [\<lparr>iu_instance_id = iid, iu_user_id = uid', iu_role = Owner, iu_granted_by = Some actor\<rparr>]))))))"

text \<open>The users whose access changed: the node's owners and the new owner, each once.\<close>

definition gained_users :: "store \<Rightarrow> nat \<Rightarrow> nat option \<Rightarrow> nat list" where
  "gained_users st nid owner =
     remdups (node_owner_ids st nid @ (case owner of Some uid' \<Rightarrow> [uid'] | None \<Rightarrow> []))"

definition create_instance :: "(string \<Rightarrow> string \<Rightarrow> bool option) \<Rightarrow> string \<Rightarrow> create_input \<Rightarrow> nat \<Rightarrow> panel \<Rightarrow>
    (nat \<times> panel) result" where
  "create_instance re_test u input actor p =
     then_do (create_rows re_test u input actor p) (\<lambda>(row, ports, grants).
       let st = p_store p;
           st1 = st\<lparr>s_instances := s_instances st @ [row], s_ports := s_ports st @ ports,
                    s_instance_users := s_instance_users st @ grants\<rparr>;
           gained = gained_users st1 (i_node_id row) (ci_owner_user_id input) in
       Inr (i_id row, tell ((if gained \<noteq> [] then Access_Changed gained # map Reconnect_User gained else [])
              @ [Broadcast_Updated (i_id row)])
            (p\<lparr>p_store := st1, p_next_id := Suc (p_next_id p)\<rparr>)))"

definition running_statuses :: "instance_status list" where
  "running_statuses = [Running, Starting, Stopping, Installing]"

definition ports_of :: "store \<Rightarrow> nat \<Rightarrow> instance_port list" where
  "ports_of st iid = filter (\<lambda>p. ip_instance_id p = iid) (s_ports st)"

text \<open>The port choices an update works with: the caller's, and the current port of every other
  template port that does not follow one.\<close>

definition keep_choices :: "template_port list \<Rightarrow> (string \<times> int) list \<Rightarrow> instance_port list \<Rightarrow>
    (string \<times> int) list" where
  "keep_choices tps choices current = foldl (\<lambda>cs p.
     case find (\<lambda>t. tp_name t = al_name p) tps of
       Some t \<Rightarrow> if map_of cs (al_name p) = None \<and> truthy (tp_follows t) = None
                 then AList.update (al_name p) (al_port p) cs else cs
     | None \<Rightarrow> cs) choices current"

definition or_keep :: "'a option \<Rightarrow> 'a \<Rightarrow> 'a" where
  "or_keep given old = (case given of Some x \<Rightarrow> x | None \<Rightarrow> old)"

definition trim_or_null :: "string option \<Rightarrow> string option" where
  "trim_or_null s = truthy (map_option js_trim s)"

definition update_instance :: "(string \<Rightarrow> string \<Rightarrow> bool option) \<Rightarrow> nat \<Rightarrow> update_input \<Rightarrow> instance_role \<Rightarrow>
    panel \<Rightarrow> panel result" where
  "update_instance re_test iid input who p =
     then_do (get_instance p iid) (\<lambda>i.
     case (find_template p (i_template_id i), find_node (p_store p) (i_node_id i)) of
       (Some def, Some node) \<Rightarrow>
         then_do (guard (\<not> ((ui_image input \<noteq> None \<or> ui_ports input \<noteq> None \<or> ui_limits input \<noteq> None
               \<or> ui_mounts input \<noteq> None) \<and> i_status i \<in> set running_statuses))
             (conflict ''Stop the instance before changing its image, ports, resources or mounts'')) (\<lambda>_.
         then_do (case ui_mounts input of None \<Rightarrow> Inr (i_mounts i)
             | Some ms \<Rightarrow> then_do (check_mounts (n_name node) (n_host_mount_roots node) ms
                 (map vol_path (td_volumes def))) (\<lambda>ok. Inr (Some ok))) (\<lambda>mounts.
         then_do (case ui_image input of None \<Rightarrow> Inr (i_image i)
             | Some img \<Rightarrow> pick_image def (Some img) (Some (i_image i))) (\<lambda>chosen.
         then_do (case ui_variables input of None \<Rightarrow> Inr (i_variables i)
             | Some vs \<Rightarrow> merge_variables re_test (td_variables def) (Some (i_variables i)) vs who) (\<lambda>variables.
         let startup = (case ui_startup_override input of
               None \<Rightarrow> i_startup_override i | Some s \<Rightarrow> trim_or_null s) in
         then_do (guard (startup = i_startup_override i \<or> who = Owner)
             (forbidden ''Only an owner may change the startup command'')) (\<lambda>_.
         let row = i\<lparr>i_mounts := mounts, i_name := or_keep (ui_name input) (i_name i),
               i_description := or_keep (ui_description input) (i_description i), i_image := chosen,
               i_variables := variables, i_limits := or_keep (ui_limits input) (i_limits i),
               i_restart_on_crash := or_keep (ui_restart_on_crash input) (i_restart_on_crash i),
               i_auto_start := or_keep (ui_auto_start input) (i_auto_start i),
               i_startup_override := startup\<rparr>;
             st = p_store p in
         then_do (case ui_ports input of None \<Rightarrow> Inr (s_ports st)
             | Some choices \<Rightarrow>
                 then_do (allocate_ports (td_ports def)
                     (keep_choices (td_ports def) choices (ports_of st iid))
                     (used_ports st (n_id node) (Some iid)) (node_pool node)) (\<lambda>as.
                 Inr (filter (\<lambda>q. ip_instance_id q \<noteq> iid) (s_ports st) @ port_rows iid (n_id node) as)))
           (\<lambda>ports.
         Inr (tell (Broadcast_Updated iid # (if ui_ports input \<noteq> None then [Ports_Changed iid] else []))
           (save_instance row (p\<lparr>p_store := st\<lparr>s_ports := ports\<rparr>\<rparr>)))))))))
     | _ \<Rightarrow> Inl internal_error)"

text \<open>\<open>answer\<close> is what \<open>inst.remove\<close> gave; an agent that does not know the instance is fine. The row's
  ports and grants go with it (the foreign keys cascade).\<close>

definition agent_error :: "string \<Rightarrow> string \<Rightarrow> http_error" where
  "agent_error c m = HttpError (if c = ''invalid_params'' then 400 else 502) (''agent_'' @ c) m []"

definition destroy_instance :: "nat \<Rightarrow> store \<Rightarrow> store" where
  "destroy_instance iid st = st\<lparr>s_instances := filter (\<lambda>i. i_id i \<noteq> iid) (s_instances st),
     s_ports := filter (\<lambda>q. ip_instance_id q \<noteq> iid) (s_ports st),
     s_instance_users := filter (\<lambda>g. iu_instance_id g \<noteq> iid) (s_instance_users st)\<rparr>"

definition remove_instance :: "nat \<Rightarrow> unit result \<Rightarrow> panel \<Rightarrow> panel result" where
  "remove_instance iid answer p =
     then_do (get_instance p iid) (\<lambda>i.
     case find_node (p_store p) (i_node_id i) of
       None \<Rightarrow> Inl internal_error
     | Some node \<Rightarrow>
         then_do (guard (is_connected p (n_id node)) (conflict (n_name node
             @ '' is offline; the instance can only be deleted while its node is connected''))) (\<lambda>_.
         then_do (case answer of Inr u \<Rightarrow> Inr u
             | Inl e \<Rightarrow> if code e = ''agent_not_found'' then Inr () else Inl e) (\<lambda>_.
         let st = p_store p;
             users = map iu_user_id (filter (\<lambda>g. iu_instance_id g = iid) (s_instance_users st)) in
         Inr (tell ([Players_Forget iid, Instance_Deleted iid (n_id node)]
               @ (if users \<noteq> [] then Access_Changed users # map Reconnect_User users else [])
               @ [Broadcast_Updated iid])
             (forget_uuid (i_uuid i) (p\<lparr>p_store := destroy_instance iid st,
                p_history := hist_clear (p_history p) (int iid) None\<rparr>))))))"

section \<open>What the agent is asked\<close>

datatype agent_request =
    Req_Start instance_spec
  | Req_Restart instance_spec
  | Req_Stop string bool
  | Req_Install instance_spec install_spec
  | Req_Command string string
  | Req_Console_Tail string console_stream int
  | Req_Dump string database_spec string
  | Req_Import string database_spec string

definition container_options_agent :: string where
  "container_options_agent = ''0.6.0''"

definition assert_agent_can :: "node_row \<Rightarrow> string option \<Rightarrow> unit result" where
  "assert_agent_can node feature = (case truthy feature of
     None \<Rightarrow> Inr ()
   | Some f \<Rightarrow> guard (\<not> is_outdated_version (n_agent_version node) (Some container_options_agent))
       (conflict (f @ '' needs agent '' @ container_options_agent @ '' or newer; '' @ n_name node
         @ '' runs '' @ (case n_agent_version node of Some v \<Rightarrow> v | None \<Rightarrow> ''null'')
         @ ''. Update it from the node's page.'')))"

text \<open>\<open>specFor\<close>, with the rows an instance includes.\<close>

definition spec_for :: "(string \<Rightarrow> string) \<Rightarrow> panel \<Rightarrow> instance_row \<Rightarrow> instance_spec result" where
  "spec_for hmac p i =
     (case (find_template p (i_template_id i), find_node (p_store p) (i_node_id i)) of
        (Some def, Some node) \<Rightarrow>
          let spec = build_spec hmac i def node (ports_of (p_store p) (i_id i)) (p_registry p) in
          then_do (assert_agent_can node (new_agent_feature spec)) (\<lambda>_. Inr spec)
      | _ \<Rightarrow> Inl internal_error)"

definition assert_online :: "panel \<Rightarrow> instance_row \<Rightarrow> unit result" where
  "assert_online p i = guard (is_connected p (i_node_id i))
     (conflict ((case find_node (p_store p) (i_node_id i) of Some n \<Rightarrow> n_name n | None \<Rightarrow> ''The node'')
       @ '' is offline''))"

definition set_status :: "instance_row \<Rightarrow> instance_status \<Rightarrow> string option \<Rightarrow> panel \<Rightarrow> panel" where
  "set_status i s err p =
     tell [Players_Status (i_id i) s, Broadcast_Status (i_id i) s err]
       (save_instance (i\<lparr>i_status := s, i_error := err\<rparr>) p)"

section \<open>Install\<close>

text \<open>
  Up to the request. \<open>resolved\<close> is the outcome of \<open>resolveInstall\<close>, which asks services on the
  network: the URLs, or the text of the exception. An error that is thrown leaves the panel as the
  handler had changed it by then.
\<close>

definition install_begin :: "(string \<Rightarrow> string) \<Rightarrow> nat \<Rightarrow> nat option \<Rightarrow> (http_error + (string \<times> string) list) \<Rightarrow>
    panel \<Rightarrow> panel \<times> agent_request result" where
  "install_begin hmac iid actor resolved p = (case get_instance p iid of
     Inl e \<Rightarrow> (p, Inl e)
   | Inr i \<Rightarrow> (case assert_online p i of
       Inl e \<Rightarrow> (p, Inl e)
     | Inr _ \<Rightarrow>
         if i_status i \<in> set running_statuses
         then (p, Inl (conflict ''Stop the instance before reinstalling''))
         else (case find_template p (i_template_id i) of
           None \<Rightarrow> (p, Inl internal_error)
         | Some def \<Rightarrow> (case resolved of
             Inl e \<Rightarrow> (set_status i Install_Failed (Some (message e)) p, Inl e)
           | Inr urls \<Rightarrow>
               let i' = i\<lparr>i_status := Installing, i_error := None\<rparr>;
                   p1 = tell [Audit actor ''instance.install'' iid] (set_status i Installing None
                     (p\<lparr>p_history := hist_clear (p_history p) (int iid) (Some Install_Stream)\<rparr>)) in
               (p1, then_do (spec_for hmac p1 i') (\<lambda>spec.
                  Inr (Req_Install spec (build_install def urls (p_registry p)))))))))"

text \<open>The answer: the script's exit code, or the error of the request.\<close>

definition install_end :: "int \<Rightarrow> nat \<Rightarrow> int result \<Rightarrow> panel \<Rightarrow> panel \<times> unit result" where
  "install_end now iid answer p = (case get_instance p iid of
     Inl e \<Rightarrow> (p, Inl e)
   | Inr i \<Rightarrow> (case answer of
       Inl e \<Rightarrow> (set_status i Install_Failed (Some (message e)) p, Inl e)
     | Inr exit_code \<Rightarrow>
         if exit_code = 0
         then (tell [Ports_Changed iid]
                 (set_status (i\<lparr>i_installed_at := Some now\<rparr>) Stopped None p), Inr ())
         else (set_status i Install_Failed
                 (Some (''The install script exited with code '' @ string_of_int exit_code)) p, Inr ())))"

section \<open>Power, commands\<close>

fun power_allowed :: "power_action \<Rightarrow> instance_status list" where
  "power_allowed Start = [Stopped, Crashed, Unknown]"
| "power_allowed Stop = [Running, Starting, Crashed, Unknown]"
| "power_allowed Restart = [Running, Starting, Stopped, Crashed]"
| "power_allowed Kill = [Running, Starting, Stopping, Crashed, Unknown]"

fun action_name :: "power_action \<Rightarrow> string" where
  "action_name Start = ''start''"
| "action_name Stop = ''stop''"
| "action_name Restart = ''restart''"
| "action_name Kill = ''kill''"

text \<open>\<open>status.replace("_", " ")\<close>: the first underscore only.\<close>

definition status_words :: "instance_status \<Rightarrow> string" where
  "status_words s = (let n = status_name s; (a, b) = (takeWhile (\<lambda>c. c \<noteq> CHR ''_'') n, dropWhile (\<lambda>c. c \<noteq> CHR ''_'') n)
     in if b = [] then a else a @ '' '' @ tl b)"

text \<open>A failure inside the \<open>try\<close>: the fresh row keeps its status and gets the message.\<close>

definition power_failed :: "nat \<Rightarrow> http_error \<Rightarrow> panel \<Rightarrow> panel \<times> http_error" where
  "power_failed iid e p = (case get_instance p iid of
     Inl e' \<Rightarrow> (p, e')
   | Inr i \<Rightarrow> (tell [Broadcast_Status iid (i_status i) (Some (message e))]
       (save_instance (i\<lparr>i_error := Some (message e)\<rparr>) p), e))"

definition power_begin :: "(string \<Rightarrow> string) \<Rightarrow> nat \<Rightarrow> power_action \<Rightarrow> nat \<Rightarrow> panel \<Rightarrow>
    panel \<times> agent_request result" where
  "power_begin hmac iid action actor p = (case get_instance p iid of
     Inl e \<Rightarrow> (p, Inl e)
   | Inr i \<Rightarrow> (case assert_online p i of
       Inl e \<Rightarrow> (p, Inl e)
     | Inr _ \<Rightarrow>
         if i_status i \<notin> set (power_allowed action)
         then (p, Inl (conflict (''Cannot '' @ action_name action @ '' an instance that is ''
                 @ status_words (i_status i))))
         else if (action = Start \<or> action = Restart) \<and> i_installed_at i = None
         then (p, Inl (conflict ''The instance is not installed yet''))
         else let p1 = tell [Audit (Some actor) (''instance.'' @ action_name action) iid] p in
           (case (case action of
                Start \<Rightarrow> then_do (spec_for hmac p1 i) (\<lambda>spec. Inr (Req_Start spec))
              | Restart \<Rightarrow> then_do (spec_for hmac p1 i) (\<lambda>spec. Inr (Req_Restart spec))
              | Stop \<Rightarrow> Inr (Req_Stop (i_uuid i) False)
              | Kill \<Rightarrow> Inr (Req_Stop (i_uuid i) True)) of
              Inr req \<Rightarrow> (p1, Inr req)
            | Inl e \<Rightarrow> (case power_failed iid e p1 of (p2, e') \<Rightarrow> (p2, Inl e')))))"

definition power_end :: "int \<Rightarrow> nat \<Rightarrow> instance_state result \<Rightarrow> panel \<Rightarrow> panel \<times> unit result" where
  "power_end now iid answer p = (case answer of
     Inl e \<Rightarrow> (case power_failed iid e p of (p1, e') \<Rightarrow> (p1, Inl e'))
   | Inr s \<Rightarrow> (case get_instance p iid of
       Inl e \<Rightarrow> (p, Inl e)
     | Inr i \<Rightarrow> (apply_state now i s p, Inr ())))"

definition command_begin :: "nat \<Rightarrow> string \<Rightarrow> panel \<Rightarrow> agent_request result" where
  "command_begin iid cmd p =
     then_do (get_instance p iid) (\<lambda>i.
     then_do (assert_online p i) (\<lambda>_.
     then_do (guard (i_status i = Running \<or> i_status i = Starting) (conflict ''The instance is not running''))
       (\<lambda>_. Inr (Req_Command (i_uuid i) cmd))))"

definition command_end :: "nat \<Rightarrow> nat \<Rightarrow> unit result \<Rightarrow> panel \<Rightarrow> panel \<times> unit result" where
  "command_end iid actor answer p = (case answer of
     Inl e \<Rightarrow> (p, Inl e)
   | Inr _ \<Rightarrow> (tell [Audit (Some actor) ''instance.command'' iid] p, Inr ()))"

text \<open>The node's answer when it is connected and gives one, else the server's own buffer.\<close>

definition console_tail :: "nat \<Rightarrow> console_stream \<Rightarrow> int \<Rightarrow> console_line list result \<Rightarrow> panel \<Rightarrow>
    console_line list result" where
  "console_tail iid stream n answer p =
     then_do (get_instance p iid) (\<lambda>i.
       case (is_connected p (i_node_id i), answer) of
         (True, Inr ls) \<Rightarrow> Inr ls
       | _ \<Rightarrow> Inr (hist_tail (p_history p) (int iid) stream n))"

section \<open>Database\<close>

record database_dto =
  dd_engine :: database_engine
  dd_image :: string
  dd_host :: string
  dd_port :: int
  dd_name :: string
  dd_user :: string
  dd_password :: string

definition database_of :: "(string \<Rightarrow> string) \<Rightarrow> panel \<Rightarrow> instance_row \<Rightarrow> database_spec result" where
  "database_of hmac p i = (case find_template p (i_template_id i) of
     None \<Rightarrow> Inl internal_error
   | Some def \<Rightarrow> (case database_spec_of hmac i def of
       None \<Rightarrow> Inl (not_found ''Database'') | Some db \<Rightarrow> Inr db))"

definition database_details :: "(string \<Rightarrow> string) \<Rightarrow> panel \<Rightarrow> nat \<Rightarrow> database_dto result" where
  "database_details hmac p iid =
     then_do (get_instance p iid) (\<lambda>i. then_do (database_of hmac p i) (\<lambda>db.
       Inr \<lparr>dd_engine = ds_engine db, dd_image = ds_image db, dd_host = database_host,
            dd_port = database_port, dd_name = ds_name db, dd_user = ds_user db,
            dd_password = ds_password db\<rparr>))"

definition ready_for_database_work ::
    "(string \<Rightarrow> string) \<Rightarrow> panel \<Rightarrow> nat \<Rightarrow> (instance_row \<times> database_spec) result" where
  "ready_for_database_work hmac p iid =
     then_do (get_instance p iid) (\<lambda>i.
     then_do (database_of hmac p i) (\<lambda>db.
     then_do (assert_online p i) (\<lambda>_.
     then_do (case find_node (p_store p) (i_node_id i) of
         None \<Rightarrow> Inl internal_error | Some n \<Rightarrow> assert_agent_can n (Some ''A database'')) (\<lambda>_.
     then_do (guard (i_status i \<noteq> Installing) (conflict ''The instance is installing'')) (\<lambda>_.
     Inr (i, db))))))"

text \<open>\<open>stamp\<close> is \<open>fileStamp()\<close>, the time in a form that is safe in a file name.\<close>

definition dump_database :: "(string \<Rightarrow> string) \<Rightarrow> string \<Rightarrow> nat \<Rightarrow> string option \<Rightarrow> panel \<Rightarrow>
    agent_request result" where
  "dump_database hmac stamp iid path p =
     then_do (ready_for_database_work hmac p iid) (\<lambda>(i, db).
       Inr (Req_Dump (i_uuid i) db (case path of Some f \<Rightarrow> f
         | None \<Rightarrow> ''database-dumps/'' @ ds_name db @ ''-'' @ stamp @ ''.sql.gz'')))"

definition import_database :: "(string \<Rightarrow> string) \<Rightarrow> nat \<Rightarrow> string \<Rightarrow> panel \<Rightarrow> agent_request result" where
  "import_database hmac iid path p =
     then_do (ready_for_database_work hmac p iid) (\<lambda>(i, db). Inr (Req_Import (i_uuid i) db path))"

section \<open>Access\<close>

definition grant_access :: "nat \<Rightarrow> nat \<Rightarrow> instance_role \<Rightarrow> nat \<Rightarrow> panel \<Rightarrow> panel result" where
  "grant_access iid uid' r actor p =
     then_do (get_instance p iid) (\<lambda>_.
     then_do (guard (find_user (p_store p) uid' \<noteq> None) (bad_request ''Unknown user'')) (\<lambda>_.
     let st = p_store p;
         grants = (case find_grant st iid uid' of
           None \<Rightarrow> s_instance_users st @
             [\<lparr>iu_instance_id = iid, iu_user_id = uid', iu_role = r, iu_granted_by = Some actor\<rparr>]
         | Some _ \<Rightarrow> map (\<lambda>g. if iu_instance_id g = iid \<and> iu_user_id g = uid' then g\<lparr>iu_role := r\<rparr> else g)
             (s_instance_users st)) in
     Inr (tell [Access_Changed [uid'], Reconnect_User uid', Broadcast_Updated iid]
       (p\<lparr>p_store := st\<lparr>s_instance_users := grants\<rparr>\<rparr>))))"

definition revoke_access :: "nat \<Rightarrow> nat \<Rightarrow> panel \<Rightarrow> panel result" where
  "revoke_access iid uid' p =
     (let st = p_store p in
      then_do (guard (find_grant st iid uid' \<noteq> None) (not_found ''Access'')) (\<lambda>_.
      Inr (tell [Access_Changed [uid'], Reconnect_User uid', Broadcast_Updated iid]
        (p\<lparr>p_store := st\<lparr>s_instance_users :=
           filter (\<lambda>g. \<not> (iu_instance_id g = iid \<and> iu_user_id g = uid')) (s_instance_users st)\<rparr>\<rparr>))))"

datatype access_via = Via_Instance | Via_Node

record access_entry =
  ae_user_id :: nat
  ae_role :: instance_role
  ae_via :: access_via

text \<open>\<open>listAccess\<close> without the users' names; both lists are in the order of the grants.\<close>

definition list_access :: "nat \<Rightarrow> panel \<Rightarrow> access_entry list result" where
  "list_access iid p =
     then_do (get_instance p iid) (\<lambda>i.
       Inr (map (\<lambda>u. \<lparr>ae_user_id = u, ae_role = Owner, ae_via = Via_Node\<rparr>)
              (node_owner_ids (p_store p) (i_node_id i))
          @ map (\<lambda>g. \<lparr>ae_user_id = iu_user_id g, ae_role = iu_role g, ae_via = Via_Instance\<rparr>)
              (filter (\<lambda>g. iu_instance_id g = iid) (s_instance_users (p_store p)))))"

end
