(* ===== verification/Supervisor.thy ===== *)
theory Supervisor
  imports Instances
begin

text \<open>
  Keeping rows in step with their nodes (server/src/modules/instances/supervisor.ts), then the panel
  as a whole: a step relation over every handler of Instances and the supervisor, and what holds in
  every state it reaches.
\<close>

section \<open>Reconciling after an agent's hello\<close>

text \<open>\<open>states\<close> is the node's answer to \<open>inst.list\<close>; rows are read when it arrives.\<close>

definition reconcile_status :: "instance_row \<Rightarrow> instance_status" where
  "reconcile_status i = (if i_installed_at i \<noteq> None then Stopped
     else if i_status i = Unknown then Stopped else i_status i)"

definition reconcile_row :: "int \<Rightarrow> (string \<Rightarrow> instance_state option) \<Rightarrow> panel \<Rightarrow> instance_row \<Rightarrow> panel" where
  "reconcile_row now by_uuid p i = (case by_uuid (i_uuid i) of
     Some s \<Rightarrow> apply_state now i s p
   | None \<Rightarrow>
       if i_status i \<noteq> Installing \<and> i_status i \<noteq> Install_Failed \<and> i_status i \<noteq> reconcile_status i
       then tell [Players_Status (i_id i) (reconcile_status i),
                  Broadcast_Status (i_id i) (reconcile_status i) (i_error i)]
              (save_instance (i\<lparr>i_status := reconcile_status i, i_container_id := None\<rparr>) p)
       else p)"

definition rows_of_node :: "panel \<Rightarrow> nat \<Rightarrow> instance_row list" where
  "rows_of_node p nid = filter (\<lambda>i. i_node_id i = nid) (s_instances (p_store p))"

definition reconcile :: "int \<Rightarrow> nat \<Rightarrow> instance_state list \<Rightarrow> panel \<Rightarrow> panel" where
  "reconcile now nid states p =
     (let rows = rows_of_node p nid in
      if rows = [] then p
      else let p1 = foldl (reconcile_row now (index_by st_uuid states)) p rows in
        tell [Players_Resync (map i_id (filter (\<lambda>i. i_status i = Running)
               (rows_of_node p1 nid)))] p1)"

text \<open>Auto-start, one instance at a time; \<open>answer\<close> gives what the agent says to each start.\<close>

fun auto_start :: "(string \<Rightarrow> string) \<Rightarrow> int \<Rightarrow> (nat \<Rightarrow> instance_state result) \<Rightarrow> instance_row list \<Rightarrow>
    panel \<Rightarrow> panel" where
  "auto_start hmac now answer [] p = p"
| "auto_start hmac now answer (row # rows) p =
     (if \<not> i_auto_start row \<or> i_installed_at row = None then auto_start hmac now answer rows p
      else (case find_instance (p_store p) (i_id row) of
        None \<Rightarrow> auto_start hmac now answer rows p
      | Some fresh \<Rightarrow>
          if i_status fresh \<noteq> Stopped \<and> i_status fresh \<noteq> Crashed then auto_start hmac now answer rows p
          else (case power_begin hmac (i_id row) Start 0 p of
            (p1, Inl e) \<Rightarrow> auto_start hmac now answer rows p1
          | (p1, Inr req) \<Rightarrow> auto_start hmac now answer rows
              (fst (power_end now (i_id row) (answer (i_id row)) p1)))))"

section \<open>When a node goes offline\<close>

definition mark_unknown :: "nat \<Rightarrow> panel \<Rightarrow> panel" where
  "mark_unknown nid p = foldl (\<lambda>p i.
     if i_status i = Unknown \<or> i_status i = Install_Failed then p
     else tell [Broadcast_Status (i_id i) Unknown (i_error i)]
            (save_instance (i\<lparr>i_status := Unknown\<rparr>) p)) p (rows_of_node p nid)"

section \<open>Saving rows\<close>

lemma tell_simps [simp]:
  "p_store (tell es p) = p_store p" "p_next_id (tell es p) = p_next_id p"
  "p_connected (tell es p) = p_connected p" "p_registry (tell es p) = p_registry p"
  "p_history (tell es p) = p_history p" "p_uuids (tell es p) = p_uuids p"
  by (simp_all add: tell_def)

lemma save_instance_simps [simp]:
  "p_next_id (save_instance row p) = p_next_id p" "p_connected (save_instance row p) = p_connected p"
  "s_ports (p_store (save_instance row p)) = s_ports (p_store p)"
  "s_nodes (p_store (save_instance row p)) = s_nodes (p_store p)"
  "s_templates (p_store (save_instance row p)) = s_templates (p_store p)"
  "s_instance_users (p_store (save_instance row p)) = s_instance_users (p_store p)"
  "s_node_users (p_store (save_instance row p)) = s_node_users (p_store p)"
  "s_users (p_store (save_instance row p)) = s_users (p_store p)"
  "s_instances (p_store (save_instance row p)) =
     map (\<lambda>r. if i_id r = i_id row then row else r) (s_instances (p_store p))"
  by (simp_all add: save_instance_def change_instances_def)

text \<open>A change of rows that keeps identities: id, uuid, node and template of every row.\<close>

definition identity :: "instance_row \<Rightarrow> nat \<times> string \<times> nat \<times> nat" where
  "identity i = (i_id i, i_uuid i, i_node_id i, i_template_id i)"

text \<open>\<open>same_rows p q\<close>: \<open>q\<close> differs from \<open>p\<close> in row contents and effects only.\<close>

definition same_rows :: "panel \<Rightarrow> panel \<Rightarrow> bool" where
  "same_rows p q \<longleftrightarrow> map identity (s_instances (p_store q)) = map identity (s_instances (p_store p))
     \<and> s_ports (p_store q) = s_ports (p_store p) \<and> s_nodes (p_store q) = s_nodes (p_store p)
     \<and> s_templates (p_store q) = s_templates (p_store p)
     \<and> s_instance_users (p_store q) = s_instance_users (p_store p)
     \<and> s_node_users (p_store q) = s_node_users (p_store p) \<and> s_users (p_store q) = s_users (p_store p)
     \<and> p_next_id q = p_next_id p"

lemma same_rows_refl [simp]: "same_rows p p"
  by (simp add: same_rows_def)

lemma same_rows_trans: "same_rows p q \<Longrightarrow> same_rows q r \<Longrightarrow> same_rows p r"
  by (simp add: same_rows_def)

lemma same_rows_tell [simp]: "same_rows p (tell es q) = same_rows p q" "same_rows (tell es p) q = same_rows p q"
  by (simp_all add: same_rows_def)

lemma distinct_ids_find:
  "distinct (map i_id is) \<Longrightarrow> i \<in> set is \<Longrightarrow> find (\<lambda>r. i_id r = i_id i) is = Some i"
  by (induction "is") auto

lemma same_rows_save:
  assumes "distinct (map i_id (s_instances (p_store p)))" "i \<in> set (s_instances (p_store p))"
    and "identity row = identity i"
  shows "same_rows p (save_instance row p)"
proof -
  have "identity (if i_id r = i_id row then row else r) = identity r" if "r \<in> set (s_instances (p_store p))" for r
    using assms that by (auto simp: identity_def distinct_map inj_on_def)
  then show ?thesis by (simp add: same_rows_def)
qed

lemma same_rows_ids:
  "same_rows p q \<Longrightarrow> map i_id (s_instances (p_store q)) = map i_id (s_instances (p_store p))"
  unfolding same_rows_def identity_def
  by (metis (no_types, lifting) map_eq_conv map_map comp_apply fst_conv map_cong)

section \<open>What reconciling and going offline leave\<close>

lemma fold_rows:
  assumes "s_instances (p_store p) = orig" and "distinct (map i_id orig)" and "set rows \<subseteq> set orig"
    and "distinct rows" and "\<And>i. i_id (g i) = i_id i"
    and step: "\<And>p i. i \<in> set rows \<Longrightarrow> i \<in> set (s_instances (p_store p)) \<Longrightarrow>
      distinct (map i_id (s_instances (p_store p))) \<Longrightarrow>
      s_instances (p_store (f p i)) = map (\<lambda>r. if i_id r = i_id i then g i else r) (s_instances (p_store p))"
  shows "s_instances (p_store (foldl f p rows)) = map (\<lambda>r. if r \<in> set rows then g r else r) orig"
  using assms(3,4) step
proof (induction rows rule: rev_induct)
  case Nil
  then show ?case by (simp add: assms(1))
next
  case (snoc x rows)
  define now where "now = map (\<lambda>r. if r \<in> set rows then g r else r) orig"
  have IH: "s_instances (p_store (foldl f p rows)) = now"
    unfolding now_def
  proof (rule snoc.IH)
    show "set rows \<subseteq> set orig" "distinct rows" using snoc.prems(1,2) by auto
    show "s_instances (p_store (f p i)) = map (\<lambda>r. if i_id r = i_id i then g i else r) (s_instances (p_store p))"
      if "i \<in> set rows" "i \<in> set (s_instances (p_store p))" "distinct (map i_id (s_instances (p_store p)))" for p i
      using snoc.prems(3) [of i p] that by simp
  qed
  have x: "x \<in> set orig" "x \<notin> set rows" using snoc.prems(1,2) by auto
  then have "x \<in> set now" by (force simp: now_def)
  moreover have ids: "map i_id now = map i_id orig" using assms(5) by (simp add: now_def)
  ultimately have "s_instances (p_store (f (foldl f p rows) x)) = map (\<lambda>r. if i_id r = i_id x then g x else r) now"
    using snoc.prems(3) [of x "foldl f p rows"] assms(2) by (simp add: IH)
  moreover have "map (\<lambda>r. if i_id r = i_id x then g x else r) now
      = map (\<lambda>r. if r \<in> set (rows @ [x]) then g r else r) orig"
  proof -
    have "(if i_id (if r \<in> set rows then g r else r) = i_id x then g x else if r \<in> set rows then g r else r)
        = (if r \<in> set (rows @ [x]) then g r else r)" if r: "r \<in> set orig" for r
    proof (cases "i_id r = i_id x")
      case True
      then have "r = x" using assms(2) r x(1) by (auto simp: distinct_map inj_on_def)
      with x(2) show ?thesis by simp
    next
      case False
      then have "r \<noteq> x" by auto
      with False show ?thesis by (auto simp: assms(5))
    qed
    then show ?thesis by (simp add: now_def)
  qed
  ultimately show ?case by simp
qed

text \<open>The row a reconciliation leaves.\<close>

definition reconciled :: "int \<Rightarrow> (string \<Rightarrow> instance_state option) \<Rightarrow> instance_row \<Rightarrow> instance_row" where
  "reconciled now by_uuid i = (case by_uuid (i_uuid i) of
     Some s \<Rightarrow> if keeps_installing i s then i else applied_row now i s
   | None \<Rightarrow>
       if i_status i \<noteq> Installing \<and> i_status i \<noteq> Install_Failed \<and> i_status i \<noteq> reconcile_status i
       then i\<lparr>i_status := reconcile_status i, i_container_id := None\<rparr> else i)"

lemma applied_row_keeps [simp]: "i_id (applied_row now i s) = i_id i" "i_node_id (applied_row now i s) = i_node_id i"
  "i_uuid (applied_row now i s) = i_uuid i" "i_template_id (applied_row now i s) = i_template_id i"
  "i_status (applied_row now i s) = st_state s" "i_error (applied_row now i s) = st_error s"
  by (simp_all add: applied_row_def)

lemma reconciled_keeps [simp]: "i_id (reconciled now by_uuid i) = i_id i"
  "i_node_id (reconciled now by_uuid i) = i_node_id i"
  by (simp_all add: reconciled_def split: option.splits)

lemma map_same: "distinct (map i_id xs) \<Longrightarrow> i \<in> set xs \<Longrightarrow> map (\<lambda>r. if i_id r = i_id i then i else r) xs = xs"
  by (rule map_idI) (auto simp: distinct_map inj_on_def)

lemma reconcile_row_instances:
  assumes "i \<in> set (s_instances (p_store p))" "distinct (map i_id (s_instances (p_store p)))"
  shows "s_instances (p_store (reconcile_row now by_uuid p i)) =
    map (\<lambda>r. if i_id r = i_id i then reconciled now by_uuid i else r) (s_instances (p_store p))"
  using map_same [OF assms(2,1)]
  by (auto simp: reconcile_row_def reconciled_def apply_state_def cong: if_cong split: option.splits)

lemma reconcile_instances:
  assumes "distinct (map i_id (s_instances (p_store p)))"
  shows "s_instances (p_store (reconcile now nid states p)) =
    map (\<lambda>i. if i_node_id i = nid then reconciled now (index_by st_uuid states) i else i) (s_instances (p_store p))"
proof -
  have "distinct (rows_of_node p nid)" using assms by (simp add: rows_of_node_def distinct_map)
  then have "s_instances (p_store (foldl (reconcile_row now (index_by st_uuid states)) p (rows_of_node p nid)))
      = map (\<lambda>r. if r \<in> set (rows_of_node p nid) then reconciled now (index_by st_uuid states) r else r)
          (s_instances (p_store p))"
    using assms reconcile_row_instances
    by (intro fold_rows) (auto simp: rows_of_node_def)
  then show ?thesis
    by (auto simp: reconcile_def Let_def rows_of_node_def filter_empty_conv intro!: map_idI [symmetric])
qed

lemma mark_unknown_instances:
  assumes "distinct (map i_id (s_instances (p_store p)))"
  shows "s_instances (p_store (mark_unknown nid p)) =
    map (\<lambda>i. if i_node_id i = nid \<and> i_status i \<noteq> Install_Failed then i\<lparr>i_status := Unknown\<rparr> else i)
      (s_instances (p_store p))"
proof -
  define g where "g = (\<lambda>i :: instance_row. if i_status i = Unknown \<or> i_status i = Install_Failed then i
    else i\<lparr>i_status := Unknown\<rparr>)"
  have "distinct (rows_of_node p nid)" using assms by (simp add: rows_of_node_def distinct_map)
  then have "s_instances (p_store (mark_unknown nid p))
      = map (\<lambda>r. if r \<in> set (rows_of_node p nid) then g r else r) (s_instances (p_store p))"
    unfolding mark_unknown_def using assms
    by (intro fold_rows) (auto simp: rows_of_node_def g_def map_same cong: if_cong)
  then show ?thesis
    by (auto simp: rows_of_node_def g_def)
qed

text \<open>A hello settles every row of the node: nothing stays \<open>unknown\<close>, every instance the node
  reports gets the state it reports (but a stopped, not installed container does not end an install),
  every other row that is not about an install is stopped or was never installed, and rows of other
  nodes are untouched.\<close>

theorem reconcile_settles:
  assumes "distinct (map i_id (s_instances (p_store p)))" and "list_all (\<lambda>s. st_state s \<in> set agent_states) states"
    and "i \<in> set (s_instances (p_store p))"
  shows "\<exists>i'\<in>set (s_instances (p_store (reconcile now nid states p))). i_id i' = i_id i
    \<and> (if i_node_id i \<noteq> nid then i' = i
       else i_status i' \<noteq> Unknown
         \<and> (case index_by st_uuid states (i_uuid i) of
              Some s \<Rightarrow> i_status i' = st_state s \<or> i' = i \<and> i_status i = Installing \<and> st_state s = Stopped
            | None \<Rightarrow> i_status i' \<in> {Installing, Install_Failed, Stopped} \<or> i_installed_at i = None \<and> i' = i))"
proof -
  define i' where "i' = (if i_node_id i = nid then reconciled now (index_by st_uuid states) i else i)"
  have mem: "i' \<in> set (s_instances (p_store (reconcile now nid states p)))"
    using assms(3) unfolding reconcile_instances [OF assms(1)] i'_def by auto
  have known: "st_state s \<noteq> Unknown" if "index_by st_uuid states u = Some s" for s u
    using index_by_Some [OF that] assms(2) by (auto simp: list_all_iff agent_states_def)
  have settled: "if i_node_id i \<noteq> nid then i' = i
       else i_status i' \<noteq> Unknown
         \<and> (case index_by st_uuid states (i_uuid i) of
              Some s \<Rightarrow> i_status i' = st_state s \<or> i' = i \<and> i_status i = Installing \<and> st_state s = Stopped
            | None \<Rightarrow> i_status i' \<in> {Installing, Install_Failed, Stopped} \<or> i_installed_at i = None \<and> i' = i)"
    using known by (auto simp: i'_def reconciled_def keeps_installing_def reconcile_status_def split: option.splits)
  have same: "i_id i' = i_id i" by (simp add: i'_def)
  show ?thesis by (rule bexI [OF _ mem], rule conjI, rule same, rule settled)
qed

definition sample_panel :: panel where
  "sample_panel = \<lparr>p_store = sample_store, p_next_id = 3, p_connected = {1}, p_registry = [],
     p_history = new_history, p_capacity_loaded = 0, p_uuids = Map.empty, p_stats_written = Map.empty,
     p_effects = []\<rparr>"

definition sample_state :: instance_state where
  "sample_state = \<lparr>st_uuid = ''u1'', st_state = Running, st_container_id = Some ''c'', st_started_at = Some 7,
     st_exit_code = None, st_installed = True, st_error = None\<rparr>"

theorem reconcile_settles_witness:
  "\<exists>i'\<in>set (s_instances (p_store (reconcile 9 1 [sample_state] sample_panel))). i_id i' = 1 \<and> i_status i' = Running"
proof -
  have "distinct (map i_id (s_instances (p_store sample_panel)))"
    "list_all (\<lambda>s. st_state s \<in> set agent_states) [sample_state]"
    "sample_instance \<in> set (s_instances (p_store sample_panel))"
    by (simp_all add: sample_panel_def sample_store_defs sample_state_def agent_states_def)
  from reconcile_settles [OF this, of 9 1] show ?thesis
    by (simp add: sample_instance_def sample_state_def index_by_def) blast
qed

section \<open>States the agent reports while the server owns the status\<close>

text \<open>The server's own statuses are not safe from a report: a state that says the container is
  stopped and installed ends an install that is still running (any reinstall), and any report at all
  replaces \<open>install_failed\<close>. Only "stopped and not installed" is held back, and only while installing.\<close>

theorem report_replaces_install:
  "i_status i = Installing \<and> st_state s = Stopped \<and> st_installed s \<or> i_status i = Install_Failed \<longrightarrow>
     \<not> keeps_installing i s \<and> i_status (applied_row now i s) = st_state s"
  by (auto simp: keeps_installing_def)

theorem report_replaces_install_witness:
  "i_status (applied_row 0 (sample_instance\<lparr>i_status := Installing\<rparr>) (sample_state\<lparr>st_state := Stopped\<rparr>)) = Stopped"
  using report_replaces_install [of "sample_instance\<lparr>i_status := Installing\<rparr>" "sample_state\<lparr>st_state := Stopped\<rparr>" 0]
  by (simp add: sample_state_def)

end
