(* ===== verification/Panel.thy ===== *)
theory Panel
  imports Supervisor
begin

text \<open>
  The panel as a whole: the port table as an interface between the allocator and the handlers, a step
  relation over every handler that changes instances, and the invariants of every state it reaches.
\<close>

section \<open>The port table's contract\<close>

text \<open>What \<open>create\<close> and \<open>update\<close> rely on: an allocation avoids the used ports and repeats none.\<close>

locale port_allocator =
  fixes allocate :: "'t \<Rightarrow> 'c \<Rightarrow> int set \<Rightarrow> 'r \<Rightarrow> allocation list result"
    and accepted :: "'t \<Rightarrow> bool"
    and names :: "'t \<Rightarrow> string list"
  assumes fresh: "accepted t \<Longrightarrow> allocate t c used r = Inr as \<Longrightarrow>
      distinct (map al_port as) \<and> (\<forall>a\<in>set as. al_port a \<notin> used)"
    and named: "accepted t \<Longrightarrow> allocate t c used r = Inr as \<Longrightarrow> map al_name as = names t"
    and names_distinct: "accepted t \<Longrightarrow> distinct (names t)"
begin

text \<open>Replacing one instance's rows by a fresh allocation keeps ports unique on every node.\<close>

lemma replace_unique:
  assumes "accepted t" "allocate t c used r = Inr as"
    and table: "distinct (map (\<lambda>q. (ip_node_id q, al_port q)) rows)"
    and used: "\<And>q. q \<in> set rows \<Longrightarrow> ip_node_id q = nid \<Longrightarrow> ip_instance_id q \<noteq> iid \<Longrightarrow> al_port q \<in> used"
  shows "distinct (map (\<lambda>q. (ip_node_id q, al_port q))
    (filter (\<lambda>q. ip_instance_id q \<noteq> iid) rows @ port_rows iid nid as))"
proof -
  have new: "map (\<lambda>q. (ip_node_id q, al_port q)) (port_rows iid nid as) = map (Pair nid) (map al_port as)"
    by (simp add: port_rows_def allocation.defs comp_def)
  have "distinct (map (\<lambda>q. (ip_node_id q, al_port q)) (filter (\<lambda>q. ip_instance_id q \<noteq> iid) rows))"
    using table by (rule distinct_map_filter)
  moreover have "distinct (map (Pair nid) (map al_port as))"
    using fresh [OF assms(1,2)] by (simp only: distinct_map [of "Pair nid"]) (auto simp: inj_on_def)
  moreover have "(ip_node_id q, al_port q) \<noteq> (nid, al_port a)"
    if "q \<in> set rows" "ip_instance_id q \<noteq> iid" "a \<in> set as" for q a
    using used [OF that(1) _ that(2)] fresh [OF assms(1,2)] that(3) by auto
  ultimately show ?thesis
    unfolding map_append new distinct_append by (auto simp: image_iff)
qed

lemma replace_names:
  assumes "accepted t" "allocate t c used r = Inr as"
    and table: "distinct (map (\<lambda>q. (ip_instance_id q, al_name q)) rows)"
  shows "distinct (map (\<lambda>q. (ip_instance_id q, al_name q))
    (filter (\<lambda>q. ip_instance_id q \<noteq> iid) rows @ port_rows iid nid as))"
proof -
  have new: "map (\<lambda>q. (ip_instance_id q, al_name q)) (port_rows iid nid as) = map (Pair iid) (map al_name as)"
    by (simp add: port_rows_def allocation.defs comp_def)
  have "distinct (map (\<lambda>q. (ip_instance_id q, al_name q)) (filter (\<lambda>q. ip_instance_id q \<noteq> iid) rows))"
    using table by (rule distinct_map_filter)
  moreover have "distinct (map (Pair iid) (map al_name as))"
    unfolding named [OF assms(1,2)] using names_distinct [OF assms(1)]
    by (simp only: distinct_map [of "Pair iid"]) (auto simp: inj_on_def)
  ultimately show ?thesis
    unfolding map_append new distinct_append by auto
qed

end

lemma fits_names: "list_all2 describes ports as \<Longrightarrow> map al_name as = map tp_name ports"
  by (induction rule: list_all2_induct) (auto simp: describes_def)

interpretation alloc: port_allocator allocate_ports template_ports_ok "map tp_name"
proof
  fix t c used r as
  assume ok: "template_ports_ok t"
  then show "distinct (map tp_name t)"
    using ports_ok_distinct template_ports_okD(1) by blast
  assume "allocate_ports t c used r = Inr as"
  from allocation_fits [OF ok this]
  show "distinct (map al_port as) \<and> (\<forall>a\<in>set as. al_port a \<notin> used)" "map al_name as = map tp_name t"
    using fits_names by (auto simp: fits_node_def)
qed

section \<open>Rows that keep their identity\<close>

lemma same_rows_save_row:
  assumes "distinct (map i_id (s_instances (p_store p)))"
    and "identity row \<in> identity ` set (s_instances (p_store p))"
  shows "same_rows p (save_instance row p)"
proof -
  from assms(2) obtain i where "i \<in> set (s_instances (p_store p))" "identity row = identity i" by auto
  then show ?thesis using same_rows_save assms(1) by blast
qed

lemma same_rows_identity:
  "same_rows p q \<Longrightarrow> identity ` set (s_instances (p_store q)) = identity ` set (s_instances (p_store p))"
  unfolding same_rows_def by (metis set_map)

lemma found_identity:
  "get_instance p iid = Inr i \<Longrightarrow> i \<in> set (s_instances (p_store p)) \<and> i_id i = iid"
  by (auto simp: get_instance_def find_instance_def find_Some_iff split: option.splits)

lemma identity_updates [simp]:
  "identity (i\<lparr>i_status := a\<rparr>) = identity i" "identity (i\<lparr>i_error := b\<rparr>) = identity i"
  "identity (i\<lparr>i_installed_at := c\<rparr>) = identity i" "identity (i\<lparr>i_container_id := d\<rparr>) = identity i"
  "identity (applied_row now i s) = identity i"
  by (simp_all add: identity_def)

lemma same_rows_history [simp]: "same_rows p (q\<lparr>p_history := h\<rparr>) = same_rows p q"
  "same_rows (p\<lparr>p_history := h\<rparr>) q = same_rows p q"
  "same_rows p (q\<lparr>p_uuids := u\<rparr>) = same_rows p q" "same_rows (p\<lparr>p_uuids := u\<rparr>) q = same_rows p q"
  "same_rows p (q\<lparr>p_capacity_loaded := k\<rparr>) = same_rows p q"
  "same_rows p (q\<lparr>p_connected := c\<rparr>) = same_rows p q"
  "same_rows p (q\<lparr>p_stats_written := w\<rparr>) = same_rows p q"
  "same_rows (p\<lparr>p_stats_written := w\<rparr>) q = same_rows p q"
  by (simp_all add: same_rows_def)

lemma same_rows_apply:
  "distinct (map i_id (s_instances (p_store p))) \<Longrightarrow> identity i \<in> identity ` set (s_instances (p_store p)) \<Longrightarrow>
    same_rows p (apply_state now i s p)"
  by (simp add: apply_state_def same_rows_save_row)

lemma same_rows_set_status:
  "distinct (map i_id (s_instances (p_store p))) \<Longrightarrow> identity i \<in> identity ` set (s_instances (p_store p)) \<Longrightarrow>
    same_rows p (set_status i s e p)"
  by (simp add: set_status_def same_rows_save_row)

lemma same_rows_fold:
  assumes "distinct (map i_id (s_instances (p_store p)))" and "set rows \<subseteq> set (s_instances (p_store p))"
    and step: "\<And>q i. distinct (map i_id (s_instances (p_store q))) \<Longrightarrow>
      identity i \<in> identity ` set (s_instances (p_store q)) \<Longrightarrow> same_rows q (f q i)"
  shows "same_rows p (foldl f p rows)"
  using assms(2)
proof (induction rows rule: rev_induct)
  case (snoc i rows)
  then have IH: "same_rows p (foldl f p rows)" by simp
  have "identity i \<in> identity ` set (s_instances (p_store (foldl f p rows)))"
    using snoc.prems same_rows_identity [OF IH] by auto
  moreover have "distinct (map i_id (s_instances (p_store (foldl f p rows))))"
    using same_rows_ids [OF IH] assms(1) by simp
  ultimately show ?case using step same_rows_trans [OF IH] by simp
qed simp

definition ids_distinct :: "panel \<Rightarrow> bool" where
  "ids_distinct p \<longleftrightarrow> distinct (map i_id (s_instances (p_store p)))"

lemma ids_distinctD: "ids_distinct p \<Longrightarrow> distinct (map i_id (s_instances (p_store p)))"
  by (simp add: ids_distinct_def)

lemma ids_distinct_same: "same_rows p q \<Longrightarrow> ids_distinct q = ids_distinct p"
  by (simp add: ids_distinct_def same_rows_ids)

named_theorems keeps_rows \<open>handlers that keep every row's identity\<close>

lemma same_rows_on_state [keeps_rows]: "ids_distinct p \<Longrightarrow> same_rows p (on_state now nid s p)"
proof -
  assume d: "ids_distinct p"
  show ?thesis
  proof (cases "find_by_uuid p nid (st_uuid s)")
    case (Some i)
    then have "i \<in> set (s_instances (p_store p))" by (auto simp: find_by_uuid_def find_Some_iff)
    then have "same_rows (p\<lparr>p_uuids := (p_uuids p)(st_uuid s \<mapsto> i_id i)\<rparr>)
        (apply_state now i s (p\<lparr>p_uuids := (p_uuids p)(st_uuid s \<mapsto> i_id i)\<rparr>))"
      using d by (intro same_rows_apply) (auto simp: ids_distinct_def)
    with Some show ?thesis by (simp add: on_state_def)
  qed (simp add: on_state_def)
qed

lemma same_rows_id_for: "instance_id_for p nid u = (r, q) \<Longrightarrow> same_rows p q"
  by (auto simp: instance_id_for_def split: option.splits)

lemma same_rows_on_console [keeps_rows]: "same_rows p (on_console now n nid u stream ls p)"
  using same_rows_id_for
  by (auto simp: on_console_def push_console_def Let_def split: prod.splits option.splits)

lemma same_rows_on_stat: "same_rows p (on_stat now nid p s)"
proof -
  obtain r q where rq: "instance_id_for p nid (stats_uuid s) = (r, q)" by fastforce
  have "same_rows q (change_instances (map (\<lambda>r. if i_id r = iid then r\<lparr>i_last_stats := Some s\<rparr> else r)) q')"
    if "p_store q' = p_store q" "p_next_id q' = p_next_id q" for q' iid
    using that by (simp add: same_rows_def change_instances_def identity_def)
  with same_rows_id_for [OF rq] show ?thesis
    by (auto simp: on_stat_def rq Let_def split: option.splits intro: same_rows_trans)
qed

lemma same_rows_on_stats [keeps_rows]: "same_rows p (on_stats now nid ss p)"
  unfolding on_stats_def
  by (induction ss arbitrary: p) (auto intro: same_rows_trans same_rows_on_stat)

lemma same_rows_reconcile_row:
  "distinct (map i_id (s_instances (p_store p))) \<Longrightarrow> identity i \<in> identity ` set (s_instances (p_store p)) \<Longrightarrow>
    same_rows p (reconcile_row now by_uuid p i)"
  using same_rows_apply same_rows_save_row
  by (auto simp: reconcile_row_def split: option.splits)

lemma same_rows_reconcile [keeps_rows]: "ids_distinct p \<Longrightarrow> same_rows p (reconcile now nid states p)"
proof -
  assume d: "ids_distinct p"
  have "same_rows p (foldl (reconcile_row now (index_by st_uuid states)) p (rows_of_node p nid))"
    using ids_distinctD [OF d] same_rows_reconcile_row
    by (intro same_rows_fold) (auto simp: rows_of_node_def)
  then show ?thesis by (simp add: reconcile_def Let_def)
qed

lemma same_rows_mark_unknown [keeps_rows]: "ids_distinct p \<Longrightarrow> same_rows p (mark_unknown nid p)"
  unfolding mark_unknown_def using ids_distinctD
  by (intro same_rows_fold) (auto simp: rows_of_node_def intro: same_rows_save_row)

lemma found_mem: "get_instance p iid = Inr i \<Longrightarrow> identity i \<in> identity ` set (s_instances (p_store p))"
  using found_identity by blast

lemma same_rows_install_begin [keeps_rows]: "ids_distinct p \<Longrightarrow> same_rows p (fst (install_begin hmac iid actor resolved p))"
proof -
  assume d: "ids_distinct p"
  show ?thesis
  proof (cases "get_instance p iid")
    case (Inr i)
    have "same_rows q (set_status i st e q)" if "p_store q = p_store p" for q st e
      using found_mem [OF Inr] d that by (intro same_rows_set_status) (simp_all add: ids_distinct_def)
    from this [of p] this [of "p\<lparr>p_history := h\<rparr>" for h] Inr show ?thesis
      by (auto simp: install_begin_def Let_def split: sum.splits option.splits)
  qed (simp add: install_begin_def)
qed

lemma same_rows_install_end [keeps_rows]: "ids_distinct p \<Longrightarrow> same_rows p (fst (install_end now iid answer p))"
proof -
  assume d: "ids_distinct p"
  show ?thesis
  proof (cases "get_instance p iid")
    case (Inr i)
    have "same_rows p (set_status i' st e p)" if "identity i' = identity i" for i' st e
      using found_mem [OF Inr] d that by (intro same_rows_set_status) (simp_all add: ids_distinct_def)
    with Inr show ?thesis by (auto simp: install_end_def split: sum.splits)
  qed (simp add: install_end_def)
qed

lemma same_rows_power_failed: "ids_distinct p \<Longrightarrow> same_rows p (fst (power_failed iid e p))"
  using found_mem same_rows_save_row
  by (auto simp: power_failed_def ids_distinct_def split: sum.splits)

lemma same_rows_power_begin [keeps_rows]: "ids_distinct p \<Longrightarrow> same_rows p (fst (power_begin hmac iid action actor p))"
proof -
  assume d: "ids_distinct p"
  have "same_rows p (fst (power_failed iid e (tell es p)))" for e es
    using same_rows_power_failed [of "tell es p" iid e] d by (simp add: ids_distinct_def)
  then show ?thesis
    by (auto simp: power_begin_def Let_def split: sum.splits prod.splits power_action.splits)
      (metis fst_conv)+
qed

lemma same_rows_power_end [keeps_rows]: "ids_distinct p \<Longrightarrow> same_rows p (fst (power_end now iid answer p))"
  using same_rows_power_failed [of p iid] same_rows_apply found_mem
  by (auto simp: power_end_def ids_distinct_def split: sum.splits prod.splits) (metis fst_conv)

lemma same_rows_auto_start [keeps_rows]: "ids_distinct p \<Longrightarrow> same_rows p (auto_start hmac now answer rows p)"
proof (induction rows arbitrary: p)
  case (Cons row rows)
  obtain p1 r where b: "power_begin hmac (i_id row) Start 0 p = (p1, r)" by fastforce
  then have s1: "same_rows p p1" using same_rows_power_begin [OF Cons.prems] by (metis fst_conv)
  then have d1: "ids_distinct p1" using ids_distinct_same Cons.prems by blast
  have s2: "same_rows p (fst (power_end now (i_id row) (answer (i_id row)) p1))"
    using same_rows_trans [OF s1 same_rows_power_end [OF d1]] .
  have d2: "ids_distinct (fst (power_end now (i_id row) (answer (i_id row)) p1))"
    using ids_distinct_same [OF s2] Cons.prems by blast
  show ?case
    using Cons.IH [OF Cons.prems] same_rows_trans [OF s1 Cons.IH [OF d1]] same_rows_trans [OF s2 Cons.IH [OF d2]]
    by (auto simp: b split: option.splits sum.splits)
qed simp

section \<open>The invariant\<close>

definition ports_inv :: "store \<Rightarrow> bool" where
  "ports_inv st \<longleftrightarrow> distinct (map (\<lambda>q. (ip_node_id q, al_port q)) (s_ports st))
     \<and> distinct (map (\<lambda>q. (ip_instance_id q, al_name q)) (s_ports st))
     \<and> (\<forall>q\<in>set (s_ports st). \<exists>i\<in>set (s_instances st). i_id i = ip_instance_id q \<and> i_node_id i = ip_node_id q)"

definition grants_inv :: "store \<Rightarrow> bool" where
  "grants_inv st \<longleftrightarrow> distinct (map (\<lambda>g. (iu_instance_id g, iu_user_id g)) (s_instance_users st))
     \<and> (\<forall>g\<in>set (s_instance_users st). \<exists>i\<in>set (s_instances st). i_id i = iu_instance_id g)"

definition templates_accepted :: "store \<Rightarrow> bool" where
  "templates_accepted st \<longleftrightarrow> (\<forall>(t, d)\<in>set (s_templates st). template_ports_ok (td_ports d))"

definition panel_inv :: "panel \<Rightarrow> bool" where
  "panel_inv p \<longleftrightarrow> ids_distinct p \<and> (\<forall>i\<in>set (s_instances (p_store p)). i_id i < p_next_id p)
     \<and> distinct (map n_id (s_nodes (p_store p)))
     \<and> ports_inv (p_store p) \<and> grants_inv (p_store p) \<and> templates_accepted (p_store p)"

lemma same_rows_ex:
  assumes "same_rows p q" and "\<exists>i\<in>set (s_instances (p_store p)). i_id i = a \<and> i_node_id i = b"
  shows "\<exists>i\<in>set (s_instances (p_store q)). i_id i = a \<and> i_node_id i = b"
proof -
  from assms(2) obtain i where i: "i \<in> set (s_instances (p_store p))" "i_id i = a" "i_node_id i = b" by blast
  then have "identity i \<in> identity ` set (s_instances (p_store q))"
    using same_rows_identity [OF assms(1)] by simp
  then obtain j where "j \<in> set (s_instances (p_store q))" "identity i = identity j" by (rule imageE)
  with i show ?thesis by (auto simp: identity_def)
qed

lemma panel_inv_same_rows:
  assumes "same_rows p q" and inv: "panel_inv p"
  shows "panel_inv q"
proof -
  have same: "s_ports (p_store q) = s_ports (p_store p)" "s_templates (p_store q) = s_templates (p_store p)"
    "s_instance_users (p_store q) = s_instance_users (p_store p)" "p_next_id q = p_next_id p"
    "s_nodes (p_store q) = s_nodes (p_store p)"
    using assms(1) by (simp_all add: same_rows_def)
  have "ids_distinct q" using ids_distinct_same assms by (simp add: panel_inv_def)
  moreover have "i_id i < p_next_id q" if "i \<in> set (s_instances (p_store q))" for i
  proof -
    have "i_id i \<in> set (map i_id (s_instances (p_store p)))"
      using that same_rows_ids [OF assms(1)] by (metis in_set_conv_nth length_map nth_map)
    with inv same(4) show ?thesis by (auto simp: panel_inv_def)
  qed
  moreover have "ports_inv (p_store q)"
    using inv same_rows_ex [OF assms(1)] unfolding panel_inv_def ports_inv_def same by blast
  moreover have "grants_inv (p_store q)"
    unfolding grants_inv_def same
  proof (intro conjI ballI)
    fix g assume "g \<in> set (s_instance_users (p_store p))"
    with inv obtain i where "i \<in> set (s_instances (p_store p))" "i_id i = iu_instance_id g"
      by (auto simp: panel_inv_def grants_inv_def)
    with same_rows_ex [OF assms(1), of "iu_instance_id g" "i_node_id i"]
    show "\<exists>i\<in>set (s_instances (p_store q)). i_id i = iu_instance_id g" by blast
  qed (use inv in \<open>simp add: panel_inv_def grants_inv_def\<close>)
  moreover have "templates_accepted (p_store q)"
    using inv by (simp add: panel_inv_def templates_accepted_def same)
  ultimately show ?thesis using inv by (simp add: panel_inv_def same)
qed

section \<open>Handlers that add and remove rows\<close>

lemma find_template_accepted: "templates_accepted (p_store p) \<Longrightarrow> find_template p t = Some def \<Longrightarrow>
    template_ports_ok (td_ports def)"
  by (auto simp: templates_accepted_def find_template_def dest!: map_of_SomeD)

lemma port_rows_mem: "q \<in> set (port_rows iid nid as) \<Longrightarrow> ip_instance_id q = iid \<and> ip_node_id q = nid"
  by (auto simp: port_rows_def allocation.defs)

lemma used_ports_mem:
  "q \<in> set (s_ports st) \<Longrightarrow> ip_node_id q = nid \<Longrightarrow> Some (ip_instance_id q) \<noteq> except \<Longrightarrow>
    al_port q \<in> used_ports st nid except"
  by (auto simp: used_ports_def)

lemma new_row_simps [simp]:
  "i_id (new_row input def iid u actor variables chosen) = iid"
  "i_node_id (new_row input def iid u actor variables chosen) = ci_node_id input"
  by (simp_all add: new_row_def)

lemma find_node_id: "find_node st nid = Some n \<Longrightarrow> n_id n = nid"
  by (auto simp: find_node_def find_Some_iff)

lemma create_rows_Inr:
  assumes "create_rows re_test u input actor p = Inr (row, ports, grants)"
  obtains def as pool where "find_template p (ci_template_id input) = Some def"
    "allocate_ports (td_ports def) (ci_ports input) (used_ports (p_store p) (i_node_id row) None) pool = Inr as"
    "ports = port_rows (p_next_id p) (i_node_id row) as" "i_id row = p_next_id p"
    "length grants \<le> 1" "\<forall>g\<in>set grants. iu_instance_id g = p_next_id p"
proof -
  from assms obtain node where node: "find_node (p_store p) (ci_node_id input) = Some node"
    by (auto simp: create_rows_def split: option.splits)
  from assms node obtain def where def: "find_template p (ci_template_id input) = Some def"
    by (auto simp: create_rows_def split: option.splits)
  from assms [unfolded create_rows_def node option.case def Let_def then_do_Inr]
  obtain variables chosen as where
    as: "allocate_ports (td_ports def) (ci_ports input) (used_ports (p_store p) (n_id node) None) (node_pool node) = Inr as"
    and rest: "(case ci_owner_user_id input of
              None \<Rightarrow> Inr (new_row input def (p_next_id p) u actor variables chosen,
                port_rows (p_next_id p) (n_id node) as, [])
            | Some uid' \<Rightarrow>
                if find_user (p_store p) uid' = None then Inl (bad_request ''Unknown owner'')
                else Inr (new_row input def (p_next_id p) u actor variables chosen,
                  port_rows (p_next_id p) (n_id node) as,
                  [\<lparr>iu_instance_id = p_next_id p, iu_user_id = uid', iu_role = Owner, iu_granted_by = Some actor\<rparr>]))
        = Inr (row, ports, grants)"
    by blast
  from rest have r: "row = new_row input def (p_next_id p) u actor variables chosen"
      "ports = port_rows (p_next_id p) (n_id node) as"
      "grants = [] \<or> (\<exists>uid'. grants = [\<lparr>iu_instance_id = p_next_id p, iu_user_id = uid', iu_role = Owner,
         iu_granted_by = Some actor\<rparr>])"
    by (auto split: option.splits if_splits)
  then have "i_node_id row = n_id node" using find_node_id [OF node] by simp
  with r as def show ?thesis by (intro that [of def "node_pool node" as]) auto
qed

lemma alloc_no_rows: "\<forall>q\<in>set rows. ip_instance_id q \<noteq> iid \<Longrightarrow> filter (\<lambda>q. ip_instance_id q \<noteq> iid) rows = rows"
  by (rule filter_True) simp

lemma ports_inv_replace:
  assumes inv: "ports_inv st" and ok: "template_ports_ok tps"
    and as: "allocate_ports tps choices (used_ports st nid except) pool = Inr as"
    and except: "except = None \<and> (\<forall>q\<in>set (s_ports st). ip_instance_id q \<noteq> iid) \<or> except = Some iid"
    and rows: "\<forall>i\<in>set (s_instances st). i_id i \<noteq> iid \<longrightarrow>
      (\<exists>j\<in>set (s_instances st'). i_id j = i_id i \<and> i_node_id j = i_node_id i)"
    and row: "\<exists>i\<in>set (s_instances st'). i_id i = iid \<and> i_node_id i = nid"
    and table: "s_ports st' = filter (\<lambda>q. ip_instance_id q \<noteq> iid) (s_ports st) @ port_rows iid nid as"
  shows "ports_inv st'"
proof -
  have used: "al_port q \<in> used_ports st nid except"
    if "q \<in> set (s_ports st)" "ip_node_id q = nid" "ip_instance_id q \<noteq> iid" for q
    using that except by (intro used_ports_mem) auto
  have "distinct (map (\<lambda>q. (ip_node_id q, al_port q))
      (filter (\<lambda>q. ip_instance_id q \<noteq> iid) (s_ports st) @ port_rows iid nid as))"
    using inv used by (intro alloc.replace_unique [OF ok as]) (auto simp: ports_inv_def)
  moreover have "distinct (map (\<lambda>q. (ip_instance_id q, al_name q))
      (filter (\<lambda>q. ip_instance_id q \<noteq> iid) (s_ports st) @ port_rows iid nid as))"
    using inv by (intro alloc.replace_names [OF ok as]) (auto simp: ports_inv_def)
  moreover have "\<exists>i\<in>set (s_instances st'). i_id i = ip_instance_id q \<and> i_node_id i = ip_node_id q"
    if "q \<in> set (filter (\<lambda>q. ip_instance_id q \<noteq> iid) (s_ports st) @ port_rows iid nid as)" for q
  proof (cases "q \<in> set (port_rows iid nid as)")
    case True
    with row port_rows_mem show ?thesis by metis
  next
    case False
    with that have q: "q \<in> set (s_ports st)" "ip_instance_id q \<noteq> iid" by auto
    then obtain i where "i \<in> set (s_instances st)" "i_id i = ip_instance_id q" "i_node_id i = ip_node_id q"
      using inv by (auto simp: ports_inv_def)
    with rows q(2) show ?thesis by metis
  qed
  ultimately show ?thesis by (simp add: ports_inv_def table)
qed

lemma create_inv:
  assumes inv: "panel_inv p" and "create_instance re_test u input actor p = Inr (iid, q)"
  shows "panel_inv q"
proof -
  from assms(2) obtain row ports grants where
    c: "create_rows re_test u input actor p = Inr (row, ports, grants)"
    and q: "p_store q = (p_store p)\<lparr>s_instances := s_instances (p_store p) @ [row],
        s_ports := s_ports (p_store p) @ ports, s_instance_users := s_instance_users (p_store p) @ grants\<rparr>"
      "p_next_id q = Suc (p_next_id p)"
    by (auto simp: create_instance_def result_simps Let_def)
  from create_rows_Inr [OF c] obtain def as pool where
    def: "find_template p (ci_template_id input) = Some def"
    and as: "allocate_ports (td_ports def) (ci_ports input) (used_ports (p_store p) (i_node_id row) None) pool = Inr as"
    and ports: "ports = port_rows (p_next_id p) (i_node_id row) as" and iid: "i_id row = p_next_id p"
    and grants: "length grants \<le> 1" "\<forall>g\<in>set grants. iu_instance_id g = p_next_id p" .
  have new: "\<forall>i\<in>set (s_instances (p_store p)). i_id i < p_next_id p" using inv by (simp add: panel_inv_def)
  have none: "\<forall>r\<in>set (s_ports (p_store p)). ip_instance_id r \<noteq> p_next_id p"
    using inv new by (fastforce simp: panel_inv_def ports_inv_def)
  have none': "\<forall>g\<in>set (s_instance_users (p_store p)). iu_instance_id g \<noteq> p_next_id p"
    using inv new by (fastforce simp: panel_inv_def grants_inv_def)
  have ok: "template_ports_ok (td_ports def)" using find_template_accepted [OF _ def] inv by (simp add: panel_inv_def)
  have "ports_inv (p_store q)"
  proof (rule ports_inv_replace [OF _ ok as, where iid = "p_next_id p"])
    show "ports_inv (p_store p)" using inv by (simp add: panel_inv_def)
    show "s_ports (p_store q) = filter (\<lambda>q. ip_instance_id q \<noteq> p_next_id p) (s_ports (p_store p))
        @ port_rows (p_next_id p) (i_node_id row) as"
      by (simp add: alloc_no_rows [OF none] q(1) ports)
  qed (use none iid in \<open>auto simp: q(1)\<close>)
  moreover have "grants_inv (p_store q)"
    using inv none' grants iid
    by (cases grants) (auto simp: panel_inv_def grants_inv_def q(1) distinct_map inj_on_def)
  moreover have "ids_distinct q" using inv new iid by (auto simp: panel_inv_def ids_distinct_def q(1))
  moreover have "\<forall>i\<in>set (s_instances (p_store q)). i_id i < p_next_id q" using new iid by (auto simp: q less_Suc_eq)
  ultimately show ?thesis using inv by (simp add: panel_inv_def q(1) templates_accepted_def)
qed

text \<open>What a successful update did, without the details of the row.\<close>

lemma update_Inr:
  assumes "update_instance re_test iid input who p = Inr q"
  obtains i row def ports where
    "get_instance p iid = Inr i" "find_template p (i_template_id i) = Some def" "identity row = identity i"
    "p_store q = (p_store p)\<lparr>s_ports := ports, s_instances :=
       map (\<lambda>r. if i_id r = i_id row then row else r) (s_instances (p_store p))\<rparr>"
    "p_next_id q = p_next_id p"
    "ports = s_ports (p_store p) \<or> (\<exists>choices pool as.
       allocate_ports (td_ports def) choices (used_ports (p_store p) (i_node_id i) (Some iid)) pool = Inr as
       \<and> ports = filter (\<lambda>q. ip_instance_id q \<noteq> iid) (s_ports (p_store p)) @ port_rows iid (i_node_id i) as)"
proof -
  from assms obtain i where i: "get_instance p iid = Inr i"
    by (auto simp: update_instance_def result_simps)
  from assms i obtain def node where rows: "find_template p (i_template_id i) = Some def"
      "find_node (p_store p) (i_node_id i) = Some node"
    by (auto simp: update_instance_def split: option.splits)
  have nid: "n_id node = i_node_id i" using find_node_id [OF rows(2)] .
  note full = assms [unfolded update_instance_def i then_do_simps rows option.case prod.case Let_def then_do_Inr]
  from full obtain mounts chosen variables startup ports where
    ports: "(case ui_ports input of None \<Rightarrow> Inr (s_ports (p_store p))
        | Some choices \<Rightarrow> then_do (allocate_ports (td_ports def)
             (keep_choices (td_ports def) choices (ports_of (p_store p) iid))
             (used_ports (p_store p) (n_id node) (Some iid)) (node_pool node)) (\<lambda>as.
           Inr (filter (\<lambda>q. ip_instance_id q \<noteq> iid) (s_ports (p_store p)) @ port_rows iid (n_id node) as))) = Inr ports"
    and q: "Inr (tell (Broadcast_Updated iid # (if ui_ports input \<noteq> None then [Ports_Changed iid] else []))
        (save_instance (i\<lparr>i_mounts := mounts, i_name := or_keep (ui_name input) (i_name i),
               i_description := or_keep (ui_description input) (i_description i), i_image := chosen,
               i_variables := variables, i_limits := or_keep (ui_limits input) (i_limits i),
               i_restart_on_crash := or_keep (ui_restart_on_crash input) (i_restart_on_crash i),
               i_auto_start := or_keep (ui_auto_start input) (i_auto_start i),
               i_startup_override := startup\<rparr>) (p\<lparr>p_store := (p_store p)\<lparr>s_ports := ports\<rparr>\<rparr>))) = Inr q"
    by blast
  define row where "row = i\<lparr>i_mounts := mounts, i_name := or_keep (ui_name input) (i_name i),
               i_description := or_keep (ui_description input) (i_description i), i_image := chosen,
               i_variables := variables, i_limits := or_keep (ui_limits input) (i_limits i),
               i_restart_on_crash := or_keep (ui_restart_on_crash input) (i_restart_on_crash i),
               i_auto_start := or_keep (ui_auto_start input) (i_auto_start i),
               i_startup_override := startup\<rparr>"
  have id: "identity row = identity i" by (simp add: row_def identity_def)
  have q': "q = tell (Broadcast_Updated iid # (if ui_ports input \<noteq> None then [Ports_Changed iid] else []))
      (save_instance row (p\<lparr>p_store := (p_store p)\<lparr>s_ports := ports\<rparr>\<rparr>))"
    using q unfolding row_def by simp
  show ?thesis
  proof (rule that [of i def row ports, OF i rows(1) id])
    show "ports = s_ports (p_store p) \<or> (\<exists>choices pool as.
       allocate_ports (td_ports def) choices (used_ports (p_store p) (i_node_id i) (Some iid)) pool = Inr as
       \<and> ports = filter (\<lambda>q. ip_instance_id q \<noteq> iid) (s_ports (p_store p)) @ port_rows iid (i_node_id i) as)"
      using ports by (cases "ui_ports input") (auto simp: result_simps nid)
  qed (simp_all add: q' save_instance_def change_instances_def tell_def)
qed

lemma update_inv:
  assumes inv: "panel_inv p" and "update_instance re_test iid input who p = Inr q"
  shows "panel_inv q"
proof -
  from update_Inr [OF assms(2)] obtain i row def ports where
    i: "get_instance p iid = Inr i" and def: "find_template p (i_template_id i) = Some def"
    and row: "identity row = identity i"
    and q: "p_store q = (p_store p)\<lparr>s_ports := ports, s_instances :=
       map (\<lambda>r. if i_id r = i_id row then row else r) (s_instances (p_store p))\<rparr>" "p_next_id q = p_next_id p"
    and ports: "ports = s_ports (p_store p) \<or> (\<exists>choices pool as.
       allocate_ports (td_ports def) choices (used_ports (p_store p) (i_node_id i) (Some iid)) pool = Inr as
       \<and> ports = filter (\<lambda>q. ip_instance_id q \<noteq> iid) (s_ports (p_store p)) @ port_rows iid (i_node_id i) as)" .
  define q0 where "q0 = q\<lparr>p_store := (p_store q)\<lparr>s_ports := s_ports (p_store p)\<rparr>\<rparr>"
  have "same_rows p (save_instance row p)"
    using inv found_mem [OF i] row by (intro same_rows_save_row) (auto simp: panel_inv_def ids_distinct_def)
  then have "same_rows p q0"
    by (simp add: q0_def q same_rows_def save_instance_def change_instances_def)
  then have inv0: "panel_inv q0" using panel_inv_same_rows inv by blast
  have "ports_inv (p_store q)"
    using ports
  proof
    assume "ports = s_ports (p_store p)"
    then show ?thesis using inv0 by (simp add: panel_inv_def q0_def q)
  next
    assume "\<exists>choices pool as.
       allocate_ports (td_ports def) choices (used_ports (p_store p) (i_node_id i) (Some iid)) pool = Inr as
       \<and> ports = filter (\<lambda>q. ip_instance_id q \<noteq> iid) (s_ports (p_store p)) @ port_rows iid (i_node_id i) as"
    then obtain choices pool as where
      as: "allocate_ports (td_ports def) choices (used_ports (p_store p) (i_node_id i) (Some iid)) pool = Inr as"
      and p': "ports = filter (\<lambda>q. ip_instance_id q \<noteq> iid) (s_ports (p_store p)) @ port_rows iid (i_node_id i) as"
      by blast
    have ok: "template_ports_ok (td_ports def)"
      using find_template_accepted [OF _ def] inv by (simp add: panel_inv_def)
    have insts: "s_instances (p_store q0) = s_instances (p_store q)" by (simp add: q0_def)
    show ?thesis
    proof (rule ports_inv_replace [OF _ ok as])
      show "ports_inv (p_store p)" using inv by (simp add: panel_inv_def)
      show "\<forall>j\<in>set (s_instances (p_store p)). i_id j \<noteq> iid \<longrightarrow>
          (\<exists>k\<in>set (s_instances (p_store q)). i_id k = i_id j \<and> i_node_id k = i_node_id j)"
        using same_rows_ex [OF \<open>same_rows p q0\<close>] insts by metis
      show "\<exists>k\<in>set (s_instances (p_store q)). i_id k = iid \<and> i_node_id k = i_node_id i"
        using same_rows_ex [OF \<open>same_rows p q0\<close>] insts found_identity [OF i] by metis
    qed (simp_all add: q p')
  qed
  moreover have "grants_inv (p_store q)" using inv0 by (simp add: panel_inv_def grants_inv_def q0_def)
  ultimately show ?thesis
    using inv0 by (simp add: panel_inv_def q0_def ids_distinct_def templates_accepted_def)
qed

lemma remove_inv:
  assumes inv: "panel_inv p" and "remove_instance iid answer p = Inr q"
  shows "panel_inv q"
proof -
  from assms(2) have q: "p_store q = destroy_instance iid (p_store p)" "p_next_id q = p_next_id p"
    by (auto simp: remove_instance_def result_simps forget_uuid_def Let_def split: option.splits sum.splits if_splits)
  have kept: "\<exists>i\<in>set (s_instances (p_store q)). i_id i = x \<and> P i"
    if "\<exists>i\<in>set (s_instances (p_store p)). i_id i = x \<and> P i" "x \<noteq> iid" for x P
    using that by (auto simp: q destroy_instance_def)
  have "ports_inv (p_store q)"
    unfolding ports_inv_def
  proof (intro conjI ballI)
    fix r assume "r \<in> set (s_ports (p_store q))"
    then have r: "r \<in> set (s_ports (p_store p))" "ip_instance_id r \<noteq> iid" by (auto simp: q destroy_instance_def)
    with inv have "\<exists>i\<in>set (s_instances (p_store p)). i_id i = ip_instance_id r \<and> i_node_id i = ip_node_id r"
      by (simp add: panel_inv_def ports_inv_def)
    from kept [OF this r(2)]
    show "\<exists>i\<in>set (s_instances (p_store q)). i_id i = ip_instance_id r \<and> i_node_id i = ip_node_id r" .
  qed (use inv in \<open>simp_all add: panel_inv_def ports_inv_def q destroy_instance_def distinct_map_filter\<close>)
  moreover have "grants_inv (p_store q)"
    unfolding grants_inv_def
  proof (intro conjI ballI)
    fix g assume "g \<in> set (s_instance_users (p_store q))"
    then have g: "g \<in> set (s_instance_users (p_store p))" "iu_instance_id g \<noteq> iid"
      by (auto simp: q destroy_instance_def)
    with inv have "\<exists>i\<in>set (s_instances (p_store p)). i_id i = iu_instance_id g \<and> True"
      by (simp add: panel_inv_def grants_inv_def)
    from kept [OF this g(2)] show "\<exists>i\<in>set (s_instances (p_store q)). i_id i = iu_instance_id g" by simp
  qed (use inv in \<open>simp add: panel_inv_def grants_inv_def q destroy_instance_def distinct_map_filter\<close>)
  ultimately show ?thesis
    using inv by (auto simp: panel_inv_def q destroy_instance_def ids_distinct_def templates_accepted_def
        distinct_map_filter)
qed

lemma grants_only:
  assumes "panel_inv p" and "p_store q = (p_store p)\<lparr>s_instance_users := gs\<rparr>" "p_next_id q = p_next_id p"
    and "distinct (map (\<lambda>g. (iu_instance_id g, iu_user_id g)) gs)"
    and "\<forall>g\<in>set gs. \<exists>i\<in>set (s_instances (p_store p)). i_id i = iu_instance_id g"
  shows "panel_inv q"
  using assms by (simp add: panel_inv_def ids_distinct_def ports_inv_def grants_inv_def templates_accepted_def)

lemma grant_inv:
  assumes inv: "panel_inv p" and "grant_access iid uid' r actor p = Inr q"
  shows "panel_inv q"
proof -
  from assms(2) obtain i where i: "get_instance p iid = Inr i" by (auto simp: grant_access_def result_simps)
  have ex: "\<exists>i\<in>set (s_instances (p_store p)). i_id i = iid" using found_identity [OF i] by blast
  have old: "distinct (map (\<lambda>g. (iu_instance_id g, iu_user_id g)) (s_instance_users (p_store p)))"
    "\<forall>g\<in>set (s_instance_users (p_store p)). \<exists>i\<in>set (s_instances (p_store p)). i_id i = iu_instance_id g"
    using inv by (auto simp: panel_inv_def grants_inv_def)
  show ?thesis
  proof (cases "find_grant (p_store p) iid uid'")
    case None
    then have "(iid, uid') \<notin> (\<lambda>g. (iu_instance_id g, iu_user_id g)) ` set (s_instance_users (p_store p))"
      by (auto simp: find_grant_def find_None_iff)
    with None assms(2) i show ?thesis
      by (intro grants_only [OF inv, where gs = "s_instance_users (p_store p) @
          [\<lparr>iu_instance_id = iid, iu_user_id = uid', iu_role = r, iu_granted_by = Some actor\<rparr>]"])
        (use old ex in \<open>auto simp: grant_access_def result_simps Let_def\<close>)
  next
    case (Some g)
    have keys: "map (\<lambda>g. (iu_instance_id g, iu_user_id g)) (map (\<lambda>g. if P g then g\<lparr>iu_role := r\<rparr> else g) gs)
        = map (\<lambda>g. (iu_instance_id g, iu_user_id g)) gs" for P gs by simp
    from Some assms(2) i show ?thesis
      by (intro grants_only [OF inv, where gs = "map (\<lambda>g. if iu_instance_id g = iid \<and> iu_user_id g = uid'
          then g\<lparr>iu_role := r\<rparr> else g) (s_instance_users (p_store p))"])
        (use old ex in \<open>auto simp: grant_access_def result_simps Let_def keys simp del: map_map\<close>)
  qed
qed

lemma revoke_inv:
  assumes inv: "panel_inv p" and "revoke_access iid uid' p = Inr q"
  shows "panel_inv q"
  using inv assms(2)
  by (intro grants_only [OF inv, where gs = "filter (\<lambda>g. \<not> (iu_instance_id g = iid \<and> iu_user_id g = uid'))
      (s_instance_users (p_store p))"])
    (auto simp: revoke_access_def result_simps Let_def panel_inv_def grants_inv_def distinct_map_filter)

section \<open>Every handler\<close>

inductive panel_step :: "(string \<Rightarrow> string \<Rightarrow> bool option) \<Rightarrow> (string \<Rightarrow> string) \<Rightarrow> panel \<Rightarrow> panel \<Rightarrow> bool"
  for re_test hmac where
  step_create: "create_instance re_test u input actor p = Inr (iid, q) \<Longrightarrow> panel_step re_test hmac p q"
| step_update: "update_instance re_test iid changes who p = Inr q \<Longrightarrow> panel_step re_test hmac p q"
| step_remove: "remove_instance iid answer p = Inr q \<Longrightarrow> panel_step re_test hmac p q"
| step_install_begin: "panel_step re_test hmac p (fst (install_begin hmac iid by_user resolved p))"
| step_install_end: "panel_step re_test hmac p (fst (install_end now iid exit_code p))"
| step_power_begin: "panel_step re_test hmac p (fst (power_begin hmac iid action actor p))"
| step_power_end: "panel_step re_test hmac p (fst (power_end now iid state p))"
| step_command: "panel_step re_test hmac p (fst (command_end iid actor answer p))"
| step_state: "panel_step re_test hmac p (on_state now nid s p)"
| step_console: "panel_step re_test hmac p (on_console now n nid u stream ls p)"
| step_stats: "panel_step re_test hmac p (on_stats now nid ss p)"
| step_hello: "panel_step re_test hmac p (reconcile now nid states p)"
| step_auto_start: "panel_step re_test hmac p (auto_start hmac now starts (rows_of_node p nid) p)"
| step_offline: "panel_step re_test hmac p (mark_unknown nid p)"
| step_connections: "panel_step re_test hmac p (p\<lparr>p_connected := ns\<rparr>)"
| step_grant: "grant_access iid uid' r actor p = Inr q \<Longrightarrow> panel_step re_test hmac p q"
| step_revoke: "revoke_access iid uid' p = Inr q \<Longrightarrow> panel_step re_test hmac p q"

inductive panel_reaches :: "(string \<Rightarrow> string \<Rightarrow> bool option) \<Rightarrow> (string \<Rightarrow> string) \<Rightarrow> panel \<Rightarrow> panel \<Rightarrow> bool"
  for re_test hmac p where
  reaches_refl: "panel_reaches re_test hmac p p"
| reaches_step: "panel_reaches re_test hmac p q \<Longrightarrow> panel_step re_test hmac q r \<Longrightarrow> panel_reaches re_test hmac p r"

lemma same_rows_command_end [keeps_rows]: "same_rows p (fst (command_end iid actor answer p))"
  by (auto simp: command_end_def split: sum.splits)

lemma panel_inv_keeps: "panel_inv p \<Longrightarrow> (ids_distinct p \<Longrightarrow> same_rows p q) \<Longrightarrow> panel_inv q"
  using panel_inv_same_rows by (simp add: panel_inv_def)

lemma panel_step_inv: "panel_step re_test hmac p q \<Longrightarrow> panel_inv p \<Longrightarrow> panel_inv q"
proof (induction rule: panel_step.induct)
  case (step_create u input actor p iid q)
  then show ?case using create_inv by blast
next
  case (step_update iid changes who p q)
  then show ?case using update_inv by blast
next
  case (step_remove iid answer p q)
  then show ?case using remove_inv by blast
next
  case (step_grant iid uid' r actor p q)
  then show ?case using grant_inv by blast
next
  case (step_revoke iid uid' p q)
  then show ?case using revoke_inv by blast
qed (rule panel_inv_keeps, assumption, simp add: keeps_rows)+


lemma sample_panel_inv: "panel_inv sample_panel"
  by (simp add: panel_inv_def ids_distinct_def ports_inv_def grants_inv_def templates_accepted_def
      sample_panel_def sample_store_defs sample_template_def template_ports_ok_def ports_ok_def plain_port_def
      port_name_re_def re_name_def char_class_defs Let_def)


section \<open>What is sent to agents\<close>

fun request_spec :: "agent_request \<Rightarrow> instance_spec option" where
  "request_spec (Req_Start spec) = Some spec"
| "request_spec (Req_Restart spec) = Some spec"
| "request_spec (Req_Install spec inst) = Some spec"
| "request_spec _ = None"

lemma assert_agent_can_Inr: "assert_agent_can node feature = Inr u \<longleftrightarrow> truthy feature = None
    \<or> \<not> is_outdated_version (n_agent_version node) (Some container_options_agent)"
  by (auto simp: assert_agent_can_def split: option.splits)

lemma new_agent_feature_truthy [simp]: "truthy (new_agent_feature spec) = new_agent_feature spec"
  by (simp add: new_agent_feature_def)

lemma spec_for_Inr:
  assumes "spec_for hmac p i = Inr spec"
  shows "\<exists>node. find_node (p_store p) (i_node_id i) = Some node
    \<and> (new_agent_feature spec = None
       \<or> \<not> is_outdated_version (n_agent_version node) (Some container_options_agent))"
  using assms
  by (auto simp: spec_for_def Let_def result_simps assert_agent_can_Inr split: option.splits)

text \<open>C38. A power request leaves the server only for a connected node and an instance whose status
  allows the action; start and restart only when it is installed, and then with a specification that
  an agent too old for it never gets.\<close>

theorem power_request_guarded:
  assumes "power_begin hmac iid action actor p = (q, Inr req)"
  shows "\<exists>i. get_instance p iid = Inr i \<and> is_connected p (i_node_id i)
    \<and> i_status i \<in> set (power_allowed action)
    \<and> (action \<in> {Start, Restart} \<longrightarrow> i_installed_at i \<noteq> None)
    \<and> (request_spec req \<noteq> None \<longleftrightarrow> action \<in> {Start, Restart})
    \<and> (\<forall>spec. request_spec req = Some spec \<longrightarrow> (\<exists>node. find_node (p_store p) (i_node_id i) = Some node
         \<and> (new_agent_feature spec = None
            \<or> \<not> is_outdated_version (n_agent_version node) (Some container_options_agent))))
    \<and> p_store q = p_store p"
proof -
  from assms obtain i where i: "get_instance p iid = Inr i" by (auto simp: power_begin_def split: sum.splits)
  have spec: "spec_for hmac (tell es p) i = Inr spec \<Longrightarrow> \<exists>node. find_node (p_store p) (i_node_id i) = Some node
         \<and> (new_agent_feature spec = None
            \<or> \<not> is_outdated_version (n_agent_version node) (Some container_options_agent))" for es spec
    using spec_for_Inr [of hmac "tell es p" i spec] by simp
  show ?thesis
    using assms spec i
    by (cases action) (auto simp: power_begin_def assert_online_def Let_def result_simps guard_def
        split: sum.splits if_splits prod.splits)
qed

theorem power_request_guarded_witness:
  "\<exists>q req. power_begin (\<lambda>m. m) 1 Start 5 sample_panel = (q, Inr req) \<and> request_spec req \<noteq> None"
proof -
  have "\<exists>q req. power_begin (\<lambda>m. m) 1 Start 5 sample_panel = (q, Inr req)"
    by (simp add: power_begin_def get_instance_def find_instance_def sample_panel_def sample_store_defs
        assert_online_def is_connected_def guard_def spec_for_def find_template_def find_node_def Let_def
        assert_agent_can_def new_agent_feature_def build_spec_def sample_template_def database_spec_of_def)
  then obtain q req where "power_begin (\<lambda>m. m) 1 Start 5 sample_panel = (q, Inr req)" by blast
  with power_request_guarded [OF this] show ?thesis by auto
qed

section \<open>An install an old agent cannot run\<close>

lemma facts_status [simp]:
  "database_facts hmac (i\<lparr>i_status := s, i_error := e\<rparr>) def = database_facts hmac i def"
  "instance_facts hmac (i\<lparr>i_status := s, i_error := e\<rparr>) = instance_facts hmac i"
  "database_spec_of hmac (i\<lparr>i_status := s, i_error := e\<rparr>) d = database_spec_of hmac i d"
  by (simp_all add: database_facts_def instance_facts_def database_spec_of_def split: option.split)

lemma build_spec_status [simp]:
  "build_spec hmac (i\<lparr>i_status := s, i_error := e\<rparr>) def node ports registry = build_spec hmac i def node ports registry"
  by (simp add: build_spec_def build_env_def env_facts_def)

lemma find_after_save:
  assumes "distinct (map i_id (s_instances (p_store p)))" "get_instance p iid = Inr i" "i_id row = iid"
  shows "get_instance (save_instance row p) iid = Inr row"
proof -
  have i: "i \<in> set (s_instances (p_store p))" "i_id i = iid" using found_identity [OF assms(2)] by auto
  define rows where "rows = map (\<lambda>r. if i_id r = i_id row then row else r) (s_instances (p_store p))"
  have "map i_id rows = map i_id (s_instances (p_store p))" by (simp add: rows_def)
  then have "distinct (map i_id rows)" using assms(1) by simp
  moreover have "row \<in> set rows" using i assms(3) by (force simp: rows_def)
  ultimately have "find (\<lambda>r. i_id r = i_id row) rows = Some row" by (rule distinct_ids_find)
  then show ?thesis by (simp add: get_instance_def find_instance_def rows_def assms(3))
qed

lemma set_status_found:
  assumes "ids_distinct p" "get_instance p iid = Inr i"
  shows "get_instance (tell es (set_status i s e (p\<lparr>p_history := h\<rparr>))) iid = Inr (i\<lparr>i_status := s, i_error := e\<rparr>)"
proof -
  have "get_instance (save_instance (i\<lparr>i_status := s, i_error := e\<rparr>) (p\<lparr>p_history := h\<rparr>)) iid
      = Inr (i\<lparr>i_status := s, i_error := e\<rparr>)"
    using assms found_identity [OF assms(2)]
    by (intro find_after_save [of _ _ i]) (simp_all add: ids_distinct_def get_instance_def)
  then show ?thesis by (simp add: set_status_def get_instance_def)
qed

text \<open>An install that the server refuses because the node's agent is too old leaves the instance
  \<open>installing\<close> for good: the status is set before the check, nothing sets it back, and from there every
  power action and every further install is refused too.\<close>

theorem refused_install_stays_installing:
  assumes "ids_distinct p" and "get_instance p iid = Inr i" and "is_connected p (i_node_id i)"
    and "i_status i \<notin> set running_statuses" and "find_template p (i_template_id i) = Some def"
    and "find_node (p_store p) (i_node_id i) = Some node"
    and "new_agent_feature (build_spec hmac i def node (ports_of (p_store p) iid) (p_registry p)) \<noteq> None"
    and "is_outdated_version (n_agent_version node) (Some container_options_agent)"
  shows "\<exists>q e. install_begin hmac iid by_user (Inr urls) p = (q, Inl e) \<and> status e = 409
    \<and> get_instance q iid = Inr (i\<lparr>i_status := Installing, i_error := None\<rparr>)
    \<and> (\<forall>action actor. \<exists>e'. power_begin hmac iid action actor q = (q, Inl e'))
    \<and> (\<forall>user urls'. \<exists>e'. install_begin hmac iid user urls' q = (q, Inl e'))"
proof -
  define q where "q = tell [Audit by_user ''instance.install'' iid] (set_status i Installing None
      (p\<lparr>p_history := hist_clear (p_history p) (int iid) (Some Install_Stream)\<rparr>))"
  have iid: "i_id i = iid" using found_identity [OF assms(2)] by simp
  have q: "get_instance q iid = Inr (i\<lparr>i_status := Installing, i_error := None\<rparr>)"
    unfolding q_def using set_status_found [OF assms(1,2)] .
  have rest: "p_connected q = p_connected p" "p_registry q = p_registry p"
      "find_template q = find_template p" "find_node (p_store q) = find_node (p_store p)"
      "ports_of (p_store q) = ports_of (p_store p)"
    by (auto simp: q_def set_status_def save_instance_def change_instances_def find_template_def find_node_def
        ports_of_def fun_eq_iff)
  have "\<exists>e. spec_for hmac q (i\<lparr>i_status := Installing, i_error := None\<rparr>) = Inl e \<and> status e = 409"
    using assms(5-8) iid by (auto simp: spec_for_def rest Let_def assert_agent_can_def result_simps)
  then obtain e where e: "spec_for hmac q (i\<lparr>i_status := Installing, i_error := None\<rparr>) = Inl e" "status e = 409"
    by blast
  have "install_begin hmac iid by_user (Inr urls) p = (q, Inl e)"
    using assms(2-5) e by (simp add: install_begin_def assert_online_def Let_def q_def [symmetric] guard_def)
  moreover have "\<exists>e'. power_begin hmac iid action actor q = (q, Inl e')" for action actor
    using assms(3) by (cases action) (simp_all add: power_begin_def q assert_online_def is_connected_def rest guard_def)
  moreover have "\<exists>e'. install_begin hmac iid user urls' q = (q, Inl e')" for user urls'
    using assms(3) by (simp add: install_begin_def q assert_online_def is_connected_def rest guard_def running_statuses_def)
  ultimately show ?thesis using q e(2) by blast
qed

definition old_agent_panel :: panel where
  "old_agent_panel = sample_panel\<lparr>p_store := sample_store\<lparr>s_nodes := [sample_node\<lparr>n_agent_version := Some ''0.5.9''\<rparr>],
     s_templates := [(1, sample_template\<lparr>td_container :=
       \<lparr>tc_entrypoint = None, tc_user = None, tc_pull = Pull_Always, tc_seccomp_unconfined = False\<rparr>\<rparr>)]\<rparr>\<rparr>"

theorem refused_install_stays_installing_witness:
  "\<exists>q e. install_begin (\<lambda>m. m) 1 None (Inr []) old_agent_panel = (q, Inl e)
    \<and> get_instance q 1 = Inr (sample_instance\<lparr>i_status := Installing, i_error := None\<rparr>)
    \<and> (\<exists>e'. power_begin (\<lambda>m. m) 1 Kill 5 q = (q, Inl e'))"
proof -
  have rows: "ids_distinct old_agent_panel" "get_instance old_agent_panel 1 = Inr sample_instance"
    "is_connected old_agent_panel (i_node_id sample_instance)"
    "i_status sample_instance \<notin> set running_statuses"
    "find_node (p_store old_agent_panel) (i_node_id sample_instance)
      = Some (sample_node\<lparr>n_agent_version := Some ''0.5.9''\<rparr>)"
    by (simp_all add: ids_distinct_def get_instance_def find_instance_def old_agent_panel_def sample_panel_def
        sample_store_defs is_connected_def running_statuses_def find_node_def)
  have def: "find_template old_agent_panel (i_template_id sample_instance) = Some (sample_template\<lparr>td_container :=
       \<lparr>tc_entrypoint = None, tc_user = None, tc_pull = Pull_Always, tc_seccomp_unconfined = False\<rparr>\<rparr>)"
    by (simp add: find_template_def old_agent_panel_def sample_instance_def)
  have feature: "new_agent_feature (build_spec hmac sample_instance (sample_template\<lparr>td_container :=
       \<lparr>tc_entrypoint = None, tc_user = None, tc_pull = Pull_Always, tc_seccomp_unconfined = False\<rparr>\<rparr>)
      node ports registry) \<noteq> None" for hmac node registry and ports :: "instance_port list"
    by (simp add: new_agent_feature_def build_spec_def Let_def)
  have old: "is_outdated_version (n_agent_version (sample_node\<lparr>n_agent_version := Some ''0.5.9''\<rparr>))
      (Some container_options_agent)"
    by (simp add: container_options_agent_def version_eval)
  from refused_install_stays_installing [OF rows(1-4) def rows(5) feature old] show ?thesis by blast
qed

section \<open>Deleting\<close>

lemma delete_lookup: "map_of (AList.delete k xs) k' = (if k' = k then None else map_of xs k')"
  by (simp add: delete_conv')

lemma hist_tail_cleared: "hist_tail (hist_clear h i None) i s n = []"
  by (cases s) (simp_all add: hist_tail_def hist_clear_def delete_lookup)

text \<open>Deleting an instance leaves nothing of it on the panel: no row, port, grant, console line or
  cached uuid; whatever the agent answered, it happens only while the node is connected.\<close>

theorem remove_leaves_nothing:
  assumes "remove_instance iid answer p = Inr q" and "get_instance p iid = Inr i"
  shows "find_instance (p_store q) iid = None \<and> ports_of (p_store q) iid = []
    \<and> (\<forall>u. find_grant (p_store q) iid u = None) \<and> p_uuids q (i_uuid i) = None
    \<and> (\<forall>s n. hist_tail (p_history q) (int iid) s n = [])
    \<and> (\<exists>node. find_node (p_store p) (i_node_id i) = Some node \<and> is_connected p (n_id node))"
proof -
  from assms obtain node es where node: "find_node (p_store p) (i_node_id i) = Some node" "is_connected p (n_id node)"
    and q: "q = tell es (forget_uuid (i_uuid i) (p\<lparr>p_store := destroy_instance iid (p_store p),
      p_history := hist_clear (p_history p) (int iid) None\<rparr>))"
    by (auto simp: remove_instance_def result_simps Let_def split: option.splits)
  have "find_instance (destroy_instance iid st) iid = None" "ports_of (destroy_instance iid st) iid = []"
    "find_grant (destroy_instance iid st) iid u = None" for st u
    by (auto simp: find_instance_def ports_of_def find_grant_def destroy_instance_def find_None_iff filter_empty_conv)
  with node show ?thesis by (auto simp: q forget_uuid_def hist_tail_cleared)
qed

theorem remove_leaves_nothing_witness:
  "\<exists>q. remove_instance 1 (Inl (agent_error ''not_found'' [])) sample_panel = Inr q \<and> find_instance (p_store q) 1 = None"
proof -
  have i: "get_instance sample_panel 1 = Inr sample_instance"
    by (simp add: get_instance_def find_instance_def sample_panel_def sample_store_defs)
  have "\<exists>q. remove_instance 1 (Inl (agent_error ''not_found'' [])) sample_panel = Inr q"
    by (simp add: remove_instance_def get_instance_def find_instance_def find_node_def is_connected_def
        agent_error_def guard_def sample_panel_def sample_store_defs)
  then obtain q where "remove_instance 1 (Inl (agent_error ''not_found'' [])) sample_panel = Inr q" by blast
  with remove_leaves_nothing [OF this i] show ?thesis by blast
qed

section \<open>Sharing\<close>

lemma find_map_role: "find P (map f gs) = map_option f (find P gs)" if "\<And>g. P (f g) = P g"
  by (induction gs) (auto simp: that)

lemma find_append: "find P (xs @ ys) = (case find P xs of None \<Rightarrow> find P ys | Some x \<Rightarrow> Some x)"
  by (induction xs) auto

lemma grants_of_others:
  "find (\<lambda>g. iu_instance_id g = a \<and> iu_user_id g = w)
      (map (\<lambda>g. if iu_instance_id g = b \<and> iu_user_id g = v then g\<lparr>iu_role := r\<rparr> else g) gs)
    = find (\<lambda>g. iu_instance_id g = a \<and> iu_user_id g = w) gs"
  "find (\<lambda>g. iu_instance_id g = a \<and> iu_user_id g = w)
      (filter (\<lambda>g. \<not> (iu_instance_id g = b \<and> iu_user_id g = v)) gs)
    = find (\<lambda>g. iu_instance_id g = a \<and> iu_user_id g = w) gs" if "w \<noteq> v"
  using that by (induction gs) auto

lemmas grants_after_revoke = grants_of_others(2) [simplified]

lemma role_on_cong:
  "find_instance st = find_instance st' \<Longrightarrow> owns_node st = owns_node st' \<Longrightarrow>
    find_grant st iid (u_id u) = find_grant st' iid (u_id u) \<Longrightarrow> role_on st u iid = role_on st' u iid"
  by (simp add: role_on_def split: option.split)

text \<open>Sharing does what it says: after a grant the user has exactly the granted role on the instance,
  unless the user is an admin or owns the node and stays owner; revoking it again takes the role away;
  and neither changes what any other user may do anywhere.\<close>

theorem sharing_sets_role:
  assumes "grant_access iid uid' r actor p = Inr q" and "u_id u = uid'" and "u_id other \<noteq> uid'"
    and "find_instance (p_store p) iid = Some i"
  shows "role_on (p_store q) u iid = (if owns_node (p_store p) u (i_node_id i) then Some Owner else Some r)
    \<and> (\<exists>q'. revoke_access iid uid' q = Inr q'
         \<and> role_on (p_store q') u iid = (if owns_node (p_store p) u (i_node_id i) then Some Owner else None)
         \<and> role_on (p_store q) other any = role_on (p_store p) other any
         \<and> role_on (p_store q') other any = role_on (p_store p) other any)"
proof -
  define gs where "gs = (case find_grant (p_store p) iid uid' of
      None \<Rightarrow> s_instance_users (p_store p) @
        [\<lparr>iu_instance_id = iid, iu_user_id = uid', iu_role = r, iu_granted_by = Some actor\<rparr>]
    | Some _ \<Rightarrow> map (\<lambda>g. if iu_instance_id g = iid \<and> iu_user_id g = uid' then g\<lparr>iu_role := r\<rparr> else g)
        (s_instance_users (p_store p)))"
  have q: "p_store q = (p_store p)\<lparr>s_instance_users := gs\<rparr>"
    using assms(1) by (auto simp: grant_access_def result_simps Let_def gs_def split: option.splits)
  have same: "find_instance (st\<lparr>s_instance_users := x\<rparr>) = find_instance st"
    "owns_node (st\<lparr>s_instance_users := x\<rparr>) = owns_node st" for st x
    by (auto simp: find_instance_def owns_node_def fun_eq_iff)
  have granted: "map_option iu_role (find_grant (p_store q) iid uid') = Some r"
  proof (cases "find_grant (p_store p) iid uid'")
    case None
    then show ?thesis by (simp add: q gs_def find_grant_def find_append)
  next
    case (Some g)
    then have "iu_instance_id g = iid \<and> iu_user_id g = uid'" by (auto simp: find_grant_def find_Some_iff)
    with Some show ?thesis
      by (simp add: q gs_def) (simp add: find_grant_def find_map_role)
  qed
  define q' where "q' = tell [Access_Changed [uid'], Reconnect_User uid', Broadcast_Updated iid]
    (q\<lparr>p_store := (p_store q)\<lparr>s_instance_users :=
       filter (\<lambda>g. \<not> (iu_instance_id g = iid \<and> iu_user_id g = uid')) gs\<rparr>\<rparr>)"
  have revoke: "revoke_access iid uid' q = Inr q'"
    using granted by (auto simp: revoke_access_def q'_def q)
  have revoked: "find_grant (p_store q') iid uid' = None"
    by (simp add: q'_def find_grant_def find_None_iff)
  have "find_grant (p_store q) any (u_id other) = find_grant (p_store p) any (u_id other)"
    using assms(3) by (auto simp: q gs_def find_grant_def find_append grants_of_others split: option.splits)
  moreover from this have "find_grant (p_store q') any (u_id other) = find_grant (p_store p) any (u_id other)"
    using assms(3) by (simp add: q'_def q find_grant_def grants_after_revoke)
  ultimately have others: "role_on (p_store q) other any = role_on (p_store p) other any"
    "role_on (p_store q') other any = role_on (p_store p) other any"
    by (auto intro!: role_on_cong simp: q q'_def same)
  have "role_on (p_store q) u iid = (if owns_node (p_store p) u (i_node_id i) then Some Owner else Some r)"
    using assms(2,4) granted by (auto simp: role_on_def q same owns_node_def)
  moreover have "role_on (p_store q') u iid = (if owns_node (p_store p) u (i_node_id i) then Some Owner else None)"
    using assms(2,4) revoked by (auto simp: role_on_def q q'_def same owns_node_def)
  ultimately show ?thesis using revoke others by blast
qed

theorem sharing_sets_role_witness:
  "\<exists>q. grant_access 2 5 Operator 9 sample_panel = Inr q \<and> role_on (p_store q) sample_user 2 = Some Operator"
proof -
  have "\<exists>q. grant_access 2 5 Operator 9 sample_panel = Inr q"
    by (simp add: grant_access_def get_instance_def find_instance_def find_user_def sample_panel_def
        sample_store_defs guard_def Let_def)
  then obtain q where q: "grant_access 2 5 Operator 9 sample_panel = Inr q" by blast
  have "u_id sample_user = 5" "u_id (sample_user\<lparr>u_id := 6\<rparr>) \<noteq> 5"
    "find_instance (p_store sample_panel) 2 = Some (sample_instance\<lparr>i_id := 2, i_uuid := ''u2''\<rparr>)"
    by (simp_all add: find_instance_def sample_panel_def sample_store_defs)
  from sharing_sets_role [OF q this] q show ?thesis
    by (simp add: owns_node_def) (simp add: sample_panel_def sample_store_defs)
qed

section \<open>The uuid cache\<close>

text \<open>Console lines are not tied to the node they come from: once a uuid is in the cache, lines any
  node sends for it land in that instance's console, while the same message from the same node is
  dropped when the uuid is not cached.\<close>

theorem cached_console_ignores_node:
  "hist_tail (p_history (on_console 0 1000 99 ''u1'' Console_Stream [l] (sample_panel\<lparr>p_uuids := [''u1'' \<mapsto> 1]\<rparr>)))
     1 Console_Stream 10 = [l]
   \<and> hist_tail (p_history (on_console 0 1000 99 ''u1'' Console_Stream [l] sample_panel)) 1 Console_Stream 10 = []
   \<and> find_by_uuid sample_panel 99 ''u1'' = None"
  by (simp add: on_console_def instance_id_for_def push_console_def Let_def sample_panel_def tell_def
      hist_append_def hist_tail_def new_history_def new_ring_def rb_push_def rb_to_array_def find_by_uuid_def
      sample_store_defs history_key_def)

end
