(* ===== verification/Gateway.thy ===== *)
theory Gateway
  imports Instances
begin

text \<open>
  The agents' WebSocket gateway (server/src/ws/agent-gateway.ts): one connection per node, requests
  with their timers, answers, streams and events, and what replaces or ends a connection. Payloads
  are values of a type \<open>'j\<close> the model does not look into; the schemas are parameters. A promise's
  outcome is an entry of \<open>g_settled\<close>; \<open>g_issued\<close> records the ids requests were given.
\<close>

section \<open>State\<close>

datatype 'j outcome = Resolved 'j | Rejected http_error

datatype 'j envelope =
    Env_Event string 'j
  | Env_Result string 'j
  | Env_Error string string string
  | Env_Stream string nat 'j bool
  | Env_Request string string 'j
  | Env_Malformed

record pending_request =
  pd_method :: string
  pd_deadline :: int
  pd_on_stream :: bool
  pd_stream_done :: bool

record connection =
  c_ws :: nat
  c_hello :: bool
  c_remote :: "string option"
  c_connected_at :: int
  c_pending :: "(string \<times> pending_request) list"

datatype 'j gateway_effect =
    Sent nat string string
  | Answered nat string bool
  | Socket_Closed nat int string
  | Chunk string nat 'j
  | Dispatched nat string 'j
  | Agent_Hello nat
  | Configure_Agent nat
  | Node_Offline_Effect nat
  | Sftp_Auth nat string 'j

record 'j gateway =
  g_conns :: "nat \<rightharpoonup> connection"
  g_issued :: "string set"
  g_settled :: "(string \<times> 'j outcome) list"
  g_effects :: "'j gateway_effect list"

definition rpc_error :: "string \<Rightarrow> string \<Rightarrow> int \<Rightarrow> http_error" where
  "rpc_error c m st = HttpError st (''agent_'' @ c) m []"

definition do_effects :: "'j gateway_effect list \<Rightarrow> 'j gateway \<Rightarrow> 'j gateway" where
  "do_effects es g = g\<lparr>g_effects := g_effects g @ es\<rparr>"

definition settle :: "string \<Rightarrow> 'j outcome \<Rightarrow> 'j gateway \<Rightarrow> 'j gateway" where
  "settle rid oc g = g\<lparr>g_settled := g_settled g @ [(rid, oc)]\<rparr>"

definition put_conn :: "nat \<Rightarrow> connection \<Rightarrow> 'j gateway \<Rightarrow> 'j gateway" where
  "put_conn nid c g = g\<lparr>g_conns := (g_conns g)(nid \<mapsto> c)\<rparr>"

definition drop_conn :: "nat \<Rightarrow> 'j gateway \<Rightarrow> 'j gateway" where
  "drop_conn nid g = g\<lparr>g_conns := (g_conns g)(nid := None)\<rparr>"

section \<open>Requests\<close>

definition gw_connected :: "'j gateway \<Rightarrow> nat \<Rightarrow> bool" where
  "gw_connected g nid \<longleftrightarrow> (case g_conns g nid of Some c \<Rightarrow> c_hello c | None \<Rightarrow> False)"

definition connected_since :: "'j gateway \<Rightarrow> nat \<Rightarrow> int option" where
  "connected_since g nid = (case g_conns g nid of
     Some c \<Rightarrow> if c_hello c then Some (c_connected_at c) else None | None \<Rightarrow> None)"

definition remote_address :: "'j gateway \<Rightarrow> nat \<Rightarrow> string option" where
  "remote_address g nid = (case g_conns g nid of
     Some c \<Rightarrow> if c_hello c then c_remote c else None | None \<Rightarrow> None)"

text \<open>\<open>send_error\<close> is the exception of parsing the parameters or sending, if there is one.\<close>

definition request :: "int \<Rightarrow> string \<Rightarrow> nat \<Rightarrow> string \<Rightarrow> int \<Rightarrow> bool \<Rightarrow> http_error option \<Rightarrow>
    'j gateway \<Rightarrow> 'j gateway" where
  "request now rid nid method timeout_ms on_stream send_error g =
     (let g1 = g\<lparr>g_issued := insert rid (g_issued g)\<rparr> in
      case g_conns g1 nid of
        None \<Rightarrow> settle rid (Rejected (rpc_error ''unavailable'' ''The node is not connected'' 409)) g1
      | Some c \<Rightarrow>
          if \<not> c_hello c
          then settle rid (Rejected (rpc_error ''unavailable'' ''The node is not connected'' 409)) g1
          else let p = \<lparr>pd_method = method, pd_deadline = now + timeout_ms, pd_on_stream = on_stream,
                        pd_stream_done = False\<rparr>;
                   pending = AList.update rid p (c_pending c) in
            (case send_error of
               None \<Rightarrow> do_effects [Sent (c_ws c) rid method] (put_conn nid (c\<lparr>c_pending := pending\<rparr>) g1)
             | Some e \<Rightarrow> settle rid (Rejected e)
                 (put_conn nid (c\<lparr>c_pending := AList.delete rid pending\<rparr>) g1)))"

text \<open>A request's timer; \<open>clearTimeout\<close> is that the request is no longer pending.\<close>

definition timer_fires :: "nat \<Rightarrow> string \<Rightarrow> int \<Rightarrow> 'j gateway \<Rightarrow> 'j gateway" where
  "timer_fires nid rid timeout_ms g = (case g_conns g nid of
     None \<Rightarrow> g
   | Some c \<Rightarrow> (case map_of (c_pending c) rid of
       None \<Rightarrow> g
     | Some p \<Rightarrow> settle rid (Rejected (rpc_error ''timeout''
           (pd_method p @ '' timed out after '' @ string_of_int timeout_ms @ ''ms'') 504))
         (put_conn nid (c\<lparr>c_pending := AList.delete rid (c_pending c)\<rparr>) g)))"

definition fail_all :: "string \<Rightarrow> connection \<Rightarrow> 'j gateway \<Rightarrow> 'j gateway" where
  "fail_all reason c g = g\<lparr>g_settled := g_settled g
     @ map (\<lambda>(rid, _). (rid, Rejected (rpc_error ''unavailable'' reason 502))) (c_pending c)\<rparr>"

section \<open>The life of a connection\<close>

definition disconnect :: "nat \<Rightarrow> string \<Rightarrow> 'j gateway \<Rightarrow> 'j gateway" where
  "disconnect nid reason g = (case g_conns g nid of
     None \<Rightarrow> g
   | Some c \<Rightarrow> do_effects [Socket_Closed (c_ws c) 1000 reason] (drop_conn nid (fail_all reason c g)))"

definition on_open :: "int \<Rightarrow> nat \<Rightarrow> nat \<Rightarrow> string option \<Rightarrow> 'j gateway \<Rightarrow> 'j gateway" where
  "on_open now nid ws addr g =
     (let new = \<lparr>c_ws = ws, c_hello = False, c_remote = addr, c_connected_at = now, c_pending = []\<rparr> in
      put_conn nid new (case g_conns g nid of
        None \<Rightarrow> g
      | Some c \<Rightarrow> do_effects [Socket_Closed (c_ws c) 4000 ''replaced'']
          (fail_all ''replaced by a new connection'' c g)))"

definition on_close :: "nat \<Rightarrow> nat \<Rightarrow> 'j gateway \<Rightarrow> 'j gateway" where
  "on_close nid ws g = (case g_conns g nid of
     None \<Rightarrow> g
   | Some c \<Rightarrow> if c_ws c \<noteq> ws then g
       else do_effects [Node_Offline_Effect nid] (drop_conn nid (fail_all ''connection closed'' c g)))"

text \<open>
  Events. \<open>parse e d\<close> is the event's schema; \<open>hello_result\<close> is what \<open>nodes.onAgentHello\<close> gives, the
  reason when it refuses. A hello is the only event that counts before the hello was accepted, but
  for the log line.
\<close>

definition known_events :: "string list" where
  "known_events = [''metrics'', ''inst.status'', ''inst.console'', ''inst.stats'', ''sftp.session'']"

definition handle_event :: "(string \<Rightarrow> 'j \<Rightarrow> 'j option) \<Rightarrow> ('j \<Rightarrow> string option) \<Rightarrow> nat \<Rightarrow> connection \<Rightarrow>
    string \<Rightarrow> 'j \<Rightarrow> 'j gateway \<Rightarrow> 'j gateway" where
  "handle_event parse hello_result nid c event data g =
     (if event = ''hello''
      then (case parse event data of
        None \<Rightarrow> g
      | Some d \<Rightarrow> (case hello_result d of
          Some reason \<Rightarrow> do_effects [Socket_Closed (c_ws c) 1008 reason] g
        | None \<Rightarrow> do_effects [Configure_Agent nid, Agent_Hello nid] (put_conn nid (c\<lparr>c_hello := True\<rparr>) g)))
      else if event \<in> set known_events
      then (case parse event data of
        None \<Rightarrow> g
      | Some d \<Rightarrow> if c_hello c then do_effects [Dispatched nid event d] g else g)
      else g)"

definition handle_result :: "(string \<Rightarrow> 'j \<Rightarrow> 'j option) \<Rightarrow> nat \<Rightarrow> connection \<Rightarrow> string \<Rightarrow>
    (string \<times> string) + 'j \<Rightarrow> 'j gateway \<Rightarrow> 'j gateway" where
  "handle_result parse nid c rid answer g = (case map_of (c_pending c) rid of
     None \<Rightarrow> g
   | Some p \<Rightarrow> settle rid (case answer of
         Inr r \<Rightarrow> (case parse (pd_method p) r of
           Some v \<Rightarrow> Resolved v
         | None \<Rightarrow> Rejected (rpc_error ''bad_result'' (''Malformed result for '' @ pd_method p) 502))
       | Inl (c', m) \<Rightarrow> Rejected (agent_error c' m))
       (put_conn nid (c\<lparr>c_pending := AList.delete rid (c_pending c)\<rparr>) g))"

definition handle_stream :: "nat \<Rightarrow> connection \<Rightarrow> string \<Rightarrow> nat \<Rightarrow> 'j \<Rightarrow> bool \<Rightarrow> 'j gateway \<Rightarrow> 'j gateway" where
  "handle_stream nid c rid n chunk fin g = (case map_of (c_pending c) rid of
     None \<Rightarrow> g
   | Some p \<Rightarrow>
       if fin then put_conn nid (c\<lparr>c_pending := AList.update rid (p\<lparr>pd_stream_done := True\<rparr>) (c_pending c)\<rparr>) g
       else if pd_on_stream p then do_effects [Chunk rid n chunk] g else g)"

text \<open>The one method agents call: \<open>auth_ok\<close> is whether its parameters parse.\<close>

definition handle_request :: "('j \<Rightarrow> bool) \<Rightarrow> nat \<Rightarrow> connection \<Rightarrow> string \<Rightarrow> string \<Rightarrow> 'j \<Rightarrow> 'j gateway \<Rightarrow>
    'j gateway" where
  "handle_request auth_ok nid c rid method params g =
     (if \<not> c_hello c \<or> method \<noteq> ''sftp.auth'' then do_effects [Answered (c_ws c) rid False] g
      else if \<not> auth_ok params then do_effects [Answered (c_ws c) rid False] g
      else do_effects [Sftp_Auth nid rid params] g)"

definition on_message :: "(string \<Rightarrow> 'j \<Rightarrow> 'j option) \<Rightarrow> ('j \<Rightarrow> string option) \<Rightarrow> ('j \<Rightarrow> bool) \<Rightarrow> nat \<Rightarrow> nat \<Rightarrow>
    'j envelope \<Rightarrow> 'j gateway \<Rightarrow> 'j gateway" where
  "on_message parse hello_result auth_ok nid ws env g = (case g_conns g nid of
     None \<Rightarrow> g
   | Some c \<Rightarrow> if c_ws c \<noteq> ws then g
       else (case env of
         Env_Event e d \<Rightarrow> handle_event parse hello_result nid c e d g
       | Env_Result rid r \<Rightarrow> handle_result parse nid c rid (Inr r) g
       | Env_Error rid k m \<Rightarrow> handle_result parse nid c rid (Inl (k, m)) g
       | Env_Stream rid n ch fin \<Rightarrow> handle_stream nid c rid n ch fin g
       | Env_Request rid m ps \<Rightarrow> handle_request auth_ok nid c rid m ps g
       | Env_Malformed \<Rightarrow> g))"

section \<open>Runs\<close>

inductive gateway_step :: "'j gateway \<Rightarrow> 'j gateway \<Rightarrow> bool" where
  gw_request: "rid \<notin> g_issued g \<Longrightarrow> gateway_step g (request now rid nid m t s e g)"
| gw_timer: "gateway_step g (timer_fires nid rid t g)"
| gw_open: "gateway_step g (on_open now nid ws addr g)"
| gw_close: "gateway_step g (on_close nid ws g)"
| gw_disconnect: "gateway_step g (disconnect nid reason g)"
| gw_message: "gateway_step g (on_message parse hello_result auth_ok nid ws env g)"

inductive gateway_reaches :: "'j gateway \<Rightarrow> 'j gateway \<Rightarrow> bool" for g where
  gw_refl: "gateway_reaches g g"
| gw_step: "gateway_reaches g h \<Longrightarrow> gateway_step h k \<Longrightarrow> gateway_reaches g k"

definition gw_start :: "'j gateway" where
  "gw_start = \<lparr>g_conns = Map.empty, g_issued = {}, g_settled = [], g_effects = []\<rparr>"

definition pending_ids :: "connection \<Rightarrow> string set" where
  "pending_ids c = fst ` set (c_pending c)"

text \<open>Every issued request is pending on exactly one connection or settled, once; a connection without
  an accepted hello has none.\<close>

definition gateway_inv :: "'j gateway \<Rightarrow> bool" where
  "gateway_inv g \<longleftrightarrow> distinct (map fst (g_settled g))
     \<and> (\<forall>nid c. g_conns g nid = Some c \<longrightarrow> distinct (map fst (c_pending c))
          \<and> pending_ids c \<inter> fst ` set (g_settled g) = {} \<and> (\<not> c_hello c \<longrightarrow> c_pending c = []))
     \<and> (\<forall>n m c d. g_conns g n = Some c \<and> g_conns g m = Some d \<and> n \<noteq> m \<longrightarrow> pending_ids c \<inter> pending_ids d = {})
     \<and> (\<forall>rid. rid \<in> g_issued g \<longleftrightarrow>
          rid \<in> fst ` set (g_settled g) \<or> (\<exists>nid c. g_conns g nid = Some c \<and> rid \<in> pending_ids c))"

section \<open>Every request settles once\<close>

lemma gw_simps [simp]:
  "g_conns (do_effects es g) = g_conns g" "g_issued (do_effects es g) = g_issued g"
  "g_settled (do_effects es g) = g_settled g" "g_conns (settle rid oc g) = g_conns g"
  "g_issued (settle rid oc g) = g_issued g" "g_settled (settle rid oc g) = g_settled g @ [(rid, oc)]"
  "g_conns (put_conn nid c g) = (g_conns g)(nid \<mapsto> c)" "g_issued (put_conn nid c g) = g_issued g"
  "g_settled (put_conn nid c g) = g_settled g" "g_conns (drop_conn nid g) = (g_conns g)(nid := None)"
  "g_issued (drop_conn nid g) = g_issued g" "g_settled (drop_conn nid g) = g_settled g"
  "g_conns (fail_all reason c g) = g_conns g" "g_issued (fail_all reason c g) = g_issued g"
  by (simp_all add: do_effects_def settle_def put_conn_def drop_conn_def fail_all_def)

lemma settled_fail_all [simp]: "map fst (g_settled (fail_all reason c g)) = map fst (g_settled g) @ map fst (c_pending c)"
  "fst ` set (g_settled (fail_all reason c g)) = fst ` set (g_settled g) \<union> pending_ids c"
  by (auto simp: fail_all_def pending_ids_def comp_def split_def image_iff) force+

lemma pending_update [simp]: "pending_ids (c\<lparr>c_pending := AList.update rid p (c_pending c)\<rparr>) = insert rid (pending_ids c)"
  by (auto simp: pending_ids_def dom_update)

lemma pending_delete [simp]: "pending_ids (c\<lparr>c_pending := AList.delete rid (c_pending c)\<rparr>) = pending_ids c - {rid}"
  by (force simp: pending_ids_def AList.delete_eq)

lemma gateway_invD:
  assumes "gateway_inv g"
  shows "distinct (map fst (g_settled g))"
    and "g_conns g nid = Some c \<Longrightarrow> distinct (map fst (c_pending c))"
    and "g_conns g nid = Some c \<Longrightarrow> pending_ids c \<inter> fst ` set (g_settled g) = {}"
    and "g_conns g nid = Some c \<Longrightarrow> \<not> c_hello c \<Longrightarrow> c_pending c = []"
    and "g_conns g n = Some c \<Longrightarrow> g_conns g m = Some d \<Longrightarrow> n \<noteq> m \<Longrightarrow> pending_ids c \<inter> pending_ids d = {}"
    and "rid \<in> g_issued g \<longleftrightarrow>
          rid \<in> fst ` set (g_settled g) \<or> (\<exists>nid c. g_conns g nid = Some c \<and> rid \<in> pending_ids c)"
  using assms unfolding gateway_inv_def by blast+

lemma gateway_invI:
  assumes "distinct (map fst (g_settled g))"
    and "\<And>n c. g_conns g n = Some c \<Longrightarrow> distinct (map fst (c_pending c))
      \<and> pending_ids c \<inter> fst ` set (g_settled g) = {} \<and> (\<not> c_hello c \<longrightarrow> c_pending c = [])"
    and "\<And>n m c d. g_conns g n = Some c \<Longrightarrow> g_conns g m = Some d \<Longrightarrow> n \<noteq> m \<Longrightarrow> pending_ids c \<inter> pending_ids d = {}"
    and "\<And>x. x \<in> g_issued g \<longleftrightarrow> x \<in> fst ` set (g_settled g) \<or> (\<exists>n c. g_conns g n = Some c \<and> x \<in> pending_ids c)"
  shows "gateway_inv g"
  unfolding gateway_inv_def
proof (intro conjI allI impI)
  show "distinct (map fst (g_settled g))" by (fact assms(1))
next
  fix n c assume "g_conns g n = Some c"
  from assms(2) [OF this] show "distinct (map fst (c_pending c))" and "pending_ids c \<inter> fst ` set (g_settled g) = {}"
    and "\<not> c_hello c \<Longrightarrow> c_pending c = []" by blast+
next
  fix n m c d assume "g_conns g n = Some c \<and> g_conns g m = Some d \<and> n \<noteq> m"
  then show "pending_ids c \<inter> pending_ids d = {}" using assms(3) by blast
next
  fix x show "x \<in> g_issued g \<longleftrightarrow> x \<in> fst ` set (g_settled g) \<or> (\<exists>n c. g_conns g n = Some c \<and> x \<in> pending_ids c)"
    by (fact assms(4))
qed

text \<open>One request leaves its connection and is settled.\<close>

lemma settle_inv:
  assumes inv: "gateway_inv g" and c: "g_conns g nid = Some c" and rid: "rid \<in> pending_ids c"
  shows "gateway_inv (settle rid oc (put_conn nid (c\<lparr>c_pending := AList.delete rid (c_pending c)\<rparr>) g))"
proof -
  note I = gateway_invD [OF inv]
  have new: "rid \<notin> fst ` set (g_settled g)" using I(3) [OF c] rid by blast
  have "distinct (map fst (g_settled g @ [(rid, oc)]))" using I(1) new by auto
  moreover have "distinct (map fst (c_pending d)) \<and> pending_ids d \<inter> fst ` set (g_settled g @ [(rid, oc)]) = {}
      \<and> (\<not> c_hello d \<longrightarrow> c_pending d = [])"
    if "((g_conns g)(nid \<mapsto> c\<lparr>c_pending := AList.delete rid (c_pending c)\<rparr>)) n = Some d" for n d
  proof (cases "n = nid")
    case True
    with that have d: "d = c\<lparr>c_pending := AList.delete rid (c_pending c)\<rparr>" by simp
    have "pending_ids d = pending_ids c - {rid}" by (simp add: d)
    moreover have "distinct (map fst (c_pending d))" using I(2) [OF c] by (simp add: d distinct_delete)
    moreover have "\<not> c_hello d \<longrightarrow> c_pending d = []" using I(4) [OF c] by (simp add: d)
    ultimately show ?thesis using I(3) [OF c] by auto
  next
    case False
    with that have d: "g_conns g n = Some d" by simp
    have "rid \<notin> pending_ids d" using I(5) [OF d c False] rid by blast
    with I(2,3,4) [OF d] show ?thesis by auto
  qed
  moreover have "pending_ids d \<inter> pending_ids e = {}"
    if "((g_conns g)(nid \<mapsto> c\<lparr>c_pending := AList.delete rid (c_pending c)\<rparr>)) n = Some d"
      "((g_conns g)(nid \<mapsto> c\<lparr>c_pending := AList.delete rid (c_pending c)\<rparr>)) m = Some e" "n \<noteq> m" for n m d e
  proof -
    have "\<exists>d'. g_conns g n = Some d' \<and> pending_ids d \<subseteq> pending_ids d'"
      using that(1) c by (cases "n = nid") auto
    moreover have "\<exists>e'. g_conns g m = Some e' \<and> pending_ids e \<subseteq> pending_ids e'"
      using that(2) c by (cases "m = nid") auto
    ultimately show ?thesis using I(5) that(3) by (metis (no_types, lifting) Int_mono subset_empty)
  qed
  moreover have "x \<in> g_issued g \<longleftrightarrow> x \<in> fst ` set (g_settled g @ [(rid, oc)]) \<or>
      (\<exists>n d. ((g_conns g)(nid \<mapsto> c\<lparr>c_pending := AList.delete rid (c_pending c)\<rparr>)) n = Some d \<and> x \<in> pending_ids d)" for x
  proof (cases "x = rid")
    case True
    with I(6) [of x] c rid show ?thesis by auto
  next
    case False
    have "(\<exists>n d. ((g_conns g)(nid \<mapsto> c\<lparr>c_pending := AList.delete rid (c_pending c)\<rparr>)) n = Some d \<and> x \<in> pending_ids d)
        \<longleftrightarrow> (\<exists>n d. g_conns g n = Some d \<and> x \<in> pending_ids d)"
    proof
      assume "\<exists>n d. g_conns g n = Some d \<and> x \<in> pending_ids d"
      then obtain n d where d: "g_conns g n = Some d" "x \<in> pending_ids d" by blast
      show "\<exists>n d. ((g_conns g)(nid \<mapsto> c\<lparr>c_pending := AList.delete rid (c_pending c)\<rparr>)) n = Some d \<and> x \<in> pending_ids d"
        using c d False by (intro exI [of _ n]) auto
    qed (use c in \<open>auto split: if_splits\<close>)
    with I(6) [of x] False show ?thesis by auto
  qed
  ultimately show ?thesis unfolding gateway_inv_def gw_simps by blast
qed

text \<open>A connection ends, or is replaced by a fresh one, and everything on it is settled.\<close>

lemma fail_inv:
  assumes inv: "gateway_inv g" and c: "g_conns g nid = Some c"
    and new: "new = None \<or> (\<exists>d. new = Some d \<and> c_pending d = [])"
  shows "gateway_inv ((fail_all reason c g)\<lparr>g_conns := (g_conns g)(nid := new)\<rparr>)" (is "gateway_inv ?h")
proof -
  note I = gateway_invD [OF inv]
  have dist: "distinct (map fst (g_settled ?h))"
    using I(1) I(2,3) [OF c] by (auto simp: pending_ids_def)
  have set: "fst ` set (g_settled ?h) = fst ` set (g_settled g) \<union> pending_ids c" by simp
  have old: "g_conns g n = Some d \<and> n \<noteq> nid \<or> pending_ids d = {} \<and> c_pending d = []"
    if "g_conns ?h n = Some d" for n d
    using that new by (auto simp: pending_ids_def split: if_splits)
  have "distinct (map fst (c_pending d)) \<and> pending_ids d \<inter> fst ` set (g_settled ?h) = {}
      \<and> (\<not> c_hello d \<longrightarrow> c_pending d = [])" if "g_conns ?h n = Some d" for n d
    using old [OF that] I(2,3,4) [of n d] I(5) [of n d nid c] c unfolding set by auto
  moreover have "pending_ids d \<inter> pending_ids e = {}"
    if "g_conns ?h n = Some d" "g_conns ?h m = Some e" "n \<noteq> m" for n m d e
    using old [OF that(1)] old [OF that(2)] I(5) that(3) by blast
  moreover have "x \<in> g_issued ?h \<longleftrightarrow> x \<in> fst ` set (g_settled ?h) \<or> (\<exists>n d. g_conns ?h n = Some d \<and> x \<in> pending_ids d)" for x
  proof -
    have "(\<exists>n d. g_conns g n = Some d \<and> x \<in> pending_ids d) \<longleftrightarrow>
        x \<in> pending_ids c \<or> (\<exists>n d. g_conns ?h n = Some d \<and> x \<in> pending_ids d)"
    proof
      assume "\<exists>n d. g_conns g n = Some d \<and> x \<in> pending_ids d"
      then obtain n d where nd: "g_conns g n = Some d" "x \<in> pending_ids d" by blast
      show "x \<in> pending_ids c \<or> (\<exists>n d. g_conns ?h n = Some d \<and> x \<in> pending_ids d)"
        using nd c by (cases "n = nid") auto
    next
      assume "x \<in> pending_ids c \<or> (\<exists>n d. g_conns ?h n = Some d \<and> x \<in> pending_ids d)"
      with c old show "\<exists>n d. g_conns g n = Some d \<and> x \<in> pending_ids d" by blast
    qed
    moreover have "g_issued ?h = g_issued g" by simp
    ultimately show ?thesis using I(6) [of x] unfolding set by blast
  qed
  ultimately show ?thesis using dist unfolding gateway_inv_def by blast
qed

lemma same_pending_inv:
  assumes inv: "gateway_inv g" and c: "g_conns g nid = Some c"
    and d: "map fst (c_pending d) = map fst (c_pending c)" "c_hello c \<longrightarrow> c_hello d"
  shows "gateway_inv (put_conn nid d g)"
proof -
  note I = gateway_invD [OF inv]
  have ids: "pending_ids d = pending_ids c" using d(1) unfolding pending_ids_def by (metis set_map)
  have old: "\<exists>e'. g_conns g n = Some e' \<and> pending_ids e = pending_ids e' \<and> map fst (c_pending e) = map fst (c_pending e')
      \<and> (c_hello e' \<longrightarrow> c_hello e)" if "g_conns (put_conn nid d g) n = Some e" for n e
    using that c d ids by (cases "n = nid") auto
  have A: "distinct (map fst (c_pending e)) \<and> pending_ids e \<inter> fst ` set (g_settled g) = {}
      \<and> (\<not> c_hello e \<longrightarrow> c_pending e = [])" if "g_conns (put_conn nid d g) n = Some e" for n e
  proof -
    from old [OF that] obtain e' where e': "g_conns g n = Some e'" "pending_ids e = pending_ids e'"
      "map fst (c_pending e) = map fst (c_pending e')" "c_hello e' \<longrightarrow> c_hello e" by blast
    with I(2,3,4) [OF e'(1)] show ?thesis by auto
  qed
  have B: "pending_ids e \<inter> pending_ids f = {}"
    if "g_conns (put_conn nid d g) n = Some e" "g_conns (put_conn nid d g) m = Some f" "n \<noteq> m" for n m e f
  proof -
    from old [OF that(1)] obtain e' where e': "g_conns g n = Some e'" "pending_ids e = pending_ids e'" by blast
    from old [OF that(2)] obtain f' where f': "g_conns g m = Some f'" "pending_ids f = pending_ids f'" by blast
    show ?thesis using I(5) [OF e'(1) f'(1) that(3)] unfolding e'(2) f'(2) .
  qed
  have E: "(\<exists>n e. g_conns (put_conn nid d g) n = Some e \<and> x \<in> pending_ids e)
      \<longleftrightarrow> (\<exists>n e. g_conns g n = Some e \<and> x \<in> pending_ids e)" for x
  proof
    assume "\<exists>n e. g_conns (put_conn nid d g) n = Some e \<and> x \<in> pending_ids e"
    then show "\<exists>n e. g_conns g n = Some e \<and> x \<in> pending_ids e" using old by blast
  next
    assume "\<exists>n e. g_conns g n = Some e \<and> x \<in> pending_ids e"
    then obtain n e where e: "g_conns g n = Some e" "x \<in> pending_ids e" by blast
    show "\<exists>n e. g_conns (put_conn nid d g) n = Some e \<and> x \<in> pending_ids e"
    proof (cases "n = nid")
      case True
      with e c ids have "g_conns (put_conn nid d g) nid = Some d \<and> x \<in> pending_ids d" by simp
      then show ?thesis by blast
    next
      case False
      with e have "g_conns (put_conn nid d g) n = Some e \<and> x \<in> pending_ids e" by simp
      then show ?thesis by blast
    qed
  qed
  have C: "x \<in> g_issued (put_conn nid d g) \<longleftrightarrow> x \<in> fst ` set (g_settled (put_conn nid d g))
      \<or> (\<exists>n e. g_conns (put_conn nid d g) n = Some e \<and> x \<in> pending_ids e)" for x
    unfolding E using I(6) [of x] by simp
  show ?thesis
  proof (rule gateway_invI)
    show "distinct (map fst (g_settled (put_conn nid d g)))" using I(1) by simp
  next
    fix n e assume "g_conns (put_conn nid d g) n = Some e"
    from A [OF this] show "distinct (map fst (c_pending e)) \<and> pending_ids e \<inter> fst ` set (g_settled (put_conn nid d g)) = {}
      \<and> (\<not> c_hello e \<longrightarrow> c_pending e = [])" unfolding gw_simps .
  qed (rule B C; assumption?)+
qed

text \<open>A new request joins a connection that had its hello.\<close>

lemma joined_inv:
  assumes inv: "gateway_inv g" and c: "g_conns g nid = Some c" and hello: "c_hello c" and rid: "rid \<notin> g_issued g"
  shows "gateway_inv (put_conn nid (c\<lparr>c_pending := AList.update rid p (c_pending c)\<rparr>)
    (g\<lparr>g_issued := insert rid (g_issued g)\<rparr>))" (is "gateway_inv ?h")
proof -
  note I = gateway_invD [OF inv]
  have unsettled: "rid \<notin> fst ` set (g_settled g)" and nowhere: "rid \<notin> pending_ids d" if "g_conns g n = Some d" for n d
    using I(6) [of rid] rid that by blast+
  have old: "\<exists>d'. g_conns g n = Some d' \<and> (n = nid \<and> d = c\<lparr>c_pending := AList.update rid p (c_pending c)\<rparr> \<and> d' = c \<or> n \<noteq> nid \<and> d = d')"
    if "g_conns ?h n = Some d" for n d
    using that c by (cases "n = nid") auto
  show ?thesis
  proof (rule gateway_invI)
    show "distinct (map fst (g_settled ?h))" using I(1) by simp
  next
    fix n d assume "g_conns ?h n = Some d"
    then consider "n = nid" "d = c\<lparr>c_pending := AList.update rid p (c_pending c)\<rparr>" | "g_conns g n = Some d"
      using old by blast
    then show "distinct (map fst (c_pending d)) \<and> pending_ids d \<inter> fst ` set (g_settled ?h) = {} \<and> (\<not> c_hello d \<longrightarrow> c_pending d = [])"
    proof cases
      case 1
      with I(2,3) [OF c] hello unsettled [OF c] show ?thesis by (simp add: distinct_update)
    next
      case 2
      with I(2,3,4) [OF 2] show ?thesis by auto
    qed
  next
    fix n m d e assume de: "g_conns ?h n = Some d" "g_conns ?h m = Some e" "n \<noteq> m"
    show "pending_ids d \<inter> pending_ids e = {}"
      using old [OF de(1)] old [OF de(2)] I(5) [of n _ m] nowhere de(3) by fastforce
  next
    fix x
    show "x \<in> g_issued ?h \<longleftrightarrow> x \<in> fst ` set (g_settled ?h) \<or> (\<exists>n d. g_conns ?h n = Some d \<and> x \<in> pending_ids d)"
    proof (cases "x = rid")
      case True
      then show ?thesis by (auto intro!: exI [of _ nid])
    next
      case False
      have "(\<exists>n d. g_conns ?h n = Some d \<and> x \<in> pending_ids d) \<longleftrightarrow> (\<exists>n d. g_conns g n = Some d \<and> x \<in> pending_ids d)"
      proof
        assume "\<exists>n d. g_conns g n = Some d \<and> x \<in> pending_ids d"
        then obtain n d where d: "g_conns g n = Some d" "x \<in> pending_ids d" by blast
        show "\<exists>n d. g_conns ?h n = Some d \<and> x \<in> pending_ids d" using d c by (intro exI [of _ n]) auto
      qed (use old False in \<open>fastforce\<close>)
      with I(6) [of x] False show ?thesis by simp
    qed
  qed
qed

lemma refused_inv:
  assumes inv: "gateway_inv g" and rid: "rid \<notin> g_issued g"
  shows "gateway_inv (settle rid oc (g\<lparr>g_issued := insert rid (g_issued g)\<rparr>))"
proof -
  note I = gateway_invD [OF inv]
  have unsettled: "rid \<notin> fst ` set (g_settled g)" using I(6) [of rid] rid by blast
  have nowhere: "rid \<notin> pending_ids d" if "g_conns g n = Some d" for n d
    using I(6) [of rid] rid that by blast
  show ?thesis
  proof (rule gateway_invI)
    show "distinct (map fst (g_settled (settle rid oc (g\<lparr>g_issued := insert rid (g_issued g)\<rparr>))))"
      using I(1) unsettled by auto
  next
    fix n d assume "g_conns (settle rid oc (g\<lparr>g_issued := insert rid (g_issued g)\<rparr>)) n = Some d"
    then have d: "g_conns g n = Some d" by simp
    show "distinct (map fst (c_pending d))
        \<and> pending_ids d \<inter> fst ` set (g_settled (settle rid oc (g\<lparr>g_issued := insert rid (g_issued g)\<rparr>))) = {}
        \<and> (\<not> c_hello d \<longrightarrow> c_pending d = [])"
      using I(2,3,4) [OF d] nowhere [OF d] by auto
  next
    fix n m d e assume "g_conns (settle rid oc (g\<lparr>g_issued := insert rid (g_issued g)\<rparr>)) n = Some d"
      "g_conns (settle rid oc (g\<lparr>g_issued := insert rid (g_issued g)\<rparr>)) m = Some e" "n \<noteq> m"
    then show "pending_ids d \<inter> pending_ids e = {}" using I(5) [of n d m e] by simp
  next
    fix x
    show "x \<in> g_issued (settle rid oc (g\<lparr>g_issued := insert rid (g_issued g)\<rparr>)) \<longleftrightarrow>
        x \<in> fst ` set (g_settled (settle rid oc (g\<lparr>g_issued := insert rid (g_issued g)\<rparr>)))
        \<or> (\<exists>n d. g_conns (settle rid oc (g\<lparr>g_issued := insert rid (g_issued g)\<rparr>)) n = Some d \<and> x \<in> pending_ids d)"
      using I(6) [of x] by auto
  qed
qed

lemma effects_inv: "gateway_inv (do_effects es g) = gateway_inv g"
  by (simp add: gateway_inv_def)

lemma put_conn_twice: "put_conn nid c (put_conn nid d g) = put_conn nid c g"
  by (simp add: put_conn_def)

lemma request_inv:
  assumes inv: "gateway_inv g" and rid: "rid \<notin> g_issued g"
  shows "gateway_inv (request now rid nid method t s e g)"
proof -
  let ?g1 = "g\<lparr>g_issued := insert rid (g_issued g)\<rparr>"
  let ?p = "\<lparr>pd_method = method, pd_deadline = now + t, pd_on_stream = s, pd_stream_done = False\<rparr>"
  have conns: "g_conns ?g1 nid = g_conns g nid" by simp
  show ?thesis
  proof (cases "g_conns g nid")
    case None
    then show ?thesis by (simp add: request_def refused_inv [OF inv rid])
  next
    case (Some c)
    let ?c = "c\<lparr>c_pending := AList.update rid ?p (c_pending c)\<rparr>"
    show ?thesis
    proof (cases "c_hello c")
      case False
      with Some show ?thesis by (simp add: request_def refused_inv [OF inv rid])
    next
      case True
      note joined = joined_inv [OF inv Some True rid, of ?p]
      have "gateway_inv (settle rid (Rejected x) (put_conn nid (?c\<lparr>c_pending := AList.delete rid (c_pending ?c)\<rparr>)
          (put_conn nid ?c ?g1)))" for x
        by (rule settle_inv [OF joined]) simp_all
      then have "gateway_inv (settle rid (Rejected x)
          (put_conn nid (c\<lparr>c_pending := AList.delete rid (AList.update rid ?p (c_pending c))\<rparr>) ?g1))" for x
        unfolding put_conn_twice by simp
      with joined Some True show ?thesis
        by (simp add: request_def Let_def effects_inv split: option.split)
    qed
  qed
qed

lemma drop_fail_inv:
  assumes "gateway_inv g" and "g_conns g nid = Some c"
  shows "gateway_inv (drop_conn nid (fail_all reason c g))"
  using fail_inv [OF assms, of None reason] by (simp add: drop_conn_def)

lemma open_inv:
  assumes inv: "gateway_inv g"
  shows "gateway_inv (on_open now nid ws addr g)"
proof (cases "g_conns g nid")
  case None
  note I = gateway_invD [OF inv]
  let ?c = "\<lparr>c_ws = ws, c_hello = False, c_remote = addr, c_connected_at = now, c_pending = []\<rparr>"
  have empty: "pending_ids ?c = {}" by (simp add: pending_ids_def)
  have old: "g_conns g n = Some d \<or> d = ?c" if "g_conns (put_conn nid ?c g) n = Some d" for n d
    using that by (auto split: if_splits)
  have "gateway_inv (put_conn nid ?c g)"
  proof (rule gateway_invI)
    show "distinct (map fst (g_settled (put_conn nid ?c g)))" using I(1) by simp
  next
    fix n d assume "g_conns (put_conn nid ?c g) n = Some d"
    from old [OF this] show "distinct (map fst (c_pending d))
        \<and> pending_ids d \<inter> fst ` set (g_settled (put_conn nid ?c g)) = {} \<and> (\<not> c_hello d \<longrightarrow> c_pending d = [])"
      using I(2,3,4) [of n d] empty by (elim disjE) auto
  next
    fix n m d e assume de: "g_conns (put_conn nid ?c g) n = Some d" "g_conns (put_conn nid ?c g) m = Some e" "n \<noteq> m"
    show "pending_ids d \<inter> pending_ids e = {}"
      using old [OF de(1)] old [OF de(2)] I(5) [of n d m e] de(3) empty by blast
  next
    fix x
    have "(\<exists>n d. g_conns (put_conn nid ?c g) n = Some d \<and> x \<in> pending_ids d) \<longleftrightarrow> (\<exists>n d. g_conns g n = Some d \<and> x \<in> pending_ids d)"
    proof
      assume "\<exists>n d. g_conns g n = Some d \<and> x \<in> pending_ids d"
      then obtain n d where d: "g_conns g n = Some d" "x \<in> pending_ids d" by blast
      with None have "g_conns (put_conn nid ?c g) n = Some d" by auto
      with d(2) show "\<exists>n d. g_conns (put_conn nid ?c g) n = Some d \<and> x \<in> pending_ids d" by blast
    qed (use old empty in blast)
    with I(6) [of x] show "x \<in> g_issued (put_conn nid ?c g) \<longleftrightarrow> x \<in> fst ` set (g_settled (put_conn nid ?c g))
        \<or> (\<exists>n d. g_conns (put_conn nid ?c g) n = Some d \<and> x \<in> pending_ids d)" by simp
  qed
  with None show ?thesis by (simp add: on_open_def)
next
  case (Some c)
  let ?c = "\<lparr>c_ws = ws, c_hello = False, c_remote = addr, c_connected_at = now, c_pending = []\<rparr>"
  let ?h = "(fail_all ''replaced by a new connection'' c g)\<lparr>g_conns := (g_conns g)(nid := Some ?c)\<rparr>"
  have "gateway_inv ?h" by (rule fail_inv [OF inv Some]) simp
  then have "gateway_inv (do_effects [Socket_Closed (c_ws c) 4000 ''replaced''] ?h)" by (simp only: effects_inv)
  moreover have "on_open now nid ws addr g = do_effects [Socket_Closed (c_ws c) 4000 ''replaced''] ?h"
    using Some by (simp add: on_open_def put_conn_def do_effects_def fail_all_def)
  ultimately show ?thesis by simp
qed

lemma result_inv:
  assumes "gateway_inv g" and "g_conns g nid = Some c"
  shows "gateway_inv (handle_result parse nid c rid answer g)"
proof (cases "map_of (c_pending c) rid")
  case (Some p)
  then have "rid \<in> pending_ids c" by (force simp: pending_ids_def dest: map_of_SomeD)
  from settle_inv [OF assms this] Some show ?thesis by (simp add: handle_result_def)
qed (simp add: handle_result_def assms)

lemma stream_inv:
  assumes "gateway_inv g" and "g_conns g nid = Some c"
  shows "gateway_inv (handle_stream nid c rid n ch fin g)"
proof (cases "map_of (c_pending c) rid")
  case (Some p)
  then have rid: "rid \<in> set (map fst (c_pending c))" by (force dest: map_of_SomeD)
  have "map fst (AList.update rid q (c_pending c)) = map fst (c_pending c)" for q
    using rid by (simp add: update_keys)
  then have "gateway_inv (put_conn nid (c\<lparr>c_pending := AList.update rid q (c_pending c)\<rparr>) g)" for q
    by (intro same_pending_inv [OF assms]) simp_all
  with Some show ?thesis by (simp add: handle_stream_def effects_inv assms(1))
qed (simp add: handle_stream_def assms)

lemma event_inv:
  assumes "gateway_inv g" and "g_conns g nid = Some c"
  shows "gateway_inv (handle_event parse hello_result nid c e d g)"
proof -
  have "gateway_inv (put_conn nid (c\<lparr>c_hello := True\<rparr>) g)" by (rule same_pending_inv [OF assms]) simp_all
  with assms(1) show ?thesis by (simp add: handle_event_def effects_inv split: option.split)
qed

lemma message_inv:
  assumes "gateway_inv g"
  shows "gateway_inv (on_message parse hello_result auth_ok nid ws env g)"
proof (cases "g_conns g nid")
  case (Some c)
  note steps = result_inv [OF assms Some] stream_inv [OF assms Some] event_inv [OF assms Some]
  show ?thesis
    using Some assms steps by (cases env) (simp_all add: on_message_def handle_request_def effects_inv)
qed (simp add: on_message_def assms)

lemma timer_inv:
  assumes "gateway_inv g"
  shows "gateway_inv (timer_fires nid rid t g)"
proof (cases "g_conns g nid")
  case (Some c)
  from settle_inv [OF assms Some, of rid] Some assms show ?thesis
    by (force simp: timer_fires_def pending_ids_def split: option.split dest: map_of_SomeD)
qed (simp add: timer_fires_def assms)

lemma step_inv: "gateway_step g h \<Longrightarrow> gateway_inv g \<Longrightarrow> gateway_inv h"
  by (erule gateway_step.cases)
    (auto simp: request_inv timer_inv open_inv message_inv on_close_def disconnect_def effects_inv
       drop_fail_inv split: option.split)

lemma reached_inv: "gateway_reaches g h \<Longrightarrow> gateway_inv g \<Longrightarrow> gateway_inv h"
  by (induction rule: gateway_reaches.induct) (blast intro: step_inv)+

lemma start_inv: "gateway_inv gw_start"
  by (simp add: gateway_inv_def gw_start_def)

lemma settled_grows:
  "set (g_settled g) \<subseteq> set (g_settled (fail_all reason c g))"
  "set (g_settled g) \<subseteq> set (g_settled (handle_event parse hr nid c e d g))"
  "set (g_settled g) \<subseteq> set (g_settled (handle_result parse nid c rid answer g))"
  "set (g_settled g) \<subseteq> set (g_settled (handle_stream nid c rid n ch fin g))"
  "set (g_settled g) \<subseteq> set (g_settled (handle_request auth_ok nid c rid m ps g))"
  by (simp_all add: fail_all_def handle_event_def handle_result_def handle_stream_def handle_request_def
    subset_insertI split: option.split)

lemma message_settled: "set (g_settled g) \<subseteq> set (g_settled (on_message parse hr auth_ok nid ws env g))"
proof (cases "g_conns g nid")
  case (Some c)
  then show ?thesis by (cases env) (simp_all add: on_message_def settled_grows)
qed (simp add: on_message_def)

lemma request_settled: "set (g_settled g) \<subseteq> set (g_settled (request now rid nid m t s e g))"
  by (auto simp: request_def Let_def split: option.split)

lemma step_settled: "gateway_step g h \<Longrightarrow> set (g_settled g) \<subseteq> set (g_settled h)"
  by (erule gateway_step.cases)
    (simp_all add: message_settled request_settled timer_fires_def on_open_def on_close_def disconnect_def
      settled_grows subset_insertI split: option.split)

lemma reached_settled: "gateway_reaches g h \<Longrightarrow> set (g_settled g) \<subseteq> set (g_settled h)"
  by (induction rule: gateway_reaches.induct) (use step_settled in blast)+

lemma reaches_trans: "gateway_reaches h k \<Longrightarrow> gateway_reaches g h \<Longrightarrow> gateway_reaches g k"
  by (induction rule: gateway_reaches.induct) (auto intro: gateway_reaches.intros)

lemma failed_settled: "rid \<in> pending_ids c \<Longrightarrow>
    (rid, Rejected (rpc_error ''unavailable'' reason 502)) \<in> set (g_settled (fail_all reason c g))"
  by (auto simp: fail_all_def pending_ids_def)

lemma hello_pending: "gateway_inv g \<Longrightarrow> g_conns g nid = Some c \<Longrightarrow> \<not> c_hello c \<Longrightarrow> c_pending c = []"
  by (rule gateway_invD(4))

section \<open>Properties\<close>

text \<open>C2. In every state the gateway reaches, no request has two outcomes, each issued request either has
  its outcome and is pending nowhere, or has none yet and is pending on exactly one node's
  connection; and an outcome once given stays the request's only one, whatever arrives afterwards: a
  late answer, its timer, the end of the connection.
\<close>

theorem requests_settle_once:
  assumes "gateway_reaches gw_start g" and "gateway_reaches g h"
  shows "distinct (map fst (g_settled g))
    \<and> (\<forall>rid. rid \<in> g_issued g \<longleftrightarrow> (\<exists>oc. (rid, oc) \<in> set (g_settled g)) \<noteq> 
        (\<exists>!nid. \<exists>c. g_conns g nid = Some c \<and> rid \<in> pending_ids c))
    \<and> (\<forall>rid oc. (rid, oc) \<in> set (g_settled g) \<longrightarrow> map_of (g_settled h) rid = Some oc)"
proof (intro conjI allI impI)
  note I = gateway_invD [OF reached_inv [OF assms(1) start_inv]]
  show "distinct (map fst (g_settled g))" by (rule I(1))
  fix rid
  have settled: "(\<exists>oc. (rid, oc) \<in> set (g_settled g)) \<longleftrightarrow> rid \<in> fst ` set (g_settled g)" by force
  have once: "(\<exists>!nid. \<exists>c. g_conns g nid = Some c \<and> rid \<in> pending_ids c) \<longleftrightarrow>
      (\<exists>nid c. g_conns g nid = Some c \<and> rid \<in> pending_ids c)"
  proof
    assume "\<exists>nid c. g_conns g nid = Some c \<and> rid \<in> pending_ids c"
    then obtain nid c where c: "g_conns g nid = Some c" "rid \<in> pending_ids c" by blast
    have "m = nid" if "g_conns g m = Some d" "rid \<in> pending_ids d" for m d
      using I(5) [OF that(1) c(1)] that(2) c(2) by blast
    with c show "\<exists>!nid. \<exists>c. g_conns g nid = Some c \<and> rid \<in> pending_ids c" by blast
  qed blast
  show "rid \<in> g_issued g \<longleftrightarrow> (\<exists>oc. (rid, oc) \<in> set (g_settled g)) \<noteq>
      (\<exists>!nid. \<exists>c. g_conns g nid = Some c \<and> rid \<in> pending_ids c)"
    unfolding settled once using I(6) [of rid] I(3) by blast
next
  fix rid oc assume "(rid, oc) \<in> set (g_settled g)"
  moreover have "distinct (map fst (g_settled h))"
    by (rule gateway_invD(1) [OF reached_inv [OF reaches_trans [OF assms(2,1)] start_inv]])
  ultimately show "map_of (g_settled h) rid = Some oc"
    using reached_settled [OF assms(2)] by auto
qed

text \<open>A run: the agent connects and says hello, a request is sent, its timer fires, and the socket closes.\<close>

definition greeted :: "nat gateway" where
  "greeted = on_message (\<lambda>_. Some) (\<lambda>_. None) (\<lambda>_. True) 1 5 (Env_Event ''hello'' 0) (on_open 0 1 5 None gw_start)"

definition expired :: "nat gateway" where
  "expired = timer_fires 1 ''r'' 10 (request 2 ''r'' 1 ''ping'' 10 False None greeted)"

definition late :: "nat gateway" where
  "late = on_close 1 5 (on_message (\<lambda>_. Some) (\<lambda>_. None) (\<lambda>_. True) 1 5 (Env_Result ''r'' 7) expired)"

lemma greeted_eval: "greeted = \<lparr>g_conns = [1 \<mapsto> \<lparr>c_ws = 5, c_hello = True, c_remote = None, c_connected_at = 0, c_pending = []\<rparr>],
    g_issued = {}, g_settled = [], g_effects = [Configure_Agent 1, Agent_Hello 1]\<rparr>"
  by (simp add: greeted_def gw_start_def on_open_def on_message_def handle_event_def put_conn_def do_effects_def)

lemma greeted_reached: "gateway_reaches gw_start greeted"
  unfolding greeted_def
  by (rule gateway_reaches.gw_step [OF gateway_reaches.gw_step [OF gateway_reaches.gw_refl gateway_step.gw_open]
    gateway_step.gw_message])

lemma expired_reached: "gateway_reaches gw_start expired"
proof -
  have "gateway_step greeted (request 2 ''r'' 1 ''ping'' 10 False None greeted)"
    by (rule gateway_step.gw_request) (simp add: greeted_eval)
  with greeted_reached show ?thesis
    unfolding expired_def by (blast intro: gateway_reaches.gw_step gateway_step.gw_timer)
qed

lemma late_reached: "gateway_reaches expired late"
  unfolding late_def
  by (rule gateway_reaches.gw_step [OF gateway_reaches.gw_step [OF gateway_reaches.gw_refl gateway_step.gw_message]
    gateway_step.gw_close])

lemma requests_settle_once_witness:
  "\<exists>why. map_of (g_settled late) ''r'' = Some (Rejected (rpc_error ''timeout'' why 504))"
proof -
  have "\<exists>why. (''r'', Rejected (rpc_error ''timeout'' why 504)) \<in> set (g_settled expired)"
    by (simp add: expired_def greeted_eval request_def timer_fires_def put_conn_def do_effects_def settle_def) blast
  with requests_settle_once [OF expired_reached late_reached] show ?thesis by blast
qed

text \<open>Nothing is left waiting on a connection that ends: when it is disconnected, replaced by the
  node's next one, or closed, every request pending on it is rejected as unavailable with a 502 and is
  pending no more, while the close of a socket that was already replaced changes nothing.
\<close>

theorem ended_connection_settles:
  assumes "g_conns g nid = Some c"
    and "h \<in> {disconnect nid reason g, on_open now nid ws addr g, on_close nid (c_ws c) g}"
  shows "(\<forall>rid. rid \<in> pending_ids c \<longrightarrow> (\<exists>why. (rid, Rejected (rpc_error ''unavailable'' why 502)) \<in> set (g_settled h)))
    \<and> (\<forall>d. g_conns h nid = Some d \<longrightarrow> c_pending d = [] \<and> \<not> c_hello d \<and> c_ws d = ws)
    \<and> (ws \<noteq> c_ws c \<longrightarrow> on_close nid ws g = g)"
  using assms failed_settled
  by (auto simp: disconnect_def on_open_def on_close_def) blast+

definition waiting :: "nat gateway" where
  "waiting = gw_start\<lparr>g_conns := [1 \<mapsto> \<lparr>c_ws = 5, c_hello = True, c_remote = None, c_connected_at = 0,
     c_pending = [(''r'', \<lparr>pd_method = ''ping'', pd_deadline = 10, pd_on_stream = False, pd_stream_done = False\<rparr>)]\<rparr>],
     g_issued := {''r''}\<rparr>"

lemma ended_connection_settles_witness:
  "\<exists>why. (''r'', Rejected (rpc_error ''unavailable'' why 502)) \<in> set (g_settled (on_open 3 1 6 None waiting))"
proof -
  let ?c = "the (g_conns waiting 1)"
  have "g_conns waiting 1 = Some ?c" and "''r'' \<in> pending_ids ?c" by (simp_all add: waiting_def pending_ids_def)
  with ended_connection_settles [of waiting 1 ?c "on_open 3 1 6 None waiting" "''x''" 3 6 None] show ?thesis by blast
qed

text \<open>Until its hello is accepted an agent can do nothing: no request is sent to it, no event of it
  reaches a service, and no answer or stream chunk of it counts; the only things a message other than
  the hello does is to have a call of the agent's answered with an error.
\<close>

theorem unproven_agent_powerless:
  assumes "gateway_reaches gw_start g" and "g_conns g nid = Some c" and "\<not> c_hello c"
    and "\<forall>d. env \<noteq> Env_Event ''hello'' d"
  shows "(on_message parse hello_result auth_ok nid ws env g = g
        \<or> (\<exists>rid. on_message parse hello_result auth_ok nid ws env g = do_effects [Answered ws rid False] g))
    \<and> \<not> gw_connected g nid \<and> connected_since g nid = None \<and> remote_address g nid = None
    \<and> g_effects (request now rid nid method t s e g) = g_effects g
    \<and> (rid, Rejected (rpc_error ''unavailable'' ''The node is not connected'' 409))
        \<in> set (g_settled (request now rid nid method t s e g))"
proof -
  have "c_pending c = []" by (rule hello_pending [OF reached_inv [OF assms(1) start_inv] assms(2,3)])
  then have "on_message parse hello_result auth_ok nid ws env g = g
      \<or> (\<exists>rid. on_message parse hello_result auth_ok nid ws env g = do_effects [Answered ws rid False] g)"
    using assms(2-4) by (cases env) (auto simp: on_message_def handle_event_def handle_result_def
      handle_stream_def handle_request_def split: option.split)
  with assms(2,3) show ?thesis
    by (simp add: gw_connected_def connected_since_def remote_address_def request_def settle_def)
qed

lemma unproven_agent_powerless_witness:
  "g_effects (request 2 ''r'' 1 ''ping'' 10 False None (on_open 0 1 5 None (gw_start :: nat gateway)))
    = g_effects (on_open 0 1 5 None (gw_start :: nat gateway))"
proof -
  have "gateway_reaches gw_start (on_open 0 1 5 None (gw_start :: nat gateway))"
    by (rule gateway_reaches.gw_step [OF gateway_reaches.gw_refl gateway_step.gw_open])
  moreover have "g_conns (on_open 0 1 5 None (gw_start :: nat gateway)) 1
      = Some \<lparr>c_ws = 5, c_hello = False, c_remote = None, c_connected_at = 0, c_pending = []\<rparr>"
    by (simp add: on_open_def gw_start_def)
  ultimately show ?thesis
    by (rule unproven_agent_powerless [where env = Env_Malformed, THEN conjunct2, THEN conjunct2, THEN conjunct2,
        THEN conjunct2, THEN conjunct1]) simp_all
qed

end
