(* ===== verification/Rate_Limit.thy ===== *)
theory Rate_Limit
  imports Prelude
begin

text \<open>
  The fixed-window rate limiter (server/src/lib/rate-limit.ts). \<open>limits\<close> is what its users rely on,
  stated as a locale: how many more hits a key has in its window, until when, and that a hit takes one
  of them. The limiter with its sweep is shown to answer as the one without, and both bounds, one
  window and any interval of a window's length, follow.
\<close>

section \<open>The limiter\<close>

record limit_entry =
  le_count :: nat
  le_reset_at :: int

type_synonym limit_hits = "string \<rightharpoonup> limit_entry"

record limiter =
  l_hits :: limit_hits
  l_last_sweep :: int

definition new_limiter :: "int \<Rightarrow> limiter" where
  "new_limiter now = \<lparr>l_hits = Map.empty, l_last_sweep = now\<rparr>"

definition sweep_hits :: "int \<Rightarrow> limit_hits \<Rightarrow> limit_hits" where
  "sweep_hits now h = (\<lambda>k. case h k of Some e \<Rightarrow> if le_reset_at e \<le> now then None else Some e | None \<Rightarrow> None)"

definition sweep :: "int \<Rightarrow> int \<Rightarrow> limiter \<Rightarrow> limiter" where
  "sweep window now l =
     (if now - l_last_sweep l < window then l
      else \<lparr>l_hits = sweep_hits now (l_hits l), l_last_sweep = now\<rparr>)"

text \<open>\<open>Math.ceil(ms / 1000)\<close>.\<close>

definition ceil_seconds :: "int \<Rightarrow> int" where
  "ceil_seconds ms = - ((- ms) div 1000)"

text \<open>The entry a key has at an instant, a closed window counting as none.\<close>

definition live_entry :: "limit_hits \<Rightarrow> int \<Rightarrow> string \<Rightarrow> limit_entry option" where
  "live_entry h now k = (case h k of Some e \<Rightarrow> if le_reset_at e \<le> now then None else Some e | None \<Rightarrow> None)"

definition hit :: "int \<Rightarrow> nat \<Rightarrow> limit_hits \<Rightarrow> int \<Rightarrow> string \<Rightarrow> limit_hits \<times> bool \<times> int" where
  "hit window mx h now k = (case live_entry h now k of
     None \<Rightarrow> (h(k \<mapsto> \<lparr>le_count = 1, le_reset_at = now + window\<rparr>), True, 0)
   | Some e \<Rightarrow> let e' = e\<lparr>le_count := le_count e + 1\<rparr> in
       if le_count e' > mx then (h(k \<mapsto> e'), False, ceil_seconds (le_reset_at e' - now))
       else (h(k \<mapsto> e'), True, 0))"

definition check :: "int \<Rightarrow> nat \<Rightarrow> limiter \<Rightarrow> int \<Rightarrow> string \<Rightarrow> limiter \<times> bool \<times> int" where
  "check window mx l now k =
     (let l' = sweep window now l; (h, ok, wait) = hit window mx (l_hits l') now k
      in (l'\<lparr>l_hits := h\<rparr>, ok, wait))"

definition reset_key :: "limiter \<Rightarrow> string \<Rightarrow> limiter" where
  "reset_key l k = l\<lparr>l_hits := (l_hits l)(k := None)\<rparr>"

definition retry_after :: "nat \<Rightarrow> limiter \<Rightarrow> int \<Rightarrow> string \<Rightarrow> int" where
  "retry_after mx l now k = (case live_entry (l_hits l) now k of
     None \<Rightarrow> 0
   | Some e \<Rightarrow> if le_count e < mx then 0 else ceil_seconds (le_reset_at e - now))"

section \<open>The interface\<close>

text \<open>A run of hits, of one key or of several, and which of them were allowed.\<close>

fun hits_of :: "('l \<Rightarrow> int \<Rightarrow> 'k \<Rightarrow> 'l \<times> bool) \<Rightarrow> 'l \<Rightarrow> (int \<times> 'k) list \<Rightarrow> 'l \<times> (int \<times> 'k) list" where
  "hits_of f l [] = (l, [])"
| "hits_of f l ((t, k) # xs) =
     (let (l1, ok) = f l t k; (l2, oks) = hits_of f l1 xs in (l2, if ok then (t, k) # oks else oks))"

definition count_key :: "'k \<Rightarrow> (int \<times> 'k) list \<Rightarrow> nat" where
  "count_key k xs = length (filter (\<lambda>x. snd x = k) xs)"

lemma count_key_simps [simp]:
  "count_key k [] = 0" "count_key k ((t, j) # xs) = (if j = k then 1 else 0) + count_key k xs"
  by (simp_all add: count_key_def)

text \<open>
  \<open>room\<close> is how many hits a key still has in the window it is in, \<open>ends\<close> when that window closes; the
  window of a key no one has hit would start now. As time passes a window stays as it is until it
  closes, and then the key has a full one.
\<close>

locale limits =
  fixes check_hit :: "'l \<Rightarrow> int \<Rightarrow> 'k \<Rightarrow> 'l \<times> bool"
    and clear_key :: "'l \<Rightarrow> 'k \<Rightarrow> 'l"
    and room :: "'l \<Rightarrow> int \<Rightarrow> 'k \<Rightarrow> nat"
    and ends :: "'l \<Rightarrow> int \<Rightarrow> 'k \<Rightarrow> int"
    and full :: nat
    and span :: int
  assumes check_ok: "snd (check_hit l t k) \<longleftrightarrow> 0 < room l t k"
    and check_room: "room (fst (check_hit l t k)) t k = room l t k - 1"
    and check_ends: "ends (fst (check_hit l t k)) t k = ends l t k"
    and check_other: "j \<noteq> k \<Longrightarrow> t \<le> u \<Longrightarrow>
      room (fst (check_hit l t j)) u k = room l u k \<and> ends (fst (check_hit l t j)) u k = ends l u k"
    and passing: "t \<le> u \<Longrightarrow>
      room l u k = room l t k \<and> ends l u k = ends l t k \<and> u < ends l t k
      \<or> room l u k = full \<and> ends l u k = u + span \<and> (room l t k = full \<or> ends l t k \<le> u)"
    and room_full: "room l t k \<le> full"
    and clear_room: "room (clear_key l k) t k = full"
begin

lemma hits_of_step: "snd (hits_of check_hit l ((t, j) # xs)) =
    (if 0 < room l t j then (t, j) # snd (hits_of check_hit (fst (check_hit l t j)) xs)
     else snd (hits_of check_hit (fst (check_hit l t j)) xs))"
  using check_ok [of l t j] by (auto simp: split_def Let_def)

text \<open>
  In an interval no longer than a window, a key gets what its window has left, and a full window more
  if the one it is in closes before the interval does.
\<close>

definition budget :: "int \<Rightarrow> 'l \<Rightarrow> int \<Rightarrow> 'k \<Rightarrow> nat" where
  "budget e l t k = room l t k + (if ends l t k < e then full else 0)"

lemma budget_passing:
  assumes "t \<le> u" and "u < e" and "e \<le> t + span"
  shows "budget e l u k \<le> budget e l t k"
  using passing [OF assms(1), of l k] assms room_full [of l t k] by (auto simp: budget_def)

lemma in_interval:
  assumes "\<forall>x\<in>set xs. t \<le> fst x \<and> fst x < e" and "sorted (map fst xs)" and "e \<le> t + span"
  shows "count_key k (snd (hits_of check_hit l xs)) \<le> budget e l t k"
  using assms
proof (induction xs arbitrary: l t)
  case (Cons x xs)
  obtain u j where x: "x = (u, j)" by (cases x)
  have u: "t \<le> u" "u < e" using Cons.prems(1) x by auto
  have later: "\<forall>y\<in>set xs. u \<le> fst y \<and> fst y < e" and sorted: "sorted (map fst xs)" and e: "e \<le> u + span"
    using Cons.prems x u by auto
  let ?l = "fst (check_hit l u j)"
  note IH = Cons.IH [OF later sorted e, of ?l]
  note passed = budget_passing [OF u Cons.prems(3), of l k]
  show ?case
  proof (cases "j = k")
    case True
    have "budget e ?l u k + (if 0 < room l u k then 1 else 0) = budget e l u k"
      using check_room [of l u k] check_ends [of l u k] True by (simp add: budget_def)
    with IH passed True show ?thesis by (auto simp: x hits_of_step simp del: hits_of.simps split: if_splits)
  next
    case False
    with check_other [of j k u u l] have "budget e ?l u k = budget e l u k" by (simp add: budget_def)
    with IH passed False show ?thesis by (simp add: x hits_of_step del: hits_of.simps)
  qed
qed simp

lemma at_most_two_windows:
  assumes "\<forall>x\<in>set xs. t \<le> fst x \<and> fst x < t + span" and "sorted (map fst xs)"
  shows "count_key k (snd (hits_of check_hit l xs)) \<le> 2 * full"
  using in_interval [OF assms order_refl, of k l] room_full [of l t k] by (auto simp: budget_def split: if_splits)

lemma within_window:
  assumes "\<forall>x\<in>set xs. t \<le> fst x \<and> fst x < ends l t k" and "sorted (map fst xs)" and "ends l t k \<le> t + span"
  shows "count_key k (snd (hits_of check_hit l xs)) \<le> room l t k"
  using in_interval [OF assms, of k l] by (simp add: budget_def)

end

section \<open>The limiter keeps its promises\<close>

definition check_hit :: "int \<Rightarrow> nat \<Rightarrow> limiter \<Rightarrow> int \<Rightarrow> string \<Rightarrow> limiter \<times> bool" where
  "check_hit window mx l now k = (let (l', ok, _) = check window mx l now k in (l', ok))"

definition room_left :: "nat \<Rightarrow> limiter \<Rightarrow> int \<Rightarrow> string \<Rightarrow> nat" where
  "room_left mx l now k = (case live_entry (l_hits l) now k of None \<Rightarrow> mx | Some e \<Rightarrow> mx - le_count e)"

definition window_ends :: "int \<Rightarrow> limiter \<Rightarrow> int \<Rightarrow> string \<Rightarrow> int" where
  "window_ends window l now k =
     (case live_entry (l_hits l) now k of None \<Rightarrow> now + window | Some e \<Rightarrow> le_reset_at e)"

text \<open>Sweeping forgets only entries that no longer count.\<close>

lemma live_swept: "now \<le> u \<Longrightarrow> live_entry (l_hits (sweep window now l)) u = live_entry (l_hits l) u"
  by (auto simp: sweep_def sweep_hits_def live_entry_def fun_eq_iff split: option.split)

lemma live_hit_same:
  assumes "0 < window"
  shows "live_entry (fst (hit window mx h now k)) now k =
    Some (case live_entry h now k of None \<Rightarrow> \<lparr>le_count = 1, le_reset_at = now + window\<rparr>
      | Some e \<Rightarrow> e\<lparr>le_count := le_count e + 1\<rparr>)"
  using assms by (auto simp: hit_def live_entry_def Let_def split: option.splits if_splits)

lemma live_hit_other: "j \<noteq> k \<Longrightarrow> live_entry (fst (hit window mx h now j)) u k = live_entry h u k"
  by (auto simp: hit_def live_entry_def Let_def split: option.splits)

lemma hit_allowed: "fst (snd (hit window mx h now k)) \<longleftrightarrow>
    (case live_entry h now k of None \<Rightarrow> True | Some e \<Rightarrow> le_count e < mx)"
  by (simp add: hit_def Let_def split: option.split)

lemma check_hit_eq: "fst (check_hit window mx l now k) =
    (sweep window now l)\<lparr>l_hits := fst (hit window mx (l_hits (sweep window now l)) now k)\<rparr>"
  "snd (check_hit window mx l now k) = fst (snd (hit window mx (l_hits (sweep window now l)) now k))"
  by (simp_all add: check_hit_def check_def Let_def split_def)

lemma limits_limiter:
  assumes "0 < window" and "0 < mx"
  shows "limits (check_hit window mx) reset_key (room_left mx) (window_ends window) mx window"
proof
  fix l :: limiter and t u :: int and j k :: string
  note live = live_swept [of t t window l] live_swept [of t u window l]
  show "snd (check_hit window mx l t k) \<longleftrightarrow> 0 < room_left mx l t k"
    using assms live by (simp add: check_hit_eq hit_allowed room_left_def split: option.split)
  show "room_left mx (fst (check_hit window mx l t k)) t k = room_left mx l t k - 1"
    using live_hit_same [OF assms(1), of mx "l_hits (sweep window t l)" t k] live
    by (simp add: check_hit_eq room_left_def split: option.split)
  show "window_ends window (fst (check_hit window mx l t k)) t k = window_ends window l t k"
    using live_hit_same [OF assms(1), of mx "l_hits (sweep window t l)" t k] live
    by (simp add: check_hit_eq window_ends_def split: option.split)
  show "room_left mx (fst (check_hit window mx l t j)) u k = room_left mx l u k
      \<and> window_ends window (fst (check_hit window mx l t j)) u k = window_ends window l u k"
    if "j \<noteq> k" "t \<le> u"
    using live_hit_other [OF that(1), of window mx "l_hits (sweep window t l)" t u] live that
    by (simp add: check_hit_eq room_left_def window_ends_def)
  show "room_left mx l u k = room_left mx l t k \<and> window_ends window l u k = window_ends window l t k
        \<and> u < window_ends window l t k
      \<or> room_left mx l u k = mx \<and> window_ends window l u k = u + window
        \<and> (room_left mx l t k = mx \<or> window_ends window l t k \<le> u)" if "t \<le> u"
  proof (cases "l_hits l k")
    case (Some e)
    with that show ?thesis
      by (cases "le_reset_at e \<le> t"; cases "le_reset_at e \<le> u")
        (simp_all add: room_left_def window_ends_def live_entry_def)
  qed (simp add: room_left_def window_ends_def live_entry_def)
  show "room_left mx l t k \<le> mx" by (simp add: room_left_def split: option.split)
  show "room_left mx (reset_key l k) t k = mx" by (simp add: room_left_def reset_key_def live_entry_def)
qed

text \<open>The limiters of the program: wrong second-factor codes per user (two-factor.ts), reset emails per
  account (password-reset.ts), and sign-ins per address, per account and codes per address (routes.ts).\<close>

interpretation user_failures: limits "check_hit 3600000 10" reset_key "room_left 10" "window_ends 3600000" 10 3600000
  by (rule limits_limiter) simp_all

interpretation reset_mails: limits "check_hit 60000 1" reset_key "room_left 1" "window_ends 60000" 1 60000
  by (rule limits_limiter) simp_all

interpretation login_ip: limits "check_hit 900000 20" reset_key "room_left 20" "window_ends 900000" 20 900000
  by (rule limits_limiter) simp_all

text \<open>\<open>retryAfter\<close> is zero exactly when a hit would be allowed; otherwise it is when the window closes.\<close>

lemma retry_after_room: "retry_after mx l now k = 0 \<longleftrightarrow> 0 < room_left mx l now k" if "0 < mx"
proof (cases "live_entry (l_hits l) now k")
  case (Some e)
  then have "now < le_reset_at e" by (auto simp: live_entry_def split: option.splits if_splits)
  then have "0 < ceil_seconds (le_reset_at e - now)" by (simp add: ceil_seconds_def pos_imp_zdiv_neg_iff)
  with Some show ?thesis by (simp add: retry_after_def room_left_def)
qed (use that in \<open>simp add: retry_after_def room_left_def\<close>)

section \<open>Properties\<close>

text \<open>However often and by however many keys the limiter is asked, a key is allowed at most \<open>max\<close>
  hits in an interval of a window's length in which its window starts, and at most twice that in any
  such interval; \<open>retryAfter\<close> is zero exactly when the next hit would be allowed.\<close>

theorem limiter_bounds:
  assumes "0 < window" and "0 < mx" and "sorted (map fst xs)"
    and "\<forall>x\<in>set xs. t \<le> fst x \<and> fst x < t + window"
  shows "count_key k (snd (hits_of (check_hit window mx) l xs))
      \<le> (if live_entry (l_hits l) t k = None then mx else 2 * mx)
    \<and> (retry_after mx l t k = 0 \<longleftrightarrow> snd (check_hit window mx l t k))"
proof
  note L = limits_limiter [OF assms(1,2)]
  show "count_key k (snd (hits_of (check_hit window mx) l xs))
      \<le> (if live_entry (l_hits l) t k = None then mx else 2 * mx)"
    using limits.at_most_two_windows [OF L assms(4,3), of k l]
      limits.in_interval [OF L assms(4,3) order_refl, of k l]
    by (cases "live_entry (l_hits l) t k")
      (simp_all add: limits.budget_def [OF L] room_left_def window_ends_def)
  show "retry_after mx l t k = 0 \<longleftrightarrow> snd (check_hit window mx l t k)"
    by (simp add: retry_after_room [OF assms(2)] limits.check_ok [OF L])
qed

lemma limiter_bounds_witness:
  "count_key ''7'' (snd (hits_of (check_hit 3600000 10) (new_limiter 0) (replicate 12 (5, ''7'')))) \<le> 10"
  using limiter_bounds [of 3600000 10 "replicate 12 (5, ''7'')" 0 "''7''" "new_limiter 0"]
  by (simp add: live_entry_def new_limiter_def)

text \<open>The hour of the wrong-code limit is a fixed one: a user who gets one code wrong, then nine just
  before that hour ends and ten just after, has all twenty counted as allowed, nineteen of them within
  a millisecond.\<close>

theorem wrong_codes_double:
  "count_key ''7'' (snd (hits_of (check_hit 3600000 10) (new_limiter 0)
     ((0, ''7'') # map (\<lambda>_. (3599999, ''7'')) [0..<9] @ map (\<lambda>_. (3600000, ''7'')) [0..<10]))) = 20"
  by (simp add: upt_rec [of 0] upt_rec [of "Suc _"] new_limiter_def check_hit_def check_def hit_def sweep_def sweep_hits_def
    live_entry_def Let_def)

end
