(* ===== verification/Totp.thy ===== *)
theory Totp
  imports Prelude "HOL-Library.Word" "HOL-Library.Signed_Division"
begin

unbundle bit_operations_syntax

text \<open>
  One-time passwords (server/src/modules/auth/totp.ts) and the constant-time comparison
  (server/src/lib/ids.ts). HMAC-SHA-1 is a parameter \<open>hmac key message\<close>; that it gives 20 bytes is the
  only thing assumed of it. JavaScript's bit operators are those of \<open>32 word\<close>, read back with \<open>sint\<close>.
\<close>

section \<open>Definitions\<close>

definition period_ms :: int where "period_ms = 30000"
definition totp_digits :: nat where "totp_digits = 6"
definition drift_steps :: int where "drift_steps = 1"

definition step_at :: "int \<Rightarrow> int" where
  "step_at ms = ms div period_ms"

text \<open>\<open>DataView.setUint32\<close>, big endian, twice.\<close>

definition be32 :: "32 word \<Rightarrow> 8 word list" where
  "be32 w = [ucast (drop_bit 24 w), ucast (drop_bit 16 w), ucast (drop_bit 8 w), ucast w]"

definition counter_bytes :: "int \<Rightarrow> 8 word list" where
  "counter_bytes c = be32 (word_of_int (c div 4294967296)) @ be32 (word_of_int c)"

text \<open>An element of a byte array under a bit operator: one out of range is undefined, which counts as 0.\<close>

definition byte_at :: "8 word list \<Rightarrow> nat \<Rightarrow> 8 word" where
  "byte_at bs i = (if i < length bs then bs ! i else 0)"

definition truncated :: "8 word list \<Rightarrow> 32 word" where
  "truncated mac =
     (let offset = unat (byte_at mac (length mac - 1) AND 0x0f) in
      push_bit 24 (ucast (byte_at mac offset AND 0x7f)) OR push_bit 16 (ucast (byte_at mac (offset + 1)))
        OR push_bit 8 (ucast (byte_at mac (offset + 2))) OR ucast (byte_at mac (offset + 3)))"

definition pad_start :: "nat \<Rightarrow> string \<Rightarrow> string" where
  "pad_start n s = replicate (n - length s) (CHR ''0'') @ s"

definition hotp :: "('k \<Rightarrow> 8 word list \<Rightarrow> 8 word list) \<Rightarrow> 'k \<Rightarrow> int \<Rightarrow> nat \<Rightarrow> string" where
  "hotp hmac secret counter digits =
     pad_start digits (string_of_int (sint (truncated (hmac secret (counter_bytes counter))) smod 10 ^ digits))"

definition timing_safe_equal :: "string \<Rightarrow> string \<Rightarrow> bool" where
  "timing_safe_equal a b \<longleftrightarrow> length a = length b
     \<and> foldl (\<lambda>diff (x, y). diff OR (of_char x XOR of_char y)) (0 :: 32 word) (zip a b) = 0"

definition match_step :: "('k \<Rightarrow> 8 word list \<Rightarrow> 8 word list) \<Rightarrow> 'k \<Rightarrow> string \<Rightarrow> int \<Rightarrow> int option" where
  "match_step hmac secret entered now =
     (if length entered \<noteq> totp_digits \<or> \<not> list_all is_digit entered then None
      else foldl (\<lambda>found step.
             if timing_safe_equal (hotp hmac secret step totp_digits) entered \<and> found = None then Some step else found)
           None [step_at now - drift_steps .. step_at now + drift_steps])"

section \<open>Comparison\<close>

lemma or_zero: "a OR b = (0 :: 32 word) \<longleftrightarrow> a = 0 \<and> b = 0"
  by (rule or_eq_0_iff)

lemma xor_zero: "a XOR b = (0 :: 32 word) \<longleftrightarrow> a = b"
  by (auto simp: bit_eq_iff bit_simps)

lemma char_word: "(of_char x :: 32 word) = of_char y \<longleftrightarrow> x = y"
proof
  assume "(of_char x :: 32 word) = of_char y"
  then have "(of_nat (of_char x) :: 32 word) = of_nat (of_char y)" by (simp only: of_nat_of_char)
  then have "unat (of_nat (of_char x) :: 32 word) = unat (of_nat (of_char y) :: 32 word)" by simp
  moreover have "(of_char c :: nat) < 2 ^ 32" for c :: char
    by (rule less_trans [of _ 256]) (simp_all add: of_char_def)
  ultimately have "(of_char x :: nat) = of_char y" by (simp add: unat_of_nat)
  then show "x = y" by simp
qed simp

lemma diff_fold: "length a = length b \<Longrightarrow>
    foldl (\<lambda>diff (x, y). diff OR (of_char x XOR of_char y)) d (zip a b) = (0 :: 32 word) \<longleftrightarrow> d = 0 \<and> a = b"
  by (induction a b arbitrary: d rule: list_induct2) (auto simp: or_zero xor_zero char_word)

lemma timing_safe_equal_iff: "timing_safe_equal a b \<longleftrightarrow> a = b"
  by (auto simp: timing_safe_equal_def diff_fold)

section \<open>Bytes\<close>

fun from_be :: "8 word list \<Rightarrow> int" where
  "from_be [] = 0"
| "from_be (b # bs) = uint b * 256 ^ length bs + from_be bs"

lemma uint_be: "uint (ucast w :: 8 word) = uint (w :: 32 word) mod 256"
  by (simp add: unsigned_ucast_eq take_bit_eq_mod)

lemma uint_drop: "uint (drop_bit n (w :: 32 word)) = uint w div 2 ^ n"
proof -
  have "take_bit 32 (uint w) = uint w" using uint_lt2p [of w] by (simp add: take_bit_int_eq_self)
  then show ?thesis by (simp only: unsigned_drop_bit_eq) (simp add: drop_bit_eq_div)
qed

lemma base_256: "n = 256 * a + d0 \<Longrightarrow> a = 256 * b + d1 \<Longrightarrow> b = 256 * c + d2 \<Longrightarrow>
    c * 16777216 + (d2 * 65536 + (d1 * 256 + d0)) = (n :: int)"
  by simp

lemma four_digits: "n div 16777216 mod 256 * 16777216 + (n div 65536 mod 256 * 65536 + (n div 256 mod 256 * 256 + n mod 256)) = n"
  if "0 \<le> n" "n < 4294967296" for n :: int
proof -
  define a b c where "a = n div 256" and "b = a div 256" and "c = b div 256"
  have eqs: "n div 65536 = b" "n div 16777216 = c" "n div 256 = a"
    by (simp_all add: a_def b_def c_def zdiv_zmult2_eq [symmetric])
  have parts: "n = 256 * a + n mod 256" "a = 256 * b + a mod 256" "b = 256 * c + b mod 256"
    by (simp_all add: a_def b_def c_def)
  have c: "c mod 256 = c" using that by (simp add: a_def b_def c_def zdiv_zmult2_eq [symmetric])
  show ?thesis unfolding eqs c by (rule base_256 [OF parts])
qed

lemma from_be_four: "from_be [b0, b1, b2, b3] = uint b0 * 16777216 + (uint b1 * 65536 + (uint b2 * 256 + uint b3))"
  by simp

lemma drop_powers: "(2 :: int) ^ 24 = 16777216" "(2 :: int) ^ 16 = 65536" "(2 :: int) ^ 8 = 256"
  by simp_all

lemma from_be32: "from_be (be32 w) = uint w"
proof -
  have "0 \<le> uint w" "uint w < 4294967296" using uint_lt2p [of w] by simp_all
  note four_digits [OF this]
  then show ?thesis unfolding be32_def from_be_four uint_be uint_drop drop_powers .
qed

lemma from_be_append: "from_be (xs @ ys) = from_be xs * 256 ^ length ys + from_be ys"
  by (induction xs) (simp_all add: algebra_simps power_add)

lemma from_counter_bytes: "from_be (counter_bytes c) = c mod 2 ^ 64"
proof -
  have "(c div 4294967296) mod 4294967296 * 4294967296 + c mod 4294967296 = c mod (4294967296 * 4294967296)"
    by (simp only: zmod_zmult2_eq algebra_simps)
  then show ?thesis
    by (simp add: counter_bytes_def from_be_append from_be32) (simp add: be32_def uint_word_of_int)
qed

section \<open>The code\<close>

lemma low_bits: "uint (b AND 0x7f) = uint (b :: 8 word) mod 128"
proof -
  have "(0x7f :: 8 word) = mask 7" by (simp add: mask_eq_exp_minus_1)
  then have "b AND 0x7f = take_bit 7 b" by (simp only: take_bit_eq_mask)
  then show ?thesis by (simp only: unsigned_take_bit_eq) (simp add: take_bit_eq_mod)
qed

lemma offset_bound: "unat (b AND 0x0f) < 16" for b :: "8 word"
  by (rule le_less_trans [OF word_and_le1 [THEN word_le_nat_alt [THEN iffD1]]]) simp

lemma shifted_or: "push_bit n a OR b = a * 2 ^ n + b" if "0 \<le> b" "b < 2 ^ n" for a b :: int
proof -
  have b: "take_bit n b = b" using that by (simp add: take_bit_int_eq_self)
  have "push_bit n a AND b = 0"
    by (rule bit_eqI) (metis b bit_and_iff bit_push_bit_iff bit_take_bit_iff bit_0_eq bot_apply bot_bool_def not_le)
  then have "push_bit n a + b = push_bit n a OR b" by (rule disjunctive_add_eq_or)
  then show ?thesis by (simp add: push_bit_eq_mult)
qed

lemma uint_byte: "0 \<le> uint (b :: 8 word)" "uint (b :: 8 word) < 256"
  using uint_lt2p [of b] by simp_all

lemma uint_wide: "uint (ucast (b :: 8 word) :: 32 word) = uint b"
  using uint_byte [of b] by (simp add: unsigned_ucast_eq take_bit_int_eq_self)

lemma uint_push: "uint b * 2 ^ n < 2 ^ 32 \<Longrightarrow> uint (push_bit n (ucast (b :: 8 word) :: 32 word)) = push_bit n (uint b)"
  by (simp only: unsigned_push_bit_eq uint_wide) (simp add: push_bit_eq_mult take_bit_int_eq_self)

text \<open>The dynamic truncation of RFC 4226: four bytes, big endian, without the top bit.\<close>

lemma four_bytes:
  fixes b0 b1 b2 b3 :: "8 word"
  shows "sint (push_bit 24 (ucast (b0 AND 0x7f)) OR push_bit 16 (ucast b1) OR push_bit 8 (ucast b2) OR ucast b3 :: 32 word)
    = uint b0 mod 128 * 2 ^ 24 + uint b1 * 2 ^ 16 + uint b2 * 2 ^ 8 + uint b3"
proof -
  let ?w = "push_bit 24 (ucast (b0 AND 0x7f)) OR push_bit 16 (ucast b1) OR push_bit 8 (ucast b2) OR ucast b3 :: 32 word"
  have u: "uint ?w = push_bit 24 (uint b0 mod 128) OR (push_bit 16 (uint b1) OR (push_bit 8 (uint b2) OR uint b3))"
    using uint_byte [of b0] uint_byte [of b1] uint_byte [of b2]
    by (simp add: unsigned_or_eq uint_push uint_wide low_bits or.assoc)
  have "push_bit 8 (uint b2) OR uint b3 = uint b2 * 2 ^ 8 + uint b3"
    using uint_byte [of b3] by (intro shifted_or) simp_all
  moreover have "push_bit 16 (uint b1) OR (uint b2 * 2 ^ 8 + uint b3) = uint b1 * 2 ^ 16 + (uint b2 * 2 ^ 8 + uint b3)"
    using uint_byte [of b3] uint_byte [of b2] by (intro shifted_or) simp_all
  moreover have "push_bit 24 (uint b0 mod 128) OR (uint b1 * 2 ^ 16 + (uint b2 * 2 ^ 8 + uint b3))
      = uint b0 mod 128 * 2 ^ 24 + (uint b1 * 2 ^ 16 + (uint b2 * 2 ^ 8 + uint b3))"
    using uint_byte [of b3] uint_byte [of b2] uint_byte [of b1] by (intro shifted_or) simp_all
  ultimately have val: "uint ?w = uint b0 mod 128 * 2 ^ 24 + uint b1 * 2 ^ 16 + uint b2 * 2 ^ 8 + uint b3"
    using u by simp
  have "uint ?w < 2 ^ 31"
    unfolding val using uint_byte [of b3] uint_byte [of b2] uint_byte [of b1] by simp
  then have "signed_take_bit 31 (uint ?w) = uint ?w"
    by (intro signed_take_bit_int_eq_self) (rule order_trans [OF _ unsigned_greater_eq], simp_all)
  then have "sint ?w = uint ?w" by (simp add: sint_uint)
  with val show ?thesis by simp
qed

lemma truncated_value:
  assumes "length mac = 20"
  defines "i \<equiv> unat (mac ! 19 AND 0x0f)"
  shows "sint (truncated mac) = uint (mac ! i) mod 128 * 2 ^ 24 + uint (mac ! (i + 1)) * 2 ^ 16
    + uint (mac ! (i + 2)) * 2 ^ 8 + uint (mac ! (i + 3))"
  using offset_bound [of "mac ! 19"] assms
  by (simp add: truncated_def Let_def byte_at_def i_def four_bytes)

lemma truncated_be:
  assumes "length mac = 20"
  defines "i \<equiv> unat (mac ! 19 AND 0x0f)"
  shows "sint (truncated mac) = from_be [mac ! i AND 0x7f, mac ! (i + 1), mac ! (i + 2), mac ! (i + 3)]"
  unfolding i_def truncated_value [OF assms(1)] by (simp add: low_bits)

lemma digits_length: "n < 10 ^ d \<Longrightarrow> 0 < d \<Longrightarrow> length (digits_of n) \<le> d"
proof (induction d arbitrary: n)
  case (Suc d)
  show ?case
  proof (cases "n < 10")
    case True
    then show ?thesis by (simp add: digits_of.simps [of n])
  next
    case False
    with Suc.prems have "n div 10 < 10 ^ d" and "0 < d" by (auto simp: div_less_iff_less_mult gr0_conv_Suc) (cases d; simp)
    with Suc.IH [of "n div 10"] False show ?thesis by (simp add: digits_of.simps [of n])
  qed
qed simp

lemma zeros_value: "nat_of_digits (replicate k (CHR ''0'') @ s) = nat_of_digits s"
proof -
  have "foldl (\<lambda>n c. 10 * n + digit_val c) 0 (replicate k (CHR ''0'')) = 0"
    by (induction k) (simp_all add: digit_val_def)
  then show ?thesis by (simp add: nat_of_digits_def)
qed

lemma pad_digits:
  assumes "n < 10 ^ d" and "0 < d"
  shows "length (pad_start d (digits_of n)) = d" and "list_all is_digit (pad_start d (digits_of n))"
    and "nat_of_digits (pad_start d (digits_of n)) = n"
proof -
  show "length (pad_start d (digits_of n)) = d" using digits_length [OF assms] by (simp add: pad_start_def)
  show "list_all is_digit (pad_start d (digits_of n))"
    using digits_of_digits [of n] by (auto simp: pad_start_def list_all_iff is_digit_def)
  show "nat_of_digits (pad_start d (digits_of n)) = n" by (simp add: pad_start_def zeros_value)
qed

lemma be_nonneg: "0 \<le> from_be bs"
  by (induction bs) simp_all

lemma smod_nonneg: "0 \<le> a \<Longrightarrow> 0 < b \<Longrightarrow> a smod b = a mod b" for a b :: int
  by (cases "a = 0") (simp_all add: signed_modulo_int_def)

lemma hotp_shape:
  assumes "length (hmac secret (counter_bytes c)) = 20" and "0 < d"
  shows "\<exists>n. hotp hmac secret c d = pad_start d (digits_of n) \<and> n < 10 ^ d
    \<and> int n = sint (truncated (hmac secret (counter_bytes c))) mod 10 ^ d"
proof -
  let ?t = "sint (truncated (hmac secret (counter_bytes c)))"
  have "0 \<le> ?t" unfolding truncated_be [OF assms(1)] by (rule be_nonneg)
  then have "?t smod 10 ^ d = ?t mod 10 ^ d" by (simp add: smod_nonneg)
  moreover have "0 \<le> ?t mod 10 ^ d" "?t mod 10 ^ d < 10 ^ d" by simp_all
  moreover from this have "nat (?t mod 10 ^ d) < 10 ^ d" by (simp add: nat_less_iff)
  moreover have "\<not> ?t mod 10 ^ d < 0" by (simp add: not_less)
  ultimately show ?thesis
    by (intro exI [of _ "nat (?t mod 10 ^ d)"]) (simp add: hotp_def string_of_int_def)
qed

text \<open>Matching: the first candidate in order wins.\<close>

lemma keep_found: "foldl (\<lambda>found x. if P x \<and> found = None then Some x else found) (Some y) xs = Some y"
  by (induction xs) simp_all

lemma first_found: "foldl (\<lambda>found x. if P x \<and> found = None then Some x else found) None xs = find P xs"
  by (induction xs) (simp_all add: keep_found)

lemma match_step_find: "match_step hmac secret entered now =
    (if length entered \<noteq> 6 \<or> \<not> list_all is_digit entered then None
     else find (\<lambda>s. hotp hmac secret s 6 = entered) [step_at now - 1, step_at now, step_at now + 1])"
proof -
  have "[step_at now - drift_steps .. step_at now + drift_steps] = [step_at now - 1, step_at now, step_at now + 1]"
    by (simp add: drift_steps_def upto.simps)
  then show ?thesis unfolding match_step_def first_found timing_safe_equal_iff totp_digits_def by simp
qed

lemma match_step_cases:
  "match_step hmac secret entered now = Some s \<longleftrightarrow> length entered = 6 \<and> list_all is_digit entered
     \<and> \<bar>s - step_at now\<bar> \<le> 1 \<and> hotp hmac secret s 6 = entered
     \<and> (\<forall>r. step_at now - 1 \<le> r \<longrightarrow> r < s \<longrightarrow> hotp hmac secret r 6 \<noteq> entered)" (is "?L \<longleftrightarrow> ?R")
proof
  assume ?L then show ?R by (auto simp: match_step_find split: if_splits) (smt (verit))+
next
  assume R: ?R
  then consider "s = step_at now - 1" | "s = step_at now" | "s = step_at now + 1" by linarith
  then show ?L using R by cases (auto simp: match_step_find)
qed

section \<open>Properties\<close>

text \<open>HOTP as RFC 4226 has it: with a 20-byte HMAC the message is the counter, big endian in 64 bits;
  the code is the 31-bit number at the offset the last byte gives, modulo \<open>10 ^ d\<close>, written with
  exactly \<open>d\<close> digits; no byte outside the HMAC is read.\<close>

theorem hotp_rfc4226:
  assumes "length (hmac secret (counter_bytes c)) = 20" and "0 < d"
  defines "mac \<equiv> hmac secret (counter_bytes c)"
  defines "i \<equiv> unat (mac ! 19 AND 0x0f)"
  shows "from_be (counter_bytes c) = c mod 2 ^ 64 \<and> i + 3 < length mac
    \<and> length (hotp hmac secret c d) = d \<and> list_all is_digit (hotp hmac secret c d)
    \<and> int (nat_of_digits (hotp hmac secret c d))
      = from_be [mac ! i AND 0x7f, mac ! (i + 1), mac ! (i + 2), mac ! (i + 3)] mod 10 ^ d"
proof -
  obtain n where n: "hotp hmac secret c d = pad_start d (digits_of n)" "n < 10 ^ d"
    "int n = sint (truncated mac) mod 10 ^ d"
    using hotp_shape [of hmac secret c d, OF assms(1,2)] unfolding mac_def by blast
  have len: "length mac = 20" using assms(1) by (simp add: mac_def)
  have "i + 3 < length mac" using offset_bound [of "mac ! 19"] len by (simp add: i_def)
  then show ?thesis
    using pad_digits [OF n(2) assms(2)] n(1,3) truncated_be [OF len] from_counter_bytes [of c]
    unfolding i_def by simp
qed

definition sample_hmac :: "nat \<Rightarrow> 8 word list \<Rightarrow> 8 word list" where
  "sample_hmac k m = replicate 16 (of_nat k) @ rev (take 4 (rev m))"

lemma hotp_rfc4226_witness: "length (hotp sample_hmac 7 59 6) = 6"
  using hotp_rfc4226 [of sample_hmac 7 59 6] by (simp add: sample_hmac_def counter_bytes_def be32_def)

text \<open>A code is accepted for the earliest of the current 30-second step and its two neighbours it is
  the code of, and for no other; nothing but six digits is looked at.\<close>

theorem match_step_window:
  "match_step hmac secret entered now = Some s \<longleftrightarrow> length entered = 6 \<and> list_all is_digit entered
     \<and> \<bar>s - now div 30000\<bar> \<le> 1 \<and> hotp hmac secret s 6 = entered
     \<and> (\<forall>r. now div 30000 - 1 \<le> r \<longrightarrow> r < s \<longrightarrow> hotp hmac secret r 6 \<noteq> entered)"
  unfolding match_step_cases step_at_def period_ms_def ..

lemma match_step_window_witness:
  "hotp (\<lambda>_ _. replicate 20 0) () 1 6 = ''000000'' \<and> hotp (\<lambda>_ _. replicate 20 0) () 2 6 = ''000000''
    \<and> match_step (\<lambda>_ _. replicate 20 0) () ''000000'' 60000 = Some 1"
proof -
  have zero: "hotp (\<lambda>_ _. replicate 20 0) () c 6 = ''000000''" for c
    by (simp add: hotp_def truncated_def byte_at_def string_of_int_def digits_of.simps digit_char_def
      pad_start_def) code_simp
  have "match_step (\<lambda>_ _. replicate 20 0) () ''000000'' 60000 = Some 1"
    by (subst match_step_window) (simp add: zero is_digit_def)
  with zero show ?thesis by blast
qed

end
