(* ===== verification/Auth_Models.thy ===== *)
theory Auth_Models
  imports Models Rate_Limit Totp
begin

text \<open>
  The rows signing in works on (server/src/modules/auth/models.ts, auth/tokens.ts) and the state the
  auth services share: the tables as lists in insertion order, the limiters, the emails that went out
  and the audit log. The cryptography the server calls (argon2, SHA-256, HMAC, AES-GCM) is a record of
  functions; random values are arguments. A value a row is saved with is written at once, and each
  service function is one step.
\<close>

section \<open>Rows\<close>

datatype purpose = Login_Purpose | Enable_Purpose

record session_row =
  se_id :: string
  se_user_id :: nat
  se_expires_at :: int
  se_ip :: "string option"
  se_user_agent :: "string option"
  se_last_seen_at :: int

record challenge =
  ch_id :: string
  ch_user_id :: nat
  ch_purpose :: purpose
  ch_code_hash :: "string option"
  ch_attempts :: nat
  ch_sends :: nat
  ch_last_sent_at :: "int option"
  ch_expires_at :: int
  ch_ip :: "string option"
  ch_user_agent :: "string option"

record recovery_code =
  rc_id :: nat
  rc_user_id :: nat
  rc_code_hash :: string
  rc_used_at :: "int option"

record password_reset =
  pwr_token_hash :: string
  pwr_user_id :: nat
  pwr_expires_at :: int
  pwr_ip :: "string option"
  pwr_user_agent :: "string option"

record api_token =
  at_id :: nat
  at_user_id :: nat
  at_name :: string
  at_token_hash :: string
  at_token_prefix :: string
  at_expires_at :: "int option"
  at_last_used_at :: "int option"
  at_revoked_at :: "int option"

record session_meta =
  sm_ip :: "string option"
  sm_user_agent :: "string option"

text \<open>An audit entry's action, actor and target user; its details and address are left out.\<close>

record audit_entry =
  au_actor :: "nat option"
  au_action :: string
  au_target :: "nat option"

datatype mail = Code_Mail string purpose string | Reset_Mail string string

record auth =
  a_users :: "user_row list"
  a_sessions :: "session_row list"
  a_challenges :: "challenge list"
  a_recovery :: "recovery_code list"
  a_resets :: "password_reset list"
  a_tokens :: "api_token list"
  a_next_id :: nat
  a_failures :: limiter
  a_reset_mails :: limiter
  a_login_ip :: limiter
  a_login_account :: limiter
  a_code_ip :: limiter
  a_reset_ip :: limiter
  a_reset_account :: limiter
  a_mails :: "mail list"
  a_audit :: "audit_entry list"

record 'k crypto =
  verify_hash :: "string \<Rightarrow> string \<Rightarrow> bool"
  sha256_hex :: "string \<Rightarrow> string"
  session_hmac :: "string \<Rightarrow> string"
  seal_secret :: "'k \<Rightarrow> string \<Rightarrow> string"
  open_secret :: "string \<Rightarrow> string \<Rightarrow> 'k option"
  hmac_sha1 :: "'k \<Rightarrow> 8 word list \<Rightarrow> 8 word list"

section \<open>Tables\<close>

definition find_user :: "auth \<Rightarrow> nat \<Rightarrow> user_row option" where
  "find_user st who = find (\<lambda>u. u_id u = who) (a_users st)"

definition user_by_email :: "auth \<Rightarrow> string \<Rightarrow> user_row option" where
  "user_by_email st email = find (\<lambda>u. u_email u = email) (a_users st)"

definition save_user :: "user_row \<Rightarrow> auth \<Rightarrow> auth" where
  "save_user u st = st\<lparr>a_users := map (\<lambda>v. if u_id v = u_id u then u else v) (a_users st)\<rparr>"

definition add_audit :: "nat option \<Rightarrow> string \<Rightarrow> nat option \<Rightarrow> auth \<Rightarrow> auth" where
  "add_audit actor action target st =
     st\<lparr>a_audit := a_audit st @ [\<lparr>au_actor = actor, au_action = action, au_target = target\<rparr>]\<rparr>"

definition user_key :: "nat \<Rightarrow> string" where
  "user_key who = string_of_int (int who)"

lemma find_user_saved [simp]: "find_user (save_user u st) who =
    (if who = u_id u then map_option (\<lambda>_. u) (find_user st who) else find_user st who)"
proof -
  have "find (\<lambda>v. u_id v = who) (map (\<lambda>v. if u_id v = u_id u then u else v) us) =
      (if who = u_id u then map_option (\<lambda>_. u) (find (\<lambda>v. u_id v = who) us) else find (\<lambda>v. u_id v = who) us)" for us
    by (induction us) auto
  then show ?thesis by (simp add: find_user_def save_user_def)
qed

lemma find_user_id: "find_user st who = Some u \<Longrightarrow> u_id u = who"
  by (auto simp: find_user_def find_Some_iff)

lemma save_user_simps [simp]:
  "a_sessions (save_user u st) = a_sessions st" "a_challenges (save_user u st) = a_challenges st"
  "a_recovery (save_user u st) = a_recovery st" "a_resets (save_user u st) = a_resets st"
  "a_tokens (save_user u st) = a_tokens st" "a_next_id (save_user u st) = a_next_id st"
  "a_failures (save_user u st) = a_failures st" "a_mails (save_user u st) = a_mails st"
  "a_audit (save_user u st) = a_audit st"
  by (simp_all add: save_user_def)

lemma add_audit_simps [simp]:
  "a_users (add_audit a x t st) = a_users st" "a_sessions (add_audit a x t st) = a_sessions st"
  "a_challenges (add_audit a x t st) = a_challenges st" "a_recovery (add_audit a x t st) = a_recovery st"
  "a_resets (add_audit a x t st) = a_resets st" "a_tokens (add_audit a x t st) = a_tokens st"
  "a_next_id (add_audit a x t st) = a_next_id st" "a_failures (add_audit a x t st) = a_failures st"
  "a_mails (add_audit a x t st) = a_mails st" "find_user (add_audit a x t st) = find_user st"
  by (simp_all add: add_audit_def find_user_def fun_eq_iff)

end
