(* ===== verification/Accounts.thy ===== *)
theory Accounts
  imports Auth_Models
begin

text \<open>
  Passwords and sessions (server/src/modules/auth/service.ts), personal API tokens (auth/tokens.ts) and
  the request guards (auth/middleware.ts). \<open>first_setup\<close>'s two checks with the hashing between them are
  two steps; a dropped \<open>session.save()\<close> error does not occur.
\<close>

section \<open>Passwords and sessions\<close>

definition session_ttl_ms :: int where "session_ttl_ms = 604800000"
definition touch_interval_ms :: int where "touch_interval_ms = 300000"

definition setup_required :: "auth \<Rightarrow> bool" where
  "setup_required st \<longleftrightarrow> a_users st = []"

definition new_user :: "int \<Rightarrow> nat \<Rightarrow> string \<Rightarrow> string \<Rightarrow> string \<Rightarrow> user_row" where
  "new_user now who email name hash = \<lparr>u_id = who, u_email = js_lower email, u_name = name,
     u_password_hash = hash, u_role = Admin, u_disabled = False, u_two_factor_email = False,
     u_totp_secret = None, u_totp_enabled_at = None, u_totp_last_step = None, u_last_login_at = Some now\<rparr>"

definition setup_begin :: "auth \<Rightarrow> unit result" where
  "setup_begin st = guard (setup_required st) (conflict ''Setup has already been completed'')"

definition setup_end :: "int \<Rightarrow> string \<Rightarrow> string \<Rightarrow> string \<Rightarrow> auth \<Rightarrow> auth \<times> user_row result" where
  "setup_end now email name hash st =
     (if a_users st \<noteq> [] then (st, Inl (conflict ''Setup has already been completed''))
      else let u = new_user now (a_next_id st) email name hash in
        (add_audit (Some (u_id u)) ''auth.setup'' (Some (u_id u))
          (st\<lparr>a_users := [u], a_next_id := a_next_id st + 1\<rparr>), Inr u))"

definition authenticate :: "'k crypto \<Rightarrow> string \<Rightarrow> string \<Rightarrow> auth \<Rightarrow> auth \<times> user_row result" where
  "authenticate cr email password st = (case user_by_email st (js_lower email) of
     None \<Rightarrow> (add_audit None ''auth.login_failed'' None st, Inl (unauthorized ''Invalid email or password''))
   | Some u \<Rightarrow>
       if \<not> verify_hash cr password (u_password_hash u)
       then (add_audit None ''auth.login_failed'' None st, Inl (unauthorized ''Invalid email or password''))
       else if u_disabled u then (st, Inl (unauthorized ''This account is disabled''))
       else (st, Inr u))"

definition create_session :: "'k crypto \<Rightarrow> int \<Rightarrow> string \<Rightarrow> nat \<Rightarrow> session_meta \<Rightarrow> auth \<Rightarrow> auth" where
  "create_session cr now token who meta st =
     st\<lparr>a_sessions := a_sessions st @ [\<lparr>se_id = session_hmac cr token, se_user_id = who,
       se_expires_at = now + session_ttl_ms, se_ip = sm_ip meta,
       se_user_agent = map_option (take 512) (sm_user_agent meta), se_last_seen_at = now\<rparr>]\<rparr>"

definition complete_login :: "'k crypto \<Rightarrow> int \<Rightarrow> string \<Rightarrow> user_row \<Rightarrow> session_meta \<Rightarrow> auth \<Rightarrow> auth" where
  "complete_login cr now token u meta st =
     add_audit (Some (u_id u)) ''auth.login'' (Some (u_id u))
       (save_user (u\<lparr>u_last_login_at := Some now\<rparr>) (create_session cr now token (u_id u) meta st))"

definition touch_session :: "int \<Rightarrow> session_row \<Rightarrow> session_row" where
  "touch_session now s = (if now - se_last_seen_at s > touch_interval_ms
     then s\<lparr>se_last_seen_at := now, se_expires_at := now + session_ttl_ms\<rparr> else s)"

definition resolve_session :: "'k crypto \<Rightarrow> int \<Rightarrow> string \<Rightarrow> auth \<Rightarrow> auth \<times> (session_row \<times> user_row) option" where
  "resolve_session cr now token st =
     (if token = [] \<or> length token > 128 then (st, None)
      else case find (\<lambda>s. se_id s = session_hmac cr token \<and> se_expires_at s > now) (a_sessions st) of
        None \<Rightarrow> (st, None)
      | Some s \<Rightarrow> (case find_user st (se_user_id s) of
          None \<Rightarrow> (st, None)
        | Some u \<Rightarrow> if u_disabled u then (st, None)
            else let s' = touch_session now s in
              (st\<lparr>a_sessions := map (\<lambda>r. if se_id r = se_id s then s' else r) (a_sessions st)\<rparr>, Some (s', u))))"

definition logout :: "session_row \<Rightarrow> auth \<Rightarrow> auth" where
  "logout s st = add_audit (Some (se_user_id s)) ''auth.logout'' None
     (st\<lparr>a_sessions := filter (\<lambda>r. se_id r \<noteq> se_id s) (a_sessions st)\<rparr>)"

text \<open>\<open>keep ? { id: { [Op.ne]: keep } } : {}\<close>: null and the empty string keep none.\<close>

definition end_sessions :: "nat \<Rightarrow> string option \<Rightarrow> auth \<Rightarrow> auth" where
  "end_sessions who keep st = st\<lparr>a_sessions := filter (\<lambda>s. \<not> (se_user_id s = who
     \<and> (case truthy keep of None \<Rightarrow> True | Some k \<Rightarrow> se_id s \<noteq> k))) (a_sessions st)\<rparr>"

definition change_password :: "'k crypto \<Rightarrow> user_row \<Rightarrow> string \<Rightarrow> string \<Rightarrow> string option \<Rightarrow> auth \<Rightarrow> auth \<times> unit result" where
  "change_password cr u current new_hash keep st =
     (if \<not> verify_hash cr current (u_password_hash u)
      then (st, Inl (unauthorized ''Current password is incorrect''))
      else (add_audit (Some (u_id u)) ''auth.password_changed'' (Some (u_id u))
        (end_sessions (u_id u) keep (save_user (u\<lparr>u_password_hash := new_hash\<rparr>) st)), Inr ()))"

definition purge_expired_sessions :: "int \<Rightarrow> auth \<Rightarrow> auth" where
  "purge_expired_sessions now st = st\<lparr>a_sessions := filter (\<lambda>s. \<not> se_expires_at s < now) (a_sessions st)\<rparr>"

section \<open>API tokens\<close>

definition api_token_prefix :: string where "api_token_prefix = ''gsm_api_''"

definition active_tokens :: "auth \<Rightarrow> nat \<Rightarrow> api_token list" where
  "active_tokens st who = filter (\<lambda>t. at_user_id t = who \<and> at_revoked_at t = None) (a_tokens st)"

definition create_token :: "'k crypto \<Rightarrow> int \<Rightarrow> string \<Rightarrow> nat \<Rightarrow> string \<Rightarrow> int option \<Rightarrow> auth \<Rightarrow> auth \<times> string result" where
  "create_token cr now random who name days st =
     (if length (active_tokens st who) \<ge> 20 then (st, Inl (bad_request ''Too many active tokens (max 20)''))
      else let plain = api_token_prefix @ random in
        (st\<lparr>a_tokens := a_tokens st @ [\<lparr>at_id = a_next_id st, at_user_id = who, at_name = name,
              at_token_hash = sha256_hex cr plain, at_token_prefix = take 14 plain,
              at_expires_at = (case days of Some d \<Rightarrow> if d = 0 then None else Some (now + d * 86400000) | None \<Rightarrow> None),
              at_last_used_at = None, at_revoked_at = None\<rparr>],
            a_next_id := a_next_id st + 1\<rparr>, Inr plain))"

definition revoke_token :: "int \<Rightarrow> nat \<Rightarrow> nat \<Rightarrow> auth \<Rightarrow> auth \<times> unit result" where
  "revoke_token now who tid st = (case find (\<lambda>t. at_id t = tid \<and> at_user_id t = who) (a_tokens st) of
     None \<Rightarrow> (st, Inl (not_found ''Token''))
   | Some _ \<Rightarrow> (st\<lparr>a_tokens := map (\<lambda>t. if at_id t = tid then t\<lparr>at_revoked_at := Some now\<rparr> else t) (a_tokens st)\<rparr>, Inr ()))"

definition list_tokens :: "auth \<Rightarrow> nat \<Rightarrow> api_token list" where
  "list_tokens st who = rev (sort_key at_id (filter (\<lambda>t. at_user_id t = who) (a_tokens st)))"

definition usable_token :: "int \<Rightarrow> api_token \<Rightarrow> bool" where
  "usable_token now t \<longleftrightarrow> at_revoked_at t = None
     \<and> (case at_expires_at t of None \<Rightarrow> True | Some e \<Rightarrow> e > now)"

definition resolve_api_token :: "'k crypto \<Rightarrow> int \<Rightarrow> string \<Rightarrow> auth \<Rightarrow> auth \<times> api_token option" where
  "resolve_api_token cr now bearer st =
     (if \<not> prefix api_token_prefix bearer then (st, None)
      else case find (\<lambda>t. at_token_hash t = sha256_hex cr bearer \<and> usable_token now t) (a_tokens st) of
        None \<Rightarrow> (st, None)
      | Some t \<Rightarrow>
          if (case at_last_used_at t of None \<Rightarrow> True | Some l \<Rightarrow> now - l > 60000)
          then let t' = t\<lparr>at_last_used_at := Some now\<rparr> in
            (st\<lparr>a_tokens := map (\<lambda>r. if at_id r = at_id t then t' else r) (a_tokens st)\<rparr>, Some t')
          else (st, Some t))"

section \<open>Request guards\<close>

record request_context =
  rq_method :: string
  rq_path :: string
  rq_authorization :: "string option"
  rq_cookie :: "string option"
  rq_client_header :: "string option"

record caller =
  cl_user :: "user_row option"
  cl_session :: "session_row option"
  cl_api_token :: bool

definition anonymous :: caller where
  "anonymous = \<lparr>cl_user = None, cl_session = None, cl_api_token = False\<rparr>"

definition cookie_caller :: "'k crypto \<Rightarrow> int \<Rightarrow> request_context \<Rightarrow> auth \<Rightarrow> auth \<times> caller" where
  "cookie_caller cr now rq st = (case truthy (rq_cookie rq) of
     None \<Rightarrow> (st, anonymous)
   | Some sid \<Rightarrow> (case resolve_session cr now sid st of
       (st', None) \<Rightarrow> (st', anonymous)
     | (st', Some (s, u)) \<Rightarrow> (st', \<lparr>cl_user = Some u, cl_session = Some s, cl_api_token = False\<rparr>)))"

definition bearer_caller :: "'k crypto \<Rightarrow> int \<Rightarrow> string \<Rightarrow> auth \<Rightarrow> auth \<times> caller" where
  "bearer_caller cr now bearer st = (case resolve_api_token cr now bearer st of
     (st', None) \<Rightarrow> (st', anonymous)
   | (st', Some t) \<Rightarrow> (st', case find_user st' (at_user_id t) of
       None \<Rightarrow> anonymous
     | Some u \<Rightarrow> if u_disabled u then anonymous
         else \<lparr>cl_user = Some u, cl_session = None, cl_api_token = True\<rparr>))"

definition session_middleware :: "'k crypto \<Rightarrow> int \<Rightarrow> request_context \<Rightarrow> auth \<Rightarrow> auth \<times> caller" where
  "session_middleware cr now rq st = (case rq_authorization rq of
     None \<Rightarrow> cookie_caller cr now rq st
   | Some h \<Rightarrow> if prefix (''Bearer '' @ api_token_prefix) h then bearer_caller cr now (drop 7 h) st
       else cookie_caller cr now rq st)"

fun role_rank :: "role \<Rightarrow> nat" where
  "role_rank Plain_User = 0"
| "role_rank Admin = 1"

definition role_at_least :: "role \<Rightarrow> role \<Rightarrow> bool" where
  "role_at_least r mn \<longleftrightarrow> role_rank r \<ge> role_rank mn"

definition current_user :: "caller \<Rightarrow> user_row result" where
  "current_user cl = (case cl_user cl of None \<Rightarrow> Inl (unauthorized ''Authentication required'') | Some u \<Rightarrow> Inr u)"

definition require_auth :: "caller \<Rightarrow> unit result" where
  "require_auth cl = guard (cl_user cl \<noteq> None) (unauthorized ''Authentication required'')"

definition role_text :: "role \<Rightarrow> string" where
  "role_text r = (case r of Admin \<Rightarrow> ''admin'' | Plain_User \<Rightarrow> ''user'')"

definition require_role :: "role \<Rightarrow> caller \<Rightarrow> unit result" where
  "require_role mn cl = then_do (current_user cl) (\<lambda>u.
     guard (role_at_least (u_role u) mn) (forbidden (''Requires '' @ role_text mn @ '' role'')))"

definition safe_methods :: "string list" where
  "safe_methods = [''GET'', ''HEAD'', ''OPTIONS'']"

definition csrf_guard :: "string list \<Rightarrow> request_context \<Rightarrow> caller \<Rightarrow> unit result" where
  "csrf_guard exempt rq cl =
     (if rq_method rq \<notin> set safe_methods \<and> \<not> cl_api_token cl
          \<and> \<not> list_ex (\<lambda>p. prefix p (rq_path rq)) exempt \<and> rq_client_header rq \<noteq> Some ''web''
      then Inl (forbidden ''Missing X-Gsm-Client header'') else Inr ())"

section \<open>Sessions and tokens that count\<close>

lemma resolve_session_Some:
  assumes "resolve_session cr now token st = (st', Some (s', u))"
  shows "\<exists>s. s \<in> set (a_sessions st) \<and> se_id s = session_hmac cr token \<and> now < se_expires_at s
    \<and> find_user st (se_user_id s) = Some u \<and> \<not> u_disabled u \<and> s' = touch_session now s \<and> token \<noteq> []"
proof (cases "find (\<lambda>s. se_id s = session_hmac cr token \<and> se_expires_at s > now) (a_sessions st)")
  case None
  with assms show ?thesis by (simp add: resolve_session_def split: if_splits)
next
  case (Some s)
  with assms have "find_user st (se_user_id s) = Some u \<and> \<not> u_disabled u \<and> s' = touch_session now s \<and> token \<noteq> []"
    by (simp add: resolve_session_def Let_def split: if_splits option.splits)
  with find_SomeD [OF Some] show ?thesis by blast
qed

lemma resolve_session_users: "a_users (fst (resolve_session cr now token st)) = a_users st"
  by (simp add: resolve_session_def Let_def split: option.split)

lemma resolve_token_Some:
  assumes "resolve_api_token cr now bearer st = (st', Some t')"
  shows "\<exists>t. t \<in> set (a_tokens st) \<and> at_token_hash t = sha256_hex cr bearer \<and> usable_token now t
    \<and> at_user_id t' = at_user_id t \<and> prefix api_token_prefix bearer"
proof (cases "find (\<lambda>t. at_token_hash t = sha256_hex cr bearer \<and> usable_token now t) (a_tokens st)")
  case None
  with assms show ?thesis by (simp add: resolve_api_token_def split: if_splits)
next
  case (Some t)
  with assms have "at_user_id t' = at_user_id t \<and> prefix api_token_prefix bearer"
    by (auto simp: resolve_api_token_def Let_def split: if_splits)
  with find_SomeD [OF Some] show ?thesis by blast
qed

lemma resolve_token_users: "a_users (fst (resolve_api_token cr now bearer st)) = a_users st"
  by (simp add: resolve_api_token_def Let_def split: option.split)

lemma find_user_cong: "a_users st = a_users st' \<Longrightarrow> find_user st = find_user st'"
  by (simp add: find_user_def fun_eq_iff)

lemma touch_session_simps [simp]: "se_user_id (touch_session now s) = se_user_id s" "se_id (touch_session now s) = se_id s"
  by (simp_all add: touch_session_def)

lemma end_sessions_mem: "s \<in> set (a_sessions (end_sessions who keep st)) \<longleftrightarrow> s \<in> set (a_sessions st)
    \<and> (se_user_id s \<noteq> who \<or> truthy keep = Some (se_id s))"
  by (auto simp: end_sessions_def split: option.splits)

end
