(* ===== verification/Two_Factor.thy ===== *)
theory Two_Factor
  imports Accounts
begin

text \<open>
  Second sign-in factors (server/src/modules/auth/two-factor.ts): challenges and their email codes,
  authenticator codes, recovery codes, and turning factors on and off. Random codes and ids are
  arguments; \<open>mail_ok\<close> is whether the mail server took the message. What a user row is asked is the
  stored row, so two operations on one user are one after the other.
\<close>

section \<open>Codes\<close>

definition code_ttl_ms :: int where "code_ttl_ms = 600000"
definition max_attempts :: nat where "max_attempts = 5"
definition max_sends :: nat where "max_sends = 3"
definition resend_interval_ms :: int where "resend_interval_ms = 30000"
definition recovery_code_count :: nat where "recovery_code_count = 10"

text \<open>Rejection sampling over a stream of random 32-bit numbers; \<open>None\<close> is a stream that ends too soon.\<close>

definition code_limit :: "nat \<Rightarrow> nat" where
  "code_limit digits = 4294967296 div 10 ^ digits * 10 ^ digits"

definition generate_code :: "nat \<Rightarrow> nat list \<Rightarrow> string option" where
  "generate_code digits draws = map_option (\<lambda>n. pad_start digits (digits_of (n mod 10 ^ digits)))
     (find (\<lambda>n. n < code_limit digits) draws)"

definition normalize_code :: "string \<Rightarrow> string" where
  "normalize_code = filter (\<lambda>c. \<not> is_space c \<and> c \<noteq> CHR ''-'')"

definition code_hash :: "'k crypto \<Rightarrow> string \<Rightarrow> string \<Rightarrow> string" where
  "code_hash cr cid entered = sha256_hex cr (cid @ '':'' @ entered)"

definition mask_email :: "string \<Rightarrow> string" where
  "mask_email email =
     (let local = takeWhile (\<lambda>c. c \<noteq> CHR ''@'') email in
      if CHR ''@'' \<notin> set email \<or> local = [] then ''***''
      else let shown = take (if length local \<le> 2 then 1 else 2) local in
        shown @ replicate (max 3 (length local - length shown)) (CHR ''*'') @ ''@''
          @ drop (length local + 1) email)"

definition recovery_alphabet :: string where
  "recovery_alphabet = ''abcdefghjkmnpqrstuvwxyz23456789''"

definition generate_recovery_code :: "nat list \<Rightarrow> string option" where
  "generate_recovery_code bytes =
     (let chars = take 12 (map (\<lambda>b. recovery_alphabet ! (b mod 31)) (filter (\<lambda>b. b < 248) bytes)) in
      if length chars < 12 then None
      else Some (join ''-'' [take 4 chars, take 4 (drop 4 chars), take 4 (drop 8 chars)]))"

definition normalize_recovery_code :: "string \<Rightarrow> string" where
  "normalize_recovery_code s = normalize_code (js_lower s)"

definition recovery_code_hash :: "'k crypto \<Rightarrow> nat \<Rightarrow> string \<Rightarrow> string" where
  "recovery_code_hash cr who entered =
     sha256_hex cr (''recovery:'' @ user_key who @ '':'' @ normalize_recovery_code entered)"

definition six_digits :: "string \<Rightarrow> bool" where
  "six_digits s \<longleftrightarrow> length s = 6 \<and> list_all is_digit s"

definition guess_factor :: "two_factor_method list \<Rightarrow> string \<Rightarrow> second_factor" where
  "guess_factor methods entered =
     (if \<not> six_digits (normalize_code entered) then Recovery_Factor
      else if Totp_Method \<in> set methods then Totp_Factor else Email_Factor)"

text \<open>\<open>Boolean(smtp.host && smtp.from)\<close>.\<close>

definition is_available :: "string \<Rightarrow> string \<Rightarrow> bool" where
  "is_available host from_addr \<longleftrightarrow> host \<noteq> [] \<and> from_addr \<noteq> []"

section \<open>Challenges\<close>

definition save_challenge :: "challenge \<Rightarrow> auth \<Rightarrow> auth" where
  "save_challenge ch st = st\<lparr>a_challenges := map (\<lambda>c. if ch_id c = ch_id ch then ch else c) (a_challenges st)\<rparr>"

definition destroy_challenge :: "string \<Rightarrow> auth \<Rightarrow> auth" where
  "destroy_challenge cid st = st\<lparr>a_challenges := filter (\<lambda>c. ch_id c \<noteq> cid) (a_challenges st)\<rparr>"

definition destroy_challenges_of :: "nat \<Rightarrow> auth \<Rightarrow> auth" where
  "destroy_challenges_of who st = st\<lparr>a_challenges := filter (\<lambda>c. ch_user_id c \<noteq> who) (a_challenges st)\<rparr>"

definition send_failed :: string where
  "send_failed = ''Could not send the verification email. Check the SMTP settings or ask an administrator.''"

definition send_email_code :: "'k crypto \<Rightarrow> int \<Rightarrow> string \<Rightarrow> bool \<Rightarrow> challenge \<Rightarrow> user_row \<Rightarrow> auth \<Rightarrow>
    auth \<times> challenge \<times> string option" where
  "send_email_code cr now fresh mail_ok ch u st =
     (let ch1 = ch\<lparr>ch_code_hash := Some (code_hash cr (ch_id ch) fresh), ch_sends := ch_sends ch + 1\<rparr>;
          st1 = save_challenge ch1 st in
      if \<not> mail_ok then (st1, ch1, Some send_failed)
      else let ch2 = ch1\<lparr>ch_last_sent_at := Some now\<rparr> in
        ((save_challenge ch2 st1)\<lparr>a_mails := a_mails st1 @ [Code_Mail (u_email u) (ch_purpose ch) fresh]\<rparr>, ch2, None))"

record challenge_dto =
  cd_challenge_id :: string
  cd_methods :: "two_factor_method list"
  cd_sent_to :: "string option"
  cd_email_error :: "string option"
  cd_expires_in_seconds :: int

text \<open>\<open>Math.round(ms / 1000)\<close>.\<close>

definition round_seconds :: "int \<Rightarrow> int" where
  "round_seconds ms = (ms + 500) div 1000"

definition to_dto :: "int \<Rightarrow> challenge \<Rightarrow> user_row \<Rightarrow> string option \<Rightarrow> challenge_dto" where
  "to_dto now ch u err = \<lparr>cd_challenge_id = ch_id ch,
     cd_methods = (if ch_purpose ch = Login_Purpose then two_factor_methods u else [Email_Method]),
     cd_sent_to = (if ch_last_sent_at ch \<noteq> None then Some (mask_email (u_email u)) else None),
     cd_email_error = err, cd_expires_in_seconds = max 0 (round_seconds (ch_expires_at ch - now))\<rparr>"

definition new_challenge :: "int \<Rightarrow> string \<Rightarrow> nat \<Rightarrow> purpose \<Rightarrow> session_meta \<Rightarrow> auth \<Rightarrow> auth \<times> challenge" where
  "new_challenge now cid who p meta st =
     (let ch = \<lparr>ch_id = cid, ch_user_id = who, ch_purpose = p, ch_code_hash = None, ch_attempts = 0, ch_sends = 0,
            ch_last_sent_at = None, ch_expires_at = now + code_ttl_ms, ch_ip = sm_ip meta,
            ch_user_agent = map_option (take 512) (sm_user_agent meta)\<rparr> in
      (st\<lparr>a_challenges := filter (\<lambda>c. \<not> (ch_user_id c = who \<and> ch_purpose c = p)) (a_challenges st) @ [ch]\<rparr>, ch))"

definition load_challenge :: "int \<Rightarrow> string \<Rightarrow> purpose \<Rightarrow> auth \<Rightarrow> (challenge \<times> user_row) option" where
  "load_challenge now cid p st =
     (if cid = [] \<or> length cid > 64 then None
      else case find (\<lambda>c. ch_id c = cid \<and> ch_purpose c = p \<and> ch_expires_at c > now) (a_challenges st) of
        None \<Rightarrow> None
      | Some ch \<Rightarrow> (case find_user st (ch_user_id ch) of
          None \<Rightarrow> None
        | Some u \<Rightarrow> if u_disabled u then None else Some (ch, u)))"

definition invalid_code :: http_error where
  "invalid_code = unauthorized ''Invalid or expired code''"

definition failures_wait :: "int \<Rightarrow> nat \<Rightarrow> auth \<Rightarrow> int" where
  "failures_wait now who st = retry_after 10 (a_failures st) now (user_key who)"

definition assert_not_blocked :: "int \<Rightarrow> user_row \<Rightarrow> auth \<Rightarrow> unit result" where
  "assert_not_blocked now u st =
     (let wait = failures_wait now (u_id u) st in
      guard (wait = 0) (too_many_requests (''Too many wrong codes; try again in ''
        @ string_of_int (- ((- wait) div 60)) @ '' min'')))"

definition count_failure :: "int \<Rightarrow> nat \<Rightarrow> auth \<Rightarrow> auth" where
  "count_failure now who st = st\<lparr>a_failures := fst (check 3600000 10 (a_failures st) now (user_key who))\<rparr>"

definition reject_code :: "int \<Rightarrow> challenge \<Rightarrow> user_row \<Rightarrow> auth \<Rightarrow> auth \<times> http_error" where
  "reject_code now ch u st =
     (let ch1 = ch\<lparr>ch_attempts := ch_attempts ch + 1\<rparr>;
          exhausted = ch_attempts ch1 \<ge> max_attempts;
          st1 = (if exhausted then destroy_challenge (ch_id ch) st else save_challenge ch1 st) in
      (add_audit None ''auth.2fa_failed'' (Some (u_id u)) (count_failure now (u_id u) st1),
       if exhausted then unauthorized ''Too many wrong codes; start again'' else invalid_code))"

definition email_code_matches :: "'k crypto \<Rightarrow> challenge \<Rightarrow> string \<Rightarrow> bool" where
  "email_code_matches cr ch entered = (case truthy (ch_code_hash ch) of
     None \<Rightarrow> False
   | Some h \<Rightarrow> timing_safe_equal h (code_hash cr (ch_id ch) (normalize_code entered)))"

section \<open>Authenticator and recovery codes\<close>

definition totp_context :: "nat \<Rightarrow> string" where
  "totp_context who = ''totp:'' @ user_key who"

definition totp_secret_of :: "'k crypto \<Rightarrow> user_row \<Rightarrow> 'k option" where
  "totp_secret_of cr u = (case truthy (u_totp_secret u) of
     None \<Rightarrow> None | Some sealed \<Rightarrow> open_secret cr sealed (totp_context (u_id u)))"

text \<open>\<open>UPDATE ... WHERE totp_last_step IS NULL OR totp_last_step < step\<close>, and whether it hit a row.\<close>

definition claim_step :: "nat \<Rightarrow> int \<Rightarrow> auth \<Rightarrow> auth \<times> bool" where
  "claim_step who step st = (case find_user st who of
     None \<Rightarrow> (st, False)
   | Some u \<Rightarrow>
       if (case u_totp_last_step u of None \<Rightarrow> True | Some l \<Rightarrow> l < step)
       then (save_user (u\<lparr>u_totp_last_step := Some step\<rparr>) st, True) else (st, False))"

definition totp_matches :: "'k crypto \<Rightarrow> int \<Rightarrow> user_row \<Rightarrow> string \<Rightarrow> auth \<Rightarrow> auth \<times> bool" where
  "totp_matches cr now u entered st =
     (if u_totp_enabled_at u = None then (st, False)
      else case totp_secret_of cr u of
        None \<Rightarrow> (st, False)
      | Some secret \<Rightarrow> (case match_step (hmac_sha1 cr) secret (normalize_code entered) now of
          None \<Rightarrow> (st, False)
        | Some step \<Rightarrow> claim_step (u_id u) step st))"

definition unused_codes :: "auth \<Rightarrow> nat \<Rightarrow> recovery_code list" where
  "unused_codes st who = filter (\<lambda>r. rc_user_id r = who \<and> rc_used_at r = None) (a_recovery st)"

definition recovery_codes_remaining :: "auth \<Rightarrow> nat \<Rightarrow> nat" where
  "recovery_codes_remaining st who = length (unused_codes st who)"

definition destroy_recovery_of :: "nat \<Rightarrow> auth \<Rightarrow> auth" where
  "destroy_recovery_of who st = st\<lparr>a_recovery := filter (\<lambda>r. rc_user_id r \<noteq> who) (a_recovery st)\<rparr>"

text \<open>\<open>fresh\<close> are the ten codes \<open>generateRecoveryCode\<close> gave.\<close>

definition issue_recovery_codes :: "'k crypto \<Rightarrow> string list \<Rightarrow> nat \<Rightarrow> auth \<Rightarrow> auth \<times> string list" where
  "issue_recovery_codes cr fresh who st =
     (let st1 = destroy_recovery_of who st;
          rows = map (\<lambda>(i, entered). \<lparr>rc_id = i, rc_user_id = who, rc_code_hash = recovery_code_hash cr who entered,
            rc_used_at = None\<rparr>) (zip [a_next_id st ..< a_next_id st + length fresh] fresh) in
      (st1\<lparr>a_recovery := a_recovery st1 @ rows, a_next_id := a_next_id st + length fresh\<rparr>, fresh))"

definition recovery_codes_if_none :: "'k crypto \<Rightarrow> string list \<Rightarrow> nat \<Rightarrow> auth \<Rightarrow> auth \<times> string list option" where
  "recovery_codes_if_none cr fresh who st =
     (if recovery_codes_remaining st who > 0 then (st, None)
      else let (st1, cs) = issue_recovery_codes cr fresh who st in (st1, Some cs))"

definition recovery_shape :: "string \<Rightarrow> bool" where
  "recovery_shape s \<longleftrightarrow> length s = 12 \<and> list_all (\<lambda>c. is_lower c \<or> is_digit c) s"

definition use_recovery_code :: "'k crypto \<Rightarrow> int \<Rightarrow> nat \<Rightarrow> string \<Rightarrow> auth \<Rightarrow> auth \<times> bool" where
  "use_recovery_code cr now who entered st =
     (if \<not> recovery_shape (normalize_recovery_code entered) then (st, False)
      else case find (\<lambda>r. rc_user_id r = who \<and> rc_code_hash r = recovery_code_hash cr who entered \<and> rc_used_at r = None)
          (a_recovery st) of
        None \<Rightarrow> (st, False)
      | Some row \<Rightarrow>
          (add_audit (Some who) ''auth.recovery_code_used'' (Some who)
            (st\<lparr>a_recovery := map (\<lambda>r. if rc_id r = rc_id row \<and> rc_used_at r = None
               then r\<lparr>rc_used_at := Some now\<rparr> else r) (a_recovery st)\<rparr>), True))"

section \<open>Signing in\<close>

definition start_login :: "'k crypto \<Rightarrow> int \<Rightarrow> string \<Rightarrow> string \<Rightarrow> bool \<Rightarrow> user_row \<Rightarrow> session_meta \<Rightarrow> auth \<Rightarrow>
    auth \<times> challenge_dto" where
  "start_login cr now cid fresh mail_ok u meta st =
     (let (st1, ch) = new_challenge now cid (u_id u) Login_Purpose meta st in
      case two_factor_methods u of
        Email_Method # _ \<Rightarrow>
          let (st2, ch2, err) = send_email_code cr now fresh mail_ok ch u st1 in (st2, to_dto now ch2 u err)
      | _ \<Rightarrow> (st1, to_dto now ch u None))"

definition factor_matches :: "'k crypto \<Rightarrow> int \<Rightarrow> second_factor \<Rightarrow> challenge \<Rightarrow> user_row \<Rightarrow> string \<Rightarrow> auth \<Rightarrow> auth \<times> bool" where
  "factor_matches cr now f ch u entered st = (case f of
     Totp_Factor \<Rightarrow> totp_matches cr now u entered st
   | Email_Factor \<Rightarrow> (st, u_two_factor_email u \<and> email_code_matches cr ch entered)
   | Recovery_Factor \<Rightarrow> use_recovery_code cr now (u_id u) entered st)"

text \<open>\<open>method ?? guessFactor(user.twoFactorMethods, code)\<close>.\<close>

definition chosen_factor :: "user_row \<Rightarrow> string \<Rightarrow> second_factor option \<Rightarrow> second_factor" where
  "chosen_factor u entered method =
     (case method of Some m \<Rightarrow> m | None \<Rightarrow> guess_factor (two_factor_methods u) entered)"

definition verify_login :: "'k crypto \<Rightarrow> int \<Rightarrow> string \<Rightarrow> string \<Rightarrow> second_factor option \<Rightarrow> auth \<Rightarrow>
    auth \<times> (nat \<times> second_factor) result" where
  "verify_login cr now cid entered method st = (case load_challenge now cid Login_Purpose st of
     None \<Rightarrow> (st, Inl invalid_code)
   | Some (ch, u) \<Rightarrow> (case assert_not_blocked now u st of
       Inl e \<Rightarrow> (st, Inl e)
     | Inr _ \<Rightarrow>
         (let f = chosen_factor u entered method;
              (st1, ok) = factor_matches cr now f ch u entered st in
          if \<not> ok then (let (st2, e) = reject_code now ch u st1 in (st2, Inl e))
          else (destroy_challenge (ch_id ch) st1, Inr (u_id u, f)))))"

text \<open>Sends so far and time since the last delivered one; never sent is infinitely long ago.\<close>

definition may_resend :: "int \<Rightarrow> purpose \<Rightarrow> challenge \<Rightarrow> user_row \<Rightarrow> unit result" where
  "may_resend now p ch u =
     then_do (guard (\<not> (p = Login_Purpose \<and> \<not> u_two_factor_email u))
       (bad_request ''Email codes are not turned on for this account''))
     (\<lambda>_. then_do (guard (ch_sends ch < max_sends) (bad_request ''Code was sent too many times; start again''))
     (\<lambda>_. case ch_last_sent_at ch of
        None \<Rightarrow> Inr ()
      | Some l \<Rightarrow> guard (\<not> now - l < resend_interval_ms) (too_many_requests (''Wait ''
          @ string_of_int (ceil_seconds (resend_interval_ms - (now - l))) @ ''s before requesting another code''))))"

definition two_factor_unavailable :: "string \<Rightarrow> http_error" where
  "two_factor_unavailable m = HttpError 503 ''two_factor_unavailable'' m []"

definition resend :: "'k crypto \<Rightarrow> int \<Rightarrow> string \<Rightarrow> purpose \<Rightarrow> string \<Rightarrow> bool \<Rightarrow> auth \<Rightarrow> auth \<times> challenge_dto result" where
  "resend cr now cid p fresh mail_ok st = (case load_challenge now cid p st of
     None \<Rightarrow> (st, Inl invalid_code)
   | Some (ch, u) \<Rightarrow> (case may_resend now p ch u of
       Inl e \<Rightarrow> (st, Inl e)
     | Inr _ \<Rightarrow> (case send_email_code cr now fresh mail_ok ch u st of
         (st1, _, Some err) \<Rightarrow> (st1, Inl (two_factor_unavailable err))
       | (st1, ch1, None) \<Rightarrow> (st1, Inr (to_dto now ch1 u None)))))"

section \<open>Managing factors\<close>

definition require_password :: "'k crypto \<Rightarrow> user_row \<Rightarrow> string \<Rightarrow> unit result" where
  "require_password cr u password =
     guard (verify_hash cr password (u_password_hash u)) (unauthorized ''Password is incorrect'')"

record two_factor_status =
  tfs_methods :: "two_factor_method list"
  tfs_totp_enabled_at :: "int option"
  tfs_recovery_codes_remaining :: nat

definition factor_status :: "auth \<Rightarrow> user_row \<Rightarrow> two_factor_status" where
  "factor_status st u = \<lparr>tfs_methods = two_factor_methods u, tfs_totp_enabled_at = u_totp_enabled_at u,
     tfs_recovery_codes_remaining = (if has_two_factor u then recovery_codes_remaining st (u_id u) else 0)\<rparr>"

definition start_email :: "'k crypto \<Rightarrow> int \<Rightarrow> string \<Rightarrow> string \<Rightarrow> bool \<Rightarrow> bool \<Rightarrow> user_row \<Rightarrow> session_meta \<Rightarrow> auth \<Rightarrow>
    auth \<times> challenge_dto result" where
  "start_email cr now cid fresh smtp_on mail_ok u meta st =
     (if u_two_factor_email u then (st, Inl (bad_request ''Email codes are already turned on''))
      else if \<not> smtp_on
      then (st, Inl (bad_request ''Email codes need SMTP to be configured (Settings > General)''))
      else let (st1, ch) = new_challenge now cid (u_id u) Enable_Purpose meta st in
        (case send_email_code cr now fresh mail_ok ch u st1 of
           (st2, _, Some err) \<Rightarrow> (destroy_challenge (ch_id ch) st2, Inl (two_factor_unavailable err))
         | (st2, ch2, None) \<Rightarrow> (st2, Inr (to_dto now ch2 u None))))"

definition confirm_email :: "'k crypto \<Rightarrow> int \<Rightarrow> string list \<Rightarrow> user_row \<Rightarrow> string \<Rightarrow> string \<Rightarrow> auth \<Rightarrow>
    auth \<times> string list option result" where
  "confirm_email cr now fresh u cid entered st = (case load_challenge now cid Enable_Purpose st of
     None \<Rightarrow> (st, Inl invalid_code)
   | Some (ch, _) \<Rightarrow>
       if ch_user_id ch \<noteq> u_id u then (st, Inl invalid_code)
       else (case assert_not_blocked now u st of
         Inl e \<Rightarrow> (st, Inl e)
       | Inr _ \<Rightarrow>
           if \<not> email_code_matches cr ch entered
           then (let (st1, e) = reject_code now ch u st in (st1, Inl e))
           else let st1 = add_audit (Some (u_id u)) ''auth.2fa_enabled'' (Some (u_id u))
                  (save_user (u\<lparr>u_two_factor_email := True\<rparr>) (destroy_challenge (ch_id ch) st));
                (st2, cs) = recovery_codes_if_none cr fresh (u_id u) st1 in (st2, Inr cs)))"

definition start_totp :: "'k crypto \<Rightarrow> 'k \<Rightarrow> user_row \<Rightarrow> string \<Rightarrow> auth \<Rightarrow> auth \<times> 'k result" where
  "start_totp cr secret u password st = (case require_password cr u password of
     Inl e \<Rightarrow> (st, Inl e)
   | Inr _ \<Rightarrow>
       if u_totp_enabled_at u \<noteq> None
       then (st, Inl (bad_request ''An authenticator app is already set up; remove it first''))
       else (save_user (u\<lparr>u_totp_secret := Some (seal_secret cr secret (totp_context (u_id u))),
         u_totp_last_step := None\<rparr>) st, Inr secret))"

definition no_match :: string where
  "no_match = ''That code doesn't match. Make sure your phone sets its clock automatically, then enter the newest code.''"

definition confirm_totp :: "'k crypto \<Rightarrow> int \<Rightarrow> string list \<Rightarrow> user_row \<Rightarrow> string \<Rightarrow> auth \<Rightarrow> auth \<times> string list option result" where
  "confirm_totp cr now fresh u entered st =
     (if u_totp_enabled_at u \<noteq> None then (st, Inl (bad_request ''An authenticator app is already set up''))
      else case totp_secret_of cr u of
        None \<Rightarrow> (st, Inl (bad_request ''Start the authenticator setup again''))
      | Some secret \<Rightarrow> (case match_step (hmac_sha1 cr) secret (normalize_code entered) now of
          None \<Rightarrow> (st, Inl (unauthorized no_match))
        | Some step \<Rightarrow>
            let st1 = add_audit (Some (u_id u)) ''auth.2fa_enabled'' (Some (u_id u))
                  (save_user (u\<lparr>u_totp_enabled_at := Some now, u_totp_last_step := Some step\<rparr>) st);
                (st2, cs) = recovery_codes_if_none cr fresh (u_id u) st1 in (st2, Inr cs)))"

definition without_factor :: "two_factor_method \<Rightarrow> user_row \<Rightarrow> user_row" where
  "without_factor m u = (case m of
     Totp_Method \<Rightarrow> u\<lparr>u_totp_secret := None, u_totp_enabled_at := None, u_totp_last_step := None\<rparr>
   | Email_Method \<Rightarrow> u\<lparr>u_two_factor_email := False\<rparr>)"

definition disable_factor :: "'k crypto \<Rightarrow> user_row \<Rightarrow> two_factor_method \<Rightarrow> string \<Rightarrow> auth \<Rightarrow> auth \<times> unit result" where
  "disable_factor cr u m password st = (case require_password cr u password of
     Inl e \<Rightarrow> (st, Inl e)
   | Inr _ \<Rightarrow>
       if m \<notin> set (two_factor_methods u) then (st, Inr ())
       else let u1 = without_factor m u;
            st1 = destroy_challenges_of (u_id u) (save_user u1 st);
            st2 = (if \<not> has_two_factor u1 then destroy_recovery_of (u_id u) st1 else st1) in
         (add_audit (Some (u_id u)) ''auth.2fa_disabled'' (Some (u_id u)) st2, Inr ()))"

definition regenerate_recovery_codes :: "'k crypto \<Rightarrow> string list \<Rightarrow> user_row \<Rightarrow> string \<Rightarrow> auth \<Rightarrow> auth \<times> string list result" where
  "regenerate_recovery_codes cr fresh u password st = (case require_password cr u password of
     Inl e \<Rightarrow> (st, Inl e)
   | Inr _ \<Rightarrow>
       if \<not> has_two_factor u then (st, Inl (bad_request ''Turn on a second factor first''))
       else let (st1, cs) = issue_recovery_codes cr fresh (u_id u) st in
         (add_audit (Some (u_id u)) ''auth.recovery_codes_generated'' (Some (u_id u)) st1, Inr cs))"

definition factorless :: "user_row \<Rightarrow> user_row" where
  "factorless u = u\<lparr>u_two_factor_email := False, u_totp_secret := None, u_totp_enabled_at := None, u_totp_last_step := None\<rparr>"

definition admin_reset :: "user_row \<Rightarrow> auth \<Rightarrow> auth" where
  "admin_reset u st =
     (let st1 = end_sessions (u_id u) None (destroy_recovery_of (u_id u) (destroy_challenges_of (u_id u)
            (save_user (factorless u) st))) in
      st1\<lparr>a_failures := reset_key (a_failures st1) (user_key (u_id u))\<rparr>)"

definition purge_expired_challenges :: "int \<Rightarrow> auth \<Rightarrow> auth" where
  "purge_expired_challenges now st = st\<lparr>a_challenges := filter (\<lambda>c. \<not> ch_expires_at c < now) (a_challenges st)\<rparr>"

section \<open>What each operation leaves alone\<close>

lemma challenge_frame [simp]:
  "a_users (save_challenge ch st) = a_users st" "a_users (destroy_challenge c st) = a_users st"
  "a_users (destroy_challenges_of who st) = a_users st" "a_users (count_failure now who st) = a_users st"
  "a_users (destroy_recovery_of who st) = a_users st"
  "find_user (save_challenge ch st) = find_user st" "find_user (destroy_challenge c st) = find_user st"
  "find_user (destroy_challenges_of who st) = find_user st" "find_user (count_failure now who st) = find_user st"
  "find_user (destroy_recovery_of who st) = find_user st"
  "a_recovery (save_challenge ch st) = a_recovery st" "a_recovery (destroy_challenge c st) = a_recovery st"
  "a_recovery (destroy_challenges_of who st) = a_recovery st" "a_recovery (count_failure now who st) = a_recovery st"
  "a_failures (save_challenge ch st) = a_failures st" "a_failures (destroy_challenge c st) = a_failures st"
  "a_failures (destroy_challenges_of who st) = a_failures st"
  "a_challenges (count_failure now who st) = a_challenges st" "a_challenges (destroy_recovery_of who st) = a_challenges st"
  "a_sessions (save_challenge ch st) = a_sessions st" "a_sessions (destroy_challenge c st) = a_sessions st"
  "a_sessions (count_failure now who st) = a_sessions st"
  by (simp_all add: save_challenge_def destroy_challenge_def destroy_challenges_of_def count_failure_def
    destroy_recovery_of_def find_user_def fun_eq_iff)

lemma claim_frame [simp]:
  "a_challenges (fst (claim_step who step st)) = a_challenges st" "a_failures (fst (claim_step who step st)) = a_failures st"
  "a_recovery (fst (claim_step who step st)) = a_recovery st" "a_sessions (fst (claim_step who step st)) = a_sessions st"
  by (simp_all add: claim_step_def split: option.split)

lemma totp_frame [simp]:
  "a_challenges (fst (totp_matches cr now u e st)) = a_challenges st" "a_failures (fst (totp_matches cr now u e st)) = a_failures st"
  "a_recovery (fst (totp_matches cr now u e st)) = a_recovery st" "a_sessions (fst (totp_matches cr now u e st)) = a_sessions st"
  by (simp_all add: totp_matches_def split: option.split)

lemma use_recovery_frame [simp]:
  "a_challenges (fst (use_recovery_code cr now who e st)) = a_challenges st"
  "a_failures (fst (use_recovery_code cr now who e st)) = a_failures st"
  "a_users (fst (use_recovery_code cr now who e st)) = a_users st"
  "a_sessions (fst (use_recovery_code cr now who e st)) = a_sessions st"
  by (simp_all add: use_recovery_code_def split: option.split)

lemma factor_frame [simp]:
  "a_challenges (fst (factor_matches cr now f ch u e st)) = a_challenges st"
  "a_failures (fst (factor_matches cr now f ch u e st)) = a_failures st"
  "a_sessions (fst (factor_matches cr now f ch u e st)) = a_sessions st"
  by (simp_all add: factor_matches_def split: second_factor.split)

lemma load_challengeD:
  assumes "load_challenge now cid p st = Some (ch, u)"
  shows "ch \<in> set (a_challenges st)" and "ch_id ch = cid" and "ch_purpose ch = p" and "now < ch_expires_at ch"
    and "find_user st (ch_user_id ch) = Some u" and "\<not> u_disabled u" and "u_id u = ch_user_id ch"
proof -
  obtain c where c: "find (\<lambda>c. ch_id c = cid \<and> ch_purpose c = p \<and> ch_expires_at c > now) (a_challenges st) = Some c"
      "find_user st (ch_user_id c) = Some u" "\<not> u_disabled u" "c = ch"
    using assms by (auto simp: load_challenge_def split: if_splits option.splits)
  show "ch \<in> set (a_challenges st)" and "ch_id ch = cid" and "ch_purpose ch = p" and "now < ch_expires_at ch"
    using find_SomeD [OF c(1)] c(4) by simp_all
  show "find_user st (ch_user_id ch) = Some u" and "\<not> u_disabled u" and "u_id u = ch_user_id ch"
    using c find_user_id by simp_all
qed

section \<open>Signing in\<close>

text \<open>The user whose code was looked at and found wrong.\<close>

definition wrong_code :: "'k crypto \<Rightarrow> int \<Rightarrow> string \<Rightarrow> string \<Rightarrow> second_factor option \<Rightarrow> auth \<Rightarrow> nat option" where
  "wrong_code cr now cid entered method st = (case load_challenge now cid Login_Purpose st of
     None \<Rightarrow> None
   | Some (ch, u) \<Rightarrow>
       if failures_wait now (u_id u) st = 0
         \<and> \<not> snd (factor_matches cr now (chosen_factor u entered method) ch u entered st)
       then Some (u_id u) else None)"

lemma blocked_iff: "assert_not_blocked now u st = Inr x \<longleftrightarrow> failures_wait now (u_id u) st = 0"
  by (simp add: assert_not_blocked_def Let_def)

lemma verify_login_Inr:
  assumes "verify_login cr now cid e m st = (st', Inr (who, f))"
  shows "\<exists>ch u st1. load_challenge now cid Login_Purpose st = Some (ch, u) \<and> failures_wait now (u_id u) st = 0
    \<and> who = u_id u \<and> f = chosen_factor u e m \<and> factor_matches cr now f ch u e st = (st1, True)
    \<and> st' = destroy_challenge cid st1"
proof (cases "load_challenge now cid Login_Purpose st")
  case (Some cu)
  obtain ch u where cu: "cu = (ch, u)" by (cases cu)
  from assms Some cu blocked_iff [of now u st] load_challengeD(2) [of now cid Login_Purpose st ch u] show ?thesis
    by (cases "assert_not_blocked now u st")
      (auto simp: verify_login_def Let_def split_def prod_eq_iff split: if_splits)
qed (use assms in \<open>simp add: verify_login_def\<close>)

lemma verify_login_wrong:
  assumes "wrong_code cr now cid e m st = Some who"
  shows "\<exists>ch u st1 err. load_challenge now cid Login_Purpose st = Some (ch, u) \<and> failures_wait now who st = 0
    \<and> who = u_id u \<and> factor_matches cr now (chosen_factor u e m) ch u e st = (st1, False)
    \<and> verify_login cr now cid e m st = (fst (reject_code now ch u st1), Inl err)"
proof (cases "load_challenge now cid Login_Purpose st")
  case (Some cu)
  obtain ch u where cu: "cu = (ch, u)" by (cases cu)
  from assms Some cu have who: "who = u_id u" "failures_wait now (u_id u) st = 0"
      "\<not> snd (factor_matches cr now (chosen_factor u e m) ch u e st)"
    by (auto simp: wrong_code_def split: if_splits)
  obtain st1 where st1: "factor_matches cr now (chosen_factor u e m) ch u e st = (st1, False)"
    using who(3) by (metis (full_types) prod.collapse)
  have "assert_not_blocked now u st = Inr ()" using blocked_iff who(2) by blast
  with Some cu st1 have "verify_login cr now cid e m st = (fst (reject_code now ch u st1), Inl (snd (reject_code now ch u st1)))"
    by (simp add: verify_login_def Let_def split_def)
  with Some cu who st1 show ?thesis by blast
qed (use assms in \<open>simp add: wrong_code_def\<close>)

text \<open>Any other answer changes nothing.\<close>

lemma verify_login_neither:
  assumes "wrong_code cr now cid e m st = None" and "verify_login cr now cid e m st = (st', Inl err)"
  shows "st' = st"
proof (cases "load_challenge now cid Login_Purpose st")
  case (Some cu)
  obtain ch u where cu: "cu = (ch, u)" by (cases cu)
  from assms Some cu blocked_iff [of now u st] show ?thesis
    by (cases "assert_not_blocked now u st")
      (auto simp: verify_login_def wrong_code_def Let_def split_def split: if_splits)
qed (use assms in \<open>simp add: verify_login_def\<close>)

section \<open>Runs of sign-in attempts\<close>

type_synonym attempt = "int \<times> string \<times> string \<times> second_factor option"

definition last_step :: "auth \<Rightarrow> nat \<Rightarrow> int option" where
  "last_step st who = (case find_user st who of None \<Rightarrow> None | Some u \<Rightarrow> u_totp_last_step u)"

definition attempt_once :: "'k crypto \<Rightarrow> auth \<Rightarrow> attempt \<Rightarrow> auth \<times> (nat \<times> second_factor) result" where
  "attempt_once cr st a = (case a of (now, cid, entered, m) \<Rightarrow> verify_login cr now cid entered m st)"

text \<open>The attempts that succeeded, with the challenge, user, factor and last accepted step; and the wrong
  codes, with when, whose and on which challenge.\<close>

fun logins_of :: "'k crypto \<Rightarrow> auth \<Rightarrow> attempt list \<Rightarrow> (string \<times> nat \<times> second_factor \<times> int option) list" where
  "logins_of cr st [] = []"
| "logins_of cr st ((now, cid, entered, m) # as) =
     (case verify_login cr now cid entered m st of
        (st', Inr (who, f)) \<Rightarrow> (cid, who, f, last_step st' who) # logins_of cr st' as
      | (st', Inl _) \<Rightarrow> logins_of cr st' as)"

fun wrong_codes_of :: "'k crypto \<Rightarrow> auth \<Rightarrow> attempt list \<Rightarrow> (int \<times> nat \<times> string) list" where
  "wrong_codes_of cr st [] = []"
| "wrong_codes_of cr st ((now, cid, entered, m) # as) =
     (case wrong_code cr now cid entered m st of None \<Rightarrow> [] | Some who \<Rightarrow> [(now, who, cid)])
     @ wrong_codes_of cr (fst (verify_login cr now cid entered m st)) as"

subsection \<open>Steps and recovery codes are used up\<close>

definition newer :: "int option \<Rightarrow> int \<Rightarrow> bool" where
  "newer l s \<longleftrightarrow> (case l of None \<Rightarrow> True | Some x \<Rightarrow> x < s)"

definition not_before :: "int option \<Rightarrow> int option \<Rightarrow> bool" where
  "not_before a b \<longleftrightarrow> (case b of None \<Rightarrow> a = None | Some y \<Rightarrow> (case a of None \<Rightarrow> True | Some x \<Rightarrow> x \<le> y))"

lemma not_before_refl [simp]: "not_before a a"
  by (simp add: not_before_def split: option.split)

lemma newer_not_before: "not_before a b \<Longrightarrow> newer b s \<Longrightarrow> newer a s"
  by (auto simp: newer_def not_before_def split: option.splits)

lemma last_step_frame [simp]:
  "last_step (destroy_challenge c st) = last_step st" "last_step (save_challenge ch st) = last_step st"
  "last_step (count_failure now who st) = last_step st" "last_step (add_audit a x t st) = last_step st"
  by (simp_all add: last_step_def fun_eq_iff)

lemma last_step_recovery [simp]: "last_step (fst (use_recovery_code cr now who e st)) = last_step st"
  by (simp only: last_step_def fun_eq_iff find_user_cong [OF use_recovery_frame(3)] simp_thms)

lemma claim_step_last:
  "claim_step who s st = (st', ok) \<Longrightarrow> not_before (last_step st w) (last_step st' w)
     \<and> (ok \<longrightarrow> last_step st' who = Some s \<and> newer (last_step st who) s)"
  by (auto simp: claim_step_def last_step_def newer_def not_before_def find_user_id split: option.splits if_splits)

lemma totp_matches_last:
  assumes "totp_matches cr now u e st = (st', ok)"
  shows "not_before (last_step st w) (last_step st' w)
    \<and> (ok \<longrightarrow> (\<exists>s. last_step st' (u_id u) = Some s \<and> newer (last_step st (u_id u)) s))"
  using assms claim_step_last
  by (simp add: totp_matches_def split: if_splits option.splits)

lemma factor_matches_last:
  assumes "factor_matches cr now f ch u e st = (st', ok)"
  shows "not_before (last_step st w) (last_step st' w)
    \<and> (ok \<and> f = Totp_Factor \<longrightarrow> (\<exists>s. last_step st' (u_id u) = Some s \<and> newer (last_step st (u_id u)) s))"
proof (cases f)
  case Totp_Factor
  with assms have "totp_matches cr now u e st = (st', ok)" by (simp add: factor_matches_def)
  from totp_matches_last [OF this, of w] show ?thesis by blast
next
  case Email_Factor
  with assms show ?thesis by (simp add: factor_matches_def)
next
  case Recovery_Factor
  with assms have "st' = fst (use_recovery_code cr now (u_id u) e st)" by (simp add: factor_matches_def)
  with Recovery_Factor show ?thesis by simp
qed

lemma reject_frame:
  "last_step (fst (reject_code now ch u st)) = last_step st"
  "a_recovery (fst (reject_code now ch u st)) = a_recovery st"
  "a_sessions (fst (reject_code now ch u st)) = a_sessions st"
  by (simp_all add: reject_code_def Let_def)

lemma unused_after_use:
  assumes "use_recovery_code cr now who e st = (st', ok)"
  shows "length (unused_codes st' w) \<le> length (unused_codes st w)
    \<and> (ok \<longrightarrow> length (unused_codes st' who) < length (unused_codes st who))"
proof (cases ok)
  case False
  with assms have "st' = st" by (auto simp: use_recovery_code_def split: if_splits option.splits)
  with False show ?thesis by simp
next
  case True
  with assms obtain row where row: "find (\<lambda>r. rc_user_id r = who \<and> rc_code_hash r = recovery_code_hash cr who e
      \<and> rc_used_at r = None) (a_recovery st) = Some row"
    and st': "a_recovery st' = map (\<lambda>r. if rc_id r = rc_id row \<and> rc_used_at r = None
      then r\<lparr>rc_used_at := Some now\<rparr> else r) (a_recovery st)"
    by (auto simp: use_recovery_code_def add_audit_def split: if_splits option.splits)
  have filtered: "unused_codes st' w = filter (\<lambda>r. rc_id r \<noteq> rc_id row) (unused_codes st w)" for w
  proof -
    have "filter (\<lambda>r. rc_user_id r = w \<and> rc_used_at r = None)
        (map (\<lambda>r. if rc_id r = rc_id row \<and> rc_used_at r = None then r\<lparr>rc_used_at := Some now\<rparr> else r) rs)
      = filter (\<lambda>r. rc_id r \<noteq> rc_id row) (filter (\<lambda>r. rc_user_id r = w \<and> rc_used_at r = None) rs)" for rs
      by (induction rs) auto
    then show ?thesis unfolding unused_codes_def st' .
  qed
  have "row \<in> set (unused_codes st who)" using find_SomeD [OF row] by (simp add: unused_codes_def)
  then have "length (unused_codes st' who) < length (unused_codes st who)"
    unfolding filtered by (intro length_filter_less) auto
  then show ?thesis unfolding filtered by simp
qed

lemma unused_cong: "a_recovery st' = a_recovery st \<Longrightarrow> unused_codes st' = unused_codes st"
  by (simp add: unused_codes_def fun_eq_iff)

lemma factor_matches_unused:
  assumes "factor_matches cr now f ch u e st = (st', ok)"
  shows "length (unused_codes st' w) \<le> length (unused_codes st w)
    \<and> (ok \<and> f = Recovery_Factor \<longrightarrow> length (unused_codes st' (u_id u)) < length (unused_codes st (u_id u)))"
proof (cases f)
  case Totp_Factor
  with assms have "st' = fst (totp_matches cr now u e st)" by (simp add: factor_matches_def)
  then have "unused_codes st' = unused_codes st" by (intro unused_cong) simp
  with Totp_Factor show ?thesis by simp
next
  case Email_Factor
  with assms show ?thesis by (simp add: factor_matches_def)
next
  case Recovery_Factor
  with assms have "use_recovery_code cr now (u_id u) e st = (st', ok)" by (simp add: factor_matches_def)
  from unused_after_use [OF this, of w] Recovery_Factor show ?thesis by simp
qed

lemma verify_login_used:
  assumes "verify_login cr now cid e m st = (st', r)"
  shows "not_before (last_step st w) (last_step st' w) \<and> length (unused_codes st' w) \<le> length (unused_codes st w)
    \<and> ch_id ` set (a_challenges st') \<subseteq> ch_id ` set (a_challenges st)"
proof (cases r)
  case (Inr a)
  obtain who f where a: "a = (who, f)" by (cases a)
  from verify_login_Inr [OF assms [unfolded Inr a]] obtain ch u st1 where v:
    "factor_matches cr now f ch u e st = (st1, True)" "st' = destroy_challenge cid st1" by blast
  have "a_challenges st1 = a_challenges st" by (metis v(1) factor_frame(1) fst_conv)
  then have "ch_id ` set (a_challenges st') \<subseteq> ch_id ` set (a_challenges st)"
    by (auto simp: v(2) destroy_challenge_def)
  moreover have "unused_codes st' = unused_codes st1" by (rule unused_cong) (simp add: v(2))
  ultimately show ?thesis
    using factor_matches_last [OF v(1), of w] factor_matches_unused [OF v(1), of w] by (simp add: v(2))
next
  case (Inl err)
  show ?thesis
  proof (cases "wrong_code cr now cid e m st")
    case None
    from verify_login_neither [OF None assms [unfolded Inl]] show ?thesis by simp
  next
    case (Some who)
    from verify_login_wrong [OF Some] obtain ch u st1 err' where v:
      "factor_matches cr now (chosen_factor u e m) ch u e st = (st1, False)"
      "verify_login cr now cid e m st = (fst (reject_code now ch u st1), Inl err')" by blast
    have st': "st' = fst (reject_code now ch u st1)" using assms v(2) by simp
    have "a_challenges st1 = a_challenges st" by (metis v(1) factor_frame(1) fst_conv)
    then have "ch_id ` set (a_challenges st') \<subseteq> ch_id ` set (a_challenges st)"
      by (auto simp: st' reject_code_def Let_def destroy_challenge_def save_challenge_def) (metis image_eqI)
    moreover have "unused_codes st' = unused_codes st1" by (rule unused_cong) (simp add: st' reject_frame)
    ultimately show ?thesis
      using factor_matches_last [OF v(1), of w] factor_matches_unused [OF v(1), of w] by (simp add: st' reject_frame)
  qed
qed

lemma login_uses:
  assumes "verify_login cr now cid e m st = (st', Inr (who, f))"
  shows "cid \<in> ch_id ` set (a_challenges st) \<and> cid \<notin> ch_id ` set (a_challenges st')
    \<and> (f = Totp_Factor \<longrightarrow> (\<exists>s. last_step st' who = Some s \<and> newer (last_step st who) s))
    \<and> (f = Recovery_Factor \<longrightarrow> length (unused_codes st' who) < length (unused_codes st who))"
proof -
  from verify_login_Inr [OF assms] obtain ch u st1 where v:
    "load_challenge now cid Login_Purpose st = Some (ch, u)" "who = u_id u"
    "factor_matches cr now f ch u e st = (st1, True)" "st' = destroy_challenge cid st1" by blast
  have "unused_codes st' = unused_codes st1" by (rule unused_cong) (simp add: v(4))
  moreover have "last_step st' = last_step st1" by (simp add: v(4))
  moreover have "cid \<notin> ch_id ` set (a_challenges st')" by (auto simp: v(4) destroy_challenge_def)
  moreover have "cid \<in> ch_id ` set (a_challenges st)" using load_challengeD(1,2) [OF v(1)] by blast
  ultimately show ?thesis
    using factor_matches_last [OF v(3), of who] factor_matches_unused [OF v(3), of who] v(2) by simp
qed

text \<open>The accepted steps and recovery codes of a user in a run.\<close>

definition steps_of :: "nat \<Rightarrow> (string \<times> nat \<times> second_factor \<times> int option) list \<Rightarrow> int option list" where
  "steps_of who ls = map (\<lambda>(_, _, _, s). s) (filter (\<lambda>(_, w, f, _). w = who \<and> f = Totp_Factor) ls)"

definition recovery_logins :: "nat \<Rightarrow> (string \<times> nat \<times> second_factor \<times> int option) list \<Rightarrow> nat" where
  "recovery_logins who ls = length (filter (\<lambda>(_, w, f, _). w = who \<and> f = Recovery_Factor) ls)"

definition step_before :: "int option \<Rightarrow> int option \<Rightarrow> bool" where
  "step_before a b \<longleftrightarrow> (\<exists>y. b = Some y \<and> newer a y)"

lemma step_before_weaken:
  assumes "list_all (step_before b) xs" and "not_before a b"
  shows "list_all (step_before a) xs"
  using assms newer_not_before [OF assms(2)] by (auto simp: list_all_iff step_before_def)

lemma logins_of_run:
  "set (map fst (logins_of cr st as)) \<subseteq> ch_id ` set (a_challenges st) \<and> distinct (map fst (logins_of cr st as))
    \<and> list_all (step_before (last_step st who)) (steps_of who (logins_of cr st as))
    \<and> sorted_wrt step_before (steps_of who (logins_of cr st as))
    \<and> recovery_logins who (logins_of cr st as) \<le> length (unused_codes st who)"
proof (induction cr st as rule: logins_of.induct)
  case (2 cr st now cid e m as)
  obtain st' r where v: "verify_login cr now cid e m st = (st', r)" by (cases "verify_login cr now cid e m st")
  note used = verify_login_used [OF v, of who]
  show ?case
  proof (cases r)
    case (Inl err)
    have ls: "logins_of cr st ((now, cid, e, m) # as) = logins_of cr st' as" by (simp add: v Inl)
    note IH = 2(1) [OF v [symmetric] Inl]
    have "list_all (step_before (last_step st who)) (steps_of who (logins_of cr st' as))"
      using step_before_weaken IH used by blast
    with IH used show ?thesis unfolding ls by (meson order_trans)
  next
    case (Inr a)
    obtain w f where a: "a = (w, f)" by (cases a)
    note IH = 2(2) [OF v [symmetric] Inr a [symmetric]]
    note login = login_uses [OF v [unfolded Inr a]]
    let ?ls = "logins_of cr st' as"
    have ls: "logins_of cr st ((now, cid, e, m) # as) = (cid, w, f, last_step st' w) # ?ls" by (simp add: v Inr a)
    have rest: "list_all (step_before (last_step st who)) (steps_of who ?ls)"
      using step_before_weaken IH used by blast
    have ids: "set (map fst (logins_of cr st ((now, cid, e, m) # as))) \<subseteq> ch_id ` set (a_challenges st)
        \<and> distinct (map fst (logins_of cr st ((now, cid, e, m) # as)))"
      using IH used login unfolding ls by auto
    show ?thesis
    proof (cases "w = who \<and> f = Totp_Factor")
      case True
      then have "steps_of who (logins_of cr st ((now, cid, e, m) # as)) = last_step st' who # steps_of who ?ls"
        and "recovery_logins who (logins_of cr st ((now, cid, e, m) # as)) = recovery_logins who ?ls"
        unfolding ls by (simp_all add: steps_of_def recovery_logins_def)
      moreover have "step_before (last_step st who) (last_step st' who)"
        using True login by (auto simp: step_before_def)
      moreover have "list_all (step_before (last_step st' who)) (steps_of who ?ls)" using IH by blast
      moreover have "recovery_logins who ?ls \<le> length (unused_codes st who)" using IH used by linarith
      ultimately show ?thesis using IH rest ids by (simp del: logins_of.simps add: list_all_iff)
    next
      case False
      then have "steps_of who (logins_of cr st ((now, cid, e, m) # as)) = steps_of who ?ls"
        unfolding ls by (auto simp: steps_of_def)
      moreover have "recovery_logins who (logins_of cr st ((now, cid, e, m) # as)) \<le> length (unused_codes st who)"
        using IH used login unfolding ls by (auto simp: recovery_logins_def)
      ultimately show ?thesis using IH rest ids by (simp del: logins_of.simps)
    qed
  qed
qed (simp add: steps_of_def recovery_logins_def)

subsection \<open>Wrong codes are few\<close>

lemma wrong_code_counted:
  assumes "wrong_code cr now cid e m st = Some who"
  shows "snd (check_hit 3600000 10 (a_failures st) now (user_key who))
    \<and> a_failures (fst (verify_login cr now cid e m st)) = fst (check_hit 3600000 10 (a_failures st) now (user_key who))"
proof -
  from verify_login_wrong [OF assms] obtain ch u st1 err where v: "failures_wait now who st = 0" "who = u_id u"
    "factor_matches cr now (chosen_factor u e m) ch u e st = (st1, False)"
    "verify_login cr now cid e m st = (fst (reject_code now ch u st1), Inl err)" by blast
  have "a_failures st1 = a_failures st" by (metis v(3) factor_frame(2) fst_conv)
  then have "a_failures (fst (verify_login cr now cid e m st)) = fst (check 3600000 10 (a_failures st) now (user_key who))"
    unfolding v(2,4) by (simp add: reject_code_def Let_def count_failure_def)
  moreover have "0 < room_left 10 (a_failures st) now (user_key who)"
    using v(1) by (simp add: failures_wait_def retry_after_room)
  ultimately show ?thesis
    by (simp add: user_failures.check_ok) (simp add: check_hit_def split_def Let_def)
qed

lemma login_keeps_failures:
  assumes "wrong_code cr now cid e m st = None"
  shows "a_failures (fst (verify_login cr now cid e m st)) = a_failures st"
proof (cases "verify_login cr now cid e m st")
  case (Pair st' r)
  show ?thesis
  proof (cases r)
    case (Inl err)
    with verify_login_neither [OF assms Pair [unfolded Inl]] Pair show ?thesis by simp
  next
    case (Inr a)
    obtain who f where a: "a = (who, f)" by (cases a)
    from verify_login_Inr [OF Pair [unfolded Inr a]] obtain ch u st1 where
      "factor_matches cr now f ch u e st = (st1, True)" "st' = destroy_challenge cid st1" by blast
    with Pair show ?thesis by simp (metis factor_frame(2) fst_conv)
  qed
qed

definition failure_hits :: "(int \<times> nat \<times> string) list \<Rightarrow> (int \<times> string) list" where
  "failure_hits ws = map (\<lambda>(t, who, _). (t, user_key who)) ws"

text \<open>Every wrong code of a run was within the user's limit when it was counted.\<close>

lemma wrong_codes_allowed:
  "snd (hits_of (check_hit 3600000 10) (a_failures st) (failure_hits (wrong_codes_of cr st as)))
    = failure_hits (wrong_codes_of cr st as)"
proof (induction cr st as rule: wrong_codes_of.induct)
  case (2 cr st now cid e m as)
  show ?case
  proof (cases "wrong_code cr now cid e m st")
    case None
    with 2 login_keeps_failures [OF None] show ?thesis by simp
  next
    case (Some who)
    with 2 wrong_code_counted [OF Some] show ?thesis
      by (auto simp: failure_hits_def split_def Let_def prod_eq_iff)
  qed
qed (simp add: failure_hits_def)

lemma wrong_codes_times: "fst ` set (wrong_codes_of cr st as) \<subseteq> fst ` set as"
  by (induction cr st as rule: wrong_codes_of.induct) (auto split: option.split)

lemma wrong_codes_sorted: "sorted (map fst as) \<Longrightarrow> sorted (map fst (wrong_codes_of cr st as))"
proof (induction cr st as rule: wrong_codes_of.induct)
  case (2 cr st now cid e m as)
  have "\<forall>w\<in>set (wrong_codes_of cr (fst (verify_login cr now cid e m st)) as). now \<le> fst w"
    using wrong_codes_times [of cr "fst (verify_login cr now cid e m st)" as] 2(2) by fastforce
  with 2 show ?case by (simp split: option.split)
qed simp

text \<open>What is left of a challenge's five attempts.\<close>

definition attempts_left :: "auth \<Rightarrow> string \<Rightarrow> nat" where
  "attempts_left st cid = (case find (\<lambda>c. ch_id c = cid) (a_challenges st) of
     None \<Rightarrow> 0 | Some c \<Rightarrow> max 1 (max_attempts - ch_attempts c))"

lemma find_distinct: "distinct (map ch_id cs) \<Longrightarrow> ch \<in> set cs \<Longrightarrow> find (\<lambda>c. ch_id c = ch_id ch) cs = Some ch"
  by (induction cs) auto

lemma find_destroyed: "find (\<lambda>c. ch_id c = cid) (filter (\<lambda>c. ch_id c \<noteq> d) cs)
    = (if cid = d then None else find (\<lambda>c. ch_id c = cid) cs)"
  by (induction cs) auto

lemma find_saved: "find (\<lambda>c. ch_id c = cid) (map (\<lambda>c. if ch_id c = ch_id ch then ch else c) cs)
    = (if cid = ch_id ch then map_option (\<lambda>_. ch) (find (\<lambda>c. ch_id c = cid) cs) else find (\<lambda>c. ch_id c = cid) cs)"
  by (induction cs) auto

lemma saved_ids: "map ch_id (a_challenges (save_challenge ch st)) = map ch_id (a_challenges st)"
  by (simp add: save_challenge_def)

lemma reject_challenges: "a_challenges (fst (reject_code now ch u st)) =
    (if ch_attempts ch + 1 \<ge> max_attempts then filter (\<lambda>c. ch_id c \<noteq> ch_id ch) (a_challenges st)
     else map (\<lambda>c. if ch_id c = ch_id ch then ch\<lparr>ch_attempts := ch_attempts ch + 1\<rparr> else c) (a_challenges st))"
  by (simp add: reject_code_def Let_def destroy_challenge_def save_challenge_def)

lemma verify_login_challenges:
  "a_challenges (fst (verify_login cr now cid e m st)) =
     (case wrong_code cr now cid e m st of
        Some who \<Rightarrow> a_challenges (fst (reject_code now (fst (the (load_challenge now cid Login_Purpose st)))
          (snd (the (load_challenge now cid Login_Purpose st))) st))
      | None \<Rightarrow> if isl (snd (verify_login cr now cid e m st)) then a_challenges st
          else filter (\<lambda>c. ch_id c \<noteq> cid) (a_challenges st))"
proof (cases "wrong_code cr now cid e m st")
  case (Some who)
  from verify_login_wrong [OF Some] obtain ch u st1 err where v: "load_challenge now cid Login_Purpose st = Some (ch, u)"
    "factor_matches cr now (chosen_factor u e m) ch u e st = (st1, False)"
    "verify_login cr now cid e m st = (fst (reject_code now ch u st1), Inl err)" by blast
  have "a_challenges st1 = a_challenges st" by (metis v(2) factor_frame(1) fst_conv)
  with Some v show ?thesis by (simp add: reject_challenges)
next
  case None
  obtain st' r where v: "verify_login cr now cid e m st = (st', r)" by (cases "verify_login cr now cid e m st")
  show ?thesis
  proof (cases r)
    case (Inl err)
    with verify_login_neither [OF None v [unfolded Inl]] v None show ?thesis by simp
  next
    case (Inr a)
    obtain who f where a: "a = (who, f)" by (cases a)
    from verify_login_Inr [OF v [unfolded Inr a]] obtain ch u st1 where
      w: "factor_matches cr now f ch u e st = (st1, True)" "st' = destroy_challenge cid st1" by blast
    have "a_challenges st1 = a_challenges st" by (metis w(1) factor_frame(1) fst_conv)
    with v w Inr None show ?thesis by (simp add: destroy_challenge_def)
  qed
qed

lemma wrong_per_challenge:
  "distinct (map ch_id (a_challenges st)) \<Longrightarrow>
    length (filter (\<lambda>(_, _, c). c = cid) (wrong_codes_of cr st as)) \<le> attempts_left st cid"
proof (induction cr st as rule: wrong_codes_of.induct)
  case (2 cr st now d e m as)
  let ?st = "fst (verify_login cr now d e m st)"
  show ?case
  proof (cases "wrong_code cr now d e m st")
    case None
    have ch: "a_challenges ?st = a_challenges st \<or> a_challenges ?st = filter (\<lambda>c. ch_id c \<noteq> d) (a_challenges st)"
      unfolding verify_login_challenges None by simp
    then have "distinct (map ch_id (a_challenges ?st))" using 2(2) by (auto simp: distinct_map_filter)
    note IH = 2(1) [OF this]
    have "attempts_left ?st cid \<le> attempts_left st cid"
      using ch by (auto simp: attempts_left_def find_destroyed)
    with IH None show ?thesis by simp
  next
    case (Some who)
    from verify_login_wrong [OF Some] obtain ch u where load: "load_challenge now d Login_Purpose st = Some (ch, u)" by blast
    have ch: "a_challenges ?st = a_challenges (fst (reject_code now ch u st))"
      unfolding verify_login_challenges Some by (simp add: load)
    have d: "ch_id ch = d" "ch \<in> set (a_challenges st)" using load_challengeD [OF load] by simp_all
    have found: "find (\<lambda>c. ch_id c = d) (a_challenges st) = Some ch"
      using find_distinct [OF 2(2) d(2)] d(1) by simp
    have "distinct (map ch_id (a_challenges ?st))"
      using 2(2) unfolding ch reject_challenges by (simp add: distinct_map_filter comp_def if_distrib [of ch_id] cong: if_cong)
    note IH = 2(1) [OF this]
    have "attempts_left ?st cid + (if d = cid then 1 else 0) \<le> attempts_left st cid"
      using found d(1) find_saved [of cid "ch\<lparr>ch_attempts := ch_attempts ch + 1\<rparr>" "a_challenges st"]
      by (auto simp: attempts_left_def ch reject_challenges find_destroyed max_attempts_def)
    with IH Some show ?thesis by auto
  qed
qed (simp add: attempts_left_def)

end
