(* ===== verification/Factor_Rules.thy ===== *)
theory Factor_Rules
  imports Two_Factor
begin

text \<open>
  The rules the second-factor operations keep, as an invariant over their runs, and the properties of
  signing in with a second factor.
\<close>

section \<open>Steps\<close>

text \<open>The operations two-factor.ts offers, on the user's stored row; a new challenge has an id no other has.\<close>

inductive factor_step :: "'k crypto \<Rightarrow> auth \<Rightarrow> auth \<Rightarrow> bool" for cr where
  fs_start_login: "find_user st who = Some u \<Longrightarrow> cid \<notin> ch_id ` set (a_challenges st) \<Longrightarrow>
    factor_step cr st (fst (start_login cr now cid fresh mail_ok u meta st))"
| fs_verify: "factor_step cr st (fst (verify_login cr now cid entered m st))"
| fs_resend: "factor_step cr st (fst (resend cr now cid p fresh mail_ok st))"
| fs_start_email: "find_user st who = Some u \<Longrightarrow> cid \<notin> ch_id ` set (a_challenges st) \<Longrightarrow>
    factor_step cr st (fst (start_email cr now cid fresh smtp_on mail_ok u meta st))"
| fs_confirm_email: "find_user st who = Some u \<Longrightarrow>
    factor_step cr st (fst (confirm_email cr now codes u cid entered st))"
| fs_start_totp: "find_user st who = Some u \<Longrightarrow> factor_step cr st (fst (start_totp cr secret u password st))"
| fs_confirm_totp: "find_user st who = Some u \<Longrightarrow>
    factor_step cr st (fst (confirm_totp cr now codes u entered st))"
| fs_disable: "find_user st who = Some u \<Longrightarrow> factor_step cr st (fst (disable_factor cr u method password st))"
| fs_regenerate: "find_user st who = Some u \<Longrightarrow>
    factor_step cr st (fst (regenerate_recovery_codes cr codes u password st))"
| fs_admin_reset: "find_user st who = Some u \<Longrightarrow> factor_step cr st (admin_reset u st)"
| fs_purge: "factor_step cr st (purge_expired_challenges now st)"

inductive factor_reaches :: "'k crypto \<Rightarrow> auth \<Rightarrow> auth \<Rightarrow> bool" for cr st where
  fr_refl: "factor_reaches cr st st"
| fr_step: "factor_reaches cr st st' \<Longrightarrow> factor_step cr st' st'' \<Longrightarrow> factor_reaches cr st st''"

section \<open>Rules\<close>

text \<open>Only users with a factor have recovery codes; an authenticator that is on has its seed and ids are unique; a challenge
  has fewer than five wrong codes and at most three mails, and a user at most one of each purpose.\<close>

definition codes_ok :: "auth \<Rightarrow> bool" where
  "codes_ok st \<longleftrightarrow> (\<forall>u\<in>set (a_users st). has_two_factor u \<or> u_id u \<notin> rc_user_id ` set (a_recovery st))"

definition users_ok :: "auth \<Rightarrow> bool" where
  "users_ok st \<longleftrightarrow> distinct (map u_id (a_users st))
     \<and> (\<forall>u\<in>set (a_users st). u_totp_enabled_at u = None \<or> u_totp_secret u \<noteq> None)"

definition challenges_ok :: "auth \<Rightarrow> bool" where
  "challenges_ok st \<longleftrightarrow> distinct (map ch_id (a_challenges st))
     \<and> distinct (map (\<lambda>c. (ch_user_id c, ch_purpose c)) (a_challenges st))
     \<and> (\<forall>c\<in>set (a_challenges st). ch_attempts c < 5 \<and> ch_sends c \<le> 3)"

definition factor_rules :: "auth \<Rightarrow> bool" where
  "factor_rules st \<longleftrightarrow> codes_ok st \<and> users_ok st \<and> challenges_ok st"

lemma codes_ok_mono: "codes_ok st \<Longrightarrow> a_users st' = a_users st \<Longrightarrow>
    rc_user_id ` set (a_recovery st') \<subseteq> rc_user_id ` set (a_recovery st) \<Longrightarrow> codes_ok st'"
  unfolding codes_ok_def by (metis subsetD)

lemma users_ok_cong: "a_users st' = a_users st \<Longrightarrow> users_ok st' = users_ok st"
  by (simp add: users_ok_def)

lemma challenges_ok_cong: "a_challenges st' = a_challenges st \<Longrightarrow> challenges_ok st' = challenges_ok st"
  by (simp add: challenges_ok_def)

lemma codes_ok_save:
  "codes_ok st \<Longrightarrow> has_two_factor u \<or> u_id u \<notin> rc_user_id ` set (a_recovery st) \<Longrightarrow> codes_ok (save_user u st)"
  unfolding codes_ok_def save_user_def by auto

lemma users_ok_save:
  "users_ok st \<Longrightarrow> u_totp_enabled_at u = None \<or> u_totp_secret u \<noteq> None \<Longrightarrow> users_ok (save_user u st)"
  unfolding users_ok_def save_user_def by (auto simp: comp_def if_distrib [of u_id] cong: if_cong)

lemma codes_ok_issue:
  assumes "codes_ok st" and "\<forall>u\<in>set (a_users st). u_id u = who \<longrightarrow> has_two_factor u"
  shows "codes_ok (fst (issue_recovery_codes cr cs who st))"
  using assms by (auto simp: codes_ok_def issue_recovery_codes_def destroy_recovery_of_def split_def)

lemma codes_ok_if_none:
  assumes "codes_ok st" and "\<forall>u\<in>set (a_users st). u_id u = who \<longrightarrow> has_two_factor u"
  shows "codes_ok (fst (recovery_codes_if_none cr cs who st))"
  using assms codes_ok_issue [OF assms, of cr cs] by (simp add: recovery_codes_if_none_def split_def Let_def)

lemma issue_frame [simp]:
  "a_users (fst (issue_recovery_codes cr cs who st)) = a_users st"
  "a_challenges (fst (issue_recovery_codes cr cs who st)) = a_challenges st"
  "a_users (fst (recovery_codes_if_none cr cs who st)) = a_users st"
  "a_challenges (fst (recovery_codes_if_none cr cs who st)) = a_challenges st"
  by (simp_all add: issue_recovery_codes_def recovery_codes_if_none_def destroy_recovery_of_def split_def Let_def)

lemma saved_user_factor: "has_two_factor u \<Longrightarrow> \<forall>v\<in>set (a_users (save_user u st)). u_id v = u_id u \<longrightarrow> has_two_factor v"
  by (auto simp: save_user_def)

lemma challenges_filter:
  assumes "challenges_ok st" and "a_challenges st' = filter P (a_challenges st)"
  shows "challenges_ok st'"
  using assms by (auto simp: challenges_ok_def distinct_map_filter)

lemma same_id: "distinct (map ch_id cs) \<Longrightarrow> c \<in> set cs \<Longrightarrow> d \<in> set cs \<Longrightarrow> ch_id c = ch_id d \<Longrightarrow> c = d"
  by (auto simp: distinct_map inj_on_def)

lemma challenges_replace:
  assumes ok: "challenges_ok st" and ch: "ch \<in> set (a_challenges st)"
    and same: "ch_id ch' = ch_id ch" "ch_user_id ch' = ch_user_id ch" "ch_purpose ch' = ch_purpose ch"
    and bounds: "ch_attempts ch' < 5" "ch_sends ch' \<le> 3"
    and st': "a_challenges st' = map (\<lambda>c. if ch_id c = ch_id ch then ch' else c) (a_challenges st)"
  shows "challenges_ok st'"
proof -
  have ids: "map ch_id (a_challenges st') = map ch_id (a_challenges st)"
    by (simp add: st' same comp_def)
  have pairs: "map (\<lambda>c. (ch_user_id c, ch_purpose c)) (a_challenges st') = map (\<lambda>c. (ch_user_id c, ch_purpose c)) (a_challenges st)"
  proof -
    have "ch_user_id c = ch_user_id ch \<and> ch_purpose c = ch_purpose ch" if "c \<in> set (a_challenges st)" "ch_id c = ch_id ch" for c
      using same_id [OF _ that(1) ch that(2)] ok by (simp add: challenges_ok_def)
    then show ?thesis by (simp add: st' same)
  qed
  show ?thesis
    using ok bounds unfolding challenges_ok_def ids pairs by (auto simp: st')
qed

lemma challenges_new:
  assumes "challenges_ok st" and "cid \<notin> ch_id ` set (a_challenges st)"
  shows "challenges_ok (fst (new_challenge now cid who p meta st))"
  using assms by (auto simp: challenges_ok_def new_challenge_def Let_def distinct_map_filter)

text \<open>Sending a code changes the challenge only.\<close>

lemma send_frame:
  assumes "send_email_code cr now fresh ok ch u st = (st', ch', err)"
  shows "a_users st' = a_users st" and "a_recovery st' = a_recovery st"
    and "a_challenges st' = map (\<lambda>c. if ch_id c = ch_id ch then ch' else c) (a_challenges st)"
    and "ch_id ch' = ch_id ch" and "ch_user_id ch' = ch_user_id ch" and "ch_purpose ch' = ch_purpose ch"
    and "ch_attempts ch' = ch_attempts ch" and "ch_sends ch' = ch_sends ch + 1"
  using assms by (auto simp: send_email_code_def Let_def save_challenge_def split: if_splits)

lemma send_challenges:
  assumes "send_email_code cr now fresh ok ch u st = (st', ch', err)" and "challenges_ok st"
    and "ch \<in> set (a_challenges st)" and "ch_sends ch < 3"
  shows "challenges_ok st'"
proof (rule challenges_replace [OF assms(2,3)])
  note f = send_frame [OF assms(1)]
  show "ch_id ch' = ch_id ch" "ch_user_id ch' = ch_user_id ch" "ch_purpose ch' = ch_purpose ch"
    "a_challenges st' = map (\<lambda>c. if ch_id c = ch_id ch then ch' else c) (a_challenges st)" by (fact f)+
  show "ch_attempts ch' < 5" "ch_sends ch' \<le> 3" using f assms by (auto simp: challenges_ok_def)
qed

lemma new_challenge_facts:
  "new_challenge now cid who p meta st = (st', ch) \<Longrightarrow> ch \<in> set (a_challenges st') \<and> ch_sends ch = 0
     \<and> a_users st' = a_users st \<and> a_recovery st' = a_recovery st"
  by (auto simp: new_challenge_def Let_def)

section \<open>Each operation keeps them\<close>

lemma rules_users_recovery:
  assumes "factor_rules st" and "a_users st' = a_users st"
    and "rc_user_id ` set (a_recovery st') \<subseteq> rc_user_id ` set (a_recovery st)" and "challenges_ok st'"
  shows "factor_rules st'"
  using assms codes_ok_mono [of st st'] users_ok_cong [of st' st] by (simp add: factor_rules_def)

lemma start_login_rules:
  assumes "factor_rules st" and "cid \<notin> ch_id ` set (a_challenges st)"
  shows "factor_rules (fst (start_login cr now cid fresh ok u meta st))"
proof -
  obtain st1 ch where new: "new_challenge now cid (u_id u) Login_Purpose meta st = (st1, ch)"
    by (cases "new_challenge now cid (u_id u) Login_Purpose meta st")
  obtain st2 ch2 err where send: "send_email_code cr now fresh ok ch u st1 = (st2, ch2, err)"
    by (cases "send_email_code cr now fresh ok ch u st1")
  note n = new_challenge_facts [OF new]
  have "challenges_ok st1" using challenges_new [OF _ assms(2), of now "u_id u" Login_Purpose meta] assms(1) new
    by (simp add: factor_rules_def)
  moreover from send_challenges [OF send this] n have "challenges_ok st2" by simp
  ultimately have "factor_rules st1" "factor_rules st2"
    using rules_users_recovery [OF assms(1)] n send_frame [OF send] by simp_all
  then show ?thesis by (simp add: start_login_def new send split: list.split two_factor_method.split)
qed

lemma factor_match_rules:
  assumes "factor_rules st" and "find_user st (u_id u) = Some u"
  shows "factor_rules (fst (factor_matches cr now f ch u e st))"
proof (cases f)
  case Totp_Factor
  have "factor_rules (fst (claim_step (u_id u) s st))" for s
  proof -
    have u: "u \<in> set (a_users st)" using find_SomeD assms(2) unfolding find_user_def by fast
    have same: "has_two_factor (u\<lparr>u_totp_last_step := x\<rparr>) = has_two_factor u" for x
      by (simp add: has_two_factor_def two_factor_methods_def)
    have "codes_ok (save_user (u\<lparr>u_totp_last_step := Some s\<rparr>) st)"
      using assms(1) u same by (intro codes_ok_save) (auto simp: factor_rules_def codes_ok_def)
    moreover have "users_ok (save_user (u\<lparr>u_totp_last_step := Some s\<rparr>) st)"
      using assms(1) u by (intro users_ok_save) (auto simp: factor_rules_def users_ok_def)
    ultimately show ?thesis
      using assms by (simp add: claim_step_def factor_rules_def challenges_ok_def)
  qed
  with assms(1) Totp_Factor show ?thesis by (simp add: factor_matches_def totp_matches_def split: option.split)
next
  case Recovery_Factor
  have "rc_user_id ` set (a_recovery (fst (use_recovery_code cr now (u_id u) e st))) \<subseteq> rc_user_id ` set (a_recovery st)"
    by (auto simp: use_recovery_code_def add_audit_def split: option.split)
  moreover have "challenges_ok (fst (use_recovery_code cr now (u_id u) e st))"
    using assms(1) by (simp add: factor_rules_def challenges_ok_cong [OF use_recovery_frame(1)])
  ultimately show ?thesis
    using rules_users_recovery [OF assms(1), of "fst (use_recovery_code cr now (u_id u) e st)"] Recovery_Factor
    by (simp add: factor_matches_def)
qed (simp add: factor_matches_def assms(1))

lemma reject_rules:
  assumes "factor_rules st" and "ch \<in> set (a_challenges st)"
  shows "factor_rules (fst (reject_code now ch u st))"
proof (rule rules_users_recovery [OF assms(1)])
  show "a_users (fst (reject_code now ch u st)) = a_users st" by (simp add: reject_code_def Let_def)
  show "rc_user_id ` set (a_recovery (fst (reject_code now ch u st))) \<subseteq> rc_user_id ` set (a_recovery st)"
    by (simp add: reject_frame)
  show "challenges_ok (fst (reject_code now ch u st))"
  proof (cases "ch_attempts ch + 1 \<ge> max_attempts")
    case True
    show ?thesis
      by (rule challenges_filter [of st _ "\<lambda>c. ch_id c \<noteq> ch_id ch"])
        (use True assms in \<open>simp_all add: factor_rules_def reject_challenges\<close>)
  next
    case False
    show ?thesis
      by (rule challenges_replace [of st ch "ch\<lparr>ch_attempts := ch_attempts ch + 1\<rparr>"])
        (use False assms in \<open>auto simp: factor_rules_def reject_challenges max_attempts_def challenges_ok_def\<close>)
  qed
qed

lemma destroy_rules: "factor_rules st \<Longrightarrow> factor_rules (destroy_challenge cid st)"
  by (rule rules_users_recovery)
    (auto simp: factor_rules_def destroy_challenge_def intro: challenges_filter)

lemma verify_rules:
  assumes "factor_rules st"
  shows "factor_rules (fst (verify_login cr now cid e m st))"
proof (cases "load_challenge now cid Login_Purpose st")
  case (Some cu)
  obtain ch u where cu: "cu = (ch, u)" by (cases cu)
  note l = load_challengeD [OF Some [unfolded cu]]
  let ?m = "factor_matches cr now (chosen_factor u e m) ch u e st"
  have "factor_rules (fst ?m)" by (rule factor_match_rules [OF assms]) (use l in simp)
  moreover have "ch \<in> set (a_challenges (fst ?m))" using l by simp
  ultimately have "factor_rules (destroy_challenge (ch_id ch) (fst ?m))" "factor_rules (fst (reject_code now ch u (fst ?m)))"
    using destroy_rules reject_rules by blast+
  with assms Some cu show ?thesis by (simp add: verify_login_def Let_def split_def split: sum.split)
qed (simp add: verify_login_def assms)

lemma resend_rules:
  assumes "factor_rules st"
  shows "factor_rules (fst (resend cr now cid p fresh ok st))"
proof (cases "load_challenge now cid p st")
  case (Some cu)
  obtain ch u where cu: "cu = (ch, u)" by (cases cu)
  note l = load_challengeD [OF Some [unfolded cu]]
  obtain st1 ch1 err where send: "send_email_code cr now fresh ok ch u st = (st1, ch1, err)"
    by (cases "send_email_code cr now fresh ok ch u st")
  have few: "ch_sends ch < 3" if "may_resend now p ch u = Inr x" for x
    using that by (auto simp: may_resend_def max_sends_def result_simps)
  have "factor_rules st1" if "ch_sends ch < 3"
    using rules_users_recovery [OF assms, of st1] send_frame [OF send] send_challenges [OF send _ l(1) that] assms
    by (simp add: factor_rules_def)
  with few assms Some cu send show ?thesis
    by (cases "may_resend now p ch u") (simp_all add: resend_def split: option.split)
qed (simp add: resend_def assms)

lemma start_email_rules:
  assumes "factor_rules st" and "cid \<notin> ch_id ` set (a_challenges st)"
  shows "factor_rules (fst (start_email cr now cid fresh smtp_on ok u meta st))"
proof -
  obtain st1 ch where new: "new_challenge now cid (u_id u) Enable_Purpose meta st = (st1, ch)"
    by (cases "new_challenge now cid (u_id u) Enable_Purpose meta st")
  obtain st2 ch2 err where send: "send_email_code cr now fresh ok ch u st1 = (st2, ch2, err)"
    by (cases "send_email_code cr now fresh ok ch u st1")
  note n = new_challenge_facts [OF new]
  have "challenges_ok st1" using challenges_new [OF _ assms(2), of now "u_id u" Enable_Purpose meta] assms(1) new
    by (simp add: factor_rules_def)
  from send_challenges [OF send this] n have "challenges_ok st2" by simp
  then have "factor_rules st2"
    using rules_users_recovery [OF assms(1)] n send_frame [OF send] by simp
  then show ?thesis
    using assms(1) destroy_rules by (simp add: start_email_def new send split: option.split)
qed

lemma user_in: "find_user st who = Some u \<Longrightarrow> u \<in> set (a_users st)"
  unfolding find_user_def using find_SomeD by fast

text \<open>A factor was turned on, and codes issued if the user had none.\<close>

lemma enabled_rules:
  assumes "factor_rules st" and "has_two_factor u" and "u_totp_enabled_at u = None \<or> u_totp_secret u \<noteq> None"
  shows "factor_rules (fst (recovery_codes_if_none cr cs (u_id u)
    (add_audit a x t (save_user u st))))" (is "factor_rules (fst (recovery_codes_if_none cr cs (u_id u) ?st))")
proof -
  have "codes_ok (save_user u st)" and "users_ok (save_user u st)"
    using assms by (auto simp: factor_rules_def intro!: codes_ok_save users_ok_save)
  then have "codes_ok ?st" and "users_ok ?st"
    by (simp_all add: codes_ok_def users_ok_def)
  moreover have "\<forall>v\<in>set (a_users ?st). u_id v = u_id u \<longrightarrow> has_two_factor v"
    using saved_user_factor [OF assms(2)] by simp
  moreover have "challenges_ok ?st" using assms(1) by (simp add: factor_rules_def challenges_ok_def)
  ultimately show ?thesis
    by (simp add: factor_rules_def codes_ok_if_none users_ok_cong [OF issue_frame(3)]
      challenges_ok_cong [OF issue_frame(4)] del: add_audit_simps(1))
qed

lemma confirm_email_rules:
  assumes "factor_rules st" and "find_user st who = Some u"
  shows "factor_rules (fst (confirm_email cr now cs u cid entered st))"
proof (cases "load_challenge now cid Enable_Purpose st")
  case (Some cv)
  obtain ch v where cv: "cv = (ch, v)" by (cases cv)
  note l = load_challengeD [OF Some [unfolded cv]]
  have "has_two_factor (u\<lparr>u_two_factor_email := True\<rparr>)" by (simp add: has_two_factor_def two_factor_methods_def)
  moreover have "u_totp_enabled_at u = None \<or> u_totp_secret u \<noteq> None"
    using assms user_in [OF assms(2)] by (auto simp: factor_rules_def users_ok_def)
  ultimately have "factor_rules (fst (recovery_codes_if_none cr cs (u_id u)
      (add_audit (Some (u_id u)) ''auth.2fa_enabled'' (Some (u_id u))
        (save_user (u\<lparr>u_two_factor_email := True\<rparr>) (destroy_challenge (ch_id ch) st)))))"
    using enabled_rules [OF destroy_rules [OF assms(1)], of "u\<lparr>u_two_factor_email := True\<rparr>"] by simp
  with assms(1) Some cv reject_rules [OF assms(1) l(1)] show ?thesis
    by (simp add: confirm_email_def Let_def split_def split: sum.split)
qed (simp add: confirm_email_def assms)

lemma start_totp_rules:
  assumes "factor_rules st" and "find_user st who = Some u"
  shows "factor_rules (fst (start_totp cr secret u password st))"
proof -
  let ?u = "u\<lparr>u_totp_secret := Some (seal_secret cr secret (totp_context (u_id u))), u_totp_last_step := None\<rparr>"
  have same: "has_two_factor ?u = has_two_factor u" by (simp add: has_two_factor_def two_factor_methods_def)
  have "codes_ok (save_user ?u st)"
    using assms(1) user_in [OF assms(2)] same by (intro codes_ok_save) (auto simp: factor_rules_def codes_ok_def)
  moreover have "users_ok (save_user ?u st)"
    using assms(1) by (intro users_ok_save) (simp_all add: factor_rules_def)
  ultimately have "factor_rules (save_user ?u st)"
    using assms(1) by (simp add: factor_rules_def challenges_ok_def)
  with assms(1) show ?thesis by (simp add: start_totp_def split: sum.split)
qed

lemma confirm_totp_rules:
  assumes "factor_rules st"
  shows "factor_rules (fst (confirm_totp cr now cs u entered st))"
proof (cases "totp_secret_of cr u")
  case (Some secret)
  then have sealed: "u_totp_secret u \<noteq> None" by (cases "u_totp_secret u") (auto simp: totp_secret_of_def)
  have "factor_rules (fst (recovery_codes_if_none cr cs (u_id u) (add_audit a x t
      (save_user (u\<lparr>u_totp_enabled_at := Some now, u_totp_last_step := Some s\<rparr>) st))))" for a x t s
    using enabled_rules [OF assms, of "u\<lparr>u_totp_enabled_at := Some now, u_totp_last_step := Some s\<rparr>"] sealed
    by (simp add: has_two_factor_def two_factor_methods_def)
  with assms Some show ?thesis
    by (simp add: confirm_totp_def Let_def split_def split: option.split)
qed (simp add: confirm_totp_def assms)

lemma without_factor_id [simp]: "u_id (without_factor m u) = u_id u"
  by (cases m) (simp_all add: without_factor_def)

text \<open>A user saved with or without factors, whose codes and challenges go as the operation says.\<close>

lemma disabled_rules:
  assumes "factor_rules st" and "u_totp_enabled_at v = None \<or> u_totp_secret v \<noteq> None"
    and "a_users st' = a_users (save_user v st)" and "a_challenges st' = filter P (a_challenges st)"
    and "a_recovery st' = filter Q (a_recovery st)"
    and "has_two_factor v \<or> u_id v \<notin> rc_user_id ` set (a_recovery st')"
  shows "factor_rules st'"
proof -
  have "codes_ok st'"
    using assms(1,6) unfolding codes_ok_def factor_rules_def assms(3) by (auto simp: save_user_def assms(5))
  moreover have "users_ok st'"
    using users_ok_save [OF _ assms(2)] assms(1) users_ok_cong [OF assms(3)] by (simp add: factor_rules_def)
  moreover have "challenges_ok st'"
    using challenges_filter [OF _ assms(4)] assms(1) by (simp add: factor_rules_def)
  ultimately show ?thesis by (simp add: factor_rules_def)
qed

lemma disable_rules:
  assumes "factor_rules st" and "find_user st who = Some u"
  shows "factor_rules (fst (disable_factor cr u m password st))"
proof -
  have "u_totp_enabled_at (without_factor m u) = None \<or> u_totp_secret (without_factor m u) \<noteq> None"
    using assms(1) user_in [OF assms(2)] by (cases m) (auto simp: without_factor_def factor_rules_def users_ok_def)
  note rules = disabled_rules [OF assms(1) this, where P = "\<lambda>c. ch_user_id c \<noteq> u_id u"]
  have "factor_rules (add_audit a x t (destroy_challenges_of (u_id u) (save_user (without_factor m u) st)))"
    if "has_two_factor (without_factor m u)" for a x t
    by (rule rules [where Q = "\<lambda>_. True"]) (simp_all add: that destroy_challenges_of_def)
  moreover have "factor_rules (add_audit a x t (destroy_recovery_of (u_id u)
      (destroy_challenges_of (u_id u) (save_user (without_factor m u) st))))" for a x t
    by (rule rules [where Q = "\<lambda>r. rc_user_id r \<noteq> u_id u"]) (auto simp: destroy_challenges_of_def destroy_recovery_of_def)
  ultimately show ?thesis
    using assms(1) by (simp add: disable_factor_def Let_def split: sum.split)
qed

lemma admin_reset_rules:
  assumes "factor_rules st"
  shows "factor_rules (admin_reset u st)"
  by (rule disabled_rules [OF assms, where v = "factorless u" and P = "\<lambda>c. ch_user_id c \<noteq> u_id u"
      and Q = "\<lambda>r. rc_user_id r \<noteq> u_id u"])
    (auto simp: admin_reset_def Let_def factorless_def end_sessions_def destroy_challenges_of_def destroy_recovery_of_def)

lemma regenerate_rules:
  assumes "factor_rules st" and "find_user st who = Some u"
  shows "factor_rules (fst (regenerate_recovery_codes cr cs u password st))"
proof -
  have "\<forall>v\<in>set (a_users st). u_id v = u_id u \<longrightarrow> v = u"
    using assms(1) user_in [OF assms(2)] by (auto simp: factor_rules_def users_ok_def distinct_map inj_on_def)
  then have "codes_ok (fst (issue_recovery_codes cr cs (u_id u) st))" if "has_two_factor u"
    using that assms(1) by (intro codes_ok_issue) (auto simp: factor_rules_def)
  then have "factor_rules (fst (issue_recovery_codes cr cs (u_id u) st))" if "has_two_factor u"
    using that assms(1) by (simp add: factor_rules_def users_ok_cong [OF issue_frame(1)] challenges_ok_cong [OF issue_frame(2)])
  moreover have "factor_rules (add_audit a x t st') = factor_rules st'" for a x t st'
    by (simp add: factor_rules_def codes_ok_def users_ok_def challenges_ok_def)
  ultimately show ?thesis
    using assms(1) by (simp add: regenerate_recovery_codes_def split_def Let_def split: sum.split)
qed

lemma purge_rules: "factor_rules st \<Longrightarrow> factor_rules (purge_expired_challenges now st)"
  by (rule rules_users_recovery)
    (auto simp: factor_rules_def purge_expired_challenges_def intro: challenges_filter)

lemma factor_step_rules: "factor_step cr st st' \<Longrightarrow> factor_rules st \<Longrightarrow> factor_rules st'"
  by (induction rule: factor_step.induct)
    (simp_all add: start_login_rules verify_rules resend_rules start_email_rules confirm_email_rules start_totp_rules
      confirm_totp_rules disable_rules regenerate_rules admin_reset_rules purge_rules)

lemma factor_reaches_rules: "factor_reaches cr st st' \<Longrightarrow> factor_rules st \<Longrightarrow> factor_rules st'"
  by (induction rule: factor_reaches.induct) (simp_all add: factor_step_rules)

section \<open>Codes are uniform\<close>

lemma generated: "n < code_limit d \<Longrightarrow> generate_code d [n] = Some (pad_start d (digits_of (n mod 10 ^ d)))"
  "\<not> n < code_limit d \<Longrightarrow> generate_code d [n] = None"
  by (simp_all add: generate_code_def)

lemma pad_inject: "m < 10 ^ d \<Longrightarrow> n < 10 ^ d \<Longrightarrow> 0 < d \<Longrightarrow>
    pad_start d (digits_of m) = pad_start d (digits_of n) \<longleftrightarrow> m = n"
  by (metis pad_digits(3))

lemma residues: "bij_betw (\<lambda>k. k * b + c) {..<q} {n. n < q * b \<and> n mod b = c}" if "c < b" for b c q :: nat
proof (rule bij_betw_byWitness [where f' = "\<lambda>n. n div b"])
  show "(\<lambda>k. k * b + c) ` {..<q} \<subseteq> {n. n < q * b \<and> n mod b = c}"
  proof
    fix n assume "n \<in> (\<lambda>k. k * b + c) ` {..<q}"
    then obtain k where k: "k < q" "n = k * b + c" by blast
    have "Suc k * b \<le> q * b" using k(1) by (intro mult_le_mono1) simp
    with k that show "n \<in> {n. n < q * b \<and> n mod b = c}" by simp
  qed
qed (use that in \<open>auto simp: div_less_iff_less_mult less_mult_imp_div_less\<close>)

section \<open>Rows for the witnesses\<close>

definition toy_crypto :: "nat crypto" where
  "toy_crypto = \<lparr>verify_hash = (=), sha256_hex = (\<lambda>s. s), session_hmac = (\<lambda>s. s), seal_secret = (\<lambda>_ c. c),
     open_secret = (\<lambda>s c. if s = c then Some 0 else None), hmac_sha1 = (\<lambda>_ _. replicate 20 0)\<rparr>"

definition mail_user :: user_row where
  "mail_user = sample_user\<lparr>u_two_factor_email := True\<rparr>"

definition open_challenge :: challenge where
  "open_challenge = \<lparr>ch_id = ''c'', ch_user_id = 5, ch_purpose = Login_Purpose, ch_code_hash = Some ''c:123456'',
     ch_attempts = 0, ch_sends = 1, ch_last_sent_at = Some 0, ch_expires_at = 600000, ch_ip = None, ch_user_agent = None\<rparr>"

definition sample_auth :: auth where
  "sample_auth = \<lparr>a_users = [mail_user], a_sessions = [], a_challenges = [open_challenge], a_recovery = [], a_resets = [],
     a_tokens = [], a_next_id = 6, a_failures = new_limiter 0, a_reset_mails = new_limiter 0, a_login_ip = new_limiter 0,
     a_login_account = new_limiter 0, a_code_ip = new_limiter 0, a_reset_ip = new_limiter 0,
     a_reset_account = new_limiter 0, a_mails = [], a_audit = []\<rparr>"

lemmas sample_auth_rows = sample_auth_def mail_user_def open_challenge_def sample_user_def

lemma sample_auth_rules: "factor_rules sample_auth"
  by (simp add: factor_rules_def codes_ok_def users_ok_def challenges_ok_def sample_auth_rows)

section \<open>Properties\<close>

text \<open>C5. Over any run of the second-factor operations: a user without a factor has no recovery codes (which
  would be a way around the password's second step), an authenticator that is on has its seed, and a
  challenge keeps below five wrong codes and at three mails at most, one challenge per user and purpose.\<close>

theorem factor_rules_kept:
  assumes "factor_reaches cr st st'" and "factor_rules st"
  shows "factor_rules st'"
  by (rule factor_reaches_rules [OF assms])

lemma factor_rules_kept_witness:
  "factor_rules (admin_reset mail_user (fst (start_login toy_crypto 1 ''d'' ''000000'' True mail_user
     \<lparr>sm_ip = None, sm_user_agent = None\<rparr> sample_auth)))"
proof (rule factor_rules_kept [OF factor_reaches.fr_step [OF factor_reaches.fr_step [OF factor_reaches.fr_refl]]])
  show "factor_step toy_crypto sample_auth (fst (start_login toy_crypto 1 ''d'' ''000000'' True mail_user
      \<lparr>sm_ip = None, sm_user_agent = None\<rparr> sample_auth))"
    by (rule fs_start_login [of _ 5]) (simp_all add: sample_auth_rows find_user_def)
  show "factor_step toy_crypto (fst (start_login toy_crypto 1 ''d'' ''000000'' True mail_user
        \<lparr>sm_ip = None, sm_user_agent = None\<rparr> sample_auth))
      (admin_reset mail_user (fst (start_login toy_crypto 1 ''d'' ''000000'' True mail_user
        \<lparr>sm_ip = None, sm_user_agent = None\<rparr> sample_auth)))"
    by (rule fs_admin_reset [of _ 5])
      (simp add: sample_auth_rows find_user_def start_login_def new_challenge_def two_factor_methods_def
        send_email_code_def save_challenge_def Let_def)
qed (fact sample_auth_rules)




text \<open>Every six-digit code is equally likely: of the \<open>2 ^ 32\<close> numbers drawn exactly 4294 give it.\<close>

theorem codes_equally_likely:
  assumes "c < 1000000"
  shows "card {n. n < 4294967296 \<and> generate_code 6 [n] = Some (pad_start 6 (digits_of c))} = 4294"
proof -
  have "{n. n < 4294967296 \<and> generate_code 6 [n] = Some (pad_start 6 (digits_of c))}
      = {n. n < 4294 * 1000000 \<and> n mod 1000000 = c}"
  proof (intro set_eqI)
    fix n :: nat
    have limit: "code_limit 6 = 4294 * 1000000" by (simp add: code_limit_def)
    show "n \<in> {n. n < 4294967296 \<and> generate_code 6 [n] = Some (pad_start 6 (digits_of c))}
        \<longleftrightarrow> n \<in> {n. n < 4294 * 1000000 \<and> n mod 1000000 = c}"
      using generated [of n 6] pad_inject [of "n mod 1000000" 6 c] assms
      by (cases "n < code_limit 6") (auto simp: limit)
  qed
  with bij_betw_same_card [OF residues [OF assms, of 4294]] show ?thesis by simp
qed

lemma codes_equally_likely_witness:
  "card {n. n < 4294967296 \<and> generate_code 6 [n] = Some (pad_start 6 (digits_of 7))} = 4294"
  by (rule codes_equally_likely) simp

end
