(* ===== verification/Password_Reset.thy ===== *)
theory Password_Reset
  imports Factor_Rules
begin

text \<open>
  Forgotten passwords (server/src/modules/auth/password-reset.ts). A submission is two steps, before and
  after the new password is hashed, so two submissions of one link may overlap; the transaction of the
  second step is one step. The text of the email is left out but for its link.
\<close>

definition reset_ttl_ms :: int where "reset_ttl_ms = 1800000"

definition reset_token_hash :: "'k crypto \<Rightarrow> string \<Rightarrow> string" where
  "reset_token_hash cr token = sha256_hex cr (''password-reset:'' @ token)"

definition reset_link :: "string \<Rightarrow> string \<Rightarrow> string" where
  "reset_link token site_url =
     rev (dropWhile (\<lambda>c. c = CHR ''/'') (rev site_url)) @ ''/reset-password#'' @ token"

definition issue_reset :: "'k crypto \<Rightarrow> int \<Rightarrow> string \<Rightarrow> string \<Rightarrow> bool \<Rightarrow> user_row \<Rightarrow> session_meta \<Rightarrow> auth \<Rightarrow> auth" where
  "issue_reset cr now token site_url mail_ok u meta st =
     (let row = \<lparr>pwr_token_hash = reset_token_hash cr token, pwr_user_id = u_id u,
            pwr_expires_at = now + reset_ttl_ms, pwr_ip = sm_ip meta,
            pwr_user_agent = map_option (take 512) (sm_user_agent meta)\<rparr>;
          st1 = st\<lparr>a_resets := filter (\<lambda>r. pwr_user_id r \<noteq> u_id u) (a_resets st) @ [row]\<rparr>;
          st2 = add_audit None ''auth.password_reset_requested'' (Some (u_id u)) st1 in
      if mail_ok then st2\<lparr>a_mails := a_mails st2 @ [Reset_Mail (u_email u) (reset_link token site_url)]\<rparr> else st2)"

text \<open>The answer, and the user an email is then sent to in the background.\<close>

definition request_reset :: "bool \<Rightarrow> int \<Rightarrow> string \<Rightarrow> auth \<Rightarrow> auth \<times> unit result \<times> user_row option" where
  "request_reset smtp_on now email st =
     (if \<not> smtp_on then (st, Inl (bad_request
        ''Password reset by email is not set up. Ask an administrator to reset your password.''), None)
      else case user_by_email st (js_lower email) of
        None \<Rightarrow> (st, Inr (), None)
      | Some u \<Rightarrow>
          if u_disabled u then (st, Inr (), None)
          else let (l, ok, _) = check 60000 1 (a_reset_mails st) now (user_key (u_id u)) in
            (st\<lparr>a_reset_mails := l\<rparr>, Inr (), if ok then Some u else None))"

definition invalid_token :: http_error where
  "invalid_token = HttpError 400 ''invalid_reset_token''
     ''This reset link is invalid or has expired. Ask for a new one.'' []"

definition reset_begin :: "'k crypto \<Rightarrow> int \<Rightarrow> string \<Rightarrow> auth \<Rightarrow> (password_reset \<times> user_row) result" where
  "reset_begin cr now token st =
     (case find (\<lambda>r. pwr_token_hash r = reset_token_hash cr token \<and> pwr_expires_at r > now) (a_resets st) of
        None \<Rightarrow> Inl invalid_token
      | Some row \<Rightarrow> (case find_user st (pwr_user_id row) of
          None \<Rightarrow> Inl invalid_token
        | Some u \<Rightarrow> if u_disabled u then Inl invalid_token else Inr (row, u)))"

text \<open>\<open>user.save()\<close> writes the changed column only.\<close>

definition set_password :: "nat \<Rightarrow> string \<Rightarrow> auth \<Rightarrow> auth" where
  "set_password who new_hash st = (case find_user st who of
     None \<Rightarrow> st | Some u \<Rightarrow> save_user (u\<lparr>u_password_hash := new_hash\<rparr>) st)"

definition reset_end :: "string \<Rightarrow> password_reset \<Rightarrow> user_row \<Rightarrow> auth \<Rightarrow> auth \<times> unit result" where
  "reset_end new_hash row u st =
     (let claimed = length (filter (\<lambda>r. pwr_token_hash r = pwr_token_hash row) (a_resets st)) in
      if claimed \<noteq> 1 then (st, Inl invalid_token)
      else (add_audit (Some (u_id u)) ''auth.password_reset'' (Some (u_id u))
        (destroy_challenges_of (u_id u) (end_sessions (u_id u) None (set_password (u_id u) new_hash
          (st\<lparr>a_resets := filter (\<lambda>r. pwr_token_hash r \<noteq> pwr_token_hash row) (a_resets st)\<rparr>)))), Inr ()))"

definition purge_expired_resets :: "int \<Rightarrow> auth \<Rightarrow> auth" where
  "purge_expired_resets now st = st\<lparr>a_resets := filter (\<lambda>r. \<not> pwr_expires_at r < now) (a_resets st)\<rparr>"

section \<open>Properties\<close>

lemma set_password_frame [simp]:
  "a_resets (set_password who h st) = a_resets st" "a_sessions (set_password who h st) = a_sessions st"
  "a_challenges (set_password who h st) = a_challenges st"
  by (simp_all add: set_password_def split: option.split)

lemma end_sessions_frame [simp]:
  "a_resets (end_sessions who k st) = a_resets st" "find_user (end_sessions who k st) = find_user st"
  "a_challenges (end_sessions who k st) = a_challenges st"
  by (simp_all add: end_sessions_def find_user_def fun_eq_iff)

lemma destroy_frame [simp]:
  "a_resets (destroy_challenges_of who st) = a_resets st" "a_sessions (destroy_challenges_of who st) = a_sessions st"
  by (simp_all add: destroy_challenges_of_def)

lemma audit_resets [simp]: "a_resets (add_audit a x t st) = a_resets st"
  by (simp add: add_audit_def)

text \<open>C24. A reset link changes a password once: when a submission's second step succeeds its token is gone, so
  any other submission of the link that is still under way fails; the user has the new password, no
  session and no pending sign-in challenge left, and nobody else's password, sessions or challenges
  change.\<close>

theorem reset_link_once:
  assumes "reset_end new_hash row u st = (st', Inr ())"
  shows "snd (reset_end other row v st') = Inl invalid_token
    \<and> pwr_token_hash row \<notin> pwr_token_hash ` set (a_resets st')
    \<and> map_option u_password_hash (find_user st' (u_id u)) = map_option (\<lambda>_. new_hash) (find_user st (u_id u))
    \<and> (\<forall>w. w \<noteq> u_id u \<longrightarrow> find_user st' w = find_user st w)
    \<and> a_sessions st' = filter (\<lambda>s. se_user_id s \<noteq> u_id u) (a_sessions st)
    \<and> a_challenges st' = filter (\<lambda>c. ch_user_id c \<noteq> u_id u) (a_challenges st)"
proof -
  let ?st1 = "st\<lparr>a_resets := filter (\<lambda>r. pwr_token_hash r \<noteq> pwr_token_hash row) (a_resets st)\<rparr>"
  have st': "st' = add_audit (Some (u_id u)) ''auth.password_reset'' (Some (u_id u))
      (destroy_challenges_of (u_id u) (end_sessions (u_id u) None (set_password (u_id u) new_hash ?st1)))"
    using assms by (simp add: reset_end_def Let_def split: if_splits)
  have found: "find_user ?st1 = find_user st" by (simp add: find_user_def fun_eq_iff)
  have user: "find_user st' w = (if w = u_id u then map_option (\<lambda>v. v\<lparr>u_password_hash := new_hash\<rparr>) (find_user st w)
      else find_user st w)" for w
    by (cases "find_user st (u_id u)")
      (auto simp: st' set_password_def found find_user_id)
  have resets: "a_resets st' = filter (\<lambda>r. pwr_token_hash r \<noteq> pwr_token_hash row) (a_resets st)" by (simp add: st')
  have "a_sessions st' = filter (\<lambda>s. se_user_id s \<noteq> u_id u) (a_sessions st)" by (simp add: st') (simp add: end_sessions_def)
  moreover have "a_challenges st' = filter (\<lambda>c. ch_user_id c \<noteq> u_id u) (a_challenges st)"
    by (simp add: st') (simp add: destroy_challenges_of_def)
  moreover have "snd (reset_end other row v st') = Inl invalid_token"
    by (simp add: reset_end_def Let_def resets)
  moreover have "pwr_token_hash row \<notin> pwr_token_hash ` set (a_resets st')" by (auto simp: resets)
  ultimately show ?thesis
    by (simp add: user option.map_comp comp_def)
qed

definition pending_reset :: password_reset where
  "pending_reset = \<lparr>pwr_token_hash = ''password-reset:t'', pwr_user_id = 5, pwr_expires_at = 9, pwr_ip = None,
     pwr_user_agent = None\<rparr>"

lemma reset_link_once_witness:
  "reset_begin toy_crypto 3 ''t'' (sample_auth\<lparr>a_resets := [pending_reset]\<rparr>) = Inr (pending_reset, mail_user)
    \<and> snd (reset_end ''y'' pending_reset mail_user
        (fst (reset_end ''x'' pending_reset mail_user (sample_auth\<lparr>a_resets := [pending_reset]\<rparr>)))) = Inl invalid_token"
proof
  show "reset_begin toy_crypto 3 ''t'' (sample_auth\<lparr>a_resets := [pending_reset]\<rparr>) = Inr (pending_reset, mail_user)"
    by (simp add: reset_begin_def reset_token_hash_def toy_crypto_def pending_reset_def find_user_def sample_auth_rows)
  have "reset_end ''x'' pending_reset mail_user (sample_auth\<lparr>a_resets := [pending_reset]\<rparr>)
      = (fst (reset_end ''x'' pending_reset mail_user (sample_auth\<lparr>a_resets := [pending_reset]\<rparr>)), Inr ())"
    by (simp add: reset_end_def Let_def pending_reset_def)
  from reset_link_once [OF this] show "snd (reset_end ''y'' pending_reset mail_user
        (fst (reset_end ''x'' pending_reset mail_user (sample_auth\<lparr>a_resets := [pending_reset]\<rparr>)))) = Inl invalid_token"
    by blast
qed

text \<open>Asking for a reset answers the same for every address and every state of the accounts, and emails
  only an enabled user of that address, at most once a minute.\<close>

theorem reset_answer_uniform:
  "fst (snd (request_reset smtp_on now email st)) = fst (snd (request_reset smtp_on now' email' st'))
    \<and> (snd (snd (request_reset smtp_on now email st)) = Some u \<longrightarrow>
        u \<in> set (a_users st) \<and> u_email u = js_lower email \<and> \<not> u_disabled u
        \<and> snd (check_hit 60000 1 (a_reset_mails st) now (user_key (u_id u))))"
proof
  show "fst (snd (request_reset smtp_on now email st)) = fst (snd (request_reset smtp_on now' email' st'))"
    by (simp add: request_reset_def split_def Let_def split: option.split)
  show "snd (snd (request_reset smtp_on now email st)) = Some u \<longrightarrow>
        u \<in> set (a_users st) \<and> u_email u = js_lower email \<and> \<not> u_disabled u
        \<and> snd (check_hit 60000 1 (a_reset_mails st) now (user_key (u_id u)))"
  proof
    assume "snd (snd (request_reset smtp_on now email st)) = Some u"
    then have "user_by_email st (js_lower email) = Some u" and rest: "\<not> u_disabled u"
        "snd (check_hit 60000 1 (a_reset_mails st) now (user_key (u_id u)))"
      by (auto simp: request_reset_def check_hit_def split_def Let_def split: option.splits if_splits)
    with find_SomeD [of "\<lambda>u. u_email u = js_lower email" "a_users st" u]
    show "u \<in> set (a_users st) \<and> u_email u = js_lower email \<and> \<not> u_disabled u
        \<and> snd (check_hit 60000 1 (a_reset_mails st) now (user_key (u_id u)))"
      by (simp add: user_by_email_def)
  qed
qed

lemma reset_answer_uniform_witness:
  "fst (snd (request_reset True 1 ''a@b'' sample_auth)) = fst (snd (request_reset True 1 ''nobody'' sample_auth))
    \<and> snd (snd (request_reset True 1 ''a@b'' sample_auth)) = Some mail_user \<and> \<not> u_disabled mail_user"
proof -
  have "snd (snd (request_reset True 1 ''a@b'' sample_auth)) = Some mail_user"
    by (simp add: request_reset_def user_by_email_def sample_auth_rows js_lower_def lower_char_def is_upper_def Let_def
      check_def sweep_def hit_def live_entry_def new_limiter_def)
  with reset_answer_uniform [of True 1 "''a@b''" sample_auth 1 "''nobody''" sample_auth mail_user] show ?thesis by blast
qed

end
