(* ===== verification/Sign_In.thy ===== *)
theory Sign_In
  imports Password_Reset
begin

text \<open>
  The sign-in routes (server/src/modules/auth/routes.ts): the limiters in front of the services, and which
  answers carry a session. Bodies are parsed already, cookies and headers are the answer's value.
\<close>

section \<open>Routes\<close>

datatype login_answer = Signed_In nat string | Second_Factor challenge_dto

definition too_many_attempts :: http_error where
  "too_many_attempts = too_many_requests ''Too many attempts, try again later''"

definition route_ip :: "session_meta \<Rightarrow> string" where
  "route_ip meta = (case sm_ip meta of Some a \<Rightarrow> a | None \<Rightarrow> ''unknown'')"

definition browser_only :: "caller \<Rightarrow> unit result" where
  "browser_only cl = guard (\<not> cl_api_token cl) (forbidden ''Not available with an API token; use a browser session'')"

definition setup_route :: "'k crypto \<Rightarrow> int \<Rightarrow> string \<Rightarrow> string \<Rightarrow> string \<Rightarrow> string \<Rightarrow> session_meta \<Rightarrow> auth \<Rightarrow>
    auth \<times> login_answer result" where
  "setup_route cr now email name new_hash token meta st = (case setup_begin st of
     Inl e \<Rightarrow> (st, Inl e)
   | Inr _ \<Rightarrow> (case setup_end now email name new_hash st of
       (st1, Inl e) \<Rightarrow> (st1, Inl e)
     | (st1, Inr u) \<Rightarrow> (create_session cr now token (u_id u) meta st1, Inr (Signed_In (u_id u) token))))"

definition login_route :: "'k crypto \<Rightarrow> int \<Rightarrow> string \<Rightarrow> string \<Rightarrow> string \<Rightarrow> string \<Rightarrow> bool \<Rightarrow> string \<Rightarrow> session_meta \<Rightarrow> auth \<Rightarrow>
    auth \<times> login_answer result" where
  "login_route cr now email password cid fresh mail_ok token meta st =
     (let ip = route_ip meta; account = js_lower email;
          (l1, ok1, _) = check 900000 20 (a_login_ip st) now ip; st1 = st\<lparr>a_login_ip := l1\<rparr> in
      if \<not> ok1 then (st1, Inl too_many_attempts)
      else let (l2, ok2, _) = check 900000 10 (a_login_account st1) now account; st2 = st1\<lparr>a_login_account := l2\<rparr> in
        if \<not> ok2 then (st2, Inl too_many_attempts)
        else (case authenticate cr email password st2 of
          (st3, Inl e) \<Rightarrow> (st3, Inl e)
        | (st3, Inr u) \<Rightarrow>
            if has_two_factor u
            then (let (st4, d) = start_login cr now cid fresh mail_ok u meta st3 in (st4, Inr (Second_Factor d)))
            else let st4 = st3\<lparr>a_login_ip := reset_key (a_login_ip st3) ip,
                   a_login_account := reset_key (a_login_account st3) account\<rparr> in
              (complete_login cr now token u meta st4, Inr (Signed_In (u_id u) token))))"

text \<open>The user row \<open>completeLogin\<close> saves is the one \<open>verifyLogin\<close> left.\<close>

definition verify_route :: "'k crypto \<Rightarrow> int \<Rightarrow> string \<Rightarrow> string \<Rightarrow> second_factor option \<Rightarrow> string \<Rightarrow> session_meta \<Rightarrow> auth \<Rightarrow>
    auth \<times> login_answer result" where
  "verify_route cr now cid entered way token meta st =
     (let ip = route_ip meta; (l1, ok1, _) = check 900000 30 (a_code_ip st) now ip; st1 = st\<lparr>a_code_ip := l1\<rparr> in
      if \<not> ok1 then (st1, Inl too_many_attempts)
      else (case verify_login cr now cid entered way st1 of
        (st2, Inl e) \<Rightarrow> (st2, Inl e)
      | (st2, Inr (who, _)) \<Rightarrow> (case find_user st2 who of
          None \<Rightarrow> (st2, Inl internal_error)
        | Some u \<Rightarrow>
            let st3 = st2\<lparr>a_login_ip := reset_key (a_login_ip st2) ip,
                  a_login_account := reset_key (a_login_account st2) (u_email u)\<rparr> in
            (complete_login cr now token u meta st3, Inr (Signed_In (u_id u) token)))))"

definition resend_route :: "'k crypto \<Rightarrow> int \<Rightarrow> string \<Rightarrow> string \<Rightarrow> bool \<Rightarrow> session_meta \<Rightarrow> auth \<Rightarrow> auth \<times> challenge_dto result" where
  "resend_route cr now cid fresh mail_ok meta st =
     (let (l1, ok1, _) = check 900000 30 (a_code_ip st) now (route_ip meta); st1 = st\<lparr>a_code_ip := l1\<rparr> in
      if \<not> ok1 then (st1, Inl too_many_attempts) else resend cr now cid Login_Purpose fresh mail_ok st1)"

definition logout_route :: "caller \<Rightarrow> auth \<Rightarrow> auth" where
  "logout_route cl st = (case cl_session cl of None \<Rightarrow> st | Some s \<Rightarrow> logout s st)"

definition password_route :: "'k crypto \<Rightarrow> caller \<Rightarrow> string \<Rightarrow> string \<Rightarrow> auth \<Rightarrow> auth \<times> unit result" where
  "password_route cr cl current new_hash st = (case require_auth cl of
     Inl e \<Rightarrow> (st, Inl e)
   | Inr _ \<Rightarrow> (case browser_only cl of
       Inl e \<Rightarrow> (st, Inl e)
     | Inr _ \<Rightarrow> (case current_user cl of
         Inl e \<Rightarrow> (st, Inl e)
       | Inr u \<Rightarrow> change_password cr u current new_hash (map_option se_id (cl_session cl)) st)))"

definition forgot_route :: "bool \<Rightarrow> int \<Rightarrow> string \<Rightarrow> session_meta \<Rightarrow> auth \<Rightarrow> auth \<times> unit result \<times> user_row option" where
  "forgot_route smtp_on now email meta st =
     (let (l1, ok1, _) = check 900000 10 (a_reset_ip st) now (route_ip meta); st1 = st\<lparr>a_reset_ip := l1\<rparr> in
      if \<not> ok1 then (st1, Inl too_many_attempts, None)
      else let (l2, ok2, _) = check 3600000 5 (a_reset_account st1) now (js_lower email); st2 = st1\<lparr>a_reset_account := l2\<rparr> in
        if \<not> ok2 then (st2, Inl too_many_attempts, None) else request_reset smtp_on now email st2)"

definition reset_route :: "'k crypto \<Rightarrow> int \<Rightarrow> string \<Rightarrow> string \<Rightarrow> session_meta \<Rightarrow> auth \<Rightarrow> auth \<times> unit result" where
  "reset_route cr now token new_hash meta st =
     (let (l1, ok1, _) = check 900000 30 (a_code_ip st) now (route_ip meta); st1 = st\<lparr>a_code_ip := l1\<rparr> in
      if \<not> ok1 then (st1, Inl too_many_attempts)
      else (case reset_begin cr now token st1 of
        Inl e \<Rightarrow> (st1, Inl e)
      | Inr (row, u) \<Rightarrow> (case reset_end new_hash row u st1 of
          (st2, Inl e) \<Rightarrow> (st2, Inl e)
        | (st2, Inr _) \<Rightarrow> (st2\<lparr>a_login_account := reset_key (a_login_account st2) (u_email u)\<rparr>, Inr ()))))"

section \<open>Where sessions come from\<close>

lemma session_frame [simp]:
  "a_sessions (complete_login cr now token u meta st) = a_sessions (create_session cr now token (u_id u) meta st)"
  by (simp add: complete_login_def)

lemma authenticate_Inr:
  assumes "authenticate cr email password st = (st', Inr u)"
  shows "user_by_email st (js_lower email) = Some u \<and> verify_hash cr password (u_password_hash u)
    \<and> \<not> u_disabled u \<and> st' = st"
  using assms by (auto simp: authenticate_def split: option.splits if_splits)

lemma authenticate_sessions [simp]: "a_sessions (fst (authenticate cr email password st)) = a_sessions st"
  by (simp add: authenticate_def split: option.split)

lemma start_login_sessions [simp]: "a_sessions (fst (start_login cr now cid fresh ok u meta st)) = a_sessions st"
  by (simp add: start_login_def new_challenge_def send_email_code_def save_challenge_def Let_def
    split: list.split two_factor_method.split)

lemma verify_sessions: "a_sessions (fst (verify_login cr now cid e m st)) = a_sessions st"
proof (cases "wrong_code cr now cid e m st")
  case (Some who)
  from verify_login_wrong [OF Some] obtain ch u st1 err where
    v: "factor_matches cr now (chosen_factor u e m) ch u e st = (st1, False)"
    "verify_login cr now cid e m st = (fst (reject_code now ch u st1), Inl err)" by blast
  then have "a_sessions st1 = a_sessions st" by (metis factor_frame(3) fst_conv)
  with v show ?thesis by (simp add: reject_frame)
next
  case None
  obtain st' r where v: "verify_login cr now cid e m st = (st', r)" by (cases "verify_login cr now cid e m st")
  show ?thesis
  proof (cases r)
    case (Inl err)
    with verify_login_neither [OF None v [unfolded Inl]] v show ?thesis by simp
  next
    case (Inr a)
    obtain who f where a: "a = (who, f)" by (cases a)
    from verify_login_Inr [OF v [unfolded Inr a]] obtain ch u st1 where
      w: "factor_matches cr now f ch u e st = (st1, True)" "st' = destroy_challenge cid st1" by blast
    then have "a_sessions st1 = a_sessions st" by (metis factor_frame(3) fst_conv)
    with v w show ?thesis by simp
  qed
qed

lemma limited_user [simp]: "user_by_email (st\<lparr>a_login_ip := l\<rparr>) = user_by_email st"
  "user_by_email (st\<lparr>a_login_account := l\<rparr>) = user_by_email st" "find_user (st\<lparr>a_code_ip := l\<rparr>) = find_user st"
  by (simp_all add: user_by_email_def find_user_def fun_eq_iff)

lemma limited_load [simp]: "load_challenge now cid p (st\<lparr>a_code_ip := l\<rparr>) = load_challenge now cid p st"
  by (simp add: load_challenge_def cong: option.case_cong)

text \<open>A session that was added for a user.\<close>

definition adds_session :: "'k crypto \<Rightarrow> int \<Rightarrow> string \<Rightarrow> nat \<Rightarrow> auth \<Rightarrow> auth \<Rightarrow> bool" where
  "adds_session cr now token who st st' \<longleftrightarrow> (\<exists>s. a_sessions st' = a_sessions st @ [s] \<and> se_user_id s = who
     \<and> se_id s = session_hmac cr token \<and> se_expires_at s = now + 604800000)"

lemma create_adds: "adds_session cr now token who st (create_session cr now token who meta st)"
  by (simp add: adds_session_def create_session_def session_ttl_ms_def)

lemma login_route_cases:
  assumes "login_route cr now email password cid fresh mail_ok token meta st = (st', r)"
  shows "(a_sessions st' = a_sessions st \<and> \<not> (\<exists>w t. r = Inr (Signed_In w t)))
    \<or> (\<exists>u. user_by_email st (js_lower email) = Some u \<and> verify_hash cr password (u_password_hash u) \<and> \<not> u_disabled u
        \<and> \<not> has_two_factor u \<and> r = Inr (Signed_In (u_id u) token) \<and> adds_session cr now token (u_id u) st st')"
proof -
  obtain l1 ok1 w1 where c1: "check 900000 20 (a_login_ip st) now (route_ip meta) = (l1, ok1, w1)"
    by (cases "check 900000 20 (a_login_ip st) now (route_ip meta)")
  let ?st1 = "st\<lparr>a_login_ip := l1\<rparr>"
  obtain l2 ok2 w2 where c2: "check 900000 10 (a_login_account ?st1) now (js_lower email) = (l2, ok2, w2)"
    by (cases "check 900000 10 (a_login_account ?st1) now (js_lower email)")
  let ?st2 = "?st1\<lparr>a_login_account := l2\<rparr>"
  obtain st3 a where auth: "authenticate cr email password ?st2 = (st3, a)" by (cases "authenticate cr email password ?st2")
  have same: "a_sessions st3 = a_sessions st" using authenticate_sessions [of cr email password ?st2] auth by simp
  show ?thesis
  proof (cases "ok1 \<and> ok2")
    case False
    with assms c1 c2 show ?thesis by (auto simp: login_route_def Let_def split: if_splits)
  next
    case True
    show ?thesis
    proof (cases a)
      case (Inl e)
      with True assms c1 c2 auth same show ?thesis by (auto simp: login_route_def Let_def)
    next
      case (Inr u)
      note ok = authenticate_Inr [OF auth [unfolded Inr]]
      show ?thesis
      proof (cases "has_two_factor u")
        case True
        with \<open>ok1 \<and> ok2\<close> assms c1 c2 auth Inr
        have "st' = fst (start_login cr now cid fresh mail_ok u meta st3)"
          and "r = Inr (Second_Factor (snd (start_login cr now cid fresh mail_ok u meta st3)))"
          by (auto simp: login_route_def Let_def split_def)
        with same show ?thesis by simp
      next
        case False
        let ?st4 = "st3\<lparr>a_login_ip := reset_key (a_login_ip st3) (route_ip meta),
          a_login_account := reset_key (a_login_account st3) (js_lower email)\<rparr>"
        from False \<open>ok1 \<and> ok2\<close> assms c1 c2 auth Inr
        have st': "st' = complete_login cr now token u meta ?st4" and r: "r = Inr (Signed_In (u_id u) token)"
          by (auto simp: login_route_def Let_def)
        have "adds_session cr now token (u_id u) st st'"
          using create_adds [of cr now token "u_id u" ?st4 meta] same by (simp add: adds_session_def st')
        with r ok False show ?thesis by simp
      qed
    qed
  qed
qed

lemma verify_route_cases:
  assumes "verify_route cr now cid entered way token meta st = (st', r)"
  shows "(a_sessions st' = a_sessions st \<and> \<not> (\<exists>w t. r = Inr (Signed_In w t)))
    \<or> (\<exists>ch u f l. load_challenge now cid Login_Purpose st = Some (ch, u) \<and> f = chosen_factor u entered way
        \<and> failures_wait now (u_id u) st = 0 \<and> snd (factor_matches cr now f ch u entered (st\<lparr>a_code_ip := l\<rparr>))
        \<and> cid \<notin> ch_id ` set (a_challenges st')
        \<and> r = Inr (Signed_In (u_id u) token) \<and> adds_session cr now token (u_id u) st st')"
proof -
  obtain l1 ok1 w1 where c1: "check 900000 30 (a_code_ip st) now (route_ip meta) = (l1, ok1, w1)"
    by (cases "check 900000 30 (a_code_ip st) now (route_ip meta)")
  let ?st1 = "st\<lparr>a_code_ip := l1\<rparr>"
  obtain st2 v where login: "verify_login cr now cid entered way ?st1 = (st2, v)"
    by (cases "verify_login cr now cid entered way ?st1")
  have same: "a_sessions st2 = a_sessions st" using verify_sessions [of cr now cid entered way ?st1] login by simp
  show ?thesis
  proof (cases "ok1 \<and> \<not> isl v")
    case False
    with assms c1 login same show ?thesis
      by (auto simp: verify_route_def Let_def split: if_splits sum.splits)
  next
    case True
    then obtain who f where v: "v = Inr (who, f)" by (cases v) auto
    from verify_login_Inr [OF login [unfolded v]] obtain ch u stm where w:
      "load_challenge now cid Login_Purpose st = Some (ch, u)" "failures_wait now (u_id u) ?st1 = 0" "who = u_id u"
      "f = chosen_factor u entered way" "factor_matches cr now f ch u entered ?st1 = (stm, True)"
      "st2 = destroy_challenge cid stm" by auto
    show ?thesis
    proof (cases "find_user st2 who")
      case None
      with True assms c1 login v same show ?thesis by (auto simp: verify_route_def Let_def)
    next
      case (Some u')
      then have uid': "u_id u' = u_id u" using find_user_id w(3) by simp
      let ?st3 = "st2\<lparr>a_login_ip := reset_key (a_login_ip st2) (route_ip meta),
        a_login_account := reset_key (a_login_account st2) (u_email u')\<rparr>"
      from Some True assms c1 login v
      have st': "st' = complete_login cr now token u' meta ?st3" and r: "r = Inr (Signed_In (u_id u') token)"
        by (auto simp: verify_route_def Let_def)
      have "adds_session cr now token (u_id u) st st'"
        using create_adds [of cr now token "u_id u'" ?st3 meta] same uid' by (simp add: adds_session_def st')
      moreover have "a_challenges st' = a_challenges st2"
        by (simp add: st' complete_login_def create_session_def)
      then have "cid \<notin> ch_id ` set (a_challenges st')" by (auto simp: w(6) destroy_challenge_def)
      moreover have "failures_wait now (u_id u) st = 0" using w(2) by (simp add: failures_wait_def)
      ultimately show ?thesis using w r uid' by (metis snd_conv)
    qed
  qed
qed

section \<open>Properties\<close>

text \<open>C3. Signing in with a password creates a session only for the enabled user of that address whose
  password it is and who has no second factor; anybody else gets an error or a challenge and the
  sessions stay as they were. A challenge becomes a session only by a code of a factor its user may
  answer with, when the user is not blocked for wrong codes, and the challenge is gone afterwards.\<close>

theorem sessions_need_every_factor:
  assumes "login_route cr now email password cid fresh mail_ok token meta st = (st1, r1)"
    and "verify_route cr now cid' entered way token meta st = (st2, r2)"
  shows "((a_sessions st1 = a_sessions st \<and> \<not> (\<exists>w t. r1 = Inr (Signed_In w t)))
      \<or> (\<exists>u. user_by_email st (js_lower email) = Some u \<and> verify_hash cr password (u_password_hash u) \<and> \<not> u_disabled u
          \<and> \<not> has_two_factor u \<and> r1 = Inr (Signed_In (u_id u) token) \<and> adds_session cr now token (u_id u) st st1))
    \<and> ((a_sessions st2 = a_sessions st \<and> \<not> (\<exists>w t. r2 = Inr (Signed_In w t)))
      \<or> (\<exists>ch u f l. load_challenge now cid' Login_Purpose st = Some (ch, u) \<and> f = chosen_factor u entered way
          \<and> failures_wait now (u_id u) st = 0 \<and> snd (factor_matches cr now f ch u entered (st\<lparr>a_code_ip := l\<rparr>))
          \<and> cid' \<notin> ch_id ` set (a_challenges st2)
          \<and> r2 = Inr (Signed_In (u_id u) token) \<and> adds_session cr now token (u_id u) st st2))"
  by (rule conjI [OF login_route_cases [OF assms(1)] verify_route_cases [OF assms(2)]])

lemma sessions_need_every_factor_witness:
  "a_sessions (fst (login_route toy_crypto 1 ''a@b'' [] ''d'' ''000000'' True ''t'' \<lparr>sm_ip = None, sm_user_agent = None\<rparr> sample_auth)) = []"
proof -
  have "user_by_email sample_auth (js_lower ''a@b'') = Some mail_user"
    by (simp add: user_by_email_def sample_auth_rows js_lower_def lower_char_def is_upper_def Let_def)
  moreover have "has_two_factor mail_user" by (simp add: has_two_factor_def two_factor_methods_def sample_auth_rows)
  moreover have "a_sessions sample_auth = []" by (simp add: sample_auth_def)
  ultimately show ?thesis
    using sessions_need_every_factor [OF prod.collapse [symmetric] prod.collapse [symmetric],
      of toy_crypto 1 "''a@b''" "[]" "''d''" "''000000''" True "''t''" "\<lparr>sm_ip = None, sm_user_agent = None\<rparr>" sample_auth]
    by auto
qed

text \<open>A changed password ends every other session of the user and touches no one else's; but sign-in
  challenges already opened with the old password, pending reset links and API tokens stay as they are.\<close>

theorem password_change_ends_sessions:
  assumes "change_password cr u current new_hash keep st = (st', Inr ())"
  shows "verify_hash cr current (u_password_hash u)
    \<and> set (a_sessions st') = {s \<in> set (a_sessions st). se_user_id s \<noteq> u_id u \<or> truthy keep = Some (se_id s)}
    \<and> find_user st' (u_id u) = map_option (\<lambda>_. u\<lparr>u_password_hash := new_hash\<rparr>) (find_user st (u_id u))
    \<and> a_challenges st' = a_challenges st \<and> a_resets st' = a_resets st \<and> a_tokens st' = a_tokens st"
proof -
  have ok: "verify_hash cr current (u_password_hash u)"
    and st': "st' = add_audit (Some (u_id u)) ''auth.password_changed'' (Some (u_id u))
      (end_sessions (u_id u) keep (save_user (u\<lparr>u_password_hash := new_hash\<rparr>) st))"
    using assms by (auto simp: change_password_def split: if_splits)
  have "set (a_sessions st') = {s \<in> set (a_sessions st). se_user_id s \<noteq> u_id u \<or> truthy keep = Some (se_id s)}"
    by (auto simp: st' end_sessions_mem)
  then show ?thesis using ok by (simp add: st') (simp add: end_sessions_def)
qed

lemma password_change_ends_sessions_witness:
  "a_challenges (fst (change_password toy_crypto mail_user [] ''x'' None sample_auth)) = [open_challenge]"
proof -
  have "change_password toy_crypto mail_user [] ''x'' None sample_auth
      = (fst (change_password toy_crypto mail_user [] ''x'' None sample_auth), Inr ())"
    by (simp add: change_password_def toy_crypto_def sample_auth_rows)
  from password_change_ends_sessions [OF this] show ?thesis by (simp add: sample_auth_def)
qed

text \<open>C25. Every request that reaches a handler with a user has one whose account is enabled and who is proved by
  a live credential: a session row under the HMAC of the cookie that has not expired, or an API token
  row under the SHA-256 of the bearer value that is neither revoked nor expired. A request that changes
  something and is not exempt passes the CSRF guard only with the client header or with such a token.\<close>

theorem callers_authenticated:
  assumes "session_middleware cr now rq st = (st', cl)" and "cl_user cl = Some u"
    and "csrf_guard exempt rq cl = Inr ()"
  shows "find_user st (u_id u) = Some u \<and> \<not> u_disabled u
    \<and> (if cl_api_token cl
       then cl_session cl = None \<and> (\<exists>h t. rq_authorization rq = Some h \<and> t \<in> set (a_tokens st)
         \<and> at_token_hash t = sha256_hex cr (drop 7 h) \<and> usable_token now t \<and> at_user_id t = u_id u)
       else (\<exists>c s. rq_cookie rq = Some c \<and> s \<in> set (a_sessions st) \<and> se_id s = session_hmac cr c
         \<and> now < se_expires_at s \<and> se_user_id s = u_id u)
         \<and> (rq_method rq \<in> set safe_methods \<or> rq_client_header rq = Some ''web'' \<or> list_ex (\<lambda>p. prefix p (rq_path rq)) exempt))"
proof -
  have guarded: "rq_method rq \<in> set safe_methods \<or> cl_api_token cl \<or> rq_client_header rq = Some ''web''
      \<or> list_ex (\<lambda>p. prefix p (rq_path rq)) exempt"
    using assms(3) by (auto simp: csrf_guard_def split: if_splits)
  have cookie: "?thesis" if c: "cookie_caller cr now rq st = (st', cl)"
  proof -
    from c assms(2) obtain sid s' where sid: "truthy (rq_cookie rq) = Some sid"
      and r: "resolve_session cr now sid st = (st', Some (s', u))" and cl: "cl = \<lparr>cl_user = Some u, cl_session = Some s', cl_api_token = False\<rparr>"
      by (auto simp: cookie_caller_def anonymous_def split: option.splits prod.splits)
    have "rq_cookie rq = Some sid" using sid by (cases "rq_cookie rq") (auto split: if_splits)
    with resolve_session_Some [OF r] cl guarded find_user_id show ?thesis by fastforce
  qed
  have bearer: "?thesis" if h: "rq_authorization rq = Some h" and b: "bearer_caller cr now (drop 7 h) st = (st', cl)" for h
  proof -
    from b assms(2) obtain t' where r: "resolve_api_token cr now (drop 7 h) st = (st', Some t')"
      and u: "find_user st' (at_user_id t') = Some u" "\<not> u_disabled u"
      and cl: "cl = \<lparr>cl_user = Some u, cl_session = None, cl_api_token = True\<rparr>"
      by (auto simp: bearer_caller_def anonymous_def split: option.splits prod.splits if_splits)
    have "find_user st' = find_user st"
      using find_user_cong [of st' st] resolve_token_users [of cr now "drop 7 h" st] r by simp
    with resolve_token_Some [OF r] u cl h find_user_id [OF u(1)] show ?thesis by fastforce
  qed
  show ?thesis
    using assms(1) cookie bearer by (auto simp: session_middleware_def split: option.splits if_splits)
qed

definition live_session :: session_row where
  "live_session = \<lparr>se_id = ''t'', se_user_id = 5, se_expires_at = 9, se_ip = None, se_user_agent = None, se_last_seen_at = 0\<rparr>"

definition web_request :: request_context where
  "web_request = \<lparr>rq_method = ''POST'', rq_path = ''/api/x'', rq_authorization = None, rq_cookie = Some ''t'',
     rq_client_header = Some ''web''\<rparr>"

lemma callers_authenticated_witness:
  "cl_user (snd (session_middleware toy_crypto 3 web_request (sample_auth\<lparr>a_sessions := [live_session]\<rparr>))) = Some mail_user
    \<and> \<not> u_disabled mail_user"
proof -
  let ?m = "session_middleware toy_crypto 3 web_request (sample_auth\<lparr>a_sessions := [live_session]\<rparr>)"
  have user: "cl_user (snd ?m) = Some mail_user"
    by (simp add: session_middleware_def web_request_def cookie_caller_def resolve_session_def toy_crypto_def
      live_session_def find_user_def sample_auth_rows Let_def)
  have "csrf_guard [] web_request (snd ?m) = Inr ()" by (simp add: csrf_guard_def web_request_def)
  from callers_authenticated [OF prod.collapse [symmetric] user this] user show ?thesis by blast
qed

end
