(* ===== verification/Ui_Gateway.thy ===== *)
theory Ui_Gateway
  imports Access Console
begin

text \<open>
  The browser sockets (server/src/ws/ui-gateway.ts) and the events they carry (shared/src/api/ui.ts).
  The set of clients is the list of its members in insertion order; a client is the object its socket
  closes over and has an identity of its own. What a socket is told to do is a list of outputs;
  whether its \<open>send\<close> throws is an argument. An instant an event carries as text is the instant.
\<close>

section \<open>Events\<close>

record ui_console_line =
  ucl_at :: int
  ucl_text :: string

datatype ('m, 'p) ui_event =
  Hello_Event nat
| Node_Status_Event nat node_status "int option"
| Node_Updated_Event nat
| Node_Metrics_Event nat 'm
| Instance_Updated_Event nat
| Instance_Status_Event nat instance_status "string option"
| Instance_Stats_Event nat instance_stats
| Instance_Console_Event nat console_stream "ui_console_line list"
| Instance_Players_Event nat int
| Backup_Updated_Event nat string
| Template_Updated_Event nat
| Image_Pull_Event nat string bool "string option" "'p option"

datatype ui_client_message = Sub int | Unsub int

fun event_instance :: "('m, 'p) ui_event \<Rightarrow> nat option" where
  "event_instance (Instance_Updated_Event i) = Some i"
| "event_instance (Instance_Status_Event i _ _) = Some i"
| "event_instance (Instance_Stats_Event i _) = Some i"
| "event_instance (Instance_Console_Event i _ _) = Some i"
| "event_instance (Instance_Players_Event i _) = Some i"
| "event_instance (Backup_Updated_Event i _) = Some i"
| "event_instance _ = None"

fun event_node :: "('m, 'p) ui_event \<Rightarrow> nat option" where
  "event_node (Node_Status_Event n _ _) = Some n"
| "event_node (Node_Updated_Event n) = Some n"
| "event_node (Node_Metrics_Event n _) = Some n"
| "event_node (Image_Pull_Event n _ _ _ _) = Some n"
| "event_node _ = None"

fun is_console_event :: "('m, 'p) ui_event \<Rightarrow> bool" where
  "is_console_event (Instance_Console_Event _ _ _) = True"
| "is_console_event _ = False"

fun is_template_event :: "('m, 'p) ui_event \<Rightarrow> bool" where
  "is_template_event (Template_Updated_Event _) = True"
| "is_template_event _ = False"

section \<open>Clients\<close>

record ui_client =
  uc_id :: nat
  uc_user_id :: nat
  uc_admin :: bool
  uc_scope :: instance_scope
  uc_nodes :: "nat set option"
  uc_consoles :: "int set"

record ui_gateway =
  ug_clients :: "ui_client list"

datatype ('m, 'p) ui_output =
  Ui_Send nat "('m, 'p) ui_event"
| Ui_Close nat int string

definition close_reconnect :: int where "close_reconnect = 4002"

text \<open>\<open>inScope\<close> of a number a browser sent, which need not be an id.\<close>

definition scope_has :: "instance_scope \<Rightarrow> int \<Rightarrow> bool" where
  "scope_has scope i \<longleftrightarrow> (case scope of None \<Rightarrow> True | Some m \<Rightarrow> 0 \<le> i \<and> m (nat i) \<noteq> None)"

definition visible_to :: "ui_client \<Rightarrow> ('m, 'p) ui_event \<Rightarrow> bool" where
  "visible_to c ev = (case event_instance ev of
     Some i \<Rightarrow>
       if \<not> in_scope (uc_scope c) i then False
       else if is_console_event ev then int i \<in> uc_consoles c
       else True
   | None \<Rightarrow> (case event_node ev of
       Some n \<Rightarrow> in_node_scope (uc_nodes c) n
     | None \<Rightarrow> if is_template_event ev then uc_admin c else True))"

definition add_client :: "nat \<Rightarrow> nat \<Rightarrow> bool \<Rightarrow> instance_scope \<Rightarrow> nat set option \<Rightarrow> ui_gateway \<Rightarrow> ui_gateway" where
  "add_client cid who admin scope nodes g =
     g\<lparr>ug_clients := ug_clients g @ [\<lparr>uc_id = cid, uc_user_id = who, uc_admin = admin, uc_scope = scope,
       uc_nodes = nodes, uc_consoles = {}\<rparr>]\<rparr>"

definition remove_client :: "nat \<Rightarrow> ui_gateway \<Rightarrow> ui_gateway" where
  "remove_client cid g = g\<lparr>ug_clients := filter (\<lambda>c. uc_id c \<noteq> cid) (ug_clients g)\<rparr>"

text \<open>What a message does to its client; one that does not parse is \<open>None\<close> and does nothing.\<close>

definition subscribe :: "ui_client_message option \<Rightarrow> ui_client \<Rightarrow> ui_client" where
  "subscribe msg c = (case msg of
     None \<Rightarrow> c
   | Some (Sub i) \<Rightarrow> if scope_has (uc_scope c) i then c\<lparr>uc_consoles := insert i (uc_consoles c)\<rparr> else c
   | Some (Unsub i) \<Rightarrow> c\<lparr>uc_consoles := uc_consoles c - {i}\<rparr>)"

definition on_ui_message :: "nat \<Rightarrow> ui_client_message option \<Rightarrow> ui_gateway \<Rightarrow> ui_gateway" where
  "on_ui_message cid msg g =
     g\<lparr>ug_clients := map (\<lambda>c. if uc_id c = cid then subscribe msg c else c) (ug_clients g)\<rparr>"

definition safe_send :: "(nat \<Rightarrow> bool) \<Rightarrow> ('m, 'p) ui_event \<Rightarrow> ui_client \<Rightarrow>
    ui_gateway \<times> ('m, 'p) ui_output list \<Rightarrow> ui_gateway \<times> ('m, 'p) ui_output list" where
  "safe_send throws ev c s =
     (if throws (uc_id c) then (remove_client (uc_id c) (fst s), snd s)
      else (fst s, snd s @ [Ui_Send (uc_id c) ev]))"

definition broadcast :: "(nat \<Rightarrow> bool) \<Rightarrow> ('m, 'p) ui_event \<Rightarrow> ui_gateway \<Rightarrow>
    ui_gateway \<times> ('m, 'p) ui_output list" where
  "broadcast throws ev g =
     (if length (ug_clients g) = 0 then (g, [])
      else foldl (\<lambda>s c. if visible_to c ev then safe_send throws ev c s else s) (g, []) (ug_clients g))"

definition has_console_listeners :: "nat \<Rightarrow> ui_gateway \<Rightarrow> bool" where
  "has_console_listeners i g \<longleftrightarrow> list_ex (\<lambda>c. int i \<in> uc_consoles c) (ug_clients g)"

definition send_to_user :: "(nat \<Rightarrow> bool) \<Rightarrow> nat \<Rightarrow> ('m, 'p) ui_event \<Rightarrow> ui_gateway \<Rightarrow>
    ui_gateway \<times> ('m, 'p) ui_output list" where
  "send_to_user throws who ev g =
     foldl (\<lambda>s c. if uc_user_id c = who then safe_send throws ev c s else s) (g, []) (ug_clients g)"

definition disconnect_user :: "nat \<Rightarrow> ui_gateway \<Rightarrow> ('m, 'p) ui_output list" where
  "disconnect_user who g = map (\<lambda>c. Ui_Close (uc_id c) 4001 ''session ended'')
     (filter (\<lambda>c. uc_user_id c = who) (ug_clients g))"

definition reconnect_user :: "nat \<Rightarrow> ui_gateway \<Rightarrow> ('m, 'p) ui_output list" where
  "reconnect_user who g = map (\<lambda>c. Ui_Close (uc_id c) close_reconnect ''access changed'')
     (filter (\<lambda>c. uc_user_id c = who) (ug_clients g))"

section \<open>What a broadcast reaches\<close>

lemma failing_Cons: "{d \<in> set (c # cs). P d \<and> throws (uc_id d)} =
    (if P c \<and> throws (uc_id c) then insert c {d \<in> set cs. P d \<and> throws (uc_id d)} else {d \<in> set cs. P d \<and> throws (uc_id d)})"
  by auto

lemma sends_fold:
  "foldl (\<lambda>s c. if P c then safe_send throws ev c s else s) (g, out) cs =
    (g\<lparr>ug_clients := filter (\<lambda>c. uc_id c \<notin> uc_id ` {d \<in> set cs. P d \<and> throws (uc_id d)}) (ug_clients g)\<rparr>,
     out @ map (\<lambda>c. Ui_Send (uc_id c) ev) (filter (\<lambda>c. P c \<and> \<not> throws (uc_id c)) cs))"
proof (induction cs arbitrary: g out)
  case (Cons c cs)
  then show ?case
    by (simp add: safe_send_def remove_client_def failing_Cons del: list.set)
qed simp

lemma broadcast_eq: "broadcast throws ev g =
    (g\<lparr>ug_clients := filter (\<lambda>c. uc_id c \<notin> uc_id ` {d \<in> set (ug_clients g). visible_to d ev \<and> throws (uc_id d)}) (ug_clients g)\<rparr>,
     map (\<lambda>c. Ui_Send (uc_id c) ev) (filter (\<lambda>c. visible_to c ev \<and> \<not> throws (uc_id c)) (ug_clients g)))"
  by (simp add: broadcast_def sends_fold)

section \<open>The life of the sockets\<close>

text \<open>
  The gateway after any run, with the access each socket was opened with and everything sent so far:
  a socket opens with the scopes \<open>/ws/ui\<close> computed for its user, browsers send messages, events are
  broadcast over sockets that may fail, users are disconnected and sockets close.
\<close>

inductive ui_reachable :: "ui_gateway \<Rightarrow> (nat \<rightharpoonup> store \<times> user_row) \<Rightarrow> ('m, 'p) ui_output list \<Rightarrow> bool" where
  ui_start: "ui_reachable \<lparr>ug_clients = []\<rparr> Map.empty []"
| ui_opened: "ui_reachable g opened sent \<Longrightarrow> opened cid = None \<Longrightarrow>
    ui_reachable (add_client cid (u_id u) (u_role u = Admin) (scope_for_user st u) (node_scope_for_user st u) g)
      (opened(cid \<mapsto> (st, u))) (sent @ [Ui_Send cid (Hello_Event (u_id u))])"
| ui_message: "ui_reachable g opened sent \<Longrightarrow> ui_reachable (on_ui_message cid msg g) opened sent"
| ui_broadcast: "ui_reachable g opened sent \<Longrightarrow> broadcast throws ev g = (g', outs) \<Longrightarrow>
    ui_reachable g' opened (sent @ outs)"
| ui_disconnect: "ui_reachable g opened sent \<Longrightarrow> ui_reachable g opened (sent @ disconnect_user who g)"
| ui_reconnect: "ui_reachable g opened sent \<Longrightarrow> ui_reachable g opened (sent @ reconnect_user who g)"
| ui_closed: "ui_reachable g opened sent \<Longrightarrow> ui_reachable (remove_client cid g) opened sent"

definition client_ok :: "(nat \<rightharpoonup> store \<times> user_row) \<Rightarrow> ui_client \<Rightarrow> bool" where
  "client_ok opened c \<longleftrightarrow> (\<exists>st u. opened (uc_id c) = Some (st, u) \<and> uc_user_id c = u_id u
     \<and> (uc_admin c \<longleftrightarrow> u_role u = Admin) \<and> uc_scope c = scope_for_user st u
     \<and> uc_nodes c = node_scope_for_user st u \<and> (\<forall>i\<in>uc_consoles c. scope_has (uc_scope c) i))"

definition may_see :: "store \<Rightarrow> user_row \<Rightarrow> ('m, 'p) ui_event \<Rightarrow> bool" where
  "may_see st u ev \<longleftrightarrow> (case event_instance ev of
     Some i \<Rightarrow> in_scope (scope_for_user st u) i
   | None \<Rightarrow> (case event_node ev of Some n \<Rightarrow> owns_node st u n | None \<Rightarrow> is_template_event ev \<longrightarrow> u_role u = Admin))"

lemma client_ok_frame: "client_ok opened c \<Longrightarrow> uc_id c' = uc_id c \<Longrightarrow> uc_user_id c' = uc_user_id c \<Longrightarrow>
    uc_admin c' = uc_admin c \<Longrightarrow> uc_scope c' = uc_scope c \<Longrightarrow> uc_nodes c' = uc_nodes c \<Longrightarrow>
    (\<forall>i\<in>uc_consoles c'. i \<in> uc_consoles c \<or> scope_has (uc_scope c) i) \<Longrightarrow> client_ok opened c'"
  by (fastforce simp: client_ok_def)

lemma subscribe_ok: "client_ok opened c \<Longrightarrow> client_ok opened (subscribe msg c)"
  by (erule client_ok_frame) (auto simp: subscribe_def split: option.splits ui_client_message.splits)

lemma subscribe_id [simp]: "uc_id (subscribe msg c) = uc_id c"
  by (simp add: subscribe_def split: option.split ui_client_message.split)

lemma client_ok_seen: "client_ok opened c \<Longrightarrow> visible_to c ev \<Longrightarrow>
    \<exists>st u. opened (uc_id c) = Some (st, u) \<and> may_see st u ev"
  by (auto simp: client_ok_def visible_to_def may_see_def in_node_scope_iff split: option.splits if_splits)

lemma ui_reachable_ok:
  assumes "ui_reachable g opened sent"
  shows "(\<forall>c\<in>set (ug_clients g). client_ok opened c) \<and> distinct (map uc_id (ug_clients g))
    \<and> (\<forall>cid ev. Ui_Send cid ev \<in> set sent \<longrightarrow> (\<exists>st u. opened cid = Some (st, u) \<and> may_see st u ev))"
  using assms
proof induction
  case ui_start
  then show ?case by simp
next
  case (ui_opened g opened sent cid u st)
  have old: "uc_id c \<noteq> cid" if "c \<in> set (ug_clients g)" for c
    using ui_opened that by (auto simp: client_ok_def)
  then show ?case using ui_opened
    by (fastforce simp: add_client_def client_ok_def may_see_def)
next
  case (ui_message g opened sent cid msg)
  then show ?case
    by (auto simp: on_ui_message_def subscribe_ok comp_def if_distrib [of uc_id] cong: if_cong)
next
  case (ui_broadcast g opened sent throws ev g' outs)
  then show ?case using client_ok_seen by (fastforce simp: broadcast_eq distinct_map_filter)
next
  case (ui_disconnect g opened sent who)
  then show ?case by (auto simp: disconnect_user_def)
next
  case (ui_reconnect g opened sent who)
  then show ?case by (auto simp: reconnect_user_def)
next
  case (ui_closed g opened sent cid)
  then show ?case by (simp add: remove_client_def distinct_map_filter)
qed

section \<open>Properties\<close>

text \<open>C17. Whatever the browsers send and whichever sockets fail, no socket is ever sent an instance event
  outside the scope its user had when it opened, a node event of a node the user does not own or a
  template event unless the user is an administrator; console lines go only to sockets that follow the
  instance, and a broadcast sends to each visible working socket once and forgets the ones that fail.\<close>

theorem sockets_stay_in_scope:
  assumes "ui_reachable g opened sent"
  shows "(\<forall>cid ev. Ui_Send cid ev \<in> set sent \<longrightarrow> (\<exists>st u. opened cid = Some (st, u) \<and> may_see st u ev))
    \<and> (\<forall>c\<in>set (ug_clients g). \<forall>i\<in>uc_consoles c. scope_has (uc_scope c) i)
    \<and> snd (broadcast throws ev g)
        = map (\<lambda>c. Ui_Send (uc_id c) ev) (filter (\<lambda>c. visible_to c ev \<and> \<not> throws (uc_id c)) (ug_clients g))
    \<and> distinct (snd (broadcast throws ev g))
    \<and> ug_clients (fst (broadcast throws ev g)) = filter (\<lambda>c. \<not> (visible_to c ev \<and> throws (uc_id c))) (ug_clients g)
    \<and> (is_console_event ev \<longrightarrow> event_instance ev = Some i \<longrightarrow>
        snd (broadcast throws ev g) \<noteq> [] \<longrightarrow> has_console_listeners i g)"
proof -
  note ok = ui_reachable_ok [OF assms]
  have "distinct (map (\<lambda>c. Ui_Send (uc_id c) ev) (filter P (ug_clients g)))" for P
    using ok by (auto simp: distinct_map inj_on_def)
  moreover have "filter (\<lambda>c. uc_id c \<notin> uc_id ` {d \<in> set (ug_clients g). visible_to d ev \<and> throws (uc_id d)}) (ug_clients g)
      = filter (\<lambda>c. \<not> (visible_to c ev \<and> throws (uc_id c))) (ug_clients g)"
    using ok by (intro filter_cong) (auto simp: distinct_map inj_on_def)
  moreover have "has_console_listeners i g" if "is_console_event ev" "event_instance ev = Some i"
      "filter (\<lambda>c. visible_to c ev \<and> \<not> throws (uc_id c)) (ug_clients g) \<noteq> []"
    using that by (auto simp: filter_empty_conv has_console_listeners_def list_ex_iff visible_to_def split: if_splits)
  ultimately show ?thesis using ok by (auto simp: broadcast_eq client_ok_def)
qed

definition sample_gateway :: ui_gateway where
  "sample_gateway = on_ui_message 7 (Some (Sub 2)) (on_ui_message 7 (Some (Sub 1))
     (add_client 7 (u_id sample_user) (u_role sample_user = Admin) (scope_for_user sample_store sample_user)
       (node_scope_for_user sample_store sample_user) \<lparr>ug_clients = []\<rparr>))"

lemma sample_gateway_reachable:
  "ui_reachable sample_gateway (Map.empty(7 \<mapsto> (sample_store, sample_user))) ([] @ [Ui_Send 7 (Hello_Event (u_id sample_user)) :: (unit, unit) ui_output])"
  unfolding sample_gateway_def by (intro ui_message ui_opened ui_start) simp

lemma sample_scope: "scope_for_user sample_store sample_user = Some [1 \<mapsto> Viewer]"
  by (simp add: scope_for_user_def sample_store_defs Let_def)

lemma sample_clients: "ug_clients sample_gateway = [\<lparr>uc_id = 7, uc_user_id = 5, uc_admin = False,
    uc_scope = Some [1 \<mapsto> Viewer], uc_nodes = Some {}, uc_consoles = {1}\<rparr>]"
  by (simp add: sample_gateway_def add_client_def on_ui_message_def subscribe_def scope_has_def sample_scope)
    (simp add: node_scope_for_user_def sample_store_defs)

lemma sockets_stay_in_scope_witness:
  "snd (broadcast (\<lambda>_. False) (Instance_Console_Event 1 Console_Stream []) sample_gateway)
      = [Ui_Send 7 (Instance_Console_Event 1 Console_Stream [] :: (unit, unit) ui_event)]
    \<and> snd (broadcast (\<lambda>_. False) (Instance_Updated_Event 2 :: (unit, unit) ui_event) sample_gateway) = []"
  using sockets_stay_in_scope [OF sample_gateway_reachable, where throws = "\<lambda>_. False"
      and ev = "Instance_Console_Event 1 Console_Stream [] :: (unit, unit) ui_event" and i = 1]
    sockets_stay_in_scope [OF sample_gateway_reachable, where throws = "\<lambda>_. False"
      and ev = "Instance_Updated_Event 2 :: (unit, unit) ui_event" and i = 1]
  by (simp add: sample_clients visible_to_def in_scope_def)

end
