(* ===== verification/Users.thy ===== *)
theory Users
  imports Sign_In Ui_Gateway
begin

text \<open>
  User administration (server/src/modules/users/service.ts, with the role check of users/routes.ts) and
  the upgrade of /ws/ui (ws/routes.ts). An operation answers what it tells the rest of the server as a
  list of effects, which \<open>socket_effects\<close> carries out on the browser sockets. Deleting a user takes the
  rows that refer to it along, as the foreign keys of the auth tables say.
\<close>

datatype user_effect = Reconnect_User nat | Disconnect_User nat | Access_Changed "nat list"

record create_user_body =
  cu_email :: string
  cu_name :: string
  cu_role :: role

record update_user_body =
  uu_name :: "string option"
  uu_role :: "role option"
  uu_disabled :: "bool option"
  uu_two_factor_enabled :: "bool option"

section \<open>Operations\<close>

definition admin_count :: "auth \<Rightarrow> nat" where
  "admin_count st = length (filter (\<lambda>u. u_role u = Admin \<and> \<not> u_disabled u) (a_users st))"

definition get_user :: "auth \<Rightarrow> nat \<Rightarrow> user_row result" where
  "get_user st who = (case Auth_Models.find_user st who of None \<Rightarrow> Inl (not_found ''User'') | Some u \<Rightarrow> Inr u)"

definition directory :: "auth \<Rightarrow> (nat \<times> string \<times> string \<times> role) list" where
  "directory st = map (\<lambda>u. (u_id u, u_name u, u_email u, u_role u))
     (sort_key u_name (filter (\<lambda>u. u_disabled u = False) (a_users st)))"

definition create_user :: "string \<Rightarrow> create_user_body \<Rightarrow> auth \<Rightarrow> auth \<times> user_row result" where
  "create_user hash input st = (let email = js_lower (cu_email input) in
     if user_by_email st email \<noteq> None then (st, Inl (conflict ''A user with that email already exists''))
     else let u = \<lparr>u_id = a_next_id st, u_email = email, u_name = cu_name input, u_password_hash = hash,
                   u_role = cu_role input, u_disabled = False, u_two_factor_email = False,
                   u_totp_secret = None, u_totp_enabled_at = None, u_totp_last_step = None,
                   u_last_login_at = None\<rparr> in
       (st\<lparr>a_users := a_users st @ [u], a_next_id := a_next_id st + 1\<rparr>, Inr u))"

definition is_demoting :: "update_user_body \<Rightarrow> user_row \<Rightarrow> bool" where
  "is_demoting input u \<longleftrightarrow> uu_role input \<noteq> None \<and> uu_role input \<noteq> Some Admin \<and> u_role u = Admin"

definition is_disabling :: "update_user_body \<Rightarrow> user_row \<Rightarrow> bool" where
  "is_disabling input u \<longleftrightarrow> uu_disabled input = Some True \<and> \<not> u_disabled u"

definition updated_user :: "update_user_body \<Rightarrow> user_row \<Rightarrow> user_row" where
  "updated_user input u = u\<lparr>u_name := (case uu_name input of None \<Rightarrow> u_name u | Some n \<Rightarrow> n),
     u_role := (case uu_role input of None \<Rightarrow> u_role u | Some r \<Rightarrow> r),
     u_disabled := (case uu_disabled input of None \<Rightarrow> u_disabled u | Some d \<Rightarrow> d)\<rparr>"

definition update_effects :: "nat \<Rightarrow> bool \<Rightarrow> bool \<Rightarrow> user_effect list" where
  "update_effects who role_changed disabling =
     (if role_changed then [Reconnect_User who] else [])
     @ (if role_changed \<or> disabling then [Access_Changed [who]] else [])"

definition update_user :: "nat \<Rightarrow> update_user_body \<Rightarrow> nat \<Rightarrow> auth \<Rightarrow> auth \<times> user_effect list \<times> user_row result" where
  "update_user who input actor st = (case get_user st who of
     Inl e \<Rightarrow> (st, [], Inl e)
   | Inr u \<Rightarrow>
       if (is_demoting input u \<or> is_disabling input u) \<and> admin_count st \<le> 1 \<and> u_role u = Admin
       then (st, [], Inl (bad_request ''Cannot remove the last administrator''))
       else if who = actor \<and> (is_demoting input u \<or> is_disabling input u)
       then (st, [], Inl (bad_request ''You cannot demote or disable your own account''))
       else let role_changed = (uu_role input \<noteq> None \<and> uu_role input \<noteq> Some (u_role u));
                u1 = updated_user input u;
                st1 = save_user u1 st;
                st2 = (if uu_disabled input = Some True then end_sessions who None st1 else st1);
                resets = (uu_two_factor_enabled input = Some False \<and> has_two_factor u1);
                st3 = (if resets then admin_reset u1 st2 else st2) in
         (st3, update_effects who role_changed (is_disabling input u), Inr (if resets then factorless u1 else u1)))"

definition destroy_user :: "nat \<Rightarrow> auth \<Rightarrow> auth" where
  "destroy_user who st = st\<lparr>
     a_users := filter (\<lambda>u. u_id u \<noteq> who) (a_users st),
     a_sessions := filter (\<lambda>s. se_user_id s \<noteq> who) (a_sessions st),
     a_challenges := filter (\<lambda>c. ch_user_id c \<noteq> who) (a_challenges st),
     a_recovery := filter (\<lambda>r. rc_user_id r \<noteq> who) (a_recovery st),
     a_resets := filter (\<lambda>r. pwr_user_id r \<noteq> who) (a_resets st),
     a_tokens := filter (\<lambda>t. at_user_id t \<noteq> who) (a_tokens st),
     a_audit := map (\<lambda>e. if au_actor e = Some who then e\<lparr>au_actor := None\<rparr> else e) (a_audit st)\<rparr>"

definition remove_user :: "nat \<Rightarrow> nat \<Rightarrow> auth \<Rightarrow> auth \<times> user_effect list \<times> unit result" where
  "remove_user who actor st =
     (if who = actor then (st, [], Inl (bad_request ''You cannot delete your own account''))
      else case get_user st who of
        Inl e \<Rightarrow> (st, [], Inl e)
      | Inr u \<Rightarrow>
          if u_role u = Admin \<and> admin_count st \<le> 1
          then (st, [], Inl (bad_request ''Cannot delete the last administrator''))
          else (destroy_user who st, [Disconnect_User who, Access_Changed [who]], Inr ()))"

definition reset_user_password :: "nat \<Rightarrow> string \<Rightarrow> auth \<Rightarrow> auth \<times> unit result" where
  "reset_user_password who hash st = (case get_user st who of
     Inl e \<Rightarrow> (st, Inl e)
   | Inr u \<Rightarrow> (end_sessions who None (save_user (u\<lparr>u_password_hash := hash\<rparr>) st), Inr ()))"

section \<open>Browser sockets\<close>

definition socket_effect :: "ui_gateway \<Rightarrow> user_effect \<Rightarrow> ('m, 'p) ui_output list" where
  "socket_effect g eff = (case eff of
     Reconnect_User who \<Rightarrow> reconnect_user who g
   | Disconnect_User who \<Rightarrow> disconnect_user who g
   | Access_Changed _ \<Rightarrow> [])"

definition socket_effects :: "ui_gateway \<Rightarrow> user_effect list \<Rightarrow> ('m, 'p) ui_output list" where
  "socket_effects g effs = concat (map (socket_effect g) effs)"

text \<open>
  The upgrade: \<open>origin\<close> is the request's Origin header, \<open>own\<close> the origin the request was made to. The
  answer is 403 or 401, or the client to add when the socket opens.
\<close>

definition ui_upgrade :: "string \<Rightarrow> string \<Rightarrow> string option \<Rightarrow> 'k crypto \<Rightarrow> int \<Rightarrow> string option \<Rightarrow> store \<Rightarrow> auth \<Rightarrow>
    auth \<times> (int + nat \<times> bool \<times> instance_scope \<times> nat set option)" where
  "ui_upgrade site own origin cr now cookie tables st =
     (if (case truthy origin of None \<Rightarrow> False | Some o' \<Rightarrow> o' \<notin> {site, own}) then (st, Inl 403)
      else case truthy cookie of
        None \<Rightarrow> (st, Inl 401)
      | Some sid \<Rightarrow> (case resolve_session cr now sid st of
          (st', None) \<Rightarrow> (st', Inl 401)
        | (st', Some (s, u)) \<Rightarrow>
            (st', Inr (u_id u, u_role u = Admin, scope_for_user tables u, node_scope_for_user tables u))))"

section \<open>Accounts under every operation\<close>

definition account_of :: "user_row \<Rightarrow> nat \<times> string \<times> role \<times> bool" where
  "account_of u = (u_id u, u_email u, u_role u, u_disabled u)"

definition accounts :: "auth \<Rightarrow> (nat \<times> string \<times> role \<times> bool) list" where
  "accounts st = map account_of (a_users st)"

text \<open>Whatever leaves the user table alone is \<open>as_other\<close>: sessions, tokens, reset requests, audit.\<close>

inductive account_step :: "'k crypto \<Rightarrow> auth \<Rightarrow> auth \<Rightarrow> bool" for cr where
  as_create: "account_step cr st (fst (create_user hash input st))"
| as_update: "account_step cr st (fst (update_user who changes actor st))"
| as_remove: "account_step cr st (fst (remove_user who actor st))"
| as_password: "account_step cr st (fst (reset_user_password who hash st))"
| as_factor: "factor_step cr st st' \<Longrightarrow> account_step cr st st'"
| as_login: "Auth_Models.find_user st who = Some u \<Longrightarrow> account_step cr st (complete_login cr now token u meta st)"
| as_change: "Auth_Models.find_user st who = Some u \<Longrightarrow>
    account_step cr st (fst (change_password cr u current hash keep st))"
| as_link: "account_step cr st (fst (reset_end hash row u st))"
| as_other: "a_users st' = a_users st \<Longrightarrow> a_next_id st \<le> a_next_id st' \<Longrightarrow> account_step cr st st'"

inductive account_reaches :: "'k crypto \<Rightarrow> auth \<Rightarrow> auth \<Rightarrow> bool" for cr st where
  ar_refl: "account_reaches cr st st"
| ar_step: "account_reaches cr st st' \<Longrightarrow> account_step cr st' st'' \<Longrightarrow> account_reaches cr st st''"

definition staffed :: "auth \<Rightarrow> bool" where
  "staffed st \<longleftrightarrow> distinct (map u_id (a_users st)) \<and> (\<forall>u\<in>set (a_users st). u_id u < a_next_id st)
     \<and> distinct (map u_email (a_users st)) \<and> (\<exists>u\<in>set (a_users st). u_role u = Admin \<and> \<not> u_disabled u)"

lemma staffed_accounts: "staffed st \<longleftrightarrow> distinct (map fst (accounts st)) \<and> (\<forall>a\<in>set (accounts st). fst a < a_next_id st)
    \<and> distinct (map (fst \<circ> snd) (accounts st)) \<and> (\<exists>a\<in>set (accounts st). fst (snd (snd a)) = Admin \<and> \<not> snd (snd (snd a)))"
  by (simp add: staffed_def accounts_def account_of_def comp_def)

lemma accounts_cong: "a_users st' = a_users st \<Longrightarrow> accounts st' = accounts st"
  by (simp add: accounts_def)

lemma staffed_same:
  assumes "staffed st" and "accounts st' = accounts st" and "a_next_id st \<le> a_next_id st'"
  shows "staffed st'"
  using assms unfolding staffed_accounts by (metis less_le_trans)

lemma same_user: "distinct (map u_id us) \<Longrightarrow> v \<in> set us \<Longrightarrow> find (\<lambda>u. u_id u = k) us = Some u \<Longrightarrow> u_id v = k \<Longrightarrow> v = u"
  using find_SomeD [of "\<lambda>u. u_id u = k" us u] by (auto simp: distinct_map inj_on_def)

lemma accounts_saved:
  assumes "distinct (map u_id (a_users st))" and "Auth_Models.find_user st who = Some u" and "account_of u' = account_of u"
  shows "accounts (save_user u' st) = accounts st"
proof -
  have "account_of (if u_id v = u_id u' then u' else v) = account_of v" if "v \<in> set (a_users st)" for v
    using same_user [OF assms(1) that assms(2) [unfolded Auth_Models.find_user_def]] find_user_id [OF assms(2)] assms(3)
    by (auto simp: account_of_def)
  then show ?thesis by (simp add: accounts_def save_user_def)
qed

lemma admin_count_pos: "admin_count st = 0 \<longleftrightarrow> \<not> (\<exists>u\<in>set (a_users st). u_role u = Admin \<and> \<not> u_disabled u)"
  by (auto simp: admin_count_def filter_empty_conv)

text \<open>Two administrators that count are not both the same user.\<close>

lemma other_admin:
  assumes "distinct (map u_id (a_users st))" and "1 < admin_count st"
  shows "\<exists>v\<in>set (a_users st). u_id v \<noteq> who \<and> u_role v = Admin \<and> \<not> u_disabled v"
proof (rule ccontr)
  let ?as = "filter (\<lambda>u. u_role u = Admin \<and> \<not> u_disabled u) (a_users st)"
  assume "\<not> ?thesis"
  then have "u_id ` set ?as \<subseteq> {who}" by auto
  then have "card (u_id ` set ?as) \<le> 1" using card_mono [of "{who}"] by simp
  moreover have "card (u_id ` set ?as) = length ?as"
    using distinct_card [of "map u_id ?as"] assms(1) by (simp add: distinct_map_filter)
  ultimately show False using assms(2) by (simp add: admin_count_def)
qed

lemma update_staffed:
  assumes "staffed st"
  shows "staffed (fst (update_user who changes actor st))"
proof (cases "snd (snd (update_user who changes actor st))")
  case (Inl e)
  then have "fst (update_user who changes actor st) = st"
    by (auto simp: update_user_def Let_def split: sum.splits if_splits)
  with assms show ?thesis by simp
next
  case (Inr u')
  then obtain u where u: "Auth_Models.find_user st who = Some u"
    and free: "\<not> ((is_demoting changes u \<or> is_disabling changes u) \<and> admin_count st \<le> 1 \<and> u_role u = Admin)"
    by (auto simp: update_user_def get_user_def Let_def split: sum.splits option.splits if_splits)
  define u1 where "u1 = updated_user changes u"
  let ?st' = "fst (update_user who changes actor st)"
  have ids: "u_id u = who" "u_id u1 = who" "u_email u1 = u_email u"
    using find_user_id [OF u] by (simp_all add: u1_def updated_user_def)
  have acc: "accounts ?st' = map (\<lambda>v. if u_id v = who then account_of u1 else account_of v) (a_users st)"
    and nxt: "a_next_id ?st' = a_next_id st"
    using Inr u ids by (auto simp: update_user_def get_user_def Let_def accounts_def save_user_def admin_reset_def
      end_sessions_def destroy_recovery_of_def destroy_challenges_of_def factorless_def account_of_def
      u1_def [symmetric] split: if_splits)
  have inu: "u \<in> set (a_users st)" using u by (auto simp: Auth_Models.find_user_def dest: find_SomeD)
  have only: "v = u" if "v \<in> set (a_users st)" "u_id v = who" for v
    using same_user [OF _ that(1) u [unfolded Auth_Models.find_user_def] that(2)] assms by (simp add: staffed_def)
  have admin: "\<exists>v\<in>set (a_users st). (u_id v \<noteq> who \<and> u_role v = Admin \<and> \<not> u_disabled v)
      \<or> (v = u \<and> u_role u1 = Admin \<and> \<not> u_disabled u1)"
  proof -
    obtain v where v: "v \<in> set (a_users st)" "u_role v = Admin" "\<not> u_disabled v"
      using assms by (auto simp: staffed_def)
    show ?thesis
    proof (cases "v = u")
      case False
      with v only show ?thesis by blast
    next
      case True
      show ?thesis
      proof (cases "is_demoting changes u \<or> is_disabling changes u")
        case True
        with free v \<open>v = u\<close> have "1 < admin_count st" by auto
        with other_admin [of st who] assms show ?thesis by (auto simp: staffed_def)
      next
        case False
        then have "u_role u1 = Admin" "\<not> u_disabled u1"
          using v \<open>v = u\<close> by (auto simp: u1_def updated_user_def is_demoting_def is_disabling_def split: option.splits)
        with inu show ?thesis by blast
      qed
    qed
  qed
  have "map fst (accounts ?st') = map u_id (a_users st)" "map (fst \<circ> snd) (accounts ?st') = map u_email (a_users st)"
    using only ids by (auto simp: acc account_of_def)
  moreover have "\<exists>a\<in>set (accounts ?st'). fst (snd (snd a)) = Admin \<and> \<not> snd (snd (snd a))"
  proof -
    obtain v where v: "v \<in> set (a_users st)" "(u_id v \<noteq> who \<and> u_role v = Admin \<and> \<not> u_disabled v)
        \<or> (v = u \<and> u_role u1 = Admin \<and> \<not> u_disabled u1)" using admin by blast
    let ?w = "if u_id v = who then u1 else v"
    have "account_of ?w \<in> set (accounts ?st')" using v(1) by (auto simp: acc)
    moreover have "u_role ?w = Admin \<and> \<not> u_disabled ?w" using v(2) ids(1) by auto
    ultimately show ?thesis by (auto simp: account_of_def intro: bexI [of _ "account_of ?w"])
  qed
  moreover have "fst a < a_next_id ?st'" if "a \<in> set (accounts ?st')" for a
    using assms that only ids nxt by (auto simp: acc account_of_def staffed_def split: if_splits)
  moreover have "distinct (map u_id (a_users st))" "distinct (map u_email (a_users st))"
    using assms by (simp_all add: staffed_def)
  ultimately show ?thesis unfolding staffed_accounts by simp
qed

lemma create_staffed: "staffed st \<Longrightarrow> staffed (fst (create_user hash input st))"
  by (auto simp: create_user_def Let_def staffed_def user_by_email_def find_None_iff less_Suc_eq)

lemma remove_staffed:
  assumes "staffed st"
  shows "staffed (fst (remove_user who actor st))"
proof (cases "snd (snd (remove_user who actor st))")
  case (Inl e)
  then have "fst (remove_user who actor st) = st"
    by (auto simp: remove_user_def split: sum.splits if_splits)
  with assms show ?thesis by simp
next
  case (Inr x)
  then obtain u where u: "Auth_Models.find_user st who = Some u" "\<not> (u_role u = Admin \<and> admin_count st \<le> 1)"
    and st': "fst (remove_user who actor st) = destroy_user who st"
    by (auto simp: remove_user_def get_user_def split: sum.splits option.splits if_splits)
  obtain v where v: "v \<in> set (a_users st)" "u_role v = Admin" "\<not> u_disabled v"
    using assms by (auto simp: staffed_def)
  have "\<exists>v\<in>set (a_users st). u_id v \<noteq> who \<and> u_role v = Admin \<and> \<not> u_disabled v"
  proof (cases "u_id v = who")
    case True
    with same_user [OF _ v(1) u(1) [unfolded Auth_Models.find_user_def]] assms v u(2) have "1 < admin_count st"
      by (auto simp: staffed_def)
    with other_admin [of st who] assms show ?thesis by (simp add: staffed_def)
  next
    case False
    with v show ?thesis by blast
  qed
  then show ?thesis
    using assms by (auto simp: st' staffed_def destroy_user_def distinct_map_filter)
qed

lemma accounts_frame [simp]:
  "accounts (add_audit a x t st) = accounts st" "accounts (save_challenge ch st) = accounts st"
  "accounts (destroy_challenge c st) = accounts st" "accounts (destroy_challenges_of who st) = accounts st"
  "accounts (count_failure now who st) = accounts st" "accounts (destroy_recovery_of who st) = accounts st"
  "accounts (end_sessions who k st) = accounts st" "accounts (fst (issue_recovery_codes cr cs who st)) = accounts st"
  "accounts (fst (recovery_codes_if_none cr cs who st)) = accounts st"
  by (rule accounts_cong, simp add: end_sessions_def)+

lemma next_id_frame [simp]:
  "a_next_id (save_challenge ch st) = a_next_id st" "a_next_id (destroy_challenge c st) = a_next_id st"
  "a_next_id (destroy_challenges_of who st) = a_next_id st" "a_next_id (count_failure now who st) = a_next_id st"
  "a_next_id (destroy_recovery_of who st) = a_next_id st" "a_next_id (end_sessions who k st) = a_next_id st"
  "a_next_id st \<le> a_next_id (fst (issue_recovery_codes cr cs who st))"
  "a_next_id st \<le> a_next_id (fst (recovery_codes_if_none cr cs who st))"
  by (simp_all add: save_challenge_def destroy_challenge_def destroy_challenges_of_def count_failure_def
    destroy_recovery_of_def end_sessions_def issue_recovery_codes_def recovery_codes_if_none_def Let_def split_def)

lemma failures_frame [simp]: "accounts (st\<lparr>a_failures := l\<rparr>) = accounts st"
  by (simp add: accounts_def)

lemma next_if_none: "n \<le> a_next_id st \<Longrightarrow> n \<le> a_next_id (fst (recovery_codes_if_none cr cs who st))"
  using next_id_frame(8) [of st cr cs who] by linarith

text \<open>What a step may do to the user table without touching an id, address, role or the disabled flag.\<close>

definition same_accounts :: "auth \<Rightarrow> auth \<Rightarrow> bool" where
  "same_accounts st st' \<longleftrightarrow> accounts st' = accounts st \<and> a_next_id st \<le> a_next_id st'"

lemma same_accounts_refl [simp]: "same_accounts st st"
  by (simp add: same_accounts_def)

lemma send_same: "same_accounts st (fst (send_email_code cr now fresh ok ch u st))"
  by (simp add: same_accounts_def send_email_code_def Let_def accounts_def save_challenge_def)

lemma new_challenge_same: "same_accounts st (fst (new_challenge now cid who p meta st))"
  by (simp add: same_accounts_def new_challenge_def Let_def accounts_def)

lemma same_accounts_trans [trans]: "same_accounts a b \<Longrightarrow> same_accounts b c \<Longrightarrow> same_accounts a c"
  by (auto simp: same_accounts_def)

lemma reject_same: "same_accounts st (fst (reject_code now ch u st))"
  by (simp add: same_accounts_def reject_code_def Let_def accounts_def)

lemma saved_same:
  assumes "distinct (map u_id (a_users st))" and "Auth_Models.find_user st who = Some u" and "account_of u' = account_of u"
  shows "same_accounts st (save_user u' st)"
  using accounts_saved [OF assms] by (simp add: same_accounts_def)

lemmas same_simps = same_accounts_def Let_def split_def

lemma complete_same:
  "distinct (map u_id (a_users st)) \<Longrightarrow> Auth_Models.find_user st who = Some u \<Longrightarrow> same_accounts st (complete_login cr now token u meta st)"
proof -
  assume "distinct (map u_id (a_users st))" "Auth_Models.find_user st who = Some u"
  moreover have "a_users (create_session cr now token (u_id u) meta st) = a_users st"
    "a_next_id (create_session cr now token (u_id u) meta st) = a_next_id st" by (simp_all add: create_session_def)
  ultimately show ?thesis
    using saved_same [of "create_session cr now token (u_id u) meta st" who u "u\<lparr>u_last_login_at := Some now\<rparr>"]
      find_user_cong [of "create_session cr now token (u_id u) meta st" st]
      accounts_cong [of "create_session cr now token (u_id u) meta st" st]
    by (simp add: complete_login_def same_accounts_def account_of_def)
qed

lemma change_same:
  "distinct (map u_id (a_users st)) \<Longrightarrow> Auth_Models.find_user st who = Some u \<Longrightarrow>
    same_accounts st (fst (change_password cr u current hash keep st))"
  using saved_same [of st who u "u\<lparr>u_password_hash := hash\<rparr>"]
  by (simp add: change_password_def same_accounts_def account_of_def)

lemma set_password_same: "distinct (map u_id (a_users st)) \<Longrightarrow> same_accounts st (set_password who hash st)"
  using saved_same [of st who] by (simp add: set_password_def account_of_def split: option.split)

lemma reset_end_same:
  assumes "distinct (map u_id (a_users st))"
  shows "same_accounts st (fst (reset_end hash row u st))"
  using set_password_same [of "st\<lparr>a_resets := filter (\<lambda>r. pwr_token_hash r \<noteq> pwr_token_hash row) (a_resets st)\<rparr>" "u_id u" hash]
    accounts_cong [of "st\<lparr>a_resets := filter (\<lambda>r. pwr_token_hash r \<noteq> pwr_token_hash row) (a_resets st)\<rparr>" st] assms
  by (simp add: reset_end_def same_accounts_def Let_def)

lemma reset_password_same: "distinct (map u_id (a_users st)) \<Longrightarrow> same_accounts st (fst (reset_user_password who hash st))"
  using saved_same [of st who]
  by (simp add: reset_user_password_def get_user_def account_of_def same_accounts_def split: option.split)

lemma matches_same:
  assumes "distinct (map u_id (a_users st))"
  shows "same_accounts st (fst (factor_matches cr now f ch u entered st))"
proof -
  have claim: "same_accounts st (fst (claim_step who step st))" for who step
    using saved_same [OF assms, of who] by (simp add: claim_step_def account_of_def split: option.split)
  have "same_accounts st (fst (use_recovery_code cr now who entered st))" for who
    by (simp add: use_recovery_code_def same_accounts_def accounts_def split: option.split)
  with claim show ?thesis
    by (simp add: factor_matches_def totp_matches_def split: second_factor.split option.split)
qed

lemma verify_same:
  assumes "distinct (map u_id (a_users st))"
  shows "same_accounts st (fst (verify_login cr now cid entered m st))"
proof (cases "load_challenge now cid Login_Purpose st")
  case (Some c)
  obtain ch u where c: "c = (ch, u)" by (cases c)
  let ?f = "factor_matches cr now (chosen_factor u entered m) ch u entered st"
  have f: "same_accounts st (fst ?f)" by (rule matches_same [OF assms])
  then have "same_accounts st (fst (reject_code now ch u (fst ?f)))"
    "same_accounts st (destroy_challenge (ch_id ch) (fst ?f))"
    using reject_same same_accounts_trans by (blast, simp add: same_accounts_def)
  with f Some c show ?thesis
    by (simp add: verify_login_def Let_def split_def split: sum.split)
qed (simp add: verify_login_def)

lemma sent_same: "same_accounts st (fst (send_email_code cr now fresh ok ch u (fst (new_challenge now cid who p meta st))))"
  using new_challenge_same send_same same_accounts_trans by blast

lemma factor_step_same:
  assumes "factor_step cr st st'" and ids: "distinct (map u_id (a_users st))"
  shows "same_accounts st st'"
  using assms(1)
proof cases
  case (fs_start_login who u cid now fresh mail_ok meta)
  then show ?thesis
    using sent_same new_challenge_same
    by (auto simp: start_login_def Let_def split_def split: list.split two_factor_method.split)
next
  case (fs_verify now cid entered m)
  then show ?thesis using verify_same [OF ids] by simp
next
  case (fs_resend now cid p fresh mail_ok)
  then show ?thesis
    using send_same by (auto simp: resend_def split_def split: option.split sum.split)
next
  case (fs_start_email who u cid now fresh smtp_on mail_ok meta)
  then show ?thesis
    using sent_same [of st cr now fresh mail_ok] unfolding fs_start_email
    by (auto simp: start_email_def same_simps split: option.split)
next
  case (fs_confirm_email who u now codes cid entered)
  have saved: "same_accounts (destroy_challenge c st) (save_user (u\<lparr>u_two_factor_email := True\<rparr>) (destroy_challenge c st))" for c
    using saved_same [of "destroy_challenge c st" who u] ids fs_confirm_email(2) by (simp add: account_of_def)
  show ?thesis
    using saved reject_same [of st] unfolding fs_confirm_email
    by (auto simp: confirm_email_def same_simps intro: next_if_none split: option.split sum.split)
next
  case (fs_start_totp who u secret password)
  then show ?thesis
    using saved_same [OF ids, of who u] by (simp add: start_totp_def account_of_def split: sum.split)
next
  case (fs_confirm_totp who u now codes entered)
  then show ?thesis
    using saved_same [OF ids, of who u "u\<lparr>u_totp_enabled_at := Some now, u_totp_last_step := s\<rparr>" for s]
    by (auto simp: confirm_totp_def same_simps account_of_def intro: next_if_none split: option.split)
next
  case (fs_disable who u m password)
  then show ?thesis
    using saved_same [OF ids, of who u "without_factor m u"]
    by (simp add: disable_factor_def same_simps account_of_def without_factor_def split: sum.split two_factor_method.split)
next
  case (fs_regenerate who u codes password)
  then show ?thesis by (simp add: regenerate_recovery_codes_def same_simps split: sum.split)
next
  case (fs_admin_reset who u)
  then show ?thesis
    using saved_same [OF ids, of who u "factorless u"] by (simp add: admin_reset_def same_simps factorless_def account_of_def)
next
  case (fs_purge now)
  then show ?thesis by (simp add: purge_expired_challenges_def same_accounts_def accounts_def)
qed

lemma account_step_staffed:
  assumes "account_step cr st st'" and "staffed st"
  shows "staffed st'"
proof -
  have ids: "distinct (map u_id (a_users st))" using assms(2) by (simp add: staffed_def)
  have same: "staffed st'" if "same_accounts st st'" for st'
    using that staffed_same [OF assms(2)] by (simp add: same_accounts_def)
  from assms(1) show ?thesis
  proof cases
    case (as_create hash input)
    then show ?thesis by (simp add: create_staffed assms(2))
  next
    case (as_update who changes actor)
    then show ?thesis by (simp add: update_staffed assms(2))
  next
    case (as_remove who actor)
    then show ?thesis by (simp add: remove_staffed assms(2))
  next
    case (as_password who hash)
    then show ?thesis by (simp add: same reset_password_same ids)
  next
    case as_factor
    then show ?thesis by (simp add: same factor_step_same ids)
  next
    case (as_login who u now token meta)
    show ?thesis using same [OF complete_same [OF ids as_login(2)]] as_login(1) by simp
  next
    case (as_change who u current hash keep)
    show ?thesis using same [OF change_same [OF ids as_change(2)]] as_change(1) by simp
  next
    case (as_link hash row u)
    then show ?thesis by (simp add: same reset_end_same ids)
  next
    case as_other
    have "same_accounts st st'" using accounts_cong [OF as_other(1)] as_other(2) by (simp add: same_accounts_def)
    then show ?thesis by (rule same)
  qed
qed

lemma account_reaches_staffed: "account_reaches cr st st' \<Longrightarrow> staffed st \<Longrightarrow> staffed st'"
  by (induction rule: account_reaches.induct) (simp_all add: account_step_staffed)

section \<open>Properties\<close>

text \<open>C6. Once the first administrator is set up, an administrator who is not disabled exists after any
  sequence of user administration, sign-ins, password changes and second-factor operations, ids and
  email addresses stay unique, and setup cannot run again.\<close>

theorem administrator_remains:
  assumes "setup_end now email name hash st0 = (st, Inr u)" and "account_reaches cr st st'"
  shows "0 < admin_count st' \<and> distinct (map u_id (a_users st')) \<and> distinct (map u_email (a_users st'))
    \<and> setup_begin st' = Inl (conflict ''Setup has already been completed'')"
proof -
  have "staffed st"
    using assms(1) by (auto simp: setup_end_def Let_def new_user_def staffed_def split: if_splits)
  with account_reaches_staffed [OF assms(2)] have "staffed st'" .
  then show ?thesis
    using admin_count_pos [of st'] by (auto simp: staffed_def setup_begin_def setup_required_def guard_def)
qed

lemma disabled_no_caller:
  assumes "Auth_Models.find_user st who = Some v" and "u_disabled v"
  shows "cl_user (snd (session_middleware cr now rq st)) \<noteq> Some u \<or> u_id u \<noteq> who"
    and "load_challenge now cid p st \<noteq> Some (ch, u) \<or> u_id u \<noteq> who"
    and "reset_begin cr now token st \<noteq> Inr (row, u) \<or> u_id u \<noteq> who"
proof -
  have "Auth_Models.find_user st (u_id u) = Some u \<and> \<not> u_disabled u"
    if c: "cl_user (snd (session_middleware cr now rq st)) = Some u"
  proof -
    have cookie: "?thesis" if ck: "cl_user (snd (cookie_caller cr now rq st)) = Some u"
    proof -
      from ck obtain sid st' and s :: session_row where "resolve_session cr now sid st = (st', Some (s, u))"
        by (auto simp: cookie_caller_def anonymous_def split: option.splits prod.splits)
      with resolve_session_Some find_user_id show ?thesis by metis
    qed
    have bearer: "?thesis" if br: "cl_user (snd (bearer_caller cr now b st)) = Some u" for b
    proof -
      from br obtain t :: api_token where "Auth_Models.find_user (fst (resolve_api_token cr now b st)) (at_user_id t) = Some u
        \<and> \<not> u_disabled u"
        by (auto simp: bearer_caller_def anonymous_def split: option.splits prod.splits if_splits)
      with find_user_cong [OF resolve_token_users [of cr now b st]] find_user_id [of st] show ?thesis by fastforce
    qed
    show ?thesis
      using c cookie bearer by (auto simp: session_middleware_def split: option.splits if_splits)
  qed
  with assms show "cl_user (snd (session_middleware cr now rq st)) \<noteq> Some u \<or> u_id u \<noteq> who" by auto
  show "load_challenge now cid p st \<noteq> Some (ch, u) \<or> u_id u \<noteq> who"
    using assms load_challengeD [of now cid p st ch u] by auto
  show "reset_begin cr now token st \<noteq> Inr (row, u) \<or> u_id u \<noteq> who"
    using assms by (auto simp: reset_begin_def find_user_id split: option.splits if_splits)
qed

lemma user_update_Inr:
  assumes "update_user who changes actor st = (st', effs, Inr u')"
  shows "\<exists>u u2. Auth_Models.find_user st who = Some u \<and> Auth_Models.find_user st' who = Some u2
    \<and> u_disabled u2 = u_disabled (updated_user changes u)
    \<and> (uu_disabled changes = Some True \<longrightarrow> (\<forall>s\<in>set (a_sessions st'). se_user_id s \<noteq> who))
    \<and> effs = update_effects who (uu_role changes \<noteq> None \<and> uu_role changes \<noteq> Some (u_role u)) (is_disabling changes u)"
proof -
  obtain u where u: "Auth_Models.find_user st who = Some u"
    using assms by (auto simp: update_user_def get_user_def split: option.splits)
  then have "u_id u = who" by (rule find_user_id)
  then have ids: "u_id (updated_user changes u) = who" by (simp add: updated_user_def)
  let ?u1 = "updated_user changes u"
  let ?st2 = "if uu_disabled changes = Some True then end_sessions who None (save_user ?u1 st) else save_user ?u1 st"
  let ?resets = "uu_two_factor_enabled changes = Some False \<and> has_two_factor ?u1"
  have eqs: "st' = (if ?resets then admin_reset ?u1 ?st2 else ?st2)"
      "effs = update_effects who (uu_role changes \<noteq> None \<and> uu_role changes \<noteq> Some (u_role u)) (is_disabling changes u)"
    using assms u by (auto simp: update_user_def get_user_def Let_def split: if_splits)
  have f2: "Auth_Models.find_user ?st2 who = Some ?u1" using u ids by simp
  have "Auth_Models.find_user (st\<lparr>a_failures := l\<rparr>) = Auth_Models.find_user st" for st l
    by (simp add: Auth_Models.find_user_def fun_eq_iff)
  then have "Auth_Models.find_user st' who = Some (if ?resets then factorless ?u1 else ?u1)"
    using f2 ids by (simp add: eqs(1) admin_reset_def Let_def factorless_def)
  moreover have "\<forall>s\<in>set (a_sessions st'). se_user_id s \<noteq> who" if "uu_disabled changes = Some True"
    using that by (auto simp: eqs(1) admin_reset_def Let_def end_sessions_mem destroy_recovery_of_def
      destroy_challenges_of_def save_user_def end_sessions_def)
  ultimately show ?thesis using u eqs(2) by (auto simp: factorless_def)
qed

text \<open>An account that is disabled is locked out at once: its sessions are gone, and no request, sign-in
  challenge or reset link acts as it, API tokens included. Its open browser sockets are not closed,
  though: unless the role changes too, nothing is said to them and they keep getting events, console
  lines included. Deleting the user closes each of them and leaves nothing of the account.\<close>

theorem disabled_locked_out_but_connected:
  assumes "update_user who changes actor st = (st1, effs1, Inr u1)" and "uu_disabled changes = Some True"
    and "remove_user who actor st = (st2, effs2, Inr ())"
  shows "(\<forall>s\<in>set (a_sessions st1). se_user_id s \<noteq> who)
    \<and> (\<forall>(cr :: 'a crypto) now rq. map_option u_id (cl_user (snd (session_middleware cr now rq st1))) \<noteq> Some who)
    \<and> (\<forall>(cr :: 'a crypto) now token. case reset_begin cr now token st1 of Inr (row, u) \<Rightarrow> u_id u \<noteq> who | Inl _ \<Rightarrow> True)
    \<and> (\<forall>now cid p. map_option (u_id \<circ> snd) (load_challenge now cid p st1) \<noteq> Some who)
    \<and> (uu_role changes = None \<longrightarrow> socket_effects g effs1 = [])
    \<and> socket_effects g effs2 = map (\<lambda>c. Ui_Close (uc_id c) 4001 ''session ended'')
        (filter (\<lambda>c. uc_user_id c = who) (ug_clients g))
    \<and> get_user st2 who = Inl (not_found ''User'') \<and> who \<notin> at_user_id ` set (a_tokens st2)
    \<and> who \<notin> se_user_id ` set (a_sessions st2) \<and> who \<notin> ch_user_id ` set (a_challenges st2)"
proof -
  from user_update_Inr [OF assms(1)] obtain u u2 where u: "Auth_Models.find_user st1 who = Some u2"
      "u_disabled u2 = u_disabled (updated_user changes u)" "\<forall>s\<in>set (a_sessions st1). se_user_id s \<noteq> who"
      "effs1 = update_effects who (uu_role changes \<noteq> None \<and> uu_role changes \<noteq> Some (u_role u)) (is_disabling changes u)"
    using assms(2) by blast
  have "u_disabled u2" using u(2) assms(2) by (simp add: updated_user_def)
  note out = disabled_no_caller [OF u(1) this]
  have calls: "map_option u_id (cl_user (snd (session_middleware cr now rq st1))) \<noteq> Some who" for cr :: "'a crypto" and now rq
    using out(1) [of cr now rq] by auto
  have loads: "map_option (u_id \<circ> snd) (load_challenge now cid p st1) \<noteq> Some who" for now cid p
    using out(2) [of now cid p] by auto
  have links: "(case reset_begin cr now token st1 of Inr (row, u) \<Rightarrow> u_id u \<noteq> who | Inl _ \<Rightarrow> True)" for cr :: "'a crypto" and now token
    using out(3) [of cr now token] by (auto split: sum.split)
  have told: "socket_effects g effs1 = []" if "uu_role changes = None"
    using that by (simp add: u(4) update_effects_def socket_effects_def socket_effect_def)
  have gone: "st2 = destroy_user who st" "effs2 = [Disconnect_User who, Access_Changed [who]]"
    using assms(3) by (auto simp: remove_user_def get_user_def split: if_splits option.splits sum.splits)
  have "find (\<lambda>u. u_id u = who) (filter (\<lambda>u. u_id u \<noteq> who) us) = None" for us :: "user_row list"
    by (induction us) auto
  then have "get_user st2 who = Inl (not_found ''User'')"
    by (simp add: gone destroy_user_def get_user_def Auth_Models.find_user_def)
  then show ?thesis
    using u(3) calls loads links told
    by (auto simp: gone socket_effects_def socket_effect_def disconnect_user_def destroy_user_def)
qed

definition fresh_auth :: auth where
  "fresh_auth = sample_auth\<lparr>a_users := [], a_challenges := []\<rparr>"

definition second_admin :: create_user_body where
  "second_admin = \<lparr>cu_email = ''X@Y'', cu_name = ''X'', cu_role = Admin\<rparr>"

lemma administrator_remains_witness:
  "0 < admin_count (fst (remove_user (a_next_id fresh_auth) (a_next_id fresh_auth + 1)
    (fst (create_user ''h'' second_admin (fst (setup_end 1 ''a@b'' ''A'' ''h'' fresh_auth))))))"
proof -
  let ?st = "fst (setup_end 1 ''a@b'' ''A'' ''h'' fresh_auth)"
  have "setup_end 1 ''a@b'' ''A'' ''h'' fresh_auth = (?st, Inr (new_user 1 (a_next_id fresh_auth) ''a@b'' ''A'' ''h''))"
    by (simp add: setup_end_def Let_def fresh_auth_def)
  moreover have "account_reaches toy_crypto ?st (fst (remove_user (a_next_id fresh_auth) (a_next_id fresh_auth + 1)
      (fst (create_user ''h'' second_admin ?st))))"
    by (rule ar_step [OF ar_step [OF ar_refl as_create] as_remove])
  ultimately show ?thesis using administrator_remains by blast
qed

definition disabling :: update_user_body where
  "disabling = \<lparr>uu_name = None, uu_role = None, uu_disabled = Some True, uu_two_factor_enabled = None\<rparr>"

lemma disabled_locked_out_but_connected_witness:
  "load_challenge 3 ''c'' Login_Purpose (fst (update_user 5 disabling 1 sample_auth)) = None"
proof -
  have up: "update_user 5 disabling 1 sample_auth
      = (fst (update_user 5 disabling 1 sample_auth), [Access_Changed [5]], Inr (mail_user\<lparr>u_disabled := True\<rparr>))"
    by (simp add: update_user_def get_user_def Auth_Models.find_user_def is_demoting_def is_disabling_def disabling_def
      updated_user_def update_effects_def sample_auth_rows Let_def)
  have rm: "remove_user 5 1 sample_auth = (destroy_user 5 sample_auth, [Disconnect_User 5, Access_Changed [5]], Inr ())"
    by (simp add: remove_user_def get_user_def Auth_Models.find_user_def sample_auth_rows)
  have "map_option (u_id \<circ> snd) (load_challenge 3 ''c'' Login_Purpose (fst (update_user 5 disabling 1 sample_auth))) \<noteq> Some 5"
    by (rule disabled_locked_out_but_connected [OF up _ rm, THEN conjunct2, THEN conjunct2, THEN conjunct2,
      THEN conjunct1, rule_format]) (simp add: disabling_def)
  moreover have "u_id u = 5" if "load_challenge 3 ''c'' Login_Purpose (fst (update_user 5 disabling 1 sample_auth)) = Some (ch, u)" for ch u
    using load_challengeD(1,7) [OF that] by (simp add: update_user_def get_user_def Auth_Models.find_user_def is_demoting_def
      is_disabling_def disabling_def updated_user_def sample_auth_rows Let_def save_user_def end_sessions_def)
  ultimately show ?thesis by (cases "load_challenge 3 ''c'' Login_Purpose (fst (update_user 5 disabling 1 sample_auth))") auto
qed

text \<open>A disabled administrator counts as the last one: \<open>adminCount\<close> leaves them out, the guard does not.\<close>

lemma disabled_admin_stuck:
  assumes "Auth_Models.find_user st who = Some u" and "u_role u = Admin" and "u_disabled u" and "admin_count st = 1" and "who \<noteq> actor"
  shows "remove_user who actor st = (st, [], Inl (bad_request ''Cannot delete the last administrator''))"
    and "uu_role changes = Some Plain_User \<Longrightarrow>
      update_user who changes actor st = (st, [], Inl (bad_request ''Cannot remove the last administrator''))"
  using assms by (simp_all add: remove_user_def update_user_def get_user_def is_demoting_def)

end
