(* ===== verification/Nodes.thy ===== *)
theory Nodes
  imports Ui_Gateway Gateway Totp
begin

text \<open>
  Nodes (server/src/modules/nodes/service.ts and models.ts, jobs/offline-detector.ts): enrollment
  tokens, enrolling and authenticating agents, presence, settings and owners. SHA-256 is the argument
  \<open>sha\<close>. What an operation tells the rest of the server is a list of effects. \<open>enroll\<close> reads the token
  before its transaction, so it is two steps.
\<close>

section \<open>Rows\<close>

record os_info =
  os_id :: string
  os_name :: string
  os_version :: string
  os_pretty_name :: string

record docker_info =
  dk_available :: bool
  dk_error :: string
  dk_version :: string
  dk_api_version :: string
  dk_storage_driver :: string
  dk_root_dir :: string

text \<open>Disks and the boot time, which the server only stores, are left out.\<close>

record inventory =
  inv_hostname :: string
  inv_machine_id :: string
  inv_os :: os_info
  inv_kernel :: string
  inv_arch :: string
  inv_cpu_model :: string
  inv_cpu_cores :: int
  inv_cpu_threads :: int
  inv_memory_total :: nat
  inv_addresses :: "string list"
  inv_docker :: docker_info
  inv_data_dir :: string
  inv_host_mount_roots :: "string list"

record hello_params =
  he_protocol_version :: int
  he_agent_version :: string
  he_inventory :: inventory

record enrollment_token =
  et_id :: nat
  et_name :: string
  et_token_hash :: string
  et_token_prefix :: string
  et_max_uses :: "nat option"
  et_uses :: nat
  et_expires_at :: "int option"
  et_revoked_at :: "int option"
  et_created_by :: "nat option"

record 'm panel_node = node_row +
  pn_hostname :: string
  pn_machine_id :: string
  pn_secret_hash :: string
  pn_protocol_version :: "int option"
  pn_os_id :: "string option"
  pn_os_name :: "string option"
  pn_os_version :: "string option"
  pn_os_pretty_name :: "string option"
  pn_kernel :: "string option"
  pn_arch :: "string option"
  pn_cpu_model :: "string option"
  pn_cpu_cores :: "int option"
  pn_cpu_threads :: "int option"
  pn_memory_total :: "nat option"
  pn_docker :: "docker_info option"
  pn_data_dir :: "string option"
  pn_inventory :: "inventory option"
  pn_last_metrics :: "'m option"
  pn_last_seen_at :: "int option"
  pn_enrolled_at :: int
  pn_token_id :: "nat option"
  pn_notes :: "string option"

record node_owner = node_user +
  no_granted_by :: "nat option"
  no_created_at :: int

record 'm nodes_state =
  ns_nodes :: "'m panel_node list"
  ns_tokens :: "enrollment_token list"
  ns_instances :: "instance_row list"
  ns_ports :: "instance_port list"
  ns_owners :: "node_owner list"
  ns_users :: "user_row list"
  ns_next_id :: nat
  ns_audit :: "(string \<times> nat) list"

datatype ('m, 'p) node_effect =
  Broadcast "('m, 'p) ui_event"
| Emit_Online nat
| Emit_Offline nat
| Emit_Status nat node_status
| Emit_Sftp nat bool
| Emit_Deleted nat
| Emit_Access "nat list"
| Reconnect_Sockets nat
| Configure_Node nat

definition find_panel_node :: "'m nodes_state \<Rightarrow> nat \<Rightarrow> 'm panel_node option" where
  "find_panel_node st nid = find (\<lambda>n. n_id n = nid) (ns_nodes st)"

definition save_node :: "'m panel_node \<Rightarrow> 'm nodes_state \<Rightarrow> 'm nodes_state" where
  "save_node n st = st\<lparr>ns_nodes := map (\<lambda>m. if n_id m = n_id n then n else m) (ns_nodes st)\<rparr>"

definition apply_inventory :: "inventory \<Rightarrow> 'm panel_node \<Rightarrow> 'm panel_node" where
  "apply_inventory hw n = n\<lparr>pn_hostname := inv_hostname hw, pn_os_id := Some (os_id (inv_os hw)),
     pn_os_name := Some (os_name (inv_os hw)), pn_os_version := Some (os_version (inv_os hw)),
     pn_os_pretty_name := Some (os_pretty_name (inv_os hw)), pn_kernel := Some (inv_kernel hw),
     pn_arch := Some (inv_arch hw), pn_cpu_model := Some (inv_cpu_model hw),
     pn_cpu_cores := Some (inv_cpu_cores hw), pn_cpu_threads := Some (inv_cpu_threads hw),
     pn_memory_total := Some (inv_memory_total hw), pn_docker := Some (inv_docker hw),
     pn_data_dir := Some (inv_data_dir hw), pn_inventory := Some hw,
     n_host_mount_roots := Some (inv_host_mount_roots hw)\<rparr>"

section \<open>Enrollment\<close>

definition is_usable :: "int \<Rightarrow> enrollment_token \<Rightarrow> bool" where
  "is_usable now t \<longleftrightarrow>
     (if et_revoked_at t \<noteq> None then False
      else if (case et_expires_at t of None \<Rightarrow> False | Some e \<Rightarrow> e < now) then False
      else if (case et_max_uses t of None \<Rightarrow> False | Some m \<Rightarrow> et_uses t \<ge> m) then False
      else True)"

definition enroll_prefix :: string where "enroll_prefix = ''gsm_enr_''"

text \<open>A lifetime is a positive number of hours, not always whole; the instant is cut to milliseconds.\<close>

definition create_enrollment_token :: "(string \<Rightarrow> string) \<Rightarrow> int \<Rightarrow> string \<Rightarrow> string \<Rightarrow> nat option \<Rightarrow> rat option \<Rightarrow> nat \<Rightarrow>
    'm nodes_state \<Rightarrow> 'm nodes_state \<times> enrollment_token \<times> string" where
  "create_enrollment_token sha now random name max_uses hours actor st =
     (let plaintext = enroll_prefix @ random;
          t = \<lparr>et_id = ns_next_id st, et_name = name, et_token_hash = sha plaintext,
            et_token_prefix = take 12 plaintext, et_max_uses = max_uses, et_uses = 0,
            et_expires_at = (case hours of Some h \<Rightarrow> if h = 0 then None else Some \<lfloor>of_int now + h * 3600000\<rfloor> | None \<Rightarrow> None),
            et_revoked_at = None, et_created_by = Some actor\<rparr> in
      (st\<lparr>ns_tokens := ns_tokens st @ [t], ns_next_id := ns_next_id st + 1\<rparr>, t, plaintext))"

definition list_enrollment_tokens :: "'m nodes_state \<Rightarrow> enrollment_token list" where
  "list_enrollment_tokens st = rev (sort_key et_id (ns_tokens st))"

definition save_token :: "enrollment_token \<Rightarrow> 'm nodes_state \<Rightarrow> 'm nodes_state" where
  "save_token t st = st\<lparr>ns_tokens := map (\<lambda>r. if et_id r = et_id t then t else r) (ns_tokens st)\<rparr>"

definition revoke_enrollment_token :: "int \<Rightarrow> nat \<Rightarrow> 'm nodes_state \<Rightarrow> 'm nodes_state \<times> unit result" where
  "revoke_enrollment_token now tid st = (case find (\<lambda>t. et_id t = tid) (ns_tokens st) of
     None \<Rightarrow> (st, Inl (not_found ''Enrollment token''))
   | Some t \<Rightarrow> (save_token (t\<lparr>et_revoked_at := Some now\<rparr>) st, Inr ()))"

definition enroll_begin :: "(string \<Rightarrow> string) \<Rightarrow> int \<Rightarrow> string \<Rightarrow> 'm nodes_state \<Rightarrow> enrollment_token result" where
  "enroll_begin sha now bearer st =
     (case find (\<lambda>t. et_token_hash t = sha bearer) (ns_tokens st) of
        None \<Rightarrow> Inl (unauthorized ''Invalid or expired enrollment token'')
      | Some t \<Rightarrow>
          if \<not> is_usable now t then Inl (unauthorized ''Invalid or expired enrollment token'') else Inr t)"

definition node_name :: "string option \<Rightarrow> inventory \<Rightarrow> string" where
  "node_name name hw = (case truthy (map_option js_trim name) of
     Some n \<Rightarrow> n | None \<Rightarrow> if inv_hostname hw \<noteq> [] then inv_hostname hw else ''node'')"

definition new_node :: "int \<Rightarrow> nat \<Rightarrow> string \<Rightarrow> string \<Rightarrow> string \<Rightarrow> nat \<Rightarrow> inventory \<Rightarrow> 'm panel_node" where
  "new_node now nid name secret_hash agent_version tid hw =
     \<lparr>n_id = nid, n_name = name, n_status = Node_Offline, n_agent_version = Some agent_version,
      n_host_mount_roots = None, n_public_address = None, n_bind_address = ''0.0.0.0'',
      n_port_range_start = 30000, n_port_range_end = 30999, n_sftp_port = Some 2022,
      n_sftp_host_key = None, n_sftp_error = None, n_firewall_managed = False,
      n_firewall_backend = None, n_firewall_error = None, n_firewall_sftp = None,
      pn_hostname = inv_hostname hw, pn_machine_id = inv_machine_id hw, pn_secret_hash = secret_hash,
      pn_protocol_version = None, pn_os_id = None, pn_os_name = None, pn_os_version = None,
      pn_os_pretty_name = None, pn_kernel = None, pn_arch = None, pn_cpu_model = None,
      pn_cpu_cores = None, pn_cpu_threads = None, pn_memory_total = None, pn_docker = None,
      pn_data_dir = None, pn_inventory = None, pn_last_metrics = None, pn_last_seen_at = None,
      pn_enrolled_at = now, pn_token_id = Some tid, pn_notes = None\<rparr>"

text \<open>\<open>token\<close> is the row as \<open>enroll_begin\<close> read it; saving it writes the changed count.\<close>

definition enroll_end :: "(string \<Rightarrow> string) \<Rightarrow> int \<Rightarrow> string \<Rightarrow> string option \<Rightarrow> string \<Rightarrow> inventory \<Rightarrow> enrollment_token \<Rightarrow>
    'm nodes_state \<Rightarrow> 'm nodes_state \<times> ('m, 'p) node_effect list \<times> string \<times> nat" where
  "enroll_end sha now secret name agent_version hw token st =
     (let (st1, nid, action) = (case find (\<lambda>n. pn_machine_id n = inv_machine_id hw) (ns_nodes st) of
            Some n \<Rightarrow> (save_node ((apply_inventory hw (n\<lparr>pn_secret_hash := sha secret\<rparr>))
                \<lparr>pn_token_id := Some (et_id token), pn_enrolled_at := now\<rparr>) st, n_id n, ''node.reenroll'')
          | None \<Rightarrow> (st\<lparr>ns_nodes := ns_nodes st @ [apply_inventory hw (new_node now (ns_next_id st)
                (node_name name hw) (sha secret) agent_version (et_id token) hw)],
                ns_next_id := ns_next_id st + 1\<rparr>, ns_next_id st, ''node.enroll''));
          st2 = st1\<lparr>ns_tokens := map (\<lambda>r. if et_id r = et_id token then r\<lparr>et_uses := et_uses token + 1\<rparr> else r) (ns_tokens st1),
            ns_audit := ns_audit st1 @ [(action, nid)]\<rparr> in
      (st2, [Broadcast (Node_Updated_Event nid)], string_of_int (int nid) @ ''.'' @ secret, nid))"

text \<open>\<open>Number(text)\<close> when it is a positive integer, as \<open>idParam\<close> reads an id too.\<close>

definition number_id :: "string \<Rightarrow> nat option" where
  "number_id text = (case js_number_of text of
     Finite q \<Rightarrow> if q = of_int \<lfloor>q\<rfloor> \<and> 0 < q then Some (nat \<lfloor>q\<rfloor>) else None
   | _ \<Rightarrow> None)"

definition authenticate_agent :: "(string \<Rightarrow> string) \<Rightarrow> string option \<Rightarrow> 'm nodes_state \<Rightarrow> 'm panel_node option" where
  "authenticate_agent sha bearer st = (case truthy bearer of
     None \<Rightarrow> None
   | Some b \<Rightarrow> (let dot = length (takeWhile (\<lambda>c. c \<noteq> CHR ''.'') b) in
       if dot = 0 \<or> dot = length b then None
       else (case number_id (take dot b) of
         None \<Rightarrow> None
       | Some nid \<Rightarrow> (case find_panel_node st nid of
           None \<Rightarrow> None
         | Some n \<Rightarrow> if timing_safe_equal (sha (drop (dot + 1) b)) (pn_secret_hash n) then Some n else None))))"

section \<open>Presence\<close>

record registry_auth =
  ra_server :: string
  ra_username :: string
  ra_password :: string

record configure_params =
  cp_registry_auth :: "registry_auth option"
  cp_sftp_port :: "int option"
  cp_sftp_bind :: string
  cp_firewall_managed :: bool

definition agent_config :: "registry_auth option \<Rightarrow> nat \<Rightarrow> 'm nodes_state \<Rightarrow> configure_params" where
  "agent_config auth nid st =
     \<lparr>cp_registry_auth = auth,
      cp_sftp_port = (case find_panel_node st nid of Some n \<Rightarrow> n_sftp_port n | None \<Rightarrow> None),
      cp_sftp_bind = (case find_panel_node st nid of Some n \<Rightarrow> n_bind_address n | None \<Rightarrow> ''0.0.0.0''),
      cp_firewall_managed = (case find_panel_node st nid of Some n \<Rightarrow> n_firewall_managed n | None \<Rightarrow> False)\<rparr>"

record sftp_status =
  ss_listening :: bool
  ss_host_key :: string
  ss_error :: "string option"

record firewall_status =
  fs_backend :: "firewall_backend option"
  fs_error :: "string option"
  fs_sftp :: "firewall_rule list"

definition configured :: "sftp_status option \<Rightarrow> firewall_status option \<Rightarrow> 'm panel_node \<Rightarrow> 'm panel_node" where
  "configured s f n =
     (let n1 = (case s of
            Some s \<Rightarrow> n\<lparr>n_sftp_host_key := truthy (Some (ss_host_key s)), n_sftp_error := ss_error s\<rparr>
          | None \<Rightarrow> n\<lparr>n_sftp_error := Some ''The agent on this node is too old for SFTP; update it''\<rparr>) in
      case f of
        Some f \<Rightarrow> n1\<lparr>n_firewall_backend := fs_backend f, n_firewall_error := fs_error f, n_firewall_sftp := Some (fs_sftp f)\<rparr>
      | None \<Rightarrow> n1\<lparr>n_firewall_backend := None,
          n_firewall_error := Some ''The agent on this node is too old to manage its firewall; update it'',
          n_firewall_sftp := None\<rparr>)"

text \<open>What the agent's answer to \<open>agent.configure\<close> does; \<open>Node.update\<close> hits the node if it still exists.\<close>

definition configure_agent :: "sftp_status option \<Rightarrow> firewall_status option \<Rightarrow> nat \<Rightarrow> 'm nodes_state \<Rightarrow>
    'm nodes_state \<times> ('m, 'p) node_effect list" where
  "configure_agent s f nid st =
     (st\<lparr>ns_nodes := map (\<lambda>n. if n_id n = nid then configured s f n else n) (ns_nodes st)\<rparr>,
      [Emit_Sftp nid (case s of Some s \<Rightarrow> ss_listening s | None \<Rightarrow> False), Broadcast (Node_Updated_Event nid)])"

definition protocol_version :: int where "protocol_version = 1"

text \<open>The reason of a refusal is \<open>Inl\<close>.\<close>

definition on_agent_hello :: "int \<Rightarrow> nat \<Rightarrow> hello_params \<Rightarrow> 'm nodes_state \<Rightarrow>
    'm nodes_state \<times> ('m, 'p) node_effect list \<times> (string + unit)" where
  "on_agent_hello now nid hello st =
     (if he_protocol_version hello \<noteq> protocol_version
      then (st, [], Inl (''protocol version '' @ string_of_int (he_protocol_version hello)
        @ '' not supported (server speaks '' @ string_of_int protocol_version @ '')''))
      else case find_panel_node st nid of
        None \<Rightarrow> (st, [], Inl ''node no longer exists'')
      | Some n \<Rightarrow>
          let was_offline = (n_status n \<noteq> Node_Online);
              n1 = (apply_inventory (he_inventory hello) n)\<lparr>n_agent_version := Some (he_agent_version hello),
                pn_protocol_version := Some (he_protocol_version hello), pn_last_seen_at := Some now,
                n_status := Node_Online\<rparr> in
          (save_node n1 st,
           [Broadcast (Node_Status_Event nid Node_Online (Some now)), Broadcast (Node_Updated_Event nid)]
             @ (if was_offline then [Emit_Online nid] else []), Inr ()))"

definition on_agent_metrics :: "int \<Rightarrow> nat \<Rightarrow> 'm \<Rightarrow> 'm nodes_state \<Rightarrow> 'm nodes_state \<times> ('m, 'p) node_effect list" where
  "on_agent_metrics now nid metrics st =
     (st\<lparr>ns_nodes := map (\<lambda>n. if n_id n = nid
        then n\<lparr>pn_last_metrics := Some metrics, pn_last_seen_at := Some now\<rparr> else n) (ns_nodes st)\<rparr>,
      [Broadcast (Node_Metrics_Event nid metrics)])"

definition set_node_status :: "nat \<Rightarrow> node_status \<Rightarrow> 'm nodes_state \<Rightarrow> 'm nodes_state \<times> ('m, 'p) node_effect list" where
  "set_node_status nid new st =
     (let changed = length (filter (\<lambda>n. n_id n = nid \<and> n_status n \<noteq> new) (ns_nodes st)) in
      if changed = 0 then (st, [])
      else let st1 = st\<lparr>ns_nodes := map (\<lambda>n. if n_id n = nid \<and> n_status n \<noteq> new then n\<lparr>n_status := new\<rparr> else n) (ns_nodes st)\<rparr> in
        (st1, [Broadcast (Node_Status_Event nid new (Option.bind (find_panel_node st1 nid) pn_last_seen_at)),
               Emit_Status nid new] @ (if new = Node_Offline then [Emit_Offline nid] else [])))"

text \<open>The offline detector's pass over the nodes it finds stale; it closes their sockets too.\<close>

definition stale_nodes :: "int \<Rightarrow> int \<Rightarrow> 'm nodes_state \<Rightarrow> 'm panel_node list" where
  "stale_nodes now offline_after_seconds st = filter (\<lambda>n. n_status n \<noteq> Node_Offline
     \<and> (case pn_last_seen_at n of None \<Rightarrow> True | Some l \<Rightarrow> l < now - offline_after_seconds * 1000)) (ns_nodes st)"

definition offline_tick :: "int \<Rightarrow> int \<Rightarrow> 'm nodes_state \<Rightarrow> 'm nodes_state \<times> ('m, 'p) node_effect list" where
  "offline_tick now offline_after_seconds st =
     foldl (\<lambda>(st, effs) n. case set_node_status (n_id n) Node_Offline st of (st', outs) \<Rightarrow> (st', effs @ outs))
       (st, []) (stale_nodes now offline_after_seconds st)"

section \<open>Settings\<close>

record update_node_body =
  un_name :: "string option"
  un_notes :: "string option option"
  un_public_address :: "string option"
  un_bind_address :: "string option"
  un_port_range_start :: "int option"
  un_port_range_end :: "int option"
  un_sftp_port :: "int option option"
  un_firewall_managed :: "bool option"

definition or_else :: "'a option \<Rightarrow> 'a \<Rightarrow> 'a" where
  "or_else x d = (case x of None \<Rightarrow> d | Some v \<Rightarrow> v)"

definition node_summary :: "nat set option \<Rightarrow> 'm nodes_state \<Rightarrow> nat \<times> nat \<times> nat" where
  "node_summary scope st =
     (let rows = filter (\<lambda>n. in_node_scope scope (n_id n)) (ns_nodes st) in
      (length rows, length (filter (\<lambda>n. n_status n = Node_Online) rows),
       length (filter (\<lambda>n. n_status n = Node_Offline) rows)))"

definition get_node :: "nat \<Rightarrow> 'm nodes_state \<Rightarrow> 'm panel_node result" where
  "get_node nid st = (case find_panel_node st nid of None \<Rightarrow> Inl (not_found ''Node'') | Some n \<Rightarrow> Inr n)"

definition with_texts :: "update_node_body \<Rightarrow> 'm panel_node \<Rightarrow> 'm panel_node" where
  "with_texts input n = n\<lparr>n_name := or_else (un_name input) (n_name n), pn_notes := or_else (un_notes input) (pn_notes n),
     n_public_address := (case un_public_address input of None \<Rightarrow> n_public_address n | Some a \<Rightarrow> truthy (Some (js_trim a))),
     n_bind_address := (case un_bind_address input of None \<Rightarrow> n_bind_address n | Some a \<Rightarrow> js_trim a)\<rparr>"

definition check_sftp :: "nat \<Rightarrow> int option option \<Rightarrow> 'm nodes_state \<Rightarrow> unit result" where
  "check_sftp nid input st = (case input of
     Some (Some port) \<Rightarrow> guard (length (filter (\<lambda>p. ip_node_id p = nid \<and> al_port p = port) (ns_ports st)) = 0)
       (conflict (''Port '' @ string_of_int port @ '' is used by an instance''))
   | _ \<Rightarrow> Inr ())"

definition with_settings :: "update_node_body \<Rightarrow> 'm panel_node \<Rightarrow> 'm panel_node" where
  "with_settings input n = (with_texts input n)
     \<lparr>n_port_range_start := or_else (un_port_range_start input) (n_port_range_start n),
      n_port_range_end := or_else (un_port_range_end input) (n_port_range_end n),
      n_sftp_port := or_else (un_sftp_port input) (n_sftp_port n),
      n_firewall_managed := or_else (un_firewall_managed input) (n_firewall_managed n)\<rparr>"

text \<open>The checks in their order; the error texts that quote the SFTP port keep its number.\<close>

definition check_update :: "nat \<Rightarrow> update_node_body \<Rightarrow> 'm panel_node \<Rightarrow> 'm nodes_state \<Rightarrow> unit result" where
  "check_update nid input n st =
     (let n' = with_settings input n; lo = n_port_range_start n'; hi = n_port_range_end n' in
      then_do (guard (\<not> hi < lo) (bad_request ''The port range end must not be below its start''))
      (\<lambda>_. then_do (guard (\<not> hi - lo > 20000) (bad_request ''A port range covers at most 20000 ports''))
      (\<lambda>_. then_do (check_sftp nid (un_sftp_port input) st)
      (\<lambda>_. case n_sftp_port n' of
         None \<Rightarrow> Inr ()
       | Some port \<Rightarrow> guard (\<not> (port \<ge> lo \<and> port \<le> hi))
           (bad_request (''The SFTP port ('' @ string_of_int port @ '') must be outside the port pool''))))))"

definition update_node :: "(nat \<Rightarrow> bool) \<Rightarrow> nat \<Rightarrow> update_node_body \<Rightarrow> 'm nodes_state \<Rightarrow>
    'm nodes_state \<times> ('m, 'p) node_effect list \<times> 'm panel_node result" where
  "update_node live nid input st = (case get_node nid st of
     Inl e \<Rightarrow> (st, [], Inl e)
   | Inr n \<Rightarrow> (case check_update nid input n st of
       Inl e \<Rightarrow> (st, [], Inl e)
     | Inr _ \<Rightarrow>
         let n1 = with_settings input n;
             agent_changed = (n_sftp_port n1 \<noteq> n_sftp_port n \<or> n_bind_address n1 \<noteq> n_bind_address n
               \<or> n_firewall_managed n1 \<noteq> n_firewall_managed n);
             firewall_off = (n_firewall_managed n1 \<noteq> n_firewall_managed n \<and> \<not> n_firewall_managed n1);
             st1 = save_node n1 st;
             st2 = (if firewall_off then st1\<lparr>ns_instances := map (\<lambda>i. if i_node_id i = nid
                 then i\<lparr>i_firewall := None\<rparr> else i) (ns_instances st1)\<rparr> else st1) in
         (st2, [Broadcast (Node_Updated_Event nid)]
           @ (if agent_changed \<and> live nid then [Configure_Node nid] else []), Inr n1)))"

definition remove_node :: "nat \<Rightarrow> 'm nodes_state \<Rightarrow> 'm nodes_state \<times> ('m, 'p) node_effect list \<times> unit result" where
  "remove_node nid st = (case get_node nid st of
     Inl e \<Rightarrow> (st, [], Inl e)
   | Inr n \<Rightarrow>
       let instances = length (filter (\<lambda>i. i_node_id i = nid) (ns_instances st)) in
       if instances \<noteq> 0
       then (st, [], Inl (conflict (n_name n @ '' still hosts '' @ string_of_int (int instances)
          @ '' instance(s); delete or move them first'')))
       else let owners = map nu_user_id (filter (\<lambda>r. nu_node_id r = nid) (ns_owners st)) in
         (st\<lparr>ns_nodes := filter (\<lambda>m. n_id m \<noteq> nid) (ns_nodes st),
             ns_ports := filter (\<lambda>p. ip_node_id p \<noteq> nid) (ns_ports st),
             ns_owners := filter (\<lambda>r. nu_node_id r \<noteq> nid) (ns_owners st)\<rparr>,
          [Emit_Deleted nid, Broadcast (Node_Updated_Event nid)]
            @ (if owners \<noteq> [] then Emit_Access owners # map Reconnect_Sockets owners else []), Inr ()))"

section \<open>Owners\<close>

definition owners_changed :: "nat \<Rightarrow> nat \<Rightarrow> ('m, 'p) node_effect list" where
  "owners_changed nid who = [Emit_Access [who], Reconnect_Sockets who, Broadcast (Node_Updated_Event nid)]"

definition list_owners :: "nat \<Rightarrow> 'm nodes_state \<Rightarrow> (nat \<times> string \<times> string \<times> int) list" where
  "list_owners nid st = map (\<lambda>r. case find (\<lambda>u. u_id u = nu_user_id r) (ns_users st) of
       Some u \<Rightarrow> (nu_user_id r, u_name u, u_email u, no_created_at r)
     | None \<Rightarrow> (nu_user_id r, [], [], no_created_at r))
     (sort_key no_created_at (filter (\<lambda>r. nu_node_id r = nid) (ns_owners st)))"

definition grant_node :: "int \<Rightarrow> nat \<Rightarrow> nat \<Rightarrow> nat \<Rightarrow> 'm nodes_state \<Rightarrow>
    'm nodes_state \<times> ('m, 'p) node_effect list \<times> (nat \<times> string \<times> string \<times> int) list result" where
  "grant_node now nid who actor st = (case get_node nid st of
     Inl e \<Rightarrow> (st, [], Inl e)
   | Inr _ \<Rightarrow>
       if find (\<lambda>u. u_id u = who) (ns_users st) = None then (st, [], Inl (bad_request ''Unknown user''))
       else let st1 = (if list_ex (\<lambda>r. nu_node_id r = nid \<and> nu_user_id r = who) (ns_owners st) then st
              else st\<lparr>ns_owners := ns_owners st @ [\<lparr>nu_node_id = nid, nu_user_id = who,
                no_granted_by = Some actor, no_created_at = now\<rparr>]\<rparr>) in
         (st1, owners_changed nid who, Inr (list_owners nid st1)))"

definition revoke_node :: "nat \<Rightarrow> nat \<Rightarrow> 'm nodes_state \<Rightarrow>
    'm nodes_state \<times> ('m, 'p) node_effect list \<times> (nat \<times> string \<times> string \<times> int) list result" where
  "revoke_node nid who st =
     (let removed = length (filter (\<lambda>r. nu_node_id r = nid \<and> nu_user_id r = who) (ns_owners st)) in
      if removed = 0 then (st, [], Inl (not_found ''Owner''))
      else let st1 = st\<lparr>ns_owners := filter (\<lambda>r. \<not> (nu_node_id r = nid \<and> nu_user_id r = who)) (ns_owners st)\<rparr> in
        (st1, owners_changed nid who, Inr (list_owners nid st1)))"

section \<open>Addresses\<close>

definition public_address_of :: "'j gateway \<Rightarrow> 'm panel_node \<Rightarrow> string" where
  "public_address_of g n = (case truthy (n_public_address n) of
     Some a \<Rightarrow> a
   | None \<Rightarrow> (case truthy (remote_address g (n_id n)) of
       Some r \<Rightarrow> if prefix ''::ffff:'' r then drop 7 r else r
     | None \<Rightarrow> (let as = (case pn_inventory n of Some hw \<Rightarrow> inv_addresses hw | None \<Rightarrow> []) in
         case find (\<lambda>a. CHR '':'' \<notin> set a) as of
           Some a \<Rightarrow> a
         | None \<Rightarrow> (case as of a # _ \<Rightarrow> a | [] \<Rightarrow> pn_hostname n))))"

definition ports_in_use :: "nat \<Rightarrow> 'm nodes_state \<Rightarrow> (int \<times> port_protocol \<times> nat \<times> string) list" where
  "ports_in_use nid st = concat (map (\<lambda>p. map (\<lambda>proto. (al_port p, proto, ip_instance_id p, al_name p))
       (if al_protocol p = Both then [Tcp, Udp] else [al_protocol p]))
     (sort_key al_port (filter (\<lambda>p. ip_node_id p = nid) (ns_ports st))))"

section \<open>Tables\<close>

definition nodes_ok :: "'m nodes_state \<Rightarrow> bool" where
  "nodes_ok st \<longleftrightarrow> distinct (map n_id (ns_nodes st)) \<and> (\<forall>n\<in>set (ns_nodes st). 0 < n_id n \<and> n_id n < ns_next_id st)
     \<and> distinct (map pn_machine_id (ns_nodes st)) \<and> 0 < ns_next_id st"

lemma find_saved_node [simp]: "find_panel_node (save_node n st) nid =
    (if nid = n_id n then map_option (\<lambda>_. n) (find_panel_node st nid) else find_panel_node st nid)"
proof -
  have "find (\<lambda>m. n_id m = nid) (map (\<lambda>m. if n_id m = n_id n then n else m) ms) =
      (if nid = n_id n then map_option (\<lambda>_. n) (find (\<lambda>m. n_id m = nid) ms) else find (\<lambda>m. n_id m = nid) ms)" for ms
    by (induction ms) auto
  then show ?thesis by (simp add: find_panel_node_def save_node_def)
qed

lemma save_node_frame [simp]: "ns_next_id (save_node n st) = ns_next_id st" "ns_tokens (save_node n st) = ns_tokens st"
    "ns_ports (save_node n st) = ns_ports st" "ns_audit (save_node n st) = ns_audit st"
    "ns_instances (save_node n st) = ns_instances st" "ns_owners (save_node n st) = ns_owners st"
  by (simp_all add: save_node_def)

lemma find_panel_node_id: "find_panel_node st nid = Some n \<Longrightarrow> n_id n = nid \<and> n \<in> set (ns_nodes st)"
  by (auto simp: find_panel_node_def find_Some_iff)

lemma apply_inventory_simps [simp]:
  "n_id (apply_inventory hw n) = n_id n" "pn_secret_hash (apply_inventory hw n) = pn_secret_hash n"
  "pn_machine_id (apply_inventory hw n) = pn_machine_id n" "n_status (apply_inventory hw n) = n_status n"
  by (simp_all add: apply_inventory_def)

lemma js_number_id: "0 < nid \<Longrightarrow> nid < 2 ^ 53 \<Longrightarrow> number_id (string_of_int (int nid)) = Some nid"
  using js_number_of_int [of "int nid"] by (simp add: number_id_def)

lemma no_dot: "\<forall>c\<in>set (string_of_int (int nid)). c \<noteq> CHR ''.''"
  using digits_of_digits [of nid] by (auto simp: string_of_int_def is_digit_def)

lemma authenticate_bearer:
  assumes "0 < nid" and "nid < 2 ^ 53"
  shows "authenticate_agent sha (Some (string_of_int (int nid) @ ''.'' @ secret)) st =
    (case find_panel_node st nid of None \<Rightarrow> None
     | Some n \<Rightarrow> if sha secret = pn_secret_hash n then Some n else None)"
proof -
  let ?d = "string_of_int (int nid)"
  have "takeWhile (\<lambda>c. c \<noteq> CHR ''.'') (?d @ ''.'' @ secret) = ?d"
    using no_dot [of nid] by (simp add: takeWhile_append2)
  moreover have "?d \<noteq> []" by (simp add: string_of_int_def)
  ultimately show ?thesis
    by (simp add: authenticate_agent_def js_number_id [OF assms] timing_safe_equal_iff Let_def cong: option.case_cong)
qed

lemma find_appended: "find P (xs @ ys) = (case find P xs of None \<Rightarrow> find P ys | Some x \<Rightarrow> Some x)"
  by (induction xs) auto

lemma enroll_end_found:
  assumes ok: "nodes_ok st"
    and enroll: "enroll_end sha now secret name v hw token st = (st', effs, bearer, nid)"
  shows "\<exists>x. n_id x = nid \<and> pn_secret_hash x = sha secret \<and> pn_machine_id x = inv_machine_id hw
    \<and> (\<forall>other. find_panel_node st' other = (if other = nid then Some x else find_panel_node st other))
    \<and> bearer = string_of_int (int nid) @ ''.'' @ secret \<and> 0 < nid \<and> nid \<le> ns_next_id st"
proof (cases "find (\<lambda>n. pn_machine_id n = inv_machine_id hw) (ns_nodes st)")
  case (Some n)
  then have n: "n \<in> set (ns_nodes st)" "pn_machine_id n = inv_machine_id hw" by (auto simp: find_Some_iff)
  let ?x = "(apply_inventory hw (n\<lparr>pn_secret_hash := sha secret\<rparr>))\<lparr>pn_token_id := Some (et_id token), pn_enrolled_at := now\<rparr>"
  have "find_panel_node st (n_id n) \<noteq> None" using n(1) by (auto simp: find_panel_node_def find_None_iff)
  moreover have eqs: "nid = n_id n" "bearer = string_of_int (int nid) @ ''.'' @ secret"
      "find_panel_node st' = find_panel_node (save_node ?x st)"
    using enroll Some by (auto simp: enroll_end_def Let_def find_panel_node_def fun_eq_iff)
  moreover have "0 < n_id n" "n_id n < ns_next_id st" using ok n(1) by (auto simp: nodes_ok_def)
  ultimately show ?thesis using n(2) by (intro exI [of _ ?x]) auto
next
  case None
  let ?x = "apply_inventory hw (new_node now (ns_next_id st) (node_name name hw) (sha secret) v (et_id token) hw)"
  have id: "n_id ?x = ns_next_id st" "pn_secret_hash ?x = sha secret" "pn_machine_id ?x = inv_machine_id hw"
    by (simp_all add: new_node_def)
  have "find_panel_node st (ns_next_id st) = None"
    using ok by (auto simp: nodes_ok_def find_panel_node_def find_None_iff)
  moreover have eqs: "nid = ns_next_id st" "bearer = string_of_int (int nid) @ ''.'' @ secret"
      "ns_nodes st' = ns_nodes st @ [?x]"
    using enroll None by (auto simp: enroll_end_def Let_def)
  moreover have "0 < ns_next_id st" using ok by (simp add: nodes_ok_def)
  ultimately show ?thesis using id
    by (intro exI [of _ ?x]) (auto simp: find_panel_node_def find_appended split: option.split)
qed

section \<open>Properties\<close>

text \<open>C16. The token an agent gets for enrolling authenticates it as its node, whether the machine is new or
  was known; a machine that enrolls again keeps its node, only bearer values with the new secret are
  accepted for it, and those of all other nodes go on working.\<close>

theorem agents_authenticated:
  assumes "nodes_ok st" and "ns_next_id st < 2 ^ 53"
    and "enroll_end sha now secret name v hw token st = (st', effs, bearer, nid)"
  shows "map_option n_id (authenticate_agent sha (Some bearer) st') = Some nid
    \<and> (\<forall>n\<in>set (ns_nodes st). pn_machine_id n = inv_machine_id hw \<longrightarrow> n_id n = nid)
    \<and> (\<forall>b n. authenticate_agent sha (Some b) st' = Some n \<longrightarrow>
        (if n_id n = nid then pn_secret_hash n = sha secret \<and> (\<exists>old. sha old = sha secret \<and> suffix old b)
         else authenticate_agent sha (Some b) st = Some n))
    \<and> (\<forall>b n. authenticate_agent sha (Some b) st = Some n \<and> n_id n \<noteq> nid \<longrightarrow> authenticate_agent sha (Some b) st' = Some n)"
proof -
  from enroll_end_found [OF assms(1,3)] obtain x where x: "n_id x = nid" "pn_secret_hash x = sha secret"
      "\<And>other. find_panel_node st' other = (if other = nid then Some x else find_panel_node st other)"
      "bearer = string_of_int (int nid) @ ''.'' @ secret" "0 < nid" "nid \<le> ns_next_id st" by blast
  have first: "map_option n_id (authenticate_agent sha (Some bearer) st') = Some nid"
    using authenticate_bearer [of nid sha secret st'] x(1,2,5,6) x(3) [of nid] assms(2) unfolding x(4) by simp
  have same: "n_id n = nid" if mem: "n \<in> set (ns_nodes st)" "pn_machine_id n = inv_machine_id hw" for n
  proof -
    obtain m where m: "find (\<lambda>n. pn_machine_id n = inv_machine_id hw) (ns_nodes st) = Some m"
      using mem by (cases "find (\<lambda>n. pn_machine_id n = inv_machine_id hw) (ns_nodes st)") (auto simp: find_None_iff)
    then have "m \<in> set (ns_nodes st)" "pn_machine_id m = inv_machine_id hw" by (auto simp: find_Some_iff)
    then have "m = n" using assms(1) mem by (auto simp: nodes_ok_def distinct_map inj_on_def)
    with m assms(3) show ?thesis by (auto simp: enroll_end_def Let_def)
  qed
  have at: "authenticate_agent sha (Some b) s = Some n \<longleftrightarrow>
      (\<exists>k. find_panel_node s k = Some n \<and> b \<noteq> [] \<and> length (takeWhile (\<lambda>c. c \<noteq> CHR ''.'') b) \<notin> {0, length b}
        \<and> number_id (take (length (takeWhile (\<lambda>c. c \<noteq> CHR ''.'') b)) b) = Some k
        \<and> sha (drop (length (takeWhile (\<lambda>c. c \<noteq> CHR ''.'') b) + 1) b) = pn_secret_hash n)" for b n s
    by (auto simp: authenticate_agent_def Let_def timing_safe_equal_iff split: option.splits if_splits)
  have third: "if n_id n = nid then pn_secret_hash n = sha secret \<and> (\<exists>old. sha old = sha secret \<and> suffix old b)
      else authenticate_agent sha (Some b) st = Some n" if au: "authenticate_agent sha (Some b) st' = Some n" for b n
  proof -
    let ?k = "length (takeWhile (\<lambda>c. c \<noteq> CHR ''.'') b)"
    from au obtain k where k: "find_panel_node st' k = Some n" "b \<noteq> []" "?k \<notin> {0, length b}"
        "number_id (take ?k b) = Some k" "sha (drop (?k + 1) b) = pn_secret_hash n" unfolding at by blast
    have "n_id n = k" using find_panel_node_id [OF k(1)] by simp
    show ?thesis
    proof (cases "k = nid")
      case True
      then have "n = x" using k(1) x(3) [of nid] by simp
      then show ?thesis using x(1,2) k(5) suffix_drop [of "?k + 1" b] by auto
    next
      case False
      then have "find_panel_node st k = Some n" using k(1) x(3) [of k] by simp
      then have "authenticate_agent sha (Some b) st = Some n" using k(2-5) unfolding at by blast
      then show ?thesis using False \<open>n_id n = k\<close> by simp
    qed
  qed
  have fourth: "authenticate_agent sha (Some b) st' = Some n"
    if au: "authenticate_agent sha (Some b) st = Some n" "n_id n \<noteq> nid" for b n
  proof -
    let ?k = "length (takeWhile (\<lambda>c. c \<noteq> CHR ''.'') b)"
    from au(1) obtain k where k: "find_panel_node st k = Some n" "b \<noteq> []" "?k \<notin> {0, length b}"
        "number_id (take ?k b) = Some k" "sha (drop (?k + 1) b) = pn_secret_hash n" unfolding at by blast
    have "find_panel_node st' k = Some n" using k(1) x(3) [of k] find_panel_node_id [OF k(1)] au(2) by simp
    then show ?thesis using k(2-5) unfolding at by blast
  qed
  show ?thesis using first same third fourth by blast
qed

definition no_nodes :: "unit nodes_state" where
  "no_nodes = \<lparr>ns_nodes = [], ns_tokens = [], ns_instances = [], ns_ports = [], ns_owners = [], ns_users = [],
     ns_next_id = 1, ns_audit = []\<rparr>"

definition sample_inventory :: inventory where
  "sample_inventory = \<lparr>inv_hostname = ''h'', inv_machine_id = ''m'',
     inv_os = \<lparr>os_id = ''d'', os_name = ''D'', os_version = ''1'', os_pretty_name = ''D 1''\<rparr>, inv_kernel = ''6'',
     inv_arch = ''x86_64'', inv_cpu_model = ''c'', inv_cpu_cores = 1, inv_cpu_threads = 1, inv_memory_total = 1,
     inv_addresses = [], inv_docker = \<lparr>dk_available = True, dk_error = [], dk_version = [], dk_api_version = [],
       dk_storage_driver = [], dk_root_dir = []\<rparr>, inv_data_dir = ''/d'', inv_host_mount_roots = []\<rparr>"

definition sample_token :: enrollment_token where
  "sample_token = \<lparr>et_id = 9, et_name = ''t'', et_token_hash = ''x'', et_token_prefix = ''x'', et_max_uses = Some 1,
     et_uses = 0, et_expires_at = None, et_revoked_at = None, et_created_by = None\<rparr>"

lemma agents_authenticated_witness:
  "map_option n_id (authenticate_agent (\<lambda>s. s) (Some ''1.a.b'')
     (fst (enroll_end (\<lambda>s. s) 0 ''a.b'' None ''1'' sample_inventory sample_token no_nodes
       :: unit nodes_state \<times> (unit, unit) node_effect list \<times> string \<times> nat))) = Some 1"
proof -
  let ?e = "enroll_end (\<lambda>s. s) 0 ''a.b'' None ''1'' sample_inventory sample_token no_nodes
    :: unit nodes_state \<times> (unit, unit) node_effect list \<times> string \<times> nat"
  have one: "string_of_int 1 = ''1''" by code_simp
  have "?e = (fst ?e, fst (snd ?e), ''1.a.b'', 1)"
    using one by (simp add: enroll_end_def no_nodes_def Let_def)
  moreover have "nodes_ok no_nodes" "ns_next_id no_nodes < 2 ^ 53" by (simp_all add: nodes_ok_def no_nodes_def)
  ultimately show ?thesis using agents_authenticated by blast
qed

section \<open>How often a token is used\<close>

type_synonym enrollment = "int \<times> string \<times> string option \<times> string \<times> inventory"

definition enroll_one :: "(string \<Rightarrow> string) \<Rightarrow> enrollment \<Rightarrow> enrollment_token \<Rightarrow> 'm nodes_state \<Rightarrow> 'm nodes_state" where
  "enroll_one sha r t st = (case r of (now, secret, name, v, hw) \<Rightarrow>
     fst (enroll_end sha now secret name v hw t st :: 'm nodes_state \<times> ('m, unit) node_effect list \<times> string \<times> nat))"

text \<open>Enrollments one after the other, and how many of them succeed.\<close>

fun enroll_each :: "(string \<Rightarrow> string) \<Rightarrow> string \<Rightarrow> enrollment list \<Rightarrow> 'm nodes_state \<Rightarrow> 'm nodes_state \<times> nat" where
  "enroll_each sha bearer [] st = (st, 0)"
| "enroll_each sha bearer (r # rs) st = (case enroll_begin sha (fst r) bearer st of
     Inl _ \<Rightarrow> enroll_each sha bearer rs st
   | Inr t \<Rightarrow> (case enroll_each sha bearer rs (enroll_one sha r t st) of (st', k) \<Rightarrow> (st', k + 1)))"

definition tokens_ok :: "'m nodes_state \<Rightarrow> bool" where
  "tokens_ok st \<longleftrightarrow> distinct (map et_id (ns_tokens st)) \<and> distinct (map et_token_hash (ns_tokens st))"

lemma enroll_one_tokens: "ns_tokens (enroll_one sha r t st) =
    map (\<lambda>x. if et_id x = et_id t then x\<lparr>et_uses := et_uses t + 1\<rparr> else x) (ns_tokens st)"
  by (cases r) (simp add: enroll_one_def enroll_end_def Let_def split: option.split)

lemma enroll_one_ok: "tokens_ok (enroll_one sha r t st) = tokens_ok st"
  by (simp add: tokens_ok_def enroll_one_tokens comp_def if_distrib [of et_id] if_distrib [of et_token_hash] cong: if_cong)

lemma enroll_beginD: "enroll_begin sha now bearer st = Inr t \<Longrightarrow> t \<in> set (ns_tokens st) \<and> et_token_hash t = sha bearer \<and> is_usable now t"
  by (auto simp: enroll_begin_def find_Some_iff split: option.splits if_splits)

lemma token_unique: "tokens_ok st \<Longrightarrow> t \<in> set (ns_tokens st) \<Longrightarrow> u \<in> set (ns_tokens st) \<Longrightarrow>
    et_token_hash t = et_token_hash u \<or> et_id t = et_id u \<Longrightarrow> t = u"
  by (auto simp: tokens_ok_def distinct_map inj_on_def)

lemma enroll_one_row:
  assumes "tokens_ok st" and "t \<in> set (ns_tokens st)"
  shows "t\<lparr>et_uses := et_uses t + 1\<rparr> \<in> set (ns_tokens (enroll_one sha r t st))"
  using assms(2) by (force simp: enroll_one_tokens)

lemma enroll_each_bound:
  "tokens_ok st \<Longrightarrow> t \<in> set (ns_tokens st) \<Longrightarrow> et_token_hash t = sha bearer \<Longrightarrow> et_max_uses t = Some m \<Longrightarrow>
    snd (enroll_each sha bearer rs st) \<le> m - et_uses t"
proof (induction rs arbitrary: st t)
  case (Cons r rs)
  show ?case
  proof (cases "enroll_begin sha (fst r) bearer st")
    case (Inl e)
    with Cons show ?thesis by simp
  next
    case (Inr u)
    from enroll_beginD [OF Inr] Cons.prems token_unique have u: "u = t" "is_usable (fst r) t" by metis+
    then have "et_uses t < m" using Cons.prems(4) by (simp add: is_usable_def split: if_splits)
    moreover have "snd (enroll_each sha bearer rs (enroll_one sha r t st)) \<le> m - (et_uses t + 1)"
      using Cons.IH [of "enroll_one sha r t st" "t\<lparr>et_uses := et_uses t + 1\<rparr>"] Cons.prems
        enroll_one_row [OF Cons.prems(1,2)] by (simp add: enroll_one_ok)
    ultimately show ?thesis using Inr u(1) by (simp add: split_def)
  qed
qed simp

text \<open>Enrollments that do not overlap use a token at most as often as it allows, and a revoked, expired
  or spent token enrolls nothing. Enrollments that overlap, so that each reads the token before any has
  saved it, all succeed however few uses it has left, and together count as a single use.\<close>

theorem enrollments_bounded_unless_overlapping:
  assumes "tokens_ok st" and "t \<in> set (ns_tokens st)" and "et_token_hash t = sha bearer" and "et_max_uses t = Some m"
  shows "snd (enroll_each sha bearer rs st) \<le> m - et_uses t
    \<and> (\<not> is_usable now t \<longrightarrow> enroll_begin sha now bearer st = Inl (unauthorized ''Invalid or expired enrollment token''))
    \<and> (is_usable now t \<longrightarrow> enroll_begin sha now bearer st = Inr t)
    \<and> (rs \<noteq> [] \<longrightarrow> t\<lparr>et_uses := et_uses t + 1\<rparr> \<in> set (ns_tokens (foldl (\<lambda>s r. enroll_one sha r t s) st rs)))
    \<and> length (ns_audit (foldl (\<lambda>s r. enroll_one sha r t s) st rs)) = length (ns_audit st) + length rs"
proof -
  have "find (\<lambda>u. et_token_hash u = sha bearer) (ns_tokens st) = Some t"
    using assms token_unique [OF assms(1) _ assms(2)]
    by (cases "find (\<lambda>u. et_token_hash u = sha bearer) (ns_tokens st)") (auto simp: find_None_iff dest: find_SomeD)
  then have begins: "enroll_begin sha now bearer st =
      (if is_usable now t then Inr t else Inl (unauthorized ''Invalid or expired enrollment token''))"
    by (simp add: enroll_begin_def)
  have tokens: "ns_tokens (foldl (\<lambda>s r. enroll_one sha r t s) st rs) =
      (if rs = [] then ns_tokens st
       else map (\<lambda>x. if et_id x = et_id t then x\<lparr>et_uses := et_uses t + 1\<rparr> else x) (ns_tokens st))"
    by (induction rs rule: rev_induct) (auto simp: enroll_one_tokens comp_def)
  have "length (ns_audit (foldl (\<lambda>s r. enroll_one sha r t s) st rs)) = length (ns_audit st) + length rs"
    by (induction rs rule: rev_induct) (simp_all add: enroll_one_def enroll_end_def Let_def split_def split: option.split)
  moreover have "t\<lparr>et_uses := et_uses t + 1\<rparr> \<in> set (ns_tokens (foldl (\<lambda>s r. enroll_one sha r t s) st rs))" if "rs \<noteq> []"
    using that assms(2) by (force simp: tokens)
  ultimately show ?thesis using enroll_each_bound [of st t sha bearer m rs] assms begins by simp
qed

lemma enrollments_bounded_unless_overlapping_witness:
  "length (ns_audit (foldl (\<lambda>s r. enroll_one (\<lambda>s. s) r sample_token s) (no_nodes\<lparr>ns_tokens := [sample_token]\<rparr>)
       [(0, ''a'', None, ''1'', sample_inventory), (0, ''b'', None, ''1'', sample_inventory\<lparr>inv_machine_id := ''n''\<rparr>)])) = 2
   \<and> snd (enroll_each (\<lambda>s. s) ''x'' [(0, ''a'', None, ''1'', sample_inventory),
       (0, ''b'', None, ''1'', sample_inventory\<lparr>inv_machine_id := ''n''\<rparr>)] (no_nodes\<lparr>ns_tokens := [sample_token]\<rparr>)) \<le> 1"
  using enrollments_bounded_unless_overlapping [of "no_nodes\<lparr>ns_tokens := [sample_token]\<rparr>" sample_token "\<lambda>s. s" "''x''" 1
    "[(0, ''a'', None, ''1'', sample_inventory), (0, ''b'', None, ''1'', sample_inventory\<lparr>inv_machine_id := ''n''\<rparr>)]" 0]
  by (simp add: tokens_ok_def sample_token_def no_nodes_def)

section \<open>Rules of the tables\<close>

inductive node_reachable :: "(string \<Rightarrow> string) \<Rightarrow> 'm nodes_state \<Rightarrow> ('m, 'p) node_effect list \<Rightarrow> bool" for sha where
  nr_start: "ns_nodes st = [] \<Longrightarrow> ns_owners st = [] \<Longrightarrow> 0 < ns_next_id st \<Longrightarrow> node_reachable sha st []"
| nr_enroll: "node_reachable sha st sent \<Longrightarrow> enroll_end sha now secret name v hw t st = (st', effs, b, nid) \<Longrightarrow>
    node_reachable sha st' (sent @ effs)"
| nr_hello: "node_reachable sha st sent \<Longrightarrow> on_agent_hello now nid hello st = (st', effs, r) \<Longrightarrow>
    node_reachable sha st' (sent @ effs)"
| nr_metrics: "node_reachable sha st sent \<Longrightarrow> on_agent_metrics now nid metrics st = (st', effs) \<Longrightarrow>
    node_reachable sha st' (sent @ effs)"
| nr_offline: "node_reachable sha st sent \<Longrightarrow> set_node_status nid Node_Offline st = (st', effs) \<Longrightarrow>
    node_reachable sha st' (sent @ effs)"
| nr_configure: "node_reachable sha st sent \<Longrightarrow> configure_agent s f nid st = (st', effs) \<Longrightarrow>
    node_reachable sha st' (sent @ effs)"
| nr_update: "node_reachable sha st sent \<Longrightarrow> update_node live nid changes st = (st', effs, r) \<Longrightarrow>
    node_reachable sha st' (sent @ effs)"
| nr_remove: "node_reachable sha st sent \<Longrightarrow> remove_node nid st = (st', effs, r) \<Longrightarrow>
    node_reachable sha st' (sent @ effs)"
| nr_grant: "node_reachable sha st sent \<Longrightarrow> grant_node now nid who actor st = (st', effs, r2) \<Longrightarrow>
    node_reachable sha st' (sent @ effs)"
| nr_revoke: "node_reachable sha st sent \<Longrightarrow> revoke_node nid who st = (st', effs, r2) \<Longrightarrow>
    node_reachable sha st' (sent @ effs)"
| nr_other: "node_reachable sha st sent \<Longrightarrow> ns_nodes st' = ns_nodes st \<Longrightarrow> ns_owners st' = ns_owners st \<Longrightarrow>
    ns_next_id st \<le> ns_next_id st' \<Longrightarrow> node_reachable sha st' sent"

definition range_ok :: "'m panel_node \<Rightarrow> bool" where
  "range_ok n \<longleftrightarrow> n_port_range_start n \<le> n_port_range_end n \<and> n_port_range_end n - n_port_range_start n \<le> 20000
     \<and> (\<forall>port. n_sftp_port n = Some port \<longrightarrow> port \<notin> {n_port_range_start n .. n_port_range_end n})"

definition owners_ok :: "'m nodes_state \<Rightarrow> bool" where
  "owners_ok st \<longleftrightarrow> distinct (map (\<lambda>r. (nu_node_id r, nu_user_id r)) (ns_owners st))
     \<and> (\<forall>r\<in>set (ns_owners st). nu_node_id r \<in> n_id ` set (ns_nodes st))"

fun presence_of :: "nat \<Rightarrow> ('m, 'p) node_effect \<Rightarrow> bool option" where
  "presence_of nid (Emit_Online n) = (if n = nid then Some True else None)"
| "presence_of nid (Emit_Offline n) = (if n = nid then Some False else None)"
| "presence_of nid _ = None"

definition presence :: "nat \<Rightarrow> ('m, 'p) node_effect list \<Rightarrow> bool list" where
  "presence nid effs = List.map_filter (presence_of nid) effs"

lemma presence_append [simp]: "presence nid (xs @ ys) = presence nid xs @ presence nid ys"
  by (simp add: presence_def map_filter_def)

lemma presence_simps [simp]: "presence nid [] = []"
  "presence nid (e # es) = (case presence_of nid e of None \<Rightarrow> presence nid es | Some b \<Rightarrow> b # presence nid es)"
  by (simp_all add: presence_def map_filter_def split: option.split)

text \<open>Alternating, beginning with online; \<open>p\<close> is the state before.\<close>

fun alternates :: "bool \<Rightarrow> bool list \<Rightarrow> bool" where
  "alternates p [] = True"
| "alternates p (b # bs) = (b \<noteq> p \<and> alternates b bs)"

lemma alternates_snoc [simp]: "alternates p (bs @ [b]) \<longleftrightarrow> alternates p bs \<and> b \<noteq> (if bs = [] then p else last bs)"
  by (induction bs arbitrary: p) auto

definition online_now :: "bool list \<Rightarrow> bool" where
  "online_now bs \<longleftrightarrow> bs \<noteq> [] \<and> last bs"

definition presence_ok :: "'m nodes_state \<Rightarrow> ('m, 'p) node_effect list \<Rightarrow> bool" where
  "presence_ok st sent \<longleftrightarrow> (\<forall>nid. alternates False (presence nid sent) \<and> (ns_next_id st \<le> nid \<longrightarrow> presence nid sent = []))
     \<and> (\<forall>n\<in>set (ns_nodes st). n_status n = Node_Online \<longleftrightarrow> online_now (presence (n_id n) sent))"

definition table_ok :: "'m nodes_state \<Rightarrow> bool" where
  "table_ok st \<longleftrightarrow> nodes_ok st \<and> (\<forall>n\<in>set (ns_nodes st). range_ok n) \<and> owners_ok st"

text \<open>An operation that rewrites rows in place.\<close>

lemma table_ok_map:
  assumes "table_ok st" and "ns_nodes st' = map f (ns_nodes st)" and "ns_next_id st \<le> ns_next_id st'"
    and "ns_owners st' = ns_owners st"
    and "\<And>n. n \<in> set (ns_nodes st) \<Longrightarrow> n_id (f n) = n_id n \<and> pn_machine_id (f n) = pn_machine_id n \<and> range_ok (f n)"
  shows "table_ok st'"
proof -
  have "map n_id (ns_nodes st') = map n_id (ns_nodes st)" "map pn_machine_id (ns_nodes st') = map pn_machine_id (ns_nodes st)"
    using assms(2,5) by simp_all
  moreover from this(1) have "n_id ` set (ns_nodes st') = n_id ` set (ns_nodes st)" by (metis list.set_map)
  moreover have "0 < n_id n \<and> n_id n < ns_next_id st' \<and> range_ok n" if mem: "n \<in> set (ns_nodes st')" for n
  proof -
    obtain m where "m \<in> set (ns_nodes st)" "n = f m" using mem assms(2) by auto
    with assms(1,3,5) show ?thesis by (auto simp: table_ok_def nodes_ok_def intro: less_le_trans)
  qed
  ultimately show ?thesis
    using assms(1,3,4) unfolding table_ok_def nodes_ok_def owners_ok_def by (metis less_le_trans)
qed

lemma presence_ok_same:
  assumes "presence_ok st sent" and "\<And>nid. presence nid effs = []" and "ns_next_id st \<le> ns_next_id st'"
    and "\<And>n. n \<in> set (ns_nodes st') \<Longrightarrow> (\<exists>m\<in>set (ns_nodes st). n_id m = n_id n \<and> n_status m = n_status n)
      \<or> (ns_next_id st \<le> n_id n \<and> n_status n = Node_Offline)"
  shows "presence_ok st' (sent @ effs)"
  using assms unfolding presence_ok_def by (fastforce simp: online_now_def)

lemma enroll_end_state:
  assumes "enroll_end sha now secret name v hw t st = (st', effs, b, nid)"
  shows "ns_owners st' = ns_owners st \<and> (\<forall>k. presence k effs = [])
    \<and> ((ns_next_id st' = ns_next_id st \<and> (\<exists>n\<in>set (ns_nodes st). pn_machine_id n = inv_machine_id hw \<and> ns_nodes st' = map (\<lambda>m. if n_id m = n_id n
          then (apply_inventory hw (n\<lparr>pn_secret_hash := sha secret\<rparr>))\<lparr>pn_token_id := Some (et_id t), pn_enrolled_at := now\<rparr>
          else m) (ns_nodes st)))
      \<or> (ns_next_id st' = ns_next_id st + 1 \<and> (\<forall>n\<in>set (ns_nodes st). pn_machine_id n \<noteq> inv_machine_id hw)
          \<and> ns_nodes st' = ns_nodes st @ [apply_inventory hw (new_node now (ns_next_id st) (node_name name hw)
              (sha secret) v (et_id t) hw)]))"
proof (cases "find (\<lambda>n. pn_machine_id n = inv_machine_id hw) (ns_nodes st)")
  case (Some n)
  with assms find_SomeD [OF Some] show ?thesis
    by (auto simp: enroll_end_def Let_def save_node_def intro!: bexI [of _ n])
next
  case None
  with assms show ?thesis by (auto simp: enroll_end_def Let_def find_None_iff)
qed

lemma row_of: "nodes_ok st \<Longrightarrow> m \<in> set (ns_nodes st) \<Longrightarrow> n \<in> set (ns_nodes st) \<Longrightarrow> n_id m = n_id n \<Longrightarrow> m = n"
  by (auto simp: nodes_ok_def distinct_map inj_on_def)

lemma range_ok_inventory [simp]: "range_ok (apply_inventory hw n) = range_ok n"
  by (simp add: range_ok_def apply_inventory_def)

lemma new_node_simps [simp]: "n_id (new_node now nid name h v t hw) = nid"
  "pn_machine_id (new_node now nid name h v t hw) = inv_machine_id hw"
  "n_status (new_node now nid name h v t hw) = Node_Offline" "range_ok (new_node now nid name h v t hw)"
  by (simp_all add: new_node_def range_ok_def)

lemma enroll_rules:
  assumes "table_ok st" and "presence_ok st sent" and "enroll_end sha now secret name v hw t st = (st', effs, b, nid)"
  shows "table_ok st' \<and> presence_ok st' (sent @ effs)"
proof -
  note e = enroll_end_state [OF assms(3)]
  have ok: "nodes_ok st" using assms(1) by (simp add: table_ok_def)
  from e consider (known) n where "n \<in> set (ns_nodes st)" "pn_machine_id n = inv_machine_id hw" "ns_next_id st' = ns_next_id st"
      "ns_nodes st' = map (\<lambda>m. if n_id m = n_id n
          then (apply_inventory hw (n\<lparr>pn_secret_hash := sha secret\<rparr>))\<lparr>pn_token_id := Some (et_id t), pn_enrolled_at := now\<rparr>
          else m) (ns_nodes st)"
    | (new) "ns_next_id st' = ns_next_id st + 1" "\<forall>n\<in>set (ns_nodes st). pn_machine_id n \<noteq> inv_machine_id hw"
      "ns_nodes st' = ns_nodes st @ [apply_inventory hw (new_node now (ns_next_id st) (node_name name hw) (sha secret) v (et_id t) hw)]"
    by blast
  then show ?thesis
  proof cases
    case known
    have "range_ok ((apply_inventory hw (n\<lparr>pn_secret_hash := sha secret\<rparr>))\<lparr>pn_token_id := Some (et_id t), pn_enrolled_at := now\<rparr>)"
      using assms(1) known(1) by (simp add: table_ok_def range_ok_def apply_inventory_def)
    then have "table_ok st'"
      using e known(3) row_of [OF ok _ known(1)] assms(1)
      by (intro table_ok_map [OF assms(1) known(4)]) (auto simp: table_ok_def)
    moreover have "presence_ok st' (sent @ effs)"
      using e known by (intro presence_ok_same [OF assms(2)]) auto
    ultimately show ?thesis ..
  next
    case new
    have "table_ok st'"
      using assms(1) e new by (auto simp: table_ok_def nodes_ok_def owners_ok_def less_Suc_eq)
    moreover have "presence_ok st' (sent @ effs)"
      using e new by (intro presence_ok_same [OF assms(2)]) auto
    ultimately show ?thesis ..
  qed
qed

lemma presence_of_other [simp]: "presence_of nid (Broadcast ev) = None" "presence_of nid (Emit_Status n s) = None"
  "presence_of nid (Emit_Sftp n l) = None" "presence_of nid (Emit_Access us) = None"
  "presence_of nid (Reconnect_Sockets w) = None" "presence_of nid (Configure_Node n) = None" "presence_of nid (Emit_Deleted n) = None"
  by simp_all

text \<open>An operation that changes one row's status and says so.\<close>

lemma presence_ok_change:
  assumes ok: "presence_ok st sent" "nodes_ok st" and n: "n \<in> set (ns_nodes st)" "n_status n \<noteq> new"
    and st': "ns_nodes st' = map (\<lambda>m. if n_id m = n_id n then f m else m) (ns_nodes st)" "ns_next_id st' = ns_next_id st"
    and f: "n_id (f n) = n_id n" "n_status (f n) = new"
    and effs: "\<And>k. presence k effs = (if k = n_id n then [new = Node_Online] else [])"
  shows "presence_ok st' (sent @ effs)"
proof -
  let ?old = "presence (n_id n) sent"
  have old: "n_status n = Node_Online \<longleftrightarrow> online_now ?old" "alternates False ?old"
    using ok(1) n(1) by (simp_all add: presence_ok_def)
  have flip: "(new = Node_Online) \<noteq> (n_status n = Node_Online)" using n(2) by (cases new; cases "n_status n") auto
  have alt: "alternates False (presence k (sent @ effs))" for k
    using ok(1) old flip by (auto simp: effs presence_ok_def online_now_def)
  have fresh: "presence k (sent @ effs) = []" if "ns_next_id st' \<le> k" for k
    using ok n(1) that by (auto simp: effs st'(2) presence_ok_def nodes_ok_def)
  have status: "n_status m = Node_Online \<longleftrightarrow> online_now (presence (n_id m) (sent @ effs))" if m: "m \<in> set (ns_nodes st')" for m
  proof -
    obtain k where k: "k \<in> set (ns_nodes st)" "m = (if n_id k = n_id n then f k else k)" using m st'(1) by auto
    show ?thesis
    proof (cases "n_id k = n_id n")
      case True
      with row_of [OF ok(2) k(1) n(1)] k(2) f have "n_id m = n_id n" "n_status m = new" by auto
      then show ?thesis by (simp add: effs online_now_def)
    next
      case False
      with k ok(1) show ?thesis by (simp add: effs presence_ok_def)
    qed
  qed
  show ?thesis using alt fresh status by (simp add: presence_ok_def)
qed

lemma hello_rules:
  assumes "table_ok st" and "presence_ok st sent" and hello: "on_agent_hello now nid hello st = (st', effs, r)"
  shows "table_ok st' \<and> presence_ok st' (sent @ effs)"
proof (cases r)
  case (Inl e)
  then have "st' = st" "effs = []" using hello by (auto simp: on_agent_hello_def Let_def split: if_splits option.splits)
  with assms show ?thesis by simp
next
  case (Inr u)
  then obtain n where n: "find_panel_node st nid = Some n"
    using hello by (auto simp: on_agent_hello_def split: if_splits option.splits)
  let ?n1 = "(apply_inventory (he_inventory hello) n)\<lparr>n_agent_version := Some (he_agent_version hello),
    pn_protocol_version := Some (he_protocol_version hello), pn_last_seen_at := Some now, n_status := Node_Online\<rparr>"
  from find_panel_node_id [OF n] have id: "n_id n = nid" "n \<in> set (ns_nodes st)" by simp_all
  have ok: "nodes_ok st" using assms(1) by (simp add: table_ok_def)
  have eqs: "st' = save_node ?n1 st" "effs = [Broadcast (Node_Status_Event nid Node_Online (Some now)), Broadcast (Node_Updated_Event nid)]
      @ (if n_status n \<noteq> Node_Online then [Emit_Online nid] else [])"
    using hello n Inr by (auto simp: on_agent_hello_def Let_def split: if_splits)
  have rows: "ns_nodes st' = map (\<lambda>m. if n_id m = n_id n then ?n1 else m) (ns_nodes st)"
    by (simp add: eqs(1) save_node_def)
  have "range_ok ?n1" using assms(1) id(2) by (simp add: table_ok_def range_ok_def apply_inventory_def)
  then have table: "table_ok st'"
    using row_of [OF ok _ id(2)] assms(1)
    by (intro table_ok_map [OF assms(1) rows]) (auto simp: eqs(1) table_ok_def)
  have "presence_ok st' (sent @ effs)"
  proof (cases "n_status n = Node_Online")
    case True
    then show ?thesis
      using id by (intro presence_ok_same [OF assms(2)]) (auto simp: eqs(2) eqs(1) [THEN arg_cong, of ns_next_id] rows)
  next
    case False
    then show ?thesis
      by (intro presence_ok_change [OF assms(2) ok id(2) False rows]) (auto simp: eqs id(1))
  qed
  with table show ?thesis ..
qed

lemma offline_rules:
  assumes "table_ok st" and "presence_ok st sent" and off: "set_node_status nid Node_Offline st = (st', effs)"
  shows "table_ok st' \<and> presence_ok st' (sent @ effs)"
proof (cases "filter (\<lambda>n. n_id n = nid \<and> n_status n \<noteq> Node_Offline) (ns_nodes st)")
  case Nil
  then have "st' = st" "effs = []" using off by (auto simp: set_node_status_def)
  with assms show ?thesis by simp
next
  case (Cons n ns)
  then have n: "n \<in> set (ns_nodes st)" "n_id n = nid" "n_status n \<noteq> Node_Offline"
    by (auto simp: filter_eq_Cons_iff)
  have ok: "nodes_ok st" using assms(1) by (simp add: table_ok_def)
  have rows: "ns_nodes st' = map (\<lambda>m. if n_id m = n_id n then m\<lparr>n_status := Node_Offline\<rparr> else m) (ns_nodes st)"
  proof -
    have "(if n_id m = nid \<and> n_status m \<noteq> Node_Offline then m\<lparr>n_status := Node_Offline\<rparr> else m)
        = (if n_id m = n_id n then m\<lparr>n_status := Node_Offline\<rparr> else m)" if m: "m \<in> set (ns_nodes st)" for m
      using row_of [OF ok m n(1)] n(2,3) by (cases "n_id m = nid") simp_all
    then show ?thesis using off Cons by (auto simp: set_node_status_def Let_def intro!: map_cong)
  qed
  have frame: "ns_next_id st' = ns_next_id st" "ns_owners st' = ns_owners st"
      "presence k effs = (if k = n_id n then [Node_Offline = Node_Online] else [])" for k
    using off Cons n(2) by (auto simp: set_node_status_def Let_def)
  have "table_ok st'"
    using assms(1) frame by (intro table_ok_map [OF assms(1) rows]) (auto simp: table_ok_def range_ok_def)
  moreover have "presence_ok st' (sent @ effs)"
    using frame by (intro presence_ok_change [OF assms(2) ok n(1,3) rows]) auto
  ultimately show ?thesis ..
qed

lemma row_rules:
  assumes "table_ok st" and "presence_ok st sent" and "ns_nodes st' = map f (ns_nodes st)" and "ns_next_id st' = ns_next_id st"
    and "ns_owners st' = ns_owners st" and "\<And>k. presence k effs = []"
    and "\<And>n. n \<in> set (ns_nodes st) \<Longrightarrow> n_id (f n) = n_id n \<and> pn_machine_id (f n) = pn_machine_id n \<and> range_ok (f n) \<and> n_status (f n) = n_status n"
  shows "table_ok st' \<and> presence_ok st' (sent @ effs)"
proof
  show "table_ok st'" using assms(4-7) by (intro table_ok_map [OF assms(1,3)]) simp_all
  show "presence_ok st' (sent @ effs)"
    using assms(3,4,6,7) by (intro presence_ok_same [OF assms(2)]) force+
qed

lemma configured_simps [simp]: "n_id (configured s f n) = n_id n" "pn_machine_id (configured s f n) = pn_machine_id n"
    "n_status (configured s f n) = n_status n" "range_ok (configured s f n) = range_ok n"
  by (simp_all add: configured_def range_ok_def Let_def split: option.split)

lemma configure_rules:
  assumes "table_ok st" and "presence_ok st sent" and "configure_agent s f nid st = (st', effs)"
  shows "table_ok st' \<and> presence_ok st' (sent @ effs)"
  using assms by (intro row_rules [OF assms(1,2), where f = "\<lambda>n. if n_id n = nid then configured s f n else n"])
    (auto simp: configure_agent_def table_ok_def)

lemma metrics_rules:
  assumes "table_ok st" and "presence_ok st sent" and "on_agent_metrics now nid metrics st = (st', effs)"
  shows "table_ok st' \<and> presence_ok st' (sent @ effs)"
  using assms by (intro row_rules [OF assms(1,2), where
      f = "\<lambda>n. if n_id n = nid then n\<lparr>pn_last_metrics := Some metrics, pn_last_seen_at := Some now\<rparr> else n"])
    (auto simp: on_agent_metrics_def table_ok_def range_ok_def)

lemma check_update_ok: "check_update nid changes n st = Inr u \<Longrightarrow> range_ok (with_settings changes n)"
  by (auto simp: check_update_def Let_def result_simps range_ok_def split: option.splits)

lemma update_node_Inr:
  assumes "update_node live nid changes st = (st', effs, Inr n1)"
  shows "\<exists>n. find_panel_node st nid = Some n \<and> n1 = with_settings changes n \<and> check_update nid changes n st = Inr ()
    \<and> ns_nodes st' = ns_nodes (save_node n1 st) \<and> ns_next_id st' = ns_next_id st \<and> ns_owners st' = ns_owners st
    \<and> ns_ports st' = ns_ports st \<and> (\<forall>k. presence k effs = [])"
  using assms by (auto simp: update_node_def get_node_def Let_def split: option.splits sum.splits if_splits)

lemma update_node_Inl: "update_node live nid changes st = (st', effs, Inl e) \<Longrightarrow> st' = st \<and> effs = []"
  by (auto simp: update_node_def Let_def split: sum.splits)

lemma with_settings_simps [simp]: "n_id (with_settings changes n) = n_id n"
    "pn_machine_id (with_settings changes n) = pn_machine_id n" "n_status (with_settings changes n) = n_status n"
  by (simp_all add: with_settings_def with_texts_def)

lemma update_rules:
  assumes "table_ok st" and "presence_ok st sent" and up: "update_node live nid changes st = (st', effs, r)"
  shows "table_ok st' \<and> presence_ok st' (sent @ effs)"
proof (cases r)
  case (Inl e)
  with update_node_Inl up assms show ?thesis by fastforce
next
  case (Inr n1)
  with update_node_Inr up obtain n where n: "find_panel_node st nid = Some n" "n1 = with_settings changes n"
      "check_update nid changes n st = Inr ()" "ns_nodes st' = ns_nodes (save_node n1 st)"
      "ns_next_id st' = ns_next_id st" "ns_owners st' = ns_owners st" "\<And>k. presence k effs = []" by blast
  have ok: "nodes_ok st" using assms(1) by (simp add: table_ok_def)
  have mem: "n \<in> set (ns_nodes st)" using find_panel_node_id [OF n(1)] by simp
  show ?thesis
    using n row_of [OF ok _ mem] check_update_ok [OF n(3)] assms(1)
    by (intro row_rules [OF assms(1,2), where f = "\<lambda>m. if n_id m = n_id n1 then n1 else m"])
      (auto simp: save_node_def table_ok_def)
qed

lemma remove_rules:
  assumes "table_ok st" and "presence_ok st sent" and rm: "remove_node nid st = (st', effs, r)"
  shows "table_ok st' \<and> presence_ok st' (sent @ effs)"
proof (cases r)
  case (Inl e)
  then have "st' = st" "effs = []" using rm by (auto simp: remove_node_def Let_def split: sum.splits if_splits)
  with assms show ?thesis by simp
next
  case (Inr u)
  have silent: "presence k (map (Reconnect_Sockets \<circ> f) xs) = []" for k f and xs :: "node_owner list" by (induction xs) simp_all
  have eqs: "ns_nodes st' = filter (\<lambda>m. n_id m \<noteq> nid) (ns_nodes st)" "ns_next_id st' = ns_next_id st"
      "ns_owners st' = filter (\<lambda>r. nu_node_id r \<noteq> nid) (ns_owners st)" "\<And>k. presence k effs = []"
    using rm Inr by (auto simp: remove_node_def Let_def silent split: sum.splits if_splits)
  have "table_ok st'"
    using assms(1) by (auto simp: table_ok_def nodes_ok_def owners_ok_def eqs distinct_map_filter)
  moreover have "presence_ok st' (sent @ effs)"
    using eqs by (intro presence_ok_same [OF assms(2)]) auto
  ultimately show ?thesis ..
qed

lemma owner_rules:
  assumes "table_ok st" and "presence_ok st sent"
  shows "grant_node now nid who actor st = (st', effs, r) \<Longrightarrow> table_ok st' \<and> presence_ok st' (sent @ effs)"
    and "revoke_node nid who st = (st', effs, r) \<Longrightarrow> table_ok st' \<and> presence_ok st' (sent @ effs)"
proof -
  assume g: "grant_node now nid who actor st = (st', effs, r)"
  then have nodes: "ns_nodes st' = ns_nodes st" "ns_next_id st' = ns_next_id st" "\<And>k. presence k effs = []"
    by (auto simp: grant_node_def owners_changed_def Let_def split: sum.splits if_splits)
  have "owners_ok st'"
    using assms(1) g find_panel_node_id [of st nid]
    by (force simp: grant_node_def get_node_def table_ok_def owners_ok_def Let_def list_ex_iff
      split: sum.splits if_splits option.splits)
  then show "table_ok st' \<and> presence_ok st' (sent @ effs)"
    using assms nodes by (auto simp: table_ok_def nodes_ok_def presence_ok_def)
next
  assume g: "revoke_node nid who st = (st', effs, r)"
  then have nodes: "ns_nodes st' = ns_nodes st" "ns_next_id st' = ns_next_id st" "\<And>k. presence k effs = []"
    by (auto simp: revoke_node_def owners_changed_def Let_def split: if_splits)
  have "owners_ok st'"
    using assms(1) g by (auto simp: revoke_node_def table_ok_def owners_ok_def Let_def distinct_map_filter split: if_splits)
  then show "table_ok st' \<and> presence_ok st' (sent @ effs)"
    using assms nodes by (auto simp: table_ok_def nodes_ok_def presence_ok_def)
qed

lemma other_rules:
  assumes "table_ok st" and "presence_ok st sent" and "ns_nodes st' = ns_nodes st" and "ns_owners st' = ns_owners st"
    and "ns_next_id st \<le> ns_next_id st'"
  shows "table_ok st' \<and> presence_ok st' sent"
proof
  have "n_id n < ns_next_id st'" if "n \<in> set (ns_nodes st)" for n
    using that assms(1,5) by (auto simp: table_ok_def nodes_ok_def intro: less_le_trans)
  then show "table_ok st'" using assms by (auto simp: table_ok_def nodes_ok_def owners_ok_def)
  show "presence_ok st' sent" using assms(2,3,5) by (auto simp: presence_ok_def)
qed

lemma node_reachable_rules: "node_reachable sha st sent \<Longrightarrow> table_ok st \<and> presence_ok st sent"
proof (induction rule: node_reachable.induct)
  case (nr_start st)
  then show ?case by (simp add: table_ok_def nodes_ok_def owners_ok_def presence_ok_def)
next
  case nr_enroll
  show ?case by (rule enroll_rules [OF conjunct1 [OF nr_enroll.IH] conjunct2 [OF nr_enroll.IH] nr_enroll.hyps(2)])
next
  case nr_hello
  show ?case by (rule hello_rules [OF conjunct1 [OF nr_hello.IH] conjunct2 [OF nr_hello.IH] nr_hello.hyps(2)])
next
  case nr_metrics
  show ?case by (rule metrics_rules [OF conjunct1 [OF nr_metrics.IH] conjunct2 [OF nr_metrics.IH] nr_metrics.hyps(2)])
next
  case nr_offline
  show ?case by (rule offline_rules [OF conjunct1 [OF nr_offline.IH] conjunct2 [OF nr_offline.IH] nr_offline.hyps(2)])
next
  case nr_configure
  show ?case by (rule configure_rules [OF conjunct1 [OF nr_configure.IH] conjunct2 [OF nr_configure.IH] nr_configure.hyps(2)])
next
  case nr_update
  show ?case by (rule update_rules [OF conjunct1 [OF nr_update.IH] conjunct2 [OF nr_update.IH] nr_update.hyps(2)])
next
  case nr_remove
  show ?case by (rule remove_rules [OF conjunct1 [OF nr_remove.IH] conjunct2 [OF nr_remove.IH] nr_remove.hyps(2)])
next
  case nr_grant
  show ?case by (rule owner_rules(1) [OF conjunct1 [OF nr_grant.IH] conjunct2 [OF nr_grant.IH] nr_grant.hyps(2)])
next
  case nr_revoke
  show ?case by (rule owner_rules(2) [OF conjunct1 [OF nr_revoke.IH] conjunct2 [OF nr_revoke.IH] nr_revoke.hyps(2)])
next
  case nr_other
  show ?case by (rule other_rules [OF conjunct1 [OF nr_other.IH] conjunct2 [OF nr_other.IH] nr_other.hyps(2-4)])
qed

text \<open>C14. Over any run of enrollments, hellos, metrics, configuration answers, settings changes, deletions,
  grants and revocations a machine has at most one node; every port pool is in order and spans at most
  20001 ports; no SFTP port lies in its node's pool; and owners are distinct pairs of existing nodes.\<close>

theorem node_tables_kept:
  assumes "node_reachable sha st sent"
  shows "distinct (map n_id (ns_nodes st)) \<and> distinct (map pn_machine_id (ns_nodes st))
    \<and> (\<forall>n\<in>set (ns_nodes st). n_port_range_start n \<le> n_port_range_end n
        \<and> card {n_port_range_start n .. n_port_range_end n} \<le> 20001
        \<and> (\<forall>port. n_sftp_port n = Some port \<longrightarrow> port < n_port_range_start n \<or> n_port_range_end n < port))
    \<and> distinct (map (\<lambda>r. (nu_node_id r, nu_user_id r)) (ns_owners st))
    \<and> nu_node_id ` set (ns_owners st) \<subseteq> n_id ` set (ns_nodes st)"
  using node_reachable_rules [OF assms] by (auto simp: table_ok_def nodes_ok_def owners_ok_def range_ok_def not_le)

text \<open>C31. Whatever the sockets, the heartbeat check and the agents do, the server hears of a node coming online
  and going offline in strict turns, beginning with online, and the row says online exactly when the
  last of the two it heard was online. So every loss of a node is told once, and only after a hello.\<close>

theorem presence_alternates:
  assumes "node_reachable sha st sent"
  shows "alternates False (presence nid sent)
    \<and> (\<forall>n\<in>set (ns_nodes st). n_id n = nid \<longrightarrow>
        (n_status n = Node_Online \<longleftrightarrow> presence nid sent \<noteq> [] \<and> last (presence nid sent)))"
  using node_reachable_rules [OF assms] by (auto simp: presence_ok_def online_now_def)

definition enrolled_state :: "unit nodes_state" where
  "enrolled_state = no_nodes\<lparr>ns_nodes := [apply_inventory sample_inventory (new_node 0 1 ''h'' ''s'' ''1'' 9 sample_inventory)],
     ns_next_id := 2, ns_audit := [(''node.enroll'', 1)]\<rparr>"

lemma enrolled_reachable: "node_reachable (\<lambda>s. s) enrolled_state
    ([] @ [Broadcast (Node_Updated_Event 1)] :: (unit, unit) node_effect list)"
proof (rule nr_enroll [OF nr_start [of no_nodes]])
  show "enroll_end (\<lambda>s. s) 0 ''s'' None ''1'' sample_inventory sample_token no_nodes
      = (enrolled_state, [Broadcast (Node_Updated_Event 1)], string_of_int 1 @ ''.'' @ ''s'', 1)"
    by (simp add: enroll_end_def no_nodes_def enrolled_state_def node_name_def sample_inventory_def sample_token_def)
qed (simp_all add: no_nodes_def)

lemma node_tables_kept_witness:
  "card {n_port_range_start (hd (ns_nodes enrolled_state)) .. n_port_range_end (hd (ns_nodes enrolled_state))} \<le> 20001"
  using node_tables_kept [OF enrolled_reachable] by (simp add: enrolled_state_def)

definition sample_hello :: hello_params where
  "sample_hello = \<lparr>he_protocol_version = 1, he_agent_version = ''1'', he_inventory = sample_inventory\<rparr>"

lemma presence_alternates_witness:
  "n_status (hd (ns_nodes (fst (on_agent_hello 5 1 sample_hello enrolled_state
     :: unit nodes_state \<times> (unit, unit) node_effect list \<times> (string + unit))))) = Node_Online"
proof -
  let ?h = "on_agent_hello 5 1 sample_hello enrolled_state :: unit nodes_state \<times> (unit, unit) node_effect list \<times> (string + unit)"
  have h: "?h = (fst ?h, fst (snd ?h), snd (snd ?h))" by simp
  have effs: "presence 1 (fst (snd ?h)) = [True]"
    by (simp add: on_agent_hello_def sample_hello_def protocol_version_def find_panel_node_def enrolled_state_def Let_def)
  have rows: "ns_nodes (fst ?h) \<noteq> []" "n_id (hd (ns_nodes (fst ?h))) = 1"
    by (simp_all add: on_agent_hello_def sample_hello_def protocol_version_def find_panel_node_def enrolled_state_def save_node_def Let_def)
  from presence_alternates [OF nr_hello [OF enrolled_reachable h], of 1] show ?thesis
    using effs rows hd_in_set [OF rows(1)] by simp
qed

text \<open>The limit is named as 20000 ports; a pool from 30000 to 50000 has one more and is accepted.\<close>

lemma pool_of_20001_ports:
  assumes "un_port_range_start changes = Some 30000" and "un_port_range_end changes = Some 50000"
    and "un_sftp_port changes = None" and "n_sftp_port n = None"
  shows "check_update nid changes n st = Inr () \<and> card {30000 .. 50000 :: int} = 20001"
  using assms by (simp add: check_update_def with_settings_def with_texts_def or_else_def check_sftp_def)

end
