(* ===== verification/Transfers.thy ===== *)
theory Transfers
  imports Prelude "HOL-Library.Word"
begin

text \<open>
  One-time download tickets (server/src/modules/files/tickets.ts) and the byte relay between browsers and
  agents (files/transfers.ts). Random ids are arguments. A transfer is an object that its closures keep
  when the map has dropped it, so the state has both: the objects by token, and the tokens in the map.
  A promise that settles keeps its first value. Timers firing, chunks arriving and streams being
  cancelled are events of their own; SHA-256 of what was read is the argument \<open>sha\<close>.
\<close>

section \<open>Tickets\<close>

definition ticket_ms :: int where "ticket_ms = 60000"

datatype ticket_kind = Files_Ticket string "string list" | Backup_Ticket string string

record ticket =
  tk_user_id :: nat
  tk_instance_id :: nat
  tk_node_id :: nat
  tk_filename :: string
  tk_size :: "nat option"
  tk_archive :: bool
  tk_kind :: ticket_kind
  tk_expires_at :: int

type_synonym tickets = "string \<rightharpoonup> ticket"

definition issue_ticket :: "int \<Rightarrow> string \<Rightarrow> ticket \<Rightarrow> tickets \<Rightarrow> tickets" where
  "issue_ticket now fresh t ts =
     (\<lambda>k. case ts k of None \<Rightarrow> None | Some v \<Rightarrow> if tk_expires_at v < now then None else Some v)
       (fresh \<mapsto> t\<lparr>tk_expires_at := now + ticket_ms\<rparr>)"

definition claim_ticket :: "int \<Rightarrow> string \<Rightarrow> nat \<Rightarrow> tickets \<Rightarrow> tickets \<times> ticket option" where
  "claim_ticket now tid who ts = (case ts tid of
     None \<Rightarrow> (ts, None)
   | Some t \<Rightarrow> if tk_expires_at t < now \<or> tk_user_id t \<noteq> who then (ts, None) else (ts(tid := None), Some t))"

text \<open>\<open>ascii\<close> in \<open>contentDisposition\<close>: what is not printable, quotes and backslashes become underscores.\<close>

definition ascii_filename :: "string \<Rightarrow> string" where
  "ascii_filename = map (\<lambda>c.
     if \<not> ((32 :: nat) \<le> of_char c \<and> of_char c \<le> (126 :: nat)) \<or> c = CHR ''\"'' \<or> c = CHR 92 then CHR ''_'' else c)"

section \<open>Transfers\<close>

datatype 'a deferred = Waiting | Fulfilled 'a | Failed_With string

definition fulfil :: "'a \<Rightarrow> 'a deferred \<Rightarrow> 'a deferred" where
  "fulfil v d = (case d of Waiting \<Rightarrow> Fulfilled v | _ \<Rightarrow> d)"

definition fail_with :: "string \<Rightarrow> 'a deferred \<Rightarrow> 'a deferred" where
  "fail_with e d = (case d of Waiting \<Rightarrow> Failed_With e | _ \<Rightarrow> d)"

datatype stream_state = Unserved | Streaming | Closed_Stream | Errored string

record outgoing =
  og_node_id :: nat
  og_size :: nat
  og_claimed :: bool
  og_digest :: "string deferred"
  og_stream :: stream_state
  og_tally :: "8 word list"
  og_sent :: "8 word list"

text \<open>An arrival carries the length the agent announced.\<close>

record incoming =
  ic_node_id :: nat
  ic_claimed :: bool
  ic_arrival :: "nat option deferred"

datatype transfer = Out outgoing | In incoming

record transfers =
  tr_objects :: "string \<rightharpoonup> transfer"
  tr_items :: "string set"

definition item :: "transfers \<Rightarrow> string \<Rightarrow> transfer option" where
  "item st token = (if token \<in> tr_items st then tr_objects st token else None)"

definition put_object :: "string \<Rightarrow> transfer \<Rightarrow> transfers \<Rightarrow> transfers" where
  "put_object token t st = st\<lparr>tr_objects := (tr_objects st)(token \<mapsto> t)\<rparr>"

definition drop_item :: "string \<Rightarrow> transfers \<Rightarrow> transfers" where
  "drop_item token st = st\<lparr>tr_items := tr_items st - {token}\<rparr>"

definition add_transfer :: "string \<Rightarrow> transfer \<Rightarrow> transfers \<Rightarrow> transfers" where
  "add_transfer token t st = (put_object token t st)\<lparr>tr_items := insert token (tr_items st)\<rparr>"

definition offer :: "string \<Rightarrow> nat \<Rightarrow> nat \<Rightarrow> transfers \<Rightarrow> transfers" where
  "offer token nid n st = add_transfer token (Out \<lparr>og_node_id = nid, og_size = n, og_claimed = False,
     og_digest = Waiting, og_stream = Unserved, og_tally = [], og_sent = []\<rparr>) st"

definition expect :: "string \<Rightarrow> nat \<Rightarrow> transfers \<Rightarrow> transfers" where
  "expect token nid st = add_transfer token (In \<lparr>ic_node_id = nid, ic_claimed = False, ic_arrival = Waiting\<rparr>) st"

definition expire :: "string \<Rightarrow> transfers \<Rightarrow> transfers" where
  "expire token st = (case item st token of
     None \<Rightarrow> st
   | Some (Out t) \<Rightarrow> if og_claimed t then st else put_object token
       (Out (t\<lparr>og_digest := fail_with ''The node never fetched the file'' (og_digest t)\<rparr>)) (drop_item token st)
   | Some (In t) \<Rightarrow> if ic_claimed t then st else put_object token
       (In (t\<lparr>ic_arrival := fail_with ''The node never sent the file'' (ic_arrival t)\<rparr>)) (drop_item token st))"

text \<open>The \<open>cancel\<close> that \<open>offer\<close> and \<open>expect\<close> hand out: it has the object, not the map's entry.\<close>

definition cancel_transfer :: "string \<Rightarrow> string \<Rightarrow> transfers \<Rightarrow> transfers" where
  "cancel_transfer token reason st = (case tr_objects st token of
     None \<Rightarrow> st
   | Some (Out t) \<Rightarrow> put_object token (Out (t\<lparr>og_digest := fail_with reason (og_digest t)\<rparr>)) (drop_item token st)
   | Some (In t) \<Rightarrow> put_object token (In (t\<lparr>ic_arrival := fail_with reason (ic_arrival t)\<rparr>))
       (if ic_claimed t then st else drop_item token st))"

definition finish :: "(8 word list \<Rightarrow> string) \<Rightarrow> outgoing \<Rightarrow> outgoing" where
  "finish sha t = t\<lparr>og_digest := fulfil (sha (og_tally t)) (og_digest t), og_stream := Closed_Stream\<rparr>"

definition fail_stream :: "string \<Rightarrow> string \<Rightarrow> outgoing \<Rightarrow> transfers \<Rightarrow> transfers" where
  "fail_stream token m t st = put_object token
     (Out (t\<lparr>og_digest := fail_with m (og_digest t), og_stream := Errored m\<rparr>)) (drop_item token st)"

definition unknown_transfer :: string where "unknown_transfer = ''Unknown transfer''"

text \<open>The agent's GET; the stream of an empty file closes at once.\<close>

definition serve :: "(8 word list \<Rightarrow> string) \<Rightarrow> string \<Rightarrow> nat \<Rightarrow> transfers \<Rightarrow> transfers \<times> (string + nat)" where
  "serve sha token nid st = (case item st token of
     Some (Out t) \<Rightarrow>
       if og_node_id t \<noteq> nid \<or> og_claimed t then (st, Inl unknown_transfer)
       else let t1 = t\<lparr>og_claimed := True, og_stream := Streaming\<rparr>;
                t2 = (if og_size t1 = 0 then finish sha t1 else t1) in
         (put_object token (Out t2) st, Inr (og_size t))
   | _ \<Rightarrow> (st, Inl unknown_transfer))"

text \<open>What one \<open>pull\<close> of the stream meets: a chunk, the end of the source, or an error or stall.\<close>

datatype read_result = Chunk "8 word list" | Source_Done | Source_Failed string

definition stalled :: read_result where "stalled = Source_Failed ''The upload stalled''"

definition ended_early :: "nat \<Rightarrow> nat \<Rightarrow> string" where
  "ended_early got n = ''The upload ended after '' @ string_of_int (int got) @ '' of '' @ string_of_int (int n) @ '' bytes''"

definition pull :: "(8 word list \<Rightarrow> string) \<Rightarrow> string \<Rightarrow> read_result \<Rightarrow> transfers \<Rightarrow> transfers" where
  "pull sha token r st = (case tr_objects st token of
     Some (Out t) \<Rightarrow>
       if og_stream t \<noteq> Streaming then st
       else (case r of
         Source_Done \<Rightarrow> fail_stream token (ended_early (length (og_tally t)) (og_size t)) t st
       | Source_Failed m \<Rightarrow> fail_stream token m t st
       | Chunk bytes \<Rightarrow>
           let t1 = t\<lparr>og_tally := og_tally t @ bytes\<rparr> in
           if length (og_tally t1) > og_size t1 then fail_stream token ''The upload is larger than announced'' t1 st
           else let t2 = t1\<lparr>og_sent := og_sent t1 @ bytes\<rparr> in
             put_object token (Out (if length (og_tally t2) = og_size t2 then finish sha t2 else t2)) st)
   | _ \<Rightarrow> st)"

definition stop_reading :: "string \<Rightarrow> transfers \<Rightarrow> transfers" where
  "stop_reading token st = (case tr_objects st token of
     Some (Out t) \<Rightarrow> if og_stream t \<noteq> Streaming then st else fail_stream token ''The node stopped reading'' t st
   | _ \<Rightarrow> st)"

text \<open>The agent's GET of the digest answers when the promise has settled, and drops the transfer then.\<close>

definition digest_begin :: "string \<Rightarrow> nat \<Rightarrow> transfers \<Rightarrow> string + unit" where
  "digest_begin token nid st = (case item st token of
     Some (Out t) \<Rightarrow> if og_node_id t \<noteq> nid \<or> \<not> og_claimed t then Inl unknown_transfer else Inr ()
   | _ \<Rightarrow> Inl unknown_transfer)"

definition digest_end :: "string \<Rightarrow> transfers \<Rightarrow> transfers \<times> (string + string) option" where
  "digest_end token st = (case tr_objects st token of
     Some (Out t) \<Rightarrow> (case og_digest t of
       Waiting \<Rightarrow> (st, None)
     | Fulfilled h \<Rightarrow> (drop_item token st, Some (Inr h))
     | Failed_With m \<Rightarrow> (drop_item token st, Some (Inl m)))
   | _ \<Rightarrow> (st, None))"

definition receive :: "string \<Rightarrow> nat \<Rightarrow> nat option \<Rightarrow> transfers \<Rightarrow> transfers \<times> (string + unit)" where
  "receive token nid len st = (case item st token of
     Some (In t) \<Rightarrow>
       if ic_node_id t \<noteq> nid \<or> ic_claimed t then (st, Inl unknown_transfer)
       else (put_object token (In (t\<lparr>ic_claimed := True, ic_arrival := fulfil len (ic_arrival t)\<rparr>))
         (drop_item token st), Inr ())
   | _ \<Rightarrow> (st, Inl unknown_transfer))"

section \<open>Runs of the relay\<close>

datatype relay_log = Served string nat | Asked string nat | Told string string | Received string nat

inductive relay_reachable :: "(8 word list \<Rightarrow> string) \<Rightarrow> transfers \<Rightarrow> relay_log list \<Rightarrow> bool" for sha where
  rr_start: "relay_reachable sha \<lparr>tr_objects = Map.empty, tr_items = {}\<rparr> []"
| rr_offer: "relay_reachable sha st tr \<Longrightarrow> tr_objects st token = None \<Longrightarrow> relay_reachable sha (offer token nid n st) tr"
| rr_expect: "relay_reachable sha st tr \<Longrightarrow> tr_objects st token = None \<Longrightarrow> relay_reachable sha (expect token nid st) tr"
| rr_expire: "relay_reachable sha st tr \<Longrightarrow> relay_reachable sha (expire token st) tr"
| rr_cancel: "relay_reachable sha st tr \<Longrightarrow> relay_reachable sha (cancel_transfer token reason st) tr"
| rr_serve: "relay_reachable sha st tr \<Longrightarrow> serve sha token nid st = (st', Inr n) \<Longrightarrow>
    relay_reachable sha st' (tr @ [Served token nid])"
| rr_pull: "relay_reachable sha st tr \<Longrightarrow> relay_reachable sha (pull sha token r st) tr"
| rr_stop: "relay_reachable sha st tr \<Longrightarrow> relay_reachable sha (stop_reading token st) tr"
| rr_asked: "relay_reachable sha st tr \<Longrightarrow> digest_begin token nid st = Inr () \<Longrightarrow>
    relay_reachable sha st (tr @ [Asked token nid])"
| rr_told: "relay_reachable sha st tr \<Longrightarrow> Asked token nid \<in> set tr \<Longrightarrow> digest_end token st = (st', Some (Inr h)) \<Longrightarrow>
    relay_reachable sha st' (tr @ [Told token h])"
| rr_dropped: "relay_reachable sha st tr \<Longrightarrow> relay_reachable sha (drop_item token st) tr"
| rr_receive: "relay_reachable sha st tr \<Longrightarrow> receive token nid len st = (st', Inr u) \<Longrightarrow>
    relay_reachable sha st' (tr @ [Received token nid])"

definition out_ok :: "(8 word list \<Rightarrow> string) \<Rightarrow> outgoing \<Rightarrow> bool" where
  "out_ok sha t \<longleftrightarrow> (case og_stream t of
     Unserved \<Rightarrow> \<not> og_claimed t \<and> og_tally t = [] \<and> og_sent t = []
   | Streaming \<Rightarrow> og_claimed t \<and> og_tally t = og_sent t \<and> length (og_sent t) < og_size t
   | Closed_Stream \<Rightarrow> og_claimed t \<and> og_tally t = og_sent t \<and> length (og_sent t) = og_size t
   | Errored _ \<Rightarrow> og_claimed t \<and> length (og_sent t) \<le> og_size t)
   \<and> (\<forall>h. og_digest t = Fulfilled h \<longrightarrow> og_stream t = Closed_Stream \<and> h = sha (og_sent t))"

definition object_ok :: "(8 word list \<Rightarrow> string) \<Rightarrow> transfer \<Rightarrow> bool" where
  "object_ok sha x \<longleftrightarrow> (case x of Out t \<Rightarrow> out_ok sha t | In t \<Rightarrow> True)"

fun log_ok :: "transfers \<Rightarrow> relay_log \<Rightarrow> bool" where
  "log_ok st (Served token nid) = (\<exists>t. tr_objects st token = Some (Out t) \<and> og_claimed t \<and> og_node_id t = nid)"
| "log_ok st (Asked token nid) = (\<exists>t. tr_objects st token = Some (Out t) \<and> og_claimed t \<and> og_node_id t = nid)"
| "log_ok st (Told token h) = (\<exists>t. tr_objects st token = Some (Out t) \<and> og_digest t = Fulfilled h)"
| "log_ok st (Received token nid) = (\<exists>t. tr_objects st token = Some (In t) \<and> ic_claimed t \<and> ic_node_id t = nid)"

text \<open>How one operation may change an object: its identity stays, a claim and a settled promise stay.\<close>

definition grows :: "transfer \<Rightarrow> transfer \<Rightarrow> bool" where
  "grows x y \<longleftrightarrow> (case (x, y) of
     (Out t, Out u) \<Rightarrow> og_node_id u = og_node_id t \<and> og_size u = og_size t \<and> (og_claimed t \<longrightarrow> og_claimed u)
       \<and> (og_digest t \<noteq> Waiting \<longrightarrow> og_digest u = og_digest t)
   | (In t, In u) \<Rightarrow> ic_node_id u = ic_node_id t \<and> (ic_claimed t \<longrightarrow> ic_claimed u)
   | _ \<Rightarrow> False)"

definition evolves :: "(8 word list \<Rightarrow> string) \<Rightarrow> transfers \<Rightarrow> transfers \<Rightarrow> bool" where
  "evolves sha st st' \<longleftrightarrow> (\<forall>token x. tr_objects st token = Some x \<longrightarrow>
     (\<exists>y. tr_objects st' token = Some y \<and> grows x y))
   \<and> (\<forall>token y. tr_objects st' token = Some y \<longrightarrow> (\<forall>x. tr_objects st token = Some x \<longrightarrow> object_ok sha x) \<longrightarrow> object_ok sha y)"

lemma grows_refl [simp]: "grows x x"
  by (simp add: grows_def split: transfer.split)

lemma evolves_put:
  assumes "tr_objects st token = Some x" and "grows x y" and "object_ok sha x \<Longrightarrow> object_ok sha y"
    and "tr_objects st' = tr_objects st"
  shows "evolves sha st (put_object token y st')"
  using assms by (auto simp: evolves_def put_object_def)

lemma evolves_refl: "tr_objects st' = tr_objects st \<Longrightarrow> evolves sha st st'"
  by (auto simp: evolves_def)

lemma evolves_new: "tr_objects st token = None \<Longrightarrow> object_ok sha y \<Longrightarrow> evolves sha st (add_transfer token y st)"
  by (auto simp: evolves_def add_transfer_def put_object_def)

lemma drop_objects [simp]: "tr_objects (drop_item token st) = tr_objects st"
  by (simp add: drop_item_def)

lemma itemD: "item st token = Some x \<Longrightarrow> tr_objects st token = Some x"
  by (simp add: item_def split: if_splits)

lemma deferred_simps [simp]: "fulfil v d = Fulfilled h \<longleftrightarrow> d = Fulfilled h \<or> (d = Waiting \<and> v = h)"
  "fail_with e d = Fulfilled h \<longleftrightarrow> d = Fulfilled h" "d \<noteq> Waiting \<Longrightarrow> fulfil v d = d" "d \<noteq> Waiting \<Longrightarrow> fail_with e d = d"
  by (cases d; simp add: fulfil_def fail_with_def)+

lemma fail_stream_evolves:
  assumes "tr_objects st token = Some (Out t)" and "og_stream t = Streaming"
    and "og_node_id t1 = og_node_id t" "og_size t1 = og_size t" "og_claimed t1 = og_claimed t" "og_digest t1 = og_digest t" "og_sent t1 = og_sent t"
  shows "evolves sha st (fail_stream token m t1 st)"
  unfolding fail_stream_def
  by (rule evolves_put [OF assms(1)]) (use assms in \<open>auto simp: grows_def object_ok_def out_ok_def\<close>)

lemma pull_evolves: "evolves sha st (pull sha token r st)"
proof (cases "tr_objects st token")
  case (Some x)
  show ?thesis
  proof (cases x)
    case (Out t)
    show ?thesis
    proof (cases "og_stream t = Streaming")
      case True
      have fail: "evolves sha st (fail_stream token m t1 st)"
        if "t1 = t \<or> (\<exists>b. t1 = t\<lparr>og_tally := b\<rparr>)" for m t1
        using that Some Out True by (intro fail_stream_evolves [of st token t]) auto
      have chunk: "evolves sha st (put_object token (Out (if length (og_tally t @ b) = og_size t
            then finish sha (t\<lparr>og_tally := og_tally t @ b, og_sent := og_sent t @ b\<rparr>)
            else t\<lparr>og_tally := og_tally t @ b, og_sent := og_sent t @ b\<rparr>)) st)"
        if "\<not> length (og_tally t @ b) > og_size t" for b
        by (rule evolves_put [OF Some [unfolded Out]])
          (use that True in \<open>auto simp: grows_def object_ok_def out_ok_def finish_def\<close>)
      show ?thesis
        using Some Out True fail chunk
        by (auto simp: pull_def Let_def split: read_result.split)
    qed (use Some Out in \<open>simp add: pull_def evolves_refl\<close>)
  qed (use Some in \<open>simp add: pull_def evolves_refl\<close>)
qed (simp add: pull_def evolves_refl)

lemma serve_evolves:
  assumes "serve sha token nid st = (st', Inr n)"
  shows "evolves sha st st' \<and> (\<exists>t t'. item st token = Some (Out t) \<and> \<not> og_claimed t \<and> og_node_id t = nid
    \<and> tr_objects st' token = Some (Out t') \<and> og_claimed t' \<and> og_node_id t' = nid \<and> og_size t = n)"
proof -
  obtain t where t: "item st token = Some (Out t)" "og_node_id t = nid" "\<not> og_claimed t" "n = og_size t"
    "st' = put_object token (Out (if og_size t = 0 then finish sha (t\<lparr>og_claimed := True, og_stream := Streaming\<rparr>)
        else t\<lparr>og_claimed := True, og_stream := Streaming\<rparr>)) st"
    using assms by (auto simp: serve_def Let_def split: option.splits transfer.splits if_splits)
  have "evolves sha st st'"
    unfolding t(5) by (rule evolves_put [OF itemD [OF t(1)]])
      (use t(3) in \<open>auto simp: grows_def object_ok_def out_ok_def finish_def split: stream_state.splits\<close>)
  then show ?thesis using t by (auto simp: put_object_def finish_def)
qed

lemma stop_evolves: "evolves sha st (stop_reading token st)"
  by (auto simp: stop_reading_def evolves_refl intro!: fail_stream_evolves split: option.split transfer.split)

lemma settled_evolves:
  "tr_objects st token = Some (Out t) \<Longrightarrow> tr_objects st' = tr_objects st \<Longrightarrow>
    evolves sha st (put_object token (Out (t\<lparr>og_digest := fail_with m (og_digest t)\<rparr>)) st')"
  "tr_objects st token = Some (In u) \<Longrightarrow> tr_objects st' = tr_objects st \<Longrightarrow>
    evolves sha st (put_object token (In (u\<lparr>ic_arrival := fail_with m (ic_arrival u)\<rparr>)) st')"
  subgoal by (erule evolves_put) (auto simp: grows_def object_ok_def out_ok_def cong: stream_state.case_cong)
  subgoal by (erule evolves_put) (auto simp: grows_def object_ok_def)
  done

lemma expire_evolves: "evolves sha st (expire token st)"
  by (auto simp: expire_def evolves_refl dest!: itemD intro!: settled_evolves split: option.split transfer.split)

lemma cancel_evolves: "evolves sha st (cancel_transfer token reason st)"
  by (auto simp: cancel_transfer_def evolves_refl intro!: settled_evolves split: option.split transfer.split)

lemma receive_evolves:
  assumes "receive token nid len st = (st', Inr u)"
  shows "evolves sha st st' \<and> (\<exists>t t'. tr_objects st token = Some (In t) \<and> \<not> ic_claimed t
    \<and> tr_objects st' token = Some (In t') \<and> ic_claimed t' \<and> ic_node_id t' = nid)"
proof -
  obtain t where t: "item st token = Some (In t)" "ic_node_id t = nid" "\<not> ic_claimed t"
    "st' = put_object token (In (t\<lparr>ic_claimed := True, ic_arrival := fulfil len (ic_arrival t)\<rparr>)) (drop_item token st)"
    using assms by (auto simp: receive_def split: option.splits transfer.splits if_splits)
  have "evolves sha st st'"
    unfolding t(4) by (rule evolves_put [OF itemD [OF t(1)]]) (auto simp: grows_def object_ok_def)
  then show ?thesis using t itemD [OF t(1)] by (auto simp: put_object_def)
qed

lemma digest_endD: "digest_end token st = (st', Some (Inr h)) \<Longrightarrow>
    tr_objects st' = tr_objects st \<and> (\<exists>t. tr_objects st token = Some (Out t) \<and> og_digest t = Fulfilled h)"
  by (auto simp: digest_end_def split: option.splits transfer.splits deferred.splits)

lemma evolves_out:
  assumes "evolves sha st st'" and "tr_objects st token = Some (Out t)"
  shows "\<exists>u. tr_objects st' token = Some (Out u) \<and> og_node_id u = og_node_id t \<and> (og_claimed t \<longrightarrow> og_claimed u)
    \<and> (og_digest t \<noteq> Waiting \<longrightarrow> og_digest u = og_digest t)"
proof -
  obtain y where y: "tr_objects st' token = Some y" "grows (Out t) y" using assms unfolding evolves_def by blast
  then show ?thesis by (cases y) (simp_all add: grows_def)
qed

lemma evolves_in:
  assumes "evolves sha st st'" and "tr_objects st token = Some (In t)"
  shows "\<exists>u. tr_objects st' token = Some (In u) \<and> ic_node_id u = ic_node_id t \<and> (ic_claimed t \<longrightarrow> ic_claimed u)"
proof -
  obtain y where y: "tr_objects st' token = Some y" "grows (In t) y" using assms unfolding evolves_def by blast
  then show ?thesis by (cases y) (simp_all add: grows_def)
qed

lemma log_kept:
  assumes "evolves sha st st'" and "log_ok st e"
  shows "log_ok st' e"
proof (cases e)
  case (Served token nid)
  with assms(2) obtain t where "tr_objects st token = Some (Out t)" "og_claimed t" "og_node_id t = nid" by auto
  with evolves_out [OF assms(1) this(1)] Served show ?thesis by auto
next
  case (Asked token nid)
  with assms(2) obtain t where "tr_objects st token = Some (Out t)" "og_claimed t" "og_node_id t = nid" by auto
  with evolves_out [OF assms(1) this(1)] Asked show ?thesis by auto
next
  case (Told token h)
  with assms(2) obtain t where "tr_objects st token = Some (Out t)" "og_digest t = Fulfilled h" by auto
  with evolves_out [OF assms(1) this(1)] Told show ?thesis by auto
next
  case (Received token nid)
  with assms(2) obtain t where "tr_objects st token = Some (In t)" "ic_claimed t" "ic_node_id t = nid" by auto
  with evolves_in [OF assms(1) this(1)] Received show ?thesis by auto
qed

definition served_tokens :: "relay_log list \<Rightarrow> string list" where
  "served_tokens tr = List.map_filter (\<lambda>e. case e of Served token _ \<Rightarrow> Some token | Received token _ \<Rightarrow> Some token | _ \<Rightarrow> None) tr"

lemma served_append [simp]: "served_tokens (xs @ ys) = served_tokens xs @ served_tokens ys"
  by (simp add: served_tokens_def map_filter_def)

lemma served_simps [simp]: "served_tokens [] = []" "served_tokens [Served token nid] = [token]"
  "served_tokens [Received token nid] = [token]" "served_tokens [Told token h] = []" "served_tokens [Asked token nid] = []"
  by (simp_all add: served_tokens_def map_filter_def)

lemma served_in: "token \<in> set (served_tokens tr) \<longleftrightarrow> (\<exists>nid. Served token nid \<in> set tr \<or> Received token nid \<in> set tr)"
  by (induction tr) (auto simp: served_tokens_def map_filter_def split: relay_log.splits)

definition relay_ok :: "(8 word list \<Rightarrow> string) \<Rightarrow> transfers \<Rightarrow> relay_log list \<Rightarrow> bool" where
  "relay_ok sha st tr \<longleftrightarrow> (\<forall>token x. tr_objects st token = Some x \<longrightarrow> object_ok sha x)
     \<and> (\<forall>e\<in>set tr. log_ok st e) \<and> distinct (served_tokens tr)"

lemma relay_ok_evolves: "relay_ok sha st tr \<Longrightarrow> evolves sha st st' \<Longrightarrow> relay_ok sha st' tr"
  using log_kept unfolding relay_ok_def evolves_def by metis

lemma relay_ok_log: "relay_ok sha st tr \<Longrightarrow> log_ok st e \<Longrightarrow> (\<forall>token\<in>set (served_tokens [e]). token \<notin> set (served_tokens tr)) \<Longrightarrow>
    relay_ok sha st (tr @ [e])"
  by (cases e) (auto simp: relay_ok_def)

lemma unclaimed_unserved:
  assumes "relay_ok sha st tr"
    and "tr_objects st token = Some (Out t) \<and> \<not> og_claimed t \<or> tr_objects st token = Some (In u) \<and> \<not> ic_claimed u"
  shows "token \<notin> set (served_tokens tr)"
  using assms by (fastforce simp: served_in relay_ok_def)

lemma relay_reachable_ok: "relay_reachable sha st tr \<Longrightarrow> relay_ok sha st tr"
proof (induction rule: relay_reachable.induct)
  case rr_start
  then show ?case by (simp add: relay_ok_def)
next
  case (rr_offer st tr token nid n)
  then show ?case unfolding offer_def by (intro relay_ok_evolves [OF _ evolves_new]) (simp_all add: object_ok_def out_ok_def)
next
  case (rr_expect st tr token nid)
  then show ?case unfolding expect_def by (intro relay_ok_evolves [OF _ evolves_new]) (simp_all add: object_ok_def)
next
  case rr_expire
  then show ?case using expire_evolves relay_ok_evolves by blast
next
  case rr_cancel
  then show ?case using cancel_evolves relay_ok_evolves by blast
next
  case (rr_serve st tr token nid st' n)
  from serve_evolves [OF rr_serve(2)] obtain t t' where s: "evolves sha st st'" "item st token = Some (Out t)" "\<not> og_claimed t"
      "tr_objects st' token = Some (Out t')" "og_claimed t'" "og_node_id t' = nid" by blast
  have "token \<notin> set (served_tokens tr)"
    using unclaimed_unserved [OF rr_serve.IH] itemD [OF s(2)] s(3) by blast
  then show ?case using relay_ok_evolves [OF rr_serve.IH s(1)] s by (intro relay_ok_log) auto
next
  case rr_pull
  then show ?case using pull_evolves relay_ok_evolves by blast
next
  case rr_stop
  then show ?case using stop_evolves relay_ok_evolves by blast
next
  case (rr_asked st tr token nid)
  then show ?case
    by (intro relay_ok_log) (auto simp: digest_begin_def dest!: itemD split: option.splits transfer.splits if_splits)
next
  case (rr_told st tr token nid st' h)
  then show ?case using digest_endD [OF rr_told(3)] relay_ok_evolves [OF rr_told.IH evolves_refl]
    by (intro relay_ok_log) auto
next
  case (rr_dropped st tr token)
  then show ?case using relay_ok_evolves evolves_refl drop_objects by blast
next
  case (rr_receive st tr token nid len st' u)
  from receive_evolves [OF rr_receive(2)] obtain t t' where s: "evolves sha st st'" "tr_objects st token = Some (In t)" "\<not> ic_claimed t"
      "tr_objects st' token = Some (In t')" "ic_claimed t'" "ic_node_id t' = nid" by blast
  have "token \<notin> set (served_tokens tr)"
    using unclaimed_unserved [OF rr_receive.IH] s(2,3) by blast
  then show ?case using relay_ok_evolves [OF rr_receive.IH s(1)] s by (intro relay_ok_log) auto
qed

inductive ticket_reachable :: "tickets \<Rightarrow> (int \<times> string \<times> ticket) list \<Rightarrow> (int \<times> string \<times> nat \<times> ticket) list \<Rightarrow> bool" where
  tr_start: "ticket_reachable Map.empty [] []"
| tr_issue: "ticket_reachable ts issued claimed \<Longrightarrow> tid \<notin> (fst \<circ> snd) ` set issued \<Longrightarrow>
    ticket_reachable (issue_ticket now tid t ts) (issued @ [(now, tid, t)]) claimed"
| tr_claim: "ticket_reachable ts issued claimed \<Longrightarrow> claim_ticket now tid who ts = (ts', Some t) \<Longrightarrow>
    ticket_reachable ts' issued (claimed @ [(now, tid, who, t)])"

definition issued_as :: "(int \<times> string \<times> ticket) list \<Rightarrow> string \<Rightarrow> ticket \<Rightarrow> bool" where
  "issued_as issued tid t \<longleftrightarrow> (\<exists>t0 tk. (t0, tid, tk) \<in> set issued \<and> t = tk\<lparr>tk_expires_at := t0 + 60000\<rparr>)"

definition claim_ok :: "(int \<times> string \<times> ticket) list \<Rightarrow> int \<times> string \<times> nat \<times> ticket \<Rightarrow> bool" where
  "claim_ok issued c \<longleftrightarrow> (case c of (now, tid, who, t) \<Rightarrow>
     issued_as issued tid t \<and> who = tk_user_id t \<and> now \<le> tk_expires_at t)"

lemma issued_mono: "issued_as issued k v \<Longrightarrow> issued_as (issued @ later) k v"
  by (auto simp: issued_as_def)

lemma claim_mono: "claim_ok issued c \<Longrightarrow> claim_ok (issued @ later) c"
  using issued_mono by (auto simp: claim_ok_def split: prod.splits)

lemma ticket_invariant:
  assumes "ticket_reachable ts issued claimed"
  shows "(\<forall>tid t. ts tid = Some t \<longrightarrow> issued_as issued tid t \<and> tid \<notin> (fst \<circ> snd) ` set claimed)
    \<and> distinct (map (fst \<circ> snd) claimed) \<and> (fst \<circ> snd) ` set claimed \<subseteq> (fst \<circ> snd) ` set issued
    \<and> (\<forall>c\<in>set claimed. claim_ok issued c)"
  using assms
proof induction
  case tr_start
  then show ?case by simp
next
  case (tr_issue ts issued claimed tid now t)
  have fresh: "tid \<notin> (fst \<circ> snd) ` set claimed" using tr_issue.IH tr_issue.hyps(2) by blast
  have "issued_as (issued @ [(now, tid, t)]) k v \<and> k \<notin> (fst \<circ> snd) ` set claimed"
    if "issue_ticket now tid t ts k = Some v" for k v
  proof (cases "k = tid")
    case True
    with that fresh show ?thesis by (auto simp: issue_ticket_def issued_as_def ticket_ms_def)
  next
    case False
    with that have "ts k = Some v" by (auto simp: issue_ticket_def split: option.splits if_splits)
    with tr_issue.IH have "issued_as issued k v \<and> k \<notin> (fst \<circ> snd) ` set claimed" by blast
    then show ?thesis by (simp add: issued_mono)
  qed
  moreover have "\<forall>c\<in>set claimed. claim_ok (issued @ [(now, tid, t)]) c" using tr_issue.IH by (simp add: claim_mono)
  moreover have "(fst \<circ> snd) ` set claimed \<subseteq> (fst \<circ> snd) ` set (issued @ [(now, tid, t)])"
    using tr_issue.IH by auto
  ultimately show ?case using tr_issue.IH by blast
next
  case (tr_claim ts issued claimed now tid who ts' t)
  then have c: "ts tid = Some t" "\<not> tk_expires_at t < now" "tk_user_id t = who" "ts' = ts(tid := None)"
    by (auto simp: claim_ticket_def split: option.splits if_splits)
  have as: "issued_as issued tid t" and fresh: "tid \<notin> (fst \<circ> snd) ` set claimed" using tr_claim.IH c(1) by blast+
  have "tid \<in> (fst \<circ> snd) ` set issued" using as by (force simp: issued_as_def)
  moreover have "claim_ok issued (now, tid, who, t)" using as c by (simp add: claim_ok_def)
  moreover have "\<forall>k v. ts' k = Some v \<longrightarrow> issued_as issued k v \<and> k \<notin> (fst \<circ> snd) ` set (claimed @ [(now, tid, who, t)])"
    using tr_claim.IH by (auto simp: c(4))
  moreover have "distinct (map (fst \<circ> snd) (claimed @ [(now, tid, who, t)]))" using tr_claim.IH fresh by (simp add: comp_def)
  ultimately show ?case using tr_claim.IH by (simp add: comp_def)
qed

section \<open>Properties\<close>

text \<open>A download ticket works once: over any run every claim is by the user the ticket was issued to, no
  later than a minute after that, of exactly what was issued, and no ticket is claimed twice. The name
  it goes into the header with has no quote, backslash or control character.\<close>

theorem tickets_work_once:
  assumes "ticket_reachable ts issued claimed"
  shows "distinct (map (fst \<circ> snd) claimed)
    \<and> (\<forall>(now, tid, who, t)\<in>set claimed. \<exists>t0 tk. (t0, tid, tk) \<in> set issued
        \<and> t = tk\<lparr>tk_expires_at := t0 + 60000\<rparr> \<and> who = tk_user_id tk \<and> now \<le> t0 + 60000)
    \<and> (\<forall>c\<in>set (ascii_filename name). (32 :: nat) \<le> of_char c \<and> of_char c \<le> (126 :: nat) \<and> c \<noteq> CHR ''\"'' \<and> c \<noteq> CHR 92)
    \<and> length (ascii_filename name) = length name"
proof -
  have "(32 :: nat) \<le> of_char c \<and> of_char c \<le> (126 :: nat) \<and> c \<noteq> CHR ''\"'' \<and> c \<noteq> CHR 92" if "c \<in> set (ascii_filename name)" for c
    using that by (auto simp: ascii_filename_def split: if_splits)
  moreover have "\<exists>t0 tk. (t0, tid, tk) \<in> set issued \<and> t = tk\<lparr>tk_expires_at := t0 + 60000\<rparr> \<and> who = tk_user_id tk \<and> now \<le> t0 + 60000"
    if "(now, tid, who, t) \<in> set claimed" for now tid who t
  proof -
    have "claim_ok issued (now, tid, who, t)" using that ticket_invariant [OF assms] by blast
    then obtain t0 tk where "(t0, tid, tk) \<in> set issued" "t = tk\<lparr>tk_expires_at := t0 + 60000\<rparr>" "who = tk_user_id t" "now \<le> tk_expires_at t"
      unfolding claim_ok_def issued_as_def by auto
    then show ?thesis by (intro exI [of _ t0] exI [of _ tk]) simp
  qed
  ultimately show ?thesis using ticket_invariant [OF assms] by (auto simp: ascii_filename_def)
qed


lemma pull_chunks:
  assumes "tr_objects st token = Some (Out t)" and "og_stream t = Streaming" and "og_tally t = og_sent t"
    and "og_digest t = Waiting" and "og_claimed t" and "length (og_sent t @ concat cs) = og_size t" and "length (og_sent t) < og_size t"
  shows "\<exists>u. tr_objects (foldl (\<lambda>s b. pull sha token (Chunk b) s) st cs) token = Some (Out u)
    \<and> og_sent u = og_sent t @ concat cs \<and> og_digest u = Fulfilled (sha (og_sent t @ concat cs))
    \<and> og_stream u = Closed_Stream"
  using assms
proof (induction cs arbitrary: st t)
  case (Cons b cs)
  let ?t = "t\<lparr>og_tally := og_tally t @ b, og_sent := og_sent t @ b\<rparr>"
  show ?case
  proof (cases "length (og_sent t @ b) = og_size t")
    case True
    then have "length (concat cs) = 0" using Cons.prems(6) by (simp del: length_concat length_0_conv)
    then have "concat cs = []" by (rule length_0_conv [THEN iffD1])
    let ?st = "put_object token (Out (finish sha ?t)) st"
    have step: "pull sha token (Chunk b) st = ?st"
      using Cons.prems True by (simp add: pull_def Let_def)
    have "tr_objects (foldl (\<lambda>s b. pull sha token (Chunk b) s) ?st xs) token = Some (Out (finish sha ?t))" for xs
    proof (induction xs rule: rev_induct)
      case (snoc x xs)
      then show ?case by (simp add: pull_def finish_def)
    qed (simp add: put_object_def)
    then show ?thesis
      using \<open>concat cs = []\<close> Cons.prems(3,4)
      by (simp add: step del: concat_eq_Nil_conv) (simp add: finish_def fulfil_def del: concat_eq_Nil_conv)
  next
    case False
    with Cons.prems have "pull sha token (Chunk b) st = put_object token (Out ?t) st"
      by (simp add: pull_def Let_def)
    moreover have "\<exists>u. tr_objects (foldl (\<lambda>s b. pull sha token (Chunk b) s) (put_object token (Out ?t) st) cs) token = Some (Out u)
        \<and> og_sent u = og_sent ?t @ concat cs \<and> og_digest u = Fulfilled (sha (og_sent ?t @ concat cs)) \<and> og_stream u = Closed_Stream"
      by (rule Cons.IH) (use Cons.prems False in \<open>simp_all add: put_object_def\<close>)
    ultimately show ?thesis by simp
  qed
qed simp

text \<open>An upload that delivers what it announced arrives: when the node fetches a fresh offer of \<open>n\<close> bytes and
  the browser's chunks add up to \<open>n\<close> bytes, the node is handed exactly these bytes in order, and asking
  for the digest answers the hash of them, whatever the chunks' sizes and also when \<open>n\<close> is 0.\<close>

theorem uploads_arrive:
  assumes "length (concat cs) = n"
    and "serve sha token nid (offer token nid n st) = (st1, r)" and "st2 = foldl (\<lambda>s b. pull sha token (Chunk b) s) st1 cs"
  shows "r = Inr n \<and> (\<exists>t. tr_objects st2 token = Some (Out t) \<and> og_sent t = concat cs)
    \<and> snd (digest_end token st2) = Some (Inr (sha (concat cs)))
    \<and> item (fst (digest_end token st2)) token = None"
proof -
  let ?t = "\<lparr>og_node_id = nid, og_size = n, og_claimed = True, og_digest = Waiting, og_stream = Streaming, og_tally = [], og_sent = []\<rparr>"
  have st1: "r = Inr n" "tr_objects st1 token = Some (Out (if n = 0 then finish sha ?t else ?t))"
    using assms(2) by (auto simp: serve_def offer_def add_transfer_def put_object_def item_def Let_def)
  have "\<exists>u. tr_objects st2 token = Some (Out u) \<and> og_sent u = concat cs \<and> og_digest u = Fulfilled (sha (concat cs))"
  proof (cases "n = 0")
    case True
    have "tr_objects (foldl (\<lambda>s b. pull sha token (Chunk b) s) st1 xs) token = Some (Out (finish sha ?t))" for xs
      using st1(2) True by (induction xs rule: rev_induct) (simp_all add: pull_def finish_def)
    moreover have "concat cs = []" using assms(1) True by (metis length_0_conv)
    ultimately show ?thesis using assms(3) by (simp add: finish_def fulfil_def del: concat_eq_Nil_conv)
  next
    case False
    with pull_chunks [of st1 token ?t cs sha] st1(2) assms(1,3) show ?thesis by auto
  qed
  then show ?thesis using st1(1) by (auto simp: digest_end_def drop_item_def item_def)
qed

definition sample_ticket :: ticket where
  "sample_ticket = \<lparr>tk_user_id = 5, tk_instance_id = 1, tk_node_id = 1, tk_filename = ''a'', tk_size = Some 3,
     tk_archive = False, tk_kind = Files_Ticket ''u1'' [''a''], tk_expires_at = 0\<rparr>"

lemma tickets_work_once_witness:
  "claim_ticket 60 ''k'' 5 (fst (claim_ticket 50 ''k'' 5 (issue_ticket 0 ''k'' sample_ticket Map.empty)))
    = (fst (claim_ticket 50 ''k'' 5 (issue_ticket 0 ''k'' sample_ticket Map.empty)), None) \<and> 50 \<le> (0 :: int) + 60000"
proof -
  let ?ts = "fst (claim_ticket 50 ''k'' 5 (issue_ticket 0 ''k'' sample_ticket Map.empty))"
  have issued: "ticket_reachable (issue_ticket 0 ''k'' sample_ticket Map.empty) ([] @ [(0, ''k'', sample_ticket)]) []"
    by (rule tr_issue [OF tr_start]) simp
  have "claim_ticket 50 ''k'' 5 (issue_ticket 0 ''k'' sample_ticket Map.empty)
      = (?ts, Some (sample_ticket\<lparr>tk_expires_at := 60000\<rparr>))"
    by (simp add: claim_ticket_def issue_ticket_def sample_ticket_def ticket_ms_def)
  note run = tr_claim [OF issued this]
  have "\<not> (\<exists>t. claim_ticket 60 ''k'' 5 ?ts = (fst (claim_ticket 60 ''k'' 5 ?ts), Some t))"
  proof
    assume "\<exists>t. claim_ticket 60 ''k'' 5 ?ts = (fst (claim_ticket 60 ''k'' 5 ?ts), Some t)"
    then obtain t where "claim_ticket 60 ''k'' 5 ?ts = (fst (claim_ticket 60 ''k'' 5 ?ts), Some t)" ..
    from tickets_work_once [OF tr_claim [OF run this]] show False by simp
  qed
  then have "snd (claim_ticket 60 ''k'' 5 ?ts) = None" by (metis option.exhaust prod.collapse)
  then show ?thesis by (auto simp: claim_ticket_def split: option.splits if_splits)
qed

definition no_transfers :: transfers where
  "no_transfers = \<lparr>tr_objects = Map.empty, tr_items = {}\<rparr>"

definition plain_hash :: "8 word list \<Rightarrow> string" where
  "plain_hash bs = map (\<lambda>b. char_of (unat b)) bs"


lemma uploads_arrive_witness:
  "snd (digest_end ''k'' (foldl (\<lambda>s b. pull plain_hash ''k'' (Chunk b) s)
      (fst (serve plain_hash ''k'' 1 (offer ''k'' 1 3 no_transfers))) [[1, 2], [], [3]])) = Some (Inr (plain_hash [1, 2, 3]))"
  using uploads_arrive [of "[[1, 2], [], [3]]" 3 plain_hash "''k''" 1 no_transfers _ _ _, OF _ prod.collapse [symmetric] refl]
  by simp

end
