(* ===== verification/Player_Parse.thy ===== *)
theory Player_Parse
  imports Variables
begin

text \<open>
  What console lines say about players and the commands typed for them
  (server/src/modules/players/parse.ts, with the players section of shared/src/api/templates.ts).
  A regular expression is what its \<open>exec\<close> gives: nothing, or the named groups of the match. The
  engine is a parameter, \<open>compile\<close>, which gives nothing for a pattern that does not compile.
\<close>

type_synonym groups = "string \<Rightarrow> string option"
type_synonym regex = "string \<Rightarrow> groups option"

section \<open>The players section of a template\<close>

text \<open>Labels, icons and what else only the web interface reads are left out, and so are the list files.\<close>

record player_list_command =
  plc_command :: string
  plc_pattern :: string
  plc_separator :: string
  plc_entry :: "string option"
  plc_line :: "string option"

record player_field =
  pf_name :: string
  pf_type :: player_field_type
  pf_required :: bool
  pf_default :: string
  pf_options :: "select_option list"
  pf_min :: "rat option"
  pf_max :: "rat option"

record player_action =
  pa_id :: string
  pa_command :: string
  pa_fields :: "player_field list"

record template_players =
  tpl_name_pattern :: string
  tpl_join :: "string option"
  tpl_leave :: "string option"
  tpl_identify :: "string option"
  tpl_refresh :: "string option"
  tpl_list :: "player_list_command option"
  tpl_actions :: "player_action list"

text \<open>The names \<open>matchAll\<close> finds in a command.\<close>

function placeholder_names :: "string \<Rightarrow> string list" where
  "placeholder_names [] = []"
| "placeholder_names (c # s) = (case match_placeholder (c # s) of
     None \<Rightarrow> placeholder_names s
   | Some (name, rest) \<Rightarrow> name # placeholder_names rest)"
  by pat_completeness auto
termination
  by (relation "measure length") (auto dest: match_placeholder_shorter)

declare placeholder_names.simps(2) [simp del]

text \<open>What \<open>superRefine\<close> asks of one action.\<close>

definition action_refined :: "player_action \<Rightarrow> bool" where
  "action_refined a \<longleftrightarrow>
     (\<forall>f\<in>set (pa_fields a). pf_name f \<noteq> ''PLAYER'' \<and> pf_name f \<noteq> ''PLAYER_ID'')
     \<and> set (placeholder_names (pa_command a)) \<subseteq> {''PLAYER'', ''PLAYER_ID''} \<union> pf_name ` set (pa_fields a)"

section \<open>Escape sequences\<close>

text \<open>One match of \<open>\x1b\[[0-9;?]*[ -/]*[@-~]\<close> at the start: what follows it. The classes share no
  character, so the greedy ones never backtrack.\<close>

definition ansi_match :: "string \<Rightarrow> string option" where
  "ansi_match s =
     (if \<not> prefix [CHR 0x1B, CHR 0x5B] s then None
      else case dropWhile (\<lambda>c. 32 \<le> (of_char c :: nat) \<and> of_char c \<le> (47 :: nat))
             (dropWhile (\<lambda>c. is_digit c \<or> c = CHR '';'' \<or> c = CHR ''?'') (drop 2 s)) of
        [] \<Rightarrow> None
      | c # rest \<Rightarrow> if 64 \<le> (of_char c :: nat) \<and> of_char c \<le> (126 :: nat) then Some rest else None)"

lemma ansi_match_shorter: "ansi_match s = Some rest \<Longrightarrow> length rest < length s"
proof -
  let ?D = "\<lambda>t. dropWhile (\<lambda>c. 32 \<le> (of_char c :: nat) \<and> of_char c \<le> (47 :: nat))
      (dropWhile (\<lambda>c. is_digit c \<or> c = CHR '';'' \<or> c = CHR ''?'') t)"
  assume "ansi_match s = Some rest"
  then obtain c where d: "?D (drop 2 s) = c # rest"
    by (auto simp: ansi_match_def split: if_splits list.splits)
  have "length (?D (drop 2 s)) \<le> length (drop 2 s)"
    by (rule order_trans [OF length_dropWhile_le length_dropWhile_le])
  then show ?thesis using d by simp
qed

function strip_ansi :: "string \<Rightarrow> string" where
  "strip_ansi [] = []"
| "strip_ansi (c # s) = (case ansi_match (c # s) of None \<Rightarrow> c # strip_ansi s | Some rest \<Rightarrow> strip_ansi rest)"
  by pat_completeness auto
termination
  by (relation "measure length") (auto dest: ansi_match_shorter)

section \<open>Matching console lines\<close>

record seen_player =
  sp_name :: string
  sp_id :: "string option"

datatype player_event =
    Join_Event string "string option"
  | Leave_Event string
  | Identify_Event string string
  | List_Event "seen_player list"
  | Refresh_Event

record pending_list =
  pd_at :: int
  pd_players :: "seen_player list"

record matcher =
  mt_join :: "regex option"
  mt_leave :: "regex option"
  mt_identify :: "regex option"
  mt_refresh :: "regex option"
  mt_answer :: "regex option"
  mt_entry :: "regex option"
  mt_line :: "regex option"
  mt_separator :: string
  mt_name :: regex

definition valid_name :: "regex \<Rightarrow> string option \<Rightarrow> bool" where
  "valid_name re name \<longleftrightarrow> (case truthy name of None \<Rightarrow> False | Some s \<Rightarrow> re s \<noteq> None)"

text \<open>\<open>s ? new RegExp(s) : null\<close>; the outer option is the exception.\<close>

definition compile_optional :: "(string \<Rightarrow> regex option) \<Rightarrow> string option \<Rightarrow> regex option option" where
  "compile_optional compile p = (case truthy p of None \<Rightarrow> Some None | Some s \<Rightarrow> map_option Some (compile s))"

definition list_of :: "(player_list_command \<Rightarrow> 'a option) \<Rightarrow> template_players \<Rightarrow> 'a option" where
  "list_of f p = Option.bind (tpl_list p) f"

definition compile_matcher :: "(string \<Rightarrow> regex option) \<Rightarrow> template_players \<Rightarrow> matcher option" where
  "compile_matcher compile p =
     (case (compile_optional compile (tpl_join p), compile_optional compile (tpl_leave p),
            compile_optional compile (tpl_identify p), compile_optional compile (tpl_refresh p)) of
        (Some join', Some leave, Some identify, Some refresh) \<Rightarrow>
          (case (case tpl_list p of None \<Rightarrow> Some None | Some l \<Rightarrow> map_option Some (compile (plc_pattern l)),
                 compile_optional compile (list_of plc_entry p), compile_optional compile (list_of plc_line p),
                 compile (tpl_name_pattern p)) of
             (Some answer, Some entry, Some line, Some name) \<Rightarrow>
               Some \<lparr>mt_join = join', mt_leave = leave, mt_identify = identify, mt_refresh = refresh,
                 mt_answer = answer, mt_entry = entry, mt_line = line,
                 mt_separator = (case tpl_list p of None \<Rightarrow> '','' | Some l \<Rightarrow> plc_separator l), mt_name = name\<rparr>
           | _ \<Rightarrow> None)
      | _ \<Rightarrow> None)"

definition run_regex :: "regex option \<Rightarrow> string \<Rightarrow> groups option" where
  "run_regex r line = Option.bind r (\<lambda>re. re line)"

text \<open>\<open>s.split(sep)\<close>: for the empty separator one part per character.\<close>

fun split_by :: "string \<Rightarrow> nat \<Rightarrow> string \<Rightarrow> string \<Rightarrow> string list" where
  "split_by sep skip part [] = [rev part]"
| "split_by sep (Suc skip) part (c # s) = split_by sep skip part s"
| "split_by sep 0 part (c # s) =
     (if prefix sep (c # s) then rev part # split_by sep (length sep - 1) [] s
      else split_by sep 0 (c # part) s)"

definition js_split :: "string \<Rightarrow> string \<Rightarrow> string list" where
  "js_split sep s = (if sep = [] then map (\<lambda>c. [c]) s else split_by sep 0 [] s)"

text \<open>One part of a list answer: the player it names, unless the part is dropped.\<close>

definition parse_entry :: "regex option \<Rightarrow> regex \<Rightarrow> string \<Rightarrow> seen_player option" where
  "parse_entry entry name part =
     (let text = js_trim part in
      if text = [] then None
      else case entry of
        None \<Rightarrow> if valid_name name (Some text) then Some \<lparr>sp_name = text, sp_id = None\<rparr> else None
      | Some re \<Rightarrow> (case re text of
          None \<Rightarrow> None
        | Some g \<Rightarrow> (case g ''name'' of
            None \<Rightarrow> None
          | Some n \<Rightarrow> if valid_name name (Some n) then Some \<lparr>sp_name = n, sp_id = truthy (g ''id'')\<rparr> else None)))"

definition same_name :: "string \<Rightarrow> string \<Rightarrow> bool" where
  "same_name a b \<longleftrightarrow> js_lower a = js_lower b"

definition is_listed :: "seen_player list \<Rightarrow> string \<Rightarrow> bool" where
  "is_listed players name \<longleftrightarrow> list_ex (\<lambda>x. same_name (sp_name x) name) players"

definition add_seen :: "seen_player list \<Rightarrow> seen_player option \<Rightarrow> seen_player list" where
  "add_seen out p = (case p of None \<Rightarrow> out | Some p \<Rightarrow> if is_listed out (sp_name p) then out else out @ [p])"

definition parse_list_answer :: "string \<Rightarrow> string \<Rightarrow> regex option \<Rightarrow> regex \<Rightarrow> seen_player list" where
  "parse_list_answer names sep entry name = foldl (\<lambda>out part. add_seen out (parse_entry entry name part)) [] (js_split sep names)"

text \<open>The three one-player events, in the order the lines are tried.\<close>

definition single_event :: "matcher \<Rightarrow> string \<Rightarrow> player_event option" where
  "single_event m line =
     (let named = (\<lambda>r. case run_regex r line of
            None \<Rightarrow> None
          | Some g \<Rightarrow> if valid_name (mt_name m) (g ''name'') then Some (the (g ''name''), truthy (g ''id'')) else None) in
      case named (mt_join m) of
        Some (n, i) \<Rightarrow> Some (Join_Event n i)
      | None \<Rightarrow> (case named (mt_leave m) of
          Some (n, _) \<Rightarrow> Some (Leave_Event n)
        | None \<Rightarrow> (case named (mt_identify m) of
            Some (n, Some i) \<Rightarrow> Some (Identify_Event n i)
          | _ \<Rightarrow> None)))"

definition list_line_gap_ms :: int where "list_line_gap_ms = 15000"

definition list_max_entries :: nat where "list_max_entries = 1000"

text \<open>A line of a multi-line answer.\<close>

definition add_list_line :: "matcher \<Rightarrow> int \<Rightarrow> groups \<Rightarrow> pending_list option \<Rightarrow> pending_list" where
  "add_list_line m now g pending =
     (let fresh = \<lparr>pd_at = now, pd_players = []\<rparr>;
          p = (case pending of None \<Rightarrow> fresh | Some p \<Rightarrow> if now - pd_at p > list_line_gap_ms then fresh else p);
          p = p\<lparr>pd_at := now\<rparr> in
      case g ''name'' of
        None \<Rightarrow> p
      | Some n \<Rightarrow>
          if valid_name (mt_name m) (Some n) \<and> length (pd_players p) < list_max_entries \<and> \<not> is_listed (pd_players p) n
          then p\<lparr>pd_players := pd_players p @ [\<lparr>sp_name = n, sp_id = truthy (g ''id'')\<rparr>]\<rparr> else p)"

text \<open>The line that ends a multi-line answer.\<close>

definition list_end :: "int \<Rightarrow> groups \<Rightarrow> pending_list option \<Rightarrow> player_event option" where
  "list_end now g pending =
     (let fresh = (case pending of None \<Rightarrow> [] | Some p \<Rightarrow> if now - pd_at p \<le> list_line_gap_ms then pd_players p else []) in
      if (case g ''count'' of None \<Rightarrow> False | Some n \<Rightarrow> js_number_of n \<noteq> Finite (of_nat (length fresh)))
      then None else Some (List_Event fresh))"

definition match_line :: "matcher \<Rightarrow> int \<Rightarrow> string \<Rightarrow> pending_list option \<Rightarrow> pending_list option \<times> player_event option" where
  "match_line m now raw pending =
     (let line = strip_ansi raw;
          refresh = (if run_regex (mt_refresh m) line = None then None else Some Refresh_Event) in
      case single_event m line of
        Some e \<Rightarrow> (pending, Some e)
      | None \<Rightarrow> (case run_regex (mt_line m) line of
          Some g \<Rightarrow> (Some (add_list_line m now g pending), None)
        | None \<Rightarrow> (case run_regex (mt_answer m) line of
            None \<Rightarrow> (pending, refresh)
          | Some g \<Rightarrow>
              if mt_line m \<noteq> None then (None, list_end now g pending)
              else (case g ''names'' of
                None \<Rightarrow> (pending, refresh)
              | Some names \<Rightarrow> (pending, Some (List_Event (parse_list_answer names (mt_separator m) (mt_entry m) (mt_name m))))))))"

text \<open>What an answer may hold: valid names, none twice.\<close>

definition players_listed :: "regex \<Rightarrow> seen_player list \<Rightarrow> bool" where
  "players_listed name ps \<longleftrightarrow>
     distinct (map (js_lower \<circ> sp_name) ps) \<and> list_all (\<lambda>p. valid_name name (Some (sp_name p))) ps"

fun event_valid :: "regex \<Rightarrow> player_event \<Rightarrow> bool" where
  "event_valid name (Join_Event n i) = valid_name name (Some n)"
| "event_valid name (Leave_Event n) = valid_name name (Some n)"
| "event_valid name (Identify_Event n i) = valid_name name (Some n)"
| "event_valid name (List_Event ps) = players_listed name ps"
| "event_valid name Refresh_Event = True"

definition pending_valid :: "regex \<Rightarrow> pending_list option \<Rightarrow> bool" where
  "pending_valid name pending \<longleftrightarrow>
     (case pending of None \<Rightarrow> True | Some p \<Rightarrow> players_listed name (pd_players p) \<and> length (pd_players p) \<le> list_max_entries)"

lemma is_listed_iff: "is_listed ps n \<longleftrightarrow> js_lower n \<in> set (map (js_lower \<circ> sp_name) ps)"
  by (induction ps) (auto simp: is_listed_def same_name_def)

lemma players_listed_snoc [simp]: "players_listed name (ps @ [p]) \<longleftrightarrow>
    players_listed name ps \<and> \<not> is_listed ps (sp_name p) \<and> valid_name name (Some (sp_name p))"
  by (auto simp: players_listed_def is_listed_iff)

lemma players_listed_Nil [simp]: "players_listed name []"
  by (simp add: players_listed_def)

lemma parse_entry_valid: "parse_entry entry name part = Some p \<Longrightarrow> valid_name name (Some (sp_name p))"
  by (auto simp: parse_entry_def Let_def split: if_splits option.splits)

lemma parse_list_answer_listed: "players_listed name (parse_list_answer names sep entry name)"
proof -
  have "players_listed name out \<Longrightarrow>
      players_listed name (foldl (\<lambda>out part. add_seen out (parse_entry entry name part)) out parts)" for out parts
    by (induction parts arbitrary: out) (auto simp: add_seen_def dest: parse_entry_valid split: option.splits)
  then show ?thesis by (simp add: parse_list_answer_def)
qed

lemma valid_name_the: "valid_name name n \<Longrightarrow> n = Some (the n)"
  by (cases n) (simp_all add: valid_name_def)

lemma single_event_valid: "single_event m line = Some e \<Longrightarrow> event_valid (mt_name m) e"
  using valid_name_the [of "mt_name m"]
  by (auto simp: single_event_def Let_def split: option.splits if_splits prod.splits)

lemma match_line_valid:
  assumes "pending_valid (mt_name m) pending"
  shows "pending_valid (mt_name m) (fst (match_line m now raw pending))"
    and "snd (match_line m now raw pending) = Some e \<Longrightarrow> event_valid (mt_name m) e"
proof -
  have add: "pending_valid (mt_name m) (Some (add_list_line m now g pending))" for g
    using assms by (auto simp: add_list_line_def pending_valid_def Let_def split: option.splits if_splits)
  have end': "list_end now g pending = Some e' \<Longrightarrow> event_valid (mt_name m) e'" for g e'
    using assms by (auto simp: list_end_def pending_valid_def Let_def split: option.splits if_splits)
  show "pending_valid (mt_name m) (fst (match_line m now raw pending))"
    using assms add by (simp add: match_line_def Let_def pending_valid_def [of _ None] split: option.splits)
  show "event_valid (mt_name m) e" if "snd (match_line m now raw pending) = Some e"
    using that single_event_valid end' parse_list_answer_listed
    by (auto simp: match_line_def Let_def split: option.splits if_splits)
qed

section \<open>Commands for a player\<close>

definition is_control :: "char \<Rightarrow> bool" where
  "is_control c \<longleftrightarrow> (of_char c :: nat) < 32 \<or> of_char c = (127 :: nat)"

definition field_max_length :: nat where "field_max_length = 200"

text \<open>\<open>checkField\<close>: the problem with a trimmed value. \<open>valid\<close> is the validator of names.\<close>

definition check_field :: "(string \<Rightarrow> bool) \<Rightarrow> player_field \<Rightarrow> string \<Rightarrow> detail option" where
  "check_field valid f text =
     (if text = [] then (if pf_required f then Some (Msg ''Required'') else None)
      else if list_ex is_control text then Some (Msg ''Must be a single line of text'')
      else if length text > field_max_length then Some (Msg ''At most 200 characters'')
      else case pf_type f of
        Field_Number \<Rightarrow> (case js_number_of text of
            Finite n \<Rightarrow>
              (case pf_min f of
                 Some lo \<Rightarrow> if n < lo then Some (At_Least lo)
                            else (case pf_max f of Some hi \<Rightarrow> if n > hi then Some (At_Most hi) else None | None \<Rightarrow> None)
               | None \<Rightarrow> (case pf_max f of Some hi \<Rightarrow> if n > hi then Some (At_Most hi) else None | None \<Rightarrow> None))
          | _ \<Rightarrow> Some (Msg ''Must be a number''))
      | Field_Select \<Rightarrow> if list_ex (\<lambda>o'. so_value o' = text) (pf_options f) then None else Some (Msg ''Not one of the options'')
      | Field_Player \<Rightarrow> if valid text then None else Some (Msg ''Not a valid player name'')
      | Field_Text \<Rightarrow> None)"

text \<open>One match, at the start, of an optional space and a placeholder, in double quotes or bare: the
  space, whether it is quoted, the name and what follows.\<close>

definition match_slot :: "string \<Rightarrow> (string \<times> bool \<times> string \<times> string) option" where
  "match_slot s =
     (let space = (if prefix '' '' s then '' '' else []); t = drop (length space) s in
      if prefix [CHR 0x22] t then
        (case match_placeholder (tl t) of
           Some (name, c # rest) \<Rightarrow> if c = CHR 0x22 then Some (space, True, name, rest) else None
         | _ \<Rightarrow> None)
      else map_option (\<lambda>(name, rest). (space, False, name, rest)) (match_placeholder t))"

lemma match_slot_shorter: "match_slot s = Some (space, q, name, rest) \<Longrightarrow> length rest < length s"
  by (auto simp: match_slot_def Let_def prefix_def split: if_splits option.splits prod.splits list.splits
      dest!: match_placeholder_shorter)

definition single_quotes :: "string \<Rightarrow> string" where
  "single_quotes = map (\<lambda>c. if c = CHR 0x22 then CHR 0x27 else c)"

text \<open>What a match is replaced with; \<open>whole\<close> is the text it matched.\<close>

definition slot_text :: "(string \<rightharpoonup> string) \<Rightarrow> string \<Rightarrow> string \<Rightarrow> bool \<Rightarrow> string \<Rightarrow> string" where
  "slot_text values whole space quoted name = (case values name of
     None \<Rightarrow> whole
   | Some v \<Rightarrow> if v = [] then []
       else if quoted then space @ [CHR 0x22] @ single_quotes v @ [CHR 0x22] else space @ v)"

function fill_command :: "(string \<rightharpoonup> string) \<Rightarrow> string \<Rightarrow> string" where
  "fill_command values [] = []"
| "fill_command values (c # s) = (case match_slot (c # s) of
     None \<Rightarrow> c # fill_command values s
   | Some (space, quoted, name, rest) \<Rightarrow>
       slot_text values (take (length (c # s) - length rest) (c # s)) space quoted name @ fill_command values rest)"
  by pat_completeness auto
termination
  by (relation "measure (\<lambda>(_, s). length s)") (auto dest: match_slot_shorter)

declare fill_command.simps(2) [simp del]

definition field_value :: "(string \<times> string) list \<Rightarrow> player_field \<Rightarrow> string" where
  "field_value input f = js_trim (case map_of input (pf_name f) of None \<Rightarrow> pf_default f | Some v \<Rightarrow> v)"

definition action_values :: "player_action \<Rightarrow> seen_player \<Rightarrow> (string \<times> string) list \<Rightarrow> string \<rightharpoonup> string" where
  "action_values a p input = foldl (\<lambda>m f. m(pf_name f \<mapsto> field_value input f))
     [''PLAYER'' \<mapsto> sp_name p, ''PLAYER_ID'' \<mapsto> (case sp_id p of None \<Rightarrow> sp_name p | Some i \<Rightarrow> i)] (pa_fields a)"

definition action_problems :: "(string \<Rightarrow> bool) \<Rightarrow> player_action \<Rightarrow> seen_player \<Rightarrow> (string \<times> string) list \<Rightarrow> (string \<times> detail) list" where
  "action_problems valid a p input =
     (let named = (if valid (sp_name p) then [] else [(''PLAYER'', Msg ''Not a valid player name'')]);
          unknown = foldl (\<lambda>ps k. if k \<in> set (map pf_name (pa_fields a)) then ps else AList.update k (Msg ''Unknown field'') ps)
            named (map fst input) in
      foldl (\<lambda>ps f. case check_field valid f (field_value input f) of None \<Rightarrow> ps | Some d \<Rightarrow> AList.update (pf_name f) d ps)
        unknown (pa_fields a))"

definition build_action_command ::
    "(string \<Rightarrow> bool) \<Rightarrow> player_action \<Rightarrow> seen_player \<Rightarrow> (string \<times> string) list \<Rightarrow> (string \<times> detail) list + string" where
  "build_action_command valid a p input =
     (let problems = action_problems valid a p input in
      if problems \<noteq> [] then Inl problems
      else Inr (js_trim (fill_command (action_values a p input) (pa_command a))))"

section \<open>What is typed\<close>

lemma update_not_Nil [simp]: "AList.update k v ps \<noteq> []"
  by (cases ps) auto

lemma collected_empty:
  "foldl (\<lambda>ps x. case h x of None \<Rightarrow> ps | Some d \<Rightarrow> AList.update (g x) d ps) ps xs = [] \<longleftrightarrow> ps = [] \<and> (\<forall>x\<in>set xs. h x = None)"
  by (induction xs arbitrary: ps) (auto split: option.split)

lemma unknown_empty:
  "foldl (\<lambda>ps k. if k \<in> known then ps else AList.update k d ps) ps ks = [] \<longleftrightarrow> ps = [] \<and> set ks \<subseteq> known"
  by (induction ks arbitrary: ps) auto

lemma no_slot_problems: "action_problems valid a p input = [] \<longleftrightarrow>
    valid (sp_name p) \<and> set (map fst input) \<subseteq> pf_name ` set (pa_fields a)
    \<and> (\<forall>f\<in>set (pa_fields a). check_field valid f (field_value input f) = None)"
  by (simp add: action_problems_def Let_def collected_empty unknown_empty)

lemma check_field_line: "check_field valid f text = None \<Longrightarrow> \<not> list_ex is_control text \<and> length text \<le> field_max_length"
  by (auto simp: check_field_def split: if_splits)

lemma placeholder_names_match: "match_placeholder s = Some (name, rest) \<Longrightarrow> placeholder_names s = name # placeholder_names rest"
  by (cases s) (simp_all add: placeholder_names.simps match_placeholder_def [of "[]"])

lemma placeholder_names_skip [simp]: "c \<noteq> CHR 0x7B \<Longrightarrow> placeholder_names (c # s) = placeholder_names s"
  by (simp add: placeholder_names.simps match_placeholder_def)

lemma match_slot_names: "match_slot s = Some (space, q, name, rest) \<Longrightarrow> placeholder_names s = name # placeholder_names rest"
  by (auto simp: match_slot_def Let_def prefix_def placeholder_names_match
      split: if_splits option.splits prod.splits list.splits)

lemma match_slot_space: "match_slot s = Some (space, q, name, rest) \<Longrightarrow> set space \<subseteq> set s"
  by (auto simp: match_slot_def Let_def prefix_def split: if_splits option.splits prod.splits list.splits)

lemma match_placeholder_suffix: "match_placeholder s = Some (name, rest) \<Longrightarrow> set rest \<subseteq> set s"
  by (auto simp: match_placeholder_def Let_def split: if_splits dest!: in_set_dropD set_dropWhileD)

lemma match_slot_rest: "match_slot s = Some (space, q, name, rest) \<Longrightarrow> set rest \<subseteq> set s"
  by (auto simp: match_slot_def Let_def prefix_def split: if_splits option.splits prod.splits list.splits
      dest!: match_placeholder_suffix)

text \<open>A property of the characters of the template, of the quotes and of every value is one of the result.\<close>

lemma fill_command_chars:
  assumes "\<forall>c\<in>set s. P c" and "\<And>k v c. values k = Some v \<Longrightarrow> c \<in> set v \<Longrightarrow> P c" and "P (CHR 0x22)" and "P (CHR 0x27)"
  shows "\<forall>c\<in>set (fill_command values s). P c"
  using assms(1)
proof (induction s rule: length_induct)
  case (1 s)
  show ?case
  proof (cases s)
    case (Cons c t)
    show ?thesis
    proof (cases "match_slot (c # t)")
      case None
      with 1(1) [rule_format, of t] 1(2) Cons show ?thesis by (simp add: fill_command.simps)
    next
      case (Some m)
      obtain space q name rest where m: "m = (space, q, name, rest)" by (cases m)
      note m = Some [unfolded m]
      have "\<forall>c\<in>set rest. P c" using match_slot_rest [OF m] 1(2) Cons by blast
      with 1(1) match_slot_shorter [OF m] Cons have rest: "\<forall>c\<in>set (fill_command values rest). P c" by simp
      have "\<forall>c\<in>set space. P c" using match_slot_space [OF m] 1(2) Cons by blast
      moreover have "\<forall>x\<in>set (take n (c # t)). P x" for n using 1(2) Cons in_set_takeD [of _ n "c # t"] by blast
      ultimately have "\<forall>x\<in>set (slot_text values (take (length (c # t) - length rest) (c # t)) space q name). P x"
        using assms(2-4) by (auto simp: slot_text_def single_quotes_def split: option.splits)
      with rest m Cons show ?thesis by (auto simp: fill_command.simps(2))
    qed
  qed simp
qed

lemma fill_command_known:
  assumes "set (placeholder_names s) \<subseteq> dom values"
  shows "fill_command (m ++ values) s = fill_command values s"
  using assms
proof (induction s rule: length_induct)
  case (1 s)
  show ?case
  proof (cases s)
    case (Cons c t)
    show ?thesis
    proof (cases "match_slot (c # t)")
      case None
      have "set (placeholder_names t) \<subseteq> set (placeholder_names (c # t))"
      proof (cases "match_placeholder (c # t)")
        case (Some r)
        with None show ?thesis
          by (auto simp: match_slot_def Let_def prefix_def match_placeholder_def split: if_splits option.splits)
      qed (simp add: placeholder_names.simps)
      with 1(1) [rule_format, of t] 1(2) Cons None show ?thesis by (auto simp: fill_command.simps)
    next
      case (Some r)
      obtain space q name rest where r: "r = (space, q, name, rest)" by (cases r)
      note slot = Some [unfolded r]
      from match_slot_names [OF slot] 1(2) Cons
      have "name \<in> dom values" "set (placeholder_names rest) \<subseteq> dom values" by auto
      with 1(1) match_slot_shorter [OF slot] Cons slot show ?thesis
        by (auto simp: fill_command.simps(2) slot_text_def map_add_def split: option.splits)
    qed
  qed simp
qed

lemma dom_action_values: "dom (action_values a p input) = {''PLAYER'', ''PLAYER_ID''} \<union> pf_name ` set (pa_fields a)"
proof -
  have "dom (foldl (\<lambda>m f. m(pf_name f \<mapsto> field_value input f)) m fs) = dom m \<union> pf_name ` set fs" for m fs
    by (induction fs arbitrary: m) auto
  then show ?thesis by (auto simp: action_values_def)
qed

lemma action_values_range:
  assumes "action_values a p input k = Some v"
  shows "v = sp_name p \<or> sp_id p = Some v \<or> (\<exists>f\<in>set (pa_fields a). v = field_value input f)"
proof -
  have "foldl (\<lambda>m f. m(pf_name f \<mapsto> field_value input f)) m fs k = Some v \<Longrightarrow>
      m k = Some v \<or> (\<exists>f\<in>set fs. v = field_value input f)" for m fs
  proof (induction fs arbitrary: m)
    case (Cons f fs)
    from Cons.IH [of "m(pf_name f \<mapsto> field_value input f)"] Cons.prems show ?case by (auto split: if_splits)
  qed simp
  from this [OF assms [unfolded action_values_def]] show ?thesis by (auto split: if_splits option.splits)
qed

lemma js_trim_set: "set (js_trim s) \<subseteq> set s"
  by (auto simp: js_trim_def dest!: set_dropWhileD)


definition kick_action :: player_action where
  "kick_action = \<lparr>pa_id = ''kick'', pa_command = ''kick {{PLAYER}} {{REASON}}'',
     pa_fields = [\<lparr>pf_name = ''REASON'', pf_type = Field_Text, pf_required = False, pf_default = [], pf_options = [],
       pf_min = None, pf_max = None\<rparr>]\<rparr>"

definition plain_name :: "string \<Rightarrow> bool" where
  "plain_name s \<longleftrightarrow> s \<noteq> [] \<and> length s \<le> 16 \<and> list_all (\<lambda>c. is_alnum c \<or> c = CHR ''_'') s"

lemma kick_built: "build_action_command plain_name kick_action \<lparr>sp_name = ''Steve'', sp_id = None\<rparr> [] = Inr ''kick Steve''"
  by code_simp


text \<open>The id is not checked: an id with a line break, which a list file may hold, types a second command.\<close>

lemma id_starts_second_command:
  "build_action_command plain_name \<lparr>pa_id = ''pardon'', pa_command = ''unban {{PLAYER_ID}}'', pa_fields = []\<rparr>
     \<lparr>sp_name = ''Steve'', sp_id = Some (''7'' @ [CHR 0x0A] @ ''op Steve'')\<rparr> []
   = Inr (''unban 7'' @ [CHR 0x0A] @ ''op Steve'')"
  by code_simp

end
