(* ===== verification/Players.thy ===== *)
theory Players
  imports Player_Parse
begin

text \<open>
  Who is online on each instance (server/src/modules/players/service.ts), read from console lines in the
  order they arrive. \<open>players\<close> holds the rows, the ids waiting for a join line, the counts browsers are
  told, the timers that refresh them, and the caches. Names are compared as the table's collation does,
  without case. The set of names online is the abstract state the events act on.
\<close>

section \<open>State\<close>

record player_row =
  pr_id :: nat
  pr_instance_id :: nat
  pr_name :: string
  pr_player_id :: "string option"
  pr_online :: bool
  pr_joined_at :: "int option"
  pr_first_seen_at :: int
  pr_last_seen_at :: int

record cached_matcher =
  cm_at :: int
  cm_matcher :: "matcher option"
  cm_pending :: "pending_list option"

text \<open>An entry of a list file, as far as actions read it, and the result of reading one.\<close>

record list_entry =
  len_name :: string
  len_id :: "string option"

record list_result =
  lr_entries :: "list_entry list"
  lr_error :: "string option"

record players =
  ps_rows :: "player_row list"
  ps_next_id :: nat
  ps_pending_ids :: "(string \<times> string \<times> int) list"
  ps_counts :: "nat \<rightharpoonup> nat"
  ps_timers :: "nat set"
  ps_matchers :: "nat \<rightharpoonup> cached_matcher"
  ps_lists :: "nat \<rightharpoonup> int \<times> list_result list"

definition matcher_ttl_ms :: int where "matcher_ttl_ms = 60000"
definition lists_ttl_ms :: int where "lists_ttl_ms = 30000"
definition pending_id_ms :: int where "pending_id_ms = 5 * 60000"
definition player_retention_days :: int where "player_retention_days = 90"

section \<open>Rows\<close>

definition is_player :: "nat \<Rightarrow> string \<Rightarrow> player_row \<Rightarrow> bool" where
  "is_player i n r \<longleftrightarrow> pr_instance_id r = i \<and> same_name (pr_name r) n"

definition find_player :: "nat \<Rightarrow> string \<Rightarrow> players \<Rightarrow> player_row option" where
  "find_player i n st = find (is_player i n) (ps_rows st)"

definition create_player :: "int \<Rightarrow> nat \<Rightarrow> string \<Rightarrow> string option \<Rightarrow> bool \<Rightarrow> players \<Rightarrow> players" where
  "create_player now i n pid online st = st\<lparr>ps_next_id := ps_next_id st + 1, ps_rows := ps_rows st @
     [\<lparr>pr_id = ps_next_id st, pr_instance_id = i, pr_name = n, pr_player_id = pid, pr_online = online,
       pr_joined_at = (if online then Some now else None), pr_first_seen_at = now, pr_last_seen_at = now\<rparr>]\<rparr>"

definition change_rows :: "(player_row \<Rightarrow> bool) \<Rightarrow> (player_row \<Rightarrow> player_row) \<Rightarrow> players \<Rightarrow> players" where
  "change_rows P f st = st\<lparr>ps_rows := map (\<lambda>r. if P r then f r else r) (ps_rows st)\<rparr>"

definition with_id :: "string option \<Rightarrow> player_row \<Rightarrow> player_row" where
  "with_id pid r = (case truthy pid of None \<Rightarrow> r | Some i \<Rightarrow> r\<lparr>pr_player_id := Some i\<rparr>)"

definition joined_row :: "int \<Rightarrow> seen_player \<Rightarrow> player_row \<Rightarrow> player_row" where
  "joined_row now p r =
     (with_id (sp_id p) (r\<lparr>pr_name := sp_name p\<rparr>))\<lparr>pr_online := True, pr_joined_at := Some now, pr_last_seen_at := now\<rparr>"

definition left_row :: "int \<Rightarrow> player_row \<Rightarrow> player_row" where
  "left_row now r = r\<lparr>pr_online := False, pr_joined_at := None, pr_last_seen_at := now\<rparr>"

definition listed_row :: "int \<Rightarrow> seen_player \<Rightarrow> player_row \<Rightarrow> player_row" where
  "listed_row now p r =
     (let r = (if pr_online r then r else r\<lparr>pr_online := True, pr_joined_at := Some now\<rparr>) in
      (with_id (sp_id p) (r\<lparr>pr_name := sp_name p\<rparr>))\<lparr>pr_last_seen_at := now\<rparr>)"

definition mark_joined :: "int \<Rightarrow> nat \<Rightarrow> seen_player \<Rightarrow> players \<Rightarrow> players" where
  "mark_joined now i p st = (case find_player i (sp_name p) st of
     None \<Rightarrow> create_player now i (sp_name p) (sp_id p) True st
   | Some row \<Rightarrow> change_rows (\<lambda>r. pr_id r = pr_id row) (joined_row now p) st)"

definition mark_left :: "int \<Rightarrow> nat \<Rightarrow> string \<Rightarrow> players \<Rightarrow> players" where
  "mark_left now i n st = (case find_player i n st of
     None \<Rightarrow> create_player now i n None False st
   | Some row \<Rightarrow> change_rows (\<lambda>r. pr_id r = pr_id row) (left_row now) st)"

text \<open>
  \<open>setOnline\<close>: \<open>rows\<close> are the rows read at the start. They are saved as they are changed, so that reading
  them again from the table by their ids is the same.
\<close>

definition rows_for :: "nat \<Rightarrow> seen_player list \<Rightarrow> players \<Rightarrow> player_row list" where
  "rows_for i ps st = filter (\<lambda>r. pr_instance_id r = i \<and> (pr_online r \<or> list_ex (\<lambda>p. same_name (pr_name r) (sp_name p)) ps)) (ps_rows st)"

definition set_listed :: "int \<Rightarrow> nat \<Rightarrow> player_row list \<Rightarrow> players \<Rightarrow> seen_player \<Rightarrow> players" where
  "set_listed now i rows st p = (case index_by (js_lower \<circ> pr_name) rows (js_lower (sp_name p)) of
     None \<Rightarrow> create_player now i (sp_name p) (sp_id p) True st
   | Some row \<Rightarrow> change_rows (\<lambda>r. pr_id r = pr_id row) (listed_row now p) st)"

definition set_online :: "int \<Rightarrow> nat \<Rightarrow> seen_player list \<Rightarrow> players \<Rightarrow> players" where
  "set_online now i ps st =
     (let rows = rows_for i ps st; wanted = map (js_lower \<circ> sp_name) ps in
      change_rows (\<lambda>r. pr_id r \<in> set (map pr_id rows) \<and> pr_online r \<and> js_lower (pr_name r) \<notin> set wanted) (left_row now)
        (foldl (set_listed now i rows) st ps))"

section \<open>Ids waiting for a join\<close>

definition pending_key :: "nat \<Rightarrow> string \<Rightarrow> string" where
  "pending_key i n = string_of_int (int i) @ '':'' @ js_lower n"

definition remember_id :: "int \<Rightarrow> nat \<Rightarrow> string \<Rightarrow> string \<Rightarrow> players \<Rightarrow> players" where
  "remember_id now i n pid st =
     (let ids = (if length (ps_pending_ids st) > 1000
                 then filter (\<lambda>(_, _, t). \<not> now - t > pending_id_ms) (ps_pending_ids st) else ps_pending_ids st) in
      st\<lparr>ps_pending_ids := AList.update (pending_key i n) (pid, now) ids\<rparr>)"

definition take_pending_id :: "int \<Rightarrow> nat \<Rightarrow> string \<Rightarrow> players \<Rightarrow> players \<times> string option" where
  "take_pending_id now i n st =
     (let key = pending_key i n in
      (st\<lparr>ps_pending_ids := AList.delete key (ps_pending_ids st)\<rparr>,
       case map_of (ps_pending_ids st) key of None \<Rightarrow> None
       | Some (pid, t) \<Rightarrow> if now - t < pending_id_ms then Some pid else None))"

section \<open>Counts\<close>

definition online_rows :: "nat \<Rightarrow> players \<Rightarrow> player_row list" where
  "online_rows i st = filter (\<lambda>r. pr_instance_id r = i \<and> pr_online r) (ps_rows st)"

definition online_count :: "nat \<Rightarrow> players \<Rightarrow> nat" where
  "online_count i st = (case ps_counts st i of None \<Rightarrow> 0 | Some n \<Rightarrow> n)"

text \<open>\<open>GROUP BY\<close> gives a row only for instances that have one.\<close>

definition load_online_counts :: "players \<Rightarrow> players" where
  "load_online_counts st = st\<lparr>ps_counts := \<lambda>i. if online_rows i st = [] then None else Some (length (online_rows i st))\<rparr>"

definition schedule_emit :: "nat \<Rightarrow> players \<Rightarrow> players" where
  "schedule_emit i st = st\<lparr>ps_timers := insert i (ps_timers st)\<rparr>"

text \<open>The timer's callback, with what it broadcasts.\<close>

definition emit_count :: "nat \<Rightarrow> players \<Rightarrow> players \<times> (nat \<times> nat)" where
  "emit_count i st = (let n = length (online_rows i st) in
     (st\<lparr>ps_timers := ps_timers st - {i}, ps_counts := (ps_counts st)(i \<mapsto> n)\<rparr>, (i, n)))"

definition mark_all_offline :: "int \<Rightarrow> nat \<Rightarrow> players \<Rightarrow> players" where
  "mark_all_offline now i st =
     (let st' = change_rows (\<lambda>r. pr_instance_id r = i \<and> pr_online r) (left_row now) st in
      if online_rows i st = [] then st' else schedule_emit i st')"

section \<open>The console\<close>

fun apply_event :: "int \<Rightarrow> nat \<Rightarrow> player_event \<Rightarrow> players \<Rightarrow> players" where
  "apply_event now i (Identify_Event n pid) st =
     change_rows (is_player i n) (\<lambda>r. r\<lparr>pr_player_id := Some pid\<rparr>) (remember_id now i n pid st)"
| "apply_event now i (Join_Event n pid) st =
     (case pid of
        Some _ \<Rightarrow> mark_joined now i \<lparr>sp_name = n, sp_id = pid\<rparr> st
      | None \<Rightarrow> (let (st, pid) = take_pending_id now i n st in mark_joined now i \<lparr>sp_name = n, sp_id = pid\<rparr> st))"
| "apply_event now i (Leave_Event n) st = mark_left now i n st"
| "apply_event now i (List_Event ps) st = set_online now i ps st"
| "apply_event now i Refresh_Event st = st\<lparr>ps_lists := (ps_lists st)(i := None)\<rparr>"

fun changes_players :: "player_event \<Rightarrow> bool" where
  "changes_players (Identify_Event n pid) = False"
| "changes_players _ = True"

definition apply_found :: "int \<Rightarrow> nat \<Rightarrow> player_event list \<Rightarrow> players \<Rightarrow> players" where
  "apply_found now i found st =
     (let st' = foldl (\<lambda>st e. apply_event now i e st) st found in
      if list_ex changes_players found then schedule_emit i st' else st')"

text \<open>\<open>config\<close> is the players section of the instance's template, none when either is missing.\<close>

definition matcher_for :: "(string \<Rightarrow> regex option) \<Rightarrow> int \<Rightarrow> nat \<Rightarrow> template_players option \<Rightarrow> players \<Rightarrow> players \<times> cached_matcher" where
  "matcher_for compile now i config st =
     (let new = \<lparr>cm_at = now, cm_matcher = Option.bind config (compile_matcher compile), cm_pending = None\<rparr> in
      case ps_matchers st i of
        Some hit \<Rightarrow> if now - cm_at hit < matcher_ttl_ms then (st, hit) else (st\<lparr>ps_matchers := (ps_matchers st)(i \<mapsto> new)\<rparr>, new)
      | None \<Rightarrow> (st\<lparr>ps_matchers := (ps_matchers st)(i \<mapsto> new)\<rparr>, new))"

fun match_lines :: "matcher \<Rightarrow> int \<Rightarrow> string list \<Rightarrow> pending_list option \<Rightarrow> pending_list option \<times> player_event list" where
  "match_lines m now [] pending = (pending, [])"
| "match_lines m now (l # ls) pending =
     (let (pending, e) = match_line m now l pending; (pending, es) = match_lines m now ls pending in
      (pending, (case e of None \<Rightarrow> es | Some e \<Rightarrow> e # es)))"

definition on_player_console :: "(string \<Rightarrow> regex option) \<Rightarrow> int \<Rightarrow> nat \<Rightarrow> template_players option \<Rightarrow> string list \<Rightarrow> players \<Rightarrow> players" where
  "on_player_console compile now i config lines st =
     (let (st, hit) = matcher_for compile now i config st in
      case cm_matcher hit of
        None \<Rightarrow> st
      | Some m \<Rightarrow>
          let (pending, found) = match_lines m now lines (cm_pending hit);
              st = st\<lparr>ps_matchers := (ps_matchers st)(i \<mapsto> hit\<lparr>cm_pending := pending\<rparr>)\<rparr> in
          if found = [] then st else apply_found now i found st)"

definition nobody_online :: "instance_status \<Rightarrow> bool" where
  "nobody_online s \<longleftrightarrow> s \<in> set [Stopped, Crashed, Starting, Installing, Install_Failed]"

definition on_player_status :: "int \<Rightarrow> nat \<Rightarrow> instance_status \<Rightarrow> players \<Rightarrow> players" where
  "on_player_status now i s st = (if nobody_online s then mark_all_offline now i st else st)"

section \<open>Actions and upkeep\<close>

text \<open>\<open>listsFor\<close>; \<open>read\<close> is what reading every list from the agent gives.\<close>

definition lists_for :: "int \<Rightarrow> nat \<Rightarrow> list_result list \<Rightarrow> players \<Rightarrow> players \<times> list_result list" where
  "lists_for now i read st =
     (if read = [] then (st, [])
      else case ps_lists st i of
        Some (t, hit) \<Rightarrow> if now - t < lists_ttl_ms then (st, hit)
          else (st\<lparr>ps_lists := (ps_lists st)(i := if list_ex (\<lambda>l. truthy (lr_error l) \<noteq> None) read then None else Some (now, read))\<rparr>, read)
      | None \<Rightarrow> (st\<lparr>ps_lists := (ps_lists st)(i := if list_ex (\<lambda>l. truthy (lr_error l) \<noteq> None) read then None else Some (now, read))\<rparr>, read))"

text \<open>The id put into a command: of the row, else of the first entry with an id and the name.\<close>

definition player_id_for :: "int \<Rightarrow> nat \<Rightarrow> string \<Rightarrow> list_result list \<Rightarrow> players \<Rightarrow> players \<times> string option" where
  "player_id_for now i n read st =
     (case truthy (Option.bind (find_player i n st) pr_player_id) of
        Some pid \<Rightarrow> (st, Some pid)
      | None \<Rightarrow> (let (st, ls) = lists_for now i read st in
          (st, Option.bind (find (\<lambda>e. truthy (len_id e) \<noteq> None \<and> same_name (len_name e) n) (concat (map lr_entries ls))) len_id)))"

record player_action_body =
  pb_action :: string
  pb_player :: string
  pb_fields :: "(string \<times> string) list"

text \<open>\<open>runAction\<close>; \<open>found\<close> is the instance's status with its template's players section, and \<open>answer\<close> what
  the agent says to the command.\<close>

definition run_player_action :: "(string \<Rightarrow> regex option) \<Rightarrow> int \<Rightarrow> nat \<Rightarrow> (instance_status \<times> template_players option) option \<Rightarrow> bool
    \<Rightarrow> list_result list \<Rightarrow> player_action_body \<Rightarrow> unit result \<Rightarrow> players \<Rightarrow> players \<times> string result" where
  "run_player_action compile now i found online read body answer st = (case found of
     None \<Rightarrow> (st, Inl (not_found ''Instance''))
   | Some (s, config) \<Rightarrow>
       (case Option.bind config (\<lambda>c. map_option (Pair c) (find (\<lambda>a. pa_id a = pb_action body) (tpl_actions c))) of
          None \<Rightarrow> (st, Inl (bad_request ''The template has no such player action''))
        | Some (c, action) \<Rightarrow>
            if s \<noteq> Running \<and> s \<noteq> Starting then (st, Inl (conflict ''The instance is not running''))
            else if \<not> online then (st, Inl (conflict ''The node is offline''))
            else (let (st, pid) = player_id_for now i (pb_player body) read st in
              case compile (tpl_name_pattern c) of
                None \<Rightarrow> (st, Inl internal_error)
              | Some name \<Rightarrow>
                  (case build_action_command (\<lambda>n. valid_name name (Some n)) action \<lparr>sp_name = pb_player body, sp_id = pid\<rparr> (pb_fields body) of
                     Inl problems \<Rightarrow> (st, Inl (bad_request_with ''Some values are invalid'' problems))
                   | Inr command \<Rightarrow> (case answer of
                       Inl e \<Rightarrow> (st, Inl e)
                     | Inr _ \<Rightarrow> (st\<lparr>ps_lists := (ps_lists st)(i := None)\<rparr>, Inr command))))))"

text \<open>A second and a half later.\<close>

definition after_action :: "nat \<Rightarrow> players \<Rightarrow> players" where
  "after_action i st = schedule_emit i (st\<lparr>ps_lists := (ps_lists st)(i := None)\<rparr>)"

text \<open>\<open>askWhoIsOnline\<close>: the command typed, when there is one to type.\<close>

definition who_is_online :: "(instance_status \<times> template_players option) option \<Rightarrow> bool \<Rightarrow> string option" where
  "who_is_online found online = (case found of
     Some (s, Some c) \<Rightarrow> if s = Running \<and> online then map_option plc_command (tpl_list c) else None
   | _ \<Rightarrow> None)"

text \<open>\<open>answer\<close> is what the agent says to it.\<close>

definition refresh_players :: "nat \<Rightarrow> (instance_status \<times> template_players option) option \<Rightarrow> bool \<Rightarrow> unit result \<Rightarrow> players \<Rightarrow> players \<times> unit result" where
  "refresh_players i found online answer st =
     (let st = st\<lparr>ps_matchers := (ps_matchers st)(i := None), ps_lists := (ps_lists st)(i := None)\<rparr> in
      case (who_is_online found online, answer) of
        (Some _, Inl e) \<Rightarrow> (st, Inl e)
      | _ \<Rightarrow> (schedule_emit i st, Inr ()))"

text \<open>Deleting an instance: its rows go with it, and \<open>forget\<close> drops the rest.\<close>

definition forget :: "nat \<Rightarrow> players \<Rightarrow> players" where
  "forget i st = st\<lparr>ps_matchers := (ps_matchers st)(i := None), ps_lists := (ps_lists st)(i := None),
     ps_counts := (ps_counts st)(i := None)\<rparr>"

definition delete_instance_players :: "nat \<Rightarrow> players \<Rightarrow> players" where
  "delete_instance_players i st = forget i (st\<lparr>ps_rows := filter (\<lambda>r. pr_instance_id r \<noteq> i) (ps_rows st)\<rparr>)"

definition purge_old_players :: "int \<Rightarrow> players \<Rightarrow> players \<times> nat" where
  "purge_old_players now st =
     (let old = (\<lambda>r. \<not> pr_online r \<and> pr_last_seen_at r < now - player_retention_days * 86400000) in
      (st\<lparr>ps_rows := filter (\<lambda>r. \<not> old r) (ps_rows st)\<rparr>, length (filter old (ps_rows st))))"

section \<open>The table\<close>

definition row_key :: "player_row \<Rightarrow> nat \<times> string" where
  "row_key r = (pr_instance_id r, js_lower (pr_name r))"

definition row_ids :: "players \<Rightarrow> (nat \<times> nat \<times> string) set" where
  "row_ids st = (\<lambda>r. (pr_id r, row_key r)) ` set (ps_rows st)"

definition online_keys :: "players \<Rightarrow> (nat \<times> string) set" where
  "online_keys st = row_key ` {r \<in> set (ps_rows st). pr_online r}"

definition online_names :: "nat \<Rightarrow> players \<Rightarrow> string set" where
  "online_names i st = {k. (i, k) \<in> online_keys st}"

text \<open>Ids and names (per instance) are unique, and a row is online exactly when it has a session's start.\<close>

definition players_ok :: "players \<Rightarrow> bool" where
  "players_ok st \<longleftrightarrow> distinct (map pr_id (ps_rows st)) \<and> distinct (map row_key (ps_rows st))
     \<and> (\<forall>r\<in>set (ps_rows st). pr_id r < ps_next_id st \<and> (pr_online r \<longleftrightarrow> pr_joined_at r \<noteq> None))"

definition keeps_row :: "(player_row \<Rightarrow> player_row) \<Rightarrow> player_row \<Rightarrow> bool" where
  "keeps_row f r \<longleftrightarrow> pr_id (f r) = pr_id r \<and> row_key (f r) = row_key r \<and> (pr_online (f r) \<longleftrightarrow> pr_joined_at (f r) \<noteq> None)"

lemma change_rows_ok:
  assumes "players_ok st" and keeps: "\<And>r. r \<in> set (ps_rows st) \<Longrightarrow> P r \<Longrightarrow> keeps_row f r"
  shows "players_ok (change_rows P f st)" and "row_ids (change_rows P f st) = row_ids st"
proof -
  let ?g = "\<lambda>r. if P r then f r else r"
  have "map pr_id (map ?g (ps_rows st)) = map pr_id (ps_rows st)" "map row_key (map ?g (ps_rows st)) = map row_key (ps_rows st)"
    using keeps by (auto simp: keeps_row_def)
  then show "players_ok (change_rows P f st)"
    using assms unfolding players_ok_def change_rows_def by (auto simp del: map_map simp: keeps_row_def)
  have "map (\<lambda>r. (pr_id r, row_key r)) (map ?g (ps_rows st)) = map (\<lambda>r. (pr_id r, row_key r)) (ps_rows st)"
    using keeps by (auto simp: keeps_row_def)
  then have "set (map (\<lambda>r. (pr_id r, row_key r)) (map ?g (ps_rows st))) = set (map (\<lambda>r. (pr_id r, row_key r)) (ps_rows st))"
    by (rule arg_cong)
  moreover have "row_ids st' = set (map (\<lambda>r. (pr_id r, row_key r)) (ps_rows st'))" for st' by (simp add: row_ids_def)
  ultimately show "row_ids (change_rows P f st) = row_ids st"
    by (simp add: change_rows_def del: map_map set_map)
qed

lemma online_keys_change:
  assumes "\<And>r. r \<in> set (ps_rows st) \<Longrightarrow> P r \<Longrightarrow> keeps_row f r"
  shows "online_keys (change_rows P f st) =
    row_key ` {r \<in> set (ps_rows st). if P r then pr_online (f r) else pr_online r}"
proof -
  have "online_keys (change_rows P f st) =
      (\<lambda>r. row_key (if P r then f r else r)) ` {r \<in> set (ps_rows st). pr_online (if P r then f r else r)}"
    by (force simp: online_keys_def change_rows_def)
  also have "\<dots> = row_key ` {r \<in> set (ps_rows st). if P r then pr_online (f r) else pr_online r}"
    using assms by (intro image_cong) (auto simp: keeps_row_def)
  finally show ?thesis .
qed

lemma same_row: "players_ok st \<Longrightarrow> r \<in> set (ps_rows st) \<Longrightarrow> r' \<in> set (ps_rows st) \<Longrightarrow>
    pr_id r = pr_id r' \<or> row_key r = row_key r' \<Longrightarrow> r = r'"
  by (auto simp: players_ok_def distinct_map dest: inj_onD)

lemma change_one:
  assumes ok: "players_ok st" and row: "(rid, k) \<in> row_ids st"
    and keeps: "\<And>r. row_key r = k \<Longrightarrow> pr_online r \<longleftrightarrow> pr_joined_at r \<noteq> None \<Longrightarrow> keeps_row f r"
    and online: "\<And>r. pr_online (f r) = on"
  shows "players_ok (change_rows (\<lambda>r. pr_id r = rid) f st)" and "row_ids (change_rows (\<lambda>r. pr_id r = rid) f st) = row_ids st"
    and "online_keys (change_rows (\<lambda>r. pr_id r = rid) f st) = (if on then insert k (online_keys st) else online_keys st - {k})"
proof -
  from row obtain row where r0: "row \<in> set (ps_rows st)" "pr_id row = rid" "row_key row = k" by (auto simp: row_ids_def)
  have one: "pr_id r = rid \<longleftrightarrow> r = row" "row_key r = k \<longleftrightarrow> r = row" if "r \<in> set (ps_rows st)" for r
    using same_row [OF ok that r0(1)] r0 by auto
  have k: "keeps_row f r" if "r \<in> set (ps_rows st)" "pr_id r = rid" for r
    using keeps [of r] ok one [OF that(1)] that by (auto simp: players_ok_def)
  show "players_ok (change_rows (\<lambda>r. pr_id r = rid) f st)" "row_ids (change_rows (\<lambda>r. pr_id r = rid) f st) = row_ids st"
    using change_rows_ok [OF ok] k by auto
  have "online_keys (change_rows (\<lambda>r. pr_id r = rid) f st) =
      row_key ` {r \<in> set (ps_rows st). if pr_id r = rid then on else pr_online r}"
    using online_keys_change [of st "\<lambda>r. pr_id r = rid" f] k by (simp add: online)
  also have "{r \<in> set (ps_rows st). if pr_id r = rid then on else pr_online r} =
      {r \<in> set (ps_rows st). pr_online r \<and> r \<noteq> row} \<union> (if on then {row} else {})"
    using one r0 by auto
  also have "row_key ` {r \<in> set (ps_rows st). pr_online r \<and> r \<noteq> row} = online_keys st - {k}"
    using one(2) r0(3) unfolding online_keys_def by blast
  then have "row_key ` ({r \<in> set (ps_rows st). pr_online r \<and> r \<noteq> row} \<union> (if on then {row} else {})) =
      (if on then insert k (online_keys st) else online_keys st - {k})"
    using r0(3) by (simp add: image_Un)
  finally show "online_keys (change_rows (\<lambda>r. pr_id r = rid) f st) = (if on then insert k (online_keys st) else online_keys st - {k})" .
qed

lemma online_keys_filter: "online_keys st = set (map row_key (filter pr_online (ps_rows st)))"
  by (auto simp: online_keys_def)

lemma create_player_ok:
  assumes "players_ok st" and "(i, js_lower n) \<notin> snd ` row_ids st"
  shows "players_ok (create_player now i n pid on st)"
    and "row_ids (create_player now i n pid on st) = insert (ps_next_id st, i, js_lower n) (row_ids st)"
    and "online_keys (create_player now i n pid on st) = (if on then insert (i, js_lower n) (online_keys st) else online_keys st)"
proof -
  have new: "(i, js_lower n) \<notin> row_key ` set (ps_rows st)" using assms(2) by (auto simp: row_ids_def image_image)
  have "row_key \<lparr>pr_id = d, pr_instance_id = i, pr_name = n, pr_player_id = pid, pr_online = v, pr_joined_at = j,
      pr_first_seen_at = a, pr_last_seen_at = b\<rparr> = (i, js_lower n)" for d j a b v by (simp add: row_key_def)
  note simps = this create_player_def
  have "ps_next_id st \<notin> pr_id ` set (ps_rows st)" using assms(1) by (auto simp: players_ok_def)
  then show "players_ok (create_player now i n pid on st)"
    using assms(1) new by (auto simp: players_ok_def simps less_SucI)
  show "row_ids (create_player now i n pid on st) = insert (ps_next_id st, i, js_lower n) (row_ids st)"
    by (simp add: row_ids_def simps)
  show "online_keys (create_player now i n pid on st) = (if on then insert (i, js_lower n) (online_keys st) else online_keys st)"
    by (simp add: online_keys_filter simps)
qed

lemma find_player_Some: "find_player i n st = Some row \<Longrightarrow> (pr_id row, i, js_lower n) \<in> row_ids st"
  by (auto simp: find_player_def is_player_def same_name_def row_ids_def row_key_def dest!: find_SomeD intro!: rev_image_eqI)

lemma find_player_None: "find_player i n st = None \<Longrightarrow> (i, js_lower n) \<notin> snd ` row_ids st"
  by (auto simp: find_player_def find_None_iff is_player_def same_name_def row_ids_def row_key_def)

lemma with_id_simps [simp]:
  "pr_id (with_id pid r) = pr_id r" "row_key (with_id pid r) = row_key r" "pr_online (with_id pid r) = pr_online r"
  "pr_joined_at (with_id pid r) = pr_joined_at r"
  by (auto simp: with_id_def row_key_def split: option.split)

lemma row_key_simps [simp]:
  "row_key (r\<lparr>pr_online := a\<rparr>) = row_key r" "row_key (r\<lparr>pr_joined_at := b\<rparr>) = row_key r"
  "row_key (r\<lparr>pr_last_seen_at := c\<rparr>) = row_key r" "row_key (r\<lparr>pr_player_id := d\<rparr>) = row_key r"
  by (simp_all add: row_key_def)

lemma keeps_rows:
  "row_key r = (i, js_lower (sp_name p)) \<Longrightarrow> keeps_row (joined_row now p) r"
  "row_key r = (i, js_lower (sp_name p)) \<Longrightarrow> pr_online r \<longleftrightarrow> pr_joined_at r \<noteq> None \<Longrightarrow> keeps_row (listed_row now p) r"
  "keeps_row (left_row now) r"
  by (auto simp: keeps_row_def joined_row_def listed_row_def left_row_def Let_def row_key_def with_id_def split: option.split)

lemma row_online [simp]:
  "pr_online (joined_row now p r)" "pr_online (listed_row now p r)" "\<not> pr_online (left_row now r)"
  by (simp_all add: joined_row_def listed_row_def left_row_def Let_def)

lemma mark_joined_ok:
  assumes "players_ok st"
  shows "players_ok (mark_joined now i p st)"
    and "online_keys (mark_joined now i p st) = insert (i, js_lower (sp_name p)) (online_keys st)"
proof -
  note one = change_one [OF assms find_player_Some, where f = "joined_row now p" and on = True]
  note new = create_player_ok [OF assms find_player_None, of i "sp_name p" now "sp_id p" True]
  show "players_ok (mark_joined now i p st)"
    using one(1) new(1) keeps_rows(1) by (auto simp: mark_joined_def split: option.split)
  show "online_keys (mark_joined now i p st) = insert (i, js_lower (sp_name p)) (online_keys st)"
    using one(3) new(3) keeps_rows(1) by (auto simp: mark_joined_def split: option.split)
qed

lemma online_keys_row_ids: "online_keys st \<subseteq> snd ` row_ids st"
  by (auto simp: online_keys_def row_ids_def image_image)

lemma mark_left_ok:
  assumes "players_ok st"
  shows "players_ok (mark_left now i n st)"
    and "online_keys (mark_left now i n st) = online_keys st - {(i, js_lower n)}"
proof -
  note one = change_one [OF assms find_player_Some, where f = "left_row now" and on = False]
  note new = create_player_ok [OF assms find_player_None, of i n now None False]
  show "players_ok (mark_left now i n st)"
    using one(1) new(1) keeps_rows(3) by (auto simp: mark_left_def split: option.split)
  show "online_keys (mark_left now i n st) = online_keys st - {(i, js_lower n)}"
    using one(3) new(3) keeps_rows(3) find_player_None [of i n st] online_keys_row_ids [of st]
    by (auto simp: mark_left_def split: option.split)
qed

text \<open>The rows read at the start still tell which row, if any, a name has.\<close>

definition snapshot_ok :: "nat \<Rightarrow> player_row list \<Rightarrow> players \<Rightarrow> seen_player \<Rightarrow> bool" where
  "snapshot_ok i rows st p \<longleftrightarrow> (case index_by (js_lower \<circ> pr_name) rows (js_lower (sp_name p)) of
     Some row \<Rightarrow> (pr_id row, i, js_lower (sp_name p)) \<in> row_ids st
   | None \<Rightarrow> (i, js_lower (sp_name p)) \<notin> snd ` row_ids st)"

lemma set_listed_ok:
  assumes "players_ok st" and "snapshot_ok i rows st p"
  shows "players_ok (set_listed now i rows st p)
    \<and> online_keys (set_listed now i rows st p) = insert (i, js_lower (sp_name p)) (online_keys st)
    \<and> row_ids st \<subseteq> row_ids (set_listed now i rows st p)
    \<and> snd ` row_ids (set_listed now i rows st p) \<subseteq> insert (i, js_lower (sp_name p)) (snd ` row_ids st)"
proof (cases "index_by (js_lower \<circ> pr_name) rows (js_lower (sp_name p))")
  case None
  with assms(2) have "(i, js_lower (sp_name p)) \<notin> snd ` row_ids st" by (simp add: snapshot_ok_def)
  note new = create_player_ok [OF assms(1) this, of now "sp_id p" True]
  show ?thesis
    using None new by (auto simp: set_listed_def)
next
  case (Some row)
  with assms(2) have "(pr_id row, i, js_lower (sp_name p)) \<in> row_ids st" by (simp add: snapshot_ok_def)
  note one = change_one [OF assms(1) this, of "listed_row now p" True, OF keeps_rows(2) row_online(2) [THEN eqTrueI]]
  show ?thesis
    using Some one by (auto simp: set_listed_def)
qed

text \<open>The first loop of \<open>setOnline\<close>, over the players not handled yet.\<close>

lemma set_listed_all:
  assumes "players_ok st" and "distinct (map (js_lower \<circ> sp_name) ps)" and "\<forall>p\<in>set ps. snapshot_ok i rows st p"
  shows "players_ok (foldl (set_listed now i rows) st ps)
    \<and> online_keys (foldl (set_listed now i rows) st ps) = Pair i ` js_lower ` sp_name ` set ps \<union> online_keys st
    \<and> row_ids st \<subseteq> row_ids (foldl (set_listed now i rows) st ps)"
  using assms
proof (induction ps arbitrary: st)
  case (Cons p ps)
  let ?st = "set_listed now i rows st p"
  have "snapshot_ok i rows st p" using Cons.prems(3) by simp
  with set_listed_ok [OF Cons.prems(1), of i rows p now]
  have step: "players_ok ?st" "online_keys ?st = insert (i, js_lower (sp_name p)) (online_keys st)"
    "row_ids st \<subseteq> row_ids ?st" "snd ` row_ids ?st \<subseteq> insert (i, js_lower (sp_name p)) (snd ` row_ids st)" by simp_all
  have "snapshot_ok i rows ?st q" if q: "q \<in> set ps" for q
  proof -
    have "js_lower (sp_name q) \<noteq> js_lower (sp_name p)" using Cons.prems(2) imageI [OF q, of "js_lower \<circ> sp_name"] by auto
    moreover have "snapshot_ok i rows st q" using Cons.prems(3) q by simp
    ultimately show ?thesis using step(3,4) unfolding snapshot_ok_def by (cases "index_by (js_lower \<circ> pr_name) rows (js_lower (sp_name q))") auto
  qed
  with Cons.IH [OF step(1)] Cons.prems(2) step(2,3) show ?case by auto
qed simp

lemma set_online_ok:
  assumes ok: "players_ok st" and ps: "distinct (map (js_lower \<circ> sp_name) ps)"
  shows "players_ok (set_online now i ps st)"
    and "online_keys (set_online now i ps st) = {(j, k) \<in> online_keys st. j \<noteq> i} \<union> Pair i ` js_lower ` sp_name ` set ps"
proof -
  define rows where "rows = rows_for i ps st"
  define st' where "st' = foldl (set_listed now i rows) st ps"
  let ?wanted = "js_lower ` sp_name ` set ps"
  let ?P = "\<lambda>r. pr_id r \<in> set (map pr_id rows) \<and> pr_online r \<and> js_lower (pr_name r) \<notin> set (map (js_lower \<circ> sp_name) ps)"
  have sub: "row \<in> set (ps_rows st) \<and> pr_instance_id row = i" if "row \<in> set rows" for row
    using that by (auto simp: rows_def rows_for_def)
  have "snapshot_ok i rows st p" if p: "p \<in> set ps" for p
  proof (cases "index_by (js_lower \<circ> pr_name) rows (js_lower (sp_name p))")
    case (Some row)
    with index_by_Some [OF Some] sub [of row] show ?thesis
      by (auto simp: snapshot_ok_def row_ids_def row_key_def intro!: rev_image_eqI)
  next
    case None
    have taken: "r \<in> set rows" if "r \<in> set (ps_rows st)" "row_key r = (i, js_lower (sp_name p))" for r
      using that p by (auto simp: rows_def rows_for_def same_name_def list_ex_iff row_key_def)
    have "row_key r \<noteq> (i, js_lower (sp_name p))" if "r \<in> set (ps_rows st)" for r
    proof
      assume r: "row_key r = (i, js_lower (sp_name p))"
      from imageI [OF taken [OF that r], of "js_lower \<circ> pr_name"] None r
      show False by (simp add: index_by_None row_key_def)
    qed
    with None show ?thesis by (auto simp: snapshot_ok_def row_ids_def) metis
  qed
  with set_listed_all [OF ok ps, of i rows now]
  have ok': "players_ok st'" and keys: "online_keys st' = Pair i ` ?wanted \<union> online_keys st" and ids: "row_ids st \<subseteq> row_ids st'"
    by (auto simp: st'_def)
  have res: "set_online now i ps st = change_rows ?P (left_row now) st'"
    by (simp add: set_online_def Let_def rows_def st'_def)
  show "players_ok (set_online now i ps st)" unfolding res by (rule change_rows_ok(1) [OF ok']) (rule keeps_rows(3))
  have snap: "?P r \<longleftrightarrow> pr_instance_id r = i \<and> js_lower (pr_name r) \<notin> ?wanted" if r: "r \<in> set (ps_rows st')" "pr_online r" for r
  proof
    assume P: "?P r"
    then obtain row where row: "row \<in> set rows" "pr_id row = pr_id r" by auto
    have "(pr_id row, row_key row) \<in> row_ids st" using sub [OF row(1)] by (simp add: row_ids_def)
    with ids have "(pr_id row, row_key row) \<in> row_ids st'" ..
    then obtain r' where r': "r' \<in> set (ps_rows st')" "pr_id r' = pr_id row" "row_key r' = row_key row" by (auto simp: row_ids_def)
    then have "r' = r" using same_row [OF ok' r'(1) r(1)] row(2) by simp
    with r'(3) sub [OF row(1)] P show "pr_instance_id r = i \<and> js_lower (pr_name r) \<notin> ?wanted"
      by (auto simp: row_key_def)
  next
    assume i: "pr_instance_id r = i \<and> js_lower (pr_name r) \<notin> ?wanted"
    have "row_key r \<in> online_keys st'" using r by (auto simp: online_keys_def)
    then have "row_key r \<in> online_keys st" using keys i by (auto simp: row_key_def)
    then obtain row where row: "row \<in> set (ps_rows st)" "pr_online row" "row_key row = row_key r" by (auto simp: online_keys_def)
    then have snapped: "row \<in> set rows" using i by (auto simp: rows_def rows_for_def row_key_def)
    from row(1) ids obtain r' where r': "r' \<in> set (ps_rows st')" "pr_id r' = pr_id row" "row_key r' = row_key row"
      by (force simp: row_ids_def)
    then have "r' = r" using same_row [OF ok' r'(1) r(1)] row(3) by simp
    with r'(2) snapped i r(2) show "?P r" by auto
  qed
  have "online_keys (set_online now i ps st) = row_key ` {r \<in> set (ps_rows st'). if ?P r then pr_online (left_row now r) else pr_online r}"
    unfolding res by (rule online_keys_change) (rule keeps_rows(3))
  also have "{r \<in> set (ps_rows st'). if ?P r then pr_online (left_row now r) else pr_online r}
      = {r \<in> set (ps_rows st'). pr_online r \<and> \<not> (pr_instance_id r = i \<and> js_lower (pr_name r) \<notin> ?wanted)}"
    using snap by auto
  also have "row_key ` \<dots> = {(j, k) \<in> online_keys st'. \<not> (j = i \<and> k \<notin> ?wanted)}"
    by (auto simp: online_keys_def row_key_def)
  also have "\<dots> = {(j, k) \<in> online_keys st. j \<noteq> i} \<union> Pair i ` ?wanted" using keys by auto
  finally show "online_keys (set_online now i ps st) = {(j, k) \<in> online_keys st. j \<noteq> i} \<union> Pair i ` ?wanted" .
qed

lemma mark_all_offline_ok:
  assumes "players_ok st"
  shows "players_ok (mark_all_offline now i st)"
    and "online_keys (mark_all_offline now i st) = {(j, k) \<in> online_keys st. j \<noteq> i}"
proof -
  let ?P = "\<lambda>r. pr_instance_id r = i \<and> pr_online r"
  have rows: "ps_rows (mark_all_offline now i st) = ps_rows (change_rows ?P (left_row now) st)"
    "ps_next_id (mark_all_offline now i st) = ps_next_id (change_rows ?P (left_row now) st)"
    by (simp_all add: mark_all_offline_def Let_def schedule_emit_def)
  show "players_ok (mark_all_offline now i st)"
    using change_rows_ok(1) [OF assms, of ?P "left_row now"] keeps_rows(3) by (simp add: players_ok_def rows)
  have "online_keys (mark_all_offline now i st) = row_key ` {r \<in> set (ps_rows st). if ?P r then pr_online (left_row now r) else pr_online r}"
    using online_keys_change [of st ?P "left_row now"] keeps_rows(3) by (simp add: online_keys_def [of "mark_all_offline _ _ _"] rows flip: online_keys_def)
  then show "online_keys (mark_all_offline now i st) = {(j, k) \<in> online_keys st. j \<noteq> i}"
    by (auto simp: online_keys_def row_key_def)
qed

section \<open>The console as operations on the set of names\<close>

fun online_after :: "player_event \<Rightarrow> string set \<Rightarrow> string set" where
  "online_after (Join_Event n pid) names = insert (js_lower n) names"
| "online_after (Leave_Event n) names = names - {js_lower n}"
| "online_after (List_Event ps) names = js_lower ` sp_name ` set ps"
| "online_after _ names = names"

fun event_distinct :: "player_event \<Rightarrow> bool" where
  "event_distinct (List_Event ps) \<longleftrightarrow> distinct (map (js_lower \<circ> sp_name) ps)"
| "event_distinct _ \<longleftrightarrow> True"

lemma same_table:
  assumes "ps_rows st' = ps_rows st"
  shows "online_keys st' = online_keys st" "online_names j st' = online_names j st" "online_rows j st' = online_rows j st"
    "ps_next_id st' = ps_next_id st \<Longrightarrow> players_ok st' = players_ok st"
  using assms by (simp_all add: online_names_def online_keys_def online_rows_def players_ok_def)

lemma remember_id_simps [simp]:
  "ps_rows (remember_id now i n pid st) = ps_rows st" "ps_next_id (remember_id now i n pid st) = ps_next_id st"
  by (simp_all add: remember_id_def Let_def)

lemma identify_ok:
  assumes "players_ok st"
  shows "players_ok (apply_event now i (Identify_Event n pid) st)"
    and "online_keys (apply_event now i (Identify_Event n pid) st) = online_keys st"
proof -
  let ?st = "remember_id now i n pid st"
  have ok: "players_ok ?st" using same_table(4) [of ?st st] assms by simp
  have keeps: "keeps_row (\<lambda>r. r\<lparr>pr_player_id := Some pid\<rparr>) r" if "r \<in> set (ps_rows ?st)" for r
    using that ok by (auto simp: keeps_row_def players_ok_def)
  show "players_ok (apply_event now i (Identify_Event n pid) st)"
    using change_rows_ok(1) [OF ok keeps] by simp
  have "online_keys (change_rows (is_player i n) (\<lambda>r. r\<lparr>pr_player_id := Some pid\<rparr>) ?st) =
      row_key ` {r \<in> set (ps_rows ?st). if is_player i n r then pr_online (r\<lparr>pr_player_id := Some pid\<rparr>) else pr_online r}"
    by (rule online_keys_change) (rule keeps)
  also have "\<dots> = online_keys st" by (simp add: online_keys_def)
  finally show "online_keys (apply_event now i (Identify_Event n pid) st) = online_keys st" by simp
qed

lemma join_marks:
  assumes "players_ok st"
  obtains p st' where "apply_event now i (Join_Event n pid) st = mark_joined now i p st'" "sp_name p = n"
    "players_ok st'" "online_keys st' = online_keys st"
proof (cases pid)
  case None
  let ?st = "fst (take_pending_id now i n st)"
  have "ps_rows ?st = ps_rows st" "ps_next_id ?st = ps_next_id st"
    by (simp_all add: take_pending_id_def Let_def)
  with same_table(1,4) [of ?st st] assms have "players_ok ?st" "online_keys ?st = online_keys st" by blast+
  with that [of "\<lparr>sp_name = n, sp_id = snd (take_pending_id now i n st)\<rparr>" ?st] None show ?thesis
    by (simp add: split_def Let_def)
next
  case (Some x)
  with that [of "\<lparr>sp_name = n, sp_id = pid\<rparr>" st] assms show ?thesis by simp
qed

lemma apply_event_keys:
  assumes "players_ok st" and "event_distinct e"
  shows "players_ok (apply_event now i e st)"
    and "online_keys (apply_event now i e st) = {(j, k) \<in> online_keys st. j \<noteq> i} \<union> Pair i ` online_after e (online_names i st)"
proof -
  have all: "online_keys st = {(j, k) \<in> online_keys st. j \<noteq> i} \<union> Pair i ` online_names i st"
    by (auto simp: online_names_def)
  have "players_ok (apply_event now i e st) \<and>
      online_keys (apply_event now i e st) = {(j, k) \<in> online_keys st. j \<noteq> i} \<union> Pair i ` online_after e (online_names i st)"
  proof (cases e)
    case (Join_Event n pid)
    obtain p st' where p: "apply_event now i (Join_Event n pid) st = mark_joined now i p st'" "sp_name p = n"
        "players_ok st'" "online_keys st' = online_keys st"
      using join_marks [OF assms(1)] .
    have "insert (i, js_lower n) (online_keys st) =
        {(j, k) \<in> online_keys st. j \<noteq> i} \<union> Pair i ` insert (js_lower n) (online_names i st)"
      by (subst all) auto
    with p Join_Event show ?thesis by (simp add: mark_joined_ok del: apply_event.simps)
  next
    case (Leave_Event n)
    have "online_keys st - {(i, js_lower n)} =
        {(j, k) \<in> online_keys st. j \<noteq> i} \<union> Pair i ` (online_names i st - {js_lower n})"
      by (subst all) auto
    with Leave_Event assms(1) show ?thesis by (simp add: mark_left_ok)
  next
    case (Identify_Event n pid)
    with identify_ok [OF assms(1), of now i n pid] all show ?thesis by (simp del: apply_event.simps)
  next
    case (List_Event ps)
    with assms show ?thesis by (simp add: set_online_ok)
  next
    case Refresh_Event
    then have "ps_rows (apply_event now i e st) = ps_rows st" "ps_next_id (apply_event now i e st) = ps_next_id st" by simp_all
    from same_table(1) [OF this(1)] same_table(4) [OF this] all assms(1) Refresh_Event show ?thesis
      by (simp del: apply_event.simps)
  qed
  then show "players_ok (apply_event now i e st)"
    "online_keys (apply_event now i e st) = {(j, k) \<in> online_keys st. j \<noteq> i} \<union> Pair i ` online_after e (online_names i st)"
    by blast+
qed

lemma apply_event_ok:
  assumes "players_ok st" and "event_distinct e"
  shows "players_ok (apply_event now i e st)"
    and "online_names j (apply_event now i e st) = (if j = i then online_after e (online_names i st) else online_names j st)"
  using apply_event_keys [OF assms, of now i] by (auto simp: online_names_def [of j])

lemma apply_events_ok:
  assumes "players_ok st" and "list_all event_distinct es"
  shows "players_ok (foldl (\<lambda>st e. apply_event now i e st) st es)"
    and "online_names j (foldl (\<lambda>st e. apply_event now i e st) st es) =
      (if j = i then foldl (\<lambda>names e. online_after e names) (online_names i st) es else online_names j st)"
proof -
  have "players_ok (foldl (\<lambda>st e. apply_event now i e st) st es)
      \<and> online_names j (foldl (\<lambda>st e. apply_event now i e st) st es) =
        (if j = i then foldl (\<lambda>names e. online_after e names) (online_names i st) es else online_names j st)"
    using assms
  proof (induction es arbitrary: st)
    case (Cons e es)
    have e: "event_distinct e" "list_all event_distinct es" using Cons.prems(2) by auto
    show ?case
      using Cons.IH [OF apply_event_ok(1) [OF Cons.prems(1) e(1), of now i] e(2)]
        apply_event_ok(2) [OF Cons.prems(1) e(1), of _ now i] by (cases "j = i") simp_all
  qed simp
  then show "players_ok (foldl (\<lambda>st e. apply_event now i e st) st es)"
    "online_names j (foldl (\<lambda>st e. apply_event now i e st) st es) =
      (if j = i then foldl (\<lambda>names e. online_after e names) (online_names i st) es else online_names j st)" by auto
qed

text \<open>The rows online, counted by name.\<close>

lemma count_names: "players_ok st \<Longrightarrow> length (online_rows i st) = card (online_names i st)"
proof -
  assume ok: "players_ok st"
  have "online_names i st = (\<lambda>r. js_lower (pr_name r)) ` set (online_rows i st)"
    by (auto simp: online_names_def online_keys_def online_rows_def row_key_def image_iff)
  moreover have "inj_on (\<lambda>r. js_lower (pr_name r)) (set (online_rows i st))"
    using same_row [OF ok] by (auto simp: inj_on_def online_rows_def row_key_def)
  moreover have "distinct (online_rows i st)"
    using ok by (auto simp: online_rows_def players_ok_def distinct_map)
  ultimately show ?thesis by (simp add: card_image distinct_card)
qed

section \<open>Runs\<close>

text \<open>Starting up finds any table and nothing in memory.\<close>

inductive players_reachable :: "(string \<Rightarrow> regex option) \<Rightarrow> players \<Rightarrow> bool" for compile where
  pl_start: "players_ok st \<Longrightarrow> ps_timers st = {} \<Longrightarrow> ps_matchers st = Map.empty \<Longrightarrow> players_reachable compile (load_online_counts st)"
| pl_console: "players_reachable compile st \<Longrightarrow> players_reachable compile (on_player_console compile now i config ls st)"
| pl_status: "players_reachable compile st \<Longrightarrow> players_reachable compile (on_player_status now i s st)"
| pl_timer: "players_reachable compile st \<Longrightarrow> i \<in> ps_timers st \<Longrightarrow> players_reachable compile (fst (emit_count i st))"
| pl_action: "players_reachable compile st \<Longrightarrow>
    players_reachable compile (fst (run_player_action compile now i found online read body answer st))"
| pl_after: "players_reachable compile st \<Longrightarrow> players_reachable compile (after_action i st)"
| pl_refresh: "players_reachable compile st \<Longrightarrow> players_reachable compile (fst (refresh_players i found online answer st))"
| pl_delete: "players_reachable compile st \<Longrightarrow> players_reachable compile (delete_instance_players i st)"
| pl_purge: "players_reachable compile st \<Longrightarrow> players_reachable compile (fst (purge_old_players now st))"

definition counts_ok :: "players \<Rightarrow> bool" where
  "counts_ok st \<longleftrightarrow> (\<forall>i. i \<in> ps_timers st \<or> online_count i st = card (online_names i st))"

definition matchers_ok :: "players \<Rightarrow> bool" where
  "matchers_ok st \<longleftrightarrow> (\<forall>i hit m. ps_matchers st i = Some hit \<longrightarrow> cm_matcher hit = Some m \<longrightarrow> pending_valid (mt_name m) (cm_pending hit))"

text \<open>What the lines of one message say, with the matcher in use.\<close>

definition events_found :: "(string \<Rightarrow> regex option) \<Rightarrow> int \<Rightarrow> nat \<Rightarrow> template_players option \<Rightarrow> string list \<Rightarrow> players \<Rightarrow> player_event list" where
  "events_found compile now i config ls st =
     (let (st, hit) = matcher_for compile now i config st in
      case cm_matcher hit of None \<Rightarrow> [] | Some m \<Rightarrow> snd (match_lines m now ls (cm_pending hit)))"

lemma match_lines_valid:
  assumes "pending_valid (mt_name m) pending"
  shows "pending_valid (mt_name m) (fst (match_lines m now ls pending))
    \<and> list_all (event_valid (mt_name m)) (snd (match_lines m now ls pending))"
  using assms
proof (induction ls arbitrary: pending)
  case (Cons l ls)
  note line = match_line_valid [OF Cons.prems, of now l]
  from Cons.IH [OF line(1)] line(2) show ?case
    by (auto simp: split_def Let_def split: option.split)
qed simp

lemma event_valid_distinct: "event_valid name e \<Longrightarrow> event_distinct e"
  by (cases e) (auto simp: players_listed_def)

lemma create_player_memory [simp]:
  "ps_counts (create_player now i n pid on st) = ps_counts st" "ps_timers (create_player now i n pid on st) = ps_timers st"
  "ps_matchers (create_player now i n pid on st) = ps_matchers st"
  by (simp_all add: create_player_def)

lemma change_rows_memory [simp]:
  "ps_counts (change_rows P f st) = ps_counts st" "ps_timers (change_rows P f st) = ps_timers st"
  "ps_matchers (change_rows P f st) = ps_matchers st"
  by (simp_all add: change_rows_def)

lemma set_listed_memory [simp]:
  "ps_counts (foldl (set_listed now i rows) st ps) = ps_counts st" "ps_timers (foldl (set_listed now i rows) st ps) = ps_timers st"
  "ps_matchers (foldl (set_listed now i rows) st ps) = ps_matchers st"
  by (induction ps arbitrary: st) (simp_all add: set_listed_def split: option.split)

lemma apply_event_memory [simp]:
  "ps_counts (apply_event now i e st) = ps_counts st" "ps_timers (apply_event now i e st) = ps_timers st"
  "ps_matchers (apply_event now i e st) = ps_matchers st"
  by (cases e; simp add: mark_joined_def mark_left_def set_online_def remember_id_def take_pending_id_def Let_def split: option.split)+

lemma apply_events_memory [simp]:
  "ps_counts (foldl (\<lambda>st e. apply_event now i e st) st es) = ps_counts st"
  "ps_timers (foldl (\<lambda>st e. apply_event now i e st) st es) = ps_timers st"
  "ps_matchers (foldl (\<lambda>st e. apply_event now i e st) st es) = ps_matchers st"
  by (induction es arbitrary: st) simp_all

lemma quiet_events: "\<not> list_ex changes_players es \<Longrightarrow> foldl (\<lambda>names e. online_after e names) names es = names"
proof (induction es)
  case (Cons e es)
  then show ?case by (cases e) auto
qed simp

definition players_inv :: "players \<Rightarrow> bool" where
  "players_inv st \<longleftrightarrow> players_ok st \<and> counts_ok st \<and> matchers_ok st"

lemma apply_found_ok:
  assumes "players_inv st" and es: "list_all event_distinct es"
  shows "players_inv (apply_found now i es st)"
    and "online_names j (apply_found now i es st) =
      (if j = i then foldl (\<lambda>names e. online_after e names) (online_names i st) es else online_names j st)"
proof -
  have ok: "players_ok st" "counts_ok st" "matchers_ok st" using assms(1) by (auto simp: players_inv_def)
  let ?st = "foldl (\<lambda>st e. apply_event now i e st) st es"
  note run = apply_events_ok [OF ok(1) es, where now = now and i = i]
  have names: "online_names j (apply_found now i es st) = online_names j ?st" for j
    by (rule same_table(2)) (simp add: apply_found_def Let_def schedule_emit_def)
  then show "online_names j (apply_found now i es st) =
      (if j = i then foldl (\<lambda>names e. online_after e names) (online_names i st) es else online_names j st)"
    using run(2) by simp
  have "players_ok (apply_found now i es st) = players_ok ?st"
    by (rule same_table(4)) (simp_all add: apply_found_def Let_def schedule_emit_def)
  moreover have "ps_counts (apply_found now i es st) = ps_counts st"
    "ps_timers (apply_found now i es st) = (if list_ex changes_players es then insert i (ps_timers st) else ps_timers st)"
    by (simp_all add: apply_found_def Let_def schedule_emit_def)
  then have "counts_ok (apply_found now i es st)"
    using ok(2) quiet_events [of es "online_names i st"] by (auto simp: counts_ok_def names run(2) online_count_def)
  moreover have "matchers_ok (apply_found now i es st)"
    using ok(3) by (simp add: matchers_ok_def apply_found_def Let_def schedule_emit_def)
  ultimately show "players_inv (apply_found now i es st)" using run(1) by (simp add: players_inv_def)
qed

lemma matcher_for_ok:
  assumes "players_inv st" and "matcher_for compile now i config st = (st', hit)"
  shows "players_inv st'" and "ps_rows st' = ps_rows st" and "ps_matchers st' i = Some hit"
    and "cm_matcher hit = Some m \<Longrightarrow> pending_valid (mt_name m) (cm_pending hit)"
proof -
  let ?new = "\<lparr>cm_at = now, cm_matcher = Option.bind config (compile_matcher compile), cm_pending = None\<rparr>"
  have cases: "st' = st \<and> ps_matchers st i = Some hit \<or> st' = st\<lparr>ps_matchers := (ps_matchers st)(i \<mapsto> hit)\<rparr> \<and> hit = ?new"
    using assms(2) by (auto simp: matcher_for_def Let_def split: option.splits if_splits)
  from cases show rows: "ps_rows st' = ps_rows st" and matcher: "ps_matchers st' i = Some hit" by auto
  have same: "ps_next_id st' = ps_next_id st" "ps_timers st' = ps_timers st" "ps_counts st' = ps_counts st" using cases by auto
  have "matchers_ok st'"
    using cases assms(1) by (auto simp: players_inv_def matchers_ok_def pending_valid_def split: if_splits)
  then show "cm_matcher hit = Some m \<Longrightarrow> pending_valid (mt_name m) (cm_pending hit)"
    using matcher by (auto simp: matchers_ok_def)
  show "players_inv st'"
    using assms(1) \<open>matchers_ok st'\<close> same_table(4) [OF rows same(1)] same_table(2) [OF rows] same
    by (simp add: players_inv_def counts_ok_def online_count_def)
qed

lemma on_player_console_ok:
  assumes "players_inv st"
  shows "players_inv (on_player_console compile now i config ls st)
    \<and> online_names j (on_player_console compile now i config ls st) =
      (if j = i then foldl (\<lambda>names e. online_after e names) (online_names i st) (events_found compile now i config ls st)
       else online_names j st)"
proof -
  obtain st' hit where hit: "matcher_for compile now i config st = (st', hit)" by fastforce
  note m = matcher_for_ok [OF assms hit]
  note names = same_table(2) [OF m(2)]
  show ?thesis
  proof (cases "cm_matcher hit")
    case None
    with hit m(1) names show ?thesis by (simp add: on_player_console_def events_found_def)
  next
    case (Some mt)
    obtain pending found where lines: "match_lines mt now ls (cm_pending hit) = (pending, found)" by fastforce
    have valid: "pending_valid (mt_name mt) pending" "list_all (event_valid (mt_name mt)) found"
      using match_lines_valid [OF m(4) [OF Some], of now ls] lines by auto
    let ?st = "st'\<lparr>ps_matchers := (ps_matchers st')(i \<mapsto> hit\<lparr>cm_pending := pending\<rparr>)\<rparr>"
    have rows: "ps_rows ?st = ps_rows st'" "ps_next_id ?st = ps_next_id st'" by simp_all
    have "matchers_ok ?st" using m(1) valid(1) Some by (auto simp: players_inv_def matchers_ok_def)
    then have inv: "players_inv ?st"
      using m(1) same_table(4) [OF rows] same_table(2) [OF rows(1)] by (simp add: players_inv_def counts_ok_def online_count_def)
    have "list_all event_distinct found" using valid(2) event_valid_distinct by (auto simp: list_all_iff)
    note run = apply_found_ok [OF inv this]
    have "on_player_console compile now i config ls st = (if found = [] then ?st else apply_found now i found ?st)"
      "events_found compile now i config ls st = found"
      using hit Some lines by (simp_all add: on_player_console_def events_found_def)
    with inv run same_table(2) [OF rows(1)] names show ?thesis by simp
  qed
qed

text \<open>Steps that leave who is online alone.\<close>

lemma quiet_step:
  assumes "players_inv st" and "ps_rows st' = ps_rows st" and "ps_next_id st' = ps_next_id st" and "matchers_ok st'"
    and "\<And>i. i \<notin> ps_timers st' \<Longrightarrow> online_count i st' = card (online_names i st)"
  shows "players_inv st'"
  using assms(1,4,5) same_table(4) [OF assms(2,3)] same_table(2) [OF assms(2)] by (auto simp: players_inv_def counts_ok_def)

lemma on_player_status_ok:
  assumes "players_inv st"
  shows "players_inv (on_player_status now i s st)
    \<and> online_names j (on_player_status now i s st) = (if j = i \<and> nobody_online s then {} else online_names j st)"
proof (cases "nobody_online s")
  case True
  have ok: "players_ok st" "counts_ok st" "matchers_ok st" using assms by (auto simp: players_inv_def)
  note off = mark_all_offline_ok [OF ok(1), of now i]
  have names: "online_names j (mark_all_offline now i st) = (if j = i then {} else online_names j st)" for j
    using off(2) by (auto simp: online_names_def)
  have "online_rows i st = [] \<Longrightarrow> online_names i st = {}" using count_names [OF ok(1), of i]
    by (auto simp: online_names_def online_keys_def online_rows_def row_key_def filter_empty_conv)
  moreover have "ps_counts (mark_all_offline now i st) = ps_counts st"
    "ps_timers (mark_all_offline now i st) = (if online_rows i st = [] then ps_timers st else insert i (ps_timers st))"
    "ps_matchers (mark_all_offline now i st) = ps_matchers st"
    by (simp_all add: mark_all_offline_def Let_def schedule_emit_def)
  ultimately have "counts_ok (mark_all_offline now i st)" "matchers_ok (mark_all_offline now i st)"
    using ok(2,3) by (auto simp: counts_ok_def names online_count_def matchers_ok_def)
  with off(1) names True show ?thesis by (simp add: on_player_status_def players_inv_def)
qed (use assms in \<open>simp add: on_player_status_def\<close>)

lemma run_player_action_memory [simp]:
  "ps_rows (fst (run_player_action compile now i found online read body answer st)) = ps_rows st"
  "ps_next_id (fst (run_player_action compile now i found online read body answer st)) = ps_next_id st"
  "ps_timers (fst (run_player_action compile now i found online read body answer st)) = ps_timers st"
  "ps_counts (fst (run_player_action compile now i found online read body answer st)) = ps_counts st"
  "ps_matchers (fst (run_player_action compile now i found online read body answer st)) = ps_matchers st"
  by (simp_all add: run_player_action_def player_id_for_def lists_for_def Let_def split_def
      split: option.split sum.split)

lemma kept_rows:
  assumes "players_inv st" and "ps_rows st' = filter P (ps_rows st)" and "ps_next_id st' = ps_next_id st"
  shows "players_ok st'"
  using assms by (simp add: players_inv_def players_ok_def distinct_map_filter)

lemma players_reachable_inv: "players_reachable compile st \<Longrightarrow> players_inv st"
proof (induction rule: players_reachable.induct)
  case (pl_start st)
  have rows: "ps_rows (load_online_counts st) = ps_rows st" by (simp add: load_online_counts_def)
  have "online_count i (load_online_counts st) = card (online_names i (load_online_counts st))" for i
    using count_names [OF pl_start(1), of i] same_table(2) [OF rows]
    by (cases "online_rows i st = []") (simp_all add: load_online_counts_def online_count_def)
  with pl_start show ?case
    using same_table(4) [OF rows] by (simp add: players_inv_def counts_ok_def matchers_ok_def) (simp add: load_online_counts_def)
next
  case (pl_console st now i config ls)
  then show ?case using on_player_console_ok by blast
next
  case (pl_status st now i s)
  then show ?case using on_player_status_ok by blast
next
  case (pl_timer st i)
  let ?st = "fst (emit_count i st)"
  have "ps_rows ?st = ps_rows st" "ps_next_id ?st = ps_next_id st" "ps_matchers ?st = ps_matchers st"
    by (simp_all add: emit_count_def Let_def)
  moreover have "online_count j ?st = card (online_names j st)" if "j \<notin> ps_timers ?st" for j
    using that pl_timer.IH count_names [of st i]
    by (auto simp: emit_count_def Let_def online_count_def players_inv_def counts_ok_def)
  ultimately show ?case using quiet_step [OF pl_timer.IH] pl_timer.IH by (simp add: players_inv_def matchers_ok_def)
next
  case (pl_action st now i found online read body answer)
  show ?case
    by (rule quiet_step [OF pl_action.IH run_player_action_memory(1,2)])
      (use pl_action.IH in \<open>auto simp: players_inv_def counts_ok_def matchers_ok_def online_count_def\<close>)
next
  case (pl_after st i)
  then show ?case
    by (intro quiet_step [OF pl_after.IH]) (auto simp: after_action_def schedule_emit_def players_inv_def counts_ok_def matchers_ok_def online_count_def)
next
  case (pl_refresh st i found online answer)
  let ?st = "fst (refresh_players i found online answer st)"
  have memory: "ps_rows ?st = ps_rows st" "ps_next_id ?st = ps_next_id st" "ps_counts ?st = ps_counts st"
    "ps_matchers ?st = (ps_matchers st)(i := None)" "ps_timers st \<subseteq> ps_timers ?st"
    by (auto simp: refresh_players_def Let_def schedule_emit_def split: option.splits sum.splits)
  show ?case
    by (rule quiet_step [OF pl_refresh.IH memory(1,2)])
      (use pl_refresh.IH memory(3-5) in \<open>auto simp: players_inv_def counts_ok_def matchers_ok_def online_count_def subset_iff\<close>)
next
  case (pl_delete st i)
  let ?st = "delete_instance_players i st"
  have ok: "players_ok ?st" by (rule kept_rows [OF pl_delete.IH]) (simp_all add: delete_instance_players_def forget_def)
  have names: "online_names j ?st = (if j = i then {} else online_names j st)" for j
    by (auto simp: online_names_def online_keys_def delete_instance_players_def forget_def row_key_def)
  have "counts_ok ?st" "matchers_ok ?st"
    using pl_delete.IH unfolding counts_ok_def matchers_ok_def names
    by (auto simp: players_inv_def counts_ok_def matchers_ok_def online_count_def delete_instance_players_def forget_def)
  with ok show ?case by (simp add: players_inv_def)
next
  case (pl_purge st now)
  let ?st = "fst (purge_old_players now st)"
  have ok: "players_ok ?st" by (rule kept_rows [OF pl_purge.IH]) (auto simp: purge_old_players_def Let_def)
  have names: "online_names j ?st = online_names j st" for j
    by (auto simp: online_names_def online_keys_def purge_old_players_def Let_def intro!: rev_image_eqI)
  have "counts_ok ?st" "matchers_ok ?st"
    using pl_purge.IH unfolding counts_ok_def matchers_ok_def names
    by (auto simp: players_inv_def counts_ok_def matchers_ok_def online_count_def purge_old_players_def Let_def)
  with ok show ?case by (simp add: players_inv_def)
qed

section \<open>Properties\<close>

text \<open>C19. In every run, rows are unique per name without case, a row is online exactly while it has a session's
  start, and the count browsers were last told is the number online unless a recount is due. The lines of
  a message act on the names online as the events they say do, in their order, a list answer being exactly
  who is online; a status in which nobody can play empties them; other instances are left alone.\<close>

theorem online_players_tracked:
  assumes "players_reachable compile st"
  shows "distinct (map row_key (ps_rows st)) \<and> (\<forall>r\<in>set (ps_rows st). pr_online r \<longleftrightarrow> pr_joined_at r \<noteq> None)
    \<and> (i \<in> ps_timers st \<or> online_count i st = card (online_names i st))
    \<and> online_names i (on_player_console compile now i config ls st) =
        foldl (\<lambda>names e. online_after e names) (online_names i st) (events_found compile now i config ls st)
    \<and> online_names i (on_player_status now i s st) = (if nobody_online s then {} else online_names i st)
    \<and> (j \<noteq> i \<longrightarrow> online_names j (on_player_console compile now i config ls st) = online_names j st
        \<and> online_names j (on_player_status now i s st) = online_names j st)"
  using players_reachable_inv [OF assms] on_player_console_ok [of st compile now i config ls] on_player_status_ok [of st now i s]
  by (simp add: players_inv_def players_ok_def counts_ok_def)

text \<open>A toy engine: a pattern matches the lines that start with it, and the rest is the name.\<close>

definition prefix_regex :: "string \<Rightarrow> regex option" where
  "prefix_regex p = Some (\<lambda>s. if prefix p s then Some (\<lambda>g. if g = ''name'' then Some (drop (length p) s) else None) else None)"

definition sample_players :: template_players where
  "sample_players = \<lparr>tpl_name_pattern = [], tpl_join = Some ''+'', tpl_leave = Some ''-'', tpl_identify = None, tpl_refresh = None,
     tpl_list = None, tpl_actions = []\<rparr>"

definition no_players :: players where
  "no_players = \<lparr>ps_rows = [], ps_next_id = 1, ps_pending_ids = [], ps_counts = Map.empty, ps_timers = {},
     ps_matchers = Map.empty, ps_lists = Map.empty\<rparr>"

lemma online_players_tracked_witness:
  "online_names 1 (on_player_console prefix_regex 0 1 (Some sample_players) [''+Steve'', ''hello'', ''+Alex'', ''-steve'']
     (load_online_counts no_players)) = {''alex''}"
proof -
  have "players_reachable prefix_regex (load_online_counts no_players)"
    by (rule pl_start) (simp_all add: no_players_def players_ok_def)
  note tracked = online_players_tracked [OF this, of 1 0 "Some sample_players" "[''+Steve'', ''hello'', ''+Alex'', ''-steve'']"]
  have found: "events_found prefix_regex 0 1 (Some sample_players) [''+Steve'', ''hello'', ''+Alex'', ''-steve''] (load_online_counts no_players)
      = [Join_Event ''Steve'' None, Join_Event ''Alex'' None, Leave_Event ''steve'']"
    by code_simp
  have lower: "js_lower ''Steve'' = ''steve''" "js_lower ''Alex'' = ''alex''" "js_lower ''steve'' = ''steve''" by code_simp+
  have "online_names 1 (load_online_counts no_players) = {}"
    by (simp add: online_names_def online_keys_def load_online_counts_def no_players_def)
  with tracked found lower show ?thesis by auto
qed

text \<open>A matcher is compiled again after a minute even between the lines of one answer; the lines before
  that are lost, and without a \<open>count\<close> group the rest passes for the whole answer.\<close>

definition line_list :: template_players where
  "line_list = sample_players\<lparr>tpl_list := Some \<lparr>plc_command = ''list'', plc_pattern = ''total'', plc_separator = '','',
     plc_entry = None, plc_line = Some ''=''\<rparr>\<rparr>"

lemma rebuilt_matcher_forgets_lines:
  "let st = on_player_console prefix_regex 0 1 (Some line_list) [''hello''] no_players in
   events_found prefix_regex 59999 1 (Some line_list) [''=Steve'', ''=Alex'', ''total''] st
     = [List_Event [\<lparr>sp_name = ''Steve'', sp_id = None\<rparr>, \<lparr>sp_name = ''Alex'', sp_id = None\<rparr>]]
   \<and> events_found prefix_regex 60000 1 (Some line_list) [''=Alex'', ''total'']
       (on_player_console prefix_regex 59999 1 (Some line_list) [''=Steve''] st) = [List_Event [\<lparr>sp_name = ''Alex'', sp_id = None\<rparr>]]"
  by code_simp

end
