(* ===== verification/Sftp_Keys.thy ===== *)
theory Sftp_Keys
  imports Prelude "HOL-Library.Word" "HOL-Library.Log_Nat"
begin

text \<open>
  The pure helpers of SFTP sign-in (server/src/modules/sftp/keys.ts): OpenSSH public keys, SFTP names and
  usernames, generated passwords. Bytes are \<open>8 word\<close>. \<open>atob\<close> and \<open>btoa\<close>, base64, are parameters; a text
  that is not base64 decodes to nothing, as \<open>atob\<close> throws. The dots of one message, a character above the
  code units modelled, are written as three.
\<close>

section \<open>Public keys\<close>

definition ssh_key_types :: "string list" where
  "ssh_key_types = [''ssh-ed25519'', ''ecdsa-sha2-nistp256'', ''ecdsa-sha2-nistp384'', ''ecdsa-sha2-nistp521'',
     ''sk-ssh-ed25519@openssh.com'', ''sk-ecdsa-sha2-nistp256@openssh.com'', ''ssh-rsa'']"

definition min_rsa_bits :: nat where "min_rsa_bits = 2048"

record parsed_key =
  pk_type :: string
  pk_blob :: "8 word list"
  pk_comment :: string

definition be_number :: "8 word list \<Rightarrow> nat" where
  "be_number bs = foldl (\<lambda>n b. 256 * n + unat b) 0 bs"

text \<open>A length of four bytes, big endian, and that many bytes; where the next field begins.\<close>

definition read_string :: "8 word list \<Rightarrow> nat \<Rightarrow> (8 word list \<times> nat) option" where
  "read_string buf offset =
     (if offset + 4 > length buf then None
      else let len = be_number (take 4 (drop offset buf)) in
        if offset + 4 + len > length buf then None
        else Some (take len (drop (offset + 4) buf), offset + 4 + len))"

definition byte_bits :: "8 word \<Rightarrow> nat" where
  "byte_bits b = nat (bitlen (uint b))"

definition bit_length :: "8 word list \<Rightarrow> nat" where
  "bit_length mpint = (case dropWhile (\<lambda>b. b = 0) mpint of [] \<Rightarrow> 0 | b # bs \<Rightarrow> length bs * 8 + byte_bits b)"

text \<open>\<open>s.split(/\s+/)\<close>.\<close>

function split_spaces :: "string \<Rightarrow> string list" where
  "split_spaces s = (case dropWhile (\<lambda>c. \<not> is_space c) s of
     [] \<Rightarrow> [s]
   | _ # rest \<Rightarrow> takeWhile (\<lambda>c. \<not> is_space c) s # split_spaces (dropWhile is_space rest))"
  by pat_completeness auto

lemma split_rest_shorter: "dropWhile P s = c # rest \<Longrightarrow> length (dropWhile Q rest) < length s"
proof -
  assume d: "dropWhile P s = c # rest"
  have "length (dropWhile Q rest) \<le> length rest" by (rule length_dropWhile_le)
  also have "\<dots> < length (dropWhile P s)" using d by simp
  also have "\<dots> \<le> length s" by (rule length_dropWhile_le)
  finally show ?thesis .
qed

termination split_spaces
  by (relation "measure length") (auto dest: split_rest_shorter)

declare split_spaces.simps [simp del]

definition ascii_bytes :: "string \<Rightarrow> 8 word list" where
  "ascii_bytes s = map (\<lambda>c. of_nat (of_char c)) s"

text \<open>When \<open>new TextDecoder().decode(bytes)\<close> is an ASCII text: it drops a byte order mark.\<close>

definition decodes_to :: "8 word list \<Rightarrow> string \<Rightarrow> bool" where
  "decodes_to bytes s \<longleftrightarrow> bytes = ascii_bytes s \<or> bytes = [0xEF, 0xBB, 0xBF] @ ascii_bytes s"

definition parse_public_key :: "(string \<Rightarrow> 8 word list option) \<Rightarrow> string \<Rightarrow> string + parsed_key" where
  "parse_public_key atob line =
     (let text = js_trim line in
      if sublist ''PRIVATE KEY'' text then Inl ''That is a private key. Paste the public one (the .pub file) instead''
      else (case split_spaces text of
        type # b64 # rest \<Rightarrow>
          if type = [] \<or> b64 = [] then Inl ''Paste a public key such as \"ssh-ed25519 AAAA... you@laptop\"''
          else if type \<notin> set ssh_key_types then Inl (''Unsupported key type '' @ type @ ''; use ed25519, ECDSA or RSA'')
          else (case atob b64 of
            None \<Rightarrow> Inl ''The key is not valid base64''
          | Some blob \<Rightarrow> (case read_string blob 0 of
              None \<Rightarrow> Inl ''The key data does not match its type''
            | Some (inner, next) \<Rightarrow>
                if \<not> decodes_to inner type then Inl ''The key data does not match its type''
                else if type = ''ssh-rsa'' then
                  (case Option.bind (read_string blob next) (\<lambda>(_, next). read_string blob next) of
                     None \<Rightarrow> Inl ''The key data is incomplete''
                   | Some (n, _) \<Rightarrow>
                       if bit_length n < min_rsa_bits then Inl ''RSA keys need at least 2048 bits''
                       else Inr \<lparr>pk_type = type, pk_blob = blob, pk_comment = join '' '' rest\<rparr>)
                else if read_string blob next = None then Inl ''The key data is incomplete''
                else Inr \<lparr>pk_type = type, pk_blob = blob, pk_comment = join '' '' rest\<rparr>))
      | _ \<Rightarrow> Inl ''Paste a public key such as \"ssh-ed25519 AAAA... you@laptop\"''))"

text \<open>OpenSSH's fingerprint; \<open>sha256\<close> is the digest, and trailing \<open>=\<close> are dropped.\<close>

definition fingerprint :: "(8 word list \<Rightarrow> 8 word list) \<Rightarrow> (8 word list \<Rightarrow> string) \<Rightarrow> 8 word list \<Rightarrow> string" where
  "fingerprint sha256 btoa blob = ''SHA256:'' @ rev (dropWhile (\<lambda>c. c = CHR ''='') (rev (btoa (sha256 blob))))"

definition canonical_key :: "(8 word list \<Rightarrow> string) \<Rightarrow> parsed_key \<Rightarrow> string" where
  "canonical_key btoa k = pk_type k @ '' '' @ btoa (pk_blob k)"

section \<open>Names\<close>

definition sftp_char :: "char \<Rightarrow> bool" where
  "sftp_char c \<longleftrightarrow> is_lower c \<or> is_digit c \<or> c = CHR ''_'' \<or> c = CHR ''-''"

text \<open>\<open>s.replace(/[^a-z0-9_-]+/g, "-")\<close>.\<close>

fun dash_others :: "bool \<Rightarrow> string \<Rightarrow> string" where
  "dash_others in_run [] = []"
| "dash_others in_run (c # s) =
     (if sftp_char c then c # dash_others False s
      else if in_run then dash_others True s else CHR ''-'' # dash_others True s)"

definition trim_dashes :: "string \<Rightarrow> string" where
  "trim_dashes s = rev (dropWhile (\<lambda>c. c = CHR ''-'') (rev (dropWhile (\<lambda>c. c = CHR ''-'') s)))"

definition sftp_name_base :: "string \<Rightarrow> string" where
  "sftp_name_base email =
     (let local = take 32 (trim_dashes (dash_others False (js_lower (hd (split_on CHR ''@'' email))))) in
      if local = [] then ''user'' else local)"

definition short_id :: "string \<Rightarrow> string" where
  "short_id uuid = take 8 uuid"

definition is_hex :: "char \<Rightarrow> bool" where
  "is_hex c \<longleftrightarrow> is_digit c \<or> (97 :: nat) \<le> of_char c \<and> of_char c \<le> (102 :: nat)"

text \<open>\<open>^([a-z0-9_-]{1,40})\.([0-9a-f]{8})$\<close>: a dot is in neither class, so there is one way to match.\<close>

definition parse_sftp_username :: "string \<Rightarrow> (string \<times> string) option" where
  "parse_sftp_username username =
     (let s = js_lower (js_trim username); name = takeWhile sftp_char s in
      case dropWhile sftp_char s of
        [] \<Rightarrow> None
      | c # short \<Rightarrow>
          if c = CHR ''.'' \<and> 1 \<le> length name \<and> length name \<le> 40 \<and> length short = 8 \<and> list_all is_hex short
          then Some (name, short) else None)"

section \<open>Passwords\<close>

definition password_alphabet :: string where
  "password_alphabet = ''abcdefghjkmnpqrstuvwxyzABCDEFGHJKLMNPQRSTUVWXYZ23456789''"

text \<open>One random byte: the character it gives, unless it is drawn again.\<close>

definition password_char :: "8 word \<Rightarrow> char option" where
  "password_char b =
     (if unat b < 256 - 256 mod length password_alphabet
      then Some (password_alphabet ! (unat b mod length password_alphabet)) else None)"

text \<open>The loop over the bytes drawn; nothing when they do not last.\<close>

fun generate_password :: "nat \<Rightarrow> 8 word list \<Rightarrow> string option" where
  "generate_password 0 bytes = Some []"
| "generate_password (Suc n) [] = None"
| "generate_password (Suc n) (b # bytes) = (case password_char b of
     None \<Rightarrow> generate_password (Suc n) bytes
   | Some c \<Rightarrow> map_option (Cons c) (generate_password n bytes))"

section \<open>Names parse back\<close>

lemma sftp_char_plain: "sftp_char c \<Longrightarrow> lower_char c = c \<and> \<not> is_space c \<and> c \<noteq> CHR ''.''"
  by (auto simp: sftp_char_def lower_char_def Let_def char_class_defs)

lemma is_hex_plain: "is_hex c \<Longrightarrow> lower_char c = c \<and> \<not> is_space c"
  by (auto simp: is_hex_def lower_char_def Let_def char_class_defs)

lemma js_lower_id: "list_all (\<lambda>c. lower_char c = c) s \<Longrightarrow> js_lower s = s"
  by (simp add: js_lower_def list_all_iff map_idI)

lemma dropWhile_id: "s = [] \<or> \<not> P (hd s) \<Longrightarrow> dropWhile P s = s"
  by (cases s) auto

lemma js_trim_plain: "list_all (\<lambda>c. \<not> is_space c) s \<Longrightarrow> js_trim s = s"
proof -
  assume s: "list_all (\<lambda>c. \<not> is_space c) s"
  have "dropWhile is_space t = t" if "list_all (\<lambda>c. \<not> is_space c) t" for t
    using that by (cases t) auto
  from this [of s] this [of "rev s"] s show ?thesis by (simp add: js_trim_def list_all_iff)
qed

lemma parse_username:
  assumes "list_all sftp_char name" and "name \<noteq> []" and "length name \<le> 40" and "list_all is_hex short" and "length short = 8"
  shows "parse_sftp_username (name @ ''.'' @ short) = Some (name, short)"
proof -
  let ?u = "name @ ''.'' @ short"
  have "list_all (\<lambda>c. lower_char c = c \<and> \<not> is_space c) ?u"
    using assms(1,4) sftp_char_plain is_hex_plain by (auto simp: list_all_iff lower_char_def char_class_defs)
  then have "js_lower (js_trim ?u) = ?u" by (simp add: js_trim_plain js_lower_id list_all_iff)
  moreover have "takeWhile sftp_char ?u = name" "dropWhile sftp_char ?u = CHR ''.'' # short"
    using assms(1) by (auto simp: list_all_iff sftp_char_def char_class_defs)
  ultimately show ?thesis
    using assms(2-5) by (simp add: parse_sftp_username_def Let_def Suc_le_eq)
qed

lemma dash_others_chars: "list_all sftp_char (dash_others in_run s)"
  by (induction in_run s rule: dash_others.induct) (auto simp: sftp_char_def)

lemma sftp_name_base_chars:
  "list_all sftp_char (sftp_name_base email)" "sftp_name_base email \<noteq> []" "length (sftp_name_base email) \<le> 32"
proof -
  let ?local = "take 32 (trim_dashes (dash_others False (js_lower (hd (split_on CHR ''@'' email)))))"
  have "set (trim_dashes t) \<subseteq> set t" for t by (auto simp: trim_dashes_def dest!: set_dropWhileD)
  then have "list_all sftp_char ?local"
    using dash_others_chars [of False] by (fastforce simp: list_all_iff dest: in_set_takeD)
  moreover have "list_all sftp_char ''user''" by code_simp
  ultimately show "list_all sftp_char (sftp_name_base email)" by (simp add: sftp_name_base_def Let_def)
  show "sftp_name_base email \<noteq> []" "length (sftp_name_base email) \<le> 32" by (auto simp: sftp_name_base_def Let_def)
qed

text \<open>Surrounding white space and case do not matter to the username, but to the limiter's key they do.\<close>

lemma js_trim_spaces: "js_trim (replicate k (CHR '' '') @ s) = js_trim s"
  by (induction k) (simp_all add: js_trim_def is_space_def)

lemma parse_padded_username: "parse_sftp_username (replicate k (CHR '' '') @ s) = parse_sftp_username s"
  by (simp add: parse_sftp_username_def js_trim_spaces)

section \<open>Keys parse back\<close>

lemma split_spaces_one: "list_all (\<lambda>c. \<not> is_space c) s \<Longrightarrow> split_spaces s = [s]"
  by (subst split_spaces.simps) (simp add: dropWhile_eq_Nil_conv [THEN iffD2] list_all_iff)

lemma split_spaces_two:
  assumes "list_all (\<lambda>c. \<not> is_space c) a" and "list_all (\<lambda>c. \<not> is_space c) b" and "b \<noteq> []"
  shows "split_spaces (a @ '' '' @ b) = [a, b]"
proof -
  have d: "dropWhile (\<lambda>c. \<not> is_space c) (a @ '' '' @ b) = CHR '' '' # b" "takeWhile (\<lambda>c. \<not> is_space c) (a @ '' '' @ b) = a"
    using assms(1) by (simp_all add: list_all_iff is_space_def)
  have "dropWhile is_space b = b" using assms(2,3) by (cases b) auto
  with d show ?thesis by (subst split_spaces.simps) (simp add: split_spaces_one [OF assms(2)])
qed

lemma ssh_key_type_chars:
  assumes "type \<in> set ssh_key_types"
  shows "list_all (\<lambda>c. \<not> is_space c) type" and "type \<noteq> []" and "CHR ''E'' \<notin> set type"
proof -
  have "list_all (\<lambda>t. list_all (\<lambda>c. \<not> is_space c) t \<and> t \<noteq> [] \<and> \<not> list_ex (\<lambda>c. c = CHR ''E'') t) ssh_key_types" by code_simp
  with assms show "list_all (\<lambda>c. \<not> is_space c) type" "type \<noteq> []" "CHR ''E'' \<notin> set type"
    by (auto simp: list_all_iff list_ex_iff)
qed

lemma not_private:
  assumes "type \<in> set ssh_key_types" and "list_all (\<lambda>c. \<not> is_space c) b"
  shows "\<not> sublist ''PRIVATE KEY'' (type @ '' '' @ b)"
proof
  assume "sublist ''PRIVATE KEY'' (type @ '' '' @ b)"
  then obtain us vs where "type @ '' '' @ b = us @ ''PRIVATE KEY'' @ vs" by (auto simp: sublist_def)
  then have eq: "type @ CHR '' '' # b = (us @ ''PRIVATE'') @ CHR '' '' # (''KEY'' @ vs)" by simp
  have "CHR '' '' \<notin> set type" "CHR '' '' \<notin> set b"
    using ssh_key_type_chars(1) [OF assms(1)] assms(2) by (auto simp: list_all_iff is_space_def)
  from append_Cons_eq_iff [OF this, THEN iffD1, OF eq] have "type = us @ ''PRIVATE''" ..
  with ssh_key_type_chars(3) [OF assms(1)] show False by simp
qed

lemma parse_public_keyD:
  assumes "parse_public_key atob line = Inr k"
  shows "pk_type k \<in> set ssh_key_types" and "\<exists>inner next. read_string (pk_blob k) 0 = Some (inner, next) \<and> decodes_to inner (pk_type k)"
    and "pk_type k = ''ssh-rsa'' \<Longrightarrow> \<exists>e n a b. (\<exists>inner next. read_string (pk_blob k) 0 = Some (inner, next) \<and> read_string (pk_blob k) next = Some (e, a))
      \<and> read_string (pk_blob k) a = Some (n, b) \<and> min_rsa_bits \<le> bit_length n"
    and "\<And>line'. sublist ''PRIVATE KEY'' (js_trim line') = False \<Longrightarrow> split_spaces (js_trim line') = pk_type k # b64 # rest \<Longrightarrow> b64 \<noteq> [] \<Longrightarrow>
      atob b64 = Some (pk_blob k) \<Longrightarrow> parse_public_key atob line' = Inr (k\<lparr>pk_comment := join '' '' rest\<rparr>)"
  using assms ssh_key_type_chars(2)
  by (auto simp: parse_public_key_def Let_def bind_eq_Some_conv split: if_splits list.splits option.splits prod.splits)

text \<open>A key that is accepted has a supported type, its data says that type, and an RSA key has at least 2048
  bits. The form it is stored in is accepted again as the same key without its comment, so the key an
  agent presents later has the stored fingerprint.\<close>

theorem stored_keys_parse_back:
  assumes "parse_public_key atob line = Inr k" and "atob (btoa (pk_blob k)) = Some (pk_blob k)"
    and "btoa (pk_blob k) \<noteq> []" and "list_all (\<lambda>c. \<not> is_space c) (btoa (pk_blob k))"
  shows "parse_public_key atob (canonical_key btoa k) = Inr (k\<lparr>pk_comment := []\<rparr>)
    \<and> pk_type k \<in> set ssh_key_types
    \<and> (\<exists>inner next. read_string (pk_blob k) 0 = Some (inner, next) \<and> decodes_to inner (pk_type k)
        \<and> (pk_type k = ''ssh-rsa'' \<longrightarrow> (\<exists>e n a b. read_string (pk_blob k) next = Some (e, a)
            \<and> read_string (pk_blob k) a = Some (n, b) \<and> 2048 \<le> bit_length n)))"
proof -
  note D = parse_public_keyD [OF assms(1)]
  note chars = ssh_key_type_chars [OF D(1)]
  let ?text = "canonical_key btoa k"
  have "js_trim ?text = ?text"
  proof -
    have "dropWhile is_space ?text = ?text" using chars by (cases "pk_type k") (auto simp: canonical_key_def)
    moreover have "dropWhile is_space (rev ?text) = rev ?text"
      using assms(3,4) by (cases "btoa (pk_blob k)" rule: rev_cases) (auto simp: canonical_key_def)
    ultimately show ?thesis by (simp add: js_trim_def)
  qed
  moreover have "split_spaces ?text = [pk_type k, btoa (pk_blob k)]"
    unfolding canonical_key_def by (rule split_spaces_two [OF chars(1) assms(4,3)])
  moreover have "\<not> sublist ''PRIVATE KEY'' ?text" unfolding canonical_key_def by (rule not_private [OF D(1) assms(4)])
  ultimately have "parse_public_key atob ?text = Inr (k\<lparr>pk_comment := join '' '' []\<rparr>)"
    using D(4) [of ?text "btoa (pk_blob k)" "[]"] assms(2,3) by simp
  with D(1-3) show ?thesis by (fastforce simp: min_rsa_bits_def)
qed

definition sample_blob :: "8 word list" where
  "sample_blob = [0, 0, 0, 11] @ ascii_bytes ''ssh-ed25519'' @ [0, 0, 0, 2, 7, 8]"

definition sample_atob :: "string \<Rightarrow> 8 word list option" where
  "sample_atob s = (if s = ''AAAAC3Nz'' then Some sample_blob else None)"

lemma stored_keys_parse_back_witness:
  "parse_public_key sample_atob (canonical_key (\<lambda>_. ''AAAAC3Nz'')
     \<lparr>pk_type = ''ssh-ed25519'', pk_blob = sample_blob, pk_comment = ''me@home''\<rparr>)
   = Inr \<lparr>pk_type = ''ssh-ed25519'', pk_blob = sample_blob, pk_comment = []\<rparr>"
proof -
  have "parse_public_key sample_atob '' ssh-ed25519  AAAAC3Nz me@home ''
      = Inr \<lparr>pk_type = ''ssh-ed25519'', pk_blob = sample_blob, pk_comment = ''me@home''\<rparr>" by code_simp
  from stored_keys_parse_back [OF this, of "\<lambda>_. ''AAAAC3Nz''"] show ?thesis
    by (simp add: sample_atob_def is_space_def)
qed

section \<open>Passwords are uniform\<close>

text \<open>A password is the first characters of the bytes that are not drawn again.\<close>

lemma generate_password_eq:
  "generate_password n bytes = (let cs = List.map_filter password_char bytes in if n \<le> length cs then Some (take n cs) else None)"
proof (induction n bytes rule: generate_password.induct)
  case (3 n b bytes)
  then show ?case by (auto simp: Let_def List.map_filter_simps split: option.splits)
qed (simp_all add: List.map_filter_simps)

definition all_bytes :: "8 word list" where
  "all_bytes = map of_nat [0..<256]"

lemma all_bytes: "set all_bytes = UNIV" "distinct all_bytes"
proof -
  have "b \<in> of_nat ` {0..<256}" for b :: "8 word"
    using unsigned_less [of b] by (intro image_eqI [of _ _ "unat b"]) auto
  then show "set all_bytes = UNIV" by (auto simp: all_bytes_def)
  have "map unat all_bytes = [0..<256]" by (auto simp: all_bytes_def unat_of_nat intro!: map_idI)
  then have "distinct (map unat all_bytes)" by simp
  then show "distinct all_bytes" by (simp add: distinct_map)
qed

lemma password_alphabet_distinct: "distinct password_alphabet"
  by code_simp

lemma password_table: "map password_char all_bytes =
    map Some (password_alphabet @ password_alphabet @ password_alphabet @ password_alphabet) @ replicate 36 None"
  by code_simp

lemma filter_once: "distinct xs \<Longrightarrow> c \<in> set xs \<Longrightarrow> length (filter (\<lambda>x. x = c) xs) = 1"
  by (induction xs) (auto simp: filter_empty_conv)

text \<open>Every character is given by four of the bytes.\<close>

lemma password_char_uniform:
  assumes "c \<in> set password_alphabet"
  shows "card {b. password_char b = Some c} = 4"
proof -
  have "{b. password_char b = Some c} = set (filter (\<lambda>b. password_char b = Some c) all_bytes)"
    using all_bytes(1) by auto
  then have "card {b. password_char b = Some c} = length (filter (\<lambda>b. password_char b = Some c) all_bytes)"
    using distinct_card [OF distinct_filter [OF all_bytes(2)]] by simp
  also have "\<dots> = length (filter (\<lambda>x. x = Some c) (map password_char all_bytes))"
    by (simp add: filter_map comp_def)
  also have "\<dots> = 4"
    unfolding password_table using filter_once [OF password_alphabet_distinct assms] by (simp add: filter_map comp_def)
  finally show ?thesis .
qed

end
