(* ===== verification/Sftp.thy ===== *)
theory Sftp
  imports Access Rate_Limit Sftp_Keys
begin

text \<open>
  SFTP access (server/src/modules/sftp/service.ts): names, passwords, keys, the answer to an agent's
  \<open>sftp.auth\<close>, and closing the sessions that access no longer allows. The state is the store of \<open>Access\<close>
  with the SFTP columns and tables, and the two limiters of failed sign-ins. Password hashing and SHA-256
  are parameters, as is base64. A sign-in has two parts, the look at the limiters and the rest, because
  others may come between.
\<close>

section \<open>State\<close>

record sftp_password =
  sw_instance_id :: nat
  sw_user_id :: nat
  sw_password_hash :: string
  sw_created_at :: int
  sw_last_used_at :: "int option"

record ssh_key =
  sk_id :: nat
  sk_user_id :: nat
  sk_name :: string
  sk_public_key :: string
  sk_fingerprint :: string
  sk_created_at :: int
  sk_last_used_at :: "int option"

record sftp =
  sf_store :: store
  sf_names :: "nat \<rightharpoonup> string"
  sf_passwords :: "sftp_password list"
  sf_keys :: "ssh_key list"
  sf_next_id :: nat
  sf_by_address :: limiter
  sf_by_name :: limiter

record key_codec =
  kc_atob :: "string \<Rightarrow> 8 word list option"
  kc_btoa :: "8 word list \<Rightarrow> string"
  kc_sha256 :: "8 word list \<Rightarrow> 8 word list"

section \<open>Names\<close>

definition name_candidate :: "string \<Rightarrow> int \<Rightarrow> string" where
  "name_candidate base n = (if n = 1 then base else take 34 base @ ''-'' @ string_of_int n)"

definition name_candidates :: "string \<Rightarrow> string list" where
  "name_candidates base = map (\<lambda>n. name_candidate base (int n)) [1..<1000]"

text \<open>\<open>ensureSftpName\<close>; taken names are skipped, by the count or by the unique index.\<close>

definition ensure_sftp_name :: "user_row \<Rightarrow> sftp \<Rightarrow> sftp \<times> string result" where
  "ensure_sftp_name u st = (case truthy (sf_names st (u_id u)) of
     Some name \<Rightarrow> (st, Inr name)
   | None \<Rightarrow>
       (case find (\<lambda>name. \<not> list_ex (\<lambda>v. sf_names st (u_id v) = Some name) (s_users (sf_store st)))
               (name_candidates (sftp_name_base (u_email u))) of
          None \<Rightarrow> (st, Inl (conflict ''Could not pick an SFTP name''))
        | Some name \<Rightarrow> (st\<lparr>sf_names := (sf_names st)(u_id u \<mapsto> name)\<rparr>, Inr name)))"

definition sftp_username :: "string \<Rightarrow> instance_row \<Rightarrow> string" where
  "sftp_username name i = name @ ''.'' @ short_id (i_uuid i)"

section \<open>Passwords and keys\<close>

definition find_password :: "nat \<Rightarrow> nat \<Rightarrow> sftp \<Rightarrow> sftp_password option" where
  "find_password iid who st = find (\<lambda>w. sw_instance_id w = iid \<and> sw_user_id w = who) (sf_passwords st)"

definition password_credential :: "sftp_password \<Rightarrow> string" where
  "password_credential w = ''password:'' @ string_of_int (sw_created_at w)"

definition key_credential :: "ssh_key \<Rightarrow> string" where
  "key_credential k = ''key:'' @ string_of_int (int (sk_id k))"

definition without_password :: "nat \<Rightarrow> nat \<Rightarrow> sftp \<Rightarrow> sftp" where
  "without_password iid who st =
     st\<lparr>sf_passwords := filter (\<lambda>w. \<not> (sw_instance_id w = iid \<and> sw_user_id w = who)) (sf_passwords st)\<rparr>"

definition reset_sftp_password :: "int \<Rightarrow> string \<Rightarrow> nat \<Rightarrow> nat \<Rightarrow> sftp \<Rightarrow> sftp" where
  "reset_sftp_password now hash iid who st =
     (without_password iid who st)\<lparr>sf_passwords := sf_passwords (without_password iid who st) @
       [\<lparr>sw_instance_id = iid, sw_user_id = who, sw_password_hash = hash, sw_created_at = now, sw_last_used_at = None\<rparr>]\<rparr>"

definition remove_sftp_password :: "nat \<Rightarrow> nat \<Rightarrow> sftp \<Rightarrow> sftp \<times> unit result" where
  "remove_sftp_password iid who st =
     (if find_password iid who st = None then (st, Inl (not_found ''SFTP password''))
      else (without_password iid who st, Inr ()))"

definition list_keys :: "nat \<Rightarrow> sftp \<Rightarrow> ssh_key list" where
  "list_keys who st = sort_key sk_created_at (filter (\<lambda>k. sk_user_id k = who) (sf_keys st))"

definition key_fingerprint :: "key_codec \<Rightarrow> parsed_key \<Rightarrow> string" where
  "key_fingerprint kc k = fingerprint (kc_sha256 kc) (kc_btoa kc) (pk_blob k)"

definition add_key :: "key_codec \<Rightarrow> int \<Rightarrow> nat \<Rightarrow> string \<Rightarrow> string \<Rightarrow> sftp \<Rightarrow> sftp \<times> ssh_key result" where
  "add_key kc now who name public st = (case parse_public_key (kc_atob kc) public of
     Inl m \<Rightarrow> (st, Inl (bad_request m))
   | Inr parsed \<Rightarrow>
       if list_ex (\<lambda>k. sk_user_id k = who \<and> sk_fingerprint k = key_fingerprint kc parsed) (sf_keys st)
       then (st, Inl (conflict ''You added this key already''))
       else (let key = \<lparr>sk_id = sf_next_id st, sk_user_id = who, sk_name = name, sk_public_key = canonical_key (kc_btoa kc) parsed,
                 sk_fingerprint = key_fingerprint kc parsed, sk_created_at = now, sk_last_used_at = None\<rparr> in
         (st\<lparr>sf_keys := sf_keys st @ [key], sf_next_id := sf_next_id st + 1\<rparr>, Inr key)))"

definition remove_key :: "nat \<Rightarrow> nat \<Rightarrow> sftp \<Rightarrow> sftp \<times> ssh_key result" where
  "remove_key who kid st = (case find (\<lambda>k. sk_id k = kid \<and> sk_user_id k = who) (sf_keys st) of
     None \<Rightarrow> (st, Inl (not_found ''SSH key''))
   | Some key \<Rightarrow> (st\<lparr>sf_keys := filter (\<lambda>k. sk_id k \<noteq> kid) (sf_keys st)\<rparr>, Inr key))"

section \<open>Signing in\<close>

datatype sftp_method = Password_Method | Publickey_Method

record sftp_auth_params =
  ap_username :: string
  ap_method :: sftp_method
  ap_password :: "string option"
  ap_public_key :: "string option"
  ap_remote_address :: string

datatype sftp_auth_result = Denied | Allowed nat string string

definition failure_window :: int where "failure_window = 600000"
definition failure_max :: nat where "failure_max = 20"

definition address_key :: "sftp_auth_params \<Rightarrow> string" where
  "address_key p = (if ap_remote_address p = [] then ''unknown'' else ap_remote_address p)"

definition name_key :: "nat \<Rightarrow> sftp_auth_params \<Rightarrow> string" where
  "name_key nid p = string_of_int (int nid) @ '':'' @ js_lower (ap_username p)"

definition sign_in_limited :: "int \<Rightarrow> nat \<Rightarrow> sftp_auth_params \<Rightarrow> sftp \<Rightarrow> bool" where
  "sign_in_limited now nid p st \<longleftrightarrow>
     retry_after failure_max (sf_by_address st) now (address_key p) > 0
     \<or> retry_after failure_max (sf_by_name st) now (name_key nid p) > 0"

definition fail_sign_in :: "int \<Rightarrow> nat \<Rightarrow> sftp_auth_params \<Rightarrow> sftp \<Rightarrow> sftp" where
  "fail_sign_in now nid p st =
     (if ap_method p = Password_Method
      then st\<lparr>sf_by_address := fst (check failure_window failure_max (sf_by_address st) now (address_key p)),
             sf_by_name := fst (check failure_window failure_max (sf_by_name st) now (name_key nid p))\<rparr>
      else st)"

text \<open>The user and the instance a username names on a node, if the user may manage its files.\<close>

definition sign_in_target :: "nat \<Rightarrow> string \<Rightarrow> sftp \<Rightarrow> (user_row \<times> instance_row) option" where
  "sign_in_target nid username st = (case parse_sftp_username username of
     None \<Rightarrow> None
   | Some (name, short) \<Rightarrow>
       (case find (\<lambda>u. sf_names st (u_id u) = Some name \<and> \<not> u_disabled u) (s_users (sf_store st)) of
          None \<Rightarrow> None
        | Some u \<Rightarrow>
            (case filter (\<lambda>i. i_node_id i = nid \<and> prefix short (i_uuid i)) (s_instances (sf_store st)) of
               [i] \<Rightarrow> if role_allows (role_on (sf_store st) u (i_id i)) Files then Some (u, i) else None
             | _ \<Rightarrow> None)))"

definition touch_password :: "int \<Rightarrow> nat \<Rightarrow> nat \<Rightarrow> sftp \<Rightarrow> sftp" where
  "touch_password now iid who st = st\<lparr>sf_passwords := map (\<lambda>w. if sw_instance_id w = iid \<and> sw_user_id w = who
     then w\<lparr>sw_last_used_at := Some now\<rparr> else w) (sf_passwords st)\<rparr>"

definition touch_key :: "int \<Rightarrow> nat \<Rightarrow> sftp \<Rightarrow> sftp" where
  "touch_key now kid st = st\<lparr>sf_keys := map (\<lambda>k. if sk_id k = kid then k\<lparr>sk_last_used_at := Some now\<rparr> else k) (sf_keys st)\<rparr>"

text \<open>\<open>sftp_authenticate\<close> past the limiters.\<close>

definition sftp_authenticate_end :: "(string \<Rightarrow> string \<Rightarrow> bool) \<Rightarrow> key_codec \<Rightarrow> int \<Rightarrow> nat \<Rightarrow> sftp_auth_params \<Rightarrow> sftp \<Rightarrow> sftp \<times> sftp_auth_result" where
  "sftp_authenticate_end verify kc now nid p st = (case sign_in_target nid (ap_username p) st of
     None \<Rightarrow> (fail_sign_in now nid p st, Denied)
   | Some (u, i) \<Rightarrow>
       (case ap_method p of
          Password_Method \<Rightarrow>
            (case (find_password (i_id i) (u_id u) st, truthy (ap_password p)) of
               (Some row, Some given) \<Rightarrow>
                 if verify given (sw_password_hash row)
                 then (touch_password now (i_id i) (u_id u) st, Allowed (u_id u) (i_uuid i) (password_credential row))
                 else (fail_sign_in now nid p st, Denied)
             | _ \<Rightarrow> (fail_sign_in now nid p st, Denied))
        | Publickey_Method \<Rightarrow>
            (case map_option (parse_public_key (kc_atob kc)) (truthy (ap_public_key p)) of
               Some (Inr key) \<Rightarrow>
                 (case find (\<lambda>k. sk_user_id k = u_id u \<and> sk_fingerprint k = key_fingerprint kc key) (sf_keys st) of
                    None \<Rightarrow> (st, Denied)
                  | Some row \<Rightarrow> (touch_key now (sk_id row) st, Allowed (u_id u) (i_uuid i) (key_credential row)))
             | _ \<Rightarrow> (st, Denied))))"

definition sftp_authenticate :: "(string \<Rightarrow> string \<Rightarrow> bool) \<Rightarrow> key_codec \<Rightarrow> int \<Rightarrow> nat \<Rightarrow> sftp_auth_params \<Rightarrow> sftp \<Rightarrow> sftp \<times> sftp_auth_result" where
  "sftp_authenticate verify kc now nid p st =
     (if sign_in_limited now nid p st then (st, Denied) else sftp_authenticate_end verify kc now nid p st)"

section \<open>Open sessions\<close>

record sftp_session =
  ss_id :: string
  ss_user_id :: nat
  ss_uuid :: string
  ss_credential :: string

definition session_allowed :: "nat \<Rightarrow> sftp_session \<Rightarrow> sftp \<Rightarrow> bool" where
  "session_allowed nid s st = (case find_user (sf_store st) (ss_user_id s) of
     None \<Rightarrow> False
   | Some u \<Rightarrow> \<not> u_disabled u \<and>
       (case find (\<lambda>i. i_uuid i = ss_uuid s \<and> i_node_id i = nid) (s_instances (sf_store st)) of
          None \<Rightarrow> False
        | Some i \<Rightarrow> role_allows (role_on (sf_store st) u (i_id i)) Files \<and>
            (if prefix ''key:'' (ss_credential s)
             then (case js_number_of (drop 4 (ss_credential s)) of
                 Finite q \<Rightarrow> q \<in> \<int> \<and> list_ex (\<lambda>k. of_nat (sk_id k) = q \<and> sk_user_id k = u_id u) (sf_keys st)
               | _ \<Rightarrow> False)
             else (case find_password (i_id i) (u_id u) st of
                 None \<Rightarrow> False
               | Some row \<Rightarrow> password_credential row = ss_credential s))))"

text \<open>\<open>recheckSessions\<close>: what each connected node is asked to close. \<open>answers\<close> is what a node answers to the
  question for the users' sessions, nothing when the request fails.\<close>

definition recheck_sessions :: "nat list \<Rightarrow> nat list \<Rightarrow> (nat \<Rightarrow> sftp_session list option) \<Rightarrow> sftp \<Rightarrow> (nat \<times> string list) list" where
  "recheck_sessions users online answers st =
     (if users = [] then []
      else filter (\<lambda>(_, ids). ids \<noteq> [])
        (map (\<lambda>nid. (nid, case answers nid of None \<Rightarrow> []
            | Some sessions \<Rightarrow> map ss_id (filter (\<lambda>s. \<not> session_allowed nid s st) sessions))) online))"

text \<open>The protocol's \<open>sftp.sessions\<close> for some users and \<open>sftp.disconnect\<close>, on the sessions a node has open.\<close>

definition sessions_of :: "nat list \<Rightarrow> sftp_session list \<Rightarrow> sftp_session list" where
  "sessions_of users sessions = filter (\<lambda>s. ss_user_id s \<in> set users) sessions"

definition disconnect_sessions :: "(nat \<times> string list) list \<Rightarrow> (nat \<Rightarrow> sftp_session list) \<Rightarrow> nat \<Rightarrow> sftp_session list" where
  "disconnect_sessions requests sessions nid =
     filter (\<lambda>s. \<not> list_ex (\<lambda>(n, ids). n = nid \<and> ss_id s \<in> set ids) requests) (sessions nid)"

section \<open>Names sign in\<close>

definition names_ok :: "sftp \<Rightarrow> bool" where
  "names_ok st \<longleftrightarrow> keys_unique (sf_store st)
     \<and> (\<forall>u\<in>set (s_users (sf_store st)). \<forall>name. sf_names st (u_id u) = Some name \<longrightarrow>
          list_all sftp_char name \<and> name \<noteq> [] \<and> length name \<le> 40
          \<and> (\<forall>v\<in>set (s_users (sf_store st)). sf_names st (u_id v) = Some name \<longrightarrow> v = u))"

lemma nat_digits_length: "n < 1000 \<Longrightarrow> length (digits_of n) \<le> 3"
  by (simp add: digits_of.simps [of n] digits_of.simps [of "n div 10"] digits_of.simps [of "n div 100"] div_mult2_eq [symmetric])

lemma name_candidate_ok:
  assumes "list_all sftp_char base" and "base \<noteq> []" and "length base \<le> 32" and "0 < n" and "n < 1000"
  shows "list_all sftp_char (name_candidate base (int n)) \<and> name_candidate base (int n) \<noteq> [] \<and> length (name_candidate base (int n)) \<le> 40"
proof -
  have "list_all sftp_char (digits_of n)" using digits_of_digits [of n] by (auto simp: list_all_iff sftp_char_def)
  moreover have "list_all sftp_char (take 34 base)" using assms(1) by (auto simp: list_all_iff dest: in_set_takeD)
  ultimately show ?thesis
    using assms nat_digits_length [of n] by (auto simp: name_candidate_def string_of_int_def sftp_char_def min_def)
qed

lemma name_candidatesD: "name \<in> set (name_candidates base) \<Longrightarrow> \<exists>n. 0 < n \<and> n < 1000 \<and> name = name_candidate base (int n)"
  unfolding name_candidates_def set_map set_upt by (auto simp: Suc_le_eq)

lemma filter_single:
  "distinct xs \<Longrightarrow> x \<in> set xs \<Longrightarrow> P x \<Longrightarrow> \<forall>y\<in>set xs. P y \<longrightarrow> y = x \<Longrightarrow> filter P xs = [x]"
proof (induction xs)
  case (Cons a xs)
  show ?case
  proof (cases "a = x")
    case True
    with Cons.prems(1,4) have "filter P xs = []" unfolding filter_empty_conv by (metis distinct.simps(2) list.set_intros(2))
    with True Cons.prems(3) show ?thesis by simp
  next
    case False
    with Cons.prems(4) have "\<not> P a" by (meson list.set_intros(1))
    moreover have "filter P xs = [x]"
    proof (rule Cons.IH)
      show "distinct xs" "x \<in> set xs" "P x" using Cons.prems(1-3) False by simp_all
      show "\<forall>y\<in>set xs. P y \<longrightarrow> y = x" using Cons.prems(4) by (metis list.set_intros(2))
    qed
    ultimately show ?thesis by simp
  qed
qed simp

lemma truthy_Some: "truthy x = Some s \<Longrightarrow> x = Some s"
  by (cases x) (auto split: if_splits)

lemma ensure_sftp_name_ok:
  assumes "names_ok st" and "u \<in> set (s_users (sf_store st))" and "ensure_sftp_name u st = (st', Inr name)"
  shows "names_ok st'" and "sf_names st' (u_id u) = Some name" and "sf_store st' = sf_store st"
    and "list_all sftp_char name \<and> name \<noteq> [] \<and> length name \<le> 40"
proof -
  have only: "v = u" if "v \<in> set (s_users (sf_store st))" "u_id v = u_id u" for v
    using assms(1,2) that by (auto simp: names_ok_def keys_unique_def distinct_map inj_on_def)
  consider (old) "sf_names st (u_id u) = Some name" "st' = st"
    | (new) n where "0 < n" "n < 1000" "name = name_candidate (sftp_name_base (u_email u)) (int n)"
        "\<not> list_ex (\<lambda>v. sf_names st (u_id v) = Some name) (s_users (sf_store st))" "st' = st\<lparr>sf_names := (sf_names st)(u_id u \<mapsto> name)\<rparr>"
  proof (cases "truthy (sf_names st (u_id u))")
    case (Some s)
    then have s: "sf_names st (u_id u) = Some s" by (rule truthy_Some)
    have "st' = st" "s = name" using assms(3) unfolding ensure_sftp_name_def Some option.case by simp_all
    with s show ?thesis by (intro that(1)) simp_all
  next
    case None
    define cand where "cand = find (\<lambda>name. \<not> list_ex (\<lambda>v. sf_names st (u_id v) = Some name) (s_users (sf_store st)))
        (name_candidates (sftp_name_base (u_email u)))"
    have "(case cand of None \<Rightarrow> (st, Inl (conflict ''Could not pick an SFTP name''))
        | Some name \<Rightarrow> (st\<lparr>sf_names := (sf_names st)(u_id u \<mapsto> name)\<rparr>, Inr name)) = (st', Inr name)"
      using assms(3) unfolding ensure_sftp_name_def None cand_def by (simp only: option.case)
    then have cand: "cand = Some name" and st': "st' = st\<lparr>sf_names := (sf_names st)(u_id u \<mapsto> name)\<rparr>"
      by (auto split: option.splits)
    note free = find_SomeD [OF cand [unfolded cand_def]]
    from name_candidatesD [OF conjunct1 [OF free]] obtain n
      where n: "0 < n" "n < 1000" "name = name_candidate (sftp_name_base (u_email u)) (int n)" by blast
    show ?thesis by (rule that(2) [OF n conjunct2 [OF free] st'])
  qed
  then have "names_ok st' \<and> sf_names st' (u_id u) = Some name \<and> sf_store st' = sf_store st
      \<and> list_all sftp_char name \<and> name \<noteq> [] \<and> length name \<le> 40"
  proof cases
    case old
    with assms(1,2) show ?thesis by (auto simp: names_ok_def)
  next
    case new
    have "list_all sftp_char name \<and> name \<noteq> [] \<and> length name \<le> 40"
      using name_candidate_ok [OF sftp_name_base_chars new(1,2), of "u_email u"] new(3) by simp
    with new(4,5) assms(1) show ?thesis by (auto simp: names_ok_def list_ex_iff) (metis only)
  qed
  then show "names_ok st'" "sf_names st' (u_id u) = Some name" "sf_store st' = sf_store st"
    "list_all sftp_char name \<and> name \<noteq> [] \<and> length name \<le> 40" by auto
qed

text \<open>C36. The username shown for an instance signs in: once a user has an SFTP name, which is theirs alone, the
  username made of it and the instance's short id parses back to the two, in any case and with white space
  around it, and names the user and the instance on its node, when the user is enabled and may manage its
  files and no other instance of the node has the same short id.\<close>

theorem shown_username_signs_in:
  assumes "names_ok st" and "u \<in> set (s_users (sf_store st))" and "ensure_sftp_name u st = (st', Inr name)"
    and "i \<in> set (s_instances (sf_store st))" and "list_all is_hex (short_id (i_uuid i))" and "8 \<le> length (i_uuid i)"
    and "\<forall>j\<in>set (s_instances (sf_store st)). i_node_id j = i_node_id i \<and> short_id (i_uuid j) = short_id (i_uuid i) \<longrightarrow> j = i"
    and "\<not> u_disabled u" and "role_allows (role_on (sf_store st) u (i_id i)) Files"
    and "js_lower (js_trim typed) = js_lower (js_trim (sftp_username name i))"
  shows "parse_sftp_username typed = Some (name, short_id (i_uuid i))
    \<and> sign_in_target (i_node_id i) typed st' = Some (u, i)
    \<and> names_ok st' \<and> ensure_sftp_name u st' = (st', Inr name)"
proof -
  note name = ensure_sftp_name_ok [OF assms(1-3)]
  have len: "length (short_id (i_uuid i)) = 8" using assms(6) by (simp add: short_id_def)
  have "parse_sftp_username (sftp_username name i) = Some (name, short_id (i_uuid i))"
    unfolding sftp_username_def using name(4) assms(5) len by (intro parse_username) auto
  then have parse: "parse_sftp_username typed = Some (name, short_id (i_uuid i))"
    using assms(10) by (simp add: parse_sftp_username_def)
  have user: "find (\<lambda>u. sf_names st' (u_id u) = Some name \<and> \<not> u_disabled u) (s_users (sf_store st')) = Some u"
  proof -
    have "\<exists>v. find (\<lambda>u. sf_names st' (u_id u) = Some name \<and> \<not> u_disabled u) (s_users (sf_store st')) = Some v"
      using assms(2,8) name(2,3) by (auto simp: find_None_iff simp flip: not_None_eq)
    then obtain v where v: "find (\<lambda>u. sf_names st' (u_id u) = Some name \<and> \<not> u_disabled u) (s_users (sf_store st')) = Some v" ..
    then have "v = u" using name(1-3) assms(2) by (auto simp: names_ok_def dest!: find_SomeD)
    with v show ?thesis by simp
  qed
  have "filter (\<lambda>j. i_node_id j = i_node_id i \<and> prefix (short_id (i_uuid i)) (i_uuid j)) (s_instances (sf_store st')) = [i]"
  proof -
    have same: "prefix (short_id (i_uuid i)) (i_uuid j) \<longleftrightarrow> short_id (i_uuid j) = short_id (i_uuid i)" for j
      using len by (metis append_eq_conv_conj prefix_def short_id_def take_is_prefix)
    have "j = i" if "j \<in> set (s_instances (sf_store st'))" "i_node_id j = i_node_id i \<and> prefix (short_id (i_uuid i)) (i_uuid j)" for j
      using assms(7) that name(3) by (auto simp: same)
    moreover have "distinct (s_instances (sf_store st'))"
      using assms(1) name(3) by (auto simp: names_ok_def keys_unique_def distinct_map)
    ultimately show ?thesis using assms(4) name(3) by (intro filter_single) (auto simp: same)
  qed
  then have "sign_in_target (i_node_id i) typed st' = Some (u, i)"
    using parse user assms(9) name(3) by (simp add: sign_in_target_def)
  moreover have "ensure_sftp_name u st' = (st', Inr name)" using name(2,4) by (simp add: ensure_sftp_name_def)
  ultimately show ?thesis using parse name(1) by blast
qed

definition sample_sftp :: sftp where
  "sample_sftp = \<lparr>sf_store = sample_store\<lparr>s_instances := [sample_instance\<lparr>i_uuid := ''0123abcd-1''\<rparr>],
       s_instance_users := [\<lparr>iu_instance_id = 1, iu_user_id = 5, iu_role = Operator, iu_granted_by = None\<rparr>]\<rparr>,
     sf_names = Map.empty, sf_passwords = [], sf_keys = [], sf_next_id = 1, sf_by_address = new_limiter 0, sf_by_name = new_limiter 0\<rparr>"

section \<open>Who gets in\<close>

text \<open>Primary keys, and ids JavaScript holds exactly.\<close>

definition sftp_ok :: "sftp \<Rightarrow> bool" where
  "sftp_ok st \<longleftrightarrow> keys_unique (sf_store st) \<and> (\<forall>k\<in>set (sf_keys st). sk_id k < 2 ^ 53)"

lemma sign_in_targetD:
  assumes "sign_in_target nid username st = Some (u, i)"
  shows "u \<in> set (s_users (sf_store st))" "\<not> u_disabled u" "i \<in> set (s_instances (sf_store st))" "i_node_id i = nid"
    "role_allows (role_on (sf_store st) u (i_id i)) Files"
    "\<exists>name short. parse_sftp_username username = Some (name, short) \<and> sf_names st (u_id u) = Some name \<and> prefix short (i_uuid i)"
    "j \<in> set (s_instances (sf_store st)) \<Longrightarrow> i_node_id j = nid \<Longrightarrow> i_uuid j = i_uuid i \<Longrightarrow> j = i"
proof -
  obtain name short where p: "parse_sftp_username username = Some (name, short)"
    and u: "find (\<lambda>u. sf_names st (u_id u) = Some name \<and> \<not> u_disabled u) (s_users (sf_store st)) = Some u"
    and i: "filter (\<lambda>i. i_node_id i = nid \<and> prefix short (i_uuid i)) (s_instances (sf_store st)) = [i]"
    and r: "role_allows (role_on (sf_store st) u (i_id i)) Files"
    using assms by (auto simp: sign_in_target_def split: option.splits prod.splits list.splits if_splits)
  have i': "i \<in> set (filter (\<lambda>i. i_node_id i = nid \<and> prefix short (i_uuid i)) (s_instances (sf_store st)))" by (simp add: i)
  show "u \<in> set (s_users (sf_store st))" "\<not> u_disabled u" using find_SomeD [OF u] by auto
  show "i \<in> set (s_instances (sf_store st))" "i_node_id i = nid" "role_allows (role_on (sf_store st) u (i_id i)) Files"
    using i' r by auto
  show "\<exists>name short. parse_sftp_username username = Some (name, short) \<and> sf_names st (u_id u) = Some name \<and> prefix short (i_uuid i)"
    using p find_SomeD [OF u] i' by auto
  show "j = i" if "j \<in> set (s_instances (sf_store st))" "i_node_id j = nid" "i_uuid j = i_uuid i"
  proof -
    have "j \<in> set (filter (\<lambda>i. i_node_id i = nid \<and> prefix short (i_uuid i)) (s_instances (sf_store st)))"
      using that i' by auto
    then show ?thesis by (simp add: i)
  qed
qed

lemma find_the: "x \<in> set xs \<Longrightarrow> P x \<Longrightarrow> (\<And>y. y \<in> set xs \<Longrightarrow> P y \<Longrightarrow> y = x) \<Longrightarrow> find P xs = Some x"
  by (metis find_None_iff find_SomeD not_None_eq)

lemma find_user_of: "keys_unique st \<Longrightarrow> u \<in> set (s_users st) \<Longrightarrow> find_user st (u_id u) = Some u"
  unfolding find_user_def by (rule find_the) (auto simp: keys_unique_def distinct_map inj_on_def)

lemma find_password_touched:
  "find_password iid who (touch_password now j w st) = map_option (\<lambda>r. if j = iid \<and> w = who then r\<lparr>sw_last_used_at := Some now\<rparr> else r)
     (find_password iid who st)"
proof -
  have "find (\<lambda>w. sw_instance_id w = iid \<and> sw_user_id w = who)
      (map (\<lambda>x. if sw_instance_id x = j \<and> sw_user_id x = w then x\<lparr>sw_last_used_at := Some now\<rparr> else x) xs)
    = map_option (\<lambda>r. if j = iid \<and> w = who then r\<lparr>sw_last_used_at := Some now\<rparr> else r)
      (find (\<lambda>w. sw_instance_id w = iid \<and> sw_user_id w = who) xs)" for xs
    by (induction xs) auto
  then show ?thesis by (simp add: find_password_def touch_password_def)
qed

lemma touched_store [simp]: "sf_store (touch_password now iid who st) = sf_store st" "sf_store (touch_key now kid st) = sf_store st"
  by (simp_all add: touch_password_def touch_key_def)

lemma not_key_credential: "\<not> prefix ''key:'' (password_credential w)" "drop 4 (key_credential k) = string_of_int (int (sk_id k))"
  "prefix ''key:'' (key_credential k)"
  by (simp_all add: password_credential_def key_credential_def)

text \<open>What a session needs, spelt out.\<close>

lemma session_allowedI:
  assumes "find_user (sf_store st) (ss_user_id s) = Some u" and "\<not> u_disabled u"
    and "find (\<lambda>i. i_uuid i = ss_uuid s \<and> i_node_id i = nid) (s_instances (sf_store st)) = Some i"
    and "role_allows (role_on (sf_store st) u (i_id i)) Files"
  shows "find_password (i_id i) (u_id u) st = Some w \<Longrightarrow> ss_credential s = password_credential w \<Longrightarrow> session_allowed nid s st"
    and "k \<in> set (sf_keys st) \<Longrightarrow> sk_user_id k = u_id u \<Longrightarrow> ss_credential s = key_credential k \<Longrightarrow> int (sk_id k) < 2 ^ 53 \<Longrightarrow> session_allowed nid s st"
proof -
  show "session_allowed nid s st" if "find_password (i_id i) (u_id u) st = Some w" "ss_credential s = password_credential w"
    using assms that not_key_credential(1) by (simp add: session_allowed_def)
  show "session_allowed nid s st" if "k \<in> set (sf_keys st)" "sk_user_id k = u_id u" "ss_credential s = key_credential k" "int (sk_id k) < 2 ^ 53"
    using assms that js_number_of_int [of "int (sk_id k)"]
    by (auto simp: session_allowed_def not_key_credential list_ex_iff)
qed


section \<open>Revocation\<close>

definition remaining_sessions :: "nat list \<Rightarrow> nat list \<Rightarrow> (nat \<Rightarrow> sftp_session list) \<Rightarrow> sftp \<Rightarrow> nat \<Rightarrow> sftp_session list" where
  "remaining_sessions users online sessions st =
     disconnect_sessions (recheck_sessions users online (\<lambda>n. Some (sessions_of users (sessions n))) st) sessions"

lemma asked_to_close:
  "list_ex (\<lambda>(n, ids). n = nid \<and> ss_id s \<in> set ids) (recheck_sessions users online (\<lambda>n. Some (sessions_of users (sessions n))) st)
    \<longleftrightarrow> nid \<in> set online \<and> (\<exists>s'\<in>set (sessions nid). ss_id s' = ss_id s \<and> ss_user_id s' \<in> set users \<and> \<not> session_allowed nid s' st)"
proof -
  let ?ids = "\<lambda>n. map ss_id (filter (\<lambda>s. \<not> session_allowed n s st) (sessions_of users (sessions n)))"
  have "list_ex (\<lambda>(n, ids). n = nid \<and> ss_id s \<in> set ids) (recheck_sessions users online (\<lambda>n. Some (sessions_of users (sessions n))) st)
      \<longleftrightarrow> users \<noteq> [] \<and> nid \<in> set online \<and> ss_id s \<in> set (?ids nid)"
    unfolding recheck_sessions_def list_ex_iff by (auto simp: filter_empty_conv)
  also have "\<dots> \<longleftrightarrow> nid \<in> set online \<and> (\<exists>s'\<in>set (sessions nid). ss_id s' = ss_id s \<and> ss_user_id s' \<in> set users \<and> \<not> session_allowed nid s' st)"
    by (auto simp: sessions_of_def image_iff)
  finally show ?thesis .
qed

lemma remaining_online:
  assumes "nid \<in> set online" and "distinct (map ss_id (sessions nid))"
  shows "remaining_sessions users online sessions st nid =
    filter (\<lambda>s. ss_user_id s \<in> set users \<longrightarrow> session_allowed nid s st) (sessions nid)"
proof -
  have "s' = s" if "s \<in> set (sessions nid)" "s' \<in> set (sessions nid)" "ss_id s' = ss_id s" for s s'
    using assms(2) that by (auto simp: distinct_map dest: inj_onD)
  then show ?thesis
    unfolding remaining_sessions_def disconnect_sessions_def asked_to_close using assms(1) by (intro filter_cong refl) blast
qed

lemma remaining_offline: "nid \<notin> set online \<Longrightarrow> remaining_sessions users online sessions st nid = sessions nid"
  by (simp add: remaining_sessions_def disconnect_sessions_def asked_to_close)

lemma session_allowedE:
  assumes "session_allowed nid s st"
  obtains u i where "find_user (sf_store st) (ss_user_id s) = Some u" "\<not> u_disabled u" "u_id u = ss_user_id s"
    "find (\<lambda>i. i_uuid i = ss_uuid s \<and> i_node_id i = nid) (s_instances (sf_store st)) = Some i"
    "role_allows (role_on (sf_store st) u (i_id i)) Files"
    "prefix ''key:'' (ss_credential s) \<and> (\<exists>q k. js_number_of (drop 4 (ss_credential s)) = Finite q \<and> k \<in> set (sf_keys st) \<and> of_nat (sk_id k) = q \<and> sk_user_id k = ss_user_id s)
     \<or> \<not> prefix ''key:'' (ss_credential s) \<and> (\<exists>w. find_password (i_id i) (ss_user_id s) st = Some w \<and> ss_credential s = password_credential w)"
proof -
  obtain u where u: "find_user (sf_store st) (ss_user_id s) = Some u"
    using assms by (cases "find_user (sf_store st) (ss_user_id s)") (simp_all add: session_allowed_def)
  have id: "u_id u = ss_user_id s" using u by (auto simp: find_user_def dest!: find_SomeD)
  obtain i where i: "find (\<lambda>i. i_uuid i = ss_uuid s \<and> i_node_id i = nid) (s_instances (sf_store st)) = Some i"
    using assms u by (cases "find (\<lambda>i. i_uuid i = ss_uuid s \<and> i_node_id i = nid) (s_instances (sf_store st))")
      (simp_all add: session_allowed_def)
  note a = assms [unfolded session_allowed_def u option.case i]
  show ?thesis
  proof (rule that [OF u _ id i])
    show "\<not> u_disabled u" "role_allows (role_on (sf_store st) u (i_id i)) Files" using a by auto
    show "prefix ''key:'' (ss_credential s) \<and> (\<exists>q k. js_number_of (drop 4 (ss_credential s)) = Finite q \<and> k \<in> set (sf_keys st) \<and> of_nat (sk_id k) = q \<and> sk_user_id k = ss_user_id s)
     \<or> \<not> prefix ''key:'' (ss_credential s) \<and> (\<exists>w. find_password (i_id i) (ss_user_id s) st = Some w \<and> ss_credential s = password_credential w)"
      using a id by (cases "js_number_of (drop 4 (ss_credential s))"; cases "find_password (i_id i) (ss_user_id s) st")
        (auto simp: list_ex_iff split: if_splits)
  qed
qed

lemma find_password_without: "find_password iid who (without_password iid who st) = None"
  by (auto simp: find_password_def without_password_def find_None_iff)

lemma find_password_reset:
  assumes "find_password iid who (reset_sftp_password now hash iid who st) = Some w"
  shows "sw_created_at w = now"
proof -
  have "w = \<lparr>sw_instance_id = iid, sw_user_id = who, sw_password_hash = hash, sw_created_at = now, sw_last_used_at = None\<rparr>"
    using find_SomeD [OF assms [unfolded find_password_def]] by (auto simp: reset_sftp_password_def without_password_def)
  then show ?thesis by simp
qed

text \<open>C11. After a change of someone's access every node that is connected and answers keeps, of their sessions,
  exactly those the access still allows: an enabled user, a role with files on the session's instance, and
  the credential it was opened with. Removing a password or a key leaves no session opened with it and a
  new password none of the old one. A node that is not connected keeps all of them.\<close>

theorem revoked_sessions_closed:
  assumes "distinct (map ss_id (sessions nid))"
  shows "remaining_sessions users online sessions st nid =
      (if nid \<in> set online then filter (\<lambda>s. ss_user_id s \<in> set users \<longrightarrow> session_allowed nid s st) (sessions nid) else sessions nid)
    \<and> (session_allowed nid s st \<longrightarrow> (\<exists>u i. find_user (sf_store st) (ss_user_id s) = Some u \<and> \<not> u_disabled u
      \<and> i \<in> set (s_instances (sf_store st)) \<and> i_uuid i = ss_uuid s \<and> i_node_id i = nid \<and> role_allows (role_on (sf_store st) u (i_id i)) Files
      \<and> (remove_sftp_password (i_id i) (ss_user_id s) old = (st, Inr ()) \<longrightarrow> prefix ''key:'' (ss_credential s))
      \<and> (st = reset_sftp_password now hash (i_id i) (ss_user_id s) old \<longrightarrow>
          prefix ''key:'' (ss_credential s) \<or> ss_credential s = ''password:'' @ string_of_int now)
      \<and> (\<forall>k. remove_key (ss_user_id s) (sk_id k) old = (st, Inr k) \<and> int (sk_id k) < 2 ^ 53 \<longrightarrow> ss_credential s \<noteq> key_credential k)))"
proof (intro conjI impI)
  show "remaining_sessions users online sessions st nid =
      (if nid \<in> set online then filter (\<lambda>s. ss_user_id s \<in> set users \<longrightarrow> session_allowed nid s st) (sessions nid) else sessions nid)"
    using remaining_online [where sessions = sessions, OF _ assms] remaining_offline by auto
  assume "session_allowed nid s st"
  then obtain u i where a: "find_user (sf_store st) (ss_user_id s) = Some u" "\<not> u_disabled u"
      "find (\<lambda>i. i_uuid i = ss_uuid s \<and> i_node_id i = nid) (s_instances (sf_store st)) = Some i"
      "role_allows (role_on (sf_store st) u (i_id i)) Files"
    and cred: "prefix ''key:'' (ss_credential s) \<and> (\<exists>q k. js_number_of (drop 4 (ss_credential s)) = Finite q \<and> k \<in> set (sf_keys st) \<and> of_nat (sk_id k) = q \<and> sk_user_id k = ss_user_id s)
     \<or> \<not> prefix ''key:'' (ss_credential s) \<and> (\<exists>w. find_password (i_id i) (ss_user_id s) st = Some w \<and> ss_credential s = password_credential w)"
    by (rule session_allowedE)
  have removed: "prefix ''key:'' (ss_credential s)" if "remove_sftp_password (i_id i) (ss_user_id s) old = (st, Inr ())"
    using cred that find_password_without [of "i_id i" "ss_user_id s" old] by (auto simp: remove_sftp_password_def split: if_splits)
  have reset: "prefix ''key:'' (ss_credential s) \<or> ss_credential s = ''password:'' @ string_of_int now"
    if "st = reset_sftp_password now hash (i_id i) (ss_user_id s) old"
    using cred find_password_reset [of "i_id i" "ss_user_id s" now hash old] that by (auto simp: password_credential_def)
  have key: "ss_credential s \<noteq> key_credential k" if k: "remove_key (ss_user_id s) (sk_id k) old = (st, Inr k)" "int (sk_id k) < 2 ^ 53" for k
  proof
    assume c: "ss_credential s = key_credential k"
    with cred obtain q k' where q: "js_number_of (string_of_int (int (sk_id k))) = Finite q" "k' \<in> set (sf_keys st)" "of_nat (sk_id k') = q"
      by (auto simp: not_key_credential)
    have "q = of_int (int (sk_id k))" using js_number_of_int [of "int (sk_id k)"] k(2) q(1) by simp
    with q(3) have "sk_id k' = sk_id k" by simp
    moreover have "sk_id k' \<noteq> sk_id k" using q(2) k(1) by (auto simp: remove_key_def split: option.splits)
    ultimately show False by simp
  qed
  show "\<exists>u i. find_user (sf_store st) (ss_user_id s) = Some u \<and> \<not> u_disabled u
      \<and> i \<in> set (s_instances (sf_store st)) \<and> i_uuid i = ss_uuid s \<and> i_node_id i = nid \<and> role_allows (role_on (sf_store st) u (i_id i)) Files
      \<and> (remove_sftp_password (i_id i) (ss_user_id s) old = (st, Inr ()) \<longrightarrow> prefix ''key:'' (ss_credential s))
      \<and> (st = reset_sftp_password now hash (i_id i) (ss_user_id s) old \<longrightarrow>
          prefix ''key:'' (ss_credential s) \<or> ss_credential s = ''password:'' @ string_of_int now)
      \<and> (\<forall>k. remove_key (ss_user_id s) (sk_id k) old = (st, Inr k) \<and> int (sk_id k) < 2 ^ 53 \<longrightarrow> ss_credential s \<noteq> key_credential k)"
    using a find_SomeD [OF a(3)] removed reset key by blast
qed

section \<open>Guessing\<close>

interpretation sign_in_failures: limits "check_hit failure_window failure_max" reset_key "room_left failure_max"
    "window_ends failure_window" failure_max failure_window
  by (rule limits_limiter) (simp_all add: failure_window_def failure_max_def)

type_synonym sign_in = "int \<times> nat \<times> sftp_auth_params"

text \<open>The password attempts of a sequence that got past the limiters and were refused.\<close>

fun refused :: "(string \<Rightarrow> string \<Rightarrow> bool) \<Rightarrow> key_codec \<Rightarrow> sign_in list \<Rightarrow> sftp \<Rightarrow> sign_in list" where
  "refused verify kc [] st = []"
| "refused verify kc ((now, nid, p) # xs) st =
     (let (st', r) = sftp_authenticate verify kc now nid p st; more' = refused verify kc xs st' in
      if \<not> sign_in_limited now nid p st \<and> ap_method p = Password_Method \<and> r = Denied then (now, nid, p) # more' else more')"

lemma unlimited_room:
  "\<not> sign_in_limited now nid p st \<Longrightarrow> 0 < room_left failure_max (sf_by_address st) now (address_key p)
    \<and> 0 < room_left failure_max (sf_by_name st) now (name_key nid p)"
proof -
  have zero: "retry_after failure_max l now k = 0" if "\<not> 0 < retry_after failure_max l now k" for l k
    using that by (auto simp: retry_after_def live_entry_def ceil_seconds_def failure_max_def split: option.splits if_splits)
  assume "\<not> sign_in_limited now nid p st"
  then show ?thesis using retry_after_room [of failure_max] zero by (auto simp: sign_in_limited_def failure_max_def)
qed

lemma denied_counts:
  assumes "sftp_authenticate_end verify kc now nid p st = (st', Denied)"
  shows "st' = fail_sign_in now nid p st"
proof (cases "sign_in_target nid (ap_username p) st")
  case (Some t)
  obtain u i where t: "t = (u, i)" by (cases t)
  note e = assms [unfolded sftp_authenticate_end_def Some t option.case prod.case]
  show ?thesis
  proof (cases "ap_method p")
    case Password_Method
    with e show ?thesis
      by (cases "find_password (i_id i) (u_id u) st"; cases "truthy (ap_password p)") (auto split: if_splits)
  next
    case Publickey_Method
    then have "st = fail_sign_in now nid p st" by (simp add: fail_sign_in_def)
    with e Publickey_Method show ?thesis
      by (auto split: option.splits sum.splits)
  qed
qed (use assms in \<open>simp add: sftp_authenticate_end_def\<close>)

lemma allowed_keeps_limiters:
  assumes "sftp_authenticate_end verify kc now nid p st = (st', Allowed who uuid cred)"
  shows "sf_by_address st' = sf_by_address st \<and> sf_by_name st' = sf_by_name st"
proof -
  obtain u i where t: "sign_in_target nid (ap_username p) st = Some (u, i)"
    using assms by (cases "sign_in_target nid (ap_username p) st") (auto simp: sftp_authenticate_end_def)
  note e = assms [unfolded sftp_authenticate_end_def t option.case prod.case]
  show ?thesis
  proof (cases "ap_method p")
    case Password_Method
    with e show ?thesis
      by (cases "find_password (i_id i) (u_id u) st"; cases "truthy (ap_password p)") (auto simp: touch_password_def split: if_splits)
  next
    case Publickey_Method
    with e show ?thesis by (auto simp: touch_key_def split: option.splits sum.splits)
  qed
qed

lemma check_hit_fst: "fst (check_hit window mx l now k) = fst (check window mx l now k)"
  by (simp add: check_hit_def split_def Let_def)

text \<open>Every refused attempt is a hit that the limiters allowed.\<close>

lemma refused_hits:
  "snd (hits_of (check_hit failure_window failure_max) (sf_by_address st) (map (\<lambda>(t, n, p). (t, address_key p)) (refused verify kc xs st)))
     = map (\<lambda>(t, n, p). (t, address_key p)) (refused verify kc xs st)
   \<and> snd (hits_of (check_hit failure_window failure_max) (sf_by_name st) (map (\<lambda>(t, n, p). (t, name_key n p)) (refused verify kc xs st)))
     = map (\<lambda>(t, n, p). (t, name_key n p)) (refused verify kc xs st)"
proof (induction xs arbitrary: st)
  case (Cons x xs)
  obtain now nid p where x: "x = (now, nid, p)" by (cases x)
  obtain st' r where a: "sftp_authenticate verify kc now nid p st = (st', r)" by fastforce
  show ?case
  proof (cases "\<not> sign_in_limited now nid p st \<and> ap_method p = Password_Method \<and> r = Denied")
    case True
    then have "sftp_authenticate_end verify kc now nid p st = (st', Denied)" using a by (simp add: sftp_authenticate_def)
    then have "st' = fail_sign_in now nid p st" by (rule denied_counts)
    then have "sf_by_address st' = fst (check_hit failure_window failure_max (sf_by_address st) now (address_key p))"
      "sf_by_name st' = fst (check_hit failure_window failure_max (sf_by_name st) now (name_key nid p))"
      using True by (simp_all add: fail_sign_in_def check_hit_fst)
    moreover have "snd (check_hit failure_window failure_max (sf_by_address st) now (address_key p))"
      "snd (check_hit failure_window failure_max (sf_by_name st) now (name_key nid p))"
      using unlimited_room True sign_in_failures.check_ok by blast+
    ultimately show ?thesis using Cons.IH [of st'] True a x by (simp add: Let_def split_def)
  next
    case False
    have "sf_by_address st' = sf_by_address st \<and> sf_by_name st' = sf_by_name st"
    proof (cases "sign_in_limited now nid p st")
      case True
      with a show ?thesis by (simp add: sftp_authenticate_def)
    next
      case free: False
      then have e: "sftp_authenticate_end verify kc now nid p st = (st', r)" using a by (simp add: sftp_authenticate_def)
      show ?thesis
      proof (cases r)
        case Denied
        with e have "st' = fail_sign_in now nid p st" using denied_counts by blast
        with False free Denied show ?thesis by (simp add: fail_sign_in_def)
      next
        case (Allowed who uuid cred)
        with e allowed_keeps_limiters show ?thesis by blast
      qed
    qed
    with Cons.IH [of st'] False a x show ?thesis by (auto simp: Let_def)
  qed
qed simp

lemma answer_ignores_limiters:
  "sign_in_target nid username (st\<lparr>sf_by_address := a, sf_by_name := b\<rparr>) = sign_in_target nid username st"
  "snd (sftp_authenticate_end verify kc now nid p (st\<lparr>sf_by_address := a, sf_by_name := b\<rparr>)) = snd (sftp_authenticate_end verify kc now nid p st)"
proof -
  have sel: "sf_store (st\<lparr>sf_by_address := a, sf_by_name := b\<rparr>) = sf_store st" "sf_names (st\<lparr>sf_by_address := a, sf_by_name := b\<rparr>) = sf_names st"
      "sf_keys (st\<lparr>sf_by_address := a, sf_by_name := b\<rparr>) = sf_keys st" by simp_all
  show t: "sign_in_target nid username (st\<lparr>sf_by_address := a, sf_by_name := b\<rparr>) = sign_in_target nid username st" for username
    unfolding sign_in_target_def sel ..
  have f: "find_password iid who (st\<lparr>sf_by_address := a, sf_by_name := b\<rparr>) = find_password iid who st" for iid who
    by (simp add: find_password_def)
  show "snd (sftp_authenticate_end verify kc now nid p (st\<lparr>sf_by_address := a, sf_by_name := b\<rparr>)) = snd (sftp_authenticate_end verify kc now nid p st)"
    unfolding sftp_authenticate_end_def t f sel by (auto split: option.split prod.split sftp_method.split sum.split)
qed

lemma overlapping_answers:
  assumes "\<forall>q\<in>set qs. snd (sftp_authenticate_end verify kc now nid q st) = Denied"
  shows "snd (sftp_authenticate_end verify kc now nid p (foldl (\<lambda>st q. fst (sftp_authenticate_end verify kc now nid q st)) st qs))
    = snd (sftp_authenticate_end verify kc now nid p st)"
  using assms
proof (induction qs arbitrary: st)
  case (Cons q qs)
  let ?st = "fst (sftp_authenticate_end verify kc now nid q st)"
  have "sftp_authenticate_end verify kc now nid q st = (?st, Denied)" using Cons.prems by (simp add: prod_eq_iff)
  then have "?st = fail_sign_in now nid q st" by (rule denied_counts)
  then have "?st = st\<lparr>sf_by_address := sf_by_address ?st, sf_by_name := sf_by_name ?st\<rparr>"
    by (cases "ap_method q = Password_Method") (simp_all add: fail_sign_in_def)
  then obtain a b where st: "?st = st\<lparr>sf_by_address := a, sf_by_name := b\<rparr>" by blast
  have "\<forall>q\<in>set qs. snd (sftp_authenticate_end verify kc now nid q ?st) = Denied"
    using Cons.prems by (simp add: st answer_ignores_limiters)
  from Cons.IH [OF this] show ?case by (simp add: st answer_ignores_limiters)
qed simp

text \<open>C22. Password guesses over SFTP that come one after the other are bounded: in ten minutes an address, and a
  spelling of a username on a node, has at most 20 refused passwords, or 40 when a window was open at the
  start. Two ways around it: attempts that all looked at the limiters before the first was refused are each
  answered as if alone, however many they are; and white space before a username, which names the same
  user, gives the limiter of names another key.\<close>

theorem guesses_bounded_unless_overlapping:
  assumes "\<forall>(now, nid, p)\<in>set xs. t \<le> now \<and> now < t + 600000" and "sorted (map fst xs)"
  shows "count_key k (map (\<lambda>(t, n, p). (t, address_key p)) (refused verify kc xs st))
      \<le> (if live_entry (l_hits (sf_by_address st)) t k = None then 20 else 40)
    \<and> count_key k (map (\<lambda>(t, n, p). (t, name_key n p)) (refused verify kc xs st))
      \<le> (if live_entry (l_hits (sf_by_name st)) t k = None then 20 else 40)
    \<and> ((\<forall>q\<in>set qs. \<not> sign_in_limited t nid q st \<and> snd (sftp_authenticate verify kc t nid q st) = Denied) \<and> \<not> sign_in_limited t nid p st \<longrightarrow>
        snd (sftp_authenticate_end verify kc t nid p (foldl (\<lambda>st q. fst (sftp_authenticate_end verify kc t nid q st)) st qs))
          = snd (sftp_authenticate verify kc t nid p st))
    \<and> parse_sftp_username (replicate i (CHR '' '') @ ap_username p) = parse_sftp_username (ap_username p)
    \<and> (i \<noteq> j \<longrightarrow> name_key nid (p\<lparr>ap_username := replicate i (CHR '' '') @ ap_username p\<rparr>)
        \<noteq> name_key nid (p\<lparr>ap_username := replicate j (CHR '' '') @ ap_username p\<rparr>))"
proof (intro conjI impI)
  have sub: "subseq (map fst (refused verify kc xs st)) (map fst xs)" for xs st
  proof (induction xs arbitrary: st)
    case (Cons x xs)
    obtain now nid p where x: "x = (now, nid, p)" by (cases x)
    note IH = Cons.IH [of "fst (sftp_authenticate verify kc now nid p st)"]
    from IH list_emb_Cons [OF IH, of now] show ?case by (simp add: x Let_def split_def)
  qed simp
  have "sorted (map fst (refused verify kc xs st))" using assms(2) sub [of xs st] by (metis subseq_conv_nths sorted_nths)
  moreover have "\<forall>x\<in>set (refused verify kc xs st). t \<le> fst x \<and> fst x < t + 600000"
  proof
    fix x assume "x \<in> set (refused verify kc xs st)"
    then have "fst x \<in> set (map fst xs)" using sub [of xs st] by (metis (mono_tags, lifting) image_eqI list.set_map set_nths_subset subsetD subseq_conv_nths)
    with assms(1) show "t \<le> fst x \<and> fst x < t + 600000" by auto
  qed
  moreover have "fst \<circ> (\<lambda>(t, n, p). (t, f n p)) = (fst :: sign_in \<Rightarrow> int)" for f :: "nat \<Rightarrow> sftp_auth_params \<Rightarrow> string" by auto
  ultimately have times: "sorted (map fst (map (\<lambda>(t, n, p). (t, f n p)) (refused verify kc xs st)))"
      "\<forall>x\<in>set (map (\<lambda>(t, n, p). (t, f n p)) (refused verify kc xs st)). t \<le> fst x \<and> fst x < t + failure_window"
    for f :: "nat \<Rightarrow> sftp_auth_params \<Rightarrow> string"
    by (auto simp: failure_window_def)
  have bound: "count_key k ys \<le> (if live_entry (l_hits l) t k = None then 20 else 40)"
    if "sorted (map fst ys)" "\<forall>x\<in>set ys. t \<le> fst x \<and> fst x < t + failure_window"
      "snd (hits_of (check_hit failure_window failure_max) l ys) = ys" for l ys
    using sign_in_failures.at_most_two_windows [OF that(2,1), of k l]
      sign_in_failures.in_interval [OF that(2,1) order_refl, of k l, unfolded sign_in_failures.budget_def] that(3)
    by (cases "live_entry (l_hits l) t k") (simp_all add: room_left_def window_ends_def failure_max_def)
  note hits = refused_hits [where verify = verify and kc = kc and xs = xs and st = st]
  show "count_key k (map (\<lambda>(t, n, p). (t, address_key p)) (refused verify kc xs st))
      \<le> (if live_entry (l_hits (sf_by_address st)) t k = None then 20 else 40)"
    using bound [OF times [of "\<lambda>_ p. address_key p"]] hits by blast
  show "count_key k (map (\<lambda>(t, n, p). (t, name_key n p)) (refused verify kc xs st))
      \<le> (if live_entry (l_hits (sf_by_name st)) t k = None then 20 else 40)"
    using bound [OF times [of name_key]] hits by blast
  show "snd (sftp_authenticate_end verify kc t nid p (foldl (\<lambda>st q. fst (sftp_authenticate_end verify kc t nid q st)) st qs))
      = snd (sftp_authenticate verify kc t nid p st)"
    if "(\<forall>q\<in>set qs. \<not> sign_in_limited t nid q st \<and> snd (sftp_authenticate verify kc t nid q st) = Denied) \<and> \<not> sign_in_limited t nid p st"
  proof -
    have "\<forall>q\<in>set qs. snd (sftp_authenticate_end verify kc t nid q st) = Denied" using that by (auto simp: sftp_authenticate_def)
    from overlapping_answers [OF this, of p] that show ?thesis by (simp add: sftp_authenticate_def)
  qed
  show "parse_sftp_username (replicate i (CHR '' '') @ ap_username p) = parse_sftp_username (ap_username p)"
    by (rule parse_padded_username)
  show "name_key nid (p\<lparr>ap_username := replicate i (CHR '' '') @ ap_username p\<rparr>)
      \<noteq> name_key nid (p\<lparr>ap_username := replicate j (CHR '' '') @ ap_username p\<rparr>)" if "i \<noteq> j"
  proof
    assume "name_key nid (p\<lparr>ap_username := replicate i (CHR '' '') @ ap_username p\<rparr>)
      = name_key nid (p\<lparr>ap_username := replicate j (CHR '' '') @ ap_username p\<rparr>)"
    then have "length (js_lower (replicate i (CHR '' '') @ ap_username p)) = length (js_lower (replicate j (CHR '' '') @ ap_username p))"
      by (simp add: name_key_def)
    with that show False by (simp add: js_lower_def)
  qed
qed

section \<open>Examples\<close>

definition toy_codec :: key_codec where
  "toy_codec = \<lparr>kc_atob = sample_atob, kc_btoa = (\<lambda>_. ''AAAAC3Nz''), kc_sha256 = id\<rparr>"

definition named_sftp :: sftp where
  "named_sftp = sample_sftp\<lparr>sf_names := [5 \<mapsto> ''a'']\<rparr>"

definition guess :: sftp_auth_params where
  "guess = \<lparr>ap_username = ''a.0123abcd'', ap_method = Password_Method, ap_password = Some ''x'', ap_public_key = None,
     ap_remote_address = ''::1''\<rparr>"

lemma sample_named: "ensure_sftp_name sample_user sample_sftp = (named_sftp, Inr ''a'')"
proof -
  have base: "sftp_name_base ''a@b'' = ''a''" by code_simp
  have "name_candidates ''a'' = ''a'' # map (\<lambda>n. name_candidate ''a'' (int n)) [Suc (Suc 0)..<1000]"
    unfolding name_candidates_def by (subst upt_conv_Cons) (simp_all add: name_candidate_def del: upt_rec_numeral)
  then show ?thesis
    by (simp add: ensure_sftp_name_def base sample_sftp_def named_sftp_def sample_store_defs)
qed

lemma shown_username_signs_in_witness:
  "sign_in_target 1 '' A.0123abcd'' named_sftp = Some (sample_user, sample_instance\<lparr>i_uuid := ''0123abcd-1''\<rparr>)"
proof -
  have ok: "names_ok sample_sftp" by (simp add: names_ok_def keys_unique_def sample_sftp_def sample_store_defs)
  have user: "sample_user \<in> set (s_users (sf_store sample_sftp))" by (simp add: sample_sftp_def sample_store_def)
  have role: "role_allows (role_on (sf_store sample_sftp) sample_user 1) Files"
    by (simp add: role_on_def owns_node_def find_instance_def find_grant_def role_allows_def sample_sftp_def sample_store_defs)
  have typed: "js_lower (js_trim '' A.0123abcd'') = js_lower (js_trim (sftp_username ''a'' (sample_instance\<lparr>i_uuid := ''0123abcd-1''\<rparr>)))"
    by code_simp
  have hex: "list_all is_hex ''0123abcd''" by code_simp
  from shown_username_signs_in [OF ok user sample_named _ _ _ _ _ _ typed] role hex show ?thesis
    by (simp add: sample_sftp_def short_id_def sample_store_defs)
qed

definition password_sftp :: sftp where
  "password_sftp = reset_sftp_password 7 ''x'' 1 5 named_sftp"


definition old_session :: sftp_session where
  "old_session = \<lparr>ss_id = ''s'', ss_user_id = 5, ss_uuid = ''0123abcd-1'', ss_credential = ''password:7''\<rparr>"

lemma revoked_sessions_closed_witness:
  "remaining_sessions [5] [1] (\<lambda>_. [old_session]) (fst (remove_sftp_password 1 5 password_sftp)) 1 = []
   \<and> remaining_sessions [5] [2] (\<lambda>_. [old_session]) (fst (remove_sftp_password 1 5 password_sftp)) 1 = [old_session]"
proof -
  have "\<not> session_allowed 1 old_session (fst (remove_sftp_password 1 5 password_sftp))" by code_simp
  with revoked_sessions_closed [of "\<lambda>_. [old_session]" 1 "[5]" "[1]" "fst (remove_sftp_password 1 5 password_sftp)"]
    revoked_sessions_closed [of "\<lambda>_. [old_session]" 1 "[5]" "[2]" "fst (remove_sftp_password 1 5 password_sftp)"]
  show ?thesis by (simp add: old_session_def)
qed

lemma guesses_bounded_unless_overlapping_witness:
  "count_key ''::1'' (map (\<lambda>(t, n, p). (t, address_key p)) (refused (\<lambda>_ _. False) toy_codec (replicate 30 (5, 1, guess)) password_sftp)) \<le> 20"
  using guesses_bounded_unless_overlapping [of "replicate 30 (5, 1, guess)" 0 "''::1''" "\<lambda>_ _. False" toy_codec password_sftp]
  by (simp add: password_sftp_def reset_sftp_password_def without_password_def named_sftp_def sample_sftp_def new_limiter_def live_entry_def)

end
