(* ===== verification/Backups.thy ===== *)
theory Backups
  imports Panel
begin

text \<open>
  Backups of an instance (modules/backups/service.ts): the rows, the runs in the panel's memory that wait
  for the agent, restoring and removing. The state holds the whole \<open>panel\<close>, so that every other handler
  may run in between; rows of a deleted instance go with it.
\<close>

section \<open>Rows and state\<close>

record backup_row =
  bk_id :: nat
  bk_backup_id :: string
  bk_instance_id :: nat
  bk_name :: string
  bk_status :: backup_status
  bk_size :: "nat option"
  bk_sha256 :: "string option"
  bk_files :: "nat option"
  bk_error :: "string option"
  bk_progress :: nat
  bk_created_by :: "nat option"
  bk_created_at :: int
  bk_completed_at :: "int option"

datatype backup_request =
    Req_Backup_Create string string "string list" "database_spec option"
  | Req_Backup_Restore string string bool "database_spec option"
  | Req_Backup_Delete string string

text \<open>A call of \<open>run\<close> that has not returned: its row object, what it asks of which node, whether it has
  begun, and \<open>lastPush\<close>.\<close>

record backup_run =
  run_row :: backup_row
  run_node :: nat
  run_request :: backup_request
  run_begun :: bool
  run_last_push :: int

text \<open>\<open>bs_sent\<close> are the requests sent to agents, \<open>bs_removals\<close> the calls of \<open>remove\<close> that have not returned
  (the row, and whether the agent was asked), \<open>bs_updated\<close> the broadcasts of \<open>backup.updated\<close>.\<close>

record backups =
  bs_panel :: panel
  bs_rows :: "backup_row list"
  bs_next_id :: nat
  bs_runs :: "backup_run list"
  bs_sent :: "(nat \<times> backup_request) list"
  bs_removals :: "(backup_row \<times> bool) list"
  bs_updated :: "(nat \<times> string) list"

definition send_request :: "nat \<Rightarrow> backup_request \<Rightarrow> backups \<Rightarrow> backups" where
  "send_request nid q s = s\<lparr>bs_sent := bs_sent s @ [(nid, q)]\<rparr>"

definition backup_updated :: "backup_row \<Rightarrow> backups \<Rightarrow> backups" where
  "backup_updated b s = s\<lparr>bs_updated := bs_updated s @ [(bk_instance_id b, bk_backup_id b)]\<rparr>"

definition backup_audit :: "nat \<Rightarrow> string \<Rightarrow> nat \<Rightarrow> backups \<Rightarrow> backups" where
  "backup_audit actor what iid s = s\<lparr>bs_panel := tell [Audit (Some actor) what iid] (bs_panel s)\<rparr>"

text \<open>\<open>row.save()\<close> writes the columns a run changes, to the row with that id.\<close>

definition written :: "backup_row \<Rightarrow> backup_row \<Rightarrow> backup_row" where
  "written row b = b\<lparr>bk_status := bk_status row, bk_size := bk_size row, bk_sha256 := bk_sha256 row,
     bk_files := bk_files row, bk_error := bk_error row, bk_progress := bk_progress row,
     bk_completed_at := bk_completed_at row\<rparr>"

definition save_backup :: "backup_row \<Rightarrow> backups \<Rightarrow> backups" where
  "save_backup row s = s\<lparr>bs_rows := map (\<lambda>b. if bk_id b = bk_id row then written row b else b) (bs_rows s)\<rparr>"

definition list_backups :: "nat \<Rightarrow> backups \<Rightarrow> backup_row list" where
  "list_backups iid s = sort_key (\<lambda>b. - bk_created_at b) (filter (\<lambda>b. bk_instance_id b = iid) (bs_rows s))"

definition get_backup :: "nat \<Rightarrow> string \<Rightarrow> backups \<Rightarrow> backup_row result" where
  "get_backup iid bid s = (case find (\<lambda>b. bk_instance_id b = iid \<and> bk_backup_id b = bid) (bs_rows s) of
     None \<Rightarrow> Inl (not_found ''Backup'') | Some b \<Rightarrow> Inr b)"

definition backup_online :: "panel \<Rightarrow> instance_row \<Rightarrow> unit result" where
  "backup_online p i = guard (is_connected p (i_node_id i)) (conflict ''The node is not connected'')"

definition backup_database :: "(string \<Rightarrow> string) \<Rightarrow> panel \<Rightarrow> instance_row \<Rightarrow> database_spec option result" where
  "backup_database hmac p i = (case find_template p (i_template_id i) of
     None \<Rightarrow> Inl internal_error
   | Some def \<Rightarrow>
       let db = database_spec_of hmac i def;
           agent = (case find_node (p_store p) (i_node_id i) of None \<Rightarrow> None | Some n \<Rightarrow> n_agent_version n) in
       if db \<noteq> None \<and> is_outdated_version agent (Some container_options_agent)
       then Inl (conflict (''Backups of a database need agent '' @ container_options_agent
         @ '' or newer; update the node's agent first''))
       else Inr db)"

text \<open>\<open>RUNNING\<close>.\<close>

definition busy_statuses :: "instance_status list" where
  "busy_statuses = [Running, Starting, Stopping, Installing]"

section \<open>Creating\<close>

text \<open>A JavaScript \<open>Set\<close> keeps the first of equal strings.\<close>

definition without_repeats :: "'a list \<Rightarrow> 'a list" where
  "without_repeats xs = rev (remdups (rev xs))"

definition new_backup :: "int \<Rightarrow> nat \<Rightarrow> string \<Rightarrow> nat \<Rightarrow> string \<Rightarrow> nat \<Rightarrow> backup_row" where
  "new_backup now k bid iid name actor = \<lparr>bk_id = k, bk_backup_id = bid, bk_instance_id = iid, bk_name = name,
     bk_status = Pending, bk_size = None, bk_sha256 = None, bk_files = None, bk_error = None, bk_progress = 0,
     bk_created_by = Some actor, bk_created_at = now, bk_completed_at = None\<rparr>"

text \<open>
  \<open>limit\<close> is the setting \<open>backupsPerInstance\<close>, \<open>bid\<close> a random UUID, \<open>stamp\<close> the local time to the
  minute. The column of names holds 120 characters and identifiers are unique; the database refuses
  others. The result is the identifier of the new row, whose run has yet to begin.
\<close>

definition create_backup :: "(string \<Rightarrow> string) \<Rightarrow> int \<Rightarrow> string \<Rightarrow> string \<Rightarrow> nat \<Rightarrow> nat \<Rightarrow> nat \<Rightarrow> string \<Rightarrow> string list \<Rightarrow>
    backups \<Rightarrow> (string \<times> backups) result" where
  "create_backup hmac now stamp bid limit iid actor name ignore s =
     (let p = bs_panel s in
      then_do (get_instance p iid) (\<lambda>i.
      then_do (backup_online p i) (\<lambda>_.
      then_do (backup_database hmac p i) (\<lambda>db.
      let count = length (filter (\<lambda>b. bk_instance_id b = iid) (bs_rows s)) in
      then_do (guard (\<not> (0 < limit \<and> limit \<le> count)) (conflict (''This instance already has ''
         @ string_of_int (int count) @ '' backups (the limit is '' @ string_of_int (int limit)
         @ ''); delete one first''))) (\<lambda>_.
      let full = (case truthy (Some (js_trim name)) of Some n \<Rightarrow> n | None \<Rightarrow> i_name i @ '' '' @ stamp) in
      then_do (guard (bid \<notin> bk_backup_id ` set (bs_rows s) \<and> length full \<le> 120) internal_error) (\<lambda>_.
      case find_template p (i_template_id i) of
        None \<Rightarrow> Inl internal_error
      | Some def \<Rightarrow>
          let row = new_backup now (bs_next_id s) bid iid full actor;
              patterns = without_repeats (td_backup_ignore def @ volume_backup_ignore def @ ignore);
              r = \<lparr>run_row = row, run_node = i_node_id i,
                   run_request = Req_Backup_Create (i_uuid i) bid patterns db, run_begun = False,
                   run_last_push = 0\<rparr> in
          Inr (bid, backup_audit actor ''backup.create'' iid
            (s\<lparr>bs_rows := bs_rows s @ [row], bs_next_id := Suc (bs_next_id s), bs_runs := bs_runs s @ [r]\<rparr>))))))))"

section \<open>Runs\<close>

definition run_id :: "backup_run \<Rightarrow> nat" where
  "run_id r = bk_id (run_row r)"

definition find_run :: "nat \<Rightarrow> backups \<Rightarrow> backup_run option" where
  "find_run k s = find (\<lambda>r. run_id r = k) (bs_runs s)"

definition put_run :: "backup_run \<Rightarrow> backups \<Rightarrow> backups" where
  "put_run r s = s\<lparr>bs_runs := map (\<lambda>r'. if run_id r' = run_id r then r else r') (bs_runs s)\<rparr>"

definition drop_run :: "nat \<Rightarrow> backups \<Rightarrow> backups" where
  "drop_run k s = s\<lparr>bs_runs := filter (\<lambda>r. run_id r \<noteq> k) (bs_runs s)\<rparr>"

definition push_row :: "backup_row \<Rightarrow> backups \<Rightarrow> backups" where
  "push_row row s = backup_updated row (save_backup row s)"

text \<open>To the request, which is only sent to a connected node; otherwise it fails at once.\<close>

definition run_begin :: "nat \<Rightarrow> backups \<Rightarrow> backups" where
  "run_begin k s = (case find_run k s of
     None \<Rightarrow> s
   | Some r \<Rightarrow>
       if run_begun r then s
       else let row = (run_row r)\<lparr>bk_status := Backup_Running\<rparr>;
                s' = push_row row (put_run (r\<lparr>run_row := row, run_begun := True\<rparr>) s) in
            if is_connected (bs_panel s) (run_node r) then send_request (run_node r) (run_request r) s' else s')"

text \<open>\<open>onStream\<close>: progress is saved every two seconds.\<close>

definition run_progress :: "int \<Rightarrow> nat \<Rightarrow> nat \<Rightarrow> backups \<Rightarrow> backups" where
  "run_progress now k bytes s = (case find_run k s of
     None \<Rightarrow> s
   | Some r \<Rightarrow>
       if \<not> run_begun r then s
       else let row = (run_row r)\<lparr>bk_progress := bytes\<rparr> in
            if 2000 \<le> now - run_last_push r
            then push_row row (put_run (r\<lparr>run_row := row, run_last_push := now\<rparr>) s)
            else put_run (r\<lparr>run_row := row\<rparr>) s)"

record archive_result =
  ar_size :: nat
  ar_sha256 :: string
  ar_files :: nat

text \<open>\<open>answer\<close> is the agent's result or the text of the error the request ended with.\<close>

definition ended_row :: "int \<Rightarrow> string + archive_result \<Rightarrow> backup_row \<Rightarrow> backup_row" where
  "ended_row now answer row = (case answer of
     Inr a \<Rightarrow> row\<lparr>bk_status := Completed, bk_size := Some (ar_size a), bk_sha256 := Some (ar_sha256 a),
       bk_files := Some (ar_files a), bk_progress := ar_size a, bk_completed_at := Some now\<rparr>
   | Inl e \<Rightarrow> row\<lparr>bk_status := Failed, bk_error := Some (take 1000 e), bk_completed_at := Some now\<rparr>)"

definition run_end :: "int \<Rightarrow> nat \<Rightarrow> string + archive_result \<Rightarrow> backups \<Rightarrow> backups" where
  "run_end now k answer s = (case find_run k s of
     None \<Rightarrow> s
   | Some r \<Rightarrow> if run_begun r then push_row (ended_row now answer (run_row r)) (drop_run k s) else s)"

section \<open>Restoring, downloading\<close>

definition restore_backup :: "(string \<Rightarrow> string) \<Rightarrow> nat \<Rightarrow> string \<Rightarrow> bool \<Rightarrow> nat \<Rightarrow> backups \<Rightarrow> backups result" where
  "restore_backup hmac iid bid wipe actor s =
     (let p = bs_panel s in
      then_do (get_instance p iid) (\<lambda>i.
      then_do (backup_online p i) (\<lambda>_.
      then_do (get_backup iid bid s) (\<lambda>b.
      then_do (guard (bk_status b = Completed) (conflict ''Only a completed backup can be restored'')) (\<lambda>_.
      then_do (guard (i_status i \<notin> set busy_statuses)
        (conflict ''Stop the instance before restoring a backup'')) (\<lambda>_.
      then_do (backup_database hmac p i) (\<lambda>db.
      Inr (send_request (i_node_id i) (Req_Backup_Restore (i_uuid i) bid wipe db)
        (backup_audit actor ''backup.restore'' iid s)))))))))"

definition restore_end :: "nat \<Rightarrow> unit result \<Rightarrow> backups \<Rightarrow> backups \<times> unit result" where
  "restore_end iid answer s = (case answer of
     Inl e \<Rightarrow> (s, Inl e)
   | Inr u \<Rightarrow> (s\<lparr>bs_panel := tell [Broadcast_Updated iid] (bs_panel s)\<rparr>, Inr u))"

text \<open>\<open>\w\<close> of a file name.\<close>

definition file_char :: "char \<Rightarrow> bool" where
  "file_char c \<longleftrightarrow> is_alnum c \<or> c = CHR ''_'' \<or> c = CHR ''.'' \<or> c = CHR ''-''"

text \<open>Every run of other characters becomes one underscore.\<close>

fun underscored :: "bool \<Rightarrow> string \<Rightarrow> string" where
  "underscored skipping [] = []"
| "underscored skipping (c # cs) = (if file_char c then c # underscored False cs
     else if skipping then underscored True cs else CHR ''_'' # underscored True cs)"

record backup_download =
  bd_node :: nat
  bd_filename :: string
  bd_size :: "nat option"
  bd_uuid :: string
  bd_backup_id :: string

definition prepare_download :: "(int \<Rightarrow> string) \<Rightarrow> nat \<Rightarrow> string \<Rightarrow> backups \<Rightarrow> backup_download result" where
  "prepare_download stamp_of iid bid s =
     (let p = bs_panel s in
      then_do (get_instance p iid) (\<lambda>i.
      then_do (backup_online p i) (\<lambda>_.
      then_do (get_backup iid bid s) (\<lambda>b.
      then_do (guard (bk_status b = Completed) (conflict ''The backup is not complete'')) (\<lambda>_.
      Inr \<lparr>bd_node = i_node_id i,
           bd_filename = underscored False (i_name i) @ ''-'' @ stamp_of (bk_created_at b) @ ''.tar.gz'',
           bd_size = bk_size b, bd_uuid = i_uuid i, bd_backup_id = bid\<rparr>)))))"

section \<open>Removing\<close>

text \<open>To the agent's answer, which is only asked for on a connected node.\<close>

definition await_removal :: "backup_row \<Rightarrow> bool \<Rightarrow> backups \<Rightarrow> backups" where
  "await_removal b asked s = s\<lparr>bs_removals := bs_removals s @ [(b, asked)]\<rparr>"

definition remove_begin :: "nat \<Rightarrow> string \<Rightarrow> backups \<Rightarrow> backups result" where
  "remove_begin iid bid s =
     (let p = bs_panel s in
      then_do (get_instance p iid) (\<lambda>i.
      then_do (get_backup iid bid s) (\<lambda>b.
      if bk_status b = Completed \<or> bk_status b = Failed
      then if is_connected p (i_node_id i)
           then Inr (await_removal b True (send_request (i_node_id i) (Req_Backup_Delete (i_uuid i) bid) s))
           else if bk_status b = Completed
           then Inl (conflict ''The node is not connected; the archive cannot be removed right now'')
           else Inr (await_removal b False s)
      else Inl (conflict ''The backup is still running''))))"

text \<open>The rest: \<open>answer\<close> is the agent's, or success where it was not asked.\<close>

definition remove_end :: "backup_row \<times> bool \<Rightarrow> nat \<Rightarrow> unit result \<Rightarrow> backups \<Rightarrow> backups \<times> unit result" where
  "remove_end w actor answer s =
     (let b = fst w; s' = s\<lparr>bs_removals := remove1 w (bs_removals s)\<rparr> in
      case (case answer of Inr u \<Rightarrow> Inr u
            | Inl e \<Rightarrow> if code e = ''agent_not_found'' then Inr () else Inl e) of
        Inl e \<Rightarrow> (s', Inl e)
      | Inr u \<Rightarrow> (backup_updated b (backup_audit actor ''backup.delete'' (bk_instance_id b)
          (s'\<lparr>bs_rows := filter (\<lambda>b'. bk_id b' \<noteq> bk_id b) (bs_rows s)\<rparr>)), Inr u))"

section \<open>Everything that happens\<close>

text \<open>Another handler of the panel; the rows of an instance go with it.\<close>

definition with_panel :: "panel \<Rightarrow> backups \<Rightarrow> backups" where
  "with_panel p s = s\<lparr>bs_panel := p,
     bs_rows := filter (\<lambda>b. bk_instance_id b \<in> i_id ` set (s_instances (p_store p))) (bs_rows s)\<rparr>"

text \<open>The panel's process is started anew: what it had in memory is gone, and no agent is connected.\<close>

definition restarted :: "backups \<Rightarrow> backups" where
  "restarted s = s\<lparr>bs_panel := (bs_panel s)\<lparr>p_connected := {}\<rparr>, bs_runs := [], bs_removals := []\<rparr>"

text \<open>The user who made backups is deleted: the foreign key is set to null.\<close>

definition forget_creator :: "nat \<Rightarrow> backups \<Rightarrow> backups" where
  "forget_creator who s =
     s\<lparr>bs_rows := map (\<lambda>b. if bk_created_by b = Some who then b\<lparr>bk_created_by := None\<rparr> else b) (bs_rows s)\<rparr>"

inductive backup_step :: "(string \<Rightarrow> string \<Rightarrow> bool option) \<Rightarrow> (string \<Rightarrow> string) \<Rightarrow> backups \<Rightarrow> backups \<Rightarrow> bool"
  for re_test hmac where
  bstep_create: "create_backup hmac now stamp bid limit iid actor name ignore s = Inr (x, t) \<Longrightarrow>
     backup_step re_test hmac s t"
| bstep_begin: "backup_step re_test hmac s (run_begin k s)"
| bstep_progress: "backup_step re_test hmac s (run_progress now k bytes s)"
| bstep_end: "backup_step re_test hmac s (run_end now k answer s)"
| bstep_restore: "restore_backup hmac iid bid wipe actor s = Inr t \<Longrightarrow> backup_step re_test hmac s t"
| bstep_restore_end: "backup_step re_test hmac s (fst (restore_end iid ok s))"
| bstep_remove: "remove_begin iid bid s = Inr t \<Longrightarrow> backup_step re_test hmac s t"
| bstep_remove_end: "(b, asked) \<in> set (bs_removals s) \<Longrightarrow> asked \<or> ok = Inr () \<Longrightarrow>
     backup_step re_test hmac s (fst (remove_end (b, asked) actor ok s))"
| bstep_panel: "panel_step re_test hmac (bs_panel s) p \<Longrightarrow> backup_step re_test hmac s (with_panel p s)"
| bstep_restart: "backup_step re_test hmac s (restarted s)"
| bstep_creator: "backup_step re_test hmac s (forget_creator who s)"

inductive backup_reaches :: "(string \<Rightarrow> string \<Rightarrow> bool option) \<Rightarrow> (string \<Rightarrow> string) \<Rightarrow> backups \<Rightarrow> backups \<Rightarrow> bool"
  for re_test hmac s where
  breach_refl: "backup_reaches re_test hmac s s"
| breach_step: "backup_reaches re_test hmac s t \<Longrightarrow> backup_step re_test hmac t u \<Longrightarrow> backup_reaches re_test hmac s u"

section \<open>The invariant\<close>

definition finished :: "backup_status \<Rightarrow> bool" where
  "finished st \<longleftrightarrow> st = Completed \<or> st = Failed"

text \<open>What a row's status says about its other columns.\<close>

definition row_ok :: "backup_row \<Rightarrow> bool" where
  "row_ok b \<longleftrightarrow>
     (bk_status b = Completed \<longrightarrow> bk_size b = Some (bk_progress b) \<and> bk_sha256 b \<noteq> None \<and> bk_files b \<noteq> None
        \<and> bk_error b = None)
     \<and> (bk_status b = Failed \<longrightarrow> bk_error b \<noteq> None)
     \<and> (bk_status b \<noteq> Completed \<longrightarrow> bk_size b = None \<and> bk_sha256 b = None \<and> bk_files b = None)
     \<and> (bk_completed_at b \<noteq> None \<longleftrightarrow> finished (bk_status b))
     \<and> (\<not> finished (bk_status b) \<longrightarrow> bk_error b = None)"

definition run_ok :: "backups \<Rightarrow> backup_run \<Rightarrow> bool" where
  "run_ok s r \<longleftrightarrow> run_id r < bs_next_id s \<and> row_ok (run_row r)
     \<and> bk_status (run_row r) = (if run_begun r then Backup_Running else Pending)
     \<and> (\<forall>b\<in>set (bs_rows s). bk_id b = run_id r \<longrightarrow> bk_status b = bk_status (run_row r))"

definition asked_to_delete :: "backups \<Rightarrow> string \<Rightarrow> bool" where
  "asked_to_delete s bid \<longleftrightarrow> (\<exists>nid u. (nid, Req_Backup_Delete u bid) \<in> set (bs_sent s))"

definition removal_ok :: "backups \<Rightarrow> backup_row \<times> bool \<Rightarrow> bool" where
  "removal_ok s w \<longleftrightarrow> bk_id (fst w) < bs_next_id s
     \<and> (\<forall>b\<in>set (bs_rows s). bk_id b = bk_id (fst w) \<longrightarrow> finished (bk_status b) \<and> (\<not> snd w \<longrightarrow> bk_status b = Failed)
          \<and> (snd w \<longrightarrow> asked_to_delete s (bk_backup_id b)))"

definition backups_inv :: "backups \<Rightarrow> bool" where
  "backups_inv s \<longleftrightarrow> panel_inv (bs_panel s)
     \<and> distinct (map bk_id (bs_rows s)) \<and> distinct (map bk_backup_id (bs_rows s))
     \<and> (\<forall>b\<in>set (bs_rows s). bk_id b < bs_next_id s \<and> row_ok b
          \<and> bk_instance_id b \<in> i_id ` set (s_instances (p_store (bs_panel s))))
     \<and> distinct (map run_id (bs_runs s)) \<and> (\<forall>r\<in>set (bs_runs s). run_ok s r)
     \<and> (\<forall>w\<in>set (bs_removals s). removal_ok s w)"

section \<open>Frames\<close>

named_theorems backup_frame

lemma backup_fields [backup_frame]:
  "bs_rows (send_request nid q s) = bs_rows s" "bs_rows (backup_updated b s) = bs_rows s"
  "bs_rows (backup_audit actor what iid s) = bs_rows s" "bs_rows (put_run r s) = bs_rows s"
  "bs_rows (drop_run k s) = bs_rows s" "bs_rows (push_row row s) = bs_rows (save_backup row s)"
  "bs_rows (await_removal b asked s) = bs_rows s" "bs_rows (restarted s) = bs_rows s"
  "bs_next_id (send_request nid q s) = bs_next_id s" "bs_next_id (backup_updated b s) = bs_next_id s"
  "bs_next_id (backup_audit actor what iid s) = bs_next_id s" "bs_next_id (put_run r s) = bs_next_id s"
  "bs_next_id (drop_run k s) = bs_next_id s" "bs_next_id (push_row row s) = bs_next_id s"
  "bs_next_id (await_removal b asked s) = bs_next_id s" "bs_next_id (restarted s) = bs_next_id s"
  "bs_runs (send_request nid q s) = bs_runs s" "bs_runs (backup_updated b s) = bs_runs s"
  "bs_runs (backup_audit actor what iid s) = bs_runs s" "bs_runs (push_row row s) = bs_runs s"
  "bs_runs (await_removal b asked s) = bs_runs s" "bs_runs (restarted s) = []"
  "bs_removals (send_request nid q s) = bs_removals s" "bs_removals (backup_updated b s) = bs_removals s"
  "bs_removals (backup_audit actor what iid s) = bs_removals s" "bs_removals (put_run r s) = bs_removals s"
  "bs_removals (drop_run k s) = bs_removals s" "bs_removals (push_row row s) = bs_removals s"
  "bs_removals (restarted s) = []"
  by (simp_all add: send_request_def backup_updated_def backup_audit_def put_run_def drop_run_def push_row_def
      save_backup_def await_removal_def restarted_def)

lemma backup_sent [backup_frame]:
  "bs_sent (send_request nid q s) = bs_sent s @ [(nid, q)]" "bs_sent (backup_updated b s) = bs_sent s"
  "bs_sent (backup_audit actor what iid s) = bs_sent s" "bs_sent (put_run r s) = bs_sent s"
  "bs_sent (drop_run k s) = bs_sent s" "bs_sent (push_row row s) = bs_sent s"
  "bs_sent (await_removal b asked s) = bs_sent s" "bs_sent (restarted s) = bs_sent s"
  "bs_panel (send_request nid q s) = bs_panel s" "bs_panel (backup_updated b s) = bs_panel s"
  "bs_panel (put_run r s) = bs_panel s" "bs_panel (drop_run k s) = bs_panel s"
  "bs_panel (push_row row s) = bs_panel s" "bs_panel (await_removal b asked s) = bs_panel s"
  by (simp_all add: send_request_def backup_updated_def backup_audit_def put_run_def drop_run_def push_row_def
      save_backup_def await_removal_def restarted_def)

lemma panel_told [backup_frame]:
  "p_store (bs_panel (backup_audit actor what iid s)) = p_store (bs_panel s)"
  "p_store (bs_panel (restarted s)) = p_store (bs_panel s)"
  "p_store (tell es p) = p_store p"
  by (simp_all add: backup_audit_def restarted_def tell_def)

lemma written_simps [simp]:
  "bk_id (written row b) = bk_id b" "bk_backup_id (written row b) = bk_backup_id b"
  "bk_instance_id (written row b) = bk_instance_id b" "bk_status (written row b) = bk_status row"
  "row_ok (written row b) = row_ok row"
  by (simp_all add: written_def row_ok_def)

lemma save_rows [simp]:
  "map bk_id (bs_rows (save_backup row s)) = map bk_id (bs_rows s)"
  "map bk_backup_id (bs_rows (save_backup row s)) = map bk_backup_id (bs_rows s)"
  by (auto simp: save_backup_def comp_def intro!: map_cong)

lemma saved_mem: "b \<in> set (bs_rows (save_backup row s)) \<longleftrightarrow>
     (\<exists>b'\<in>set (bs_rows s). b = (if bk_id b' = bk_id row then written row b' else b'))"
  by (auto simp: save_backup_def)

lemma find_runD: "find_run k s = Some r \<Longrightarrow> r \<in> set (bs_runs s) \<and> run_id r = k"
  by (auto simp: find_run_def dest: find_SomeD)

lemma panel_inv_told: "panel_inv (tell es p) = panel_inv p" "panel_inv (p\<lparr>p_connected := ns\<rparr>) = panel_inv p"
  by (simp_all add: panel_inv_def ids_distinct_def)

section \<open>The steps keep the invariant\<close>

lemma inv_effects:
  "backups_inv (backup_updated b s) = backups_inv s"
  "backups_inv (backup_audit actor what iid s) = backups_inv s"
  by (simp_all add: backups_inv_def run_ok_def removal_ok_def asked_to_delete_def backup_frame)
    (simp add: backup_audit_def panel_inv_told)

lemma removal_ok_cong:
  assumes "removal_ok s w" "bs_next_id s \<le> bs_next_id t" "set (bs_sent s) \<subseteq> set (bs_sent t)"
    and rows: "\<And>b. b \<in> set (bs_rows t) \<Longrightarrow> bk_id b = bk_id (fst w) \<Longrightarrow>
      \<exists>b'\<in>set (bs_rows s). bk_id b' = bk_id b \<and> bk_status b' = bk_status b \<and> bk_backup_id b' = bk_backup_id b"
  shows "removal_ok t w"
proof -
  have "asked_to_delete t bid" if "asked_to_delete s bid" for bid
    using that assms(3) unfolding asked_to_delete_def by blast
  with assms(1) have "finished (bk_status b) \<and> (\<not> snd w \<longrightarrow> bk_status b = Failed)
      \<and> (snd w \<longrightarrow> asked_to_delete t (bk_backup_id b))"
    if "b \<in> set (bs_rows t)" "bk_id b = bk_id (fst w)" for b
    using rows [OF that] that(2) unfolding removal_ok_def by metis
  with assms(1,2) show ?thesis unfolding removal_ok_def by auto
qed

lemma run_ok_cong:
  assumes "run_ok s r" "bs_next_id s \<le> bs_next_id t"
    and "\<And>b. b \<in> set (bs_rows t) \<Longrightarrow> bk_id b = run_id r \<Longrightarrow>
      \<exists>b'\<in>set (bs_rows s). bk_id b' = bk_id b \<and> bk_status b' = bk_status b"
  shows "run_ok t r"
  using assms unfolding run_ok_def by (metis order_less_le_trans)

lemma asked_sent: "asked_to_delete s bid \<Longrightarrow> asked_to_delete (send_request nid q s) bid"
  unfolding asked_to_delete_def backup_sent by auto

lemma removal_ok_sent: "removal_ok s w \<Longrightarrow> removal_ok (send_request nid q s) w"
  unfolding removal_ok_def backup_frame using asked_sent by blast

lemma inv_sent: "backups_inv s \<Longrightarrow> backups_inv (send_request nid q s)"
  using removal_ok_sent [of s] by (auto simp: backups_inv_def run_ok_def backup_frame)

text \<open>While a run is in memory, its row is not being removed.\<close>

lemma run_no_removal:
  assumes "backups_inv s" "r \<in> set (bs_runs s)" "w \<in> set (bs_removals s)" "b \<in> set (bs_rows s)"
    and "bk_id b = run_id r"
  shows "bk_id b \<noteq> bk_id (fst w)"
proof
  assume "bk_id b = bk_id (fst w)"
  with assms have "finished (bk_status b)" "bk_status b = bk_status (run_row r)" "run_ok s r"
    by (auto simp: backups_inv_def run_ok_def removal_ok_def)
  then show False by (auto simp: run_ok_def finished_def split: if_splits)
qed

lemma saved_inv:
  assumes inv: "backups_inv s" and r: "r \<in> set (bs_runs s)" and k: "bk_id row = run_id r" and ok: "row_ok row"
    and ids: "distinct (map run_id rs)" "set (map run_id rs) \<subseteq> set (map run_id (bs_runs s))"
    and runs: "\<And>r'. r' \<in> set rs \<Longrightarrow> (if run_id r' = run_id r then run_row r' = row \<and> run_begun r'
        \<and> bk_status row = Backup_Running else r' \<in> set (bs_runs s))"
  shows "backups_inv (push_row row (s\<lparr>bs_runs := rs\<rparr>))"
proof -
  let ?t = "s\<lparr>bs_runs := rs\<rparr>"
  have rows: "b \<in> set (bs_rows (save_backup row ?t)) \<longleftrightarrow>
      (\<exists>b'\<in>set (bs_rows s). b = (if bk_id b' = bk_id row then written row b' else b'))" for b by (simp add: saved_mem)
  have "run_ok (push_row row ?t) r'" if r': "r' \<in> set rs" for r'
  proof (cases "run_id r' = run_id r")
    case True
    with runs [OF r'] have f: "run_row r' = row" "run_begun r'" "bk_status row = Backup_Running" by auto
    have "run_id r' < bs_next_id s" using inv r True by (auto simp: backups_inv_def run_ok_def)
    with f ok k show ?thesis by (auto simp: run_ok_def backup_frame run_id_def saved_mem)
  next
    case False
    with runs [OF r'] have "r' \<in> set (bs_runs s)" by simp
    with inv have "run_ok s r'" by (simp add: backups_inv_def)
    with False k show ?thesis by (auto simp: run_ok_def backup_frame saved_mem)
  qed
  moreover have "removal_ok (push_row row ?t) w" if w: "w \<in> set (bs_removals s)" for w
  proof -
    have none: "bk_id b \<noteq> bk_id (fst w)" if "b \<in> set (bs_rows s)" "bk_id b = bk_id row" for b
      using run_no_removal [OF inv r w that(1)] that(2) k by simp
    have old: "removal_ok s w" using inv w by (simp add: backups_inv_def)
    have "b \<in> set (bs_rows s)"
      if b: "b \<in> set (bs_rows (save_backup row ?t))" "bk_id b = bk_id (fst w)" for b
    proof -
      from b(1) obtain b' where b': "b' \<in> set (bs_rows s)" "b = (if bk_id b' = bk_id row then written row b' else b')"
        unfolding rows by blast
      then have "bk_id b' = bk_id (fst w)" using b(2) by (simp split: if_splits)
      with none [OF b'(1)] b' show ?thesis by auto
    qed
    note kept = this
    show ?thesis
    proof (rule removal_ok_cong [OF old])
      fix b assume "b \<in> set (bs_rows (push_row row ?t))" "bk_id b = bk_id (fst w)"
      then have "b \<in> set (bs_rows s)" unfolding backup_frame by (rule kept)
      then show "\<exists>b'\<in>set (bs_rows s). bk_id b' = bk_id b \<and> bk_status b' = bk_status b \<and> bk_backup_id b' = bk_backup_id b"
        by blast
    qed (simp_all add: backup_frame)
  qed
  moreover have "bk_id b < bs_next_id s \<and> row_ok b \<and> bk_instance_id b \<in> i_id ` set (s_instances (p_store (bs_panel s)))"
    if "b \<in> set (bs_rows (save_backup row ?t))" for b
    using that inv ok by (auto simp: backups_inv_def saved_mem split: if_splits)
  ultimately show ?thesis using inv ids(1) unfolding backups_inv_def backup_frame by simp
qed

lemma panel_rows: "backups_inv s \<Longrightarrow> b \<in> set (bs_rows s) \<Longrightarrow>
    bk_instance_id b \<in> i_id ` set (s_instances (p_store (bs_panel s)))"
  by (simp add: backups_inv_def)

lemma put_run_saved:
  "push_row row (put_run r s) = push_row row (s\<lparr>bs_runs := map (\<lambda>r'. if run_id r' = run_id r then r else r') (bs_runs s)\<rparr>)"
  "push_row row (drop_run k s) = push_row row (s\<lparr>bs_runs := filter (\<lambda>r. run_id r \<noteq> k) (bs_runs s)\<rparr>)"
  by (simp_all add: put_run_def drop_run_def)

lemma put_ids: "map run_id (map (\<lambda>r'. if run_id r' = run_id r then r else r') rs) = map run_id rs"
  by simp

lemma put_push_inv:
  assumes inv: "backups_inv s" and r: "r \<in> set (bs_runs s)" and r': "run_id r' = run_id r" "run_begun r'"
    and row: "row_ok (run_row r')" "bk_status (run_row r') = Backup_Running"
  shows "backups_inv (push_row (run_row r') (put_run r' s))"
  unfolding put_run_saved
proof (rule saved_inv [OF inv r])
  show "bk_id (run_row r') = run_id r" using r'(1) by (simp add: run_id_def)
  show "distinct (map run_id (map (\<lambda>r''. if run_id r'' = run_id r' then r' else r'') (bs_runs s)))"
    unfolding put_ids using inv by (simp add: backups_inv_def)
  show "set (map run_id (map (\<lambda>r''. if run_id r'' = run_id r' then r' else r'') (bs_runs s))) \<subseteq> set (map run_id (bs_runs s))"
    unfolding put_ids by simp
qed (use r' row in \<open>auto split: if_splits\<close>)

lemma put_run_inv:
  assumes inv: "backups_inv s" and r: "r \<in> set (bs_runs s)" and r': "run_id r' = run_id r" "run_begun r' = run_begun r"
    and row: "row_ok (run_row r')" "bk_status (run_row r') = bk_status (run_row r)"
  shows "backups_inv (put_run r' s)"
proof -
  have "run_ok s r" using inv r by (simp add: backups_inv_def)
  then have "run_ok s r'" using r' row by (simp add: run_ok_def)
  then have runs: "\<forall>r''\<in>set (bs_runs (put_run r' s)). run_ok s r''"
    using inv by (auto simp: put_run_def backups_inv_def)
  have ids: "map run_id (bs_runs (put_run r' s)) = map run_id (bs_runs s)" by (simp add: put_run_def)
  have "run_ok (put_run r' s) x = run_ok s x" "removal_ok (put_run r' s) w = removal_ok s w" for x w
    by (simp_all add: run_ok_def removal_ok_def asked_to_delete_def backup_frame)
  with inv runs show ?thesis unfolding backups_inv_def ids backup_frame by simp
qed

lemma run_begin_inv: assumes inv: "backups_inv s" shows "backups_inv (run_begin k s)"
proof (cases "find_run k s")
  case (Some r)
  then have r: "r \<in> set (bs_runs s)" by (simp add: find_runD)
  let ?r = "r\<lparr>run_row := (run_row r)\<lparr>bk_status := Backup_Running\<rparr>, run_begun := True\<rparr>"
  have "run_ok s r" using inv r by (simp add: backups_inv_def)
  then have "row_ok (run_row ?r)" by (auto simp: run_ok_def row_ok_def finished_def split: if_splits)
  then have "backups_inv (push_row (run_row ?r) (put_run ?r s))"
    by (intro put_push_inv [OF inv r]) (simp_all add: run_id_def)
  with inv Some show ?thesis by (simp add: run_begin_def Let_def inv_sent)
qed (simp add: run_begin_def inv)

lemma run_progress_inv: assumes inv: "backups_inv s" shows "backups_inv (run_progress now k bytes s)"
proof (cases "find_run k s")
  case (Some r)
  then have r: "r \<in> set (bs_runs s)" by (simp add: find_runD)
  have ok: "run_ok s r" using inv r by (simp add: backups_inv_def)
  show ?thesis
  proof (cases "run_begun r")
    case True
    let ?row = "(run_row r)\<lparr>bk_progress := bytes\<rparr>"
    have row: "row_ok ?row" "bk_status ?row = Backup_Running"
      using ok True by (auto simp: run_ok_def row_ok_def)
    have "backups_inv (put_run (r\<lparr>run_row := ?row\<rparr>) s)"
      by (rule put_run_inv [OF inv r]) (use row in \<open>simp_all add: run_id_def\<close>)
    moreover have "backups_inv (push_row ?row (put_run (r\<lparr>run_row := ?row, run_last_push := now\<rparr>) s))"
      using put_push_inv [OF inv r, of "r\<lparr>run_row := ?row, run_last_push := now\<rparr>"] row True
      by (simp add: run_id_def)
    ultimately show ?thesis using Some True by (simp add: run_progress_def Let_def)
  qed (simp add: run_progress_def Some inv)
qed (simp add: run_progress_def inv)

lemma ended_row_ok: "row_ok row \<Longrightarrow> bk_status row = Backup_Running \<Longrightarrow> row_ok (ended_row now answer row)"
  "finished (bk_status (ended_row now answer row))" "bk_id (ended_row now answer row) = bk_id row"
  "bk_backup_id (ended_row now answer row) = bk_backup_id row"
  "bk_instance_id (ended_row now answer row) = bk_instance_id row"
  by (auto simp: ended_row_def row_ok_def finished_def split: sum.splits)

lemma run_end_inv: assumes inv: "backups_inv s" shows "backups_inv (run_end now k answer s)"
proof (cases "find_run k s")
  case (Some r)
  then have r: "r \<in> set (bs_runs s)" "run_id r = k" by (simp_all add: find_runD)
  have ok: "run_ok s r" using inv r by (simp add: backups_inv_def)
  show ?thesis
  proof (cases "run_begun r")
    case True
    have "backups_inv (push_row (ended_row now answer (run_row r)) (drop_run k s))"
      unfolding put_run_saved
    proof (rule saved_inv [OF inv r(1)])
      show "bk_id (ended_row now answer (run_row r)) = run_id r" by (simp add: ended_row_ok run_id_def)
      show "row_ok (ended_row now answer (run_row r))" using ok True by (intro ended_row_ok(1)) (auto simp: run_ok_def)
      show "distinct (map run_id (filter (\<lambda>r. run_id r \<noteq> k) (bs_runs s)))"
        using inv by (simp add: backups_inv_def distinct_map_filter)
    qed (use r(2) in auto)
    then show ?thesis using Some True by (simp add: run_end_def)
  qed (simp add: run_end_def Some inv)
qed (simp add: run_end_def inv)

lemma create_backup_Inr:
  assumes "create_backup hmac now stamp bid limit iid actor name ignore s = Inr (x, t)"
  obtains i full r where "x = bid" "get_instance (bs_panel s) iid = Inr i" "is_connected (bs_panel s) (i_node_id i)"
    "bid \<notin> bk_backup_id ` set (bs_rows s)" "limit = 0 \<or> length (filter (\<lambda>b. bk_instance_id b = iid) (bs_rows s)) < limit"
    "run_row r = new_backup now (bs_next_id s) bid iid full actor" "\<not> run_begun r"
    "t = backup_audit actor ''backup.create'' iid
       (s\<lparr>bs_rows := bs_rows s @ [run_row r], bs_next_id := Suc (bs_next_id s), bs_runs := bs_runs s @ [r]\<rparr>)"
proof -
  note c = assms [unfolded create_backup_def Let_def then_do_Inr]
  from c obtain i db where i: "get_instance (bs_panel s) iid = Inr i" "is_connected (bs_panel s) (i_node_id i)"
    "backup_database hmac (bs_panel s) i = Inr db"
    by (auto simp: backup_online_def)
  obtain full where full: "full = (case truthy (Some (js_trim name)) of Some n \<Rightarrow> n | None \<Rightarrow> i_name i @ '' '' @ stamp)" by simp
  from c i obtain def where def: "find_template (bs_panel s) (i_template_id i) = Some def"
    by (auto split: option.splits)
  define r where "r = \<lparr>run_row = new_backup now (bs_next_id s) bid iid full actor, run_node = i_node_id i,
    run_request = Req_Backup_Create (i_uuid i) bid (without_repeats (td_backup_ignore def @ volume_backup_ignore def @ ignore)) db,
    run_begun = False, run_last_push = 0\<rparr>"
  show thesis
    by (rule that [of i r full]) (use c i def in \<open>auto simp: r_def full not_less\<close>)
qed

lemma create_backup_inv:
  assumes inv: "backups_inv s" and "create_backup hmac now stamp bid limit iid actor name ignore s = Inr (x, t)"
  shows "backups_inv t"
proof -
  from assms(2) obtain i r full where c: "get_instance (bs_panel s) iid = Inr i"
      "bid \<notin> bk_backup_id ` set (bs_rows s)" "run_row r = new_backup now (bs_next_id s) bid iid full actor"
      "\<not> run_begun r"
      "t = backup_audit actor ''backup.create'' iid
        (s\<lparr>bs_rows := bs_rows s @ [run_row r], bs_next_id := Suc (bs_next_id s), bs_runs := bs_runs s @ [r]\<rparr>)"
    by (rule create_backup_Inr)
  define row where "row = run_row r"
  define u where "u = s\<lparr>bs_rows := bs_rows s @ [row], bs_next_id := Suc (bs_next_id s), bs_runs := bs_runs s @ [r]\<rparr>"
  have new: "bk_id row = bs_next_id s" "bk_backup_id row = bid" "bk_instance_id row = iid" "bk_status row = Pending"
    "row_ok row" "run_id r = bs_next_id s"
    using c(3) by (simp_all add: row_def new_backup_def row_ok_def finished_def run_id_def)
  have below: "\<forall>b\<in>set (bs_rows s). bk_id b < bs_next_id s" "\<forall>r\<in>set (bs_runs s). run_id r < bs_next_id s"
    "\<forall>w\<in>set (bs_removals s). bk_id (fst w) < bs_next_id s"
    using inv by (auto simp: backups_inv_def run_ok_def removal_ok_def)
  have "i \<in> set (s_instances (p_store (bs_panel s)))" "i_id i = iid" using found_identity c(1) by auto
  then have here: "iid \<in> i_id ` set (s_instances (p_store (bs_panel s)))" by blast
  have "run_ok u r'" if "r' \<in> set (bs_runs s)" for r'
  proof (rule run_ok_cong)
    show "run_ok s r'" using inv that by (simp add: backups_inv_def)
  qed (use below(2) that new(1) in \<open>auto simp: u_def\<close>)
  moreover have "run_ok u r" using new below(1) c(4) by (auto simp: run_ok_def u_def row_def)
  moreover have "removal_ok u w" if "w \<in> set (bs_removals s)" for w
  proof (rule removal_ok_cong)
    show "removal_ok s w" using inv that by (simp add: backups_inv_def)
  qed (use below(3) that new(1) in \<open>auto simp: u_def\<close>)
  moreover have "distinct (map bk_id (bs_rows u)) \<and> distinct (map bk_backup_id (bs_rows u)) \<and> distinct (map run_id (bs_runs u))"
    using inv below(1,2) new c(2) by (auto simp: backups_inv_def u_def)
  ultimately have "backups_inv u"
    using inv new here by (auto simp: backups_inv_def u_def less_Suc_eq)
  then show ?thesis by (simp add: c(5) u_def row_def inv_effects)
qed

lemma get_backup_Inr: "get_backup iid bid s = Inr b \<Longrightarrow> b \<in> set (bs_rows s) \<and> bk_instance_id b = iid \<and> bk_backup_id b = bid"
  by (auto simp: get_backup_def dest: find_SomeD split: option.splits)

lemma restore_backup_Inr:
  assumes "restore_backup hmac iid bid wipe actor s = Inr t"
  obtains i b db where "get_instance (bs_panel s) iid = Inr i" "is_connected (bs_panel s) (i_node_id i)"
    "get_backup iid bid s = Inr b" "bk_status b = Completed" "i_status i \<notin> set busy_statuses"
    "backup_database hmac (bs_panel s) i = Inr db"
    "t = send_request (i_node_id i) (Req_Backup_Restore (i_uuid i) bid wipe db) (backup_audit actor ''backup.restore'' iid s)"
  using assms unfolding restore_backup_def Let_def then_do_Inr by (auto simp: backup_online_def)

lemma remove_begin_Inr:
  assumes "remove_begin iid bid s = Inr t"
  obtains i b where "get_instance (bs_panel s) iid = Inr i" "get_backup iid bid s = Inr b" "finished (bk_status b)"
    "t = await_removal b True (send_request (i_node_id i) (Req_Backup_Delete (i_uuid i) bid) s)
       \<or> t = await_removal b False s \<and> bk_status b = Failed"
  using assms unfolding remove_begin_def Let_def then_do_Inr by (auto simp: finished_def split: if_splits)

lemma same_row_id: "backups_inv s \<Longrightarrow> b \<in> set (bs_rows s) \<Longrightarrow> b' \<in> set (bs_rows s) \<Longrightarrow> bk_id b' = bk_id b \<Longrightarrow> b' = b"
  by (auto simp: backups_inv_def distinct_map inj_on_def)

lemma await_inv:
  assumes inv: "backups_inv s" and b: "b \<in> set (bs_rows s)" "finished (bk_status b)"
    and asked: "asked \<Longrightarrow> asked_to_delete s (bk_backup_id b)" "\<not> asked \<Longrightarrow> bk_status b = Failed"
  shows "backups_inv (await_removal b asked s)"
proof -
  have "removal_ok s (b, asked)"
    unfolding removal_ok_def using inv b asked same_row_id [OF inv b(1)] by (auto simp: backups_inv_def)
  moreover have "removal_ok (await_removal b asked s) w = removal_ok s w"
    "run_ok (await_removal b asked s) r = run_ok s r" for w r
    by (simp_all add: removal_ok_def run_ok_def asked_to_delete_def backup_frame)
  moreover have "bs_removals (await_removal b asked s) = bs_removals s @ [(b, asked)]" by (simp add: await_removal_def)
  ultimately show ?thesis using inv by (auto simp: backups_inv_def backup_frame)
qed

lemma remove_begin_inv:
  assumes inv: "backups_inv s" and "remove_begin iid bid s = Inr t"
  shows "backups_inv t"
  using assms(2)
proof (rule remove_begin_Inr)
  fix i b
  assume b: "get_backup iid bid s = Inr b" "finished (bk_status b)"
    and t: "t = await_removal b True (send_request (i_node_id i) (Req_Backup_Delete (i_uuid i) bid) s)
       \<or> t = await_removal b False s \<and> bk_status b = Failed"
  let ?u = "send_request (i_node_id i) (Req_Backup_Delete (i_uuid i) bid) s"
  from b have mem: "b \<in> set (bs_rows s)" "bk_backup_id b = bid" by (simp_all add: get_backup_Inr)
  have "asked_to_delete ?u (bk_backup_id b)" using mem(2) by (auto simp: asked_to_delete_def backup_frame)
  then have "backups_inv (await_removal b True ?u)"
    using mem(1) b(2) inv_sent [OF inv] by (intro await_inv) (simp_all add: backup_frame)
  moreover have "backups_inv (await_removal b False s)" if "bk_status b = Failed"
    using mem(1) b(2) inv that by (intro await_inv) simp_all
  ultimately show ?thesis using t by blast
qed

text \<open>Keeping some rows, removals and runs, with a panel that still has the instances of the rows.\<close>

lemma fewer_rows_inv:
  assumes inv: "backups_inv s" and "bs_next_id t = bs_next_id s" "set (bs_sent s) \<subseteq> set (bs_sent t)" "panel_inv (bs_panel t)"
    and rows: "bs_rows t = filter P (bs_rows s)" and runs: "bs_runs t = bs_runs s \<or> bs_runs t = []"
    and removals: "set (bs_removals t) \<subseteq> set (bs_removals s)"
    and here: "\<And>b. b \<in> set (bs_rows t) \<Longrightarrow> bk_instance_id b \<in> i_id ` set (s_instances (p_store (bs_panel t)))"
  shows "backups_inv t"
proof -
  have "run_ok t r" if "r \<in> set (bs_runs s)" for r
    using inv that assms(2) rows by (intro run_ok_cong [of s r t]) (auto simp: backups_inv_def)
  moreover have "removal_ok t w" if "w \<in> set (bs_removals s)" for w
    using inv that assms(2,3) rows by (intro removal_ok_cong [of s w t]) (auto simp: backups_inv_def)
  ultimately show ?thesis
    using inv assms(2,4) runs removals here unfolding backups_inv_def rows
    by (auto simp: distinct_map_filter)
qed

lemma remove_end_fields: assumes "t = fst (remove_end w actor answer s)"
  shows "bs_next_id t = bs_next_id s" "bs_sent t = bs_sent s" "p_store (bs_panel t) = p_store (bs_panel s)"
    "panel_inv (bs_panel t) = panel_inv (bs_panel s)" "bs_runs t = bs_runs s"
    "set (bs_removals t) \<subseteq> set (bs_removals s)"
    "bs_rows t = bs_rows s \<or> bs_rows t = filter (\<lambda>b. bk_id b \<noteq> bk_id (fst w)) (bs_rows s)"
  unfolding assms remove_end_def Let_def
  by (auto simp: backup_frame backup_audit_def panel_inv_told split: sum.splits dest: notin_set_remove1 in_set_remove1
      intro: set_mp [OF set_remove1_subset])

lemma forget_creator_inv: assumes inv: "backups_inv s" shows "backups_inv (forget_creator who s)"
proof -
  let ?f = "\<lambda>b. if bk_created_by b = Some who then b\<lparr>bk_created_by := None\<rparr> else b"
  let ?t = "forget_creator who s"
  have f: "bk_id (?f b) = bk_id b" "bk_backup_id (?f b) = bk_backup_id b" "bk_instance_id (?f b) = bk_instance_id b"
    "bk_status (?f b) = bk_status b" "row_ok (?f b) = row_ok b" for b
    by (simp_all add: row_ok_def)
  have t: "bs_rows ?t = map ?f (bs_rows s)" "bs_next_id ?t = bs_next_id s" "bs_runs ?t = bs_runs s"
    "bs_removals ?t = bs_removals s" "bs_sent ?t = bs_sent s" "bs_panel ?t = bs_panel s"
    by (simp_all add: forget_creator_def)
  have maps: "map bk_id (bs_rows ?t) = map bk_id (bs_rows s)" "map bk_backup_id (bs_rows ?t) = map bk_backup_id (bs_rows s)"
    unfolding t(1) list.map_comp by (simp_all only: comp_def f)
  have "run_ok ?t r" if "run_ok s r" for r
    using that by (rule run_ok_cong) (auto simp: t(1,2))
  moreover have "removal_ok ?t w" if "removal_ok s w" for w
    using that by (rule removal_ok_cong) (auto simp: t(1,2,5))
  moreover have "bk_id b < bs_next_id s \<and> row_ok b \<and> bk_instance_id b \<in> i_id ` set (s_instances (p_store (bs_panel s)))"
    if "b \<in> set (bs_rows ?t)" for b
  proof -
    from that obtain b' where "b' \<in> set (bs_rows s)" "b = ?f b'" unfolding t(1) by auto
    with inv show ?thesis by (simp add: backups_inv_def f del: if_split)
  qed
  ultimately show ?thesis using inv unfolding backups_inv_def maps t(2-6) by simp
qed

lemma backup_step_inv: "backup_step re_test hmac s t \<Longrightarrow> backups_inv s \<Longrightarrow> backups_inv t"
proof (induction rule: backup_step.induct)
  case (bstep_create now stamp bid limit iid actor name ignore s x t)
  then show ?case using create_backup_inv by blast
next
  case (bstep_begin s k)
  then show ?case by (rule run_begin_inv)
next
  case (bstep_progress s now k bytes)
  then show ?case by (rule run_progress_inv)
next
  case (bstep_end s now k answer)
  then show ?case by (rule run_end_inv)
next
  case (bstep_restore iid bid wipe actor s t)
  from this(1) show ?case by (rule restore_backup_Inr) (simp add: bstep_restore.prems inv_sent inv_effects)
next
  case (bstep_restore_end s iid ok)
  then show ?case
    by (auto simp: restore_end_def backups_inv_def panel_inv_told run_ok_def removal_ok_def asked_to_delete_def
        tell_def panel_inv_def ids_distinct_def split: sum.splits)
next
  case (bstep_remove iid bid s t)
  then show ?case using remove_begin_inv by blast
next
  case (bstep_remove_end b asked s ok actor)
  let ?t = "fst (remove_end (b, asked) actor ok s)"
  note f = remove_end_fields [of ?t, OF refl]
  have "bs_rows ?t = filter (\<lambda>_. True) (bs_rows s) \<or> bs_rows ?t = filter (\<lambda>b'. bk_id b' \<noteq> bk_id b) (bs_rows s)"
    using f(7) by simp
  then obtain P where rows: "bs_rows ?t = filter P (bs_rows s)" by blast
  have "panel_inv (bs_panel s)" using bstep_remove_end.prems by (simp add: backups_inv_def)
  then show ?case
    using f rows panel_rows [OF bstep_remove_end.prems]
    by (intro fewer_rows_inv [OF bstep_remove_end.prems, of ?t P]) auto
next
  case (bstep_panel s p)
  then have "panel_inv p" using panel_step_inv by (auto simp: backups_inv_def)
  then show ?case
    by (intro fewer_rows_inv [OF bstep_panel.prems, of _ "\<lambda>b. bk_instance_id b \<in> i_id ` set (s_instances (p_store p))"])
      (auto simp: with_panel_def)
next
  case (bstep_restart s)
  have "panel_inv (bs_panel (restarted s))" using bstep_restart by (simp add: backups_inv_def restarted_def panel_inv_told)
  then show ?case
    using panel_rows [OF bstep_restart]
    by (intro fewer_rows_inv [OF bstep_restart, of _ "\<lambda>_. True"]) (auto simp: backup_frame)
next
  case (bstep_creator s who)
  then show ?case by (rule forget_creator_inv)
qed

text \<open>C28. Whatever happens to backups and around them, restarts of the panel included: identifiers stay
  unique, a row belongs to an existing instance and its columns agree with its status (a completed backup has
  its size, digest and file count, a failed one its error), a run in memory writes to a row that is still
  pending or running, and only finished backups are being removed.\<close>

theorem backup_tables_kept:
  assumes "backups_inv s" and "backup_reaches re_test hmac s t"
  shows "backups_inv t"
  using assms(2) by induction (use assms(1) backup_step_inv in blast)+

section \<open>Backups nobody works on\<close>

definition same_backup :: "backup_row \<Rightarrow> backup_row \<Rightarrow> bool" where
  "same_backup b b' \<longleftrightarrow> b'\<lparr>bk_created_by := bk_created_by b\<rparr> = b"

definition at_rest :: "backups \<Rightarrow> backup_row \<Rightarrow> bool" where
  "at_rest s b \<longleftrightarrow> b \<in> set (bs_rows s) \<and> bk_id b \<notin> run_id ` set (bs_runs s)"

definition gone :: "backups \<Rightarrow> backup_row \<Rightarrow> bool" where
  "gone s b \<longleftrightarrow> bk_id b < bs_next_id s \<and> bk_id b \<notin> bk_id ` set (bs_rows s)"

lemma same_backup_simps: "same_backup b b' \<Longrightarrow> bk_id b' = bk_id b \<and> bk_status b' = bk_status b
    \<and> bk_backup_id b' = bk_backup_id b \<and> bk_instance_id b' = bk_instance_id b"
  by (cases b; cases b') (simp add: same_backup_def)

lemma same_backup_refl [simp]: "same_backup b b"
  by (simp add: same_backup_def)

lemma same_backup_trans: "same_backup a b \<Longrightarrow> same_backup b c \<Longrightarrow> same_backup a c"
  by (cases a; cases b; cases c) (simp add: same_backup_def)

lemma finished_at_rest:
  assumes "backups_inv s" "b \<in> set (bs_rows s)" "finished (bk_status b)"
  shows "at_rest s b"
proof -
  have "bk_id b \<noteq> run_id r" if "r \<in> set (bs_runs s)" for r
    using assms that by (fastforce simp: backups_inv_def run_ok_def finished_def split: if_splits)
  with assms show ?thesis by (auto simp: at_rest_def)
qed

lemma at_rest_saved:
  assumes "at_rest s b" "r \<in> set (bs_runs s)" "bk_id row = run_id r" "bs_rows s' = bs_rows s"
  shows "b \<in> set (bs_rows (save_backup row s'))"
proof -
  have "bk_id b \<noteq> bk_id row" using assms by (auto simp: at_rest_def)
  with assms(1,4) show ?thesis unfolding saved_mem by (auto simp: at_rest_def intro!: bexI [of _ b])
qed

text \<open>The runs a step on one run leaves.\<close>

lemma run_steps_ids:
  "run_id ` set (bs_runs (run_begin k s)) \<subseteq> run_id ` set (bs_runs s)"
  "run_id ` set (bs_runs (run_progress now k bytes s)) \<subseteq> run_id ` set (bs_runs s)"
  "run_id ` set (bs_runs (run_end now k answer s)) \<subseteq> run_id ` set (bs_runs s)"
  by (auto simp: run_begin_def run_progress_def run_end_def Let_def backup_frame put_run_def drop_run_def run_id_def
      dest!: find_runD split: option.splits if_splits)

lemma run_steps_rows:
  assumes "at_rest s b"
  shows "b \<in> set (bs_rows (run_begin k s))" "b \<in> set (bs_rows (run_progress now k bytes s))"
    "b \<in> set (bs_rows (run_end now k answer s))"
proof -
  have b: "b \<in> set (bs_rows s)" using assms by (simp add: at_rest_def)
  note saved = at_rest_saved [OF assms]
  show "b \<in> set (bs_rows (run_begin k s))"
  proof (cases "find_run k s")
    case (Some r)
    then have "r \<in> set (bs_runs s)" by (simp add: find_runD)
    with b show ?thesis
      by (auto simp: run_begin_def Some Let_def backup_frame run_id_def intro!: saved [of r])
  qed (simp add: run_begin_def b)
  show "b \<in> set (bs_rows (run_progress now k bytes s))"
  proof (cases "find_run k s")
    case (Some r)
    then have "r \<in> set (bs_runs s)" by (simp add: find_runD)
    with b show ?thesis
      by (auto simp: run_progress_def Some Let_def backup_frame run_id_def intro!: saved [of r])
  qed (simp add: run_progress_def b)
  show "b \<in> set (bs_rows (run_end now k answer s))"
  proof (cases "find_run k s")
    case (Some r)
    then have "r \<in> set (bs_runs s)" by (simp add: find_runD)
    with b show ?thesis
      by (auto simp: run_end_def Some Let_def backup_frame run_id_def ended_row_ok intro!: saved [of r])
  qed (simp add: run_end_def b)
qed

lemma run_steps_frame:
  "bs_next_id (run_begin k s) = bs_next_id s" "bs_next_id (run_progress now k bytes s) = bs_next_id s"
  "bs_next_id (run_end now k answer s) = bs_next_id s"
  "bk_id ` set (bs_rows (run_begin k s)) = bk_id ` set (bs_rows s)"
  "bk_id ` set (bs_rows (run_progress now k bytes s)) = bk_id ` set (bs_rows s)"
  "bk_id ` set (bs_rows (run_end now k answer s)) = bk_id ` set (bs_rows s)"
  by (simp_all add: run_begin_def run_progress_def run_end_def Let_def backup_frame set_map [symmetric]
      del: set_map split: option.split)

lemma restore_end_frame:
  "bs_rows (fst (restore_end iid ok s)) = bs_rows s" "bs_runs (fst (restore_end iid ok s)) = bs_runs s"
  "bs_next_id (fst (restore_end iid ok s)) = bs_next_id s" "bs_sent (fst (restore_end iid ok s)) = bs_sent s"
  by (simp_all add: restore_end_def split: sum.split)

lemma remove_begin_frame:
  assumes "remove_begin iid bid s = Inr t"
  shows "bs_rows t = bs_rows s" "bs_runs t = bs_runs s" "bs_next_id t = bs_next_id s"
  using assms by (auto elim!: remove_begin_Inr simp: backup_frame)

text \<open>Identifiers are never used again.\<close>

lemma step_ids:
  assumes "backup_step re_test hmac s t"
  shows "bs_next_id s \<le> bs_next_id t \<and> bk_id ` set (bs_rows t) \<subseteq> insert (bs_next_id s) (bk_id ` set (bs_rows s))"
  using assms
proof cases
  case (bstep_create now stamp bid limit iid actor name ignore x)
  from this show ?thesis
    by (elim create_backup_Inr) (auto simp: backup_frame new_backup_def)
next
  case (bstep_restore iid bid wipe actor)
  from this show ?thesis by (elim restore_backup_Inr) (auto simp: backup_frame)
next
  case (bstep_remove iid bid)
  with remove_begin_frame [OF this] show ?thesis by auto
next
  case (bstep_remove_end b asked ok actor)
  with remove_end_fields [of t "(b, asked)" actor ok s] show ?thesis by auto
qed (auto simp: run_steps_frame restore_end_frame with_panel_def backup_frame forget_creator_def)

lemma gone_step: "gone s b \<Longrightarrow> backup_step re_test hmac s t \<Longrightarrow> gone t b"
  using step_ids [of re_test hmac s t] unfolding gone_def by auto

lemma run_steps_sent:
  "set (bs_sent s) \<subseteq> set (bs_sent (run_begin k s))" "bs_sent (run_progress now k bytes s) = bs_sent s"
  "bs_sent (run_end now k answer s) = bs_sent s"
  by (auto simp: run_begin_def run_progress_def run_end_def Let_def backup_frame split: option.split)

lemma step_sent: "backup_step re_test hmac s t \<Longrightarrow> asked_to_delete s bid \<Longrightarrow> asked_to_delete t bid"
proof -
  assume step: "backup_step re_test hmac s t" and asked: "asked_to_delete s bid"
  from step have "set (bs_sent s) \<subseteq> set (bs_sent t)"
  proof cases
    case (bstep_create now stamp bid limit iid actor name ignore x)
    from this show ?thesis by (elim create_backup_Inr) (auto simp: backup_frame)
  next
    case (bstep_restore iid bid wipe actor)
    from this show ?thesis by (elim restore_backup_Inr) (auto simp: backup_frame)
  next
    case (bstep_remove iid bid)
    from this show ?thesis by (elim remove_begin_Inr) (auto simp: backup_frame)
  next
    case (bstep_remove_end b asked ok actor)
    with remove_end_fields [of t "(b, asked)" actor ok s] show ?thesis by auto
  qed (use run_steps_sent in \<open>auto simp: restore_end_frame with_panel_def backup_frame forget_creator_def\<close>)
  with asked show ?thesis by (auto simp: asked_to_delete_def)
qed

lemma rest_step:
  assumes "backup_step re_test hmac s t" and inv: "backups_inv s" and rest: "at_rest s b"
  shows "(\<exists>b'. same_backup b b' \<and> at_rest t b')
    \<or> gone t b \<and> (bk_instance_id b \<notin> i_id ` set (s_instances (p_store (bs_panel t)))
        \<or> finished (bk_status b) \<and> (bk_status b = Failed \<or> asked_to_delete t (bk_backup_id b)))"
proof -
  have b: "b \<in> set (bs_rows s)" "bk_id b \<notin> run_id ` set (bs_runs s)" using rest by (simp_all add: at_rest_def)
  have below: "bk_id b < bs_next_id s" using inv b(1) by (simp add: backups_inv_def)
  have stays: ?thesis if "b \<in> set (bs_rows t)" "run_id ` set (bs_runs t) \<subseteq> run_id ` set (bs_runs s)"
    using that b(2) by (intro disjI1 exI [of _ b]) (auto simp: at_rest_def)
  from assms(1) show ?thesis
  proof cases
    case (bstep_create now stamp bid limit iid actor name ignore x)
    from this have "b \<in> set (bs_rows t)" "bk_id b \<notin> run_id ` set (bs_runs t)"
      using b below by (elim create_backup_Inr; auto simp: backup_frame run_id_def new_backup_def)+
    then show ?thesis using same_backup_refl by (auto simp: at_rest_def)
  next
    case (bstep_begin k)
    then show ?thesis using stays run_steps_ids run_steps_rows [OF rest] by simp
  next
    case (bstep_progress now k bytes)
    then show ?thesis using stays run_steps_ids run_steps_rows [OF rest] by simp
  next
    case (bstep_end now k answer)
    then show ?thesis using stays run_steps_ids run_steps_rows [OF rest] by simp
  next
    case (bstep_restore iid bid wipe actor)
    from this have "bs_rows t = bs_rows s" "bs_runs t = bs_runs s"
      by (elim restore_backup_Inr; simp add: backup_frame)+
    then show ?thesis using stays b by simp
  next
    case (bstep_restore_end iid ok)
    then show ?thesis using stays b by (simp add: restore_end_frame)
  next
    case (bstep_remove iid bid)
    then show ?thesis using stays b remove_begin_frame by simp
  next
    case (bstep_remove_end b0 asked ok actor)
    note f = remove_end_fields [OF bstep_remove_end(1)]
    show ?thesis
    proof (cases "b \<in> set (bs_rows t)")
      case False
      with b f(7) have id: "bk_id b = bk_id b0" and rows: "bs_rows t = filter (\<lambda>b. bk_id b \<noteq> bk_id b0) (bs_rows s)"
        by auto
      have "removal_ok s (b0, asked)" using inv bstep_remove_end(2) by (simp add: backups_inv_def)
      with id b(1) have "finished (bk_status b) \<and> (bk_status b = Failed \<or> asked_to_delete s (bk_backup_id b))"
        by (auto simp: removal_ok_def)
      moreover have "gone t b" using below f(1) rows id by (auto simp: gone_def)
      ultimately show ?thesis using step_sent [OF assms(1)] by blast
    qed (use stays f(5) in simp)
  next
    case (bstep_panel p)
    show ?thesis
    proof (cases "bk_instance_id b \<in> i_id ` set (s_instances (p_store p))")
      case True
      then show ?thesis using stays b bstep_panel by (simp add: with_panel_def)
    next
      case False
      have "bk_id b' \<noteq> bk_id b" if "b' \<in> set (bs_rows t)" for b'
      proof
        assume "bk_id b' = bk_id b"
        moreover have "b' \<in> set (bs_rows s)" "bk_instance_id b' \<in> i_id ` set (s_instances (p_store p))"
          using that bstep_panel by (simp_all add: with_panel_def)
        ultimately show False using same_row_id [OF inv b(1)] False by blast
      qed
      then have "bk_id b \<notin> bk_id ` set (bs_rows t)" by force
      moreover have "bs_next_id t = bs_next_id s" using bstep_panel by (simp add: with_panel_def)
      ultimately have "gone t b" using below by (simp add: gone_def)
      then show ?thesis using False bstep_panel by (simp add: with_panel_def)
    qed
  next
    case bstep_restart
    then show ?thesis using stays b by (simp add: backup_frame)
  next
    case (bstep_creator who)
    let ?b = "if bk_created_by b = Some who then b\<lparr>bk_created_by := None\<rparr> else b"
    have "?b \<in> set (bs_rows t)" using b(1) bstep_creator by (auto simp: forget_creator_def)
    moreover have "bs_runs t = bs_runs s" using bstep_creator by (simp add: forget_creator_def)
    moreover have "same_backup b ?b" by (simp add: same_backup_def)
    ultimately have "same_backup b ?b \<and> at_rest t ?b"
      using b(2) same_backup_simps [of b ?b] unfolding at_rest_def by metis
    then show ?thesis by blast
  qed
qed

lemma breach_trans: "backup_reaches re_test hmac s t \<Longrightarrow> backup_reaches re_test hmac t u \<Longrightarrow> backup_reaches re_test hmac s u"
  by (rotate_tac 1, induction rule: backup_reaches.induct) (auto intro: breach_step)

text \<open>At some moment between, the instance did not exist.\<close>

definition instance_deleted :: "(string \<Rightarrow> string \<Rightarrow> bool option) \<Rightarrow> (string \<Rightarrow> string) \<Rightarrow> nat \<Rightarrow> backups \<Rightarrow> backups \<Rightarrow> bool" where
  "instance_deleted re_test hmac iid s t \<longleftrightarrow> (\<exists>u. backup_reaches re_test hmac s u \<and> backup_reaches re_test hmac u t
     \<and> iid \<notin> i_id ` set (s_instances (p_store (bs_panel u))))"

lemma rest_reaches:
  assumes "backup_reaches re_test hmac s t" and inv: "backups_inv s" and rest: "at_rest s b"
  shows "(\<exists>b'. same_backup b b' \<and> at_rest t b')
    \<or> gone t b \<and> (instance_deleted re_test hmac (bk_instance_id b) s t
        \<or> finished (bk_status b) \<and> (bk_status b = Failed \<or> asked_to_delete t (bk_backup_id b)))"
  using assms(1)
proof induction
  case breach_refl
  then show ?case using rest same_backup_refl by blast
next
  case (breach_step t u)
  have inv_t: "backups_inv t" using breach_step.hyps(1) inv backup_tables_kept by blast
  have reach: "backup_reaches re_test hmac s u" by (rule backup_reaches.breach_step [OF breach_step.hyps])
  from breach_step.IH show ?case
  proof
    assume "\<exists>b'. same_backup b b' \<and> at_rest t b'"
    then obtain b' where b': "same_backup b b'" "at_rest t b'" by blast
    note fields = same_backup_simps [OF b'(1)]
    from rest_step [OF breach_step.hyps(2) inv_t b'(2)] show ?thesis
    proof
      assume "\<exists>c. same_backup b' c \<and> at_rest u c"
      then show ?thesis using same_backup_trans [OF b'(1)] by blast
    next
      assume why: "gone u b' \<and> (bk_instance_id b' \<notin> i_id ` set (s_instances (p_store (bs_panel u)))
        \<or> finished (bk_status b') \<and> (bk_status b' = Failed \<or> asked_to_delete u (bk_backup_id b')))"
      moreover have "gone u b" using why fields by (simp add: gone_def)
      moreover have "instance_deleted re_test hmac (bk_instance_id b) s u"
        if "bk_instance_id b \<notin> i_id ` set (s_instances (p_store (bs_panel u)))"
        unfolding instance_deleted_def using reach backup_reaches.breach_refl that by blast
      ultimately show ?thesis using fields by auto
    qed
  next
    assume why: "gone t b \<and> (instance_deleted re_test hmac (bk_instance_id b) s t
        \<or> finished (bk_status b) \<and> (bk_status b = Failed \<or> asked_to_delete t (bk_backup_id b)))"
    have "instance_deleted re_test hmac (bk_instance_id b) s u" if "instance_deleted re_test hmac (bk_instance_id b) s t"
      using that backup_reaches.breach_step [OF _ breach_step.hyps(2)] unfolding instance_deleted_def by blast
    then show ?thesis using why gone_step [OF _ breach_step.hyps(2)] step_sent [OF breach_step.hyps(2)] by blast
  qed
qed


text \<open>C13. A backup that was pending or running when the panel restarted keeps that status for good: nothing
  picks it up, it can neither be restored nor removed, and it counts towards the limit, until its instance
  is deleted.\<close>

theorem interrupted_backup_stuck:
  assumes "backups_inv s" "backup_reaches re_test hmac (restarted s) t" "b \<in> set (bs_rows s)" "\<not> finished (bk_status b)"
  shows "(\<exists>b'\<in>set (bs_rows t). same_backup b b')
      \<and> (\<nexists>u. remove_begin (bk_instance_id b) (bk_backup_id b) t = Inr u)
      \<and> (\<nexists>wipe actor u. restore_backup hmac (bk_instance_id b) (bk_backup_id b) wipe actor t = Inr u)
      \<and> (\<nexists>now stamp bid actor name ignore u. create_backup hmac now stamp bid 1 (bk_instance_id b) actor name ignore t = Inr u)
    \<or> gone t b \<and> instance_deleted re_test hmac (bk_instance_id b) (restarted s) t"
proof -
  have inv: "backups_inv (restarted s)" using backup_step_inv [OF bstep_restart] assms(1) by blast
  have "at_rest (restarted s) b" using assms(3) by (simp add: at_rest_def backup_frame)
  from rest_reaches [OF assms(2) inv this] assms(4)
  consider b' where "same_backup b b'" "at_rest t b'"
    | "gone t b \<and> instance_deleted re_test hmac (bk_instance_id b) (restarted s) t" by blast
  then show ?thesis
  proof cases
    case 1
    then have mem: "b' \<in> set (bs_rows t)" by (simp add: at_rest_def)
    note f = same_backup_simps [OF 1(1)]
    have inv_t: "backups_inv t" using backup_tables_kept [OF inv assms(2)] .
    have same: "c = b'" if "get_backup (bk_instance_id b) (bk_backup_id b) t = Inr c" for c
    proof -
      from get_backup_Inr [OF that] f have "c \<in> set (bs_rows t)" "bk_backup_id c = bk_backup_id b'" by simp_all
      with inv_t mem show ?thesis by (auto simp: backups_inv_def distinct_map inj_on_def)
    qed
    have "\<not> finished (bk_status c)" if "get_backup (bk_instance_id b) (bk_backup_id b) t = Inr c" for c
      using same [OF that] f assms(4) by simp
    then have "\<nexists>u. remove_begin (bk_instance_id b) (bk_backup_id b) t = Inr u"
      "\<nexists>wipe actor u. restore_backup hmac (bk_instance_id b) (bk_backup_id b) wipe actor t = Inr u"
      by (auto elim!: remove_begin_Inr restore_backup_Inr simp: finished_def)
    moreover have "b' \<in> set (filter (\<lambda>b'. bk_instance_id b' = bk_instance_id b) (bs_rows t))" using mem f by simp
    then have "0 < length (filter (\<lambda>b'. bk_instance_id b' = bk_instance_id b) (bs_rows t))" by (rule length_pos_if_in_set)
    then have "\<nexists>now stamp bid actor name ignore u. create_backup hmac now stamp bid 1 (bk_instance_id b) actor name ignore t = Inr u"
      by (auto elim!: create_backup_Inr)
    ultimately show ?thesis using mem 1(1) by blast
  qed blast
qed

section \<open>Witnesses\<close>

definition cut_short :: backup_row where
  "cut_short = new_backup 5 1 ''b1'' 1 ''nightly'' 5"

definition stored :: backup_row where
  "stored = ended_row 9 (Inr \<lparr>ar_size = 7, ar_sha256 = ''aa'', ar_files = 1\<rparr>) (new_backup 5 2 ''b2'' 1 ''weekly'' 5)"

definition sample_backups :: backups where
  "sample_backups = \<lparr>bs_panel = sample_panel, bs_rows = [cut_short, stored], bs_next_id = 3, bs_runs = [],
     bs_sent = [], bs_removals = [], bs_updated = []\<rparr>"

lemma sample_backups_inv: "backups_inv sample_backups"
proof -
  have "row_ok cut_short \<and> row_ok stored"
    by (simp add: cut_short_def stored_def new_backup_def ended_row_def row_ok_def finished_def)
  then show ?thesis
    by (simp add: backups_inv_def sample_backups_def sample_panel_inv)
      (simp add: cut_short_def stored_def new_backup_def ended_row_def sample_panel_def sample_store_defs)
qed

lemma sample_restarts: "backup_reaches (\<lambda>_ _. None) (\<lambda>m. m) sample_backups (restarted sample_backups)"
  by (rule breach_step [OF breach_refl bstep_restart])

theorem backup_tables_kept_witness: "backups_inv (restarted sample_backups)"
  by (rule backup_tables_kept [OF sample_backups_inv sample_restarts])


theorem interrupted_backup_stuck_witness:
  "\<nexists>u. remove_begin 1 ''b1'' (restarted sample_backups) = Inr u"
proof -
  have "cut_short \<in> set (bs_rows sample_backups)" "\<not> finished (bk_status cut_short)"
    "\<not> gone (restarted sample_backups) cut_short" "bk_instance_id cut_short = 1" "bk_backup_id cut_short = ''b1''"
    by (simp_all add: sample_backups_def cut_short_def new_backup_def finished_def gone_def backup_frame)
  then show ?thesis using interrupted_backup_stuck [OF sample_backups_inv breach_refl, of cut_short] by auto
qed

end
