(* ===== verification/Releases.thy ===== *)
theory Releases
  imports Version
begin

text \<open>
  Agent builds hosted by the panel (modules/releases/service.ts): rows of the database beside files on
  disk, the latest build per architecture, downloads, roll-out and the seeding from disk at start. SHA-256
  is the parameter \<open>hash\<close>; file contents are strings of bytes.
\<close>

section \<open>State\<close>

definition build_keys :: "string list" where
  "build_keys = [''x86_64'', ''aarch64'']"

record release =
  rl_id :: nat
  rl_version :: string
  rl_arch :: string
  rl_sha256 :: string
  rl_size :: nat
  rl_path :: string
  rl_notes :: "string option"
  rl_latest :: bool
  rl_latest_since :: "int option"
  rl_created_by :: "nat option"
  rl_created_at :: int

text \<open>\<open>re_disk (version, name)\<close> is the file of that name in the directory of that version, \<open>re_told\<close> the
  node ids broadcast as updated.\<close>

record releases =
  re_rows :: "release list"
  re_next_id :: nat
  re_disk :: "string \<times> string \<Rightarrow> string option"
  re_told :: "nat list"

text \<open>The directory's \<open>VERSION_RE\<close>: unlike the one that compares, it allows one suffix.\<close>

definition re_release :: "string \<Rightarrow> bool" where
  "re_release s = (case
     Option.bind (re_number (case re_char (CHR ''v'') s of Some t \<Rightarrow> t | None \<Rightarrow> s)) (\<lambda>(_, s1).
     Option.bind (re_char (CHR ''.'') s1) (\<lambda>s2.
     Option.bind (re_number s2) (\<lambda>(_, s3).
     Option.bind (re_char (CHR ''.'') s3) (\<lambda>s4. re_number s4)))) of
       None \<Rightarrow> False
     | Some (_, rest) \<Rightarrow> (case rest of [] \<Rightarrow> True
         | c # t \<Rightarrow> (c = CHR ''-'' \<or> c = CHR ''+'') \<and> t \<noteq> [] \<and> list_all tag_char t))"

definition strip_v :: "string \<Rightarrow> string" where
  "strip_v s = (case re_char (CHR ''v'') s of Some t \<Rightarrow> t | None \<Rightarrow> s)"

definition download_path :: "string \<Rightarrow> string \<Rightarrow> string" where
  "download_path version arch = ''/downloads/gsm-agent/'' @ version @ ''/'' @ arch"

definition sha_name :: "string \<Rightarrow> string" where
  "sha_name arch = arch @ ''.sha256''"

definition find_release :: "(release \<Rightarrow> bool) \<Rightarrow> releases \<Rightarrow> release option" where
  "find_release P s = find P (re_rows s)"

definition latest_of :: "releases \<Rightarrow> string \<Rightarrow> release option" where
  "latest_of s arch = find_release (\<lambda>r. rl_arch r = arch \<and> rl_latest r) s"

definition latest_by_arch :: "releases \<Rightarrow> (string \<times> release option) list" where
  "latest_by_arch s = map (\<lambda>arch. (arch, latest_of s arch)) build_keys"

text \<open>\<open>compareVersions(a, b) ?? 0\<close>.\<close>

definition version_order :: "string \<Rightarrow> string \<Rightarrow> int" where
  "version_order a b = (case compare_versions (Some a) (Some b) of Some c \<Rightarrow> c | None \<Rightarrow> 0)"

section \<open>Uploading\<close>

text \<open>A row is only inserted when its version fits the column and is new for the architecture.\<close>

definition insert_release :: "release \<Rightarrow> releases \<Rightarrow> releases result" where
  "insert_release r s =
     (if 64 < length (rl_version r)
         \<or> find_release (\<lambda>r'. rl_version r' = rl_version r \<and> rl_arch r' = rl_arch r) s \<noteq> None
      then Inl internal_error
      else Inr (s\<lparr>re_rows := re_rows s @ [r\<lparr>rl_id := re_next_id s\<rparr>], re_next_id := Suc (re_next_id s)\<rparr>))"

definition new_release :: "int \<Rightarrow> (string \<Rightarrow> string) \<Rightarrow> string \<Rightarrow> string \<Rightarrow> string option \<Rightarrow> nat option \<Rightarrow> string \<Rightarrow> release" where
  "new_release now hash version arch notes creator bytes = \<lparr>rl_id = 0, rl_version = version, rl_arch = arch,
     rl_sha256 = hash bytes, rl_size = length bytes, rl_path = download_path version arch, rl_notes = notes,
     rl_latest = False, rl_latest_since = None, rl_created_by = creator, rl_created_at = now\<rparr>"

definition write_build :: "(string \<Rightarrow> string) \<Rightarrow> string \<Rightarrow> string \<Rightarrow> string \<Rightarrow> releases \<Rightarrow> releases" where
  "write_build hash version arch bytes s = s\<lparr>re_disk := (re_disk s)((version, arch) \<mapsto> bytes,
     (version, sha_name arch) \<mapsto> hash bytes @ [CHR 0x0A])\<rparr>"

definition is_elf :: "string \<Rightarrow> bool" where
  "is_elf bytes \<longleftrightarrow> take 4 bytes = [CHR 0x7F, CHR 0x45, CHR 0x4C, CHR 0x46]"

record upload_input =
  up_version :: string
  up_arch :: string
  up_notes :: "string option"
  up_bytes :: string
  up_make_latest :: bool

definition set_latest :: "int \<Rightarrow> nat \<Rightarrow> releases \<Rightarrow> (release \<times> releases) result" where
  "set_latest now k s = (case find_release (\<lambda>r. rl_id r = k) s of
     None \<Rightarrow> Inl (not_found ''Release'')
   | Some r \<Rightarrow>
       let r' = r\<lparr>rl_latest := True, rl_latest_since := (if rl_latest r then rl_latest_since r else Some now)\<rparr> in
       Inr (r', s\<lparr>re_rows := map (\<lambda>x. if rl_id x = k then r'
              else if rl_arch x = rl_arch r then x\<lparr>rl_latest := False, rl_latest_since := None\<rparr> else x) (re_rows s),
            re_told := re_told s @ [0]\<rparr>))"

text \<open>\<open>upload\<close> in two parts, since it reads the request's body in between: the checks up to the query for
  an existing release, and the rest.\<close>

definition upload_begin :: "upload_input \<Rightarrow> releases \<Rightarrow> string result" where
  "upload_begin input s =
     (let version = strip_v (js_trim (up_version input)) in
      then_do (guard (re_release version) (bad_request ''Version must look like 1.2.3 (optionally with -suffix)'')) (\<lambda>_.
      then_do (guard (up_arch input \<in> set build_keys) (bad_request ''Unsupported architecture'')) (\<lambda>_.
      then_do (guard (1000000 \<le> length (up_bytes input))
        (bad_request ''That does not look like an agent binary (too small)'')) (\<lambda>_.
      then_do (guard (find_release (\<lambda>r. rl_version r = version \<and> rl_arch r = up_arch input) s = None)
        (conflict (''Release '' @ version @ '' for '' @ up_arch input @ '' already exists''))) (\<lambda>_. Inr version)))))"

definition upload_end :: "int \<Rightarrow> (string \<Rightarrow> string) \<Rightarrow> upload_input \<Rightarrow> nat \<Rightarrow> string \<Rightarrow> releases \<Rightarrow> releases \<times> nat result" where
  "upload_end now hash input actor version s =
     (if \<not> is_elf (up_bytes input) then (s, Inl (bad_request ''File is not an ELF executable''))
      else let s1 = write_build hash version (up_arch input) (up_bytes input) s;
               r = new_release now hash version (up_arch input) (up_notes input) (Some actor) (up_bytes input) in
           case insert_release r s1 of
             Inl e \<Rightarrow> (s1, Inl e)
           | Inr s2 \<Rightarrow>
               let k = re_next_id s1 in
               if up_make_latest input
               then (case set_latest now k s2 of Inl e \<Rightarrow> (s2, Inl e) | Inr (_, s3) \<Rightarrow> (s3, Inr k))
               else (s2, Inr k))"

definition upload :: "int \<Rightarrow> (string \<Rightarrow> string) \<Rightarrow> upload_input \<Rightarrow> nat \<Rightarrow> releases \<Rightarrow> releases \<times> nat result" where
  "upload now hash input actor s = (case upload_begin input s of
     Inl e \<Rightarrow> (s, Inl e) | Inr version \<Rightarrow> upload_end now hash input actor version s)"

section \<open>Removing, downloading\<close>

definition remove_release :: "nat \<Rightarrow> releases \<Rightarrow> releases result" where
  "remove_release k s = (case find_release (\<lambda>r. rl_id r = k) s of
     None \<Rightarrow> Inl (not_found ''Release'')
   | Some r \<Rightarrow>
       then_do (guard (\<not> rl_latest r) (bad_request ''Mark another release as latest before deleting this one'')) (\<lambda>_.
       Inr (s\<lparr>re_disk := (re_disk s)((rl_version r, rl_arch r) := None, (rl_version r, sha_name (rl_arch r)) := None),
              re_rows := filter (\<lambda>x. rl_id x \<noteq> k) (re_rows s)\<rparr>)))"

text \<open>The directory, the file and the digest of what \<open>/downloads\<close> serves.\<close>

definition resolve_file :: "string \<Rightarrow> string \<Rightarrow> releases \<Rightarrow> (string \<times> string \<times> string) option" where
  "resolve_file version arch s =
     (if arch \<notin> set build_keys then None
      else map_option (\<lambda>r. (rl_version r, arch, rl_sha256 r))
        (if version = ''latest'' then find_release (\<lambda>r. rl_arch r = arch \<and> rl_latest r) s
         else find_release (\<lambda>r. rl_arch r = arch \<and> rl_version r = strip_v version) s))"

section \<open>Roll-out\<close>

record fleet_node =
  fn_id :: nat
  fn_arch :: "string option"
  fn_version :: "string option"

text \<open>\<open>agentBuildKey\<close>.\<close>

definition build_key :: "string option \<Rightarrow> string" where
  "build_key arch = (case arch of Some a \<Rightarrow> a | None \<Rightarrow> [])"

definition latest_for :: "releases \<Rightarrow> fleet_node \<Rightarrow> release option" where
  "latest_for s n = (case map_of (latest_by_arch s) (build_key (fn_arch n)) of Some (Some r) \<Rightarrow> Some r | _ \<Rightarrow> None)"

definition outdated_nodes :: "fleet_node list \<Rightarrow> releases \<Rightarrow> nat" where
  "outdated_nodes nodes s = length (filter (\<lambda>n. is_outdated_version (fn_version n) (map_option rl_version (latest_for s n))) nodes)"

definition due_nodes :: "nat set \<Rightarrow> fleet_node list \<Rightarrow> releases \<Rightarrow> (fleet_node \<times> release) list" where
  "due_nodes conns nodes s = List.map_filter (\<lambda>n. case latest_for s n of
       None \<Rightarrow> None
     | Some l \<Rightarrow> if fn_version n \<noteq> Some (rl_version l) \<and> fn_id n \<in> conns then Some (n, l) else None) nodes"

text \<open>\<open>answers nid\<close> is what the agent's \<open>agent.update\<close> gave: whether it replaced itself, or nothing for an
  error. The result are the updated and failed nodes and how many were skipped.\<close>

definition rollout :: "nat set \<Rightarrow> (nat \<Rightarrow> bool option) \<Rightarrow> fleet_node list \<Rightarrow> releases \<Rightarrow> nat list \<times> nat list \<times> nat" where
  "rollout conns answers nodes s =
     (let due = map (fn_id \<circ> fst) (due_nodes conns nodes s) in
      (filter (\<lambda>k. answers k = Some True) due, filter (\<lambda>k. answers k \<noteq> Some True) due, length nodes - length due))"

section \<open>Seeding from disk\<close>

text \<open>Every version directory (of those listed) with every architecture, in the order of the loops.\<close>

definition build_files :: "string list \<Rightarrow> (string \<times> string) list" where
  "build_files dirs = List.product (filter re_release dirs) build_keys"

text \<open>\<open>importBundled\<close>: builds of the image are copied unless a file is already there.\<close>

definition import_bundled :: "(string \<Rightarrow> string) \<Rightarrow> (string \<times> string \<Rightarrow> string option) \<Rightarrow> string list \<Rightarrow> releases \<Rightarrow> releases" where
  "import_bundled hash bundle dirs s = foldl (\<lambda>s (v, arch). case bundle (v, arch) of
       None \<Rightarrow> s
     | Some bytes \<Rightarrow> if re_disk s (v, arch) = None then write_build hash v arch bytes s else s) s (build_files dirs)"

text \<open>Rows for files without one: the ids of the new rows, or an error where the insert failed.\<close>

fun seed_rows :: "int \<Rightarrow> (string \<Rightarrow> string) \<Rightarrow> (string \<times> string) list \<Rightarrow> releases \<Rightarrow> releases \<times> nat list result" where
  "seed_rows now hash [] s = (s, Inr [])"
| "seed_rows now hash ((v, arch) # xs) s = (case re_disk s (v, arch) of
     None \<Rightarrow> seed_rows now hash xs s
   | Some bytes \<Rightarrow>
       if find_release (\<lambda>r. rl_version r = v \<and> rl_arch r = arch) s \<noteq> None then seed_rows now hash xs s
       else (case insert_release (new_release now hash v arch (Some ''seeded from disk'') None bytes) s of
          Inl e \<Rightarrow> (s, Inl e)
        | Inr s' \<Rightarrow> (let (t, r) = seed_rows now hash xs s' in
            (t, then_do r (\<lambda>ks. Inr (re_next_id s # ks))))))"

text \<open>A stable sort, as \<open>Array.prototype.sort\<close> is.\<close>

fun js_insert :: "('a \<Rightarrow> 'a \<Rightarrow> int) \<Rightarrow> 'a \<Rightarrow> 'a list \<Rightarrow> 'a list" where
  "js_insert cmp x [] = [x]"
| "js_insert cmp x (y # ys) = (if cmp x y \<le> 0 then x # y # ys else y # js_insert cmp x ys)"

definition js_sort :: "('a \<Rightarrow> 'a \<Rightarrow> int) \<Rightarrow> 'a list \<Rightarrow> 'a list" where
  "js_sort cmp xs = foldr (js_insert cmp) xs []"

definition latest_candidates :: "nat list \<Rightarrow> string \<Rightarrow> releases \<Rightarrow> release list" where
  "latest_candidates created arch s = (case latest_of s arch of
     Some c \<Rightarrow> filter (\<lambda>r. rl_id r \<in> set created \<and> rl_arch r = arch \<and> 0 < version_order (rl_version r) (rl_version c)) (re_rows s)
   | None \<Rightarrow> filter (\<lambda>r. rl_arch r = arch) (re_rows s))"

definition mark_newest :: "int \<Rightarrow> nat list \<Rightarrow> string \<Rightarrow> releases \<Rightarrow> releases" where
  "mark_newest now created arch s =
     (case js_sort (\<lambda>a b. version_order (rl_version b) (rl_version a)) (latest_candidates created arch s) of
        [] \<Rightarrow> s
      | newest # _ \<Rightarrow> (case set_latest now (rl_id newest) s of Inl e \<Rightarrow> s | Inr (_, t) \<Rightarrow> t))"

definition seed_from_disk :: "int \<Rightarrow> (string \<Rightarrow> string) \<Rightarrow> (string \<times> string \<Rightarrow> string option) \<Rightarrow> string list \<Rightarrow> string list \<Rightarrow>
    releases \<Rightarrow> releases \<times> nat result" where
  "seed_from_disk now hash bundle bundled_dirs dirs s =
     (case seed_rows now hash (build_files dirs) (import_bundled hash bundle bundled_dirs s) of
        (t, Inl e) \<Rightarrow> (t, Inl e)
      | (t, Inr created) \<Rightarrow> (foldl (\<lambda>u arch. mark_newest now created arch u) t build_keys, Inr (length created)))"

section \<open>Sorting by version\<close>

lemma js_insert_set [simp]: "set (js_insert cmp x ys) = insert x (set ys)"
  by (induction ys) auto

lemma js_sort_set [simp]: "set (js_sort cmp xs) = set xs"
  by (induction xs) (simp_all add: js_sort_def)

lemma js_insert_cong: "(\<And>y. y \<in> set ys \<Longrightarrow> c x y = d x y) \<Longrightarrow> js_insert c x ys = js_insert d x ys"
  by (induction ys) auto

lemma js_sort_cong: "(\<And>x y. x \<in> set xs \<Longrightarrow> y \<in> set xs \<Longrightarrow> c x y = d x y) \<Longrightarrow> js_sort c xs = js_sort d xs"
proof (induction xs)
  case (Cons x xs)
  then have "js_sort c xs = js_sort d xs" by simp
  with Cons.prems show ?case
    using js_insert_cong [of "js_sort d xs" c x d] js_sort_set [of d xs] by (simp add: js_sort_def)
qed (simp add: js_sort_def)

context three_way begin

lemma sort_hd: "y \<in> set xs \<Longrightarrow> cmp (f (hd (js_sort (\<lambda>a b. cmp (f a) (f b)) xs))) (f y) \<le> 0"
proof (induction xs arbitrary: y)
  case (Cons x xs)
  let ?c = "\<lambda>a b. cmp (f a) (f b)"
  show ?case
  proof (cases "js_sort ?c xs")
    case Nil
    then have "set xs = {}" using js_sort_set [of ?c xs] by simp
    with Nil Cons.prems show ?thesis by (simp add: js_sort_def refl)
  next
    case (Cons z zs)
    have z: "cmp (f z) (f w) \<le> 0" if "w \<in> set xs" for w using Cons.IH [OF that] Cons by simp
    have sorted: "js_sort ?c (x # xs) = js_insert ?c x (z # zs)" using Cons by (simp add: js_sort_def)
    show ?thesis
    proof (cases "cmp (f x) (f z) \<le> 0")
      case True
      then show ?thesis using z Cons.prems le_trans unfolding sorted by (auto simp: refl)
    next
      case False
      then have "cmp (f z) (f x) \<le> 0" using sgn_cases [of "f x" "f z"] by linarith
      with False show ?thesis using z Cons.prems unfolding sorted by auto
    qed
  qed
qed simp

end

interpretation newest_first: three_way "\<lambda>a b. cmp_parsed b a"
proof
  show "sgn (cmp_parsed x y) = - sgn (cmp_parsed y x)" for x y by (rule version.swap)
  show "cmp_parsed y x \<le> 0 \<Longrightarrow> cmp_parsed z y \<le> 0 \<Longrightarrow> cmp_parsed z x \<le> 0" for x y z
    using version.le_trans by blast
qed

lemma re_number_plain: "re_number s = Some (n, t) \<Longrightarrow> list_all (\<lambda>c. \<not> is_space c) t \<Longrightarrow> list_all (\<lambda>c. \<not> is_space c) s"
proof -
  assume n: "re_number s = Some (n, t)" and t: "list_all (\<lambda>c. \<not> is_space c) t"
  then have "s = takeWhile is_digit s @ t" by (auto simp: re_number_def Let_def split: if_splits)
  moreover have "\<not> is_space c" if "c \<in> set (takeWhile is_digit s)" for c
    using set_takeWhileD [OF that] tag_char_not_space [of c] by (simp add: tag_char_def is_alnum_def)
  ultimately show ?thesis using t by (metis list_all_iff set_append Un_iff)
qed

lemma re_char_plain: "re_char (CHR ''.'') s = Some t \<Longrightarrow> list_all (\<lambda>c. \<not> is_space c) t \<Longrightarrow> list_all (\<lambda>c. \<not> is_space c) s"
  by (cases s) (auto simp: re_char_def is_space_def split: if_splits)

lemma re_release_version:
  assumes "re_release s"
  shows "re_version s \<noteq> None" and "list_all (\<lambda>c. \<not> is_space c) s"
proof -
  define s0 where "s0 = (case re_char (CHR ''v'') s of Some t \<Rightarrow> t | None \<Rightarrow> s)"
  from assms obtain a s1 s2 b s3 s4 c rest where
    p: "re_number s0 = Some (a, s1)" "re_char (CHR ''.'') s1 = Some s2" "re_number s2 = Some (b, s3)"
      "re_char (CHR ''.'') s3 = Some s4" "re_number s4 = Some (c, rest)"
    by (auto simp: re_release_def s0_def [symmetric] bind_eq_Some_conv split: option.splits)
  have rest: "rest = [] \<or> (\<exists>x t. rest = x # t \<and> (x = CHR ''-'' \<or> x = CHR ''+'') \<and> t \<noteq> [] \<and> list_all tag_char t)"
    using assms by (cases rest) (simp_all add: re_release_def s0_def [symmetric] p)
  have tags: "takeWhile tag_char t = t" "dropWhile tag_char t = []" if "list_all tag_char t" for t
    using that by (simp_all add: list_all_iff)
  have "re_version s = Option.bind (re_tag (CHR ''-'') rest) (\<lambda>(pre, s6).
     Option.bind (re_tag (CHR ''+'') s6) (\<lambda>(_, r). if r = [] then Some (a, b, c, pre) else None))"
    by (simp add: re_version_def s0_def [symmetric] p)
  with rest show "re_version s \<noteq> None"
    by (auto simp: re_tag_def re_char_def tags)
  have "list_all (\<lambda>c. \<not> is_space c) rest"
    using rest tag_char_not_space by (auto simp: list_all_iff is_space_def)
  then have "list_all (\<lambda>c. \<not> is_space c) s0" using p re_number_plain re_char_plain by metis
  then show "list_all (\<lambda>c. \<not> is_space c) s"
    by (auto simp: s0_def re_char_def is_space_def split: list.splits if_splits)
qed

lemma release_parses: "re_release v \<Longrightarrow> parse_version (Some v) \<noteq> None"
  using re_release_version [of v] js_trim_no_space [of v]
  by (cases v) (auto simp: parse_version_def re_release_def re_number_def re_char_def split: option.splits)

definition parsed :: "string \<Rightarrow> parsed_version" where
  "parsed v = the (parse_version (Some v))"

lemma version_order_parsed: "re_release a \<Longrightarrow> re_release b \<Longrightarrow> version_order a b = cmp_parsed (parsed a) (parsed b)"
  using release_parses [of a] release_parses [of b]
  by (auto simp: version_order_def compare_versions_def parsed_def)

section \<open>What every run keeps\<close>

inductive release_step :: "(string \<Rightarrow> string) \<Rightarrow> releases \<Rightarrow> releases \<Rightarrow> bool" for hash where
  rel_upload: "release_step hash s (fst (upload now hash input actor s))"
| rel_latest: "set_latest now k s = Inr (r, t) \<Longrightarrow> release_step hash s t"
| rel_remove: "remove_release k s = Inr t \<Longrightarrow> release_step hash s t"
| rel_seed: "release_step hash s (fst (seed_from_disk now hash bundle bundled_dirs dirs s))"

inductive release_reaches :: "(string \<Rightarrow> string) \<Rightarrow> releases \<Rightarrow> releases \<Rightarrow> bool" for hash s where
  rel_refl: "release_reaches hash s s"
| rel_step: "release_reaches hash s t \<Longrightarrow> release_step hash t u \<Longrightarrow> release_reaches hash s u"

definition build_ok :: "(string \<Rightarrow> string) \<Rightarrow> releases \<Rightarrow> release \<Rightarrow> bool" where
  "build_ok hash s r \<longleftrightarrow> rl_id r < re_next_id s \<and> re_release (rl_version r) \<and> rl_arch r \<in> set build_keys
     \<and> rl_path r = download_path (rl_version r) (rl_arch r)
     \<and> (\<exists>bytes. re_disk s (rl_version r, rl_arch r) = Some bytes \<and> hash bytes = rl_sha256 r \<and> length bytes = rl_size r)
     \<and> (rl_latest r \<longleftrightarrow> rl_latest_since r \<noteq> None)"

definition one_latest :: "release list \<Rightarrow> bool" where
  "one_latest rs \<longleftrightarrow> (\<forall>r\<in>set rs. \<forall>r'\<in>set rs. rl_latest r \<and> rl_latest r' \<and> rl_arch r' = rl_arch r \<longrightarrow> rl_id r' = rl_id r)"

definition releases_ok :: "(string \<Rightarrow> string) \<Rightarrow> releases \<Rightarrow> bool" where
  "releases_ok hash s \<longleftrightarrow> distinct (map rl_id (re_rows s)) \<and> distinct (map (\<lambda>r. (rl_version r, rl_arch r)) (re_rows s))
     \<and> one_latest (re_rows s) \<and> (\<forall>r\<in>set (re_rows s). build_ok hash s r)"

lemma find_release_Some: "find_release P s = Some r \<Longrightarrow> r \<in> set (re_rows s) \<and> P r"
  by (auto simp: find_release_def dest: find_SomeD)

lemma find_release_None: "find_release P s = None \<longleftrightarrow> (\<forall>r\<in>set (re_rows s). \<not> P r)"
  by (auto simp: find_release_def find_None_iff)

lemma build_keys_sha: "arch \<in> set build_keys \<Longrightarrow> arch' \<in> set build_keys \<Longrightarrow> arch \<noteq> sha_name arch'"
  by (auto simp: build_keys_def sha_name_def)

lemma build_ok_same: "build_ok hash s r \<Longrightarrow> re_next_id s \<le> re_next_id t \<Longrightarrow>
    re_disk t (rl_version r, rl_arch r) = re_disk s (rl_version r, rl_arch r) \<Longrightarrow> build_ok hash t r"
  by (simp add: build_ok_def)

text \<open>A file where no row is, or where the row already has that content.\<close>

lemma write_build_ok:
  assumes ok: "releases_ok hash s" and arch: "arch \<in> set build_keys"
    and new: "\<And>r. r \<in> set (re_rows s) \<Longrightarrow> (rl_version r, rl_arch r) \<noteq> (version, arch)"
  shows "releases_ok hash (write_build hash version arch bytes s)"
proof -
  have "build_ok hash (write_build hash version arch bytes s) r" if r: "r \<in> set (re_rows s)" for r
  proof -
    have b: "build_ok hash s r" using ok r by (simp add: releases_ok_def)
    then have "rl_arch r \<in> set build_keys" by (simp add: build_ok_def)
    then have "rl_arch r \<noteq> sha_name arch" using build_keys_sha arch by blast
    with b new [OF r] show ?thesis by (intro build_ok_same [OF b]) (auto simp: write_build_def)
  qed
  then show ?thesis using ok by (simp add: releases_ok_def write_build_def)
qed

lemma insert_release_Inr:
  assumes "insert_release r s = Inr t"
  shows "t = s\<lparr>re_rows := re_rows s @ [r\<lparr>rl_id := re_next_id s\<rparr>], re_next_id := Suc (re_next_id s)\<rparr>"
    "\<forall>r'\<in>set (re_rows s). (rl_version r', rl_arch r') \<noteq> (rl_version r, rl_arch r)"
  using assms by (auto simp: insert_release_def find_release_None split: if_splits)

lemma insert_release_ok:
  assumes ok: "releases_ok hash s" and "insert_release (new_release now hash version arch notes creator bytes) s = Inr t"
    and "re_release version" "arch \<in> set build_keys" "re_disk s (version, arch) = Some bytes"
  shows "releases_ok hash t"
proof -
  define r where "r = (new_release now hash version arch notes creator bytes)\<lparr>rl_id := re_next_id s\<rparr>"
  note t = insert_release_Inr [OF assms(2)]
  have rows: "re_rows t = re_rows s @ [r]" "re_next_id t = Suc (re_next_id s)" "re_disk t = re_disk s"
    using t(1) by (simp_all add: r_def)
  have r: "rl_id r = re_next_id s" "rl_version r = version" "rl_arch r = arch" "\<not> rl_latest r" "build_ok hash t r"
    using assms(3-5) by (simp_all add: r_def new_release_def build_ok_def rows)
  have old: "build_ok hash t r'" if "r' \<in> set (re_rows s)" for r'
    using ok that by (intro build_ok_same [of hash s r' t]) (auto simp: releases_ok_def rows)
  have below: "\<forall>r'\<in>set (re_rows s). rl_id r' < re_next_id s" using ok by (auto simp: releases_ok_def build_ok_def)
  have "distinct (map rl_id (re_rows t))" using ok below r(1) by (auto simp: releases_ok_def rows)
  moreover have "distinct (map (\<lambda>r. (rl_version r, rl_arch r)) (re_rows t))"
    using ok t(2) r(2,3) by (auto simp: releases_ok_def rows new_release_def)
  moreover have "one_latest (re_rows s)" using ok by (simp add: releases_ok_def)
  then have "one_latest (re_rows t)" using r(4) unfolding one_latest_def rows set_append list.set by blast
  ultimately show ?thesis using old r(5) by (auto simp: releases_ok_def rows)
qed

lemma set_latest_ok:
  assumes ok: "releases_ok hash s" and "set_latest now k s = Inr (r', t)"
  shows "releases_ok hash t"
proof -
  from assms(2) obtain r where f: "find_release (\<lambda>r. rl_id r = k) s = Some r"
    by (auto simp: set_latest_def split: option.splits)
  then have r: "r \<in> set (re_rows s)" "rl_id r = k" by (auto dest: find_release_Some)
  define g where "g x = (if rl_id x = k then r\<lparr>rl_latest := True, rl_latest_since := (if rl_latest r then rl_latest_since r else Some now)\<rparr>
    else if rl_arch x = rl_arch r then x\<lparr>rl_latest := False, rl_latest_since := None\<rparr> else x)" for x
  have t: "re_rows t = map g (re_rows s)" "re_next_id t = re_next_id s" "re_disk t = re_disk s"
    using assms(2) f by (auto simp: set_latest_def Let_def g_def [abs_def])
  have only: "x = r" if "x \<in> set (re_rows s)" "rl_id x = k" for x
    using ok that r by (auto simp: releases_ok_def distinct_map inj_on_def)
  have g: "rl_id (g x) = rl_id x" "rl_version (g x) = rl_version x" "rl_arch (g x) = rl_arch x"
    if "x \<in> set (re_rows s)" for x
    using only [OF that] r(2) by (auto simp: g_def)
  have b: "build_ok hash t (g x)" if x: "x \<in> set (re_rows s)" for x
  proof -
    have "build_ok hash s x" "build_ok hash s r" using ok x r(1) by (simp_all add: releases_ok_def)
    then show ?thesis using only [OF x] by (auto simp: build_ok_def g_def t)
  qed
  have maps: "map rl_id (re_rows t) = map rl_id (re_rows s)"
    "map (\<lambda>r. (rl_version r, rl_arch r)) (re_rows t) = map (\<lambda>r. (rl_version r, rl_arch r)) (re_rows s)"
    using g by (simp_all add: t)
  have latest: "rl_id x = k \<or> rl_arch x \<noteq> rl_arch r \<and> g x = x" if "rl_latest (g x)" "x \<in> set (re_rows s)" for x
    using that by (auto simp: g_def split: if_splits)
  have "one_latest (re_rows t)"
    unfolding one_latest_def
  proof (intro ballI impI)
    fix a b assume "a \<in> set (re_rows t)" "b \<in> set (re_rows t)" and l: "rl_latest a \<and> rl_latest b \<and> rl_arch b = rl_arch a"
    then obtain x y where x: "x \<in> set (re_rows s)" "a = g x" and y: "y \<in> set (re_rows s)" "b = g y"
      unfolding t by auto
    have "rl_arch y = rl_arch x" using l x y g by simp
    then show "rl_id b = rl_id a"
      using latest [of x] latest [of y] l x y only g ok r(2) unfolding releases_ok_def one_latest_def by metis
  qed
  moreover have "build_ok hash t x" if "x \<in> set (re_rows t)" for x using that b unfolding t by auto
  ultimately show ?thesis using ok unfolding releases_ok_def maps by blast
qed

lemma remove_release_ok:
  assumes ok: "releases_ok hash s" and "remove_release k s = Inr t"
  shows "releases_ok hash t"
proof -
  from assms(2) obtain r where f: "find_release (\<lambda>r. rl_id r = k) s = Some r"
    by (auto simp: remove_release_def split: option.splits)
  then have r: "r \<in> set (re_rows s)" "rl_id r = k" by (auto dest: find_release_Some)
  have t: "re_rows t = filter (\<lambda>x. rl_id x \<noteq> k) (re_rows s)" "re_next_id t = re_next_id s"
    "re_disk t = (re_disk s)((rl_version r, rl_arch r) := None, (rl_version r, sha_name (rl_arch r)) := None)"
    using assms(2) f by (auto simp: remove_release_def result_simps)
  have "build_ok hash t x" if x: "x \<in> set (re_rows s)" "rl_id x \<noteq> k" for x
  proof -
    have b: "build_ok hash s x" "build_ok hash s r" using ok x r(1) by (simp_all add: releases_ok_def)
    then have "rl_arch x \<noteq> sha_name (rl_arch r)" using build_keys_sha by (simp add: build_ok_def)
    moreover have "(rl_version x, rl_arch x) \<noteq> (rl_version r, rl_arch r)"
      using ok x r by (auto simp: releases_ok_def distinct_map inj_on_def)
    ultimately show ?thesis using t by (intro build_ok_same [OF b(1)]) auto
  qed
  moreover have "one_latest (re_rows s)" using ok by (simp add: releases_ok_def)
  then have "one_latest (re_rows t)" unfolding one_latest_def t by simp
  ultimately show ?thesis using ok by (auto simp: releases_ok_def t distinct_map_filter)
qed


section \<open>Uploads and seeding keep it\<close>

lemma upload_ok: assumes ok: "releases_ok hash s" shows "releases_ok hash (fst (upload now hash input actor s))"
proof (cases "upload_begin input s")
  case (Inr version)
  then have v: "re_release version" "up_arch input \<in> set build_keys"
    "\<forall>r\<in>set (re_rows s). (rl_version r, rl_arch r) \<noteq> (version, up_arch input)"
    by (auto simp: upload_begin_def Let_def result_simps find_release_None)
  let ?s1 = "write_build hash version (up_arch input) (up_bytes input) s"
  have s1: "releases_ok hash ?s1" using write_build_ok [OF ok v(2)] v(3) by blast
  show ?thesis
  proof (cases "insert_release (new_release now hash version (up_arch input) (up_notes input) (Some actor) (up_bytes input)) ?s1")
    case (Inl e)
    then show ?thesis using ok s1 by (simp add: upload_def \<open>upload_begin input s = Inr version\<close> upload_end_def Let_def)
  next
    case i: (Inr s2)
    have "re_disk ?s1 (version, up_arch input) = Some (up_bytes input)"
      using build_keys_sha [OF v(2) v(2)] by (simp add: write_build_def)
    then have s2: "releases_ok hash s2" using insert_release_ok [OF s1 i v(1,2)] by blast
    have "releases_ok hash t" if "set_latest now (re_next_id ?s1) s2 = Inr (r, t)" for r t
      using set_latest_ok [OF s2 that] .
    then show ?thesis using ok s2 i
      by (auto simp: upload_def \<open>upload_begin input s = Inr version\<close> upload_end_def Let_def split: sum.split)
  qed
qed (simp add: upload_def ok)

lemma build_files_mem: "(v, arch) \<in> set (build_files dirs) \<longleftrightarrow> v \<in> set dirs \<and> re_release v \<and> arch \<in> set build_keys"
  by (auto simp: build_files_def)

lemma import_ok: "releases_ok hash s \<Longrightarrow> set xs \<subseteq> set (build_files dirs) \<Longrightarrow>
  releases_ok hash (foldl (\<lambda>s (v, arch). case bundle (v, arch) of None \<Rightarrow> s
     | Some bytes \<Rightarrow> if re_disk s (v, arch) = None then write_build hash v arch bytes s else s) s xs)"
proof (induction xs arbitrary: s)
  case (Cons x xs)
  obtain v arch where x: "x = (v, arch)" by (cases x)
  then have arch: "arch \<in> set build_keys" using Cons.prems(2) build_files_mem by auto
  have "releases_ok hash (write_build hash v arch bytes s)" if "re_disk s (v, arch) = None" for bytes
  proof (rule write_build_ok [OF Cons.prems(1) arch])
    fix r assume "r \<in> set (re_rows s)"
    then have "build_ok hash s r" using Cons.prems(1) by (simp add: releases_ok_def)
    with that show "(rl_version r, rl_arch r) \<noteq> (v, arch)" by (auto simp: build_ok_def)
  qed
  with Cons show ?case by (simp add: x split: option.split)
qed simp

lemma import_rows: "re_rows (import_bundled hash bundle dirs s) = re_rows s"
proof -
  have "re_rows (foldl (\<lambda>s (v, arch). case bundle (v, arch) of None \<Rightarrow> s
     | Some bytes \<Rightarrow> if re_disk s (v, arch) = None then write_build hash v arch bytes s else s) s xs) = re_rows s" for xs
    by (induction xs arbitrary: s) (auto simp: write_build_def split: option.split)
  then show ?thesis by (simp add: import_bundled_def)
qed

lemma import_bundled_ok: "releases_ok hash s \<Longrightarrow> releases_ok hash (import_bundled hash bundle dirs s)"
  unfolding import_bundled_def by (rule import_ok) auto

lemma seed_rows_ok: "releases_ok hash s \<Longrightarrow> set xs \<subseteq> set (build_files dirs) \<Longrightarrow> releases_ok hash (fst (seed_rows now hash xs s))"
proof (induction now hash xs s rule: seed_rows.induct)
  case (2 now hash v arch xs s)
  then have x: "re_release v" "arch \<in> set build_keys" using build_files_mem by auto
  show ?case
  proof (cases "re_disk s (v, arch)")
    case (Some bytes)
    show ?thesis
    proof (cases "find_release (\<lambda>r. rl_version r = v \<and> rl_arch r = arch) s")
      case None
      show ?thesis
      proof (cases "insert_release (new_release now hash v arch (Some ''seeded from disk'') None bytes) s")
        case (Inr s')
        have "releases_ok hash s'" by (rule insert_release_ok [OF "2.prems"(1) Inr x Some])
        then show ?thesis using "2.IH"(3) [OF Some _ Inr] "2.prems"(2) None Some Inr by (simp add: Let_def case_prod_unfold)
      qed (simp add: Some None "2.prems"(1))
    qed (use 2 Some in simp)
  qed (use 2 in simp)
qed simp

lemma mark_newest_ok: "releases_ok hash s \<Longrightarrow> releases_ok hash (mark_newest now created arch s)"
  using set_latest_ok by (fastforce simp: mark_newest_def split: list.split sum.split)

lemma seed_ok: assumes "releases_ok hash s" shows "releases_ok hash (fst (seed_from_disk now hash bundle bundled_dirs dirs s))"
proof -
  have "releases_ok hash (fst (seed_rows now hash (build_files dirs) (import_bundled hash bundle bundled_dirs s)))"
    by (rule seed_rows_ok [OF import_bundled_ok [OF assms] order.refl])
  then show ?thesis
    by (auto simp: seed_from_disk_def build_keys_def mark_newest_ok split: prod.split sum.split)
qed

lemma release_step_ok: "release_step hash s t \<Longrightarrow> releases_ok hash s \<Longrightarrow> releases_ok hash t"
  by (induction rule: release_step.induct) (auto intro: upload_ok set_latest_ok remove_release_ok seed_ok)

lemma release_reaches_ok: "release_reaches hash s t \<Longrightarrow> releases_ok hash s \<Longrightarrow> releases_ok hash t"
  by (induction rule: release_reaches.induct) (use release_step_ok in blast)+

lemma release_starts: "re_release v \<Longrightarrow> v \<noteq> ''latest''"
  by (auto simp: re_release_def re_char_def re_number_def is_digit_def)

lemma row_unique: "releases_ok hash s \<Longrightarrow> r \<in> set (re_rows s) \<Longrightarrow> r' \<in> set (re_rows s) \<Longrightarrow>
    rl_version r' = rl_version r \<Longrightarrow> rl_arch r' = rl_arch r \<Longrightarrow> r' = r"
  by (auto simp: releases_ok_def distinct_map inj_on_def)

text \<open>C29. Whatever uploads (one after the other), choices of the latest, deletions and starts of the panel
  follow: rows, files and the latest marks stay consistent, everything \<open>/downloads\<close> serves is the file that
  was registered with the digest it is served with, and a registered build is served under its own path
  unless its version begins with "v", which the route strips.\<close>

theorem served_builds_verified:
  assumes "releases_ok hash s" and "release_reaches hash s t"
  shows "releases_ok hash t
    \<and> (\<forall>version arch v a sha. resolve_file version arch t = Some (v, a, sha) \<longrightarrow>
         a = arch \<and> (\<exists>bytes. re_disk t (v, a) = Some bytes \<and> hash bytes = sha))
    \<and> (\<forall>r\<in>set (re_rows t). resolve_file (rl_version r) (rl_arch r) t = Some (rl_version r, rl_arch r, rl_sha256 r)
         \<longleftrightarrow> hd (rl_version r) \<noteq> CHR ''v'')"
proof -
  have ok: "releases_ok hash t" using release_reaches_ok assms by blast
  have served: "a = arch \<and> (\<exists>bytes. re_disk t (v, a) = Some bytes \<and> hash bytes = sha)"
    if res: "resolve_file version arch t = Some (v, a, sha)" for version arch v a sha
  proof -
    from res obtain r where r: "r \<in> set (re_rows t)" "rl_arch r = arch" "v = rl_version r" "a = arch" "sha = rl_sha256 r"
      by (auto simp: resolve_file_def dest!: find_release_Some split: if_splits)
    then have "build_ok hash t r" using ok by (simp add: releases_ok_def)
    with r show ?thesis by (auto simp: build_ok_def)
  qed
  have own: "resolve_file (rl_version r) (rl_arch r) t = Some (rl_version r, rl_arch r, rl_sha256 r)
      \<longleftrightarrow> hd (rl_version r) \<noteq> CHR ''v''" if r: "r \<in> set (re_rows t)" for r
  proof -
    have b: "build_ok hash t r" using ok r by (simp add: releases_ok_def)
    then have not_latest: "rl_version r \<noteq> ''latest''" "rl_arch r \<in> set build_keys" "rl_version r \<noteq> []"
      using release_starts by (auto simp: build_ok_def re_release_def re_char_def re_number_def)
    then obtain c cs where v: "rl_version r = c # cs" by (cases "rl_version r") auto
    let ?P = "\<lambda>x. rl_arch x = rl_arch r \<and> rl_version x = strip_v (rl_version r)"
    have f: "resolve_file (rl_version r) (rl_arch r) t
        = map_option (\<lambda>x. (rl_version x, rl_arch r, rl_sha256 x)) (find_release ?P t)"
      using not_latest by (simp add: resolve_file_def)
    show ?thesis
    proof (cases "c = CHR ''v''")
      case True
      then have "rl_version x \<noteq> rl_version r" if "find_release ?P t = Some x" for x
        using find_release_Some [OF that] v by (auto simp: strip_v_def re_char_def)
      then show ?thesis unfolding f using True v by (cases "find_release ?P t") auto
    next
      case False
      then have strip: "strip_v (rl_version r) = rl_version r" using v by (simp add: strip_v_def re_char_def)
      have "find_release ?P t \<noteq> None" unfolding find_release_None strip using r by blast
      then obtain x where x: "find_release ?P t = Some x" by blast
      then have "x = r" using find_release_Some [OF x] row_unique [OF ok r] strip by simp
      then show ?thesis unfolding f x using False v by simp
    qed
  qed
  show ?thesis using ok served own by blast
qed

section \<open>Which build seeding marks as latest\<close>

definition identity_of :: "release \<Rightarrow> nat \<times> string \<times> string" where
  "identity_of r = (rl_id r, rl_version r, rl_arch r)"

lemma find_map_keep:
  "(\<And>x. x \<in> set xs \<Longrightarrow> P (g x) = P x \<and> (P x \<longrightarrow> g x = x)) \<Longrightarrow> find P (map g xs) = find P xs"
  by (induction xs) auto

lemma set_latest_latest:
  assumes ok: "releases_ok hash s" and set: "set_latest now k s = Inr (r', t)"
  shows "latest_of t (rl_arch r') = Some r'" "a \<noteq> rl_arch r' \<Longrightarrow> latest_of t a = latest_of s a"
    "map identity_of (re_rows t) = map identity_of (re_rows s)"
    "\<exists>r\<in>set (re_rows s). rl_id r = k \<and> identity_of r' = identity_of r"
proof -
  from set obtain r where f: "find_release (\<lambda>r. rl_id r = k) s = Some r"
    and r': "r' = r\<lparr>rl_latest := True, rl_latest_since := (if rl_latest r then rl_latest_since r else Some now)\<rparr>"
    by (auto simp: set_latest_def Let_def split: option.splits)
  then have r: "r \<in> set (re_rows s)" "rl_id r = k" by (auto dest: find_release_Some)
  define g where "g x = (if rl_id x = k then r'
    else if rl_arch x = rl_arch r then x\<lparr>rl_latest := False, rl_latest_since := None\<rparr> else x)" for x
  have t: "re_rows t = map g (re_rows s)"
    using set f by (auto simp: set_latest_def Let_def g_def [abs_def])
  have only: "x = r" if "x \<in> set (re_rows s)" "rl_id x = k" for x
    using ok that r by (auto simp: releases_ok_def distinct_map inj_on_def)
  have arch: "rl_arch r' = rl_arch r" "rl_id r' = k" "rl_latest r'" by (simp_all add: r' r)
  have mem: "r' \<in> set (re_rows t)" using r unfolding t by (auto simp: g_def intro!: image_eqI [of _ _ r])
  have ok_t: "releases_ok hash t" by (rule set_latest_ok [OF ok set])
  have "latest_of t (rl_arch r') \<noteq> None" using mem arch by (auto simp: latest_of_def find_release_None)
  then obtain l where l: "latest_of t (rl_arch r') = Some l" by blast
  then have "l \<in> set (re_rows t)" "rl_arch l = rl_arch r'" "rl_latest l"
    by (auto simp: latest_of_def dest!: find_release_Some)
  then have "rl_id l = rl_id r'" using ok_t mem arch(3) unfolding releases_ok_def one_latest_def by metis
  then have "l = r'" using ok_t mem \<open>l \<in> set (re_rows t)\<close> by (auto simp: releases_ok_def distinct_map inj_on_def)
  with l show "latest_of t (rl_arch r') = Some r'" by simp
  show "latest_of t a = latest_of s a" if "a \<noteq> rl_arch r'"
    unfolding latest_of_def find_release_def t
  proof (rule find_map_keep)
    fix x assume x: "x \<in> set (re_rows s)"
    show "(rl_arch (g x) = a \<and> rl_latest (g x)) = (rl_arch x = a \<and> rl_latest x)
      \<and> (rl_arch x = a \<and> rl_latest x \<longrightarrow> g x = x)"
    proof (cases "rl_id x = k")
      case True
      then show ?thesis using only [OF x] that arch(1) by (simp add: g_def)
    qed (use that arch(1) in \<open>simp add: g_def\<close>)
  qed
  have "identity_of (g x) = identity_of x" if "x \<in> set (re_rows s)" for x
  proof (cases "rl_id x = k")
    case True
    then show ?thesis using only [OF that] by (simp add: g_def identity_of_def r')
  qed (simp add: g_def identity_of_def)
  then show "map identity_of (re_rows t) = map identity_of (re_rows s)" by (simp add: t)
  show "\<exists>r\<in>set (re_rows s). rl_id r = k \<and> identity_of r' = identity_of r"
    using r by (auto simp: identity_of_def r' intro!: bexI [of _ r])
qed

lemma mark_newest_latest:
  assumes ok: "releases_ok hash s" and c: "c \<in> set (latest_candidates created arch s)"
  shows "\<exists>l. latest_of (mark_newest now created arch s) arch = Some l
    \<and> (\<exists>d\<in>set (latest_candidates created arch s). identity_of l = identity_of d)
    \<and> version_order (rl_version c) (rl_version l) \<le> 0"
proof -
  let ?cs = "latest_candidates created arch s"
  let ?cmp = "\<lambda>a b. version_order (rl_version b) (rl_version a)"
  have cs: "d \<in> set (re_rows s) \<and> rl_arch d = arch" if "d \<in> set ?cs" for d
    using that by (auto simp: latest_candidates_def split: option.splits)
  have versions: "re_release (rl_version d)" if "d \<in> set ?cs" for d
    using cs [OF that] ok by (simp add: releases_ok_def build_ok_def)
  have sorted: "js_sort ?cmp ?cs = js_sort (\<lambda>a b. cmp_parsed (parsed (rl_version b)) (parsed (rl_version a))) ?cs"
    by (rule js_sort_cong) (simp add: version_order_parsed versions)
  from c have "set (js_sort ?cmp ?cs) \<noteq> {}" by auto
  then obtain newest ns where n: "js_sort ?cmp ?cs = newest # ns" by (cases "js_sort ?cmp ?cs") auto
  then have newest: "newest \<in> set ?cs" using js_sort_set [of ?cmp ?cs] by (metis list.set_intros(1))
  have "cmp_parsed (parsed (rl_version c)) (parsed (rl_version newest)) \<le> 0"
    using newest_first.sort_hd [OF c, of "\<lambda>r. parsed (rl_version r)"] n sorted by simp
  then have less: "version_order (rl_version c) (rl_version newest) \<le> 0"
    using version_order_parsed versions c newest by simp
  have found: "find_release (\<lambda>r. rl_id r = rl_id newest) s \<noteq> None" using cs [OF newest] by (auto simp: find_release_None)
  then obtain l t where set: "set_latest now (rl_id newest) s = Inr (l, t)" by (auto simp: set_latest_def Let_def)
  have mark: "mark_newest now created arch s = t" by (simp add: mark_newest_def n set)
  from set_latest_latest(4) [OF ok set] obtain d where d: "d \<in> set (re_rows s)" "rl_id d = rl_id newest" "identity_of l = identity_of d"
    by blast
  then have "d = newest" using cs [OF newest] ok by (auto simp: releases_ok_def distinct_map inj_on_def)
  with d cs [OF newest] have l: "identity_of l = identity_of newest" "rl_arch l = arch" "rl_version l = rl_version newest"
    by (simp_all add: identity_of_def)
  then show ?thesis using set_latest_latest(1) [OF ok set] newest less by (auto simp: mark)
qed

lemma seed_rows_new:
  "seed_rows now hash xs s = (t, Inr ks) \<Longrightarrow> \<exists>new. re_rows t = re_rows s @ new \<and> map rl_id new = ks \<and> (\<forall>r\<in>set new. \<not> rl_latest r)"
proof (induction now hash xs s arbitrary: t ks rule: seed_rows.induct)
  case (2 now hash v arch xs s)
  show ?case
  proof (cases "re_disk s (v, arch)")
    case None
    then show ?thesis using "2.IH"(1) [OF None] "2.prems" by simp
  next
    case (Some bytes)
    let ?new = "find_release (\<lambda>r. rl_version r = v \<and> rl_arch r = arch) s"
    show ?thesis
    proof (cases ?new)
      case None
      from "2.prems" Some None obtain s' where i: "insert_release (new_release now hash v arch (Some ''seeded from disk'') None bytes) s = Inr s'"
        by (auto split: sum.splits)
      from "2.prems" obtain r where rest: "seed_rows now hash xs s' = (t, r)" "then_do r (\<lambda>ks. Inr (re_next_id s # ks)) = Inr ks"
        by (auto simp: Some None i Let_def split: prod.splits)
      then obtain ks' where ks: "r = Inr ks'" "ks = re_next_id s # ks'" by (auto simp: result_simps)
      with "2.IH"(3) [OF Some _ i] rest None obtain new where
        "re_rows t = re_rows s' @ new" "map rl_id new = ks'" "\<forall>r\<in>set new. \<not> rl_latest r" by auto
      then show ?thesis using insert_release_Inr(1) [OF i] ks by (auto simp: new_release_def)
    next
      case (Some r)
      then show ?thesis using "2.IH"(2) [OF \<open>re_disk s (v, arch) = Some bytes\<close>] "2.prems" \<open>re_disk s (v, arch) = Some bytes\<close> by simp
    qed
  qed
qed simp

lemma find_append_none: "\<forall>y\<in>set ys. \<not> P y \<Longrightarrow> find P (xs @ ys) = find P xs"
  by (induction xs) (auto simp: find_None_iff)

lemma latest_arch: "latest_of s arch = Some l \<Longrightarrow> l \<in> set (re_rows s) \<and> rl_arch l = arch \<and> rl_latest l"
  by (auto simp: latest_of_def dest!: find_release_Some)

lemma mark_newest_other:
  assumes ok: "releases_ok hash s"
  shows "a \<noteq> arch \<Longrightarrow> latest_of (mark_newest now created arch s) a = latest_of s a"
    "map identity_of (re_rows (mark_newest now created arch s)) = map identity_of (re_rows s)"
proof -
  let ?sorted = "js_sort (\<lambda>a b. version_order (rl_version b) (rl_version a)) (latest_candidates created arch s)"
  have "(a \<noteq> arch \<longrightarrow> latest_of (mark_newest now created arch s) a = latest_of s a)
    \<and> map identity_of (re_rows (mark_newest now created arch s)) = map identity_of (re_rows s)"
  proof (cases "?sorted = [] \<or> (\<exists>e. set_latest now (rl_id (hd ?sorted)) s = Inl e)")
    case True
    then have "mark_newest now created arch s = s" by (auto simp: mark_newest_def split: list.splits)
    then show ?thesis by simp
  next
    case False
    then obtain newest ns l t where n: "?sorted = newest # ns" and set: "set_latest now (rl_id newest) s = Inr (l, t)"
      by (cases ?sorted; cases "set_latest now (rl_id (hd ?sorted)) s") auto
    have "newest \<in> set (latest_candidates created arch s)" using js_sort_set n by (metis list.set_intros(1))
    then have "newest \<in> set (re_rows s)" "rl_arch newest = arch" by (auto simp: latest_candidates_def split: option.splits)
    moreover obtain d where "d \<in> set (re_rows s)" "rl_id d = rl_id newest" "identity_of l = identity_of d"
      using set_latest_latest(4) [OF ok set] by blast
    ultimately have "rl_arch l = arch" using ok by (auto simp: releases_ok_def distinct_map inj_on_def identity_of_def)
    then show ?thesis using set_latest_latest(2,3) [OF ok set] by (simp add: mark_newest_def n set)
  qed
  then show "a \<noteq> arch \<Longrightarrow> latest_of (mark_newest now created arch s) a = latest_of s a"
    "map identity_of (re_rows (mark_newest now created arch s)) = map identity_of (re_rows s)" by blast+
qed

lemma mark_newest_result:
  assumes ok: "releases_ok hash u" and w: "w = mark_newest now created arch u"
  shows "case latest_of u arch of
      None \<Rightarrow> \<forall>r\<in>set (re_rows w). rl_arch r = arch \<longrightarrow>
        (\<exists>l. latest_of w arch = Some l \<and> version_order (rl_version r) (rl_version l) \<le> 0)
    | Some c \<Rightarrow> \<exists>l. latest_of w arch = Some l \<and> (l = c \<or> 0 < version_order (rl_version l) (rl_version c))
        \<and> (\<forall>r\<in>set (re_rows w). rl_arch r = arch \<and> rl_id r \<in> set created \<longrightarrow> version_order (rl_version r) (rl_version l) \<le> 0)"
proof -
  have same: "\<exists>r0\<in>set (re_rows u). rl_id r0 = rl_id r \<and> rl_version r0 = rl_version r \<and> rl_arch r0 = rl_arch r"
    if "r \<in> set (re_rows w)" for r
  proof -
    have "identity_of r \<in> identity_of ` set (re_rows u)"
      using mark_newest_other(2) [OF ok, of now created arch] that unfolding w by (metis image_eqI image_set)
    then show ?thesis by (auto simp: identity_of_def)
  qed
  have versions: "re_release (rl_version r)" if "r \<in> set (re_rows u)" for r
    using ok that by (simp add: releases_ok_def build_ok_def)
  note newest = mark_newest_latest [OF ok, of _ created arch now, folded w]
  show ?thesis
  proof (cases "latest_of u arch")
    case None
    have "\<exists>l. latest_of w arch = Some l \<and> version_order (rl_version r) (rl_version l) \<le> 0"
      if r: "r \<in> set (re_rows w)" "rl_arch r = arch" for r
    proof -
      obtain r0 where r0: "r0 \<in> set (re_rows u)" "rl_version r0 = rl_version r" "rl_arch r0 = rl_arch r"
        using same [OF r(1)] by blast
      then have "r0 \<in> set (latest_candidates created arch u)" using r(2) None by (simp add: latest_candidates_def)
      from newest [OF this] r0 show ?thesis by auto
    qed
    with None show ?thesis by simp
  next
    case (Some c)
    note c = latest_arch [OF Some]
    have cands: "d \<in> set (latest_candidates created arch u) \<longleftrightarrow> d \<in> set (re_rows u) \<and> rl_id d \<in> set created
        \<and> rl_arch d = arch \<and> 0 < version_order (rl_version d) (rl_version c)" for d
      by (auto simp: latest_candidates_def Some)
    have "\<exists>l. latest_of w arch = Some l \<and> (l = c \<or> 0 < version_order (rl_version l) (rl_version c) \<and> re_release (rl_version l))
        \<and> (\<forall>d\<in>set (latest_candidates created arch u). version_order (rl_version d) (rl_version l) \<le> 0)"
    proof (cases "latest_candidates created arch u")
      case Nil
      then have "w = u" by (simp add: w mark_newest_def js_sort_def)
      with Some Nil show ?thesis by simp
    next
      case (Cons d ds)
      then obtain l e where l: "latest_of w arch = Some l" "e \<in> set (latest_candidates created arch u)" "identity_of l = identity_of e"
        using newest [of d] by auto
      then have "0 < version_order (rl_version l) (rl_version c)" "re_release (rl_version l)"
        using cands versions by (auto simp: identity_of_def)
      moreover have "version_order (rl_version d) (rl_version l) \<le> 0"
        if "d \<in> set (latest_candidates created arch u)" for d
        using newest [OF that] l(1) by auto
      ultimately show ?thesis using l(1) by blast
    qed
    then obtain l where l: "latest_of w arch = Some l" "l = c \<or> 0 < version_order (rl_version l) (rl_version c) \<and> re_release (rl_version l)"
      and best: "\<forall>d\<in>set (latest_candidates created arch u). version_order (rl_version d) (rl_version l) \<le> 0" by blast
    have "version_order (rl_version r) (rl_version l) \<le> 0"
      if r: "r \<in> set (re_rows w)" "rl_arch r = arch" "rl_id r \<in> set created" for r
    proof -
      obtain r0 where r0: "r0 \<in> set (re_rows u)" "rl_id r0 = rl_id r" "rl_version r0 = rl_version r" "rl_arch r0 = rl_arch r"
        using same [OF r(1)] by blast
      show ?thesis
      proof (cases "0 < version_order (rl_version r) (rl_version c)")
        case True
        then have "r0 \<in> set (latest_candidates created arch u)" using r r0 cands by simp
        then show ?thesis using best r0 by auto
      next
        case False
        show ?thesis
        proof (cases "l = c")
          case True
          then show ?thesis using False by simp
        next
          case neq: False
          have v: "re_release (rl_version r)" "re_release (rl_version c)" "re_release (rl_version l)"
            using versions [OF r0(1)] versions c r0 l neq by auto
          have "cmp_parsed (parsed (rl_version r)) (parsed (rl_version c)) \<le> 0"
            "cmp_parsed (parsed (rl_version c)) (parsed (rl_version l)) \<le> 0"
            using False neq l(2) v version.swap_less [of "parsed (rl_version c)" "parsed (rl_version l)"]
              version.swap_less [of "parsed (rl_version l)" "parsed (rl_version c)"]
            by (auto simp: version_order_parsed)
          then show ?thesis using version.le_trans v by (simp add: version_order_parsed)
        qed
      qed
    qed
    with l Some show ?thesis by auto
  qed
qed


section \<open>What goes wrong\<close>

text \<open>Two uploads of the same build that overlap: the second replaces the file and then fails, and the
  registered digest is not that of the file any more.\<close>

lemma overlapping_uploads:
  assumes begun: "upload_begin one s = Inr version" "upload_begin two s = Inr version" and arch: "up_arch two = up_arch one"
    and elf: "is_elf (up_bytes one)" "is_elf (up_bytes two)" and short: "length version \<le> 64"
    and differ: "hash (up_bytes two) \<noteq> hash (up_bytes one)" "\<not> up_make_latest one"
    and s1: "s1 = fst (upload_end now hash one actor version s)" and s2: "s2 = fst (upload_end now hash two actor version s1)"
  shows "\<exists>r\<in>set (re_rows s2). rl_version r = version \<and> re_disk s2 (version, rl_arch r) = Some (up_bytes two)
    \<and> rl_sha256 r = hash (up_bytes one)"
proof -
  let ?r = "(new_release now hash version (up_arch one) (up_notes one) (Some actor) (up_bytes one))\<lparr>rl_id := re_next_id s\<rparr>"
  have free: "find_release (\<lambda>r. rl_version r = version \<and> rl_arch r = up_arch one) s = None" "up_arch one \<in> set build_keys"
    using begun(1) by (auto simp: upload_begin_def Let_def result_simps)
  have none: "find_release (\<lambda>r. rl_version r = version \<and> rl_arch r = up_arch one) (write_build hash version (up_arch one) bytes s) = None" for bytes
    using free(1) by (simp add: find_release_def write_build_def)
  have "re_rows s1 = re_rows s @ [?r]"
    using elf(1) short differ(2) none unfolding s1
    by (simp add: upload_end_def Let_def insert_release_def new_release_def) (simp add: write_build_def)
  moreover from this have "find_release (\<lambda>r. rl_version r = version \<and> rl_arch r = up_arch one)
      (write_build hash version (up_arch one) (up_bytes two) s1) \<noteq> None"
    unfolding find_release_None by (simp add: write_build_def new_release_def)
  then have "s2 = write_build hash version (up_arch one) (up_bytes two) s1"
    using elf(2) unfolding s2 by (simp add: upload_end_def Let_def insert_release_def new_release_def arch)
  ultimately show ?thesis
    using build_keys_sha [OF free(2) free(2)]
    by (intro bexI [of _ ?r]) (simp_all add: write_build_def new_release_def)
qed

text \<open>The roll-out tells every connected node whose version is not the latest, a newer one too.\<close>

lemma rollout_downgrades:
  assumes "latest_for s n = Some l" "n \<in> set nodes" "fn_id n \<in> conns" "answers (fn_id n) = Some True"
    and "fn_version n = Some v" "0 < version_order v (rl_version l)"
  shows "fn_id n \<in> set (fst (rollout conns answers nodes s))"
proof -
  have "compare_versions (Some v) (Some v) \<in> {None, Some 0}"
    by (auto simp: compare_versions_def version.refl split: option.splits)
  then have "v \<noteq> rl_version l" using assms(6) by (auto simp: version_order_def)
  then have "(n, l) \<in> set (due_nodes conns nodes s)"
    using assms by (auto simp: due_nodes_def List.map_filter_def image_iff intro!: bexI [of _ n])
  then show ?thesis using assms(4) by (force simp: rollout_def Let_def)
qed

text \<open>A version of more than 64 characters passes the checks, but its insert fails after the files were
  written, and then seeding fails on them at every start.\<close>

lemma long_version_left_behind:
  assumes "upload_begin input s = Inr version" "is_elf (up_bytes input)" "64 < length version"
  shows "snd (upload now hash input actor s) = Inl internal_error"
    and "re_disk (fst (upload now hash input actor s)) (version, up_arch input) = Some (up_bytes input)"
proof -
  have "up_arch input \<in> set build_keys" using assms(1) by (auto simp: upload_begin_def Let_def result_simps)
  from build_keys_sha [OF this this] show "snd (upload now hash input actor s) = Inl internal_error"
    "re_disk (fst (upload now hash input actor s)) (version, up_arch input) = Some (up_bytes input)"
    using assms by (simp_all add: upload_def upload_end_def Let_def insert_release_def new_release_def write_build_def)
qed

section \<open>Witnesses\<close>

definition no_releases :: releases where
  "no_releases = \<lparr>re_rows = [], re_next_id = 1, re_disk = Map.empty, re_told = []\<rparr>"

definition sample_bundle :: "string \<times> string \<Rightarrow> string option" where
  "sample_bundle = [(''0.6.0'', ''x86_64'') \<mapsto> ''b'', (''0.10.0'', ''x86_64'') \<mapsto> ''a'']"

definition seeded :: releases where
  "seeded = fst (seed_from_disk 5 id sample_bundle [''0.6.0'', ''0.10.0''] [''0.10.0'', ''0.6.0''] no_releases)"

lemma no_releases_ok: "releases_ok hash no_releases"
  by (simp add: releases_ok_def no_releases_def one_latest_def)

lemma seeded_reached: "release_reaches id no_releases seeded"
  unfolding seeded_def by (rule rel_step [OF rel_refl rel_seed])

theorem served_builds_verified_witness:
  "resolve_file ''v0.6.0'' ''x86_64'' seeded = Some (''0.6.0'', ''x86_64'', ''b'')
    \<and> (\<exists>bytes. re_disk seeded (''0.6.0'', ''x86_64'') = Some bytes \<and> id bytes = ''b'')"
proof -
  have "resolve_file ''v0.6.0'' ''x86_64'' seeded = Some (''0.6.0'', ''x86_64'', ''b'')" by code_simp
  with served_builds_verified [OF no_releases_ok seeded_reached] show ?thesis by blast
qed


end
