(* ===== verification/Prune.thy ===== *)
theory Prune
  imports Prelude
begin

text \<open>
  Deleting in batches (lib/prune.ts). The loops have no bound of their own, so they are partial functions:
  \<open>None\<close> is a loop that does not return. A table is the list of its rows.
\<close>

text \<open>\<open>cutoff\<close>, in milliseconds.\<close>

definition cutoff :: "int \<Rightarrow> int \<Rightarrow> int option" where
  "cutoff days now = (if 0 < days then Some (now - days * 86400000) else None)"

text \<open>The first rows of a query that orders by the identifier.\<close>

definition first_rows :: "('r \<Rightarrow> nat) \<Rightarrow> ('r \<Rightarrow> bool) \<Rightarrow> nat \<Rightarrow> 'r list \<Rightarrow> 'r list" where
  "first_rows key P batch table = take batch (sort_key key (filter P table))"

definition delete_ids :: "('r \<Rightarrow> nat) \<Rightarrow> nat set \<Rightarrow> 'r list \<Rightarrow> 'r list" where
  "delete_ids key ids table = filter (\<lambda>r. key r \<notin> ids) table"

partial_function (option) destroy_in_batches ::
    "('r \<Rightarrow> nat) \<Rightarrow> ('r \<Rightarrow> bool) \<Rightarrow> nat \<Rightarrow> nat \<Rightarrow> 'r list \<Rightarrow> (nat \<times> 'r list) option" where
  "destroy_in_batches key P batch sofar table =
     (let rows = first_rows key P batch table in
      if rows = [] then Some (sofar, table)
      else let table' = delete_ids key (key ` set rows) table;
               deleted = length table - length table' in
           if length rows < batch \<or> deleted = 0 then Some (sofar + deleted, table')
           else destroy_in_batches key P batch (sofar + deleted) table')"

text \<open>\<open>DELETE ... LIMIT\<close> takes the first matching rows in some order; here the table's.\<close>

fun delete_some :: "('r \<Rightarrow> bool) \<Rightarrow> nat \<Rightarrow> 'r list \<Rightarrow> 'r list" where
  "delete_some P n [] = []"
| "delete_some P n (r # rs) = (if P r \<and> 0 < n then delete_some P (n - 1) rs else r # delete_some P n rs)"

partial_function (option) delete_before ::
    "('r \<Rightarrow> int) \<Rightarrow> int \<Rightarrow> nat \<Rightarrow> nat \<Rightarrow> 'r list \<Rightarrow> (nat \<times> 'r list) option" where
  "delete_before column before batch sofar table =
     (let table' = delete_some (\<lambda>r. column r < before) batch table;
          affected = length table - length table' in
      if affected < batch then Some (sofar + affected, table')
      else delete_before column before batch (sofar + affected) table')"

section \<open>Rows in order\<close>

lemma first_rows_mem: "r \<in> set (first_rows key P batch table) \<Longrightarrow> r \<in> set table \<and> P r"
  by (auto simp: first_rows_def dest: in_set_takeD)

lemma first_rows_all: "length (filter P table) \<le> batch \<Longrightarrow> set (first_rows key P batch table) = {r \<in> set table. P r}"
  by (auto simp: first_rows_def)

lemma first_rows_Nil: "0 < batch \<Longrightarrow> first_rows key P batch table = [] \<longleftrightarrow> (\<forall>r\<in>set table. \<not> P r)"
  by (auto simp: first_rows_def filter_empty_conv dest: arg_cong [of _ _ length])

lemma length_without:
  assumes "distinct xs" "S \<subseteq> set xs"
  shows "length (filter (\<lambda>x. x \<notin> S) xs) = length xs - card S"
proof -
  have "{x. x \<notin> S} \<inter> set xs = set xs - S" by auto
  moreover have "finite S" using assms(2) finite_subset by blast
  ultimately show ?thesis
    using assms distinct_length_filter [of xs "\<lambda>x. x \<notin> S"] by (simp add: card_Diff_subset distinct_card)
qed

lemma delete_ids_filter:
  assumes "distinct (map key table)" and "rows = first_rows key P batch table"
  shows "filter (\<lambda>r. \<not> P r) (delete_ids key (key ` set rows) table) = filter (\<lambda>r. \<not> P r) table"
    "length (filter P (delete_ids key (key ` set rows) table)) = length (filter P table) - length rows"
    "length (delete_ids key (key ` set rows) table) = length table - length rows"
    "length rows \<le> length (filter P table)"
    "distinct (map key (delete_ids key (key ` set rows) table))"
proof -
  have inj: "inj_on key (set table)" and table: "distinct table" using assms(1) by (simp_all add: distinct_map)
  have rows: "set rows \<subseteq> set (filter P table)" using assms(2) first_rows_mem by fastforce
  then have sub: "set rows \<subseteq> set table" by auto
  have gone: "delete_ids key (key ` set rows) table = filter (\<lambda>r. r \<notin> set rows) table"
    unfolding delete_ids_def
    by (rule filter_cong [OF refl]) (simp add: inj_on_image_mem_iff [OF inj _ sub])
  have "distinct rows" unfolding assms(2) first_rows_def by (rule distinct_take) (simp add: table)
  then have card: "card (set rows) = length rows" by (simp add: distinct_card)
  show "filter (\<lambda>r. \<not> P r) (delete_ids key (key ` set rows) table) = filter (\<lambda>r. \<not> P r) table"
    unfolding gone filter_filter by (rule filter_cong [OF refl]) (use rows in auto)
  have swap: "filter P (filter (\<lambda>r. r \<notin> set rows) table) = filter (\<lambda>r. r \<notin> set rows) (filter P table)"
    by (simp add: conj_commute)
  show "length (filter P (delete_ids key (key ` set rows) table)) = length (filter P table) - length rows"
    unfolding gone swap using length_without [OF distinct_filter [OF table] rows] card by simp
  show "length (delete_ids key (key ` set rows) table) = length table - length rows"
    unfolding gone using length_without [OF table sub] card by simp
  show "length rows \<le> length (filter P table)" by (simp add: assms(2) first_rows_def)
  show "distinct (map key (delete_ids key (key ` set rows) table))"
    unfolding delete_ids_def using assms(1) by (rule distinct_map_filter)
qed

lemma delete_some_filter:
  "length (delete_some P n table) = length table - min n (length (filter P table))"
  "length (filter P table) \<le> n \<Longrightarrow> delete_some P n table = filter (\<lambda>r. \<not> P r) table"
  "filter (\<lambda>r. \<not> P r) (delete_some P n table) = filter (\<lambda>r. \<not> P r) table"
  "length (filter P (delete_some P n table)) = length (filter P table) - n"
proof -
  show "length (delete_some P n table) = length table - min n (length (filter P table))"
  proof (induction table arbitrary: n)
    case (Cons r rs)
    have le: "length (filter P rs) \<le> length rs" by (rule length_filter_le)
    show ?case
    proof (cases "P r \<and> 0 < n")
      case True
      then obtain m where "n = Suc m" by (cases n) auto
      with True Cons.IH [of m] show ?thesis by simp
    next
      case False
      then show ?thesis using Cons.IH [of n] le by (cases "P r") (simp_all add: Suc_diff_le min_le_iff_disj)
    qed
  qed simp
  show "length (filter P table) \<le> n \<Longrightarrow> delete_some P n table = filter (\<lambda>r. \<not> P r) table"
    by (induction P n table rule: delete_some.induct) auto
  show "filter (\<lambda>r. \<not> P r) (delete_some P n table) = filter (\<lambda>r. \<not> P r) table"
    by (induction P n table rule: delete_some.induct) auto
  show "length (filter P (delete_some P n table)) = length (filter P table) - n"
    by (induction P n table rule: delete_some.induct) auto
qed

section \<open>Both loops\<close>

lemma destroy_ends:
  assumes "distinct (map key table)" "0 < batch"
  shows "destroy_in_batches key P batch sofar table
    = Some (sofar + length (filter P table), filter (\<lambda>r. \<not> P r) table)"
  using assms(1)
proof (induction "length table" arbitrary: table sofar rule: less_induct)
  case less
  let ?rows = "first_rows key P batch table"
  note d = delete_ids_filter [OF less.prems, of ?rows P batch, OF refl]
  let ?t = "delete_ids key (key ` set ?rows) table"
  show ?case
  proof (cases "?rows = []")
    case True
    then have "\<forall>r\<in>set table. \<not> P r" using first_rows_Nil [OF assms(2), of key P table] by blast
    then have "filter P table = []" by (simp add: filter_empty_conv)
    moreover from this have "filter (\<lambda>r. \<not> P r) table = table" by (simp add: filter_empty_conv filter_id_conv)
    ultimately show ?thesis using True by (subst destroy_in_batches.simps) simp
  next
    case False
    have le: "length (filter P table) \<le> length table" by (rule length_filter_le)
    have deleted: "length table - length ?t = length ?rows" using d(3,4) le by linarith
    have some: "0 < length ?rows" using False by simp
    show ?thesis
    proof (cases "length ?rows < batch")
      case True
      then have "length (filter P table) = length ?rows" by (simp add: first_rows_def min_def split: if_splits)
      moreover from this have "filter P ?t = []" using d(2) by simp
      then have "?t = filter (\<lambda>r. \<not> P r) ?t" by (simp add: filter_empty_conv filter_id_conv)
      ultimately show ?thesis using True False deleted some d(1) by (subst destroy_in_batches.simps) (simp add: Let_def)
    next
      case full: False
      have shrinks: "length ?t < length table" using some d(3,4) le by linarith
      note IH = less.hyps [OF this d(5), of "sofar + length ?rows"]
      have "destroy_in_batches key P batch sofar table = destroy_in_batches key P batch (sofar + length ?rows) ?t"
        using full False deleted some shrinks by (subst destroy_in_batches.simps) (simp add: Let_def)
      also have "\<dots> = Some (sofar + length (filter P table), filter (\<lambda>r. \<not> P r) table)"
        using IH d(1,2,4) by simp
      finally show ?thesis .
    qed
  qed
qed

lemma delete_ends:
  assumes "0 < batch"
  shows "delete_before column before batch sofar table
    = Some (sofar + length (filter (\<lambda>r. column r < before) table), filter (\<lambda>r. \<not> column r < before) table)"
proof (induction "length (filter (\<lambda>r. column r < before) table)" arbitrary: table sofar rule: less_induct)
  case less
  let ?P = "\<lambda>r. column r < before"
  let ?t = "delete_some ?P batch table"
  let ?n = "length (filter ?P table)"
  have le: "?n \<le> length table" by (rule length_filter_le)
  have affected: "length table - length ?t = min batch ?n"
    using delete_some_filter(1) [of ?P batch table] le by linarith
  show ?case
  proof (cases "?n < batch")
    case True
    then show ?thesis using affected delete_some_filter(2) [of ?P table batch]
      by (subst delete_before.simps) (simp add: Let_def min_def)
  next
    case False
    have "length (filter ?P ?t) < ?n" using delete_some_filter(4) [of ?P batch table] assms False by simp
    note IH = less [OF this, of "sofar + batch"]
    have "delete_before column before batch sofar table = delete_before column before batch (sofar + batch) ?t"
      using affected False by (subst delete_before.simps) (simp add: Let_def min_def)
    then show ?thesis using IH delete_some_filter(3,4) [of ?P batch table] False by simp
  qed
qed

lemma delete_returns:
  assumes "delete_before column before batch sofar table = Some r"
  shows "batch \<noteq> 0"
proof (rule delete_before.raw_induct [where P = "\<lambda>column before batch sofar table r. batch \<noteq> 0", OF _ assms])
  fix f and column :: "'a \<Rightarrow> int" and before batch sofar table r
  assume IH: "\<And>column before batch sofar table r. f column before batch sofar table = Some r \<Longrightarrow> batch \<noteq> 0"
    and body: "(let table' = delete_some (\<lambda>r. column r < before) batch table; affected = length table - length table' in
      if affected < batch then Some (sofar + affected, table') else f column before batch (sofar + affected) table') = Some r"
  show "batch \<noteq> 0"
  proof
    assume "batch = 0"
    with body have "f column before batch (sofar + (length table - length (delete_some (\<lambda>r. column r < before) 0 table)))
        (delete_some (\<lambda>r. column r < before) 0 table) = Some r" by (simp add: Let_def)
    then show False using IH \<open>batch = 0\<close> by blast
  qed
qed

lemma delete_nothing_loops: "delete_before column before 0 sofar table = None"
  using delete_returns [of column before 0 sofar table] by (cases "delete_before column before 0 sofar table") auto

text \<open>Deleting in batches ends and deletes exactly the matching rows, counted, whatever the size of a
  batch, with one exception: with batches of no rows the query loop deletes nothing and returns, while the
  raw \<open>DELETE ... LIMIT 0\<close> loop never ends.\<close>

theorem batched_deletes_end:
  assumes "distinct (map key table)"
  shows "destroy_in_batches key P batch 0 table = (if batch = 0 then Some (0, table)
      else Some (length (filter P table), filter (\<lambda>r. \<not> P r) table))
    \<and> delete_before column before batch 0 table = (if batch = 0 then None
      else Some (length (filter (\<lambda>r. column r < before) table), filter (\<lambda>r. \<not> column r < before) table))"
  using destroy_ends [OF assms, of batch P 0] delete_ends [of batch column before 0 table]
    delete_nothing_loops [of column before 0 table]
  by (auto simp: destroy_in_batches.simps [of key P 0] first_rows_def)

theorem batched_deletes_end_witness:
  "destroy_in_batches fst (\<lambda>r. snd r < (5::int)) 2 0 [(1, 3), (2, 9), (3, 4), (4, 1)] = Some (3, [(2, 9)])"
  using batched_deletes_end [of fst "[(1, 3), (2, 9), (3, 4), (4, 1)]" "\<lambda>r. snd r < (5::int)" 2] by simp

end
