(* ===== verification/Audit_Log.thy ===== *)
theory Audit_Log
  imports Prune
begin

text \<open>
  The audit log (modules/audit/service.ts): recording, listing, the export a page at a time, the cells of a
  CSV export and the archive. The text of JSON and of dates and the compression are library code: \<open>json\<close>
  is the text of an entry's details, \<open>line\<close> the JSON line of an entry, \<open>day\<close> the first ten characters of
  an ISO date.
\<close>

section \<open>Entries\<close>

record 'd audit_row =
  ae_id :: nat
  ae_actor :: "nat option"
  ae_action :: string
  ae_target_type :: "string option"
  ae_target_id :: "nat option"
  ae_details :: "'d option"
  ae_ip :: "string option"
  ae_created_at :: int

record 'd audit_log =
  al_rows :: "'d audit_row list"
  al_next_id :: nat

record 'd audit_input =
  ai_actor :: "nat option"
  ai_action :: string
  ai_target_type :: "string option"
  ai_target_id :: "nat option"
  ai_details :: "'d option"
  ai_ip :: "string option"

text \<open>\<open>record\<close>: a failing insert is only logged.\<close>

definition record_entry :: "bool \<Rightarrow> int \<Rightarrow> 'd audit_input \<Rightarrow> 'd audit_log \<Rightarrow> 'd audit_log" where
  "record_entry inserts now input lg = (if inserts
     then lg\<lparr>al_rows := al_rows lg @ [\<lparr>ae_id = al_next_id lg, ae_actor = ai_actor input, ae_action = ai_action input,
            ae_target_type = ai_target_type input, ae_target_id = ai_target_id input, ae_details = ai_details input,
            ae_ip = ai_ip input, ae_created_at = now\<rparr>],
          al_next_id := Suc (al_next_id lg)\<rparr>
     else lg)"

text \<open>A filter that is absent, empty or 0 does not filter.\<close>

definition picks :: "string option \<Rightarrow> string option \<Rightarrow> bool" where
  "picks want have_it \<longleftrightarrow> (case truthy want of None \<Rightarrow> True | Some w \<Rightarrow> have_it = Some w)"

definition picks_id :: "nat option \<Rightarrow> nat option \<Rightarrow> bool" where
  "picks_id want have_it \<longleftrightarrow> (case want of None \<Rightarrow> True | Some w \<Rightarrow> w = 0 \<or> have_it = Some w)"

record list_options =
  lo_page :: nat
  lo_page_size :: nat
  lo_action :: "string option"
  lo_actor :: "nat option"
  lo_target_type :: "string option"
  lo_target_id :: "nat option"

text \<open>A page of entries, newest first, and how many match.\<close>

definition list_entries :: "list_options \<Rightarrow> 'd audit_log \<Rightarrow> 'd audit_row list \<times> nat" where
  "list_entries q lg =
     (let rows = filter (\<lambda>e. picks (lo_action q) (Some (ae_action e)) \<and> picks_id (lo_actor q) (ae_actor e)
            \<and> picks (lo_target_type q) (ae_target_type e) \<and> picks_id (lo_target_id q) (ae_target_id e)) (al_rows lg) in
      (take (lo_page_size q) (drop ((lo_page q - 1) * lo_page_size q) (rev (sort_key ae_id rows))), length rows))"

section \<open>Export\<close>

record export_filter =
  xf_action :: "string option"
  xf_actor :: "nat option"
  xf_from :: "int option"
  xf_to :: "int option"

definition selects :: "export_filter \<Rightarrow> 'd audit_row \<Rightarrow> bool" where
  "selects f e \<longleftrightarrow> picks (xf_action f) (Some (ae_action e)) \<and> picks_id (xf_actor f) (ae_actor e)
     \<and> (case xf_from f of None \<Rightarrow> True | Some t \<Rightarrow> t \<le> ae_created_at e)
     \<and> (case xf_to f of None \<Rightarrow> True | Some t \<Rightarrow> ae_created_at e < t)"

definition export_where :: "export_filter \<Rightarrow> nat \<Rightarrow> 'd audit_row \<Rightarrow> bool" where
  "export_where f after e \<longleftrightarrow> after < ae_id e \<and> selects f e"

definition export_page :: nat where
  "export_page = 1000"

text \<open>One \<open>pull\<close>: the rows, the new \<open>afterId\<close> and whether the stream is closed.\<close>

definition pull_page :: "nat \<Rightarrow> export_filter \<Rightarrow> nat \<Rightarrow> 'd audit_row list \<Rightarrow> 'd audit_row list \<times> nat \<times> bool" where
  "pull_page page f after table =
     (let rows = first_rows ae_id (export_where f after) page table in
      (rows, if rows = [] then after else ae_id (last rows), length rows < page))"

text \<open>The stream, with the table as each pull finds it: the rows written and whether it was closed.\<close>

fun export_stream :: "nat \<Rightarrow> export_filter \<Rightarrow> nat \<Rightarrow> 'd audit_row list list \<Rightarrow> 'd audit_row list \<times> bool" where
  "export_stream page f after [] = ([], False)"
| "export_stream page f after (table # tables) = (case pull_page page f after table of
     (rows, after', full) \<Rightarrow>
       if full then (rows, True)
       else (case export_stream page f after' tables of (more', done) \<Rightarrow> (rows @ more', done)))"

section \<open>CSV\<close>

datatype 'd cell = Empty_Cell | Text_Cell string | Number_Cell nat | Object_Cell 'd

definition formula_start :: "string \<Rightarrow> bool" where
  "formula_start s \<longleftrightarrow> (case s of [] \<Rightarrow> False
     | c # _ \<Rightarrow> c \<in> {CHR ''='', CHR ''+'', CHR ''-'', CHR ''@'', CHR 0x09, CHR 0x0D})"

text \<open>What a cell says, before quoting.\<close>

definition cell_text :: "('d \<Rightarrow> string) \<Rightarrow> 'd cell \<Rightarrow> string" where
  "cell_text json v = (case v of Empty_Cell \<Rightarrow> [] | Number_Cell n \<Rightarrow> digits_of n | Object_Cell d \<Rightarrow> json d
     | Text_Cell s \<Rightarrow> if formula_start s then CHR 0x27 # s else s)"

definition special_char :: "char \<Rightarrow> bool" where
  "special_char c \<longleftrightarrow> c \<in> {CHR 0x22, CHR '','', CHR 0x0D, CHR 0x0A}"

definition double_quotes :: "string \<Rightarrow> string" where
  "double_quotes s = concat (map (\<lambda>c. if c = CHR 0x22 then [c, c] else [c]) s)"

definition csv_cell :: "('d \<Rightarrow> string) \<Rightarrow> 'd cell \<Rightarrow> string" where
  "csv_cell json v = (let s = cell_text json v in
     if list_ex special_char s then CHR 0x22 # double_quotes s @ [CHR 0x22] else s)"

definition csv_row :: "('d \<Rightarrow> string) \<Rightarrow> 'd cell list \<Rightarrow> string" where
  "csv_row json cells = join '','' (map (csv_cell json) cells) @ [CHR 0x0D, CHR 0x0A]"

definition optional :: "('a \<Rightarrow> 'd cell) \<Rightarrow> 'a option \<Rightarrow> 'd cell" where
  "optional f x = (case x of None \<Rightarrow> Empty_Cell | Some y \<Rightarrow> f y)"

text \<open>\<open>who\<close> are the name and address of a user, \<open>iso_date\<close> the text of a date.\<close>

definition entry_cells :: "(int \<Rightarrow> string) \<Rightarrow> (nat \<Rightarrow> (string \<times> string) option) \<Rightarrow> 'd audit_row \<Rightarrow> 'd cell list" where
  "entry_cells iso_date who e = (let actor = Option.bind (ae_actor e) who in
     [Number_Cell (ae_id e), Text_Cell (iso_date (ae_created_at e)), optional (Text_Cell \<circ> snd) actor,
      optional (Text_Cell \<circ> fst) actor, Text_Cell (ae_action e), optional Text_Cell (ae_target_type e),
      optional Number_Cell (ae_target_id e), optional Text_Cell (ae_ip e), optional Object_Cell (ae_details e)])"

definition csv_line :: "('d \<Rightarrow> string) \<Rightarrow> (int \<Rightarrow> string) \<Rightarrow> (nat \<Rightarrow> (string \<times> string) option) \<Rightarrow> 'd audit_row \<Rightarrow> string" where
  "csv_line json iso_date who e = csv_row json (entry_cells iso_date who e)"

definition csv_header :: string where
  "csv_header = ''id,created_at,actor_email,actor_name,action,target_type,target_id,ip,details'' @ [CHR 0x0D, CHR 0x0A]"

section \<open>Archive\<close>

definition archive_batch :: nat where
  "archive_batch = 5000"

text \<open>
  \<open>archiveAndPrune\<close> between its awaits. \<open>ar_files\<close> are the complete files in the archive, with their
  lines; a rename replaces a file of the same name.
\<close>

datatype 'd archive_phase = Scanning | Writing "'d audit_row list" | Deleting "'d audit_row list" | Archived

record 'd archive =
  ar_rows :: "'d audit_row list"
  ar_files :: "(string \<times> string list) list"
  ar_phase :: "'d archive_phase"
  ar_names :: "string list"
  ar_count :: nat

definition archive_name :: "(int \<Rightarrow> string) \<Rightarrow> 'd audit_row \<Rightarrow> 'd audit_row \<Rightarrow> string" where
  "archive_name day first_entry last_entry = ''audit-'' @ day (ae_created_at first_entry) @ ''_'' @ day (ae_created_at last_entry)
     @ ''_'' @ digits_of (ae_id first_entry) @ ''-'' @ digits_of (ae_id last_entry) @ ''.jsonl.gz''"

definition put_file :: "string \<Rightarrow> string list \<Rightarrow> (string \<times> string list) list \<Rightarrow> (string \<times> string list) list" where
  "put_file name content files = filter (\<lambda>f. fst f \<noteq> name) files @ [(name, content)]"

definition archive_next :: "nat \<Rightarrow> int \<Rightarrow> (int \<Rightarrow> string) \<Rightarrow> ('d audit_row \<Rightarrow> string) \<Rightarrow> 'd archive \<Rightarrow> 'd archive" where
  "archive_next batch before day line a = (case ar_phase a of
     Scanning \<Rightarrow>
       let rows = first_rows ae_id (\<lambda>e. ae_created_at e < before) batch (ar_rows a) in
       a\<lparr>ar_phase := (if rows = [] then Archived else Writing rows)\<rparr>
   | Writing rows \<Rightarrow>
       a\<lparr>ar_files := put_file (archive_name day (hd rows) (last rows)) (map line rows) (ar_files a),
         ar_phase := Deleting rows\<rparr>
   | Deleting rows \<Rightarrow>
       a\<lparr>ar_rows := delete_ids ae_id (ae_id ` set rows) (ar_rows a),
         ar_names := ar_names a @ [archive_name day (hd rows) (last rows)],
         ar_count := ar_count a + length rows,
         ar_phase := (if length rows < batch then Archived else Scanning)\<rparr>
   | Archived \<Rightarrow> a)"

section \<open>The export is complete\<close>

lemma first_rows_sorted: "distinct (map key table) \<Longrightarrow> sorted_wrt (<) (map key (sort_key key (filter P table)))"
  unfolding strict_sorted_iff by (auto simp: distinct_map intro: inj_on_subset)

lemma taken_first:
  assumes "sorted_wrt (<) (map key xs)" "x \<in> set xs" "x \<notin> set (take n xs)" "y \<in> set (take n xs)"
  shows "key y < (key x :: nat)"
proof -
  have "x \<in> set (drop n xs)" using assms(2,3) by (metis Un_iff append_take_drop_id set_append)
  moreover have "sorted_wrt (<) (map key (take n xs) @ map key (drop n xs))"
    using assms(1) by (metis append_take_drop_id map_append)
  ultimately show ?thesis using assms(4) by (auto simp: sorted_wrt_append)
qed

lemma pull_page_facts:
  assumes "distinct (map ae_id table)" "pull_page page f after table = (rows, after', full)"
  shows "sorted_wrt (<) (map ae_id rows)" "\<forall>e\<in>set rows. e \<in> set table \<and> selects f e \<and> after < ae_id e \<and> ae_id e \<le> after'"
    "after \<le> after'"
    "e \<in> set table \<Longrightarrow> selects f e \<Longrightarrow> after < ae_id e \<Longrightarrow> e \<in> set rows \<or> \<not> full \<and> after' < ae_id e"
proof -
  define xs where "xs = sort_key ae_id (filter (export_where f after) table)"
  have xs: "sorted_wrt (<) (map ae_id xs)" unfolding xs_def by (rule first_rows_sorted [OF assms(1)])
  have rows: "rows = take page xs" "after' = (if rows = [] then after else ae_id (last rows))" "full = (length rows < page)"
    using assms(2) by (auto simp: pull_page_def Let_def first_rows_def xs_def)
  show sorted: "sorted_wrt (<) (map ae_id rows)" using xs by (simp add: rows take_map [symmetric] sorted_wrt_take)
  have mem: "e \<in> set xs \<longleftrightarrow> e \<in> set table \<and> selects f e \<and> after < ae_id e" for e
    by (auto simp: xs_def export_where_def)
  have le: "ae_id e \<le> ae_id (last rows)" if "e \<in> set rows" for e
  proof -
    from that obtain ys where ys: "rows = ys @ [last rows]" by (metis append_butlast_last_id empty_iff list.set(1))
    with sorted have "sorted_wrt (<) (map ae_id ys @ [ae_id (last rows)])" by (metis list.simps(8,9) map_append)
    then have "\<forall>x\<in>set ys. ae_id x < ae_id (last rows)" by (simp add: sorted_wrt_append)
    with that ys show ?thesis by (metis Un_iff empty_iff insert_iff le_eq_less_or_eq list.set set_append)
  qed
  have sub: "set rows \<subseteq> set xs" by (auto simp: rows dest: in_set_takeD)
  show all: "\<forall>e\<in>set rows. e \<in> set table \<and> selects f e \<and> after < ae_id e \<and> ae_id e \<le> after'"
  proof
    fix e assume e: "e \<in> set rows"
    then have "rows \<noteq> []" by auto
    with e le sub mem show "e \<in> set table \<and> selects f e \<and> after < ae_id e \<and> ae_id e \<le> after'"
      by (auto simp: rows(2))
  qed
  show "after \<le> after'"
  proof (cases "rows = []")
    case False
    then have "after < ae_id (last rows)" using all last_in_set by blast
    then show ?thesis by (simp add: rows(2))
  qed (simp add: rows(2))
  show "e \<in> set rows \<or> \<not> full \<and> after' < ae_id e" if "e \<in> set table" "selects f e" "after < ae_id e" for e
  proof (cases "e \<in> set rows")
    case False
    have e: "e \<in> set xs" using that mem by simp
    with False have "\<not> length xs \<le> page" by (auto simp: rows(1))
    then have "\<not> full" by (simp add: rows(1,3))
    moreover have "after' < ae_id e"
      using that(3) last_in_set [of rows] taken_first [OF xs e, of page "last rows"] False by (auto simp: rows)
    ultimately show ?thesis by simp
  qed simp
qed

text \<open>However the table changes while an export is streamed: rows come by ascending identifier, so none
  twice, all of them match the filter, and once the stream is closed every matching entry that was there all
  along has been written.\<close>

theorem export_complete:
  assumes "\<forall>table\<in>set tables. distinct (map ae_id table)" and "export_stream page f after tables = (rows, finished)"
  shows "sorted_wrt (<) (map ae_id rows) \<and> (\<forall>e\<in>set rows. selects f e \<and> after < ae_id e)
    \<and> (finished \<longrightarrow> (\<forall>e. (\<forall>table\<in>set tables. e \<in> set table) \<and> selects f e \<and> after < ae_id e \<longrightarrow> e \<in> set rows))"
  using assms
proof (induction tables arbitrary: after rows)
  case (Cons table tables)
  obtain r after' full where p: "pull_page page f after table = (r, after', full)" by (cases "pull_page page f after table") auto
  note facts = pull_page_facts [OF _ p]
  have d: "distinct (map ae_id table)" using Cons.prems(1) by simp
  show ?case
  proof (cases full)
    case True
    with Cons.prems(2) p have "rows = r" by simp
    then show ?thesis using facts [OF d] True by auto
  next
    case False
    obtain r2 fin where rest: "export_stream page f after' tables = (r2, fin)" by fastforce
    with Cons.prems(2) p False have rows: "rows = r @ r2" "finished = fin" by auto
    note IH = Cons.IH [of after' r2] 
    have r2: "sorted_wrt (<) (map ae_id r2)" "\<forall>e\<in>set r2. selects f e \<and> after' < ae_id e"
      "fin \<Longrightarrow> (\<forall>table\<in>set tables. e \<in> set table) \<Longrightarrow> selects f e \<Longrightarrow> after' < ae_id e \<Longrightarrow> e \<in> set r2" for e
      using IH Cons.prems(1) rest rows(2) by auto
    have r: "\<forall>e\<in>set r. selects f e \<and> after < ae_id e \<and> ae_id e \<le> after'" using facts(2) [OF d] by blast
    have "sorted_wrt (<) (map ae_id rows)"
      using facts(1) [OF d] r r2(1,2) by (fastforce simp: rows sorted_wrt_append)
    moreover have "\<forall>e\<in>set rows. selects f e \<and> after < ae_id e" using r r2(2) facts(3) [OF d] by (fastforce simp: rows)
    moreover have "e \<in> set rows" if "finished" "\<forall>table'\<in>set (table # tables). e \<in> set table'" "selects f e" "after < ae_id e" for e
      using facts(4) [OF d, of e] that r2(3) rows by auto
    ultimately show ?thesis by blast
  qed
qed simp

section \<open>CSV cells read back\<close>

text \<open>A reader for one record, as RFC 4180 has it: the cells and the text after the record.\<close>

datatype csv_mode = Cell_Start | Plain | Quoted | Quote_Seen

fun csv_read :: "csv_mode \<Rightarrow> string \<Rightarrow> string list \<Rightarrow> string \<Rightarrow> (string list \<times> string) option" where
  "csv_read m cur cells [] = None"
| "csv_read m cur cells (c # cs) =
     (if m = Quoted then (if c = CHR 0x22 then csv_read Quote_Seen cur cells cs else csv_read Quoted (cur @ [c]) cells cs)
      else if m = Cell_Start \<and> c = CHR 0x22 then csv_read Quoted [] cells cs
      else if m = Quote_Seen \<and> c = CHR 0x22 then csv_read Quoted (cur @ [c]) cells cs
      else if c = CHR '','' then csv_read Cell_Start [] (cells @ [cur]) cs
      else if c = CHR 0x0D then (case cs of [] \<Rightarrow> None
        | x # rest \<Rightarrow> if x = CHR 0x0A then Some (cells @ [cur], rest) else None)
      else if m = Quote_Seen then None
      else csv_read Plain (cur @ [c]) cells cs)"

lemma read_plain: "list_all (\<lambda>c. \<not> special_char c) s \<Longrightarrow> csv_read Plain cur cells (s @ t) = csv_read Plain (cur @ s) cells t"
  by (induction s arbitrary: cur) (simp_all add: special_char_def)

lemma read_quoted: "csv_read Quoted cur cells (double_quotes s @ CHR 0x22 # t) = csv_read Quote_Seen (cur @ s) cells t"
  by (induction s arbitrary: cur) (simp_all add: double_quotes_def)

text \<open>After a cell comes a comma or the end of the record, where the modes agree.\<close>

lemma read_cell:
  assumes "t = CHR '','' # u \<or> t = CHR 0x0D # CHR 0x0A # u"
  shows "csv_read Cell_Start [] cells (csv_cell json v @ t) = csv_read Plain (cell_text json v) cells t"
proof (cases "list_ex special_char (cell_text json v)")
  case True
  then have "csv_cell json v @ t = CHR 0x22 # double_quotes (cell_text json v) @ CHR 0x22 # t"
    by (simp add: csv_cell_def Let_def)
  then have "csv_read Cell_Start [] cells (csv_cell json v @ t) = csv_read Quote_Seen (cell_text json v) cells t"
    using read_quoted [of "[]" cells "cell_text json v" t] by simp
  then show ?thesis using assms by auto
next
  case False
  then have plain: "csv_cell json v = cell_text json v" "list_all (\<lambda>c. \<not> special_char c) (cell_text json v)"
    by (auto simp: csv_cell_def Let_def list_ex_iff list_all_iff)
  show ?thesis
  proof (cases "cell_text json v")
    case Nil
    then show ?thesis using assms plain by auto
  next
    case (Cons c cs)
    then have "csv_read Cell_Start [] cells (csv_cell json v @ t) = csv_read Plain [c] cells (cs @ t)"
      using plain by (simp add: special_char_def)
    also have "\<dots> = csv_read Plain (cell_text json v) cells t"
      using read_plain [of cs "[c]" cells t] plain(2) Cons by simp
    finally show ?thesis .
  qed
qed

lemma read_row: "vs \<noteq> [] \<Longrightarrow> csv_read Cell_Start [] cells (csv_row json vs @ rest) = Some (cells @ map (cell_text json) vs, rest)"
proof (induction vs arbitrary: cells)
  case (Cons v vs)
  show ?case
  proof (cases vs)
    case Nil
    then show ?thesis using read_cell [of "CHR 0x0D # CHR 0x0A # rest" rest cells json v] by (simp add: csv_row_def)
  next
    case (Cons w ws)
    then have "csv_row json (v # vs) @ rest = csv_cell json v @ CHR '','' # (csv_row json vs @ rest)"
      by (simp add: csv_row_def)
    then show ?thesis using read_cell [of "CHR '','' # (csv_row json vs @ rest)" "csv_row json vs @ rest" cells json v] Cons.IH Cons
      by simp
  qed
qed simp

text \<open>A line of the CSV export reads back, by the rules of CSV, as exactly the entry's nine cells, with
  whatever commas, quotes and line breaks names and details have, and the next line starts where it ends. No
  cell with text begins like a spreadsheet formula: the only change to a text is an apostrophe before one.\<close>

theorem csv_line_reads_back:
  "csv_read Cell_Start [] [] (csv_line json iso_date who e @ rest) = Some (map (cell_text json) (entry_cells iso_date who e), rest)
    \<and> list_all (\<lambda>v. case v of Text_Cell s \<Rightarrow> \<not> formula_start (cell_text json v) \<and> (cell_text json v = s \<or> cell_text json v = CHR 0x27 # s)
        | _ \<Rightarrow> True) (entry_cells iso_date who e)"
proof -
  have "csv_read Cell_Start [] [] (csv_line json iso_date who e @ rest) = Some (map (cell_text json) (entry_cells iso_date who e), rest)"
    unfolding csv_line_def using read_row [of "entry_cells iso_date who e" "[]" json rest] by (simp add: entry_cells_def Let_def)
  moreover have "case v of Text_Cell s \<Rightarrow> \<not> formula_start (cell_text json v) \<and> (cell_text json v = s \<or> cell_text json v = CHR 0x27 # s)
        | _ \<Rightarrow> True" for v :: "'a cell"
    by (cases v) (auto simp: cell_text_def formula_start_def split: list.split)
  ultimately show ?thesis by (simp add: list_all_iff)
qed

section \<open>The archive loses nothing\<close>

lemma digits_end: "\<not> is_digit c \<Longrightarrow> takeWhile is_digit (digits_of n @ c # s) = digits_of n"
  using digits_of_digits [of n] by (simp add: takeWhile_append2)

lemma archive_name_inject:
  assumes "\<forall>t. length (day t) = 10" "archive_name day a b = archive_name day c d"
  shows "ae_id a = ae_id c"
proof -
  let ?h = "\<lambda>a b. ''audit-'' @ day (ae_created_at a) @ ''_'' @ day (ae_created_at b) @ ''_''"
  let ?z = "\<lambda>a b. digits_of (ae_id a) @ CHR ''-'' # digits_of (ae_id b) @ ''.jsonl.gz''"
  have "?h a b @ ?z a b = ?h c d @ ?z c d" using assms(2) by (simp add: archive_name_def)
  moreover have "length (?h a b) = length (?h c d)" using assms(1) by simp
  ultimately have "?z a b = ?z c d" by (metis append_eq_append_conv)
  then have "takeWhile is_digit (?z a b) = takeWhile is_digit (?z c d)" by (rule arg_cong)
  moreover have "\<not> is_digit (CHR ''-'')" by (simp add: is_digit_def)
  ultimately show ?thesis by (simp add: digits_end digits_of_inject)
qed

definition archived_file :: "(int \<Rightarrow> string) \<Rightarrow> ('d audit_row \<Rightarrow> string) \<Rightarrow> 'd audit_row list \<Rightarrow> string \<times> string list" where
  "archived_file day line rows = (archive_name day (hd rows) (last rows), map line rows)"

definition due_rows :: "nat \<Rightarrow> int \<Rightarrow> 'd archive \<Rightarrow> 'd audit_row list" where
  "due_rows batch before a = first_rows ae_id (\<lambda>e. ae_created_at e < before) batch (ar_rows a)"

text \<open>What the archive starts from: unique rows, no file named after any two of them.\<close>

definition archivable :: "nat \<Rightarrow> (int \<Rightarrow> string) \<Rightarrow> 'd audit_row list \<Rightarrow> (string \<times> string list) list \<Rightarrow> bool" where
  "archivable batch day rows files \<longleftrightarrow> 0 < batch \<and> (\<forall>t. length (day t) = 10) \<and> distinct (map ae_id rows)
     \<and> (\<forall>e\<in>set rows. \<forall>e'\<in>set rows. archive_name day e e' \<notin> fst ` set files)"

text \<open>\<open>batches\<close> were written and deleted since the start with the rows \<open>all\<close>.\<close>

definition archive_core :: "int \<Rightarrow> 'd audit_row list \<Rightarrow> 'd audit_row list list \<Rightarrow> 'd archive \<Rightarrow> bool" where
  "archive_core before all batches a \<longleftrightarrow> ar_rows a = filter (\<lambda>e. e \<notin> set (concat batches)) all
     \<and> [] \<notin> set batches \<and> distinct (concat batches)
     \<and> set (concat batches) \<subseteq> {e \<in> set all. ae_created_at e < before} \<and> ar_count a = length (concat batches)"

fun pending :: "'d archive_phase \<Rightarrow> 'd audit_row list list" where
  "pending (Deleting r) = [r]"
| "pending _ = []"

definition phase_ok :: "nat \<Rightarrow> int \<Rightarrow> 'd archive \<Rightarrow> bool" where
  "phase_ok batch before a \<longleftrightarrow> (case ar_phase a of Scanning \<Rightarrow> True
     | Writing r \<Rightarrow> r \<noteq> [] \<and> r = due_rows batch before a
     | Deleting r \<Rightarrow> r \<noteq> [] \<and> r = due_rows batch before a
     | Archived \<Rightarrow> \<forall>e\<in>set (ar_rows a). \<not> ae_created_at e < before)"

definition archive_inv :: "nat \<Rightarrow> int \<Rightarrow> (int \<Rightarrow> string) \<Rightarrow> ('d audit_row \<Rightarrow> string) \<Rightarrow> 'd audit_row list \<Rightarrow>
    (string \<times> string list) list \<Rightarrow> 'd audit_row list list \<Rightarrow> 'd archive \<Rightarrow> bool" where
  "archive_inv batch before day line all files batches a \<longleftrightarrow> archivable batch day all files
     \<and> archive_core before all batches a \<and> phase_ok batch before a
     \<and> ar_files a = files @ map (archived_file day line) (batches @ pending (ar_phase a))"

lemma core_facts:
  assumes "archivable batch day all files" "archive_core before all batches a"
  shows "distinct (map ae_id (ar_rows a))" "e \<in> set (due_rows batch before a) \<Longrightarrow> e \<in> set all \<and> e \<notin> set (concat batches)"
    "e \<in> set (due_rows batch before a) \<Longrightarrow> ae_created_at e < before"
    "x \<in> set all \<Longrightarrow> y \<in> set all \<Longrightarrow> ae_id x = ae_id y \<Longrightarrow> x = y"
proof -
  show "distinct (map ae_id (ar_rows a))"
    using assms by (simp add: archivable_def archive_core_def distinct_map_filter)
  show "e \<in> set (due_rows batch before a) \<Longrightarrow> e \<in> set all \<and> e \<notin> set (concat batches)"
    "e \<in> set (due_rows batch before a) \<Longrightarrow> ae_created_at e < before"
    unfolding due_rows_def by (drule first_rows_mem, use assms(2) in \<open>simp add: archive_core_def\<close>)+
  show "x \<in> set all \<Longrightarrow> y \<in> set all \<Longrightarrow> ae_id x = ae_id y \<Longrightarrow> x = y"
    using assms(1) by (simp add: archivable_def distinct_map inj_on_def)
qed

lemma scan_step:
  assumes inv: "archive_inv batch before day line all files batches a" and phase: "ar_phase a = Scanning"
    and t: "t = archive_next batch before day line a"
  shows "archive_inv batch before day line all files batches t"
    "ar_phase t = (if due_rows batch before a = [] then Archived else Writing (due_rows batch before a))"
    "ar_rows t = ar_rows a"
proof -
  have s: "t = a\<lparr>ar_phase := (if due_rows batch before a = [] then Archived else Writing (due_rows batch before a))\<rparr>"
    by (simp add: t archive_next_def phase Let_def due_rows_def)
  show ph: "ar_phase t = (if due_rows batch before a = [] then Archived else Writing (due_rows batch before a))"
    and rows: "ar_rows t = ar_rows a" by (simp_all add: s)
  have pos: "0 < batch" using inv by (simp add: archive_inv_def archivable_def)
  have due: "due_rows batch before t = due_rows batch before a" unfolding due_rows_def rows by (rule refl)
  have "phase_ok batch before t"
  proof (cases "due_rows batch before a = []")
    case True
    then have "\<forall>e\<in>set (ar_rows a). \<not> ae_created_at e < before" unfolding due_rows_def first_rows_Nil [OF pos] .
    then show ?thesis unfolding phase_ok_def ph rows using True by simp
  next
    case False
    then show ?thesis unfolding phase_ok_def ph due by simp
  qed
  moreover have "archive_core before all batches t" using inv by (simp add: archive_inv_def archive_core_def s)
  ultimately show "archive_inv batch before day line all files batches t"
    using inv phase by (simp add: archive_inv_def s)
qed

lemma write_step:
  assumes inv: "archive_inv batch before day line all files batches a" and phase: "ar_phase a = Writing r"
    and t: "t = archive_next batch before day line a"
  shows "archive_inv batch before day line all files batches t" "ar_phase t = Deleting r" "ar_rows t = ar_rows a"
proof -
  have start: "archivable batch day all files" and core: "archive_core before all batches a"
    and r: "r \<noteq> []" "r = due_rows batch before a"
    and stored: "ar_files a = files @ map (archived_file day line) batches"
    using inv unfolding archive_inv_def phase_ok_def phase archive_phase.case pending.simps append_Nil2 by blast+
  note facts = core_facts [OF start core]
  have mem: "hd r \<in> set all" "last r \<in> set all" "hd r \<notin> set (concat batches)"
    using facts(2) r(2) hd_in_set [OF r(1)] last_in_set [OF r(1)] by blast+
  have new: "archive_name day (hd r) (last r) \<noteq> fst f" if f: "f \<in> set (ar_files a)" for f
  proof -
    from f stored consider "f \<in> set files" | b where "b \<in> set batches" "f = archived_file day line b" by auto
    then show ?thesis
    proof cases
      case 1
      then show ?thesis using start mem(1,2) unfolding archivable_def by blast
    next
      case 2
      have "b \<noteq> []" using core 2(1) by (auto simp: archive_core_def)
      then have "hd b \<in> set (concat batches)" using 2(1) hd_in_set by fastforce
      moreover from this have "hd b \<in> set all" using core by (auto simp: archive_core_def)
      ultimately have "ae_id (hd b) \<noteq> ae_id (hd r)" using facts(4) [OF _ mem(1)] mem(3) by metis
      moreover have "\<forall>t. length (day t) = 10" using start by (simp add: archivable_def)
      ultimately show ?thesis using archive_name_inject [of day "hd r" "last r" "hd b" "last b"] 2(2)
        by (metis archived_file_def fst_conv)
    qed
  qed
  then have "filter (\<lambda>f. fst f \<noteq> archive_name day (hd r) (last r)) (ar_files a) = ar_files a"
    by (intro filter_True) metis
  then have s: "t = a\<lparr>ar_files := ar_files a @ [archived_file day line r], ar_phase := Deleting r\<rparr>"
    by (simp add: t archive_next_def phase put_file_def archived_file_def)
  then show "ar_phase t = Deleting r" "ar_rows t = ar_rows a" by simp_all
  have "archive_core before all batches t" "phase_ok batch before t"
    using core r by (simp_all add: archive_core_def phase_ok_def due_rows_def s)
  then show "archive_inv batch before day line all files batches t"
    using start stored by (simp add: archive_inv_def s)
qed

lemma delete_step:
  assumes inv: "archive_inv batch before day line all files batches a" and phase: "ar_phase a = Deleting r"
    and t: "t = archive_next batch before day line a"
  shows "archive_inv batch before day line all files (batches @ [r]) t"
    "ar_phase t = (if length r < batch then Archived else Scanning)" "length (ar_rows t) < length (ar_rows a)"
proof -
  have start: "archivable batch day all files" and core: "archive_core before all batches a"
    and r: "r \<noteq> []" "r = due_rows batch before a"
    and stored: "ar_files a = files @ map (archived_file day line) (batches @ [r])"
    using inv unfolding archive_inv_def phase_ok_def phase archive_phase.case pending.simps by blast+
  note facts = core_facts [OF start core]
  note d = delete_ids_filter [OF facts(1) r(2) [unfolded due_rows_def]]
  have s: "t = a\<lparr>ar_rows := delete_ids ae_id (ae_id ` set r) (ar_rows a),
      ar_names := ar_names a @ [archive_name day (hd r) (last r)], ar_count := ar_count a + length r,
      ar_phase := (if length r < batch then Archived else Scanning)\<rparr>"
    by (simp add: t archive_next_def phase)
  have ph: "ar_phase t = (if length r < batch then Archived else Scanning)"
    and fs: "ar_files t = ar_files a" "ar_count t = ar_count a + length r"
    and rows_t: "ar_rows t = delete_ids ae_id (ae_id ` set r) (ar_rows a)" by (simp_all add: s)
  show "ar_phase t = (if length r < batch then Archived else Scanning)" by (rule ph)
  have "length r \<le> length (ar_rows a)" using d(4) length_filter_le order.trans by blast
  moreover have "0 < length r" using r(1) by simp
  ultimately show "length (ar_rows t) < length (ar_rows a)" unfolding rows_t using d(3) by linarith
  have sub: "set r \<subseteq> set (ar_rows a)" unfolding r(2) due_rows_def
    using first_rows_mem [of _ ae_id "\<lambda>e. ae_created_at e < before" batch "ar_rows a"] by blast
  have inj: "inj_on ae_id (set (ar_rows a))" and dr: "distinct (ar_rows a)" using facts(1) by (simp_all add: distinct_map)
  have "ar_rows t = filter (\<lambda>e. e \<notin> set r) (ar_rows a)"
    unfolding rows_t delete_ids_def by (intro filter_cong [OF refl]) (simp add: inj_on_image_mem_iff [OF inj _ sub])
  moreover have "ar_rows a = filter (\<lambda>e. e \<notin> set (concat batches)) all" using core by (simp add: archive_core_def)
  ultimately have rows: "ar_rows t = filter (\<lambda>e. e \<notin> set (concat (batches @ [r]))) all" by (simp add: conj_commute)
  have distinct_r: "distinct r" unfolding r(2) due_rows_def first_rows_def by (intro distinct_take) (simp add: dr)
  have mem: "e \<in> set all \<and> e \<notin> set (concat batches) \<and> ae_created_at e < before" if "e \<in> set r" for e
    using facts(2,3) that unfolding r(2) by blast
  have c: "[] \<notin> set batches" "distinct (concat batches)" "set (concat batches) \<subseteq> {e \<in> set all. ae_created_at e < before}"
    "ar_count a = length (concat batches)" using core by (simp_all add: archive_core_def)
  have "distinct (concat (batches @ [r]))" using c(2) distinct_r mem by (auto simp: distinct_append)
  moreover have "set (concat (batches @ [r])) \<subseteq> {e \<in> set all. ae_created_at e < before}"
    unfolding concat_append set_append using c(3) mem by (simp add: subset_iff)
  ultimately have core': "archive_core before all (batches @ [r]) t"
    unfolding archive_core_def rows fs(2) using c(1,4) r(1) by simp
  have "\<forall>e\<in>set (ar_rows t). \<not> ae_created_at e < before" if short: "length r < batch"
  proof -
    have "length r = length (filter (\<lambda>e. ae_created_at e < before) (ar_rows a))"
      using short unfolding r(2) due_rows_def first_rows_def by (simp add: min_def split: if_splits)
    then have "filter (\<lambda>e. ae_created_at e < before) (ar_rows t) = []" unfolding rows_t using d(2) by simp
    then show ?thesis by (simp add: filter_empty_conv)
  qed
  then have "phase_ok batch before t" unfolding phase_ok_def ph by simp
  with start core' show "archive_inv batch before day line all files (batches @ [r]) t"
    unfolding archive_inv_def fs(1) stored ph by simp
qed

lemma archive_step_inv:
  assumes "archive_inv batch before day line all files batches a"
  shows "\<exists>batches'. archive_inv batch before day line all files batches' (archive_next batch before day line a)"
proof (cases "ar_phase a")
  case Archived
  with assms show ?thesis by (auto simp: archive_next_def)
qed (use scan_step [OF assms _ refl] write_step [OF assms _ refl] delete_step [OF assms _ refl] in blast)+

lemma archive_ends:
  "archive_inv batch before day line all files batches a \<Longrightarrow> ar_phase a = Scanning \<Longrightarrow>
    \<exists>n batches'. archive_inv batch before day line all files batches' ((archive_next batch before day line ^^ n) a)
      \<and> ar_phase ((archive_next batch before day line ^^ n) a) = Archived"
proof (induction "length (ar_rows a)" arbitrary: a batches rule: less_induct)
  case less
  define step where "step = archive_next batch before day line"
  define r where "r = due_rows batch before a"
  note w = scan_step [OF less.prems refl, folded step_def r_def]
  show ?case
  proof (cases "r = []")
    case True
    then have "archive_inv batch before day line all files batches ((step ^^ 1) a) \<and> ar_phase ((step ^^ 1) a) = Archived"
      using w by simp
    then show ?thesis unfolding step_def by blast
  next
    case False
    then have ph: "ar_phase (step a) = Writing r" using w(2) by simp
    note d = write_step [OF w(1) ph refl, folded step_def]
    note n = delete_step [OF d(1,2) refl, folded step_def]
    have three: "(step ^^ (m + 3)) a = (step ^^ m) (step (step (step a)))" for m
      by (simp add: numeral_3_eq_3 funpow_swap1)
    show ?thesis
    proof (cases "length r < batch")
      case True
      then have "archive_inv batch before day line all files (batches @ [r]) ((step ^^ (0 + 3)) a)
          \<and> ar_phase ((step ^^ (0 + 3)) a) = Archived"
        unfolding three using n(1,2) by simp
      then show ?thesis unfolding step_def by blast
    next
      case False
      then have "length (ar_rows (step (step (step a)))) < length (ar_rows a)" "ar_phase (step (step (step a))) = Scanning"
        using n(2,3) d(3) w(3) by simp_all
      from less.hyps [OF this(1) n(1) this(2)] obtain m b where
        "archive_inv batch before day line all files b ((step ^^ m) (step (step (step a))))"
        "ar_phase ((step ^^ m) (step (step (step a)))) = Archived" unfolding step_def by blast
      then have "archive_inv batch before day line all files b ((step ^^ (m + 3)) a) \<and> ar_phase ((step ^^ (m + 3)) a) = Archived"
        unfolding three by blast
      then show ?thesis unfolding step_def by blast
    qed
  qed
qed

definition archive_start :: "'d audit_row list \<Rightarrow> (string \<times> string list) list \<Rightarrow> 'd archive" where
  "archive_start rows files = \<lparr>ar_rows = rows, ar_files = files, ar_phase = Scanning, ar_names = [], ar_count = 0\<rparr>"

lemma archive_start_inv: "archivable batch day rows files \<Longrightarrow>
    archive_inv batch before day line rows files [] (archive_start rows files)"
  by (simp add: archive_inv_def archive_core_def phase_ok_def archive_start_def)

text \<open>C30. Archiving ends, with exactly the entries that are not older left in the table and a line for each
  older one in the archive, as many as it counts. Wherever it is interrupted on the way, every entry is in the
  table or, if it is old enough, in a complete file, and earlier files stay.\<close>

theorem archive_loses_nothing:
  assumes "archivable batch day rows files"
  shows "(\<forall>n. let a = (archive_next batch before day line ^^ n) (archive_start rows files) in
        take (length files) (ar_files a) = files
        \<and> (\<forall>e\<in>set rows. e \<in> set (ar_rows a) \<or> ae_created_at e < before \<and> (\<exists>f\<in>set (ar_files a). line e \<in> set (snd f))))
    \<and> (\<exists>n. let a = (archive_next batch before day line ^^ n) (archive_start rows files) in
        ar_phase a = Archived \<and> ar_rows a = filter (\<lambda>e. \<not> ae_created_at e < before) rows
        \<and> ar_count a = length (filter (\<lambda>e. ae_created_at e < before) rows)
        \<and> length (concat (map snd (drop (length files) (ar_files a)))) = ar_count a)"
proof -
  let ?step = "archive_next batch before day line" and ?a = "archive_start rows files"
  note start = archive_start_inv [OF assms, of before line]
  have kept: "take (length files) (ar_files a) = files
      \<and> (\<forall>e\<in>set rows. e \<in> set (ar_rows a) \<or> ae_created_at e < before \<and> (\<exists>f\<in>set (ar_files a). line e \<in> set (snd f)))"
    if inv: "archive_inv batch before day line rows files batches a" for batches a
  proof -
    have core: "ar_rows a = filter (\<lambda>e. e \<notin> set (concat batches)) rows"
      "set (concat batches) \<subseteq> {e \<in> set rows. ae_created_at e < before}"
      and fs: "ar_files a = files @ map (archived_file day line) (batches @ pending (ar_phase a))"
      using inv by (simp_all add: archive_inv_def archive_core_def)
    have "\<exists>f\<in>set (ar_files a). line e \<in> set (snd f)" if "e \<in> set (concat batches)" for e
      using that unfolding fs by (auto simp: archived_file_def intro!: bexI [of _ "archived_file day line _"])
    with core fs show ?thesis by auto
  qed
  have "\<exists>batches. archive_inv batch before day line rows files batches ((?step ^^ n) ?a)" for n
    by (induction n) (use start archive_step_inv in auto)
  with kept have every: "let a = (?step ^^ n) ?a in take (length files) (ar_files a) = files
      \<and> (\<forall>e\<in>set rows. e \<in> set (ar_rows a) \<or> ae_created_at e < before \<and> (\<exists>f\<in>set (ar_files a). line e \<in> set (snd f)))" for n
    unfolding Let_def by blast
  from archive_ends [OF start] obtain n batches where
    inv: "archive_inv batch before day line rows files batches ((?step ^^ n) ?a)" and phase: "ar_phase ((?step ^^ n) ?a) = Archived"
    by (auto simp: archive_start_def)
  let ?e = "(?step ^^ n) ?a"
  have core: "archive_core before rows batches ?e" and old: "\<forall>e\<in>set (ar_rows ?e). \<not> ae_created_at e < before"
    and fs: "ar_files ?e = files @ map (archived_file day line) batches"
    using inv phase unfolding archive_inv_def phase_ok_def by simp_all
  have done_rows: "e \<in> set (concat batches) \<longleftrightarrow> ae_created_at e < before" if "e \<in> set rows" for e
    using core old that unfolding archive_core_def by auto
  have "ar_rows ?e = filter (\<lambda>e. e \<notin> set (concat batches)) rows" using core by (simp add: archive_core_def)
  also have "\<dots> = filter (\<lambda>e. \<not> ae_created_at e < before) rows" by (rule filter_cong [OF refl]) (simp only: done_rows)
  finally have left: "ar_rows ?e = filter (\<lambda>e. \<not> ae_created_at e < before) rows" .
  have "distinct rows" using assms by (simp add: archivable_def distinct_map)
  moreover have "set (concat batches) = set (filter (\<lambda>e. ae_created_at e < before) rows)"
    using core done_rows unfolding archive_core_def by auto
  moreover have "distinct (concat batches)" using core by (simp add: archive_core_def)
  ultimately have "length (concat batches) = length (filter (\<lambda>e. ae_created_at e < before) rows)"
    by (metis distinct_card distinct_filter)
  then have count: "ar_count ?e = length (filter (\<lambda>e. ae_created_at e < before) rows)" using core by (simp add: archive_core_def)
  have "length (concat (map snd (map (archived_file day line) batches))) = length (concat batches)"
    by (simp add: archived_file_def length_concat comp_def)
  then have "length (concat (map snd (drop (length files) (ar_files ?e)))) = ar_count ?e"
    using core by (simp add: fs archive_core_def)
  with every phase left count show ?thesis unfolding Let_def by blast
qed

section \<open>Witnesses\<close>

definition sample_entry :: "nat \<Rightarrow> int \<Rightarrow> nat audit_row" where
  "sample_entry k t = \<lparr>ae_id = k, ae_actor = None, ae_action = ''auth.login'', ae_target_type = None, ae_target_id = None,
     ae_details = None, ae_ip = None, ae_created_at = t\<rparr>"

definition sample_rows_logged :: "nat audit_row list" where
  "sample_rows_logged = [sample_entry 1 3, sample_entry 2 9, sample_entry 3 4]"

definition everything :: export_filter where
  "everything = \<lparr>xf_action = None, xf_actor = None, xf_from = None, xf_to = None\<rparr>"

lemmas sample_log_defs = sample_entry_def sample_rows_logged_def everything_def

theorem export_complete_witness:
  "sample_entry 3 4 \<in> set (fst (export_stream 2 everything 0 [sample_rows_logged, sample_rows_logged]))"
proof -
  let ?tables = "[sample_rows_logged, sample_rows_logged]"
  have "\<forall>table\<in>set ?tables. distinct (map ae_id table)" by (simp add: sample_log_defs)
  moreover have "snd (export_stream 2 everything 0 ?tables)" by code_simp
  then obtain rows where rows: "export_stream 2 everything 0 ?tables = (rows, True)" by (metis prod.collapse)
  moreover have "selects everything (sample_entry 3 4)" "0 < ae_id (sample_entry 3 4)"
    "\<forall>table\<in>set ?tables. sample_entry 3 4 \<in> set table"
    by (simp_all add: selects_def picks_def picks_id_def sample_log_defs)
  ultimately have "sample_entry 3 4 \<in> set rows" using export_complete [of ?tables 2 everything 0 rows True] by blast
  with rows show ?thesis by simp
qed

theorem archive_loses_nothing_witness:
  "\<exists>n. ar_rows ((archive_next 2 5 (\<lambda>_. ''2026-01-01'') (\<lambda>_. ''{}'') ^^ n) (archive_start sample_rows_logged [])) = [sample_entry 2 9]"
proof -
  have "archivable 2 (\<lambda>_. ''2026-01-01'') sample_rows_logged []" by (simp add: archivable_def sample_log_defs)
  from archive_loses_nothing [OF this, of 5 "\<lambda>_. ''{}''"] obtain n where
    "ar_rows ((archive_next 2 5 (\<lambda>_. ''2026-01-01'') (\<lambda>_. ''{}'') ^^ n) (archive_start sample_rows_logged []))
      = filter (\<lambda>e. \<not> ae_created_at e < 5) sample_rows_logged"
    unfolding Let_def by blast
  then show ?thesis by (intro exI [of _ n]) (simp add: sample_log_defs)
qed

end
