(* ===== verification/Reachability.thy ===== *)
theory Reachability
  imports Panel Rate_Limit
begin

text \<open>
  Reachability checks (server/src/modules/reachability/service.ts and net.ts, and \<open>reachabilityDto\<close> of
  server/src/modules/instances/service.ts): can players and SFTP clients reach an instance from
  outside? A check reads the instance, tries its ports and stores the result; other handlers run
  between the two, so it is two steps on the panel. What connecting from outside gives is the argument
  \<open>out\<close>, what the agent answers to \<open>net.probe\<close> the argument \<open>agent\<close>, a node's public address the argument
  \<open>address\<close> (\<open>public_address_of\<close> of Nodes).
\<close>

section \<open>Connecting the way a player would\<close>

definition connect_timeout_ms :: int where "connect_timeout_ms = 5000"

datatype net_error = Timed_Out | Refused | Failed string

text \<open>An open connection: the error a write gives, and when and with what its first read ends.\<close>

record open_conn =
  cn_write :: "string \<Rightarrow> string option"
  cn_read :: "(int \<times> string) option"

text \<open>The network seen from the server: when a connect settles and how, if it ever does, and the error
  of the n-th datagram to a host, over IPv6 or not.\<close>

record outside =
  out_connect :: "string \<Rightarrow> int \<Rightarrow> (int \<times> (net_error + open_conn)) option"
  out_udp :: "bool \<Rightarrow> string \<Rightarrow> int \<Rightarrow> string \<Rightarrow> nat \<Rightarrow> string option"

record outcome =
  oc_status :: reachability_status
  oc_detail :: "string option"
  oc_line :: "string option"

definition outcome_of :: "reachability_status \<Rightarrow> string option \<Rightarrow> outcome" where
  "outcome_of s d = \<lparr>oc_status = s, oc_detail = d, oc_line = None\<rparr>"

text \<open>The race of a promise against the deadline.\<close>

definition race :: "int \<Rightarrow> (int \<times> (net_error + 'a)) option \<Rightarrow> net_error + 'a" where
  "race ms x = (case x of Some (t, r) \<Rightarrow> if t < ms then r else Inl Timed_Out | None \<Rightarrow> Inl Timed_Out)"

definition mentions :: "string list \<Rightarrow> string \<Rightarrow> bool" where
  "mentions ws m \<longleftrightarrow> (\<exists>w\<in>set ws. sublist w (js_lower m))"

fun classify :: "net_error \<Rightarrow> outcome" where
  "classify Timed_Out = outcome_of Reach_Timeout (Some (''No answer within ''
     @ string_of_int (connect_timeout_ms div 1000)
     @ '' s; a firewall may drop it, or the port is not forwarded''))"
| "classify Refused = outcome_of Reach_Closed
     (Some ''Connection refused: nothing answers on this port, or a firewall rejects it'')"
| "classify (Failed m) =
     (if mentions [''lookup'', ''resolve'', ''name or service'', ''nodename''] m
      then outcome_of Reach_Error (Some (''The address does not resolve: '' @ m))
      else if mentions [''unreachable''] m
      then outcome_of Reach_Error (Some (''No route to the node: '' @ m))
      else outcome_of Reach_Error (Some m))"

text \<open>\<open>text.split(/\r?\n/)[0]\<close>.\<close>

definition first_line :: "string \<Rightarrow> string" where
  "first_line s = (let l = takeWhile (\<lambda>c. c \<noteq> CHR 0x0A) s in
     if length l < length s \<and> l \<noteq> [] \<and> last l = CHR 0x0D then butlast l else l)"

text \<open>What one read into 256 bytes gives; nothing when it fails or comes too late.\<close>

definition greeting :: "open_conn \<Rightarrow> string" where
  "greeting c = (case cn_read c of
     Some (t, s) \<Rightarrow> if t < connect_timeout_ms then take 256 s else [] | None \<Rightarrow> [])"

text \<open>No caller gives another timeout than the default.\<close>

definition tcp_check :: "outside \<Rightarrow> string \<Rightarrow> int \<Rightarrow> string option \<Rightarrow> bool \<Rightarrow> outcome" where
  "tcp_check out host port payload read_line =
     (case race connect_timeout_ms (out_connect out host port) of
        Inl e \<Rightarrow> classify e
      | Inr c \<Rightarrow> (case Option.bind (truthy payload) (cn_write c) of
          Some m \<Rightarrow> outcome_of Reach_Error (Some m)
        | None \<Rightarrow> if read_line
            then \<lparr>oc_status = Reach_Open, oc_detail = None, oc_line = Some (first_line (greeting c))\<rparr>
            else outcome_of Reach_Open None))"

text \<open>Three datagrams, up to the first error.\<close>

definition udp_send :: "outside \<Rightarrow> string \<Rightarrow> int \<Rightarrow> string \<Rightarrow> string option" where
  "udp_send out host port payload = Option.bind
     (find (\<lambda>r. r \<noteq> None) (map (out_udp out (CHR '':'' \<in> set host) host port payload) [0..<3])) id"

section \<open>What is tested\<close>

record target =
  tg_name :: string
  tg_label :: string
  tg_port :: int
  tg_protocol :: port_protocol

definition transports :: "port_protocol \<Rightarrow> port_protocol list" where
  "transports pr = (if pr = Both then [Tcp, Udp] else [pr])"

definition targets_of :: "instance_port list \<Rightarrow> target list" where
  "targets_of ps = concat (map (\<lambda>q. map (\<lambda>pr.
     \<lparr>tg_name = al_name q, tg_label = al_label q, tg_port = al_port q, tg_protocol = pr\<rparr>)
     (transports (al_protocol q))) ps)"

definition port_key :: "string \<Rightarrow> int \<Rightarrow> port_protocol \<Rightarrow> string" where
  "port_key n port pr = n @ ''/'' @ string_of_int port @ ''/'' @ protocol_name pr"

definition key_of :: "target \<Rightarrow> string" where
  "key_of t = port_key (tg_name t) (tg_port t) (tg_protocol t)"

definition result_key :: "port_reachability \<Rightarrow> string" where
  "result_key r = port_key (pr_name r) (pr_port r) (pr_protocol r)"

definition verdict :: "target \<Rightarrow> reachability_status \<Rightarrow> string option \<Rightarrow> reach_method option \<Rightarrow> int \<Rightarrow>
    port_reachability" where
  "verdict t s d m now = \<lparr>pr_name = tg_name t, pr_label = tg_label t, pr_port = tg_port t,
     pr_protocol = tg_protocol t, pr_status = s, pr_detail = (if s = Reach_Open then None else d),
     pr_method = m, pr_checked_at = now\<rparr>"

section \<open>A check, up to the tests\<close>

record port_check =
  ck_node :: nat
  ck_connected :: bool
  ck_bind :: string
  ck_status :: instance_status
  ck_host :: string
  ck_at :: int
  ck_targets :: "target list"
  ck_previous :: "port_reachability list"

definition check_read :: "(node_row \<Rightarrow> string) \<Rightarrow> int \<Rightarrow> nat \<Rightarrow> panel \<Rightarrow> port_check result" where
  "check_read address now iid p = then_do (get_instance p iid) (\<lambda>i.
     case find_node (p_store p) (i_node_id i) of
       None \<Rightarrow> Inl internal_error
     | Some node \<Rightarrow> Inr \<lparr>ck_node = n_id node, ck_connected = is_connected p (n_id node),
         ck_bind = n_bind_address node, ck_status = i_status i, ck_host = address node, ck_at = now,
         ck_targets = targets_of (ports_of (p_store p) iid),
         ck_previous = (case i_reachability i of None \<Rightarrow> [] | Some r \<Rightarrow> ir_ports r)\<rparr>)"

text \<open>What cannot be tested right now keeps its last result, if there is one.\<close>

definition keep :: "port_check \<Rightarrow> target \<Rightarrow> string \<Rightarrow> port_reachability" where
  "keep c t reason = (case index_by result_key (ck_previous c) (key_of t) of
     Some r \<Rightarrow> r | None \<Rightarrow> verdict t Reach_Untested (Some reason) None (ck_at c))"

section \<open>Probing a stopped instance\<close>

record listener =
  ln_port :: int
  ln_protocol :: port_protocol
  ln_bound :: bool
  ln_error :: "string option"
  ln_received :: bool

record probe_request =
  pq_bind :: string
  pq_token :: string
  pq_timeout_ms :: int
  pq_listeners :: "(int \<times> port_protocol) list"

text \<open>The stream's chunk, if it came, and the answer.\<close>

type_synonym probe_answer = "listener list option \<times> listener list result"

definition probe_prefix :: string where "probe_prefix = ''GSM-PROBE ''"
definition probe_timeout_ms :: int where "probe_timeout_ms = 6000"

definition probe_request :: "string \<Rightarrow> port_check \<Rightarrow> probe_request" where
  "probe_request token c = \<lparr>pq_bind = ck_bind c, pq_token = token, pq_timeout_ms = probe_timeout_ms,
     pq_listeners = map (\<lambda>t. (tg_port t, tg_protocol t)) (ck_targets c)\<rparr>"

text \<open>\<open>sent\<close>: what sending the token to a bound listener gave; a datagram that went out leaves no
  entry.\<close>

definition send_token :: "outside \<Rightarrow> string \<Rightarrow> string \<Rightarrow> listener \<Rightarrow> (int \<times> port_protocol \<rightharpoonup> outcome) \<Rightarrow>
    (int \<times> port_protocol \<rightharpoonup> outcome)" where
  "send_token out host payload l sent =
     (if ln_protocol l = Tcp
      then sent((ln_port l, Tcp) \<mapsto> tcp_check out host (ln_port l) (Some (payload @ [CHR 0x0A])) False)
      else (case udp_send out host (ln_port l) payload of
          None \<Rightarrow> sent
        | Some m \<Rightarrow> sent((ln_port l, Udp) \<mapsto> outcome_of Reach_Error (Some m))))"

definition sent_outcomes :: "outside \<Rightarrow> string \<Rightarrow> string \<Rightarrow> listener list option \<Rightarrow>
    (int \<times> port_protocol \<rightharpoonup> outcome)" where
  "sent_outcomes out host payload ready = (case ready of
     None \<Rightarrow> Map.empty
   | Some ls \<Rightarrow> fold (send_token out host payload) (filter ln_bound ls) Map.empty)"

definition probe_verdict :: "listener list \<Rightarrow> (int \<times> port_protocol \<rightharpoonup> outcome) \<Rightarrow> int \<Rightarrow> target \<Rightarrow>
    port_reachability" where
  "probe_verdict ls sent now t =
     (let judged = (\<lambda>s d. verdict t s d (Some Probe_Method) now) in
      case find (\<lambda>l. ln_port l = tg_port t \<and> ln_protocol l = tg_protocol t) ls of
        None \<Rightarrow> judged Reach_Error (Some ''The node did not test it'')
      | Some l \<Rightarrow>
          if ln_received l then judged Reach_Open None
          else if \<not> ln_bound l then judged Reach_Error (Some (''Another program has this port on the node (''
            @ (case ln_error l of Some e \<Rightarrow> e | None \<Rightarrow> ''in use'') @ '')''))
          else (case sent (tg_port t, tg_protocol t) of
              Some s \<Rightarrow> if oc_status s \<noteq> Reach_Open then judged (oc_status s) (oc_detail s)
                else if tg_protocol t = Tcp then judged Reach_Error
                  (Some ''Something answered, but not this node; is the port forwarded elsewhere?'')
                else judged Reach_Timeout (Some ''No packet arrived; UDP may be blocked or not forwarded'')
            | None \<Rightarrow> if tg_protocol t = Tcp then judged Reach_Error
                  (Some ''Something answered, but not this node; is the port forwarded elsewhere?'')
                else judged Reach_Timeout (Some ''No packet arrived; UDP may be blocked or not forwarded'')))"

definition probe :: "outside \<Rightarrow> (nat \<Rightarrow> probe_request \<Rightarrow> probe_answer) \<Rightarrow> string \<Rightarrow> port_check \<Rightarrow>
    port_reachability list" where
  "probe out agent token c = (if ck_targets c = [] then [] else
     let (ready, answer) = agent (ck_node c) (probe_request token c) in
     case answer of
       Inl e \<Rightarrow> if code e = ''agent_unknown_method''
         then map (\<lambda>t. keep c t ''Update the agent on this node to test stopped servers'') (ck_targets c)
         else map (\<lambda>t. verdict t Reach_Error (Some (''The node could not test it: '' @ message e))
           (Some Probe_Method) (ck_at c)) (ck_targets c)
     | Inr ls \<Rightarrow> map (probe_verdict ls (sent_outcomes out (ck_host c) (probe_prefix @ token) ready) (ck_at c))
         (ck_targets c))"

section \<open>The check of an instance\<close>

definition connect_verdict :: "outside \<Rightarrow> port_check \<Rightarrow> target \<Rightarrow> port_reachability" where
  "connect_verdict out c t = (if tg_protocol t = Tcp
     then (let r = tcp_check out (ck_host c) (tg_port t) None False in
       verdict t (oc_status r) (oc_detail r) (Some Connect_Method) (ck_at c))
     else keep c t ''UDP ports are tested while the server is stopped'')"

definition check_ports :: "outside \<Rightarrow> (nat \<Rightarrow> probe_request \<Rightarrow> probe_answer) \<Rightarrow> string \<Rightarrow> port_check \<Rightarrow>
    port_reachability list" where
  "check_ports out agent token c =
     (if \<not> ck_connected c then map (\<lambda>t. keep c t ''The node is offline'') (ck_targets c)
      else if ck_status c = Running then map (connect_verdict out c) (ck_targets c)
      else if ck_status c \<in> {Starting, Stopping, Installing}
      then map (\<lambda>t. keep c t ''Tested once the server is running or stopped'') (ck_targets c)
      else probe out agent token c)"

definition check_end :: "nat \<Rightarrow> port_check \<Rightarrow> port_reachability list \<Rightarrow> panel \<Rightarrow> panel" where
  "check_end iid c rs p = tell [Broadcast_Updated iid] (change_instances (map (\<lambda>i.
     if i_id i = iid then i\<lparr>i_reachability :=
       Some \<lparr>ir_host = ck_host c, ir_checked_at = ck_at c, ir_ports = rs\<rparr>\<rparr> else i)) p)"

text \<open>\<open>reachabilityDto\<close>: the stored check, limited to the ports the instance has now.\<close>

definition reachability_dto :: "panel \<Rightarrow> instance_row \<Rightarrow> instance_reachability option" where
  "reachability_dto p i = (case i_reachability i of
     None \<Rightarrow> None
   | Some r \<Rightarrow> (let current = set (map key_of (targets_of (ports_of (p_store p) (i_id i))));
                  rs = filter (\<lambda>q. result_key q \<in> current) (ir_ports r)
       in if rs \<noteq> [] then Some (r\<lparr>ir_ports := rs\<rparr>) else None))"

section \<open>One check at a time\<close>

text \<open>\<open>inflight\<close>, with the panel: a check that was called, and one that has read its instance.\<close>

datatype check_stage = Called | Reading port_check

record checker =
  ch_panel :: panel
  ch_inflight :: "nat \<rightharpoonup> check_stage"

definition check_call :: "nat \<Rightarrow> checker \<Rightarrow> checker" where
  "check_call iid s = (case ch_inflight s iid of
     Some running \<Rightarrow> s
   | None \<Rightarrow> s\<lparr>ch_inflight := (ch_inflight s)(iid \<mapsto> Called)\<rparr>)"

definition check_started :: "(node_row \<Rightarrow> string) \<Rightarrow> int \<Rightarrow> nat \<Rightarrow> checker \<Rightarrow> checker" where
  "check_started address now iid s = (case ch_inflight s iid of
     Some Called \<Rightarrow> (case check_read address now iid (ch_panel s) of
         Inr c \<Rightarrow> s\<lparr>ch_inflight := (ch_inflight s)(iid \<mapsto> Reading c)\<rparr>
       | Inl e \<Rightarrow> s\<lparr>ch_inflight := (ch_inflight s)(iid := None)\<rparr>)
   | _ \<Rightarrow> s)"

definition check_finished :: "outside \<Rightarrow> (nat \<Rightarrow> probe_request \<Rightarrow> probe_answer) \<Rightarrow> string \<Rightarrow> nat \<Rightarrow> checker \<Rightarrow>
    checker" where
  "check_finished out agent token iid s = (case ch_inflight s iid of
     Some (Reading c) \<Rightarrow> s\<lparr>ch_panel := check_end iid c (check_ports out agent token c) (ch_panel s),
         ch_inflight := (ch_inflight s)(iid := None)\<rparr>
   | _ \<Rightarrow> s)"

section \<open>SFTP, manual and automatic checks\<close>

record sftp_reachability =
  sr_host :: string
  sr_port :: int
  sr_status :: reachability_status
  sr_detail :: "string option"
  sr_checked_at :: int

definition sftp_verdict :: "outcome \<Rightarrow> reachability_status \<times> string option" where
  "sftp_verdict r =
     (if oc_status r \<noteq> Reach_Open then (oc_status r, oc_detail r)
      else let line = (case oc_line r of Some l \<Rightarrow> l | None \<Rightarrow> []) in
        if prefix ''SSH-2.0-GSM'' line then (Reach_Open, None)
        else if prefix ''SSH-'' line
        then (Reach_Error, Some (''Another SSH server answers on this port ('' @ take 80 line @ '')''))
        else (Reach_Error, Some ''Something other than the node's SFTP server answers on this port''))"

definition check_node_sftp :: "(node_row \<Rightarrow> string) \<Rightarrow> outside \<Rightarrow> int \<Rightarrow> nat \<Rightarrow> panel \<Rightarrow>
    sftp_reachability option" where
  "check_node_sftp address out now nid p = (case find_node (p_store p) nid of
     None \<Rightarrow> None
   | Some node \<Rightarrow> (case n_sftp_port node of
       None \<Rightarrow> None
     | Some port \<Rightarrow> (let v = (if \<not> is_connected p nid then (Reach_Untested, Some ''The node is offline'')
             else sftp_verdict (tcp_check out (address node) port None True)) in
         Some \<lparr>sr_host = address node, sr_port = port, sr_status = fst v, sr_detail = snd v,
           sr_checked_at = now\<rparr>)))"

definition assert_manual_allowed :: "limiter \<Rightarrow> int \<Rightarrow> string \<Rightarrow> limiter \<times> unit result" where
  "assert_manual_allowed l now k = (case check 60000 6 l now k of (l', ok, wait) \<Rightarrow>
     (l', guard ok (too_many_requests (''Checked a moment ago; try again in ''
       @ string_of_int wait @ '' s''))))"

datatype reach_event = Ev_Running nat | Ev_Ports_Changed nat | Ev_Firewall nat | Ev_Sftp nat bool
datatype auto_check = Check_Ports nat | Check_Ports_And_Sftp nat | Check_Sftp nat

text \<open>The check an event schedules, and after how many milliseconds.\<close>

fun automatic :: "reach_event \<Rightarrow> (auto_check \<times> int) option" where
  "automatic (Ev_Running iid) = Some (Check_Ports iid, 2000)"
| "automatic (Ev_Ports_Changed iid) = Some (Check_Ports iid, 0)"
| "automatic (Ev_Firewall iid) = Some (Check_Ports_And_Sftp iid, 1000)"
| "automatic (Ev_Sftp nid listening) = (if listening then Some (Check_Sftp nid, 1000) else None)"

section \<open>Keys\<close>

lemma digits_no_slash: "CHR ''/'' \<notin> set (string_of_int n)"
proof -
  have "\<not> is_digit (CHR ''/'')" by (simp add: is_digit_def)
  then have "CHR ''/'' \<notin> set (digits_of m)" for m using digits_of_digits by blast
  then show ?thesis by (simp add: string_of_int_def)
qed

lemma protocol_name_inject: "protocol_name a = protocol_name b \<longleftrightarrow> a = b"
  by (cases a; cases b) simp_all

lemma split_at_last: "c \<notin> set a \<Longrightarrow> c \<notin> set b \<Longrightarrow> x @ c # a = y @ c # b \<longleftrightarrow> x = y \<and> a = b"
proof
  assume "c \<notin> set a" "c \<notin> set b" and eq: "x @ c # a = y @ c # b"
  have "takeWhile (\<lambda>d. d \<noteq> c) (rev (x @ c # a)) = rev a" "takeWhile (\<lambda>d. d \<noteq> c) (rev (y @ c # b)) = rev b"
    using \<open>c \<notin> set a\<close> \<open>c \<notin> set b\<close> by (auto simp: takeWhile_append)
  then have "a = b" using eq by (metis rev_rev_ident)
  then show "x = y \<and> a = b" using eq by simp
qed simp

text \<open>A name may hold slashes; port and protocol never do, so keys are still unambiguous.\<close>

lemma port_key_inject: "port_key n p a = port_key m q b \<longleftrightarrow> n = m \<and> p = q \<and> a = b"
proof -
  have "CHR ''/'' \<notin> set (protocol_name x)" for x by (cases x) simp_all
  then show ?thesis
    using split_at_last [of "CHR ''/''" "protocol_name a" "protocol_name b" "n @ ''/'' @ string_of_int p" "m @ ''/'' @ string_of_int q"]
      split_at_last [of "CHR ''/''" "string_of_int p" "string_of_int q" n m]
    by (simp add: port_key_def protocol_name_inject digits_no_slash)
qed

section \<open>Every target gets a verdict\<close>

lemma verdict_key [simp]: "result_key (verdict t s d m now) = key_of t"
  by (simp add: result_key_def key_of_def verdict_def)

lemma keep_key [simp]: "result_key (keep c t w) = key_of t"
  by (auto simp: keep_def split: option.split dest: index_by_Some)

lemma connect_verdict_key [simp]: "result_key (connect_verdict out c t) = key_of t"
  by (simp add: connect_verdict_def Let_def)

lemma probe_verdict_key [simp]: "result_key (probe_verdict ls sent now t) = key_of t"
  by (auto simp: probe_verdict_def Let_def split: option.split)

lemma probe_keys: "map result_key (probe out agent token c) = map key_of (ck_targets c)"
  by (auto simp: probe_def Let_def split: prod.split sum.split)

lemma check_ports_keys: "map result_key (check_ports out agent token c) = map key_of (ck_targets c)"
  by (auto simp: check_ports_def probe_keys)

section \<open>What an open port means\<close>

definition answers :: "outside \<Rightarrow> string \<Rightarrow> int \<Rightarrow> bool" where
  "answers out host port \<longleftrightarrow> (case out_connect out host port of
     Some (t, Inr c) \<Rightarrow> t < connect_timeout_ms | _ \<Rightarrow> False)"

definition received_token :: "probe_answer \<Rightarrow> int \<Rightarrow> port_protocol \<Rightarrow> bool" where
  "received_token a port pr \<longleftrightarrow> (case snd a of Inl e \<Rightarrow> False
     | Inr ls \<Rightarrow> \<exists>l\<in>set ls. ln_port l = port \<and> ln_protocol l = pr \<and> ln_received l)"

lemma classify_not_open [simp]: "oc_status (classify e) \<noteq> Reach_Open" "Reach_Open \<noteq> oc_status (classify e)"
  by (cases e; simp add: outcome_of_def)+

lemma tcp_check_open: "oc_status (tcp_check out host port None False) = Reach_Open \<longleftrightarrow> answers out host port"
  by (auto simp: tcp_check_def race_def answers_def outcome_of_def split: option.splits prod.splits sum.splits if_splits)

lemma keep_open: "pr_status (keep c t w) = Reach_Open \<Longrightarrow>
    keep c t w \<in> set (ck_previous c) \<and> result_key (keep c t w) = key_of t"
  by (auto simp: keep_def verdict_def split: option.splits dest: index_by_Some)

lemma probe_verdict_open:
  assumes "pr_status (probe_verdict ls sent now t) = Reach_Open"
  shows "received_token (r, Inr ls) (tg_port t) (tg_protocol t)"
proof (cases "find (\<lambda>l. ln_port l = tg_port t \<and> ln_protocol l = tg_protocol t) ls")
  case None
  with assms show ?thesis by (simp add: probe_verdict_def verdict_def)
next
  case (Some l)
  then have "ln_received l"
    using assms by (auto simp: probe_verdict_def verdict_def split: if_splits option.splits)
  with Some show ?thesis by (auto simp: received_token_def find_Some_iff)
qed

lemma probe_open:
  assumes "r \<in> set (probe out agent token c)" and "pr_status r = Reach_Open"
  shows "r \<in> set (ck_previous c) \<or> received_token (agent (ck_node c) (probe_request token c)) (pr_port r) (pr_protocol r)
      \<and> pr_checked_at r = ck_at c"
proof -
  obtain ready answer where a: "agent (ck_node c) (probe_request token c) = (ready, answer)" by fastforce
  show ?thesis
  proof (cases answer)
    case (Inl e)
    with assms a show ?thesis
      by (auto simp: probe_def verdict_def dest: keep_open split: if_splits)
  next
    case (Inr ls)
    with assms a obtain t where t: "r = probe_verdict ls
        (sent_outcomes out (ck_host c) (probe_prefix @ token) ready) (ck_at c) t"
      by (auto simp: probe_def split: if_splits)
    then have "result_key r = key_of t" by simp
    moreover have "pr_checked_at r = ck_at c" unfolding t
      by (simp add: probe_verdict_def verdict_def Let_def split: option.split)
    ultimately show ?thesis
      using probe_verdict_open [of ls _ "ck_at c" t ready] assms(2) t a Inr
      by (auto simp: result_key_def key_of_def port_key_inject)
  qed
qed

lemma connect_open:
  assumes "pr_status (connect_verdict out c t) = Reach_Open"
  shows "connect_verdict out c t \<in> set (ck_previous c) \<or> answers out (ck_host c) (tg_port t) \<and> tg_protocol t = Tcp
      \<and> pr_port (connect_verdict out c t) = tg_port t \<and> pr_protocol (connect_verdict out c t) = Tcp
      \<and> pr_checked_at (connect_verdict out c t) = ck_at c"
proof (cases "tg_protocol t = Tcp")
  case True
  then show ?thesis using assms by (simp add: connect_verdict_def verdict_def Let_def tcp_check_open)
next
  case False
  then show ?thesis using assms keep_open by (simp add: connect_verdict_def)
qed

text \<open>C20. A port is reported open only if it was reached: the result has exactly the instance's ports,
  each transport once per port and in order; an open one is the result of an earlier check of the same
  name, port and protocol, kept because it cannot be tested now, or, with the node online, a TCP port of
  the running server that accepted a connection within five seconds, or a port of a stopped server at
  which the agent received the token of this check. UDP is never reported open of a running server
  unless an earlier check did.\<close>

theorem reported_open_was_reached:
  "map result_key (check_ports out agent token c) = map key_of (ck_targets c) \<and>
   (\<forall>r\<in>set (check_ports out agent token c). pr_status r = Reach_Open \<longrightarrow>
     r \<in> set (ck_previous c)
     \<or> ck_connected c \<and> pr_checked_at r = ck_at c \<and>
       (if ck_status c = Running then pr_protocol r = Tcp \<and> answers out (ck_host c) (pr_port r)
        else ck_status c \<notin> {Starting, Stopping, Installing} \<and>
          received_token (agent (ck_node c) (probe_request token c)) (pr_port r) (pr_protocol r)))"
proof (intro conjI ballI impI)
  fix r assume r: "r \<in> set (check_ports out agent token c)" and "pr_status r = Reach_Open"
  note opened = keep_open connect_open probe_open
  show "r \<in> set (ck_previous c) \<or> ck_connected c \<and> pr_checked_at r = ck_at c \<and>
       (if ck_status c = Running then pr_protocol r = Tcp \<and> answers out (ck_host c) (pr_port r)
        else ck_status c \<notin> {Starting, Stopping, Installing} \<and>
          received_token (agent (ck_node c) (probe_request token c)) (pr_port r) (pr_protocol r))"
  proof (cases "ck_connected c")
    case False
    with r \<open>pr_status r = Reach_Open\<close> show ?thesis by (auto simp: check_ports_def dest: keep_open)
  next
    case True
    consider "ck_status c = Running" | "ck_status c \<in> {Starting, Stopping, Installing}"
      | "ck_status c \<noteq> Running" "ck_status c \<notin> {Starting, Stopping, Installing}" by blast
    then show ?thesis
    proof cases
      case 1
      with r True obtain t where t: "r = connect_verdict out c t" by (auto simp: check_ports_def)
      from connect_open [of out c t] \<open>pr_status r = Reach_Open\<close> show ?thesis
        unfolding t using True 1 by auto
    next
      case 2
      with r \<open>pr_status r = Reach_Open\<close> True show ?thesis
        by (auto simp: check_ports_def dest: keep_open)
    next
      case 3
      with r True have "r \<in> set (probe out agent token c)" by (simp add: check_ports_def)
      from probe_open [OF this \<open>pr_status r = Reach_Open\<close>] True 3 show ?thesis by auto
    qed
  qed
qed (rule check_ports_keys)

definition answering :: outside where
  "answering = \<lparr>out_connect = (\<lambda>h q. Some (10, Inr \<lparr>cn_write = (\<lambda>m. None), cn_read = None\<rparr>)),
     out_udp = (\<lambda>v6 h q m n. None)\<rparr>"

definition sample_check :: port_check where
  "sample_check = \<lparr>ck_node = 1, ck_connected = True, ck_bind = ''0.0.0.0'', ck_status = Running,
     ck_host = ''h'', ck_at = 7,
     ck_targets = [\<lparr>tg_name = ''game'', tg_label = ''Game'', tg_port = 30000, tg_protocol = Tcp\<rparr>],
     ck_previous = []\<rparr>"

theorem reported_open_was_reached_witness:
  "\<exists>r\<in>set (check_ports answering (\<lambda>n q. (None, Inr [])) ''t'' sample_check).
     pr_status r = Reach_Open \<and> pr_checked_at r = 7 \<and> answers answering ''h'' (pr_port r)"
proof -
  let ?r = "connect_verdict answering sample_check (hd (ck_targets sample_check))"
  have r: "?r \<in> set (check_ports answering (\<lambda>n q. (None, Inr [])) ''t'' sample_check)"
    by (simp add: check_ports_def sample_check_def)
  have opened: "pr_status ?r = Reach_Open"
    by (simp add: connect_verdict_def sample_check_def verdict_def tcp_check_def race_def answering_def
        connect_timeout_ms_def outcome_of_def)
  show ?thesis
    using reported_open_was_reached [of answering "\<lambda>n q. (None, Inr [])" "''t''" sample_check,
        THEN conjunct2, rule_format, OF r opened] r opened
    by (auto simp: sample_check_def)
qed

section \<open>Checks and the ports an instance has\<close>

definition port_keys :: "panel \<Rightarrow> nat \<Rightarrow> string list" where
  "port_keys p iid = map key_of (targets_of (ports_of (p_store p) iid))"

definition shown_keys :: "panel \<Rightarrow> nat \<Rightarrow> string list" where
  "shown_keys p iid = (case find_instance (p_store p) iid of
     None \<Rightarrow> []
   | Some i \<Rightarrow> (case reachability_dto p i of None \<Rightarrow> [] | Some r \<Rightarrow> map result_key (ir_ports r)))"

lemma find_map_same_id:
  "(\<And>i. i_id (f i) = i_id i) \<Longrightarrow> find (\<lambda>i. i_id i = iid) (map f xs) = map_option f (find (\<lambda>i. i_id i = iid) xs)"
  by (induction xs) auto

lemma check_end_store [simp]:
  "ports_of (p_store (check_end iid c rs p)) n = ports_of (p_store p) n"
  by (simp add: check_end_def change_instances_def tell_def ports_of_def)

lemma check_end_row:
  assumes "find_instance (p_store p) iid = Some i"
  shows "find_instance (p_store (check_end iid c rs p)) iid =
    Some (i\<lparr>i_reachability := Some \<lparr>ir_host = ck_host c, ir_checked_at = ck_at c, ir_ports = rs\<rparr>\<rparr>)"
proof -
  have "i_id i = iid" using assms by (auto simp: find_instance_def find_Some_iff)
  with assms show ?thesis
    by (simp add: check_end_def change_instances_def tell_def find_instance_def find_map_same_id)
qed

lemma filter_result_keys: "map result_key (filter (\<lambda>q. P (result_key q)) rs) = filter P (map result_key rs)"
  by (simp add: filter_map comp_def)

lemma check_end_shown:
  assumes "find_instance (p_store p) iid = Some i"
  shows "shown_keys (check_end iid c rs p) iid = filter (\<lambda>k. k \<in> set (port_keys p iid)) (map result_key rs)"
proof -
  have "i_id i = iid" using assms by (auto simp: find_instance_def find_Some_iff)
  then show ?thesis
    by (simp add: shown_keys_def check_end_row [OF assms] reachability_dto_def Let_def port_keys_def
        filter_result_keys [symmetric])
qed

lemma check_read_targets: "check_read address now iid p = Inr c \<Longrightarrow> map key_of (ck_targets c) = port_keys p iid"
  by (auto simp: check_read_def then_do_def port_keys_def split: option.splits sum.splits)

lemma started_reading:
  assumes "ch_inflight s iid = Some Called" and "check_read address now iid (ch_panel s) = Inr c"
  shows "ch_inflight (check_started address now iid s) iid = Some (Reading c)"
  using assms by (simp add: check_started_def)

lemma finished_keys:
  assumes "ch_inflight s iid = Some Called" and "check_read address now iid (ch_panel s) = Inr c"
    and "ch_inflight t iid = ch_inflight (check_started address now iid s) iid"
    and "find_instance (p_store (ch_panel t)) iid = Some i"
  shows "check_call iid t = t"
    and "shown_keys (ch_panel (check_finished out agent token iid t)) iid
      = filter (\<lambda>k. k \<in> set (port_keys (ch_panel t) iid)) (port_keys (ch_panel s) iid)"
    and "ch_inflight (check_finished out agent token iid t) iid = None"
proof -
  have t: "ch_inflight t iid = Some (Reading c)" using assms(3) started_reading [OF assms(1,2)] by simp
  then show "check_call iid t = t" by (simp add: check_call_def)
  show "ch_inflight (check_finished out agent token iid t) iid = None"
    using t by (simp add: check_finished_def)
  show "shown_keys (ch_panel (check_finished out agent token iid t)) iid
      = filter (\<lambda>k. k \<in> set (port_keys (ch_panel t) iid)) (port_keys (ch_panel s) iid)"
    using t by (simp add: check_finished_def check_end_shown [OF assms(4)] check_ports_keys
        check_read_targets [OF assms(2)])
qed

text \<open>Between the read and the end of a check, other handlers may run and change the ports. Calls in
  the meantime share the running check and start nothing. What is shown afterwards are the ports the
  instance had when the check read it and still has: no result of a port it has lost, and none of a
  port it gained.\<close>

theorem check_shows_surviving_ports:
  assumes "ch_inflight s iid = Some Called" and "check_read address now iid (ch_panel s) = Inr c"
    and "ch_inflight t iid = ch_inflight (check_started address now iid s) iid"
    and "find_instance (p_store (ch_panel t)) iid = Some i"
  shows "check_call iid t = t
    \<and> shown_keys (ch_panel (check_finished out agent token iid t)) iid
      = filter (\<lambda>k. k \<in> set (port_keys (ch_panel t) iid)) (port_keys (ch_panel s) iid)
    \<and> ch_inflight (check_finished out agent token iid t) iid = None"
  using finished_keys [OF assms] by blast

definition reach_panel :: panel where
  "reach_panel = sample_panel\<lparr>p_store := sample_store\<lparr>s_ports := [\<lparr>al_name = ''game'', al_label = ''Game'',
     al_protocol = Both, al_port = 30000, al_primary = True, ip_instance_id = 1, ip_node_id = 1\<rparr>]\<rparr>\<rparr>"

lemma reach_panel_simps:
  "find_instance (p_store reach_panel) 1 = Some sample_instance"
  "port_keys reach_panel 1 = [port_key ''game'' 30000 Tcp, port_key ''game'' 30000 Udp]"
  by (simp_all add: reach_panel_def sample_panel_def find_instance_def sample_store_defs port_keys_def targets_of_def
      ports_of_def transports_def key_of_def)

theorem check_shows_surviving_ports_witness:
  "\<exists>t. shown_keys (ch_panel (check_finished answering (\<lambda>n q. (None, Inr [])) ''t'' 1 t)) 1
    = [port_key ''game'' 30000 Tcp, port_key ''game'' 30000 Udp]"
proof -
  let ?s = "\<lparr>ch_panel = reach_panel, ch_inflight = [1 \<mapsto> Called]\<rparr>"
  have "\<exists>c. check_read (\<lambda>n. ''h'') 0 1 reach_panel = Inr c"
    by (simp add: check_read_def get_instance_def then_do_def reach_panel_def sample_panel_def find_node_def
        find_instance_def sample_store_defs)
  then obtain c where c: "check_read (\<lambda>n. ''h'') 0 1 reach_panel = Inr c" by blast
  let ?t = "check_started (\<lambda>n. ''h'') 0 1 ?s"
  have same: "ch_panel ?t = reach_panel" using c by (simp add: check_started_def)
  have "shown_keys (ch_panel (check_finished answering (\<lambda>n q. (None, Inr [])) ''t'' 1 ?t)) 1
      = [port_key ''game'' 30000 Tcp, port_key ''game'' 30000 Udp]"
    using check_shows_surviving_ports [of ?s 1 "\<lambda>n. ''h''" 0 c ?t sample_instance answering
        "\<lambda>n q. (None, Inr [])" "''t''"] c same reach_panel_simps
    by (simp del: One_nat_def)
  then show ?thesis by (rule exI [of _ ?t])
qed

text \<open>So a change of all ports while a check runs leaves the instance unchecked: the check that the change
  asks for joins the one that still tests the old ports.\<close>

lemma changed_ports_left_unchecked:
  assumes "ch_inflight s iid = Some Called" and "check_read address now iid (ch_panel s) = Inr c"
    and "ch_inflight t iid = ch_inflight (check_started address now iid s) iid"
    and "find_instance (p_store (ch_panel t)) iid = Some i"
    and "set (port_keys (ch_panel t) iid) \<inter> set (port_keys (ch_panel s) iid) = {}"
  shows "shown_keys (ch_panel (check_finished out agent token iid (check_call iid t))) iid = []"
proof -
  have "k \<notin> set (port_keys (ch_panel t) iid)" if "k \<in> set (port_keys (ch_panel s) iid)" for k
    using assms(5) that by blast
  then show ?thesis
    by (simp add: finished_keys(1) [OF assms(1-4)] finished_keys(2) [OF assms(1-4)] filter_empty_conv)
qed

text \<open>A result is kept by name, port and protocol, whatever address it was found at: after the node's
  address changed, an offline node's ports still count as open, at an address nobody tried.\<close>

lemma kept_across_addresses:
  assumes "\<not> ck_connected c" and "distinct (map result_key (ck_previous c))"
    and "r \<in> set (ck_previous c)" and "result_key r \<in> key_of ` set (ck_targets c)"
  shows "r \<in> set (check_ports out agent token (c\<lparr>ck_host := h\<rparr>))"
proof -
  obtain t where t: "t \<in> set (ck_targets c)" "key_of t = result_key r" using assms(4) by auto
  then have "index_by result_key (ck_previous c) (key_of t) = Some r"
    using assms(2,3) index_by_distinct by metis
  then have "keep (c\<lparr>ck_host := h\<rparr>) t ''The node is offline'' = r" by (simp add: keep_def)
  then show ?thesis using assms(1) t(1) by (force simp: check_ports_def)
qed

section \<open>The SFTP port\<close>

text \<open>The SFTP port counts as open only if a GSM agent's SSH greeting came from it.\<close>

lemma sftp_open:
  assumes "check_node_sftp address out now nid p = Some r" and "sr_status r = Reach_Open"
  shows "is_connected p nid \<and> (\<exists>t c. out_connect out (sr_host r) (sr_port r) = Some (t, Inr c)
    \<and> t < connect_timeout_ms \<and> prefix ''SSH-2.0-GSM'' (first_line (greeting c)))"
  using assms by (auto simp: check_node_sftp_def tcp_check_def race_def sftp_verdict_def outcome_of_def Let_def
      split: option.splits if_splits sum.splits prod.splits)

end
