(* ===== verification/Remote_Files.thy ===== *)
theory Remote_Files
  imports Instances Transfers
begin

text \<open>
  The file manager (server/src/modules/files/service.ts) and its path helpers
  (shared/src/api/files.ts and protocol/files.ts): requests to the node's agent with their size limits and
  audit entries, uploads through the relay of Transfers, tickets for downloads, and the stream of a
  download, which keeps its last chunk back until the agent has confirmed the digest. The agent's
  answers, random ids and SHA-256 are arguments.
\<close>

section \<open>Paths inside an instance\<close>

definition file_path_max :: nat where "file_path_max = 1024"

definition instance_path :: "string \<Rightarrow> bool" where
  "instance_path p \<longleftrightarrow> length p \<le> file_path_max \<and> CHR 0x00 \<notin> set p
     \<and> ''..'' \<notin> set (split_on (CHR ''/'') p) \<and> \<not> prefix ''/'' p"

text \<open>\<open>s.replace(/\/+$/, "")\<close>, and \<open>s.lastIndexOf("/")\<close>, which is -1 without a slash.\<close>

definition trim_slashes :: "string \<Rightarrow> string" where
  "trim_slashes s = rev (dropWhile (\<lambda>c. c = CHR ''/'') (rev s))"

definition last_slash :: "string \<Rightarrow> int" where
  "last_slash s = int (length s) - 1 - int (length (takeWhile (\<lambda>c. c \<noteq> CHR ''/'') (rev s)))"

definition join_path :: "string \<Rightarrow> string \<Rightarrow> string" where
  "join_path dir n = (let d = trim_slashes dir in if d \<noteq> [] then d @ ''/'' @ n else n)"

definition parent_path :: "string \<Rightarrow> string" where
  "parent_path p = (let t = trim_slashes p; i = last_slash t in if i \<le> 0 then [] else take (nat i) t)"

definition base_name :: "string \<Rightarrow> string" where
  "base_name p = (let t = trim_slashes p in drop (nat (last_slash t + 1)) t)"

definition valid_file_name :: "string \<Rightarrow> bool" where
  "valid_file_name n \<longleftrightarrow> n \<noteq> [] \<and> length n \<le> 255 \<and> n \<noteq> ''.'' \<and> n \<noteq> ''..'' \<and> CHR ''/'' \<notin> set n \<and> CHR 0x00 \<notin> set n"

definition is_archive_name :: "string \<Rightarrow> bool" where
  "is_archive_name n \<longleftrightarrow> (\<exists>x\<in>set [''.zip'', ''.tar'', ''.tar.gz'', ''.tgz'']. suffix x (js_lower n))"

definition mode_bit :: "nat \<Rightarrow> nat \<Rightarrow> char \<Rightarrow> char" where
  "mode_bit mode b ch = (if odd (mode div b) then ch else CHR ''-'')"

datatype file_type = Regular_File | Dir | Symlink | Other_File

definition mode_string :: "nat \<Rightarrow> file_type \<Rightarrow> string" where
  "mode_string mode t =
     [case t of Dir \<Rightarrow> CHR ''d'' | Symlink \<Rightarrow> CHR ''l'' | Other_File \<Rightarrow> CHR ''?'' | Regular_File \<Rightarrow> CHR ''-'',
      mode_bit mode 256 (CHR ''r''), mode_bit mode 128 (CHR ''w''), mode_bit mode 64 (CHR ''x''),
      mode_bit mode 32 (CHR ''r''), mode_bit mode 16 (CHR ''w''), mode_bit mode 8 (CHR ''x''),
      mode_bit mode 4 (CHR ''r''), mode_bit mode 2 (CHR ''w''), mode_bit mode 1 (CHR ''x'')]"

fun octal_of :: "nat \<Rightarrow> string" where
  "octal_of n = (if n < 8 then [digit_char n] else octal_of (n div 8) @ [digit_char (n mod 8)])"

declare octal_of.simps [simp del]

text \<open>\<open>(mode & 0o777).toString(8).padStart(3, "0")\<close>.\<close>

definition mode_octal :: "nat \<Rightarrow> string" where
  "mode_octal mode = (let s = octal_of (mode mod 512) in replicate (3 - length s) (CHR ''0'') @ s)"

section \<open>Limits\<close>

definition byte_units :: "string list" where
  "byte_units = [''bytes'', ''KiB'', ''MiB'', ''GiB'', ''TiB'']"

text \<open>The loop of \<open>formatBytes\<close>: the number left and the unit's index.\<close>

function scale_bytes :: "rat \<Rightarrow> nat \<Rightarrow> rat \<times> nat" where
  "scale_bytes n i = (if 1024 \<le> n \<and> i < length byte_units - 1 then scale_bytes (n / 1024) (Suc i) else (n, i))"
  by pat_completeness auto
termination by (relation "measure (\<lambda>(n, i). length byte_units - i)") auto

declare scale_bytes.simps [simp del]

text \<open>\<open>toFixed\<close> of a number that is not negative: half a unit rounds up.\<close>

definition to_fixed_1 :: "rat \<Rightarrow> string" where
  "to_fixed_1 x = (let m = \<lfloor>10 * x + 1 / 2\<rfloor> in string_of_int (m div 10) @ ''.'' @ string_of_int (m mod 10))"

definition to_fixed_0 :: "rat \<Rightarrow> string" where
  "to_fixed_0 x = string_of_int \<lfloor>x + 1 / 2\<rfloor>"

definition format_bytes :: "nat \<Rightarrow> string" where
  "format_bytes n = (case scale_bytes (of_nat n) 0 of (x, i) \<Rightarrow>
     (if i = 0 then string_of_int (int n) else if x < 10 then to_fixed_1 x else to_fixed_0 x)
     @ '' '' @ byte_units ! i)"

text \<open>The arrow in the message, as UTF-8.\<close>

definition too_large :: "nat \<Rightarrow> http_error" where
  "too_large limit = HttpError 413 ''too_large'' (''Larger than the '' @ format_bytes limit
     @ '' limit (Settings '' @ [CHR 0xE2, CHR 0x86, CHR 0x92] @ '' General)'') []"

record files_settings =
  view_max_bytes :: nat
  transfer_max_bytes :: nat

definition default_files_settings :: files_settings where
  "default_files_settings = \<lparr>view_max_bytes = 2 * 2 ^ 20, transfer_max_bytes = 4 * 1024 ^ 3\<rparr>"

definition over_limit :: "files_settings \<Rightarrow> nat \<Rightarrow> bool" where
  "over_limit fs n \<longleftrightarrow> 0 < transfer_max_bytes fs \<and> transfer_max_bytes fs < n"

section \<open>Requests and audit entries\<close>

datatype file_request =
    Fs_List string string
  | Fs_Stat string string
  | Fs_Read string string nat
  | Fs_Write string string string "string option" bool
  | Fs_Mkdir string string
  | Fs_Rename string string string
  | Fs_Delete string "string list"
  | Fs_Chmod string "string list" nat bool
  | Fs_Extract string string string
  | Fs_Compress string "string list" string
  | Fs_Upload string string string nat string bool
  | Fs_Download string string string "string list" bool
  | Backup_Download string string string string
  | Fs_Cancel string

datatype json_value = J_Str string | J_Num nat | J_Bool bool | J_Strs "string list"

record file_audit =
  fa_action :: string
  fa_instance :: nat
  fa_details :: "(string \<times> json_value) list"

text \<open>A failed request, and whether its data says the file had changed.\<close>

record rpc_failure =
  rf_error :: http_error
  rf_conflict :: bool

type_synonym 'a answer = "rpc_failure + 'a"

record read_answer =
  ra_path :: string
  ra_size :: nat
  ra_content :: "string option"

text \<open>What writes, uploads and compressions answer.\<close>

record file_result =
  fr_path :: string
  fr_size :: nat
  fr_sha256 :: string

definition plain :: "'a answer \<Rightarrow> 'a result" where
  "plain a = (case a of Inl f \<Rightarrow> Inl (rf_error f) | Inr r \<Rightarrow> Inr r)"

text \<open>The operations that audit what succeeded and pass on what failed.\<close>

definition audited :: "instance_row \<Rightarrow> string \<Rightarrow> ('a \<Rightarrow> (string \<times> json_value) list) \<Rightarrow> 'a answer \<Rightarrow>
    file_audit list \<times> 'a result" where
  "audited i action info a = (case a of
     Inl f \<Rightarrow> ([], Inl (rf_error f))
   | Inr r \<Rightarrow> ([\<lparr>fa_action = action, fa_instance = i_id i, fa_details = info r\<rparr>], Inr r))"

definition fs_list :: "(file_request \<Rightarrow> 'a answer) \<Rightarrow> instance_row \<Rightarrow> string \<Rightarrow> 'a result" where
  "fs_list agent i path = plain (agent (Fs_List (i_uuid i) path))"

definition fs_stat :: "(file_request \<Rightarrow> 'a answer) \<Rightarrow> instance_row \<Rightarrow> string \<Rightarrow> 'a result" where
  "fs_stat agent i path = plain (agent (Fs_Stat (i_uuid i) path))"

definition fs_read :: "(file_request \<Rightarrow> read_answer answer) \<Rightarrow> files_settings \<Rightarrow> instance_row \<Rightarrow> string \<Rightarrow>
    file_audit list \<times> (read_answer \<times> nat) result" where
  "fs_read agent fs i path = (case agent (Fs_Read (i_uuid i) path (view_max_bytes fs)) of
     Inl f \<Rightarrow> ([], Inl (rf_error f))
   | Inr r \<Rightarrow> (if ra_content r = None then [] else [\<lparr>fa_action = ''file.view'', fa_instance = i_id i,
         fa_details = [(''path'', J_Str (ra_path r)), (''size'', J_Num (ra_size r))]\<rparr>],
       Inr (r, view_max_bytes fs)))"

text \<open>\<open>byte_length\<close> is the length of a text's UTF-8 encoding.\<close>

definition fs_write :: "(file_request \<Rightarrow> file_result answer) \<Rightarrow> (string \<Rightarrow> nat) \<Rightarrow> files_settings \<Rightarrow>
    instance_row \<Rightarrow> string \<Rightarrow> string \<Rightarrow> string option \<Rightarrow> bool \<Rightarrow> file_audit list \<times> file_result result" where
  "fs_write agent byte_length fs i path content sha create =
     (if view_max_bytes fs < byte_length content then ([], Inl (too_large (view_max_bytes fs)))
      else (case agent (Fs_Write (i_uuid i) path content sha create) of
        Inl f \<Rightarrow> ([], Inl (if rf_conflict f then HttpError 409 ''file_changed'' (message (rf_error f)) []
          else rf_error f))
      | Inr r \<Rightarrow> ([\<lparr>fa_action = (if create then ''file.create'' else ''file.write''), fa_instance = i_id i,
          fa_details = [(''path'', J_Str (fr_path r)), (''size'', J_Num (fr_size r)),
            (''sha256'', J_Str (fr_sha256 r))]\<rparr>], Inr r)))"

definition fs_mkdir :: "(file_request \<Rightarrow> string answer) \<Rightarrow> instance_row \<Rightarrow> string \<Rightarrow>
    file_audit list \<times> string result" where
  "fs_mkdir agent i path = audited i ''file.mkdir'' (\<lambda>p. [(''path'', J_Str p)]) (agent (Fs_Mkdir (i_uuid i) path))"

definition fs_rename :: "(file_request \<Rightarrow> string answer) \<Rightarrow> instance_row \<Rightarrow> string \<Rightarrow> string \<Rightarrow>
    file_audit list \<times> string result" where
  "fs_rename agent i src dst = audited i ''file.rename'' (\<lambda>p. [(''from'', J_Str src), (''to'', J_Str p)])
     (agent (Fs_Rename (i_uuid i) src dst))"

text \<open>Deleting may have removed something before it failed, so failures are audited too.\<close>

definition fs_remove :: "(file_request \<Rightarrow> nat answer) \<Rightarrow> instance_row \<Rightarrow> string list \<Rightarrow>
    file_audit list \<times> nat result" where
  "fs_remove agent i paths = (case agent (Fs_Delete (i_uuid i) paths) of
     Inl f \<Rightarrow> ([\<lparr>fa_action = ''file.delete'', fa_instance = i_id i, fa_details = [(''paths'', J_Strs paths),
         (''error'', J_Str (message (rf_error f)))]\<rparr>], Inl (rf_error f))
   | Inr n \<Rightarrow> ([\<lparr>fa_action = ''file.delete'', fa_instance = i_id i, fa_details = [(''paths'', J_Strs paths),
         (''deleted'', J_Num n)]\<rparr>], Inr n))"

definition fs_chmod :: "(file_request \<Rightarrow> nat answer) \<Rightarrow> instance_row \<Rightarrow> string list \<Rightarrow> nat \<Rightarrow> bool \<Rightarrow>
    file_audit list \<times> nat result" where
  "fs_chmod agent i paths mode recursive = audited i ''file.chmod'' (\<lambda>n. [(''paths'', J_Strs paths),
     (''mode'', J_Str (octal_of mode)), (''recursive'', J_Bool recursive), (''changed'', J_Num n)])
     (agent (Fs_Chmod (i_uuid i) paths mode recursive))"

definition fs_extract :: "(file_request \<Rightarrow> nat answer) \<Rightarrow> instance_row \<Rightarrow> string \<Rightarrow> string \<Rightarrow>
    file_audit list \<times> nat result" where
  "fs_extract agent i path dest = audited i ''file.extract'' (\<lambda>n. [(''path'', J_Str path), (''dest'', J_Str dest),
     (''files'', J_Num n)]) (agent (Fs_Extract (i_uuid i) path dest))"

definition fs_compress :: "(file_request \<Rightarrow> file_result answer) \<Rightarrow> instance_row \<Rightarrow> string list \<Rightarrow> string \<Rightarrow>
    file_audit list \<times> file_result result" where
  "fs_compress agent i paths dest = audited i ''file.compress'' (\<lambda>r. [(''paths'', J_Strs paths),
     (''dest'', J_Str dest), (''size'', J_Num (fr_size r))]) (agent (Fs_Compress (i_uuid i) paths dest))"

section \<open>Uploads\<close>

definition node_not_connected :: http_error where "node_not_connected = conflict ''The node is not connected''"

record upload_query =
  uq_path :: string
  uq_overwrite :: bool

definition file_upload_begin :: "bool \<Rightarrow> bool \<Rightarrow> files_settings \<Rightarrow> instance_row \<Rightarrow> upload_query \<Rightarrow> nat \<Rightarrow> string \<Rightarrow>
    string \<Rightarrow> transfers \<Rightarrow> transfers \<times> file_request result" where
  "file_upload_begin online has_body fs i q n op token st =
     (if \<not> online then (st, Inl node_not_connected)
      else if \<not> has_body then (st, Inl (bad_request ''The upload has no body''))
      else if over_limit fs n then (st, Inl (too_large (transfer_max_bytes fs)))
      else (offer token (i_node_id i) n st,
        Inr (Fs_Upload op token (i_uuid i) n (uq_path q) (uq_overwrite q))))"

text \<open>The browser went away.\<close>

definition upload_aborted :: "string \<Rightarrow> string \<Rightarrow> transfers \<Rightarrow> transfers \<times> file_request" where
  "upload_aborted op token st = (cancel_transfer token ''The upload was cancelled'' st, Fs_Cancel op)"

definition upload_details :: "upload_query \<Rightarrow> nat \<Rightarrow> (string \<times> json_value) list" where
  "upload_details q n = [(''path'', J_Str (uq_path q)), (''size'', J_Num n), (''overwrite'', J_Bool (uq_overwrite q))]"

definition file_upload_end :: "instance_row \<Rightarrow> upload_query \<Rightarrow> nat \<Rightarrow> string \<Rightarrow> file_result answer \<Rightarrow> transfers \<Rightarrow>
    transfers \<times> file_audit list \<times> file_result result" where
  "file_upload_end i q n token a st = (case a of
     Inr r \<Rightarrow> (st, [\<lparr>fa_action = ''file.upload'', fa_instance = i_id i,
         fa_details = upload_details q n @ [(''sha256'', J_Str (fr_sha256 r))]\<rparr>], Inr r)
   | Inl f \<Rightarrow> (cancel_transfer token (message (rf_error f)) st,
       if code (rf_error f) = ''agent_invalid_params'' then []
       else [\<lparr>fa_action = ''file.upload'', fa_instance = i_id i,
         fa_details = upload_details q n @ [(''error'', J_Str (message (rf_error f)))]\<rparr>],
       Inl (rf_error f)))"

section \<open>Preparing a download\<close>

record file_entry =
  fe_type :: file_type
  fe_size :: nat
  fe_target_type :: "file_type option"

record prepared =
  pd_url :: string
  pd_filename :: string
  pd_archive :: bool
  pd_size :: "nat option"

text \<open>Whether to send an archive, and the size when it is known.\<close>

definition download_shape :: "(file_request \<Rightarrow> file_entry answer) \<Rightarrow> instance_row \<Rightarrow> string list \<Rightarrow>
    (bool \<times> nat option) result" where
  "download_shape agent i paths =
     (if length paths > 1 then Inr (True, None)
      else then_do (fs_stat agent i (hd paths)) (\<lambda>e.
        let t = (if fe_type e = Symlink then fe_target_type e else Some (fe_type e)) in
        if t = Some Dir then Inr (True, None)
        else if t \<noteq> Some Regular_File then Inl (bad_request (''Not a regular file: '' @ hd paths))
        else Inr (False, if fe_type e = Regular_File then Some (fe_size e) else None)))"

definition prepare_file_download :: "(file_request \<Rightarrow> file_entry answer) \<Rightarrow> bool \<Rightarrow> files_settings \<Rightarrow> nat \<Rightarrow> int \<Rightarrow> string \<Rightarrow>
    instance_row \<Rightarrow> string list \<Rightarrow> tickets \<Rightarrow> tickets \<times> prepared result" where
  "prepare_file_download agent online fs who now fresh i paths ts =
     (if \<not> online then (ts, Inl node_not_connected)
      else (case download_shape agent i paths of
        Inl e \<Rightarrow> (ts, Inl e)
      | Inr (archive, n) \<Rightarrow>
          if (case n of None \<Rightarrow> False | Some k \<Rightarrow> over_limit fs k) then (ts, Inl (too_large (transfer_max_bytes fs)))
          else let name = (if \<not> archive then base_name (hd paths)
              else if length paths = 1
              then (if base_name (hd paths) = [] then i_name i else base_name (hd paths)) @ ''.tar.gz''
              else i_name i @ ''-files.tar.gz'') in
            (issue_ticket now fresh \<lparr>tk_user_id = who, tk_instance_id = i_id i, tk_node_id = i_node_id i,
               tk_filename = name, tk_size = n, tk_archive = archive, tk_kind = Files_Ticket (i_uuid i) paths,
               tk_expires_at = 0\<rparr> ts,
             Inr \<lparr>pd_url = ''/api/v1/files/downloads/'' @ fresh, pd_filename = name, pd_archive = archive,
               pd_size = n\<rparr>)))"

section \<open>A download\<close>

definition request_download :: "ticket \<Rightarrow> string \<Rightarrow> string \<Rightarrow> file_request" where
  "request_download t op token = (case tk_kind t of
     Backup_Ticket u b \<Rightarrow> Backup_Download op token u b
   | Files_Ticket u paths \<Rightarrow> Fs_Download op token u paths (tk_archive t))"

definition download_begin :: "int \<Rightarrow> string \<Rightarrow> nat \<Rightarrow> (nat \<Rightarrow> bool) \<Rightarrow> string \<Rightarrow> string \<Rightarrow> tickets \<Rightarrow> transfers \<Rightarrow>
    tickets \<times> transfers \<times> (ticket \<times> file_request) result" where
  "download_begin now tid who online op token ts st = (case claim_ticket now tid who ts of
     (ts', None) \<Rightarrow> (ts', st, Inl (not_found ''Download''))
   | (ts', Some t) \<Rightarrow>
       if \<not> online (tk_node_id t) then (ts', st, Inl node_not_connected)
       else (ts', expect token (tk_node_id t) st, Inr (t, request_download t op token)))"

definition download_audit :: "ticket \<Rightarrow> int \<Rightarrow> int \<Rightarrow> (string \<times> json_value) list \<Rightarrow> file_audit" where
  "download_audit t started now extra =
     \<lparr>fa_action = (case tk_kind t of Files_Ticket u p \<Rightarrow> ''file.download'' | Backup_Ticket u b \<Rightarrow> ''backup.download''),
      fa_instance = tk_instance_id t,
      fa_details = (case tk_kind t of
          Files_Ticket u paths \<Rightarrow> [(''paths'', J_Strs paths), (''archive'', J_Bool (tk_archive t))]
        | Backup_Ticket u b \<Rightarrow> [(''backupId'', J_Str b)]) @ extra
        @ [(''durationSeconds'', J_Num (nat ((now - started + 500) div 1000)))]\<rparr>"

text \<open>Nothing arrived: the relay's own errors (\<open>relayed\<close>) become bad requests.\<close>

definition download_failed :: "ticket \<Rightarrow> int \<Rightarrow> int \<Rightarrow> string \<Rightarrow> bool \<Rightarrow> http_error \<Rightarrow> transfers \<Rightarrow>
    transfers \<times> file_audit \<times> http_error" where
  "download_failed t started now token relayed e st =
     (cancel_transfer token (message e) st, download_audit t started now [(''error'', J_Str (message e))],
      if relayed then bad_request (message e) else e)"

text \<open>
  The stream to the browser once the agent posts. \<open>dl_read\<close> is what was read and counted, \<open>dl_out\<close>
  what the browser was given, \<open>dl_answer\<close> the answer to the agent's POST, \<open>dl_rpc\<close> the agent's answer to
  the request, \<open>dl_ended\<close> that all was read and the answer is awaited.
\<close>

type_synonym bytes = "8 word list"

datatype sink = Sink_Open | Sink_Closed | Sink_Errored | Sink_Cancelled

record download =
  dl_read :: bytes
  dl_held :: "bytes option"
  dl_out :: bytes
  dl_sink :: sink
  dl_ended :: bool
  dl_finished :: bool
  dl_answer :: "(string + string) option"
  dl_rpc :: "(string + nat) option"
  dl_stopped :: bool
  dl_audits :: "((string \<times> json_value) list) list"

definition new_download :: download where
  "new_download = \<lparr>dl_read = [], dl_held = None, dl_out = [], dl_sink = Sink_Open, dl_ended = False,
     dl_finished = False, dl_answer = None, dl_rpc = None, dl_stopped = False, dl_audits = []\<rparr>"

text \<open>\<open>arrival.complete\<close>: the first answer stays.\<close>

definition complete_with :: "string + string \<Rightarrow> download \<Rightarrow> download" where
  "complete_with v d = (if dl_answer d = None then d\<lparr>dl_answer := Some v\<rparr> else d)"

definition enqueue :: "bytes option \<Rightarrow> download \<Rightarrow> download" where
  "enqueue b d = (case b of None \<Rightarrow> d | Some x \<Rightarrow> d\<lparr>dl_out := dl_out d @ x\<rparr>)"

text \<open>\<open>fail\<close>, and the \<open>catch\<close> of \<open>pull\<close>; \<open>ctrl.error\<close> does nothing to a stream that is not readable.\<close>

definition fail_download :: "string \<Rightarrow> download \<Rightarrow> download" where
  "fail_download m d = (if dl_finished d then d
     else (complete_with (Inl m) d)\<lparr>dl_finished := True, dl_stopped := True,
       dl_audits := dl_audits d @ [[(''error'', J_Str m), (''bytes'', J_Num (length (dl_read d)))]]\<rparr>)"

definition catch_download :: "string \<Rightarrow> download \<Rightarrow> download" where
  "catch_download m d = (let d' = fail_download m d in
     if dl_sink d' = Sink_Open then d'\<lparr>dl_sink := Sink_Errored\<rparr> else d')"

text \<open>After \<open>await rpc\<close>: enqueueing into, or closing, a cancelled stream throws.\<close>

definition conclude :: "(bytes \<Rightarrow> string) \<Rightarrow> download \<Rightarrow> download" where
  "conclude sha d =
     (if \<not> dl_ended d \<or> dl_sink d = Sink_Closed \<or> dl_sink d = Sink_Errored then d
      else (case dl_rpc d of
        None \<Rightarrow> d
      | Some (Inl m) \<Rightarrow> catch_download m d
      | Some (Inr n) \<Rightarrow>
          if dl_sink d = Sink_Cancelled then d\<lparr>dl_finished := True\<rparr>
          else (enqueue (dl_held d) d)\<lparr>dl_finished := True, dl_sink := Sink_Closed,
            dl_audits := dl_audits d @ [[(''size'', J_Num n), (''sha256'', J_Str (sha (dl_read d)))]]\<rparr>))"

datatype download_event = Got_Chunk bytes | Got_End | Read_Failed string | Rpc_Answered "string + nat" | Browser_Left

text \<open>The stream is read only while it is open; the agent answers once.\<close>

fun on_download :: "(bytes \<Rightarrow> string) \<Rightarrow> files_settings \<Rightarrow> download_event \<Rightarrow> download \<Rightarrow> download" where
  "on_download sha fs (Got_Chunk b) d =
     (if dl_sink d \<noteq> Sink_Open \<or> dl_ended d then d
      else let d1 = d\<lparr>dl_read := dl_read d @ b\<rparr> in
        if over_limit fs (length (dl_read d1)) then catch_download (message (too_large (transfer_max_bytes fs))) d1
        else (enqueue (dl_held d1) d1)\<lparr>dl_held := Some b\<rparr>)"
| "on_download sha fs Got_End d =
     (if dl_sink d \<noteq> Sink_Open \<or> dl_ended d then d
      else conclude sha (complete_with (Inr (sha (dl_read d))) d\<lparr>dl_ended := True\<rparr>))"
| "on_download sha fs (Read_Failed m) d =
     (if dl_sink d \<noteq> Sink_Open \<or> dl_ended d then d else catch_download m d)"
| "on_download sha fs (Rpc_Answered r) d =
     (if dl_rpc d \<noteq> None then d else conclude sha (d\<lparr>dl_rpc := Some r\<rparr>))"
| "on_download sha fs Browser_Left d =
     (if dl_sink d \<noteq> Sink_Open then d
      else (fail_download ''The browser cancelled the download'' d)\<lparr>dl_sink := Sink_Cancelled\<rparr>)"

definition run_download :: "(bytes \<Rightarrow> string) \<Rightarrow> files_settings \<Rightarrow> download_event list \<Rightarrow> download" where
  "run_download sha fs es = foldl (\<lambda>d e. on_download sha fs e d) new_download es"

section \<open>Names and directories\<close>

lemma trim_slashes_nil [simp]: "trim_slashes [] = []"
  by (simp add: trim_slashes_def)

lemma trim_slashes_snoc: "c \<noteq> CHR ''/'' \<Longrightarrow> trim_slashes (s @ [c]) = s @ [c]"
  by (simp add: trim_slashes_def)

lemma trim_slashes_end:
  assumes "n \<noteq> []" and "CHR ''/'' \<notin> set n"
  shows "trim_slashes (s @ n) = s @ n"
proof -
  obtain m c where "n = m @ [c]" using assms(1) by (metis rev_exhaust)
  with assms(2) have "c \<noteq> CHR ''/''" by auto
  then show ?thesis using trim_slashes_snoc [of c "s @ m"] \<open>n = m @ [c]\<close> by simp
qed

lemma last_slash_end:
  assumes "CHR ''/'' \<notin> set n"
  shows "last_slash (d @ CHR ''/'' # n) = int (length d)" and "last_slash n = - 1"
proof -
  have "takeWhile (\<lambda>c. c \<noteq> CHR ''/'') (rev n @ CHR ''/'' # rev d) = rev n"
    and all: "takeWhile (\<lambda>c. c \<noteq> CHR ''/'') (rev n) = rev n"
    using assms by (auto simp: takeWhile_append takeWhile_eq_all_conv)
  from arg_cong [OF all, of length] have "length (takeWhile (\<lambda>c. c \<noteq> CHR ''/'') (rev n)) = length n"
    unfolding length_rev .
  with \<open>takeWhile (\<lambda>c. c \<noteq> CHR ''/'') (rev n @ CHR ''/'' # rev d) = rev n\<close> show "last_slash (d @ CHR ''/'' # n) = int (length d)" "last_slash n = - 1"
    by (simp_all add: last_slash_def)
qed

lemma split_on_concat: "split_on c (a @ c # b) = split_on c a @ split_on c b"
  by (induction a) (auto split: list.splits)

lemma join_path_cases:
  assumes "n \<noteq> []" "CHR ''/'' \<notin> set n"
  obtains "trim_slashes d = []" "join_path d n = n"
    | "trim_slashes d \<noteq> []" "join_path d n = trim_slashes d @ CHR ''/'' # n"
  by (cases "trim_slashes d = []") (auto simp: join_path_def)

lemma split_on_trim: "set (split_on (CHR ''/'') (trim_slashes d)) \<subseteq> set (split_on (CHR ''/'') d)"
proof -
  obtain k where d: "d = trim_slashes d @ replicate k (CHR ''/'')"
  proof -
    have "rev d = takeWhile (\<lambda>c. c = CHR ''/'') (rev d) @ rev (trim_slashes d)"
      by (simp add: trim_slashes_def)
    moreover have "takeWhile (\<lambda>c. c = CHR ''/'') (rev d) = replicate (length (takeWhile (\<lambda>c. c = CHR ''/'') (rev d))) (CHR ''/'')"
      by (rule replicate_length_same [symmetric]) (auto dest: set_takeWhileD)
    ultimately show ?thesis by (metis rev_append rev_replicate rev_rev_ident that)
  qed
  show ?thesis
  proof (cases k)
    case 0
    with d show ?thesis by simp
  next
    case (Suc m)
    with d have "d = trim_slashes d @ CHR ''/'' # replicate m (CHR ''/'')" by simp
    then show ?thesis using split_on_concat [of "CHR ''/''" "trim_slashes d" "replicate m (CHR ''/'')"]
      by (metis Un_upper1 set_append)
  qed
qed

lemma trim_prefix: "prefix (trim_slashes d) d"
  by (metis rev_rev_ident suffix_dropWhile suffix_to_prefix trim_slashes_def)

text \<open>Joining a directory inside an instance and a valid file name gives a path inside the instance, if it
  is not too long, whose parent is that directory without trailing slashes and whose last part is that
  name.\<close>

theorem joined_path_splits_back:
  assumes "instance_path d" and "valid_file_name n" and "length d + 1 + length n \<le> file_path_max"
  shows "instance_path (join_path d n) \<and> parent_path (join_path d n) = trim_slashes d
    \<and> base_name (join_path d n) = n"
proof -
  have n: "n \<noteq> []" "CHR ''/'' \<notin> set n" "CHR 0x00 \<notin> set n" "n \<noteq> ''..''"
    using assms(2) by (auto simp: valid_file_name_def)
  have d: "CHR 0x00 \<notin> set d" "''..'' \<notin> set (split_on (CHR ''/'') d)" "\<not> prefix ''/'' d"
    using assms(1) by (auto simp: instance_path_def)
  have start: "\<not> prefix ''/'' n" using n(2) by (auto simp: prefix_def)
  have t: "CHR 0x00 \<notin> set (trim_slashes d)" "length (trim_slashes d) \<le> length d"
      "\<not> prefix ''/'' (trim_slashes d)" "''..'' \<notin> set (split_on (CHR ''/'') (trim_slashes d))"
    using trim_prefix [of d] d prefix_order.trans prefix_length_le set_mono_prefix split_on_trim [of d] by blast+
  have nosplit: "split_on (CHR ''/'') n = [n]" using n(2) by (rule split_on_no_sep)
  from n(1,2) show ?thesis
  proof (cases rule: join_path_cases [of n d])
    case 1
    then show ?thesis
      using n start assms(3) nosplit trim_slashes_end [of n "[]"] last_slash_end(2) [OF n(2)]
      by (simp add: instance_path_def parent_path_def base_name_def Let_def)
  next
    case 2
    let ?t = "trim_slashes d"
    have trimmed: "trim_slashes (?t @ CHR ''/'' # n) = ?t @ CHR ''/'' # n"
      using trim_slashes_end [OF n(1,2), of "?t @ ''/''"] by simp
    have "\<not> prefix ''/'' (?t @ CHR ''/'' # n)" using t(3) 2(1) by (cases ?t) auto
    moreover have "''..'' \<notin> set (split_on (CHR ''/'') (?t @ CHR ''/'' # n))"
      using t(4) n(4) by (simp add: split_on_concat nosplit)
    ultimately have "instance_path (?t @ CHR ''/'' # n)"
      using t(1,2) n(3) assms(3) by (simp add: instance_path_def)
    then show ?thesis
      using 2 trimmed last_slash_end(1) [OF n(2), of ?t]
      by (simp add: parent_path_def base_name_def Let_def nat_add_distrib)
  qed
qed

theorem joined_path_splits_back_witness:
  "parent_path (join_path ''world/region/'' ''r.0.0.mca'') = trim_slashes ''world/region/''
    \<and> base_name (join_path ''world/region/'' ''r.0.0.mca'') = ''r.0.0.mca''"
proof -
  have "instance_path ''world/region/''" "valid_file_name ''r.0.0.mca''"
    "length ''world/region/'' + 1 + length ''r.0.0.mca'' \<le> file_path_max"
    by (simp_all add: instance_path_def file_path_max_def valid_file_name_def)
  from joined_path_splits_back [OF this] show ?thesis by blast
qed

section \<open>Downloads arrive whole or fail\<close>

definition chunks_of :: "download_event list \<Rightarrow> bytes" where
  "chunks_of es = concat (map (\<lambda>e. case e of Got_Chunk b \<Rightarrow> b | _ \<Rightarrow> []) es)"

lemma chunks_of_snoc: "chunks_of (es @ [e]) = chunks_of es @ (case e of Got_Chunk b \<Rightarrow> b | _ \<Rightarrow> [])"
  by (simp add: chunks_of_def)

definition held_bytes :: "download \<Rightarrow> bytes" where
  "held_bytes d = (case dl_held d of None \<Rightarrow> [] | Some b \<Rightarrow> b)"

text \<open>What holds while the stream is open, and what each end leaves.\<close>

definition download_inv :: "(bytes \<Rightarrow> string) \<Rightarrow> files_settings \<Rightarrow> download_event list \<Rightarrow> download \<Rightarrow> bool" where
  "download_inv sha fs es d \<longleftrightarrow> prefix (dl_read d) (chunks_of es) \<and> \<not> over_limit fs (length (dl_out d)) \<and>
     length (dl_audits d) = (if dl_finished d then 1 else 0) \<and>
     (case dl_sink d of
        Sink_Open \<Rightarrow> \<not> dl_finished d \<and> dl_read d = dl_out d @ held_bytes d \<and> \<not> over_limit fs (length (dl_read d))
          \<and> (dl_ended d \<longrightarrow> dl_answer d = Some (Inr (sha (dl_read d))) \<and> dl_rpc d = None)
          \<and> (\<not> dl_ended d \<longrightarrow> dl_answer d = None \<and> dl_read d = chunks_of es)
      | Sink_Closed \<Rightarrow> dl_finished d \<and> dl_out d = dl_read d \<and> dl_answer d = Some (Inr (sha (dl_read d)))
          \<and> (\<exists>n. dl_rpc d = Some (Inr n) \<and> dl_audits d = [[(''size'', J_Num n), (''sha256'', J_Str (sha (dl_read d)))]])
      | _ \<Rightarrow> dl_finished d \<and> dl_stopped d \<and> (\<exists>r. dl_read d = dl_out d @ held_bytes d @ r)
          \<and> (\<exists>m n. dl_audits d = [[(''error'', J_Str m), (''bytes'', J_Num n)]]))"

lemma over_limit_mono: "\<not> over_limit fs n \<Longrightarrow> m \<le> n \<Longrightarrow> \<not> over_limit fs m"
  by (auto simp: over_limit_def)

lemma new_download_inv: "download_inv sha fs [] new_download"
  by (simp add: download_inv_def new_download_def held_bytes_def over_limit_def chunks_of_def)

lemma held_bytes_cong [simp]: "held_bytes (d\<lparr>dl_finished := a\<rparr>) = held_bytes d" "held_bytes (d\<lparr>dl_sink := s\<rparr>) = held_bytes d"
    "held_bytes (d\<lparr>dl_answer := v\<rparr>) = held_bytes d" "held_bytes (d\<lparr>dl_stopped := b\<rparr>) = held_bytes d"
    "held_bytes (d\<lparr>dl_audits := x\<rparr>) = held_bytes d" "held_bytes (d\<lparr>dl_ended := y\<rparr>) = held_bytes d"
    "held_bytes (d\<lparr>dl_rpc := z\<rparr>) = held_bytes d" "held_bytes (d\<lparr>dl_read := w\<rparr>) = held_bytes d"
  by (simp_all add: held_bytes_def)

lemma catch_inv:
  assumes "dl_sink d = Sink_Open" "\<not> dl_finished d" "prefix (dl_read d) (chunks_of es)" "dl_audits d = []"
    "\<exists>r. dl_read d = dl_out d @ held_bytes d @ r" "\<not> over_limit fs (length (dl_out d))"
  shows "download_inv sha fs es (catch_download m d)"
  using assms by (auto simp: download_inv_def catch_download_def fail_download_def complete_with_def Let_def)

lemma conclude_inv:
  assumes "download_inv sha fs es (d\<lparr>dl_rpc := None\<rparr>)"
  shows "download_inv sha fs es (conclude sha d)"
proof (cases "dl_ended d \<and> (dl_sink d = Sink_Open \<or> dl_sink d = Sink_Cancelled) \<and> dl_rpc d \<noteq> None")
  case False
  then show ?thesis using assms
    by (auto simp: conclude_def download_inv_def split: option.splits sum.splits sink.splits)
next
  case True
  then obtain r where r: "dl_ended d" "dl_rpc d = Some r" "dl_sink d = Sink_Open \<or> dl_sink d = Sink_Cancelled" by auto
  show ?thesis
  proof (cases "dl_sink d = Sink_Open")
    case opened: True
    then have i: "\<not> dl_finished d" "dl_read d = dl_out d @ held_bytes d" "\<not> over_limit fs (length (dl_read d))"
        "dl_answer d = Some (Inr (sha (dl_read d)))" "prefix (dl_read d) (chunks_of es)" "dl_audits d = []"
        "\<not> over_limit fs (length (dl_out d))"
      using assms r(1) by (auto simp: download_inv_def)
    show ?thesis
    proof (cases r)
      case (Inl m)
      have "\<exists>x. dl_read d = dl_out d @ held_bytes d @ x" using i(2) by simp
      from catch_inv [OF opened i(1,5,6) this i(7)] r Inl opened show ?thesis by (simp add: conclude_def)
    next
      case (Inr n)
      have "dl_out (enqueue (dl_held d) d) = dl_read d"
        using i(2) by (simp add: enqueue_def held_bytes_def split: option.splits)
      moreover have "dl_read (enqueue (dl_held d) d) = dl_read d" "dl_answer (enqueue (dl_held d) d) = dl_answer d"
          "dl_rpc (enqueue (dl_held d) d) = dl_rpc d"
        by (simp_all add: enqueue_def split: option.splits)
      ultimately show ?thesis using i r Inr opened
        by (simp add: conclude_def download_inv_def)
    qed
  next
    case False
    with r have cancelled: "dl_sink d = Sink_Cancelled" by blast
    with assms have i: "dl_finished d" by (simp add: download_inv_def)
    show ?thesis using assms r cancelled i
      by (cases r) (auto simp: conclude_def catch_download_def fail_download_def download_inv_def)
  qed
qed

lemma inv_later: "download_inv sha fs es d \<Longrightarrow> dl_sink d \<noteq> Sink_Open \<or> dl_ended d \<or> (\<forall>b. e \<noteq> Got_Chunk b) \<Longrightarrow>
    download_inv sha fs (es @ [e]) d"
  by (cases e) (auto simp: download_inv_def chunks_of_snoc intro: prefix_prefix split: sink.splits)

lemma reading_inv:
  assumes "download_inv sha fs es d" and "dl_sink d = Sink_Open" and "\<not> dl_ended d"
  shows "\<not> dl_finished d" "dl_read d = dl_out d @ held_bytes d" "dl_read d = chunks_of es" "dl_audits d = []"
    "dl_answer d = None" "\<not> over_limit fs (length (dl_read d))" "\<not> over_limit fs (length (dl_out d))"
  using assms by (auto simp: download_inv_def)

lemma got_chunk_inv:
  assumes "download_inv sha fs es d" and "dl_sink d = Sink_Open" and "\<not> dl_ended d"
  shows "download_inv sha fs (es @ [Got_Chunk b]) (on_download sha fs (Got_Chunk b) d)"
proof -
  let ?d = "d\<lparr>dl_read := dl_read d @ b\<rparr>"
  note i = reading_inv [OF assms]
  have read: "dl_read d @ b = chunks_of (es @ [Got_Chunk b])" using i(3) by (simp add: chunks_of_snoc)
  show ?thesis
  proof (cases "over_limit fs (length (dl_read d @ b))")
    case True
    have "\<exists>r. dl_read ?d = dl_out ?d @ held_bytes ?d @ r" using i(2) by auto
    moreover have "on_download sha fs (Got_Chunk b) d = catch_download (message (too_large (transfer_max_bytes fs))) ?d"
      using True assms(2,3) by (simp add: Let_def)
    ultimately show ?thesis
      using catch_inv [of ?d "es @ [Got_Chunk b]" fs sha] assms(2) i(1,4,7) read by fastforce
  next
    case False
    have out: "dl_out (enqueue (dl_held d) ?d) = dl_read d"
      using i(2) by (simp add: enqueue_def held_bytes_def split: option.splits)
    have rest: "dl_sink (enqueue (dl_held d) ?d) = Sink_Open" "dl_finished (enqueue (dl_held d) ?d) = False"
        "dl_read (enqueue (dl_held d) ?d) = dl_read d @ b" "dl_ended (enqueue (dl_held d) ?d) = False"
        "dl_answer (enqueue (dl_held d) ?d) = None" "dl_audits (enqueue (dl_held d) ?d) = []"
      using assms(2,3) i by (simp_all add: enqueue_def split: option.splits)
    have "on_download sha fs (Got_Chunk b) d = (enqueue (dl_held d) ?d)\<lparr>dl_held := Some b\<rparr>"
      using False assms(2,3) by (simp add: Let_def)
    then show ?thesis
      using out rest read i(6) False by (simp add: download_inv_def held_bytes_def)
  qed
qed

lemma got_end_inv:
  assumes "download_inv sha fs es d" and "dl_sink d = Sink_Open" and "\<not> dl_ended d"
  shows "download_inv sha fs es (on_download sha fs Got_End d)"
proof -
  note i = reading_inv [OF assms]
  have "prefix (dl_read d) (chunks_of es)" using i(3) by simp
  note i = i this
  have "download_inv sha fs es ((complete_with (Inr (sha (dl_read d))) d)\<lparr>dl_ended := True, dl_rpc := None\<rparr>)"
    unfolding download_inv_def using i(1,4-8) i(2) [symmetric] assms(2) by (simp add: complete_with_def)
  then show ?thesis using assms(2,3) conclude_inv [of sha fs es] by simp
qed

lemma failed_inv:
  assumes "download_inv sha fs es d" and "dl_sink d = Sink_Open"
  shows "download_inv sha fs es (catch_download m d)"
    and "download_inv sha fs es ((fail_download m d)\<lparr>dl_sink := Sink_Cancelled\<rparr>)"
proof -
  have i: "\<not> dl_finished d" "dl_audits d = []" "\<exists>r. dl_read d = dl_out d @ held_bytes d @ r"
      "prefix (dl_read d) (chunks_of es)" "\<not> over_limit fs (length (dl_out d))"
    using assms by (auto simp: download_inv_def)
  show "download_inv sha fs es (catch_download m d)"
    using catch_inv [of d es fs sha] i assms(2) by simp
  show "download_inv sha fs es ((fail_download m d)\<lparr>dl_sink := Sink_Cancelled\<rparr>)"
    using i by (auto simp: download_inv_def fail_download_def complete_with_def)
qed

lemma rpc_inv:
  assumes "download_inv sha fs es d" and "dl_rpc d = None"
  shows "download_inv sha fs es (conclude sha (d\<lparr>dl_rpc := Some r\<rparr>))"
proof -
  have "d\<lparr>dl_rpc := None\<rparr> = d" using assms(2) by simp
  then show ?thesis using conclude_inv [of sha fs es "d\<lparr>dl_rpc := Some r\<rparr>"] assms(1) by simp
qed

lemma on_download_inv:
  assumes "download_inv sha fs es d"
  shows "download_inv sha fs (es @ [e]) (on_download sha fs e d)"
proof (cases e)
  case (Got_Chunk b)
  then show ?thesis using assms got_chunk_inv [OF assms] inv_later [OF assms] by auto
next
  case Got_End
  then show ?thesis using inv_later got_end_inv [OF assms] assms by auto
next
  case (Read_Failed m)
  then show ?thesis using inv_later failed_inv(1) [OF assms] assms by auto
next
  case (Rpc_Answered r)
  then show ?thesis using inv_later rpc_inv [OF assms] assms by auto
next
  case Browser_Left
  then show ?thesis using inv_later failed_inv(2) [OF assms] assms by auto
qed

lemma run_download_inv: "download_inv sha fs es (run_download sha fs es)"
  by (induction es rule: rev_induct)
    (simp_all add: run_download_def new_download_inv on_download_inv)



section \<open>Failed uploads\<close>

lemma grows_trans: "grows x y \<Longrightarrow> grows y z \<Longrightarrow> grows x z"
  by (auto simp: grows_def split: transfer.splits)

lemma evolves_trans: "evolves sha st1 st2 \<Longrightarrow> evolves sha st2 st3 \<Longrightarrow> evolves sha st1 st3"
  unfolding evolves_def by (metis grows_trans)

lemma offer_object: "tr_objects (offer token nid n st) token = Some (Out \<lparr>og_node_id = nid, og_size = n,
    og_claimed = False, og_digest = Waiting, og_stream = Unserved, og_tally = [], og_sent = []\<rparr>)"
  by (simp add: offer_def add_transfer_def put_object_def)

lemma grows_out: "grows (Out t) y \<Longrightarrow> \<exists>u. y = Out u \<and> og_node_id u = og_node_id t \<and> og_size u = og_size t"
  by (auto simp: grows_def split: transfer.splits)

lemma cancelled_out:
  assumes "tr_objects st token = Some (Out t)"
  shows "item (cancel_transfer token m st) token = None"
    and "tr_objects (cancel_transfer token m st) token = Some (Out (t\<lparr>og_digest := fail_with m (og_digest t)\<rparr>))"
  using assms by (simp_all add: cancel_transfer_def item_def put_object_def drop_item_def)

text \<open>C9. An upload that the node refuses or fails is withdrawn: whatever the relay did in the meantime, the
  node can no longer fetch the bytes or ask for their digest, and the digest's promise has settled, as the
  agent's error unless it had before. The caller gets the agent's error, and the failure is audited unless
  the agent called the request itself invalid. An upload over the limit, without a body or for an offline
  node offers nothing.\<close>

theorem failed_upload_withdrawn:
  assumes "file_upload_begin online has_body fs i q n op token st = (st1, begun)"
  shows "case begun of
      Inl e \<Rightarrow> st1 = st \<and> (\<not> online \<or> \<not> has_body \<or> over_limit fs n)
    | Inr req \<Rightarrow> online \<and> has_body \<and> \<not> over_limit fs n
        \<and> (\<forall>sha st2 f. evolves sha st1 st2 \<longrightarrow>
            (case file_upload_end i q n token (Inl f) st2 of (st3, audits, r) \<Rightarrow>
               r = Inl (rf_error f) \<and> (audits = [] \<longleftrightarrow> code (rf_error f) = ''agent_invalid_params'')
               \<and> serve sha token (i_node_id i) st3 = (st3, Inl unknown_transfer)
               \<and> digest_begin token (i_node_id i) st3 = Inl unknown_transfer
               \<and> (\<exists>t u. tr_objects st2 token = Some (Out t) \<and> tr_objects st3 token = Some (Out u)
                   \<and> og_digest u = (if og_digest t = Waiting then Failed_With (message (rf_error f)) else og_digest t))))"
proof (cases begun)
  case (Inl e)
  with assms show ?thesis by (auto simp: file_upload_begin_def split: if_splits)
next
  case (Inr req)
  with assms have st1: "st1 = offer token (i_node_id i) n st" "online" "has_body" "\<not> over_limit fs n"
    by (auto simp: file_upload_begin_def split: if_splits)
  have "case file_upload_end i q n token (Inl f) st2 of (st3, audits, r) \<Rightarrow>
               r = Inl (rf_error f) \<and> (audits = [] \<longleftrightarrow> code (rf_error f) = ''agent_invalid_params'')
               \<and> serve sha token (i_node_id i) st3 = (st3, Inl unknown_transfer)
               \<and> digest_begin token (i_node_id i) st3 = Inl unknown_transfer
               \<and> (\<exists>t u. tr_objects st2 token = Some (Out t) \<and> tr_objects st3 token = Some (Out u)
                   \<and> og_digest u = (if og_digest t = Waiting then Failed_With (message (rf_error f)) else og_digest t))"
    if later: "evolves sha st1 st2" for sha st2 f
  proof -
    obtain y where y: "tr_objects st2 token = Some y" "grows (Out \<lparr>og_node_id = i_node_id i, og_size = n,
        og_claimed = False, og_digest = Waiting, og_stream = Unserved, og_tally = [], og_sent = []\<rparr>) y"
      using later unfolding evolves_def st1(1) using offer_object by metis
    then obtain t where t: "tr_objects st2 token = Some (Out t)" using grows_out by blast
    from cancelled_out [OF t, of "message (rf_error f)"] t show ?thesis
      by (auto simp: file_upload_end_def serve_def digest_begin_def fail_with_def split: deferred.split)
  qed
  then show ?thesis using Inr st1(2-4) by simp
qed

definition disk_full :: rpc_failure where
  "disk_full = \<lparr>rf_error = HttpError 502 ''agent_internal'' ''no space left'' [], rf_conflict = False\<rparr>"

theorem failed_upload_withdrawn_witness:
  "fst (snd (file_upload_end sample_instance \<lparr>uq_path = ''a'', uq_overwrite = False\<rparr> 3 ''k'' (Inl disk_full)
      (offer ''k'' 1 3 no_transfers))) \<noteq> []"
proof -
  let ?q = "\<lparr>uq_path = ''a'', uq_overwrite = False\<rparr>" and ?st = "offer ''k'' 1 3 no_transfers"
  have "file_upload_begin True True default_files_settings sample_instance ?q 3 ''op'' ''k'' no_transfers
      = (?st, Inr (Fs_Upload ''op'' ''k'' ''u1'' 3 ''a'' False))"
    by (simp add: file_upload_begin_def over_limit_def default_files_settings_def sample_instance_def)
  note failed = failed_upload_withdrawn [OF this, unfolded sum.case]
  obtain st3 audits r where ended: "file_upload_end sample_instance ?q 3 ''k'' (Inl disk_full) ?st = (st3, audits, r)"
    by (metis prod_cases3)
  have later: "evolves plain_hash ?st ?st" by (rule evolves_refl) simp
  have "audits = [] \<longleftrightarrow> code (rf_error disk_full) = ''agent_invalid_params''"
    using failed [THEN conjunct2, THEN conjunct2, THEN conjunct2, rule_format, OF later, of disk_full,
        unfolded ended prod.case] by blast
  with ended show ?thesis by (simp add: disk_full_def)
qed

section \<open>Prepared downloads\<close>

text \<open>A prepared download serves what was checked: to the user who asked, within a minute, as one request
  to the instance's node for exactly those paths of that instance, one regular file as it is and
  anything else as an archive; a file known to be over the limit gets no ticket. Nobody else can use the
  ticket.\<close>

theorem prepared_download_served:
  assumes "prepare_file_download agent online fs who now fresh i paths ts = (ts', Inr p)"
    and "now \<le> later" and "later \<le> now + ticket_ms"
  shows "pd_url p = ''/api/v1/files/downloads/'' @ fresh
    \<and> (\<forall>k. pd_size p = Some k \<longrightarrow> \<not> over_limit fs k)
    \<and> (\<exists>t. claim_ticket later fresh who ts' = (ts'(fresh := None), Some t) \<and> tk_node_id t = i_node_id i
        \<and> tk_filename t = pd_filename p
        \<and> request_download t op token = Fs_Download op token (i_uuid i) paths (pd_archive p))
    \<and> (\<forall>other. other \<noteq> who \<longrightarrow> claim_ticket later fresh other ts' = (ts', None))
    \<and> (\<not> pd_archive p \<longrightarrow> length paths \<le> 1 \<and> (\<exists>e. fs_stat agent i (hd paths) = Inr e
        \<and> (fe_type e = Regular_File \<or> fe_type e = Symlink \<and> fe_target_type e = Some Regular_File)))"
proof -
  obtain archive k where shape: "download_shape agent i paths = Inr (archive, k)"
      "\<not> (case k of None \<Rightarrow> False | Some x \<Rightarrow> over_limit fs x)"
    using assms(1) by (auto simp: prepare_file_download_def Let_def split: if_splits sum.splits)
  obtain name where ts': "ts' = issue_ticket now fresh \<lparr>tk_user_id = who, tk_instance_id = i_id i,
        tk_node_id = i_node_id i, tk_filename = name, tk_size = k, tk_archive = archive,
        tk_kind = Files_Ticket (i_uuid i) paths, tk_expires_at = 0\<rparr> ts"
    and p: "p = \<lparr>pd_url = ''/api/v1/files/downloads/'' @ fresh, pd_filename = name, pd_archive = archive, pd_size = k\<rparr>"
    using assms(1) shape by (auto simp: prepare_file_download_def Let_def split: if_splits)
  have "\<not> archive \<Longrightarrow> length paths \<le> 1 \<and> (\<exists>e. fs_stat agent i (hd paths) = Inr e
        \<and> (fe_type e = Regular_File \<or> fe_type e = Symlink \<and> fe_target_type e = Some Regular_File))"
    using shape(1) by (auto simp: download_shape_def then_do_def Let_def split: if_splits sum.splits)
  moreover have "\<forall>x. k = Some x \<longrightarrow> \<not> over_limit fs x" using shape(2) by auto
  moreover have "\<not> now + ticket_ms < later" using assms(3) by simp
  ultimately show ?thesis
    unfolding ts' p by (simp add: claim_ticket_def issue_ticket_def request_download_def)
qed

theorem prepared_download_served_witness:
  "\<exists>t. claim_ticket 50 ''k'' 5 (fst (prepare_file_download
      (\<lambda>r. Inr \<lparr>fe_type = Regular_File, fe_size = 3, fe_target_type = None\<rparr>) True default_files_settings 5 0 ''k''
      sample_instance [''a/b''] Map.empty)) = (Map.empty, Some t) \<and> tk_filename t = ''b''"
proof -
  let ?agent = "\<lambda>r. Inr \<lparr>fe_type = Regular_File, fe_size = 3, fe_target_type = None\<rparr>"
  let ?r = "prepare_file_download ?agent True default_files_settings 5 0 ''k'' sample_instance [''a/b''] Map.empty"
  have "\<exists>p. snd ?r = Inr p \<and> pd_filename p = ''b''"
    by (simp add: prepare_file_download_def download_shape_def fs_stat_def plain_def then_do_def over_limit_def
        default_files_settings_def base_name_def last_slash_def trim_slashes_def Let_def)
  then obtain p where p: "snd ?r = Inr p" "pd_filename p = ''b''" by blast
  have "?r = (fst ?r, Inr p)" using p(1) by (metis prod.collapse)
  from prepared_download_served [OF this, of 50 "[]" "[]"] p(2)
  obtain t where t: "claim_ticket 50 ''k'' 5 (fst ?r) = ((fst ?r)(''k'' := None), Some t)" "tk_filename t = ''b''"
    by (auto simp: ticket_ms_def)
  have "dom (fst ?r) \<subseteq> {''k''}"
    by (auto simp: prepare_file_download_def issue_ticket_def Let_def split: sum.splits if_splits)
  then have "(fst ?r)(''k'' := None) = Map.empty" by (auto simp: fun_eq_iff dom_def)
  with t show ?thesis by auto
qed

section \<open>What is not audited, and rounding\<close>

text \<open>A change the agent reports as failed leaves no entry, deletions and uploads apart.\<close>

lemma failures_unaudited:
  "fst (audited i action info (Inl f)) = []"
  "agent (Fs_Write (i_uuid i) path content sha create) = Inl f \<Longrightarrow>
    fst (fs_write agent byte_length fs i path content sha create) = []"
  by (simp_all add: audited_def fs_write_def)

text \<open>Just below a MiB is written as 1024 KiB.\<close>

lemma format_bytes_rounds_up: "format_bytes 1048575 = string_of_int 1024 @ '' KiB''"
proof -
  have "scale_bytes 1048575 0 = (1048575 / 1024, 1)"
    by (simp add: scale_bytes.simps byte_units_def)
  moreover have "\<lfloor>1048575 / 1024 + 1 / 2 :: rat\<rfloor> = 1024" by (simp add: floor_eq_iff)
  ultimately show ?thesis by (simp add: format_bytes_def to_fixed_0_def byte_units_def)
qed

end
