(* ===== verification/Template_Rows.thy ===== *)
theory Template_Rows
  imports Models
begin

text \<open>
  The templates' rows (server/src/modules/templates/models.ts, service.ts, seed.ts and normalize.ts):
  creating, editing, copying and deleting custom ones, and the seeding of the shipped ones on every start.
  What the database and the schema make of a saved definition when it is read back is the argument
  \<open>column\<close>: a JSON column may order the keys of objects its own way. The ids of the templates that
  instances use are part of the state.
\<close>

section \<open>Rows\<close>

record template_row =
  tr_id :: nat
  tr_slug :: string
  tr_name :: string
  tr_game :: string
  tr_description :: string
  tr_icon :: string
  tr_tags :: "string list"
  tr_builtin :: bool
  tr_revision :: nat
  tr_definition :: template_definition
  tr_created_by :: "nat option"

record template_state =
  ts_rows :: "template_row list"
  ts_next_id :: nat
  ts_used :: "nat list"
  ts_told :: "nat list"

definition apply_definition :: "(template_definition \<Rightarrow> template_definition) \<Rightarrow> template_definition \<Rightarrow>
    template_row \<Rightarrow> template_row" where
  "apply_definition column def t = t\<lparr>tr_slug := td_slug def, tr_name := td_name def, tr_game := td_game def,
     tr_description := td_description def, tr_icon := td_icon def, tr_tags := td_tags def,
     tr_definition := column def\<rparr>"

text \<open>A definition as it was stored: fields that older schemas did not have may be missing.\<close>

record stored_definition =
  sd_rest :: template_definition
  sd_env :: "(string \<times> string) list option"
  sd_volumes :: "template_volume list option"
  sd_container :: "template_container option"
  sd_database :: "template_database option option"

definition or_default :: "'a option \<Rightarrow> 'a \<Rightarrow> 'a" where
  "or_default x d = (case x of Some v \<Rightarrow> v | None \<Rightarrow> d)"

definition normalize_definition :: "(stored_definition \<Rightarrow> template_definition option) \<Rightarrow> stored_definition \<Rightarrow>
    template_definition" where
  "normalize_definition parse raw = (case parse raw of
     Some def \<Rightarrow> def
   | None \<Rightarrow> (sd_rest raw)\<lparr>td_env := or_default (sd_env raw) [], td_volumes := or_default (sd_volumes raw) [],
       td_container := or_default (sd_container raw)
         \<lparr>tc_entrypoint = None, tc_user = None, tc_pull = Pull_Missing, tc_seccomp_unconfined = False\<rparr>,
       td_database := or_default (sd_database raw) None\<rparr>)"

section \<open>Custom templates\<close>

definition get_template :: "nat \<Rightarrow> template_state \<Rightarrow> template_row result" where
  "get_template tid st = (case find (\<lambda>t. tr_id t = tid) (ts_rows st) of
     None \<Rightarrow> Inl (not_found ''Template'') | Some t \<Rightarrow> Inr t)"

definition find_slug :: "string \<Rightarrow> template_state \<Rightarrow> template_row option" where
  "find_slug s st = find (\<lambda>t. tr_slug t = s) (ts_rows st)"

definition assert_slug_free :: "string \<Rightarrow> nat option \<Rightarrow> template_state \<Rightarrow> unit result" where
  "assert_slug_free s self st = (case find_slug s st of
     None \<Rightarrow> Inr ()
   | Some t \<Rightarrow> guard (Some (tr_id t) = self)
       (conflict (''A template with the slug '' @ [CHR 0x22] @ s @ [CHR 0x22] @ '' already exists'')))"

definition new_template :: "(template_definition \<Rightarrow> template_definition) \<Rightarrow> nat \<Rightarrow> template_definition \<Rightarrow> bool \<Rightarrow>
    nat option \<Rightarrow> template_row" where
  "new_template column tid def builtin by_user = apply_definition column def
     \<lparr>tr_id = tid, tr_slug = td_slug def, tr_name = td_name def, tr_game = td_game def, tr_description = [],
      tr_icon = [], tr_tags = [], tr_builtin = builtin, tr_revision = 1, tr_definition = column def,
      tr_created_by = by_user\<rparr>"

definition insert_template :: "template_row \<Rightarrow> template_state \<Rightarrow> template_state" where
  "insert_template t st = st\<lparr>ts_rows := ts_rows st @ [t], ts_next_id := Suc (ts_next_id st)\<rparr>"

definition save_template :: "template_row \<Rightarrow> template_state \<Rightarrow> template_state" where
  "save_template t st = st\<lparr>ts_rows := map (\<lambda>r. if tr_id r = tr_id t then t else r) (ts_rows st)\<rparr>"

definition template_told :: "nat \<Rightarrow> template_state \<Rightarrow> template_state" where
  "template_told tid st = st\<lparr>ts_told := ts_told st @ [tid]\<rparr>"

definition create_template :: "(template_definition \<Rightarrow> template_definition) \<Rightarrow> template_definition \<Rightarrow> nat option \<Rightarrow>
    template_state \<Rightarrow> (template_state \<times> nat) result" where
  "create_template column def by_user st = then_do (assert_slug_free (td_slug def) None st) (\<lambda>_.
     let tid = ts_next_id st in
     Inr (template_told tid (insert_template (new_template column tid def False by_user) st), tid))"

definition update_template :: "(template_definition \<Rightarrow> template_definition) \<Rightarrow> nat \<Rightarrow> template_definition \<Rightarrow>
    template_state \<Rightarrow> template_state result" where
  "update_template column tid def st = then_do (get_template tid st) (\<lambda>t.
     then_do (guard (\<not> tr_builtin t) (conflict ''Built-in templates cannot be edited; copy it instead'')) (\<lambda>_.
     then_do (assert_slug_free (td_slug def) (Some tid) st) (\<lambda>_.
     Inr (template_told tid (save_template
       ((apply_definition column def t)\<lparr>tr_revision := tr_revision t + 1\<rparr>) st)))))"

definition copy_template :: "(template_definition \<Rightarrow> template_definition) \<Rightarrow> nat \<Rightarrow> string \<Rightarrow> string \<Rightarrow> nat option \<Rightarrow>
    template_state \<Rightarrow> (template_state \<times> nat) result" where
  "copy_template column tid slug name by_user st = then_do (get_template tid st) (\<lambda>src.
     then_do (guard (template_slug_re slug) (bad_request ''Invalid slug'')) (\<lambda>_.
     create_template column ((tr_definition src)\<lparr>td_slug := slug, td_name := name\<rparr>) by_user st))"

definition remove_template :: "nat \<Rightarrow> template_state \<Rightarrow> template_state result" where
  "remove_template tid st = then_do (get_template tid st) (\<lambda>t.
     then_do (guard (\<not> tr_builtin t) (conflict ''Built-in templates cannot be deleted'')) (\<lambda>_.
     let used = length (filter (\<lambda>u. u = tid) (ts_used st)) in
     then_do (guard (used = 0) (conflict (string_of_int (int used)
       @ '' instance(s) use this template; delete them first''))) (\<lambda>_.
     Inr (template_told tid (st\<lparr>ts_rows := filter (\<lambda>r. tr_id r \<noteq> tid) (ts_rows st)\<rparr>)))))"

section \<open>The shipped templates\<close>

text \<open>One file, and whether it changed the table. Definitions print the same exactly when they are the
  same, keys in the same order included.\<close>

definition seed_template :: "(template_definition \<Rightarrow> template_definition) \<Rightarrow> template_definition \<Rightarrow> template_state \<Rightarrow>
    template_state \<times> bool" where
  "seed_template column def st = (case find_slug (td_slug def) st of
     None \<Rightarrow> (insert_template (new_template column (ts_next_id st) def True None) st, True)
   | Some t \<Rightarrow>
       if \<not> tr_builtin t then (st, False)
       else if tr_definition t = def then (st, False)
       else (save_template ((apply_definition column def t)\<lparr>tr_revision := tr_revision t + 1\<rparr>) st, True))"

text \<open>The files in the order of their names; one that does not parse is skipped.\<close>

fun seed_templates :: "(template_definition \<Rightarrow> template_definition) \<Rightarrow> template_definition option list \<Rightarrow>
    template_state \<Rightarrow> template_state \<times> nat" where
  "seed_templates column [] st = (st, 0)"
| "seed_templates column (None # fs) st = seed_templates column fs st"
| "seed_templates column (Some def # fs) st = (case seed_template column def st of
     (st1, c) \<Rightarrow> (case seed_templates column fs st1 of (st2, n) \<Rightarrow> (st2, n + (if c then 1 else 0))))"

section \<open>Runs\<close>

text \<open>Between the templates' own operations, instances are made from existing templates and deleted.\<close>

inductive template_step :: "(template_definition \<Rightarrow> template_definition) \<Rightarrow> template_state \<Rightarrow> template_state \<Rightarrow> bool"
  for column where
  tstep_create: "create_template column def u st = Inr (st', tid) \<Longrightarrow> template_step column st st'"
| tstep_update: "update_template column tid def st = Inr st' \<Longrightarrow> template_step column st st'"
| tstep_copy: "copy_template column tid slug name u st = Inr (st', tid') \<Longrightarrow> template_step column st st'"
| tstep_remove: "remove_template tid st = Inr st' \<Longrightarrow> template_step column st st'"
| tstep_seed: "template_step column st (fst (seed_templates column fs st))"
| tstep_use: "get_template tid st = Inr t \<Longrightarrow> template_step column st (st\<lparr>ts_used := tid # ts_used st\<rparr>)"
| tstep_unuse: "template_step column st (st\<lparr>ts_used := remove1 tid (ts_used st)\<rparr>)"

inductive template_reaches :: "(template_definition \<Rightarrow> template_definition) \<Rightarrow> template_state \<Rightarrow> template_state \<Rightarrow> bool"
  for column st where
  treach_refl: "template_reaches column st st"
| treach_step: "template_reaches column st st1 \<Longrightarrow> template_step column st1 st2 \<Longrightarrow> template_reaches column st st2"

section \<open>What every run keeps\<close>

definition copies_match :: "template_row \<Rightarrow> bool" where
  "copies_match t \<longleftrightarrow> tr_slug t = td_slug (tr_definition t) \<and> tr_name t = td_name (tr_definition t)
     \<and> tr_game t = td_game (tr_definition t) \<and> tr_description t = td_description (tr_definition t)
     \<and> tr_icon t = td_icon (tr_definition t) \<and> tr_tags t = td_tags (tr_definition t)"

text \<open>Reading a definition back may reorder the keys of objects, but keeps the fields the row copies.\<close>

definition keeps_fields :: "(template_definition \<Rightarrow> template_definition) \<Rightarrow> bool" where
  "keeps_fields column \<longleftrightarrow> (\<forall>d. td_slug (column d) = td_slug d \<and> td_name (column d) = td_name d
     \<and> td_game (column d) = td_game d \<and> td_description (column d) = td_description d
     \<and> td_icon (column d) = td_icon d \<and> td_tags (column d) = td_tags d)"

definition templates_inv :: "template_state \<Rightarrow> bool" where
  "templates_inv st \<longleftrightarrow> distinct (map tr_id (ts_rows st)) \<and> distinct (map tr_slug (ts_rows st))
     \<and> (\<forall>t\<in>set (ts_rows st). tr_id t < ts_next_id st \<and> copies_match t \<and> 0 < tr_revision t)
     \<and> set (ts_used st) \<subseteq> tr_id ` set (ts_rows st)"

lemma find_slug_None: "find_slug s st = None \<longleftrightarrow> s \<notin> tr_slug ` set (ts_rows st)"
  by (auto simp: find_slug_def find_None_iff)

lemma find_slug_Some: "find_slug s st = Some t \<Longrightarrow> t \<in> set (ts_rows st) \<and> tr_slug t = s"
  by (auto simp: find_slug_def find_Some_iff)

lemma get_template_Inr: "get_template tid st = Inr t \<Longrightarrow> t \<in> set (ts_rows st) \<and> tr_id t = tid"
  by (auto simp: get_template_def find_Some_iff split: option.splits)

lemma apply_simps [simp]:
  "tr_id (apply_definition column def t) = tr_id t" "tr_slug (apply_definition column def t) = td_slug def"
  "tr_builtin (apply_definition column def t) = tr_builtin t"
  "tr_revision (apply_definition column def t) = tr_revision t"
  "tr_definition (apply_definition column def t) = column def"
  by (simp_all add: apply_definition_def)

lemma applied_matches: "keeps_fields column \<Longrightarrow> copies_match (apply_definition column def t)"
  by (simp add: copies_match_def apply_definition_def keeps_fields_def)

lemma revised_matches [simp]: "copies_match (t\<lparr>tr_revision := n\<rparr>) = copies_match t"
  by (simp add: copies_match_def)

lemma new_template_simps [simp]:
  "tr_id (new_template column tid def b u) = tid" "tr_slug (new_template column tid def b u) = td_slug def"
  "tr_builtin (new_template column tid def b u) = b" "tr_revision (new_template column tid def b u) = 1"
  "tr_definition (new_template column tid def b u) = column def"
  by (simp_all add: new_template_def)

lemma new_template_matches: "keeps_fields column \<Longrightarrow> copies_match (new_template column tid def b u)"
  by (simp add: new_template_def applied_matches)

lemma told_simps [simp]: "ts_rows (template_told tid st) = ts_rows st" "ts_next_id (template_told tid st) = ts_next_id st"
  "ts_used (template_told tid st) = ts_used st"
  by (simp_all add: template_told_def)

lemma templates_inv_told [simp]: "templates_inv (template_told tid st) = templates_inv st"
  by (simp add: templates_inv_def)

lemma insert_inv:
  assumes "templates_inv st" "keeps_fields column" "find_slug (td_slug def) st = None"
  shows "templates_inv (insert_template (new_template column (ts_next_id st) def b u) st)"
  using assms by (auto simp: templates_inv_def insert_template_def find_slug_None new_template_matches less_Suc_eq)

lemma save_map_ids: "map tr_id (map (\<lambda>r. if tr_id r = tr_id t then t else r) rows) = map tr_id rows"
  by (induction rows) auto

lemma save_slugs:
  assumes "distinct (map tr_id rows)" "distinct (map tr_slug rows)" "t0 \<in> set rows" "tr_id t = tr_id t0"
    and "\<forall>r\<in>set rows. tr_slug r = tr_slug t \<longrightarrow> r = t0"
  shows "distinct (map tr_slug (map (\<lambda>r. if tr_id r = tr_id t then t else r) rows))"
proof -
  let ?f = "\<lambda>r. if tr_id r = tr_id t then t else r"
  have same: "tr_id r = tr_id t \<longleftrightarrow> r = t0" if "r \<in> set rows" for r
    using assms(1,3,4) that by (metis distinct_map inj_onD)
  have inj: "inj_on tr_slug (set rows)" and "distinct rows" using assms(2) by (simp_all add: distinct_map)
  have "inj_on (tr_slug \<circ> ?f) (set rows)"
  proof (rule inj_onI)
    fix x y assume "x \<in> set rows" "y \<in> set rows" "(tr_slug \<circ> ?f) x = (tr_slug \<circ> ?f) y"
    then have "(if x = t0 then tr_slug t else tr_slug x) = (if y = t0 then tr_slug t else tr_slug y)"
      using same [of x] same [of y] by (cases "x = t0"; cases "y = t0") simp_all
    then show "x = y"
      using assms(5) inj_onD [OF inj] \<open>x \<in> set rows\<close> \<open>y \<in> set rows\<close> by (metis (full_types))
  qed
  with \<open>distinct rows\<close> show ?thesis unfolding map_map by (simp only: distinct_map)
qed

lemma save_inv:
  assumes "templates_inv st" "t0 \<in> set (ts_rows st)" "tr_id t = tr_id t0" "copies_match t" "0 < tr_revision t"
    and "\<forall>r\<in>set (ts_rows st). tr_slug r = tr_slug t \<longrightarrow> r = t0"
  shows "templates_inv (save_template t st)"
proof -
  let ?rows = "map (\<lambda>r. if tr_id r = tr_id t then t else r) (ts_rows st)"
  note i = assms(1) [unfolded templates_inv_def]
  have ids: "map tr_id ?rows = map tr_id (ts_rows st)" by (rule save_map_ids)
  have "distinct (map tr_id ?rows)" unfolding ids using i by blast
  moreover have "distinct (map tr_slug ?rows)" using save_slugs [OF _ _ assms(2,3,6)] i by blast
  moreover have "tr_id t < ts_next_id st" using i assms(2,3) by metis
  then have "\<forall>r\<in>set ?rows. tr_id r < ts_next_id st \<and> copies_match r \<and> 0 < tr_revision r"
    using i assms(4,5) by auto
  moreover have "tr_id ` set ?rows = tr_id ` set (ts_rows st)" using ids by (metis set_map)
  then have "set (ts_used st) \<subseteq> tr_id ` set ?rows" using i by simp
  moreover have "ts_rows (save_template t st) = ?rows" "ts_next_id (save_template t st) = ts_next_id st"
      "ts_used (save_template t st) = ts_used st"
    by (simp_all add: save_template_def)
  ultimately show ?thesis unfolding templates_inv_def by presburger
qed

lemma revise_inv:
  assumes "templates_inv st" "t \<in> set (ts_rows st)" "keeps_fields column"
    and "\<forall>r\<in>set (ts_rows st). tr_slug r = td_slug def \<longrightarrow> r = t"
  shows "templates_inv (save_template ((apply_definition column def t)\<lparr>tr_revision := tr_revision t + 1\<rparr>) st)"
  by (rule save_inv [OF assms(1,2)]) (use assms(4) applied_matches [OF assms(3)] in simp_all)

lemma seed_inv:
  assumes "keeps_fields column" "templates_inv st"
  shows "templates_inv (fst (seed_template column def st))"
proof (cases "find_slug (td_slug def) st")
  case None
  then show ?thesis using insert_inv [OF assms(2,1)] by (simp add: seed_template_def)
next
  case (Some t)
  from find_slug_Some [OF Some] have t: "t \<in> set (ts_rows st)" "tr_slug t = td_slug def" by auto
  have "\<forall>r\<in>set (ts_rows st). tr_slug r = td_slug def \<longrightarrow> r = t"
    using assms(2) t by (auto simp: templates_inv_def distinct_map inj_on_def)
  then have "templates_inv (save_template ((apply_definition column def t)\<lparr>tr_revision := tr_revision t + 1\<rparr>) st)"
    using revise_inv [OF assms(2) t(1) assms(1)] by blast
  then show ?thesis using Some assms(2) by (simp add: seed_template_def)
qed

lemma seeds_inv: "keeps_fields column \<Longrightarrow> templates_inv st \<Longrightarrow> templates_inv (fst (seed_templates column fs st))"
proof (induction column fs st rule: seed_templates.induct)
  case (3 column def fs st)
  then show ?case using seed_inv [OF 3(2,3), of def] by (cases "seed_template column def st") (auto split: prod.splits)
qed simp_all

lemma create_keeps:
  assumes "keeps_fields column" "templates_inv st" "create_template column def u st = Inr (st', tid)"
  shows "templates_inv st'"
proof -
  have "find_slug (td_slug def) st = None"
    using assms(3) by (auto simp: create_template_def assert_slug_free_def then_do_def guard_def split: option.splits if_splits)
  from insert_inv [OF assms(2,1) this] assms(3) show ?thesis
    by (auto simp: create_template_def then_do_def Let_def split: sum.splits)
qed

lemma slug_free_self:
  assumes "templates_inv st" "assert_slug_free s (Some tid) st = Inr u" "t \<in> set (ts_rows st)" "tr_id t = tid"
  shows "\<forall>r\<in>set (ts_rows st). tr_slug r = s \<longrightarrow> r = t"
proof (intro ballI impI)
  fix r assume r: "r \<in> set (ts_rows st)" "tr_slug r = s"
  then obtain x where x: "find_slug s st = Some x" using find_slug_None [of s st] by fastforce
  with assms(2) have "tr_id x = tid" by (auto simp: assert_slug_free_def guard_def split: if_splits)
  moreover note find_slug_Some [OF x]
  ultimately have "x = t" "x = r"
    using assms(1,3,4) r by (auto simp: templates_inv_def distinct_map inj_on_def)
  then show "r = t" by simp
qed

lemma template_step_inv:
  assumes "template_step column st st'" "keeps_fields column" "templates_inv st"
  shows "templates_inv st'"
  using assms(1)
proof cases
  case (tstep_create def u tid)
  then show ?thesis using create_keeps assms(2,3) by blast
next
  case (tstep_update tid def)
  then obtain t u where t: "get_template tid st = Inr t" "assert_slug_free (td_slug def) (Some tid) st = Inr u"
    and st': "st' = template_told tid (save_template ((apply_definition column def t)\<lparr>tr_revision := tr_revision t + 1\<rparr>) st)"
    by (auto simp: update_template_def then_do_def split: sum.splits)
  note row = get_template_Inr [OF t(1)]
  have "\<forall>r\<in>set (ts_rows st). tr_slug r = td_slug def \<longrightarrow> r = t"
    using slug_free_self [OF assms(3) t(2)] row by blast
  then show ?thesis
    using revise_inv [OF assms(3) _ assms(2)] row unfolding st' templates_inv_told by blast
next
  case (tstep_copy tid slug name u tid')
  then obtain d where "create_template column d u st = Inr (st', tid')"
    by (auto simp: copy_template_def then_do_def split: sum.splits)
  then show ?thesis using create_keeps assms(2,3) by blast
next
  case (tstep_remove tid)
  then have unused: "tid \<notin> set (ts_used st)"
    and st': "st' = template_told tid (st\<lparr>ts_rows := filter (\<lambda>r. tr_id r \<noteq> tid) (ts_rows st)\<rparr>)"
    by (auto simp: remove_template_def then_do_def guard_def Let_def filter_empty_conv split: sum.splits if_splits)
  then show ?thesis using assms(3) unfolding st'
    by (auto simp: templates_inv_def distinct_map_filter)
next
  case (tstep_seed fs)
  then show ?thesis using seeds_inv assms(2,3) by blast
next
  case (tstep_use tid t)
  then show ?thesis using assms(3) get_template_Inr by (fastforce simp: templates_inv_def)
next
  case (tstep_unuse tid)
  then show ?thesis using assms(3) set_remove1_subset [of tid "ts_used st"] by (auto simp: templates_inv_def)
qed

section \<open>How rows change\<close>

text \<open>A row keeps its id, its kind and its author; whatever else changes gets a higher revision.\<close>

definition revised :: "template_row \<Rightarrow> template_row \<Rightarrow> bool" where
  "revised t t' \<longleftrightarrow> tr_id t' = tr_id t \<and> tr_builtin t' = tr_builtin t \<and> tr_created_by t' = tr_created_by t
     \<and> tr_revision t \<le> tr_revision t' \<and> (tr_revision t' = tr_revision t \<longrightarrow> t' = t)"

definition templates_evolve :: "template_state \<Rightarrow> template_state \<Rightarrow> bool" where
  "templates_evolve st st' \<longleftrightarrow> ts_next_id st \<le> ts_next_id st'
     \<and> (\<forall>t'\<in>set (ts_rows st'). tr_id t' < ts_next_id st \<longrightarrow> (\<exists>t\<in>set (ts_rows st). revised t t'))
     \<and> (\<forall>t\<in>set (ts_rows st). tr_builtin t \<longrightarrow> (\<exists>t'\<in>set (ts_rows st'). revised t t'))"

lemma revised_refl [simp]: "revised t t"
  by (simp add: revised_def)

lemma revised_trans: "revised a b \<Longrightarrow> revised b c \<Longrightarrow> revised a c"
  by (auto simp: revised_def)

lemma evolve_same_rows: "ts_rows st' = ts_rows st \<Longrightarrow> ts_next_id st' = ts_next_id st \<Longrightarrow> templates_evolve st st'"
  by (auto simp: templates_evolve_def intro: revised_refl)

lemma evolve_trans:
  assumes "templates_evolve a b" "templates_evolve b c"
  shows "templates_evolve a c"
  unfolding templates_evolve_def
proof (intro conjI ballI impI)
  show "ts_next_id a \<le> ts_next_id c" using assms by (auto simp: templates_evolve_def)
next
  fix t assume t: "t \<in> set (ts_rows c)" "tr_id t < ts_next_id a"
  then have "tr_id t < ts_next_id b" using assms(1) by (simp add: templates_evolve_def)
  then obtain u where u: "u \<in> set (ts_rows b)" "revised u t" using assms(2) t(1) unfolding templates_evolve_def by blast
  then have "tr_id u < ts_next_id a" using t(2) by (simp add: revised_def)
  then obtain v where "v \<in> set (ts_rows a)" "revised v u" using assms(1) u(1) unfolding templates_evolve_def by blast
  then show "\<exists>v\<in>set (ts_rows a). revised v t" using u(2) revised_trans by blast
next
  fix t assume t: "t \<in> set (ts_rows a)" "tr_builtin t"
  then obtain u where u: "u \<in> set (ts_rows b)" "revised t u" using assms(1) unfolding templates_evolve_def by blast
  then have "tr_builtin u" using t(2) by (simp add: revised_def)
  then obtain v where "v \<in> set (ts_rows c)" "revised u v" using assms(2) u(1) unfolding templates_evolve_def by blast
  then show "\<exists>v\<in>set (ts_rows c). revised t v" using u(2) revised_trans by blast
qed

lemma evolve_insert: "tr_id t = ts_next_id st \<Longrightarrow> templates_evolve st (insert_template t st)"
  by (auto simp: templates_evolve_def insert_template_def intro: revised_refl)

lemma evolve_save:
  assumes "distinct (map tr_id (ts_rows st))" "t0 \<in> set (ts_rows st)" "revised t0 t"
  shows "templates_evolve st (save_template t st)"
proof -
  have id: "tr_id t = tr_id t0" using assms(3) by (simp add: revised_def)
  have same: "r = t0" if "r \<in> set (ts_rows st)" "tr_id r = tr_id t" for r
    using assms(1,2) that unfolding id by (metis distinct_map inj_onD)
  have "\<exists>u\<in>set (ts_rows st). revised u t'" if "t' \<in> set (ts_rows (save_template t st))" for t'
  proof (cases "t' = t")
    case True
    then show ?thesis using assms(2,3) by blast
  next
    case False
    then have "t' \<in> set (ts_rows st)" using that by (auto simp: save_template_def split: if_splits)
    then show ?thesis using revised_refl by blast
  qed
  moreover have "\<exists>u\<in>set (ts_rows (save_template t st)). revised r u" if r: "r \<in> set (ts_rows st)" for r
  proof (cases "tr_id r = tr_id t")
    case True
    have "t \<in> set (ts_rows (save_template t st))"
      unfolding save_template_def using r True by (auto intro!: image_eqI [of _ _ r])
    then show ?thesis using assms(3) same [OF r True] by blast
  next
    case False
    then have "r \<in> set (ts_rows (save_template t st))"
      unfolding save_template_def using r by (auto intro!: image_eqI [of _ _ r])
    then show ?thesis using revised_refl by blast
  qed
  moreover have "ts_next_id (save_template t st) = ts_next_id st" by (simp add: save_template_def)
  ultimately show ?thesis unfolding templates_evolve_def by simp
qed

lemma revised_apply: "revised t ((apply_definition column def t)\<lparr>tr_revision := tr_revision t + 1\<rparr>)"
  by (simp add: revised_def apply_definition_def)

lemma evolve_told: "templates_evolve st st' \<Longrightarrow> templates_evolve st (template_told tid st')"
  by (simp add: templates_evolve_def)

lemma seed_evolves: "templates_inv st \<Longrightarrow> templates_evolve st (fst (seed_template column def st))"
  using evolve_save [OF _ _ revised_apply] find_slug_Some [of "td_slug def" st]
  by (auto simp: seed_template_def templates_inv_def evolve_insert evolve_same_rows split: option.split)

lemma seeds_evolve: "keeps_fields column \<Longrightarrow> templates_inv st \<Longrightarrow> templates_evolve st (fst (seed_templates column fs st))"
proof (induction column fs st rule: seed_templates.induct)
  case (3 column def fs st)
  have "templates_evolve (fst (seed_template column def st)) (fst (seed_templates column fs (fst (seed_template column def st))))"
    using 3 seed_inv by (metis prod.collapse)
  then have "templates_evolve st (fst (seed_templates column fs (fst (seed_template column def st))))"
    using evolve_trans seed_evolves [OF 3(3)] by blast
  then show ?case by (simp split: prod.split add: split_def)
qed (simp_all add: evolve_same_rows)

lemma create_evolves: "create_template column def u st = Inr (st', tid) \<Longrightarrow> templates_evolve st st'"
  by (auto simp: create_template_def then_do_def Let_def split: sum.splits intro!: evolve_told evolve_insert)

lemma template_step_evolves:
  assumes "template_step column st st'" "keeps_fields column" "templates_inv st"
  shows "templates_evolve st st'"
  using assms(1)
proof cases
  case (tstep_create def u tid)
  then show ?thesis by (rule create_evolves)
next
  case (tstep_update tid def)
  then obtain t where t: "get_template tid st = Inr t"
    and st': "st' = template_told tid (save_template ((apply_definition column def t)\<lparr>tr_revision := tr_revision t + 1\<rparr>) st)"
    by (auto simp: update_template_def then_do_def split: sum.splits)
  show ?thesis unfolding st'
    using evolve_told evolve_save [OF _ _ revised_apply] get_template_Inr [OF t] assms(3)
    by (simp add: templates_inv_def)
next
  case (tstep_copy tid slug name u tid')
  then show ?thesis using create_evolves by (auto simp: copy_template_def then_do_def split: sum.splits)
next
  case (tstep_remove tid)
  then obtain t where t: "get_template tid st = Inr t" "\<not> tr_builtin t"
    and st': "st' = template_told tid (st\<lparr>ts_rows := filter (\<lambda>r. tr_id r \<noteq> tid) (ts_rows st)\<rparr>)"
    by (auto simp: remove_template_def then_do_def guard_def Let_def split: sum.splits if_splits)
  have "tr_id r \<noteq> tid" if "r \<in> set (ts_rows st)" "tr_builtin r" for r
    using that t(2) get_template_Inr [OF t(1)] assms(3) by (auto simp: templates_inv_def distinct_map dest: inj_onD)
  then show ?thesis unfolding st' templates_evolve_def by (auto intro: revised_refl)
next
  case (tstep_seed fs)
  then show ?thesis using seeds_evolve assms(2,3) by blast
qed (simp_all add: evolve_same_rows)

text \<open>C15. Over any run of creating, editing, copying, deleting, seeding and using templates: ids and slugs stay
  unique, the searchable columns match the definition, every template an instance uses exists, built-in
  templates stay, ids are not reused, and a row that is not as it was has a higher revision.\<close>

theorem templates_kept:
  assumes "template_reaches column st st'" and "keeps_fields column" and "templates_inv st"
  shows "templates_inv st' \<and> templates_evolve st st'"
  using assms(1)
proof induction
  case treach_refl
  then show ?case using assms(3) by (simp add: evolve_same_rows)
next
  case (treach_step st1 st2)
  then show ?case
    using template_step_inv [OF _ assms(2)] template_step_evolves [OF _ assms(2)] evolve_trans by blast
qed

definition no_templates :: template_state where
  "no_templates = \<lparr>ts_rows = [], ts_next_id = 1, ts_used = [], ts_told = []\<rparr>"

lemma no_templates_inv: "templates_inv no_templates"
  by (simp add: templates_inv_def no_templates_def)

theorem templates_kept_witness:
  "length (ts_rows (fst (seed_templates (\<lambda>d. d) [None, Some sample_template] no_templates))) = 1
    \<and> templates_inv (fst (seed_templates (\<lambda>d. d) [None, Some sample_template] no_templates))"
proof
  show "templates_inv (fst (seed_templates (\<lambda>d. d) [None, Some sample_template] no_templates))"
    by (rule templates_kept [OF treach_step [OF treach_refl tstep_seed] _ no_templates_inv, THEN conjunct1])
      (simp add: keeps_fields_def)
  show "length (ts_rows (fst (seed_templates (\<lambda>d. d) [None, Some sample_template] no_templates))) = 1"
    by (simp add: seed_template_def find_slug_def no_templates_def insert_template_def)
qed

section \<open>Seeding again\<close>

text \<open>The row under a shipped slug is a custom one or has the shipped definition.\<close>

definition settled :: "template_definition \<Rightarrow> template_state \<Rightarrow> bool" where
  "settled def st \<longleftrightarrow> (\<exists>t. find_slug (td_slug def) st = Some t \<and> (\<not> tr_builtin t \<or> tr_definition t = def))"

definition shipped :: "template_definition option list \<Rightarrow> template_definition list" where
  "shipped fs = concat (map (\<lambda>f. case f of Some def \<Rightarrow> [def] | None \<Rightarrow> []) fs)"

lemma shipped_simps [simp]: "shipped [] = []" "shipped (None # fs) = shipped fs"
  "shipped (Some d # fs) = d # shipped fs"
  by (simp_all add: shipped_def)

lemma seed_settled: "settled def st \<Longrightarrow> seed_template column def st = (st, False)"
  by (auto simp: settled_def seed_template_def)

lemma seeds_settled: "\<forall>d\<in>set (shipped fs). settled d st \<Longrightarrow> seed_templates column fs st = (st, 0)"
proof (induction column fs st rule: seed_templates.induct)
  case (3 column def fs st)
  then have "seed_template column def st = (st, False)" by (simp add: seed_settled)
  moreover have "seed_templates column fs st = (st, 0)" using 3 calculation by (metis list.set_intros(2) shipped_simps(3))
  ultimately show ?case by simp
qed simp_all

lemma find_slug_saved:
  assumes "templates_inv st" "find_slug s st = Some t0" "tr_id t = tr_id t0" "tr_slug t = s"
  shows "find_slug s' (save_template t st) = (if s' = s then Some t else find_slug s' st)"
proof -
  have t0: "t0 \<in> set (ts_rows st)" "tr_slug t0 = s" using find_slug_Some [OF assms(2)] by auto
  have same: "r = t0" if "r \<in> set (ts_rows st)" "tr_id r = tr_id t \<or> tr_slug r = s" for r
    using assms(1,3) that t0 unfolding templates_inv_def by (metis distinct_map inj_onD)
  have "find (\<lambda>r. tr_slug r = s') (map (\<lambda>r. if tr_id r = tr_id t then t else r) rows)
      = (if s' = s then (if t0 \<in> set rows then Some t else None) else find (\<lambda>r. tr_slug r = s') rows)"
    if "set rows \<subseteq> set (ts_rows st)" for rows
    using that
  proof (induction rows)
    case (Cons r rows)
    show ?case
    proof (cases "r = t0")
      case True
      then show ?thesis using Cons assms(3,4) t0(2) by auto
    next
      case False
      then have "tr_id r \<noteq> tr_id t" "tr_slug r \<noteq> s" using same Cons.prems by auto
      then show ?thesis using Cons False by auto
    qed
  qed simp
  from this [of "ts_rows st"] t0(1) show ?thesis by (simp add: find_slug_def save_template_def)
qed

lemma find_slug_inserted:
  "find_slug s (insert_template t st) = (case find_slug s st of Some x \<Rightarrow> Some x | None \<Rightarrow> if tr_slug t = s then Some t else None)"
proof -
  have "find P (xs @ [t]) = (case find P xs of Some x \<Rightarrow> Some x | None \<Rightarrow> if P t then Some t else None)" for P xs
    by (induction xs) auto
  then show ?thesis by (simp add: find_slug_def insert_template_def)
qed

lemma seed_settles:
  assumes "templates_inv st" "column def = def"
  shows "settled def (fst (seed_template column def st))"
proof (cases "find_slug (td_slug def) st")
  case None
  then show ?thesis using assms(2) by (simp add: seed_template_def settled_def find_slug_inserted)
next
  case (Some t)
  let ?t = "(apply_definition column def t)\<lparr>tr_revision := tr_revision t + 1\<rparr>"
  have "find_slug (td_slug def) (save_template ?t st) = Some ?t"
    using find_slug_saved [OF assms(1) Some, of ?t] by simp
  then show ?thesis using Some assms(2) by (simp add: seed_template_def settled_def)
qed

lemma seed_keeps_settled:
  assumes "templates_inv st" "settled d st" "td_slug d \<noteq> td_slug def"
  shows "settled d (fst (seed_template column def st))"
proof (cases "find_slug (td_slug def) st")
  case None
  then show ?thesis using assms(2) by (auto simp: seed_template_def settled_def find_slug_inserted)
next
  case (Some t)
  let ?t = "(apply_definition column def t)\<lparr>tr_revision := tr_revision t + 1\<rparr>"
  have "find_slug (td_slug d) (save_template ?t st) = find_slug (td_slug d) st"
    using find_slug_saved [OF assms(1) Some, of ?t] assms(3) by simp
  then show ?thesis using Some assms(2) by (simp add: seed_template_def settled_def)
qed

lemma seeds_keep_settled:
  assumes "keeps_fields column"
  shows "templates_inv st \<Longrightarrow> settled d st \<Longrightarrow> td_slug d \<notin> td_slug ` set (shipped fs) \<Longrightarrow>
    settled d (fst (seed_templates column fs st))"
  using assms
proof (induction column fs st rule: seed_templates.induct)
  case (3 column def fs st)
  then have "settled d (fst (seed_template column def st))" by (simp add: seed_keeps_settled)
  with 3 have "settled d (fst (seed_templates column fs (fst (seed_template column def st))))"
    using seed_inv by (metis image_insert insertCI list.simps(15) prod.collapse shipped_simps(3))
  then show ?case by (simp add: split_def)
qed simp_all

lemma seeds_settle:
  "keeps_fields column \<Longrightarrow> templates_inv st \<Longrightarrow> distinct (map td_slug (shipped fs)) \<Longrightarrow>
    \<forall>d\<in>set (shipped fs). column d = d \<Longrightarrow> \<forall>d\<in>set (shipped fs). settled d (fst (seed_templates column fs st))"
proof (induction column fs st rule: seed_templates.induct)
  case (3 column def fs st)
  let ?st = "fst (seed_template column def st)"
  have inv: "templates_inv ?st" using seed_inv [OF 3(2,3)] .
  have "\<forall>d\<in>set (shipped fs). settled d (fst (seed_templates column fs ?st))"
    using 3(1) [OF prod.collapse 3(2) inv] 3(4,5) by simp
  moreover have "settled def (fst (seed_templates column fs ?st))"
    using seeds_keep_settled [OF 3(2) inv seed_settles [OF 3(3)]] 3(4,5) by simp
  ultimately show ?case by (simp add: split_def)
qed simp_all

text \<open>C34. Starting again with the same shipped templates changes nothing, whatever the table held before:
  each is there under its slug, or a custom template has it. This needs that a definition reads back as
  it was saved, keys in the same order included.\<close>

theorem seeding_settles:
  assumes "templates_inv st" and "keeps_fields column" and "distinct (map td_slug (shipped fs))"
    and "\<forall>d\<in>set (shipped fs). column d = d"
  shows "(let st' = fst (seed_templates column fs st) in seed_templates column fs st' = (st', 0)
    \<and> (\<forall>d\<in>set (shipped fs). \<exists>t. find_slug (td_slug d) st' = Some t \<and> (\<not> tr_builtin t \<or> tr_definition t = d)))"
  using seeds_settle [OF assms(2,1,3,4)] seeds_settled [of fs "fst (seed_templates column fs st)" column]
  by (simp add: settled_def Let_def)

theorem seeding_settles_witness:
  "seed_templates (\<lambda>d. d) [None, Some sample_template] (fst (seed_templates (\<lambda>d. d) [None, Some sample_template] no_templates))
    = (fst (seed_templates (\<lambda>d. d) [None, Some sample_template] no_templates), 0)"
proof -
  have "keeps_fields (\<lambda>d. d)" by (simp add: keeps_fields_def)
  from seeding_settles [OF no_templates_inv this, of "[None, Some sample_template]"]
  show ?thesis unfolding Let_def by simp
qed

text \<open>A database whose JSON columns order keys their own way breaks it: with MySQL's order, which puts shorter
  keys first, a template with a configuration file whose keys are in another order is updated, and its
  revision raised, on every start.\<close>

definition shorter_keys_first :: "template_definition \<Rightarrow> template_definition" where
  "shorter_keys_first d = d\<lparr>td_env := sort_key (length \<circ> fst) (td_env d),
     td_files := map (\<lambda>f. f\<lparr>cf_values := sort_key (length \<circ> fst) (cf_values f)\<rparr>) (td_files d)\<rparr>"

lemma shorter_keys_keep_fields: "keeps_fields shorter_keys_first"
  by (simp add: keeps_fields_def shorter_keys_first_def)

lemma reordered_revised_every_start:
  assumes "templates_inv st" "find_slug (td_slug d) st = Some t" "tr_builtin t" "tr_definition t = column d" "column d \<noteq> d"
  shows "\<exists>st'. seed_template column d st = (st', True)
    \<and> find_slug (td_slug d) st' = Some ((apply_definition column d t)\<lparr>tr_revision := tr_revision t + 1\<rparr>)"
proof -
  let ?t = "(apply_definition column d t)\<lparr>tr_revision := tr_revision t + 1\<rparr>"
  have "find_slug (td_slug d) (save_template ?t st) = Some ?t"
    using find_slug_saved [OF assms(1,2), of ?t] by simp
  then show ?thesis using assms(2-5) by (simp add: seed_template_def)
qed

lemma longer_key_first_reordered:
  "shorter_keys_first (d\<lparr>td_files := [\<lparr>cf_path = q, cf_format = fmt, cf_values = [(''database'', x), (''user'', y)]\<rparr>]\<rparr>)
    \<noteq> d\<lparr>td_files := [\<lparr>cf_path = q, cf_format = fmt, cf_values = [(''database'', x), (''user'', y)]\<rparr>]\<rparr>"
proof
  let ?d = "d\<lparr>td_files := [\<lparr>cf_path = q, cf_format = fmt, cf_values = [(''database'', x), (''user'', y)]\<rparr>]\<rparr>"
  assume "shorter_keys_first ?d = ?d"
  then have "td_files (shorter_keys_first ?d) = td_files ?d" by simp
  then show False by (simp add: shorter_keys_first_def)
qed

end
