(* ===== verification/Version_Sources.thy ===== *)
theory Version_Sources
  imports Models "HOL-Library.Multiset"
begin

text \<open>
  Version lists and download URLs for installs (server/src/modules/templates/versions.ts): what is fetched
  over HTTP is the argument of the definitions, together with when; parsing Maven's metadata, the options
  for Forge, NeoForge and Steam branches, the cache of upstream answers and the install resolvers are
  modelled. \<open>to_iso\<close> is the text of a date, \<open>number\<close> what \<open>Number\<close> makes of a text.
\<close>

section \<open>Options and the cache\<close>

record version_option =
  vo_id :: string
  vo_label :: string
  vo_kind :: string
  vo_released_at :: "string option"

definition cache_ms :: int where "cache_ms = 600000"

definition upstream_error :: "string \<Rightarrow> string \<Rightarrow> http_error" where
  "upstream_error what m = HttpError 502 ''upstream_unavailable'' (''Could not reach '' @ what @ '': '' @ m) []"

type_synonym 'a upstream_cache = "string \<rightharpoonup> int \<times> 'a"

text \<open>\<open>now\<close> is when it is asked, \<open>later\<close> when the load, if one is needed, has ended.\<close>

definition cached :: "int \<Rightarrow> int \<Rightarrow> string \<Rightarrow> 'a result \<Rightarrow> 'a upstream_cache \<Rightarrow> 'a upstream_cache \<times> 'a result" where
  "cached now later k loaded c =
     (case (case c k of Some (t, v) \<Rightarrow> if now - t < cache_ms then Some v else None | None \<Rightarrow> None) of
        Some v \<Rightarrow> (c, Inr v)
      | None \<Rightarrow> (case loaded of Inl e \<Rightarrow> (c, Inl e) | Inr v \<Rightarrow> (c(k \<mapsto> (later, v)), Inr v)))"

section \<open>Mojang\<close>

record mojang_version =
  mj_id :: string
  mj_type :: string
  mj_url :: string
  mj_released :: string

record mojang_manifest =
  mm_latest_release :: string
  mm_versions :: "mojang_version list"

definition vanilla_options :: "mojang_manifest \<Rightarrow> version_option list" where
  "vanilla_options m = map (\<lambda>v. \<lparr>vo_id = mj_id v,
     vo_label = mj_id v @ (if mj_id v = mm_latest_release m then '' (latest release)'' else []),
     vo_kind = mj_type v, vo_released_at = Some (mj_released v)\<rparr>) (mm_versions m)"

text \<open>\<open>vars.NAME\<close>, missing or empty being the same to the code.\<close>

definition var :: "(string \<times> string) list \<Rightarrow> string \<Rightarrow> string option" where
  "var vars n = truthy (map_of vars n)"

text \<open>\<open>detail\<close>: the server download (URL and SHA-1) in a version's metadata, if it has one.\<close>

definition resolve_vanilla :: "mojang_manifest result \<Rightarrow> (string \<Rightarrow> (string \<times> string) option result) \<Rightarrow>
    (string \<times> string) list \<Rightarrow> (string \<times> string) list result" where
  "resolve_vanilla manifest detail vars = (case var vars ''MC_VERSION'' of
     None \<Rightarrow> Inl (bad_request ''MC_VERSION is required'')
   | Some version \<Rightarrow> then_do manifest (\<lambda>m.
       case find (\<lambda>v. mj_id v = version) (mm_versions m) of
         None \<Rightarrow> Inl (bad_request (''Unknown Minecraft version '' @ version))
       | Some e \<Rightarrow> then_do (detail (mj_url e)) (\<lambda>server. case server of
           None \<Rightarrow> Inl (bad_request (''Minecraft '' @ version @ '' has no server download''))
         | Some (url, sha1) \<Rightarrow> Inr [(''SERVER_JAR_URL'', url), (''SERVER_JAR_SHA1'', sha1)])))"

section \<open>Maven\<close>

definition open_tag :: string where "open_tag = ''<version>''"
definition close_tag :: string where "close_tag = ''</version>''"

text \<open>The global match of \<open><version>([^<]+)</version>\<close>: what was captured, and what follows a match at the
  start of the text.\<close>

definition version_here :: "string \<Rightarrow> (string \<times> string) option" where
  "version_here s = (if \<not> prefix open_tag s then None
     else let r = drop (length open_tag) s; v = takeWhile (\<lambda>c. c \<noteq> CHR ''<'') r; r' = drop (length v) r in
       if v \<noteq> [] \<and> prefix close_tag r' then Some (v, drop (length close_tag) r') else None)"

lemma version_here_shorter: "version_here s = Some (v, r) \<Longrightarrow> length r < length s"
proof -
  assume "version_here s = Some (v, r)"
  then have "prefix open_tag s" and r: "r = drop (length close_tag) (drop (length v) (drop (length open_tag) s))"
    by (auto simp: version_here_def Let_def split: if_splits)
  then have "9 \<le> length s" using prefix_length_le [of open_tag s] by (simp add: open_tag_def)
  then show "length r < length s" unfolding r by (simp add: close_tag_def)
qed

function parse_maven_versions :: "string \<Rightarrow> string list" where
  "parse_maven_versions [] = []"
| "parse_maven_versions (x # xs) = (case version_here (x # xs) of
     Some (v, r) \<Rightarrow> js_trim v # parse_maven_versions r
   | None \<Rightarrow> parse_maven_versions xs)"
  by pat_completeness auto

termination
  by (relation "measure length") (auto dest: version_here_shorter)

section \<open>Forge and NeoForge\<close>

definition forge_options :: "string list \<Rightarrow> (string \<times> string) list \<Rightarrow> string \<Rightarrow> version_option list" where
  "forge_options all_versions promos mc =
     (let pre = mc @ ''-''; recommended = map_of promos (mc @ ''-recommended''); newest = map_of promos (mc @ ''-latest'');
          loaders = rev (map (drop (length pre)) (filter (prefix pre) all_versions)) in
      map (\<lambda>v. let kind = (if Some v = recommended then ''recommended'' else if Some v = newest then ''latest'' else ''release'')
        in \<lparr>vo_id = v, vo_label = v @ (if kind = ''release'' then [] else '' ('' @ kind @ '')''), vo_kind = kind,
            vo_released_at = None\<rparr>) loaders)"

definition pick_minecraft_first :: http_error where
  "pick_minecraft_first = bad_request ''Pick a Minecraft version first''"

definition forge_versions :: "string result \<Rightarrow> (string \<times> string) list result \<Rightarrow> string option \<Rightarrow>
    version_option list result" where
  "forge_versions xml promos mc = (case truthy mc of
     None \<Rightarrow> Inl pick_minecraft_first
   | Some m \<Rightarrow> then_do xml (\<lambda>x. then_do promos (\<lambda>ps. Inr (forge_options (parse_maven_versions x) ps m))))"

text \<open>\<open>/^[A-Za-z0-9._-]+$/\<close>\<close>

definition version_text :: "string \<Rightarrow> bool" where
  "version_text v \<longleftrightarrow> v \<noteq> [] \<and> list_all (\<lambda>c. is_alnum c \<or> c \<in> set ''._-'') v"

definition forge_maven :: string where
  "forge_maven = ''https://maven.minecraftforge.net/net/minecraftforge/forge''"

definition neoforge_maven :: string where
  "neoforge_maven = ''https://maven.neoforged.net/releases/net/neoforged/neoforge''"

definition installer_url :: "string \<Rightarrow> string \<Rightarrow> string \<Rightarrow> string" where
  "installer_url maven n v = maven @ ''/'' @ v @ ''/'' @ n @ ''-'' @ v @ ''-installer.jar''"

definition resolve_forge :: "(string \<times> string) list \<Rightarrow> (string \<times> string) list result" where
  "resolve_forge vars = (case (var vars ''MC_VERSION'', var vars ''LOADER_VERSION'') of
     (Some mc, Some loader) \<Rightarrow>
       if \<not> version_text mc \<or> \<not> version_text loader then Inl (bad_request ''Invalid version'')
       else Inr [(''INSTALLER_URL'', installer_url forge_maven ''forge'' (mc @ ''-'' @ loader))]
   | _ \<Rightarrow> Inl (bad_request ''MC_VERSION and LOADER_VERSION are required''))"

text \<open>\<open>/^1\.(\d+)(?:\.(\d+))?$/\<close> and the prefix made of its groups.\<close>

definition neoforge_prefix :: "string \<Rightarrow> string option" where
  "neoforge_prefix mc = (if \<not> prefix ''1.'' mc then None
     else let r = drop 2 mc; a = takeWhile is_digit r; r' = drop (length a) r in
       if a = [] then None
       else if r' = [] then Some (a @ ''.0'')
       else if hd r' = CHR ''.'' \<and> tl r' \<noteq> [] \<and> list_all is_digit (tl r') then Some (a @ ''.'' @ tl r')
       else None)"

definition neoforge_options :: "string list \<Rightarrow> string \<Rightarrow> version_option list" where
  "neoforge_options all_versions mc = (case neoforge_prefix mc of
     None \<Rightarrow> []
   | Some pre \<Rightarrow> map (\<lambda>(k, v). let beta = sublist ''beta'' v in
       \<lparr>vo_id = v, vo_label = v @ (if k = 0 then '' (latest)'' else []),
        vo_kind = (if beta then ''beta'' else if k = 0 then ''latest'' else ''release''), vo_released_at = None\<rparr>)
       (List.enumerate 0 (rev (filter (prefix (pre @ ''.'')) all_versions))))"

definition neoforge_versions :: "string result \<Rightarrow> string option \<Rightarrow> version_option list result" where
  "neoforge_versions xml mc = (case truthy mc of
     None \<Rightarrow> Inl pick_minecraft_first
   | Some m \<Rightarrow> then_do xml (\<lambda>x. Inr (neoforge_options (parse_maven_versions x) m)))"

definition resolve_neoforge :: "(string \<times> string) list \<Rightarrow> (string \<times> string) list result" where
  "resolve_neoforge vars = (case var vars ''LOADER_VERSION'' of
     None \<Rightarrow> Inl (bad_request ''LOADER_VERSION is required'')
   | Some v \<Rightarrow> if \<not> version_text v then Inl (bad_request ''Invalid version'')
       else Inr [(''INSTALLER_URL'', installer_url neoforge_maven ''neoforge'' v)])"

section \<open>Steam\<close>

datatype password_flag = No_Flag | Flag_Text string | Flag_Number int | Flag_Bool bool

record steam_branch =
  sb_buildid :: "string option"
  sb_description :: "string option"
  sb_password :: password_flag
  sb_time_build :: "string option"
  sb_time :: "string option"

text \<open>\<open>!b.pwdrequired || b.pwdrequired === "0" || b.pwdrequired === 0\<close>\<close>

fun is_open_branch :: "password_flag \<Rightarrow> bool" where
  "is_open_branch No_Flag = True"
| "is_open_branch (Flag_Text s) = (s = [] \<or> s = ''0'')"
| "is_open_branch (Flag_Number n) = (n = 0)"
| "is_open_branch (Flag_Bool b) = (\<not> b)"

definition branch_time :: "(string \<Rightarrow> int) \<Rightarrow> steam_branch \<Rightarrow> int" where
  "branch_time number b = (case sb_time_build b of
     Some s \<Rightarrow> number s | None \<Rightarrow> (case sb_time b of Some s \<Rightarrow> number s | None \<Rightarrow> 0))"

definition branch_rank :: "string \<Rightarrow> nat" where
  "branch_rank n = (if n = ''public'' then 0 else if n = ''latest_experimental'' then 1 else 2)"

definition public_label :: "(string \<times> steam_branch) list \<Rightarrow> string" where
  "public_label branches =
     (let open_ones = filter (\<lambda>(n, b). is_open_branch (sb_password b)) branches in
      case Option.bind (map_of branches ''public'') (\<lambda>p. truthy (sb_buildid p)) of
        None \<Rightarrow> ''stable''
      | Some build \<Rightarrow> (case find (\<lambda>(n, b). n \<noteq> ''public'' \<and> sb_buildid b = Some build \<and> truthy (sb_description b) \<noteq> None) open_ones of
          Some (n, b) \<Rightarrow> (case sb_description b of Some d \<Rightarrow> d | None \<Rightarrow> ''stable'')
        | None \<Rightarrow> ''stable''))"

text \<open>The branches in the order in which the object lists them. The sort is stable, by rank and then newest
  first: as two stable sorts.\<close>

definition steam_branch_options :: "(string \<Rightarrow> int) \<Rightarrow> (int \<Rightarrow> string) \<Rightarrow> (string \<times> steam_branch) list \<Rightarrow>
    version_option list" where
  "steam_branch_options number to_iso branches =
     map (\<lambda>(n, b). \<lparr>vo_id = n,
        vo_label = (if n = ''public'' then ''public ('' @ public_label branches @ '')''
          else case truthy (sb_description b) of Some d \<Rightarrow> n @ '' ('' @ d @ '')'' | None \<Rightarrow> n),
        vo_kind = (if n = ''public'' then ''release'' else if n = ''latest_experimental'' then ''experimental'' else ''old''),
        vo_released_at = (if branch_time number b = 0 then None else Some (to_iso (branch_time number b * 1000)))\<rparr>)
       (sort_key (\<lambda>(n, b). branch_rank n) (sort_key (\<lambda>(n, b). - branch_time number b)
         (filter (\<lambda>(n, b). is_open_branch (sb_password b)) branches)))"

definition plain_option :: "string \<Rightarrow> string \<Rightarrow> string \<Rightarrow> version_option" where
  "plain_option n label kind = \<lparr>vo_id = n, vo_label = label, vo_kind = kind, vo_released_at = None\<rparr>"

definition steam_fallback :: "string \<Rightarrow> version_option list" where
  "steam_fallback app = plain_option ''public'' ''public (stable)'' ''release'' #
     (if app = ''4020'' then [plain_option ''x86-64'' ''x86-64 (64-bit binaries)'' ''old'']
      else [plain_option ''latest_experimental'' ''latest_experimental (unstable)'' ''experimental''])"

text \<open>\<open>answer\<close>: the branches in the answer, if it has any.\<close>

definition steam_versions :: "(string \<Rightarrow> int) \<Rightarrow> (int \<Rightarrow> string) \<Rightarrow> string \<Rightarrow> (string \<times> steam_branch) list option result \<Rightarrow>
    version_option list" where
  "steam_versions number to_iso app answer = (case answer of
     Inr (Some branches) \<Rightarrow> steam_branch_options number to_iso branches
   | _ \<Rightarrow> steam_fallback app)"

section \<open>What the rest of the server calls\<close>

datatype version_source = Minecraft_Vanilla | Minecraft_Forge | Minecraft_Neoforge | Steam_App string

record upstreams =
  up_mojang :: "mojang_manifest result"
  up_forge_maven :: "string result"
  up_forge_promos :: "(string \<times> string) list result"
  up_neoforge_maven :: "string result"
  up_steam :: "string \<Rightarrow> (string \<times> steam_branch) list option result"

definition list_versions :: "(string \<Rightarrow> int) \<Rightarrow> (int \<Rightarrow> string) \<Rightarrow> upstreams \<Rightarrow> version_source \<Rightarrow> string option \<Rightarrow>
    version_option list result" where
  "list_versions number to_iso up source parent = (case source of
     Minecraft_Vanilla \<Rightarrow> then_do (up_mojang up) (\<lambda>m. Inr (vanilla_options m))
   | Minecraft_Forge \<Rightarrow> forge_versions (up_forge_maven up) (up_forge_promos up) parent
   | Minecraft_Neoforge \<Rightarrow> neoforge_versions (up_neoforge_maven up) parent
   | Steam_App app \<Rightarrow> Inr (steam_versions number to_iso app (up_steam up app)))"

datatype install_resolver = Resolve_Vanilla | Resolve_Forge | Resolve_Neoforge

definition resolve_install :: "upstreams \<Rightarrow> (string \<Rightarrow> (string \<times> string) option result) \<Rightarrow> install_resolver option \<Rightarrow>
    (string \<times> string) list \<Rightarrow> (string \<times> string) list result" where
  "resolve_install up detail r vars = (case r of
     None \<Rightarrow> Inr []
   | Some Resolve_Vanilla \<Rightarrow> resolve_vanilla (up_mojang up) detail vars
   | Some Resolve_Forge \<Rightarrow> resolve_forge vars
   | Some Resolve_Neoforge \<Rightarrow> resolve_neoforge vars)"

section \<open>The cache\<close>

lemma cached_fresh:
  assumes "cached now later k loaded c = (c', Inr v)"
  shows "loaded = Inr v \<and> c' = c(k \<mapsto> (later, v)) \<or> c' = c \<and> (\<exists>t. c k = Some (t, v) \<and> now < t + cache_ms)"
  using assms by (auto simp: cached_def split: option.splits sum.splits if_splits)

lemma cached_error: "cached now later k loaded c = (c', Inl e) \<Longrightarrow> c' = c \<and> loaded = Inl e"
  by (auto simp: cached_def split: option.splits sum.splits if_splits)

section \<open>Maven's metadata reads back\<close>

lemma version_here_tag:
  assumes "v \<noteq> []" "CHR ''<'' \<notin> set v"
  shows "version_here (open_tag @ v @ close_tag @ r) = Some (v, r)"
proof -
  have "takeWhile (\<lambda>c. c \<noteq> CHR ''<'') (v @ close_tag @ r) = v"
    using assms(2) by (auto simp: takeWhile_append close_tag_def)
  then show ?thesis using assms(1) by (simp add: version_here_def Let_def)
qed

lemma version_here_other: "c \<noteq> CHR ''<'' \<Longrightarrow> version_here (c # s) = None"
  by (simp add: version_here_def open_tag_def)

lemma skip_text: "CHR ''<'' \<notin> set w \<Longrightarrow> parse_maven_versions (w @ s) = parse_maven_versions s"
  by (induction w) (auto simp: version_here_other)

lemma parse_tag:
  assumes "v \<noteq> []" "CHR ''<'' \<notin> set v"
  shows "parse_maven_versions (open_tag @ v @ close_tag @ r) = js_trim v # parse_maven_versions r"
proof -
  obtain x xs where "open_tag @ v @ close_tag @ r = x # xs" by (simp add: open_tag_def)
  with version_here_tag [OF assms, of r] show ?thesis by simp
qed

definition maven_entry :: "string \<times> string \<Rightarrow> string" where
  "maven_entry = (\<lambda>(space, v). space @ open_tag @ v @ close_tag)"

lemma maven_round_trip:
  assumes "\<forall>(w, v)\<in>set es. CHR ''<'' \<notin> set w \<and> v \<noteq> [] \<and> CHR ''<'' \<notin> set v \<and> js_trim v = v" and "CHR ''<'' \<notin> set w'"
  shows "parse_maven_versions (concat (map maven_entry es) @ w') = map snd es"
  using assms(1)
proof (induction es)
  case Nil
  then show ?case using skip_text [OF assms(2), of "[]"] by simp
next
  case (Cons e es)
  then show ?case by (cases e) (simp add: maven_entry_def skip_text parse_tag)
qed

section \<open>Steam branches\<close>

lemma sorted_two_keys:
  fixes f :: "'a \<Rightarrow> nat" and g :: "'a \<Rightarrow> int"
  assumes "i < j" "j < length (sort_key f (sort_key g xs))"
  shows "f (sort_key f (sort_key g xs) ! i) < f (sort_key f (sort_key g xs) ! j)
    \<or> f (sort_key f (sort_key g xs) ! i) = f (sort_key f (sort_key g xs) ! j)
      \<and> g (sort_key f (sort_key g xs) ! i) \<le> g (sort_key f (sort_key g xs) ! j)"
proof -
  let ?ys = "sort_key f (sort_key g xs)"
  have le: "f (?ys ! i) \<le> f (?ys ! j)"
    using sorted_nth_mono [of "map f ?ys" i j] assms by simp
  moreover have "g (?ys ! i) \<le> g (?ys ! j)" if same: "f (?ys ! i) = f (?ys ! j)"
  proof -
    let ?P = "\<lambda>x. f x = f (?ys ! j)"
    have stable: "filter ?P ?ys = filter ?P (sort_key g xs)" by (rule sort_key_stable)
    have "filter ?P ?ys = filter ?P (take (Suc i) ?ys) @ filter ?P (drop (Suc i) ?ys)"
      by (metis append_take_drop_id filter_append)
    moreover have "take (Suc i) ?ys = take i ?ys @ [?ys ! i]" using assms by (simp add: take_Suc_conv_app_nth)
    moreover have "?ys ! j \<in> set (filter ?P (drop (Suc i) ?ys))"
    proof -
      have "?ys ! j = drop (Suc i) ?ys ! (j - Suc i)" using assms by simp
      moreover have "j - Suc i < length (drop (Suc i) ?ys)" using assms by simp
      ultimately have "?ys ! j \<in> set (drop (Suc i) ?ys)" by (metis nth_mem)
      then show ?thesis by simp
    qed
    ultimately obtain as where as: "filter ?P ?ys = as @ ?ys ! i # filter ?P (drop (Suc i) ?ys)"
        "?ys ! j \<in> set (filter ?P (drop (Suc i) ?ys))"
      using same by auto
    have "sorted (map g (filter ?P (sort_key g xs)))"
      by (rule sorted_filter) simp
    then have "sorted (map g (filter ?P ?ys))" unfolding stable .
    then show ?thesis unfolding as(1) using as(2) by (auto simp: sorted_append)
  qed
  ultimately show ?thesis by linarith
qed

text \<open>An app's branches are offered once each, those behind a password excepted: public first,
  \<open>latest_experimental\<close> next, the rest newest first. When Steam's list cannot be read the standing branches
  are offered instead.\<close>

theorem steam_branches_offered:
  fixes number to_iso
  defines "open_ones branches \<equiv> filter (\<lambda>(n, b). is_open_branch (sb_password b)) branches"
  shows "\<exists>bs. mset bs = mset (open_ones branches)
    \<and> map vo_id (steam_branch_options number to_iso branches) = map fst bs
    \<and> (\<forall>j < length bs. \<forall>i < j. branch_rank (fst (bs ! i)) < branch_rank (fst (bs ! j))
        \<or> branch_rank (fst (bs ! i)) = branch_rank (fst (bs ! j))
          \<and> branch_time number (snd (bs ! j)) \<le> branch_time number (snd (bs ! i)))
    \<and> (\<forall>app e. steam_versions number to_iso app (Inl e) = steam_fallback app
        \<and> vo_id (hd (steam_fallback app)) = ''public'')"
proof -
  let ?f = "\<lambda>(n, b :: steam_branch). branch_rank n" and ?g = "\<lambda>(n :: string, b). - branch_time number b"
  let ?bs = "sort_key ?f (sort_key ?g (open_ones branches))"
  have "mset ?bs = mset (open_ones branches)" by simp
  moreover have "map vo_id (steam_branch_options number to_iso branches) = map fst ?bs"
    by (simp add: steam_branch_options_def open_ones_def comp_def split_def)
  moreover have "branch_rank (fst (?bs ! i)) < branch_rank (fst (?bs ! j))
        \<or> branch_rank (fst (?bs ! i)) = branch_rank (fst (?bs ! j))
          \<and> branch_time number (snd (?bs ! j)) \<le> branch_time number (snd (?bs ! i))"
    if "i < j" "j < length ?bs" for i j
    using sorted_two_keys [OF that] by (auto simp: split_def)
  moreover have "steam_versions number to_iso app (Inl e) = steam_fallback app \<and> vo_id (hd (steam_fallback app)) = ''public''"
    for app e by (simp add: steam_versions_def steam_fallback_def plain_option_def)
  ultimately show ?thesis by (intro exI [of _ ?bs]) blast
qed

definition branch :: "string \<Rightarrow> steam_branch" where
  "branch t = \<lparr>sb_buildid = None, sb_description = None, sb_password = No_Flag, sb_time_build = Some t, sb_time = None\<rparr>"

theorem steam_branches_offered_witness:
  "\<exists>bs. mset bs = mset [(''old'', branch ''1''), (''public'', branch ''2'')] \<and>
    map vo_id (steam_branch_options (\<lambda>s. int (nat_of_digits s)) (\<lambda>t. [])
      [(''old'', branch ''1''), (''public'', branch ''2''), (''secret'', (branch ''3'')\<lparr>sb_password := Flag_Text ''1''\<rparr>)])
    = map fst bs"
  using steam_branches_offered [of "[(''old'', branch ''1''), (''public'', branch ''2''),
    (''secret'', (branch ''3'')\<lparr>sb_password := Flag_Text ''1''\<rparr>)]" "\<lambda>s. int (nat_of_digits s)" "\<lambda>t. []"]
  by (auto simp: branch_def)

section \<open>Installer URLs\<close>

text \<open>A version in an installer's URL holds no slash, so it cannot name another artifact; but two dots pass as a
  version, and NeoForge's resolver does not look at the Minecraft version at all.\<close>

lemma version_text_no_slash: "version_text v \<Longrightarrow> CHR ''/'' \<notin> set v"
  by (auto simp: version_text_def list_all_iff is_alnum_def is_digit_def is_lower_def is_upper_def)

lemma installer_versions:
  "resolve_forge vars = Inr r \<Longrightarrow> \<exists>v. r = [(''INSTALLER_URL'', installer_url forge_maven ''forge'' v)] \<and> CHR ''/'' \<notin> set v"
  "resolve_neoforge vars = Inr r \<Longrightarrow> \<exists>v. r = [(''INSTALLER_URL'', installer_url neoforge_maven ''neoforge'' v)] \<and> CHR ''/'' \<notin> set v"
proof -
  assume "resolve_forge vars = Inr r"
  then obtain mc loader where v: "version_text mc" "version_text loader"
      "r = [(''INSTALLER_URL'', installer_url forge_maven ''forge'' (mc @ ''-'' @ loader))]"
    by (auto simp: resolve_forge_def split: option.splits if_splits)
  then show "\<exists>v. r = [(''INSTALLER_URL'', installer_url forge_maven ''forge'' v)] \<and> CHR ''/'' \<notin> set v"
    using version_text_no_slash by (intro exI [of _ "mc @ ''-'' @ loader"]) auto
qed (auto simp: resolve_neoforge_def split: option.splits if_splits dest: version_text_no_slash)

lemma neoforge_ignores_minecraft:
  "map_of vars ''LOADER_VERSION'' = map_of vars' ''LOADER_VERSION'' \<Longrightarrow> resolve_neoforge vars = resolve_neoforge vars'"
  by (simp add: resolve_neoforge_def var_def)

lemma beta_called_latest:
  assumes "neoforge_prefix mc = Some pre" "filter (prefix (pre @ ''.'')) vs = ws @ [v]"
  shows "vo_label (hd (neoforge_options vs mc)) = v @ '' (latest)''"
  using assms by (simp add: neoforge_options_def Let_def)

end
