(* ===== verification/Settings.thy ===== *)
theory Settings
  imports Prelude
begin

text \<open>
  The settings (server/src/modules/settings/service.ts and routes.ts, shared/src/api/settings.ts): values by
  key in a table, read through a cache of fifteen seconds, and the routes that show and save them with
  passwords masked. A read that is not answered from the cache waits for the database, so it is two steps;
  so is a save. \<open>parse\<close> is the schema of a key, \<open>fallback\<close> its default.
\<close>

section \<open>The cache\<close>

record 'v settings =
  sg_rows :: "string \<rightharpoonup> 'v"
  sg_cache :: "string \<rightharpoonup> 'v \<times> int"

definition settings_cache_ms :: int where "settings_cache_ms = 15000"

definition setting_value :: "(string \<Rightarrow> 'v \<Rightarrow> 'v option) \<Rightarrow> (string \<Rightarrow> 'v) \<Rightarrow> string \<Rightarrow> 'v option \<Rightarrow> 'v" where
  "setting_value parse fallback k row = (case Option.bind row (parse k) of Some v \<Rightarrow> v | None \<Rightarrow> fallback k)"

definition cached_setting :: "int \<Rightarrow> string \<Rightarrow> 'v settings \<Rightarrow> 'v option" where
  "cached_setting now k st = (case sg_cache st k of
     Some (v, t) \<Rightarrow> if now - t < settings_cache_ms then Some v else None | None \<Rightarrow> None)"

text \<open>The answer from the cache, or the row that was read.\<close>

definition get_setting_begin :: "int \<Rightarrow> string \<Rightarrow> 'v settings \<Rightarrow> 'v + 'v option" where
  "get_setting_begin now k st = (case cached_setting now k st of Some v \<Rightarrow> Inl v | None \<Rightarrow> Inr (sg_rows st k))"

definition get_setting_end :: "(string \<Rightarrow> 'v \<Rightarrow> 'v option) \<Rightarrow> (string \<Rightarrow> 'v) \<Rightarrow> int \<Rightarrow> string \<Rightarrow> 'v option \<Rightarrow>
    'v settings \<Rightarrow> 'v settings \<times> 'v" where
  "get_setting_end parse fallback now k row st = (let v = setting_value parse fallback k row in
     (st\<lparr>sg_cache := (sg_cache st)(k \<mapsto> (v, now))\<rparr>, v))"

text \<open>With nothing in between.\<close>

definition get_setting :: "(string \<Rightarrow> 'v \<Rightarrow> 'v option) \<Rightarrow> (string \<Rightarrow> 'v) \<Rightarrow> int \<Rightarrow> int \<Rightarrow> string \<Rightarrow> 'v settings \<Rightarrow>
    'v settings \<times> 'v" where
  "get_setting parse fallback now later k st = (case get_setting_begin now k st of
     Inl v \<Rightarrow> (st, v) | Inr row \<Rightarrow> get_setting_end parse fallback later k row st)"

definition upsert_setting :: "string \<Rightarrow> 'v \<Rightarrow> 'v settings \<Rightarrow> 'v settings" where
  "upsert_setting k v st = st\<lparr>sg_rows := (sg_rows st)(k \<mapsto> v)\<rparr>"

definition set_setting_end :: "int \<Rightarrow> string \<Rightarrow> 'v \<Rightarrow> 'v settings \<Rightarrow> 'v settings" where
  "set_setting_end now k v st = st\<lparr>sg_cache := (sg_cache st)(k \<mapsto> (v, now))\<rparr>"

definition set_setting :: "int \<Rightarrow> string \<Rightarrow> 'v \<Rightarrow> 'v settings \<Rightarrow> 'v settings" where
  "set_setting now k v st = set_setting_end now k v (upsert_setting k v st)"

section \<open>What is kept\<close>

record general_settings =
  ge_site_name :: string
  ge_offline_after_seconds :: nat
  ge_image_registry :: string
  ge_console_history_lines :: nat

definition default_general :: general_settings where
  "default_general = \<lparr>ge_site_name = ''Ionnet GSM'', ge_offline_after_seconds = 100,
     ge_image_registry = ''ghcr.io/ionnet-dev'', ge_console_history_lines = 1000\<rparr>"

definition general_ok :: "general_settings \<Rightarrow> bool" where
  "general_ok g \<longleftrightarrow> len_between 1 80 (ge_site_name g) \<and> 30 \<le> ge_offline_after_seconds g
     \<and> ge_offline_after_seconds g \<le> 86400 \<and> length (ge_image_registry g) \<le> 200
     \<and> 100 \<le> ge_console_history_lines g \<and> ge_console_history_lines g \<le> 10000"

record history_settings =
  hi_audit_days :: nat
  hi_backups_per_instance :: nat

definition default_history :: history_settings where
  "default_history = \<lparr>hi_audit_days = 0, hi_backups_per_instance = 0\<rparr>"

definition history_ok :: "history_settings \<Rightarrow> bool" where
  "history_ok h \<longleftrightarrow> hi_audit_days h \<le> 3650 \<and> hi_backups_per_instance h \<le> 1000"

record smtp_settings =
  sm_host :: string
  sm_port :: nat
  sm_secure :: bool
  sm_user :: string
  sm_password :: string
  sm_from :: string

definition default_smtp :: smtp_settings where
  "default_smtp = \<lparr>sm_host = [], sm_port = 587, sm_secure = False, sm_user = [], sm_password = [], sm_from = []\<rparr>"

record registry_credentials =
  rg_server :: string
  rg_username :: string
  rg_password :: string

text \<open>What counts as credentials: a row with a server and a user name.\<close>

definition registry_of :: "registry_credentials option \<Rightarrow> registry_credentials option" where
  "registry_of row = (case row of
     Some v \<Rightarrow> if rg_server v \<noteq> [] \<and> rg_username v \<noteq> [] then Some v else None | None \<Rightarrow> None)"

section \<open>Showing and saving\<close>

text \<open>Eight bullets, as UTF-8.\<close>

definition mask :: string where
  "mask = concat (replicate 8 [CHR 0xE2, CHR 0x80, CHR 0xA2])"

definition shown_smtp :: "smtp_settings \<Rightarrow> smtp_settings" where
  "shown_smtp s = s\<lparr>sm_password := (if sm_password s \<noteq> [] then mask else [])\<rparr>"

definition shown_registry :: "registry_credentials option \<Rightarrow> registry_credentials" where
  "shown_registry r = (case r of
     Some v \<Rightarrow> v\<lparr>rg_password := mask\<rparr> | None \<Rightarrow> \<lparr>rg_server = [], rg_username = [], rg_password = []\<rparr>)"

text \<open>The value to save, for a body and what is stored.\<close>

definition saved_smtp :: "smtp_settings \<Rightarrow> smtp_settings \<Rightarrow> smtp_settings" where
  "saved_smtp current body = (if sm_password body = mask then body\<lparr>sm_password := sm_password current\<rparr> else body)"

definition registry_body_ok :: "registry_credentials \<Rightarrow> bool" where
  "registry_body_ok b \<longleftrightarrow> length (rg_server b) \<le> 200 \<and> length (rg_username b) \<le> 200 \<and> length (rg_password b) \<le> 500"

definition saved_registry :: "registry_credentials option \<Rightarrow> registry_credentials \<Rightarrow> registry_credentials option" where
  "saved_registry current body =
     (let b = (case current of
          Some c \<Rightarrow> if rg_password body = mask then body\<lparr>rg_password := rg_password c\<rparr> else body
        | None \<Rightarrow> body) in
      if rg_server b \<noteq> [] \<and> rg_username b \<noteq> [] then Some b else None)"

section \<open>Reads and saves, one after another\<close>

text \<open>Values that are saved have passed their schema, and read back as they are.\<close>

inductive settings_reach :: "(string \<Rightarrow> 'v \<Rightarrow> 'v option) \<Rightarrow> (string \<Rightarrow> 'v) \<Rightarrow> 'v settings \<Rightarrow> bool"
  for parse fallback where
sreach_start: "settings_reach parse fallback \<lparr>sg_rows = rows, sg_cache = Map.empty\<rparr>"
| sreach_get: "settings_reach parse fallback st \<Longrightarrow>
    settings_reach parse fallback (fst (get_setting parse fallback now later k st))"
| sreach_set: "settings_reach parse fallback st \<Longrightarrow> parse k v = Some v \<Longrightarrow>
    settings_reach parse fallback (set_setting now k v st)"

lemma coherent:
  assumes "settings_reach parse fallback st"
  shows "sg_cache st k = Some (v, t) \<Longrightarrow> v = setting_value parse fallback k (sg_rows st k)"
  using assms
proof (induction arbitrary: k v t)
  case (sreach_get st now later k')
  then show ?case
    by (cases "get_setting_begin now k' st")
      (auto simp: get_setting_def get_setting_begin_def get_setting_end_def Let_def split: option.splits if_splits)
next
  case (sreach_set st k' w now)
  then show ?case
    by (auto simp: set_setting_def set_setting_end_def upsert_setting_def setting_value_def split: if_splits)
qed simp

text \<open>As long as reads and saves do not overlap, the cache is never stale: a read gives what the table
  holds, as the schema reads it, and so what was saved last.\<close>

theorem settings_read_what_was_saved:
  assumes "settings_reach parse fallback st"
  shows "snd (get_setting parse fallback now later k st) = setting_value parse fallback k (sg_rows st k)
    \<and> (\<forall>w. parse k w = Some w \<longrightarrow> snd (get_setting parse fallback now later k (set_setting saved k w st)) = w)"
proof -
  have get: "snd (get_setting parse fallback now later k s) = setting_value parse fallback k (sg_rows s k)"
    if "settings_reach parse fallback s" for s
    using coherent [OF that, of k]
    by (auto simp: get_setting_def get_setting_begin_def get_setting_end_def cached_setting_def Let_def
        split: option.splits prod.splits if_splits)
  show ?thesis
  proof (intro conjI allI impI)
    fix w assume w: "parse k w = Some w"
    then show "snd (get_setting parse fallback now later k (set_setting saved k w st)) = w"
      using get [OF sreach_set [OF assms w], of saved]
      by (simp add: set_setting_def set_setting_end_def upsert_setting_def setting_value_def)
  qed (rule get [OF assms])
qed

theorem settings_read_what_was_saved_witness:
  "snd (get_setting (\<lambda>k v. Some v) (\<lambda>k. 0) 5 6 ''files''
      (set_setting 4 ''files'' (3 :: nat) \<lparr>sg_rows = Map.empty, sg_cache = Map.empty\<rparr>)) = 3"
  using settings_read_what_was_saved [OF sreach_start [of "\<lambda>k v. Some v" "\<lambda>k. 0 :: nat" Map.empty]] by blast

text \<open>A read that overlaps a save may put the old value back into the cache, where it is served for up to
  fifteen seconds.\<close>

lemma overlapping_read_stale:
  fixes st :: "'v settings"
  assumes "get_setting_begin t0 k st = Inr row" and "t < t2 + settings_cache_ms"
    and "v = setting_value parse fallback k row"
  shows "get_setting_begin t k (fst (get_setting_end parse fallback t2 k row (set_setting t1 k w st))) = Inl v"
  using assms by (simp add: get_setting_begin_def cached_setting_def get_setting_end_def Let_def)

lemma stale_until:
  assumes "cached_setting now k st = Some v"
  shows "\<exists>t. sg_cache st k = Some (v, t) \<and> now < t + settings_cache_ms"
  using assms by (auto simp: cached_setting_def split: option.splits prod.splits if_splits)

section \<open>Masked passwords\<close>

lemma mask_nonempty [simp]: "mask \<noteq> []"
  by (simp add: mask_def)

text \<open>What the settings page shows holds no password, and saving the page as it was shown changes
  nothing: not the mail settings, and not the registry's credentials.\<close>

theorem shown_settings_save_back:
  "sm_password (shown_smtp s) \<in> {mask, []} \<and> saved_smtp s (shown_smtp s) = s
    \<and> rg_password (shown_registry (registry_of row)) \<in> {mask, []}
    \<and> saved_registry (registry_of row) (shown_registry (registry_of row)) = registry_of row"
proof -
  have "saved_smtp s (shown_smtp s) = s"
    by (cases "sm_password s = []") (simp_all add: saved_smtp_def shown_smtp_def)
  moreover have "saved_registry (registry_of row) (shown_registry (registry_of row)) = registry_of row"
    by (cases row) (auto simp: registry_of_def saved_registry_def shown_registry_def Let_def)
  moreover have "rg_password (shown_registry (registry_of row)) \<in> {mask, []}"
    by (simp add: shown_registry_def split: option.split)
  ultimately show ?thesis by (simp add: shown_smtp_def)
qed

text \<open>The mask itself becomes the password when there were no credentials; and a kept password goes wherever
  the new settings point.\<close>

lemma mask_saved_as_password:
  "rg_server b \<noteq> [] \<Longrightarrow> rg_username b \<noteq> [] \<Longrightarrow> rg_password b = mask \<Longrightarrow> saved_registry None b = Some b"
  by (simp add: saved_registry_def)

lemma kept_password_moves:
  "saved_smtp s ((shown_smtp s)\<lparr>sm_host := h\<rparr>) = s\<lparr>sm_host := h\<rparr>"
  by (cases "sm_password s = []") (simp_all add: saved_smtp_def shown_smtp_def)

end
