(* ===== verification/Firewall.thy ===== *)
theory Firewall
  imports Panel
begin

text \<open>
  The nodes' firewalls (server/src/modules/firewall/service.ts, and \<open>firewallDto\<close> of
  modules/instances/service.ts): an owner opens or closes an instance's ports, and opened ports follow
  when the ports change. Both wait for the agent's answer to \<open>fw.apply\<close>, so they are two steps on the
  panel; the agent makes its rules for the key exactly the ports of the request.
\<close>

section \<open>Requests and answers\<close>

record fw_request =
  fq_node :: nat
  fq_key :: string
  fq_ports :: "(int \<times> port_protocol) list"

definition fw_ports :: "instance_port list \<Rightarrow> (int \<times> port_protocol) list" where
  "fw_ports ps = concat (map (\<lambda>q. map (\<lambda>pr. (al_port q, pr))
     (if al_protocol q = Both then [Tcp, Udp] else [al_protocol q])) ps)"

definition fw_request_for :: "panel \<Rightarrow> instance_row \<Rightarrow> bool \<Rightarrow> fw_request" where
  "fw_request_for p i open_it = \<lparr>fq_node = i_node_id i, fq_key = ''instance:'' @ i_uuid i,
     fq_ports = (if open_it then fw_ports (ports_of (p_store p) (i_id i)) else [])\<rparr>"

text \<open>Only marked open when something is open now.\<close>

definition fw_applied :: "int \<Rightarrow> nat \<Rightarrow> bool \<Rightarrow> firewall_rule list \<Rightarrow> panel \<Rightarrow> panel" where
  "fw_applied now iid open_it rules = change_instances (map (\<lambda>i. if i_id i = iid
     then i\<lparr>i_firewall := (if open_it \<and> (\<exists>r\<in>set rules. fr_state r \<noteq> Rule_Error)
       then Some \<lparr>ifw_open = True, ifw_rules = rules, ifw_updated_at = now\<rparr> else None)\<rparr> else i))"

section \<open>Opening and closing\<close>

definition set_firewall_begin :: "nat \<Rightarrow> bool \<Rightarrow> panel \<Rightarrow> fw_request result" where
  "set_firewall_begin iid open_it p = then_do (get_instance p iid) (\<lambda>i.
     case find_node (p_store p) (i_node_id i) of
       None \<Rightarrow> Inl internal_error
     | Some node \<Rightarrow>
         then_do (guard (is_connected p (n_id node)) (conflict (n_name node @ '' is offline''))) (\<lambda>_.
         then_do (guard (\<not> (open_it \<and> \<not> n_firewall_managed node)) (forbidden
           ''Firewall management is off on this node; an admin or the node's owner can turn it on'')) (\<lambda>_.
         Inr (fw_request_for p i open_it))))"

datatype fw_effect = Configure_Node nat | Told_Instance nat | Firewall_Changed nat

text \<open>The rules are the answer. \<open>sftp\<close>: the node, as it was read before the request, has an SFTP port.\<close>

definition set_firewall_end :: "int \<Rightarrow> nat \<Rightarrow> nat \<Rightarrow> bool \<Rightarrow> bool \<Rightarrow> firewall_rule list result \<Rightarrow> panel \<Rightarrow>
    panel \<times> fw_effect list \<times> firewall_rule list result" where
  "set_firewall_end now iid nid sftp open_it answer p = (case answer of
     Inl e \<Rightarrow> (p, [], Inl e)
   | Inr rules \<Rightarrow> (fw_applied now iid open_it rules p,
       (if open_it \<and> sftp then [Configure_Node nid] else []) @ [Told_Instance iid, Firewall_Changed iid], Inr rules))"

text \<open>Opened ports follow: what a change of the ports asks of the agent, if anything. A failure is logged.\<close>

definition ports_changed_begin :: "nat \<Rightarrow> panel \<Rightarrow> fw_request option" where
  "ports_changed_begin iid p = (case get_instance p iid of
     Inl e \<Rightarrow> None
   | Inr i \<Rightarrow> (case i_firewall i of
       Some f \<Rightarrow> if ifw_open f \<and> is_connected p (i_node_id i) then Some (fw_request_for p i True) else None
     | None \<Rightarrow> None))"

definition ports_changed_end :: "int \<Rightarrow> nat \<Rightarrow> firewall_rule list result \<Rightarrow> panel \<Rightarrow> panel \<times> fw_effect list" where
  "ports_changed_end now iid answer p = (case answer of
     Inl e \<Rightarrow> (p, [])
   | Inr rules \<Rightarrow> (fw_applied now iid True rules p, [Told_Instance iid]))"

section \<open>What is shown\<close>

record firewall_view =
  fd_managed :: bool
  fd_backend :: "firewall_backend option"
  fd_problem :: "string option"
  fd_open :: bool
  fd_rules :: "firewall_rule list"
  fd_sftp :: "firewall_rule list"
  fd_updated_at :: "int option"

definition firewall_dto :: "node_row \<Rightarrow> instance_row \<Rightarrow> firewall_view" where
  "firewall_dto node i = \<lparr>fd_managed = n_firewall_managed node, fd_backend = n_firewall_backend node,
     fd_problem = (if \<not> n_firewall_managed node then Some ''Firewall management is off on this node''
       else case n_firewall_error node of
         Some e \<Rightarrow> Some e
       | None \<Rightarrow> if n_firewall_backend node \<noteq> None then None
           else Some ''No ufw or firewalld is active on this node''),
     fd_open = (case i_firewall i of Some f \<Rightarrow> ifw_open f | None \<Rightarrow> False),
     fd_rules = (case i_firewall i of Some f \<Rightarrow> ifw_rules f | None \<Rightarrow> []),
     fd_sftp = (case n_firewall_sftp node of Some s \<Rightarrow> s | None \<Rightarrow> []),
     fd_updated_at = map_option ifw_updated_at (i_firewall i)\<rparr>"

section \<open>Panel and agents together\<close>

text \<open>
  The agents' rules by key, and the panel. An operation whose request and answer have nothing in between
  is one step. A change of ports is the panel's own update, which announces it, with what the firewall
  makes of that; \<open>agent\<close> gives the rules an agent reports for the ports it was asked for.
\<close>

record fw_system =
  fws_panel :: panel
  fws_rules :: "string \<Rightarrow> (int \<times> port_protocol) list"

definition agent_applies :: "((int \<times> port_protocol) list \<Rightarrow> firewall_rule list) \<Rightarrow> fw_request \<Rightarrow> fw_system \<Rightarrow>
    fw_system \<times> firewall_rule list" where
  "agent_applies agent q s = (s\<lparr>fws_rules := (fws_rules s)(fq_key q := fq_ports q)\<rparr>, agent (fq_ports q))"

definition set_firewall :: "((int \<times> port_protocol) list \<Rightarrow> firewall_rule list) \<Rightarrow> int \<Rightarrow> nat \<Rightarrow> bool \<Rightarrow> fw_system \<Rightarrow>
    fw_system" where
  "set_firewall agent now iid open_it s = (case set_firewall_begin iid open_it (fws_panel s) of
     Inl e \<Rightarrow> s
   | Inr q \<Rightarrow> (case agent_applies agent q s of
       (s1, rules) \<Rightarrow> s1\<lparr>fws_panel := fst (set_firewall_end now iid (fq_node q) False open_it (Inr rules) (fws_panel s1))\<rparr>))"

definition follow_ports :: "((int \<times> port_protocol) list \<Rightarrow> firewall_rule list) \<Rightarrow> int \<Rightarrow> nat \<Rightarrow> fw_system \<Rightarrow>
    fw_system" where
  "follow_ports agent now iid s = (case ports_changed_begin iid (fws_panel s) of
     None \<Rightarrow> s
   | Some q \<Rightarrow> (case agent_applies agent q s of
       (s1, rules) \<Rightarrow> s1\<lparr>fws_panel := fst (ports_changed_end now iid (Inr rules) (fws_panel s1))\<rparr>))"

definition change_ports :: "((int \<times> port_protocol) list \<Rightarrow> firewall_rule list) \<Rightarrow>
    (string \<Rightarrow> string \<Rightarrow> bool option) \<Rightarrow> int \<Rightarrow> nat \<Rightarrow> update_input \<Rightarrow> instance_role \<Rightarrow> fw_system \<Rightarrow> fw_system" where
  "change_ports agent re_test now iid input who s = (case update_instance re_test iid input who (fws_panel s) of
     Inl e \<Rightarrow> s
   | Inr p \<Rightarrow> follow_ports agent now iid (s\<lparr>fws_panel := p\<rparr>))"

text \<open>The agent's rules are the instance's ports whenever it is marked open.\<close>

definition follows :: "nat \<Rightarrow> fw_system \<Rightarrow> bool" where
  "follows iid s \<longleftrightarrow> (\<forall>i f. find_instance (p_store (fws_panel s)) iid = Some i \<longrightarrow> i_firewall i = Some f \<longrightarrow> ifw_open f \<longrightarrow>
     fws_rules s (''instance:'' @ i_uuid i) = fw_ports (ports_of (p_store (fws_panel s)) iid))"

lemma fw_applied_ports [simp]: "ports_of (p_store (fw_applied now iid b rs p)) n = ports_of (p_store p) n"
  by (simp add: fw_applied_def change_instances_def ports_of_def)

lemma find_updated_row:
  "(\<And>i. i_id (f i) = i_id i) \<Longrightarrow> find (\<lambda>i. i_id i = iid) (map f xs) = map_option f (find (\<lambda>i. i_id i = iid) xs)"
  by (induction xs) auto

lemma found_id: "find_instance st iid = Some i \<Longrightarrow> i_id i = iid"
  by (auto simp: find_instance_def find_Some_iff)

lemma fw_applied_row:
  assumes "find_instance (p_store p) iid = Some i"
  shows "find_instance (p_store (fw_applied now iid b rs p)) iid = Some (i\<lparr>i_firewall :=
    (if b \<and> (\<exists>r\<in>set rs. fr_state r \<noteq> Rule_Error) then Some \<lparr>ifw_open = True, ifw_rules = rs, ifw_updated_at = now\<rparr> else None)\<rparr>)"
  using assms found_id [OF assms]
  by (simp add: fw_applied_def change_instances_def find_instance_def find_updated_row)

lemma applied_follows:
  assumes "find_instance (p_store (fws_panel s)) iid = Some i"
    and "q = fw_request_for (fws_panel s) i b"
  shows "follows iid (s\<lparr>fws_rules := (fws_rules s)(fq_key q := fq_ports q), fws_panel := fw_applied now iid b rs (fws_panel s)\<rparr>)"
  using assms(2) found_id [OF assms(1)]
  by (auto simp: follows_def fw_applied_row [OF assms(1)] fw_request_for_def split: if_splits)

lemma follow_ports_follows:
  assumes i: "find_instance (p_store (fws_panel s)) iid = Some i" "i_node_id i \<in> p_connected (fws_panel s)"
  shows "follows iid (follow_ports agent now iid s)"
proof (cases "ports_changed_begin iid (fws_panel s)")
  case None
  then have "\<forall>f. i_firewall i = Some f \<longrightarrow> \<not> ifw_open f"
    using i by (auto simp: ports_changed_begin_def get_instance_def is_connected_def split: option.splits if_splits)
  then show ?thesis using None i(1) by (simp add: follow_ports_def follows_def)
next
  case (Some q)
  then have "q = fw_request_for (fws_panel s) i True"
    using i by (auto simp: ports_changed_begin_def get_instance_def split: option.splits if_splits)
  from applied_follows [OF i(1) this, of now "agent (fq_ports q)"] Some show ?thesis
    by (simp add: follow_ports_def agent_applies_def ports_changed_end_def)
qed


definition managed_panel :: panel where
  "managed_panel = sample_panel\<lparr>p_store := sample_store\<lparr>s_nodes := [sample_node\<lparr>n_firewall_managed := True\<rparr>]\<rparr>\<rparr>"


text \<open>A change of the ports while the node is away asks the agent for nothing, then or later: the row stays
  open with the old rules.\<close>

lemma ports_changed_while_offline:
  assumes "find_instance (p_store (fws_panel s)) iid = Some i" and "i_node_id i \<notin> p_connected (fws_panel s)"
  shows "follow_ports agent now iid s = s"
  using assms by (auto simp: follow_ports_def ports_changed_begin_def get_instance_def is_connected_def split: option.splits)

text \<open>A change of the ports while an opening waits for the agent is not followed either: the row is not open yet,
  and then it is marked open with the rules of the old ports.\<close>

lemma ports_changed_while_opening:
  assumes "find_instance (p_store p) iid = Some i" and "i_firewall i = None"
    and "fr_state r \<noteq> Rule_Error"
  shows "ports_changed_begin iid p = None"
    and "\<exists>j. find_instance (p_store (fst (set_firewall_end now iid nid sftp True (Inr [r]) p))) iid = Some j
      \<and> i_firewall j = Some \<lparr>ifw_open = True, ifw_rules = [r], ifw_updated_at = now\<rparr>"
  using assms fw_applied_row [OF assms(1)]
  by (simp_all add: ports_changed_begin_def get_instance_def set_firewall_end_def)

end
