(* ===== verification/Ui_Socket.thy ===== *)
theory Ui_Socket
  imports Ui_Gateway "HOL-Library.AList"
begin

text \<open>
  The browser's end of \<open>/ws/ui\<close> (web/src/ws/ui-socket.ts) and the query caches it patches
  (\<open>patchInstanceCaches\<close> of web/src/api/instances.ts). The page's WebSocket objects are numbered in the order
  they are made and have the platform's four ready states; \<open>close\<close> moves one that is connecting or open to
  closing at once, and its close event comes later. A timer is its delay. What the page does to the outside is
  a list of outputs; a listener is a name of its own, as every subscription makes a new closure.
\<close>

section \<open>State\<close>

datatype ready_state = Ws_Connecting | Ws_Open | Ws_Closing | Ws_Closed

datatype ui_listener = Plain_Listener nat | Console_Follower nat nat

record ui_socket =
  us_ws :: "nat option"
  us_has_cache :: bool
  us_listeners :: "(string \<times> ui_listener) list"
  us_consoles :: "(nat \<times> int) list"
  us_retry :: nat
  us_stopped :: bool
  us_status_listeners :: "nat list"
  us_connected :: bool
  us_sockets :: "ready_state list"
  us_timers :: "nat list"

definition initial_socket :: ui_socket where
  "initial_socket = \<lparr>us_ws = None, us_has_cache = False, us_listeners = [], us_consoles = [], us_retry = 1000,
     us_stopped = False, us_status_listeners = [], us_connected = False, us_sockets = [], us_timers = []\<rparr>"

definition max_retry :: nat where "max_retry = 15000"

datatype key_part = Key_Name string | Key_Id nat

datatype 'm cache_patch =
  Patch_Status nat instance_status "string option"
| Patch_Stats nat instance_stats
| Patch_Online nat int
| Patch_Metrics nat 'm

datatype 'm cache_effect = Invalidate "key_part list" | Patch "'m cache_patch"

datatype ('m, 'p) page_output =
  Socket_Sent nat ui_client_message
| Status_Told nat bool
| On_Cache "'m cache_effect"
| Heard ui_listener "('m, 'p) ui_event"

type_synonym ('m, 'p) page_step = "ui_socket \<times> ('m, 'p) page_output list"

section \<open>The socket\<close>

definition ws_state :: "ui_socket \<Rightarrow> nat \<Rightarrow> ready_state" where
  "ws_state s w = (if w < length (us_sockets s) then us_sockets s ! w else Ws_Closed)"

definition set_ws :: "nat \<Rightarrow> ready_state \<Rightarrow> ui_socket \<Rightarrow> ui_socket" where
  "set_ws w r s = s\<lparr>us_sockets := (us_sockets s)[w := r]\<rparr>"

definition close_ws :: "nat \<Rightarrow> ui_socket \<Rightarrow> ui_socket" where
  "close_ws w s = (if ws_state s w = Ws_Connecting \<or> ws_state s w = Ws_Open then set_ws w Ws_Closing s else s)"

definition send_ui :: "ui_client_message \<Rightarrow> ui_socket \<Rightarrow> ('m, 'p) page_output list" where
  "send_ui m s = (case us_ws s of
     Some w \<Rightarrow> if ws_state s w = Ws_Open then [Socket_Sent w m] else []
   | None \<Rightarrow> [])"

definition set_connected :: "bool \<Rightarrow> ui_socket \<Rightarrow> ('m, 'p) page_step" where
  "set_connected v s = (if us_connected s = v then (s, [])
     else (s\<lparr>us_connected := v\<rparr>, map (\<lambda>l. Status_Told l v) (us_status_listeners s)))"

definition connect :: "ui_socket \<Rightarrow> ui_socket" where
  "connect s = (if us_stopped s then s
     else s\<lparr>us_sockets := us_sockets s @ [Ws_Connecting], us_ws := Some (length (us_sockets s))\<rparr>)"

definition start_socket :: "ui_socket \<Rightarrow> ui_socket" where
  "start_socket s = connect (s\<lparr>us_has_cache := True, us_stopped := False\<rparr>)"

definition stop_socket :: "ui_socket \<Rightarrow> ('m, 'p) page_step" where
  "stop_socket s = (let s1 = s\<lparr>us_stopped := True, us_ws := None\<rparr> in
     set_connected False (case us_ws s of None \<Rightarrow> s1 | Some w \<Rightarrow> close_ws w s1))"

definition ui_on_open :: "nat \<Rightarrow> ui_socket \<Rightarrow> ('m, 'p) page_step" where
  "ui_on_open w s0 = (let s = set_ws w Ws_Open s0 in
     if us_ws s \<noteq> Some w then (close_ws w s, [])
     else let (s1, told) = set_connected True (s\<lparr>us_retry := 1000\<rparr>) in
       (s1, told @ concat (map (\<lambda>i. send_ui (Sub (int i)) s1) (map fst (us_consoles s1)))
         @ (if us_has_cache s1 then [On_Cache (Invalidate [])] else [])))"

definition ui_on_close :: "nat \<Rightarrow> int \<Rightarrow> ui_socket \<Rightarrow> ('m, 'p) page_step" where
  "ui_on_close w cl s0 = (let s = set_ws w Ws_Closed s0 in
     if us_ws s \<noteq> Some w then (s, [])
     else let (s1, told) = set_connected False s; s2 = s1\<lparr>us_ws := None\<rparr> in
       if us_stopped s2 \<or> cl = 4001 then (s2, told)
       else (s2\<lparr>us_timers := us_timers s2 @ [if cl = close_reconnect then 0 else us_retry s2],
           us_retry := min (us_retry s2 * 2) max_retry\<rparr>, told))"

definition ui_on_error :: "nat \<Rightarrow> ui_socket \<Rightarrow> ui_socket" where
  "ui_on_error w s = close_ws w s"

definition ui_timer_fires :: "nat \<Rightarrow> ui_socket \<Rightarrow> ui_socket" where
  "ui_timer_fires k s = connect (s\<lparr>us_timers := take k (us_timers s) @ drop (Suc k) (us_timers s)\<rparr>)"

section \<open>Listeners\<close>

definition listen :: "string \<Rightarrow> ui_listener \<Rightarrow> ui_socket \<Rightarrow> ui_socket" where
  "listen ev l s = (if (ev, l) \<in> set (us_listeners s) then s else s\<lparr>us_listeners := us_listeners s @ [(ev, l)]\<rparr>)"

definition unlisten :: "string \<Rightarrow> ui_listener \<Rightarrow> ui_socket \<Rightarrow> ui_socket" where
  "unlisten ev l s = s\<lparr>us_listeners := filter (\<lambda>x. x \<noteq> (ev, l)) (us_listeners s)\<rparr>"

definition on_status :: "nat \<Rightarrow> ui_socket \<Rightarrow> ('m, 'p) page_step" where
  "on_status l s = (s\<lparr>us_status_listeners := (if l \<in> set (us_status_listeners s) then us_status_listeners s
     else us_status_listeners s @ [l])\<rparr>, [Status_Told l (us_connected s)])"

definition off_status :: "nat \<Rightarrow> ui_socket \<Rightarrow> ui_socket" where
  "off_status l s = s\<lparr>us_status_listeners := filter (\<lambda>x. x \<noteq> l) (us_status_listeners s)\<rparr>"

definition console_event :: string where "console_event = ''instance.console''"

definition subscribe_console :: "nat \<Rightarrow> nat \<Rightarrow> ui_socket \<Rightarrow> ('m, 'p) page_step" where
  "subscribe_console l i s =
     (let count = (case map_of (us_consoles s) i of None \<Rightarrow> 0 | Some n \<Rightarrow> n);
          s1 = s\<lparr>us_consoles := AList.update i (count + 1) (us_consoles s)\<rparr> in
      (listen console_event (Console_Follower l i) s1, if count = 0 then send_ui (Sub (int i)) s1 else []))"

definition unsubscribe_console :: "nat \<Rightarrow> nat \<Rightarrow> ui_socket \<Rightarrow> ('m, 'p) page_step" where
  "unsubscribe_console l i s0 =
     (let s = unlisten console_event (Console_Follower l i) s0;
          n = (case map_of (us_consoles s) i of None \<Rightarrow> 1 | Some n \<Rightarrow> n) - 1 in
      if n \<le> 0 then let s1 = s\<lparr>us_consoles := AList.delete i (us_consoles s)\<rparr> in (s1, send_ui (Unsub (int i)) s1)
      else (s\<lparr>us_consoles := AList.update i n (us_consoles s)\<rparr>, []))"

section \<open>Events\<close>

fun event_name :: "('m, 'p) ui_event \<Rightarrow> string" where
  "event_name (Hello_Event _) = ''hello''"
| "event_name (Node_Status_Event _ _ _) = ''node.status''"
| "event_name (Node_Updated_Event _) = ''node.updated''"
| "event_name (Node_Metrics_Event _ _) = ''node.metrics''"
| "event_name (Instance_Updated_Event _) = ''instance.updated''"
| "event_name (Instance_Status_Event _ _ _) = ''instance.status''"
| "event_name (Instance_Stats_Event _ _) = ''instance.stats''"
| "event_name (Instance_Console_Event _ _ _) = ''instance.console''"
| "event_name (Instance_Players_Event _ _) = ''instance.players''"
| "event_name (Backup_Updated_Event _ _) = ''backup.updated''"
| "event_name (Template_Updated_Event _) = ''template.updated''"
| "event_name (Image_Pull_Event _ _ _ _ _) = ''image.pull''"

definition node_keys :: "key_part list" where "node_keys = [Key_Name ''nodes'']"
definition instance_keys :: "key_part list" where "instance_keys = [Key_Name ''instances'']"
definition instance_summary_key :: "key_part list" where
  "instance_summary_key = [Key_Name ''instances'', Key_Name ''summary'']"
definition instance_access_key :: "nat \<Rightarrow> key_part list" where
  "instance_access_key i = [Key_Name ''instances'', Key_Name ''access'', Key_Id i]"
definition node_images_key :: "nat \<Rightarrow> key_part list" where
  "node_images_key n = [Key_Name ''nodes'', Key_Name ''images'', Key_Id n]"
definition backup_list_key :: "nat \<Rightarrow> key_part list" where
  "backup_list_key i = [Key_Name ''backups'', Key_Id i]"
definition player_list_key :: "nat \<Rightarrow> key_part list" where
  "player_list_key i = [Key_Name ''instances'', Key_Name ''players'', Key_Id i]"
definition template_keys :: "key_part list" where "template_keys = [Key_Name ''templates'']"

fun cache_effects :: "('m, 'p) ui_event \<Rightarrow> 'm cache_effect list" where
  "cache_effects (Node_Status_Event _ _ _) = [Invalidate node_keys, Invalidate instance_keys]"
| "cache_effects (Node_Updated_Event _) =
     [Invalidate node_keys, Invalidate [Key_Name ''instances'', Key_Name ''access'']]"
| "cache_effects (Node_Metrics_Event n m) = [Patch (Patch_Metrics n m)]"
| "cache_effects (Instance_Updated_Event i) = [Invalidate instance_keys, Invalidate (instance_access_key i)]"
| "cache_effects (Instance_Status_Event i st err) =
     [Patch (Patch_Status i st err), Invalidate instance_summary_key, Invalidate node_keys]"
| "cache_effects (Instance_Stats_Event i stats) = [Patch (Patch_Stats i stats)]"
| "cache_effects (Instance_Players_Event i n) = [Patch (Patch_Online i n), Invalidate (player_list_key i)]"
| "cache_effects (Backup_Updated_Event i _) = [Invalidate (backup_list_key i)]"
| "cache_effects (Template_Updated_Event _) = [Invalidate template_keys]"
| "cache_effects (Image_Pull_Event n _ finished _ _) = (if finished then [Invalidate (node_images_key n)] else [])"
| "cache_effects _ = []"

text \<open>The listeners of an event in turn; one that throws ends the loop, as \<open>onmessage\<close> catches it. The closure a
  console subscription registers calls its listener for its own instance only.\<close>

fun run_listeners :: "(ui_listener \<Rightarrow> bool) \<Rightarrow> ('m, 'p) ui_event \<Rightarrow> ui_listener list \<Rightarrow> ('m, 'p) page_output list" where
  "run_listeners throws ev [] = []"
| "run_listeners throws ev (l # ls) =
     (case l of
        Console_Follower _ i \<Rightarrow> if event_instance ev = Some i
          then Heard l ev # (if throws l then [] else run_listeners throws ev ls)
          else run_listeners throws ev ls
      | Plain_Listener _ \<Rightarrow> Heard l ev # (if throws l then [] else run_listeners throws ev ls))"

definition dispatch :: "(ui_listener \<Rightarrow> bool) \<Rightarrow> ('m, 'p) ui_event \<Rightarrow> ui_socket \<Rightarrow> ('m, 'p) page_output list" where
  "dispatch throws ev s = (if us_has_cache s then map On_Cache (cache_effects ev) else [])
     @ run_listeners throws ev (map snd (filter (\<lambda>x. fst x = event_name ev) (us_listeners s)))"

text \<open>A frame that is not an event, or does not parse, is \<open>None\<close>.\<close>

definition on_ui_frame :: "(ui_listener \<Rightarrow> bool) \<Rightarrow> ('m, 'p) ui_event option \<Rightarrow> ui_socket \<Rightarrow> ('m, 'p) page_output list" where
  "on_ui_frame throws frame s = (case frame of None \<Rightarrow> [] | Some ev \<Rightarrow> dispatch throws ev s)"

section \<open>Runs of the page\<close>

text \<open>
  The page after any run of the app's layout being mounted and unmounted (the effect of \<open>AppLayout\<close>), consoles
  followed and left, sockets opening, failing and closing, timers firing and frames arriving, with the console
  subscriptions not yet left, whether the layout is mounted, whether the current socket ended with the session
  (close code 4001) since it was, and everything put out so far. In a tidy run the layout is only mounted when
  no timer is pending.
\<close>

inductive page_run :: "bool \<Rightarrow> ui_socket \<Rightarrow> (nat \<times> nat) set \<Rightarrow> bool \<Rightarrow> bool \<Rightarrow> ('m, 'p) page_output list \<Rightarrow> bool"
  for tidy where
  run_init: "page_run tidy initial_socket {} False False []"
| run_start: "page_run tidy s live False ended outs \<Longrightarrow> (tidy \<longrightarrow> us_timers s = []) \<Longrightarrow>
    page_run tidy (start_socket s) live True False outs"
| run_stop: "page_run tidy s live True ended outs \<Longrightarrow>
    page_run tidy (fst (stop_socket s :: ('m, 'p) page_step)) live False ended (outs @ snd (stop_socket s))"
| run_follow: "page_run tidy s live mounted ended outs \<Longrightarrow> l \<notin> fst ` live \<Longrightarrow>
    page_run tidy (fst (subscribe_console l i s :: ('m, 'p) page_step)) (insert (l, i) live) mounted ended
      (outs @ snd (subscribe_console l i s))"
| run_leave: "page_run tidy s live mounted ended outs \<Longrightarrow> (l, i) \<in> live \<Longrightarrow>
    page_run tidy (fst (unsubscribe_console l i s :: ('m, 'p) page_step)) (live - {(l, i)}) mounted ended
      (outs @ snd (unsubscribe_console l i s))"
| run_open: "page_run tidy s live mounted ended outs \<Longrightarrow> ws_state s w = Ws_Connecting \<Longrightarrow>
    page_run tidy (fst (ui_on_open w s :: ('m, 'p) page_step)) live mounted ended (outs @ snd (ui_on_open w s))"
| run_closing: "page_run tidy s live mounted ended outs \<Longrightarrow> ws_state s w \<noteq> Ws_Closed \<Longrightarrow>
    page_run tidy (set_ws w Ws_Closing s) live mounted ended outs"
| run_close: "page_run tidy s live mounted ended outs \<Longrightarrow> ws_state s w \<noteq> Ws_Closed \<Longrightarrow>
    page_run tidy (fst (ui_on_close w cl s :: ('m, 'p) page_step)) live mounted (ended \<or> us_ws s = Some w \<and> cl = 4001)
      (outs @ snd (ui_on_close w cl s))"
| run_error: "page_run tidy s live mounted ended outs \<Longrightarrow> page_run tidy (ui_on_error w s) live mounted ended outs"
| run_timer: "page_run tidy s live mounted ended outs \<Longrightarrow> k < length (us_timers s) \<Longrightarrow>
    page_run tidy (ui_timer_fires k s) live mounted ended outs"
| run_frame: "page_run tidy s live mounted ended outs \<Longrightarrow> ws_state s w = Ws_Open \<Longrightarrow>
    page_run tidy s live mounted ended (outs @ on_ui_frame throws frame s)"
| run_listen: "page_run tidy s live mounted ended outs \<Longrightarrow>
    page_run tidy (listen ev (Plain_Listener l) s) live mounted ended outs"
| run_unlisten: "page_run tidy s live mounted ended outs \<Longrightarrow>
    page_run tidy (unlisten ev (Plain_Listener l) s) live mounted ended outs"
| run_status: "page_run tidy s live mounted ended outs \<Longrightarrow>
    page_run tidy (fst (on_status l s :: ('m, 'p) page_step)) live mounted ended (outs @ snd (on_status l s))"
| run_off_status: "page_run tidy s live mounted ended outs \<Longrightarrow>
    page_run tidy (off_status l s) live mounted ended outs"

section \<open>What is sent\<close>

fun sent_on :: "nat \<Rightarrow> ('m, 'p) page_output list \<Rightarrow> ui_client_message list" where
  "sent_on w [] = []"
| "sent_on w (Socket_Sent v m # os) = (if v = w then m # sent_on w os else sent_on w os)"
| "sent_on w (_ # os) = sent_on w os"

definition followed :: "ui_client_message list \<Rightarrow> int set" where
  "followed ms = foldl (\<lambda>S m. case m of Sub i \<Rightarrow> insert i S | Unsub i \<Rightarrow> S - {i}) {} ms"

lemma followed_Nil [simp]: "followed [] = {}"
  and followed_snoc [simp]: "followed (ms @ [Sub i]) = insert i (followed ms)" "followed (ms @ [Unsub i]) = followed ms - {i}"
  by (simp_all add: followed_def)

lemma followed_subs: "followed (ms @ map (\<lambda>i. Sub (int i)) is) = followed ms \<union> int ` set is"
  by (induction "is" rule: rev_induct) (auto simp flip: append_assoc)

lemma server_follows: "uc_consoles c = {} \<Longrightarrow>
    uc_consoles (foldl (\<lambda>c m. subscribe (Some m) c) c ms) = {i \<in> followed ms. scope_has (uc_scope c) i}
    \<and> uc_scope (foldl (\<lambda>c m. subscribe (Some m) c) c ms) = uc_scope c"
proof (induction ms rule: rev_induct)
  case (snoc m ms)
  then show ?case by (cases m) (auto simp: subscribe_def)
qed simp

lemma sent_on_append [simp]: "sent_on w (xs @ ys) = sent_on w xs @ sent_on w ys"
  by (induction w xs rule: sent_on.induct) auto

lemma sent_on_send [simp]: "sent_on w (send_ui m s) = (if us_ws s = Some w \<and> ws_state s w = Ws_Open then [m] else [])"
  by (auto simp: send_ui_def split: option.splits)

lemma sent_on_status [simp]: "sent_on w (map (\<lambda>l. Status_Told l v) ls) = []"
  by (induction ls) auto

lemma sent_on_cache [simp]: "sent_on w (map On_Cache es) = []"
  by (induction es) auto

lemma sent_on_listeners [simp]: "sent_on w (run_listeners throws ev ls) = []"
  by (induction ls) (auto split: ui_listener.split)

lemma sent_on_frame [simp]: "sent_on w (on_ui_frame throws frame s) = []"
  by (simp add: on_ui_frame_def dispatch_def split: option.split)

lemma sent_on_connected [simp]: "sent_on w (snd (set_connected v s)) = []"
  by (simp add: set_connected_def)

lemma sent_on_subs [simp]: "sent_on w (concat (map (\<lambda>i. send_ui (Sub (int i)) s) is))
    = (if us_ws s = Some w \<and> ws_state s w = Ws_Open then map (\<lambda>i. Sub (int i)) is else [])"
  by (induction "is") auto

lemma set_connected_fields [simp]: "us_ws (fst (set_connected v s)) = us_ws s" "us_sockets (fst (set_connected v s)) = us_sockets s"
  "us_consoles (fst (set_connected v s)) = us_consoles s" "us_listeners (fst (set_connected v s)) = us_listeners s"
  "us_retry (fst (set_connected v s)) = us_retry s" "us_stopped (fst (set_connected v s)) = us_stopped s"
  "us_timers (fst (set_connected v s)) = us_timers s" "us_has_cache (fst (set_connected v s)) = us_has_cache s"
  "us_connected (fst (set_connected v s)) = v"
  by (simp_all add: set_connected_def)

lemma ws_state_cong: "us_sockets s = us_sockets t \<Longrightarrow> ws_state s = ws_state t"
  by (simp add: ws_state_def fun_eq_iff)

lemma ws_state_set [simp]: "ws_state (set_ws w r s) v = (if v = w \<and> w < length (us_sockets s) then r else ws_state s v)"
  by (simp add: ws_state_def set_ws_def)

lemma ws_state_update [simp]: "ws_state (s\<lparr>us_ws := a\<rparr>) = ws_state s" "ws_state (s\<lparr>us_stopped := b\<rparr>) = ws_state s"
  "ws_state (s\<lparr>us_has_cache := b\<rparr>) = ws_state s" "ws_state (s\<lparr>us_retry := n\<rparr>) = ws_state s" "ws_state (s\<lparr>us_timers := ts\<rparr>) = ws_state s"
  "ws_state (s\<lparr>us_consoles := cs\<rparr>) = ws_state s" "ws_state (s\<lparr>us_listeners := ls\<rparr>) = ws_state s"
  "ws_state (s\<lparr>us_status_listeners := sl\<rparr>) = ws_state s" "ws_state (fst (set_connected v s)) = ws_state s"
  by (simp_all add: ws_state_def fun_eq_iff)

lemma set_ws_fields [simp]: "us_ws (set_ws w r s) = us_ws s" "us_consoles (set_ws w r s) = us_consoles s"
  "us_listeners (set_ws w r s) = us_listeners s" "us_retry (set_ws w r s) = us_retry s" "us_stopped (set_ws w r s) = us_stopped s"
  "us_timers (set_ws w r s) = us_timers s" "us_has_cache (set_ws w r s) = us_has_cache s"
  "length (us_sockets (set_ws w r s)) = length (us_sockets s)" "us_connected (set_ws w r s) = us_connected s"
  by (simp_all add: set_ws_def)

lemma close_ws_fields [simp]: "us_ws (close_ws w s) = us_ws s" "us_consoles (close_ws w s) = us_consoles s"
  "us_listeners (close_ws w s) = us_listeners s" "us_retry (close_ws w s) = us_retry s" "us_stopped (close_ws w s) = us_stopped s"
  "us_timers (close_ws w s) = us_timers s" "us_has_cache (close_ws w s) = us_has_cache s"
  "length (us_sockets (close_ws w s)) = length (us_sockets s)" "us_connected (close_ws w s) = us_connected s"
  by (simp_all add: close_ws_def)

lemma ws_state_close [simp]: "ws_state (close_ws w s) v =
    (if v = w \<and> (ws_state s w = Ws_Connecting \<or> ws_state s w = Ws_Open) then Ws_Closing else ws_state s v)"
  by (auto simp: close_ws_def) (auto simp: ws_state_def)

lemma connect_fields [simp]: "us_ws (connect s) = (if us_stopped s then us_ws s else Some (length (us_sockets s)))"
  "us_consoles (connect s) = us_consoles s" "us_listeners (connect s) = us_listeners s" "us_retry (connect s) = us_retry s"
  "us_stopped (connect s) = us_stopped s" "us_timers (connect s) = us_timers s" "us_has_cache (connect s) = us_has_cache s"
  "length (us_sockets (connect s)) = length (us_sockets s) + (if us_stopped s then 0 else 1)"
  "us_connected (connect s) = us_connected s"
  by (simp_all add: connect_def)

lemma ws_state_connect [simp]: "ws_state (connect s) w =
    (if \<not> us_stopped s \<and> w = length (us_sockets s) then Ws_Connecting else ws_state s w)"
  by (auto simp: connect_def ws_state_def nth_append)

lemma listen_fields [simp]: "us_ws (listen ev l s) = us_ws s" "us_consoles (listen ev l s) = us_consoles s"
  "us_retry (listen ev l s) = us_retry s" "us_stopped (listen ev l s) = us_stopped s" "us_timers (listen ev l s) = us_timers s"
  "us_has_cache (listen ev l s) = us_has_cache s" "us_sockets (listen ev l s) = us_sockets s"
  "us_connected (listen ev l s) = us_connected s" "ws_state (listen ev l s) = ws_state s"
  by (auto simp: listen_def ws_state_def fun_eq_iff)

lemma unlisten_fields [simp]: "us_ws (unlisten ev l s) = us_ws s" "us_consoles (unlisten ev l s) = us_consoles s"
  "us_retry (unlisten ev l s) = us_retry s" "us_stopped (unlisten ev l s) = us_stopped s" "us_timers (unlisten ev l s) = us_timers s"
  "us_has_cache (unlisten ev l s) = us_has_cache s" "us_sockets (unlisten ev l s) = us_sockets s"
  "us_connected (unlisten ev l s) = us_connected s" "ws_state (unlisten ev l s) = ws_state s"
  by (auto simp: unlisten_def ws_state_def fun_eq_iff)

lemmas page_ops = start_socket_def stop_socket_def ui_on_open_def ui_on_close_def ui_on_error_def ui_timer_fires_def
  subscribe_console_def unsubscribe_console_def on_status_def off_status_def Let_def case_prod_beta

section \<open>The current socket carries the subscriptions\<close>

definition sends_ok :: "ui_socket \<Rightarrow> ('m, 'p) page_output list \<Rightarrow> bool" where
  "sends_ok s outs \<longleftrightarrow> (\<forall>w. us_ws s = Some w \<longrightarrow> ws_state s w \<noteq> Ws_Closed)
     \<and> (\<forall>w. ws_state s w = Ws_Connecting \<or> length (us_sockets s) \<le> w \<longrightarrow> sent_on w outs = [])
     \<and> (\<forall>w. us_ws s = Some w \<and> ws_state s w = Ws_Open \<longrightarrow> followed (sent_on w outs) = int ` fst ` set (us_consoles s))"

lemma ws_state_beyond: "length (us_sockets s) \<le> w \<Longrightarrow> ws_state s w = Ws_Closed"
  by (simp add: ws_state_def)

lemma live_socket_known: "ws_state s w \<noteq> Ws_Closed \<Longrightarrow> w < length (us_sockets s)"
  by (simp add: ws_state_def split: if_splits)

lemma update_keys: "fst ` set (AList.update k v xs) = insert k (fst ` set xs)"
  by (induction xs) auto

lemma delete_keys: "fst ` set (AList.delete k xs) = fst ` set xs - {k}"
  by (auto simp: AList.delete_eq)

lemma keys_iff: "k \<in> fst ` set xs \<longleftrightarrow> map_of xs k \<noteq> None"
  by (simp add: map_of_eq_None_iff)

definition followers :: "(nat \<times> nat) set \<Rightarrow> nat \<Rightarrow> nat set" where
  "followers live i = {l. (l, i) \<in> live}"

definition counted_ok :: "ui_socket \<Rightarrow> (nat \<times> nat) set \<Rightarrow> bool" where
  "counted_ok s live \<longleftrightarrow> finite live \<and> distinct (map fst (us_consoles s))
     \<and> (\<forall>i. map_of (us_consoles s) i = (if followers live i = {} then None else Some (int (card (followers live i)))))"

lemma finite_followers: "finite live \<Longrightarrow> finite (followers live i)"
  by (rule finite_subset [of _ "fst ` live"]) (force simp: followers_def)+

lemma followers_insert: "followers (insert (l, i) live) j = (if j = i then insert l (followers live i) else followers live j)"
  by (auto simp: followers_def)

lemma followers_remove: "followers (live - {(l, i)}) j = (if j = i then followers live i - {l} else followers live j)"
  by (auto simp: followers_def)

lemma counts_follow:
  assumes ok: "counted_ok s live" and fresh: "l \<notin> fst ` live"
  shows "counted_ok (fst (subscribe_console l i s)) (insert (l, i) live)"
proof -
  have "l \<notin> followers live i" "finite (followers live i)"
    using fresh ok by (force simp: followers_def, simp add: counted_ok_def finite_followers)
  then show ?thesis using ok
    by (auto simp: counted_ok_def subscribe_console_def Let_def followers_insert update_conv' distinct_update)
qed

lemma counts_leave:
  assumes ok: "counted_ok s live" and l: "(l, i) \<in> live"
  shows "counted_ok (fst (unsubscribe_console l i s)) (live - {(l, i)})"
proof -
  have l: "l \<in> followers live i" and fin: "finite (followers live i)"
    using l ok by (simp add: followers_def, simp add: counted_ok_def finite_followers)
  have c: "int (card (followers live i - {l})) = int (card (followers live i)) - 1" "card (followers live i) > 0"
    using l fin card_Suc_Diff1 [of "followers live i" l] by (auto simp: card_gt_0_iff)
  have none: "followers live i - {l} = {} \<longleftrightarrow> card (followers live i - {l}) = 0"
    using fin by (simp only: card_0_eq finite_Diff)
  have "followers live i - {l} = {} \<longleftrightarrow> card (followers live i) \<le> 1"
    unfolding none using c by arith
  then show ?thesis using ok c l
    by (auto simp: counted_ok_def unsubscribe_console_def Let_def followers_remove update_conv' delete_conv' distinct_update
        distinct_delete)
qed

lemma sends_follow:
  assumes ok: "sends_ok s outs" and counts: "counted_ok s live"
  shows "sends_ok (fst (subscribe_console l i s)) (outs @ snd (subscribe_console l i s))"
proof (cases "map_of (us_consoles s) i")
  case None
  then show ?thesis using ok by (auto simp: sends_ok_def subscribe_console_def Let_def update_keys ws_state_beyond)
next
  case (Some n)
  then have "n > 0" "i \<in> fst ` set (us_consoles s)"
    using counts by (auto simp: counted_ok_def card_gt_0_iff finite_followers keys_iff split: if_splits)
  then show ?thesis using ok Some by (auto simp: sends_ok_def subscribe_console_def Let_def update_keys)
qed

lemma sends_leave:
  assumes ok: "sends_ok s outs" and counts: "counted_ok s live" and l: "(l, i) \<in> live"
  shows "sends_ok (fst (unsubscribe_console l i s)) (outs @ snd (unsubscribe_console l i s))"
proof -
  have "l \<in> followers live i" using l by (simp add: followers_def)
  then obtain n where n: "map_of (us_consoles s) i = Some n"
    using counts by (fastforce simp: counted_ok_def)
  then have "i \<in> fst ` set (us_consoles s)" by (simp add: keys_iff)
  then show ?thesis using ok n
    by (cases "n \<le> 1") (auto simp: sends_ok_def unsubscribe_console_def Let_def update_keys delete_keys ws_state_beyond insert_absorb)
qed

lemma sends_open:
  assumes ok: "sends_ok s outs" and w: "ws_state s w = Ws_Connecting"
  shows "sends_ok (fst (ui_on_open w s)) (outs @ snd (ui_on_open w s))"
proof -
  have "w < length (us_sockets s)" "sent_on w outs = []"
    using ok w live_socket_known [of s w] by (simp_all add: sends_ok_def)
  then show ?thesis using ok followed_subs [of "[]"]
    by (auto simp: sends_ok_def ui_on_open_def Let_def case_prod_beta ws_state_beyond simp del: map_map)
qed

lemma sends_quiet: "sends_ok s outs \<Longrightarrow> us_ws t = us_ws s \<or> us_ws t = None \<Longrightarrow> us_consoles t = us_consoles s \<Longrightarrow>
    length (us_sockets t) = length (us_sockets s) \<Longrightarrow>
    (\<And>w. us_ws t = Some w \<Longrightarrow> ws_state t w \<noteq> Ws_Closed) \<Longrightarrow>
    (\<And>w. ws_state t w = Ws_Connecting \<Longrightarrow> ws_state s w = Ws_Connecting) \<Longrightarrow>
    (\<And>w. ws_state t w = Ws_Open \<Longrightarrow> ws_state s w = Ws_Open) \<Longrightarrow> (\<And>w. sent_on w os = []) \<Longrightarrow> sends_ok t (outs @ os)"
  by (elim disjE; simp add: sends_ok_def)

lemma counts_cong: "us_consoles t = us_consoles s \<Longrightarrow> counted_ok t live = counted_ok s live"
  by (simp add: counted_ok_def)

lemma same_consoles [simp]: "us_consoles (fst (stop_socket s)) = us_consoles s" "us_consoles (start_socket s) = us_consoles s"
  "us_consoles (fst (ui_on_open w s)) = us_consoles s" "us_consoles (fst (ui_on_close w cl s)) = us_consoles s"
  "us_consoles (ui_on_error w s) = us_consoles s" "us_consoles (ui_timer_fires k s) = us_consoles s"
  "us_consoles (fst (on_status l s)) = us_consoles s" "us_consoles (off_status l s) = us_consoles s"
  by (simp_all add: page_ops split: option.split)

lemmas same_counts = same_consoles [THEN counts_cong]

lemma page_run_sends: "page_run tidy s live mounted ended outs \<Longrightarrow> sends_ok s outs \<and> counted_ok s live"
proof (induction rule: page_run.induct)
  case run_init
  show ?case by (simp add: sends_ok_def counted_ok_def initial_socket_def followers_def)
next
  case (run_start s live ended outs)
  then show ?case by (auto simp: sends_ok_def counted_ok_def start_socket_def)
next
  case (run_stop s live ended outs)
  have "sends_ok (fst (stop_socket s)) (outs @ snd (stop_socket s))"
    using run_stop by (intro sends_quiet [of s]) (auto simp: stop_socket_def Let_def split: option.splits if_splits)
  then show ?case using run_stop by (simp add: same_counts)
next
  case (run_follow s live mounted ended outs l i)
  then show ?case by (auto intro: sends_follow counts_follow)
next
  case (run_leave s live mounted ended outs l i)
  then show ?case by (auto intro: sends_leave counts_leave)
next
  case (run_open s live mounted ended outs w)
  then show ?case by (simp add: sends_open same_counts)
next
  case (run_closing s live mounted ended outs w)
  then have "sends_ok (set_ws w Ws_Closing s) (outs @ [])"
    by (intro sends_quiet [of s]) (auto simp: sends_ok_def split: if_splits)
  then show ?case using run_closing by (simp add: counted_ok_def)
next
  case (run_close s live mounted ended outs w cl)
  then have "sends_ok (fst (ui_on_close w cl s)) (outs @ snd (ui_on_close w cl s))"
    by (intro sends_quiet [of s]) (auto simp: sends_ok_def ui_on_close_def Let_def case_prod_beta split: if_splits)
  then show ?case using run_close by (simp add: same_counts)
next
  case (run_error s live mounted ended outs w)
  then have "sends_ok (ui_on_error w s) (outs @ [])"
    by (intro sends_quiet [of s]) (auto simp: sends_ok_def ui_on_error_def split: if_splits)
  then show ?case using run_error by (simp add: same_counts)
next
  case (run_timer s live mounted ended outs k)
  then show ?case by (auto simp: sends_ok_def counted_ok_def ui_timer_fires_def)
next
  case (run_frame s live mounted ended outs w throws frame)
  then show ?case by (simp add: sends_ok_def)
next
  case (run_listen s live mounted ended outs ev l)
  then show ?case by (simp add: sends_ok_def counted_ok_def)
next
  case (run_unlisten s live mounted ended outs ev l)
  then show ?case by (simp add: sends_ok_def counted_ok_def)
next
  case (run_status s live mounted ended outs l)
  then show ?case by (simp add: sends_ok_def counted_ok_def on_status_def)
next
  case (run_off_status s live mounted ended outs l)
  then show ?case by (simp add: sends_ok_def counted_ok_def off_status_def)
qed

section \<open>Timers and listeners\<close>

definition retry_delays :: "nat set" where "retry_delays = {1000, 2000, 4000, 8000, 15000}"

definition timing_ok :: "ui_socket \<Rightarrow> bool \<Rightarrow> bool \<Rightarrow> bool" where
  "timing_ok s mounted ended \<longleftrightarrow> us_retry s \<in> retry_delays \<and> set (us_timers s) \<subseteq> insert 0 retry_delays
     \<and> (if mounted then \<not> us_stopped s \<and> us_has_cache s \<and> (us_ws s \<noteq> None \<or> us_timers s \<noteq> [] \<or> ended)
        else us_ws s = None \<and> (us_stopped s \<or> us_timers s = []))
     \<and> (us_connected s \<longrightarrow> us_ws s \<noteq> None)"

lemma retry_doubles: "n \<in> retry_delays \<Longrightarrow> min (n * 2) max_retry \<in> retry_delays"
  by (auto simp: retry_delays_def max_retry_def)

lemma first_retry: "1000 \<in> retry_delays"
  by (simp add: retry_delays_def)

lemma timers_less: "set (take k ts @ drop (Suc k) ts) \<subseteq> set ts"
  using set_take_subset [of k ts] set_drop_subset [of "Suc k" ts] by auto

lemma page_run_timing: "page_run tidy s live mounted ended outs \<Longrightarrow> timing_ok s mounted ended"
proof (induction rule: page_run.induct)
  case (run_timer s live mounted ended outs k)
  then show ?case using timers_less [of k "us_timers s"]
    by (auto simp: timing_ok_def ui_timer_fires_def split: if_splits)
next
  case (run_close s live mounted ended outs w cl)
  then show ?case
    by (auto simp: timing_ok_def ui_on_close_def Let_def case_prod_beta retry_doubles split: if_splits)
qed (auto simp: timing_ok_def page_ops initial_socket_def first_retry split: if_splits option.split)

definition listeners_ok :: "ui_socket \<Rightarrow> (nat \<times> nat) set \<Rightarrow> bool" where
  "listeners_ok s live \<longleftrightarrow> distinct (us_listeners s)
     \<and> (\<forall>ev l i. (ev, Console_Follower l i) \<in> set (us_listeners s) \<longleftrightarrow> ev = console_event \<and> (l, i) \<in> live)"

lemma listen_listeners: "us_listeners (listen ev l s)
    = us_listeners s @ (if (ev, l) \<in> set (us_listeners s) then [] else [(ev, l)])"
  by (simp add: listen_def)

lemma unlisten_listeners: "us_listeners (unlisten ev l s) = filter (\<lambda>x. x \<noteq> (ev, l)) (us_listeners s)"
  by (simp add: unlisten_def)

lemma same_listeners [simp]: "us_listeners (fst (stop_socket s)) = us_listeners s" "us_listeners (start_socket s) = us_listeners s"
  "us_listeners (fst (ui_on_open w s)) = us_listeners s" "us_listeners (fst (ui_on_close w cl s)) = us_listeners s"
  "us_listeners (ui_on_error w s) = us_listeners s" "us_listeners (ui_timer_fires k s) = us_listeners s"
  "us_listeners (fst (on_status l s)) = us_listeners s" "us_listeners (off_status l s) = us_listeners s"
  by (simp_all add: page_ops split: option.split)

lemma page_run_listeners: "page_run tidy s live mounted ended outs \<Longrightarrow> listeners_ok s live"
proof (induction rule: page_run.induct)
  case (run_follow s live mounted ended outs l i)
  then show ?case
    by (auto simp: listeners_ok_def subscribe_console_def Let_def listen_listeners)
next
  case (run_leave s live mounted ended outs l i)
  then show ?case
    by (auto simp: listeners_ok_def unsubscribe_console_def Let_def unlisten_listeners)
qed (auto simp: listeners_ok_def listen_listeners unlisten_listeners initial_socket_def)

section \<open>Tidy runs have one socket\<close>

definition one_socket :: "ui_socket \<Rightarrow> bool" where
  "one_socket s \<longleftrightarrow> length (us_timers s) \<le> 1 \<and> (us_ws s \<noteq> None \<longrightarrow> us_timers s = [])
     \<and> (\<forall>w. ws_state s w = Ws_Connecting \<or> ws_state s w = Ws_Open \<longrightarrow> us_ws s = Some w)"

lemma page_run_one: "page_run tidy s live mounted ended outs \<Longrightarrow> tidy \<Longrightarrow> one_socket s"
proof (induction rule: page_run.induct)
  case run_init
  show ?case by (simp add: one_socket_def initial_socket_def ws_state_def)
next
  case (run_start s live ended outs)
  then have "us_ws s = None" using page_run_timing [OF run_start.hyps(1)] by (simp add: timing_ok_def)
  then show ?case using run_start by (auto simp: one_socket_def start_socket_def)
next
  case (run_timer s live mounted ended outs k)
  then show ?case by (auto simp: one_socket_def ui_timer_fires_def)
qed (auto simp: one_socket_def page_ops split: if_splits option.splits,
    (metis ws_state_beyond not_less ready_state.distinct option.inject)+)

section \<open>What listeners hear\<close>

definition wants :: "('m, 'p) ui_event \<Rightarrow> ui_listener \<Rightarrow> bool" where
  "wants ev l = (case l of Console_Follower _ i \<Rightarrow> event_instance ev = Some i | Plain_Listener _ \<Rightarrow> True)"

lemma heard_by_all: "run_listeners (\<lambda>_. False) ev ls = map (\<lambda>l. Heard l ev) (filter (wants ev) ls)"
  by (induction ls) (auto simp: wants_def split: ui_listener.split)

lemma count_distinct: "distinct xs \<Longrightarrow> count_list xs x = (if x \<in> set xs then 1 else 0)"
  by (induction xs) auto

lemma count_cache [simp]: "count_list (map On_Cache es) (Heard l ev) = 0"
  by (induction es) auto

lemma count_heard: "count_list (map (\<lambda>l. Heard l ev) ls) (Heard l ev) = count_list ls l"
  by (induction ls) auto

lemma heard_once:
  assumes "listeners_ok s live" and ev: "event_name ev = console_event" "event_instance ev = Some i"
  shows "count_list (dispatch (\<lambda>_. False) ev s) (Heard (Console_Follower l j) ev) = (if (l, j) \<in> live \<and> j = i then 1 else 0)"
proof -
  let ?ls = "filter (wants ev) (map snd (filter (\<lambda>x. fst x = event_name ev) (us_listeners s)))"
  have "distinct ?ls" using assms by (auto simp: listeners_ok_def distinct_map inj_on_def)
  moreover have "Console_Follower l j \<in> set ?ls
      \<longleftrightarrow> wants ev (Console_Follower l j) \<and> (event_name ev, Console_Follower l j) \<in> set (us_listeners s)"
    by force
  then have "Console_Follower l j \<in> set ?ls \<longleftrightarrow> (l, j) \<in> live \<and> j = i"
    using assms by (auto simp: listeners_ok_def wants_def)
  ultimately show ?thesis by (simp add: dispatch_def heard_by_all count_heard count_distinct)
qed

lemma console_keys: "counted_ok s live \<Longrightarrow> fst ` set (us_consoles s) = {i. followers live i \<noteq> {}}"
  by (rule set_eqI) (simp add: keys_iff counted_ok_def)

lemma scope_has_int: "scope_has scope (int i) = in_scope scope i"
  by (simp add: scope_has_def in_scope_def split: option.split)

lemma open_asks_again:
  assumes "counted_ok s live" and w: "us_ws s = Some w" "ws_state s w = Ws_Connecting"
  shows "set (sent_on w (snd (ui_on_open w s :: ('m, 'p) page_step))) = {Sub (int i) | i. followers live i \<noteq> {}}
    \<and> distinct (sent_on w (snd (ui_on_open w s :: ('m, 'p) page_step)))"
proof -
  have "sent_on w (snd (ui_on_open w s :: ('m, 'p) page_step)) = map (\<lambda>i. Sub (int i)) (map fst (us_consoles s))"
    using w live_socket_known [of s w] by (simp add: ui_on_open_def Let_def case_prod_beta del: map_map)
  moreover have "distinct (map (\<lambda>i. Sub (int i)) (map fst (us_consoles s)))"
    using assms by (auto simp: counted_ok_def distinct_map inj_on_def)
  moreover have "set (map (\<lambda>i. Sub (int i)) (map fst (us_consoles s))) = {Sub (int i) | i. followers live i \<noteq> {}}"
    using console_keys [OF assms(1)] by (auto simp del: map_map simp: image_iff)
  ultimately show ?thesis by simp
qed

section \<open>Properties\<close>

text \<open>C18. The console of an instance a page follows is the one it is sent: once the server has taken what the
  page's open socket sent, it sends that socket the console lines of exactly the instances some component on the
  page follows and its user may see, through every reconnection; a page that is told of lines gives them to each
  follower of the instance once and to nobody else; and if the layout is only mounted when no retry is pending,
  no other socket is open, so each line is heard once.\<close>

theorem console_follows_screen:
  assumes run: "page_run tidy s live mounted ended outs" and current: "us_ws s = Some w"
    and opened: "ws_state s w = Ws_Open" and new: "uc_consoles c = {}"
  shows "(visible_to (foldl (\<lambda>c m. subscribe (Some m) c) c (sent_on w outs)) (Instance_Console_Event i stream lines :: ('m, 'p) ui_event)
        \<longleftrightarrow> followers live i \<noteq> {} \<and> in_scope (uc_scope c) i)
    \<and> count_list (dispatch (\<lambda>_. False) (Instance_Console_Event i stream lines :: ('m, 'p) ui_event) s)
        (Heard (Console_Follower l j) (Instance_Console_Event i stream lines))
      = (if (l, j) \<in> live \<and> j = i then 1 else 0)
    \<and> (tidy \<longrightarrow> (\<forall>v. ws_state s v = Ws_Open \<longrightarrow> v = w))"
proof (intro conjI)
  have ok: "sends_ok s outs" "counted_ok s live" using page_run_sends [OF run] by simp_all
  then have f: "followed (sent_on w outs) = int ` {i. followers live i \<noteq> {}}"
    using current opened console_keys [OF ok(2)] by (simp add: sends_ok_def)
  show "visible_to (foldl (\<lambda>c m. subscribe (Some m) c) c (sent_on w outs)) (Instance_Console_Event i stream lines :: ('m, 'p) ui_event)
      \<longleftrightarrow> followers live i \<noteq> {} \<and> in_scope (uc_scope c) i"
    using server_follows [OF new, of "sent_on w outs"] by (auto simp: visible_to_def f scope_has_int)
  show "count_list (dispatch (\<lambda>_. False) (Instance_Console_Event i stream lines :: ('m, 'p) ui_event) s)
        (Heard (Console_Follower l j) (Instance_Console_Event i stream lines))
      = (if (l, j) \<in> live \<and> j = i then 1 else 0)"
    using heard_once [OF page_run_listeners [OF run], of "Instance_Console_Event i stream lines" i l j]
    by (simp add: console_event_def)
  show "tidy \<longrightarrow> (\<forall>v. ws_state s v = Ws_Open \<longrightarrow> v = w)"
    using page_run_one [OF run] current by (auto simp: one_socket_def)
qed

definition followed_page :: ui_socket where
  "followed_page = \<lparr>us_ws = Some 0, us_has_cache = True, us_listeners = [(console_event, Console_Follower 0 1)],
     us_consoles = [(1, 1)], us_retry = 1000, us_stopped = False, us_status_listeners = [], us_connected = True,
     us_sockets = [Ws_Open], us_timers = []\<rparr>"

definition lost_page :: ui_socket where
  "lost_page = followed_page\<lparr>us_ws := None, us_retry := 2000, us_connected := False, us_sockets := [Ws_Closed],
     us_timers := [1000]\<rparr>"

definition asked :: "nat \<Rightarrow> (unit, unit) page_output list" where
  "asked w = [Socket_Sent w (Sub 1), On_Cache (Invalidate [])]"

lemmas page_eval = page_ops initial_socket_def connect_def send_ui_def set_connected_def set_ws_def close_ws_def
  ws_state_def listen_def unlisten_def console_event_def asked_def close_reconnect_def max_retry_def

lemma followed_page_run: "page_run tidy followed_page {(0, 1)} True False (asked 0)"
  using run_open [OF run_follow [OF run_start [OF run_init], where l = 0 and i = 1], where w = 0]
  by (simp add: page_eval followed_page_def)

lemma lost_page_run: "page_run tidy lost_page {(0, 1)} True False (asked 0)"
  using run_close [OF followed_page_run, where w = 0 and cl = 1006]
  by (simp add: page_eval followed_page_def lost_page_def)

definition sample_viewer :: ui_client where
  "sample_viewer = \<lparr>uc_id = 1, uc_user_id = 5, uc_admin = False, uc_scope = Some [1 \<mapsto> Viewer], uc_nodes = Some {}, uc_consoles = {}\<rparr>"

lemma console_follows_screen_witness:
  "visible_to (foldl (\<lambda>c m. subscribe (Some m) c) sample_viewer (sent_on 0 (asked 0))) (Instance_Console_Event 1 Console_Stream [] :: (unit, unit) ui_event)
    \<and> count_list (dispatch (\<lambda>_. False) (Instance_Console_Event 1 Console_Stream [] :: (unit, unit) ui_event) followed_page)
      (Heard (Console_Follower 0 1) (Instance_Console_Event 1 Console_Stream [])) = 1
    \<and> {v. ws_state followed_page v = Ws_Open} = {0}"
proof -
  have page: "us_ws followed_page = Some 0" "ws_state followed_page 0 = Ws_Open"
    by (simp_all add: followed_page_def ws_state_def)
  have viewer: "uc_consoles sample_viewer = {}" "in_scope (uc_scope sample_viewer) 1" "followers {(0, 1)} 1 \<noteq> {}"
    by (simp_all add: sample_viewer_def in_scope_def followers_def)
  note holds = console_follows_screen [OF followed_page_run [of True] page viewer(1), of 1 Console_Stream "[]" 0 1]
  then have "{v. ws_state followed_page v = Ws_Open} = {0}" using page by blast
  then show ?thesis using holds viewer(2,3) by (auto simp del: One_nat_def)
qed

text \<open>C32. A page gives up on its socket only when its session ended: while the layout is mounted and the page has no
  socket, a retry is pending, after at most fifteen seconds; whichever retry fires makes a socket, and once that
  opens the page is shown as connected, every console it follows is asked for again, every cached answer is
  asked for anew and the next retry comes after one second.\<close>

theorem page_reconnects:
  assumes run: "page_run tidy s live True False outs" and none: "us_ws s = None"
  shows "us_timers s \<noteq> [] \<and> (\<forall>d\<in>set (us_timers s). d \<le> max_retry)
    \<and> (\<forall>k<length (us_timers s). let t = ui_timer_fires k s; w = length (us_sockets s);
          r = ui_on_open w t :: ('m, 'p) page_step in
        us_ws t = Some w \<and> ws_state t w = Ws_Connecting \<and> us_connected (fst r) \<and> us_retry (fst r) = 1000
        \<and> set (sent_on w (snd r)) = {Sub (int i) | i. followers live i \<noteq> {}} \<and> distinct (sent_on w (snd r))
        \<and> On_Cache (Invalidate []) \<in> set (snd r))"
proof -
  have t: "timing_ok s True False" and c: "counted_ok s live"
    using page_run_timing [OF run] page_run_sends [OF run] by simp_all
  then have t: "us_timers s \<noteq> []" "\<forall>d\<in>set (us_timers s). d \<le> max_retry" "\<not> us_stopped s" "us_has_cache s"
    using none by (auto simp: timing_ok_def retry_delays_def max_retry_def)
  let ?w = "length (us_sockets s)"
  have fired: "us_ws (ui_timer_fires k s) = Some ?w" "ws_state (ui_timer_fires k s) ?w = Ws_Connecting"
    "us_has_cache (ui_timer_fires k s)" "counted_ok (ui_timer_fires k s) live" for k
    using t c same_counts by (simp_all add: ui_timer_fires_def counted_ok_def)
  then have "us_connected (fst (ui_on_open ?w (ui_timer_fires k s) :: ('m, 'p) page_step))"
    "us_retry (fst (ui_on_open ?w (ui_timer_fires k s) :: ('m, 'p) page_step)) = 1000"
    "On_Cache (Invalidate []) \<in> set (snd (ui_on_open ?w (ui_timer_fires k s) :: ('m, 'p) page_step))" for k
    by (simp_all add: ui_on_open_def Let_def case_prod_beta)
  moreover have "set (sent_on ?w (snd (ui_on_open ?w (ui_timer_fires k s) :: ('m, 'p) page_step))) = {Sub (int i) | i. followers live i \<noteq> {}}"
    "distinct (sent_on ?w (snd (ui_on_open ?w (ui_timer_fires k s) :: ('m, 'p) page_step)))" for k
    using open_asks_again [OF fired(4) fired(1,2), of k] by blast+
  ultimately show ?thesis using t fired by (simp add: Let_def)
qed

lemma page_reconnects_witness:
  "us_ws lost_page = None \<and> us_timers lost_page = [1000]
    \<and> us_ws (ui_timer_fires 0 lost_page) = Some 1
    \<and> set (sent_on 1 (snd (ui_on_open 1 (ui_timer_fires 0 lost_page) :: (unit, unit) page_step))) = {Sub 1}"
proof -
  have "us_ws lost_page = None" "us_timers lost_page = [1000]" "length (us_sockets lost_page) = 1"
    by (simp_all add: lost_page_def)
  moreover have "{Sub (int i) |i. followers {(0, 1)} i \<noteq> {}} = {Sub 1}" by (auto simp: followers_def)
  ultimately show ?thesis using page_reconnects [OF lost_page_run [of True]] by (auto simp: Let_def)
qed

section \<open>A retry that outlives its mounting\<close>

text \<open>
  \<open>stop\<close> does not cancel a pending retry, and one that fires after the next \<open>start\<close> replaces the socket that made
  without closing it: the server then sends every event twice, and the replaced socket keeps the subscriptions
  the page gives up.
\<close>

definition doubled_page :: ui_socket where
  "doubled_page = followed_page\<lparr>us_ws := Some 2, us_sockets := [Ws_Closed, Ws_Open, Ws_Open]\<rparr>"

lemma doubled_page_run: "page_run False doubled_page {(0, 1)} True False (asked 0 @ asked 1 @ asked 2)"
proof -
  have "page_run False (lost_page\<lparr>us_stopped := True\<rparr>) {(0, 1)} False False (asked 0)"
    using run_stop [OF lost_page_run] by (simp add: page_eval followed_page_def lost_page_def)
  from run_open [OF run_start [OF this], where w = 1]
  have "page_run False (followed_page\<lparr>us_ws := Some 1, us_sockets := [Ws_Closed, Ws_Open], us_timers := [1000]\<rparr>)
      {(0, 1)} True False (asked 0 @ asked 1)"
    by (simp add: page_eval followed_page_def lost_page_def)
  from run_open [OF run_timer [OF this, where k = 0], where w = 2] show ?thesis
    by (simp add: page_eval followed_page_def doubled_page_def numeral_2_eq_2)
qed

theorem stale_retry_doubles:
  "page_run False doubled_page {(0, 1)} True False (asked 0 @ asked 1 @ asked 2)
    \<and> us_ws doubled_page = Some 2 \<and> ws_state doubled_page 1 = Ws_Open \<and> ws_state doubled_page 2 = Ws_Open
    \<and> (\<forall>w\<in>{1, 2}. visible_to (foldl (\<lambda>c m. subscribe (Some m) c) sample_viewer (sent_on w (asked 0 @ asked 1 @ asked 2)))
        (Instance_Console_Event 1 Console_Stream [] :: (unit, unit) ui_event))
    \<and> sent_on 1 (snd (unsubscribe_console 0 1 doubled_page :: (unit, unit) page_step)) = []
    \<and> sent_on 2 (snd (unsubscribe_console 0 1 doubled_page :: (unit, unit) page_step)) = [Unsub 1]"
proof (intro conjI)
  show "page_run False doubled_page {(0, 1)} True False (asked 0 @ asked 1 @ asked 2)" by (rule doubled_page_run)
  show "\<forall>w\<in>{1, 2}. visible_to (foldl (\<lambda>c m. subscribe (Some m) c) sample_viewer (sent_on w (asked 0 @ asked 1 @ asked 2)))
        (Instance_Console_Event 1 Console_Stream [] :: (unit, unit) ui_event)"
    by (simp add: asked_def visible_to_def subscribe_def sample_viewer_def in_scope_def scope_has_def)
qed (simp_all add: page_eval doubled_page_def followed_page_def)

end
