(* ===== verification/Ui_Cache.thy ===== *)
theory Ui_Cache
  imports Ui_Socket Supervisor
begin

text \<open>
  What the page keeps of the panel and what it lets a user press: the cached answers the events are patched into
  (\<open>dispatch\<close> of web/src/ws/ui-socket.ts, \<open>patchInstanceCaches\<close> of web/src/api/instances.ts), the buttons
  (web/src/components/instances/power-buttons.tsx, the console's input, web/src/lib/status.ts) and how an answer
  becomes an error (web/src/api/client.ts). The cache library is its entries by kind: the pages of instance and
  node lists under whatever filters they were asked with, absent while they load, the details by id, and the
  keys it was told to refetch. When a node measured its metrics is an argument.
\<close>

section \<open>Cached rows\<close>

record cached_instance =
  ci_id :: nat
  ci_my_role :: "instance_role option"
  ci_status :: instance_status
  ci_error :: "string option"
  ci_last_stats :: "instance_stats option"
  ci_players_online :: "int option"

record 'm cached_node =
  cn_id :: nat
  cn_last_metrics :: "'m option"
  cn_last_seen_at :: "int option"

record 'm query_cache =
  qc_instance_lists :: "cached_instance list option list"
  qc_instance :: "nat \<rightharpoonup> cached_instance"
  qc_node_lists :: "'m cached_node list option list"
  qc_every_node :: "'m cached_node list option"
  qc_node :: "nat \<rightharpoonup> 'm cached_node"
  qc_refetch :: "key_part list list"

definition patch_instance_caches :: "nat \<Rightarrow> (cached_instance \<Rightarrow> cached_instance) \<Rightarrow> 'm query_cache \<Rightarrow> 'm query_cache" where
  "patch_instance_caches i f c =
     c\<lparr>qc_instance_lists := map (map_option (map (\<lambda>r. if ci_id r = i then f r else r))) (qc_instance_lists c),
       qc_instance := (qc_instance c)(i := map_option f (qc_instance c i))\<rparr>"

definition patch_node_caches :: "nat \<Rightarrow> ('m cached_node \<Rightarrow> 'm cached_node) \<Rightarrow> 'm query_cache \<Rightarrow> 'm query_cache" where
  "patch_node_caches n f c =
     c\<lparr>qc_node_lists := map (map_option (map (\<lambda>r. if cn_id r = n then f r else r))) (qc_node_lists c),
       qc_every_node := map_option (map (\<lambda>r. if cn_id r = n then f r else r)) (qc_every_node c),
       qc_node := (qc_node c)(n := map_option f (qc_node c n))\<rparr>"

fun apply_patch :: "('m \<Rightarrow> int) \<Rightarrow> 'm cache_patch \<Rightarrow> 'm query_cache \<Rightarrow> 'm query_cache" where
  "apply_patch measured (Patch_Status i st err) c = patch_instance_caches i (\<lambda>r. r\<lparr>ci_status := st, ci_error := err\<rparr>) c"
| "apply_patch measured (Patch_Stats i stats) c = patch_instance_caches i (\<lambda>r. r\<lparr>ci_last_stats := Some stats\<rparr>) c"
| "apply_patch measured (Patch_Online i n) c =
     patch_instance_caches i (\<lambda>r. if ci_players_online r \<noteq> None then r\<lparr>ci_players_online := Some n\<rparr> else r) c"
| "apply_patch measured (Patch_Metrics n m) c =
     patch_node_caches n (\<lambda>r. r\<lparr>cn_last_metrics := Some m, cn_last_seen_at := Some (measured m)\<rparr>) c"

fun apply_effect :: "('m \<Rightarrow> int) \<Rightarrow> 'm cache_effect \<Rightarrow> 'm query_cache \<Rightarrow> 'm query_cache" where
  "apply_effect measured (Invalidate k) c = c\<lparr>qc_refetch := qc_refetch c @ [k]\<rparr>"
| "apply_effect measured (Patch p) c = apply_patch measured p c"

definition show_event :: "('m \<Rightarrow> int) \<Rightarrow> ('m, 'p) ui_event \<Rightarrow> 'm query_cache \<Rightarrow> 'm query_cache" where
  "show_event measured ev c = foldl (\<lambda>c e. apply_effect measured e c) c (cache_effects ev)"

section \<open>Controls\<close>

definition status_busy :: "instance_status \<Rightarrow> bool" where
  "status_busy st \<longleftrightarrow> st \<in> {Installing, Starting, Stopping}"

definition power_offered :: "instance_status \<Rightarrow> power_action \<Rightarrow> bool" where
  "power_offered st action \<longleftrightarrow> st \<in> set (power_allowed action)"

definition command_offered :: "instance_status \<Rightarrow> bool" where
  "command_offered st \<longleftrightarrow> st = Running \<or> st = Starting"

text \<open>The mutation that is pending: the instance and the action it was called with.\<close>

definition power_button :: "(nat \<times> power_action) option \<Rightarrow> cached_instance \<Rightarrow> power_action \<Rightarrow> bool" where
  "power_button pending r action \<longleftrightarrow> role_allows (ci_my_role r) Power \<and> power_offered (ci_status r) action
     \<and> \<not> (\<exists>a. pending = Some (ci_id r, a))"

definition command_input :: "cached_instance \<Rightarrow> bool" where
  "command_input r \<longleftrightarrow> role_allows (ci_my_role r) Command \<and> command_offered (ci_status r)"

section \<open>Answers\<close>

text \<open>The error an answer carries, as far as it has one: any of its fields may be missing.\<close>

record error_body =
  eb_code :: "string option"
  eb_message :: "string option"
  eb_details :: "(string \<times> detail) list"

datatype 'b api_answer = No_Content | Answered 'b | Api_Error http_error bool

definition request_failed :: "int \<Rightarrow> string" where
  "request_failed st = ''Request failed ('' @ string_of_int st @ '')''"

text \<open>The last argument of \<open>Api_Error\<close> tells whether the page is told that its session is gone. \<open>body\<close> is what the
  text parses to.\<close>

definition api_answer_of :: "int \<Rightarrow> string \<Rightarrow> 'b \<Rightarrow> error_body option \<Rightarrow> 'b api_answer" where
  "api_answer_of st path body err =
     (if st = 204 then No_Content
      else if 200 \<le> st \<and> st \<le> 299 then Answered body
      else let e = (case err of None \<Rightarrow> \<lparr>eb_code = None, eb_message = None, eb_details = []\<rparr> | Some e \<Rightarrow> e) in
        Api_Error (HttpError st (case eb_code e of None \<Rightarrow> ''http_error'' | Some k \<Rightarrow> k)
          (case eb_message e of None \<Rightarrow> request_failed st | Some m \<Rightarrow> m) (eb_details e))
          (st = 401 \<and> \<not> prefix ''/auth/'' path))"

text \<open>What the panel's error handler answers for an error.\<close>

definition error_answer :: "http_error \<Rightarrow> int \<times> error_body option" where
  "error_answer e = (status e, Some \<lparr>eb_code = Some (code e), eb_message = Some (message e), eb_details = details e\<rparr>)"

lemma errors_arrive: "\<not> (200 \<le> status e \<and> status e \<le> 299) \<Longrightarrow>
    api_answer_of (fst (error_answer e)) path body (snd (error_answer e))
      = Api_Error e (status e = 401 \<and> \<not> prefix ''/auth/'' path)"
  by (cases e) (auto simp: api_answer_of_def error_answer_def)

lemma errors_arrive_witness: "api_answer_of 409 ''/instances'' () (snd (error_answer (conflict ''busy''))) = Api_Error (conflict ''busy'') False"
  using errors_arrive [of "conflict ''busy''" "''/instances''" "()"] by (simp add: error_answer_def conflict_def)

section \<open>Every copy follows the events\<close>

text \<open>What an event says of a row.\<close>

definition row_after :: "cached_instance \<Rightarrow> ('m, 'p) ui_event \<Rightarrow> cached_instance" where
  "row_after r ev = (if event_instance ev \<noteq> Some (ci_id r) then r else (case ev of
     Instance_Status_Event _ st err \<Rightarrow> r\<lparr>ci_status := st, ci_error := err\<rparr>
   | Instance_Stats_Event _ stats \<Rightarrow> r\<lparr>ci_last_stats := Some stats\<rparr>
   | Instance_Players_Event _ n \<Rightarrow> if ci_players_online r \<noteq> None then r\<lparr>ci_players_online := Some n\<rparr> else r
   | _ \<Rightarrow> r))"

definition keyed :: "'m query_cache \<Rightarrow> bool" where
  "keyed c \<longleftrightarrow> (\<forall>i r. qc_instance c i = Some r \<longrightarrow> ci_id r = i)"

lemma row_after_id [simp]: "ci_id (row_after r ev) = ci_id r"
  by (simp add: row_after_def split: ui_event.split)

lemma rows_after_id [simp]: "ci_id (foldl row_after r evs) = ci_id r"
  by (induction evs arbitrary: r) simp_all

lemma show_event_rows:
  assumes "keyed c"
  shows "qc_instance_lists (show_event measured ev c) = map (map_option (map (\<lambda>r. row_after r ev))) (qc_instance_lists c)
    \<and> qc_instance (show_event measured ev c) = (\<lambda>i. map_option (\<lambda>r. row_after r ev) (qc_instance c i))"
proof -
  have same: "map_option (\<lambda>r. row_after r ev) (qc_instance c j) = qc_instance c j" if "event_instance ev \<noteq> Some j" for j
    using assms that by (cases "qc_instance c j") (auto simp: keyed_def row_after_def)
  have here: "map_option (\<lambda>r. row_after r ev) (qc_instance c j)
      = map_option (\<lambda>r. case ev of
     Instance_Status_Event _ st err \<Rightarrow> r\<lparr>ci_status := st, ci_error := err\<rparr>
   | Instance_Stats_Event _ stats \<Rightarrow> r\<lparr>ci_last_stats := Some stats\<rparr>
   | Instance_Players_Event _ n \<Rightarrow> if ci_players_online r \<noteq> None then r\<lparr>ci_players_online := Some n\<rparr> else r
   | _ \<Rightarrow> r) (qc_instance c j)" if "event_instance ev = Some j" for j
    using assms that by (cases "qc_instance c j") (auto simp: keyed_def row_after_def)
  show ?thesis
    by (cases ev) (use same here in \<open>auto simp: show_event_def patch_instance_caches_def patch_node_caches_def row_after_def fun_eq_iff
        option.map_ident_strong list.map_ident_strong intro!: list.map_cong option.map_cong split: option.split\<close>)
qed

lemma show_event_keyed: "keyed c \<Longrightarrow> keyed (show_event measured ev c)"
  using show_event_rows [of c measured ev] by (auto simp: keyed_def)

definition show_events :: "('m \<Rightarrow> int) \<Rightarrow> ('m, 'p) ui_event list \<Rightarrow> 'm query_cache \<Rightarrow> 'm query_cache" where
  "show_events measured evs c = foldl (\<lambda>c ev. show_event measured ev c) c evs"

lemma show_events_rows:
  "keyed c \<Longrightarrow> keyed (show_events measured evs c)
    \<and> qc_instance_lists (show_events measured evs c) = map (map_option (map (\<lambda>r. foldl row_after r evs))) (qc_instance_lists c)
    \<and> qc_instance (show_events measured evs c) = (\<lambda>i. map_option (\<lambda>r. foldl row_after r evs) (qc_instance c i))"
proof (induction evs rule: rev_induct)
  case (snoc ev evs)
  then show ?case using show_event_rows [of "show_events measured evs c" measured ev] show_event_keyed [of "show_events measured evs c" measured ev]
    by (simp add: show_events_def option.map_comp comp_def)
qed (simp add: show_events_def option.map_ident [unfolded id_def] map_idI)

text \<open>The rows a page shows of an instance.\<close>

definition copies :: "'m query_cache \<Rightarrow> nat \<Rightarrow> cached_instance set" where
  "copies c i = {r. ci_id r = i \<and> ((\<exists>page. Some page \<in> set (qc_instance_lists c) \<and> r \<in> set page) \<or> qc_instance c i = Some r)}"

lemma loaded_page_map: "Some page \<in> set (map (map_option (map f)) ls) \<longleftrightarrow> (\<exists>p0. Some p0 \<in> set ls \<and> page = map f p0)"
  by (auto simp: image_iff map_option_eq_Some eq_commute [of "Some _"])

lemma copies_map:
  assumes f: "\<And>r. ci_id (f r) = ci_id r" and "qc_instance_lists d = map (map_option (map f)) (qc_instance_lists c)"
    and "qc_instance d = (\<lambda>i. map_option f (qc_instance c i))"
  shows "copies d i = f ` copies c i"
proof (rule set_eqI)
  fix r
  have "r \<in> copies d i \<longleftrightarrow> ci_id r = i \<and> ((\<exists>p0. Some p0 \<in> set (qc_instance_lists c) \<and> r \<in> set (map f p0))
      \<or> (\<exists>r0. qc_instance c i = Some r0 \<and> r = f r0))"
    unfolding copies_def mem_Collect_eq assms loaded_page_map by (auto simp: map_option_eq_Some)
  also have "\<dots> \<longleftrightarrow> r \<in> f ` copies c i"
    unfolding copies_def image_iff set_map using f by (simp add: image_iff) metis
  finally show "r \<in> copies d i \<longleftrightarrow> r \<in> f ` copies c i" .
qed

definition last_status :: "nat \<Rightarrow> ('m, 'p) ui_event list \<Rightarrow> instance_status \<Rightarrow> instance_status" where
  "last_status i evs st = foldl (\<lambda>st ev. case ev of Instance_Status_Event j st' _ \<Rightarrow> if j = i then st' else st | _ \<Rightarrow> st) st evs"

lemma status_after: "ci_status (foldl row_after r evs) = last_status (ci_id r) evs (ci_status r)"
proof (induction evs arbitrary: r)
  case (Cons ev evs)
  have "ci_status (row_after r ev) = (case ev of Instance_Status_Event j st' _ \<Rightarrow> if j = ci_id r then st' else ci_status r | _ \<Rightarrow> ci_status r)"
    by (auto simp: row_after_def split: ui_event.split)
  then show ?case using Cons [of "row_after r ev"] by (simp add: last_status_def)
qed (simp add: last_status_def)

text \<open>Whatever events arrive, in whatever order, every cached copy of an instance, in every list and in its detail,
  is the copy that was there with the events of that instance applied in order: it shows the status of the last
  status event, copies that agreed still agree, no list gains, loses or reorders rows, and what is cached of
  other instances is untouched.\<close>

theorem cached_copies_follow:
  assumes "keyed c"
  shows "copies (show_events measured evs c) i = (\<lambda>r. foldl row_after r evs) ` copies c i
    \<and> (\<forall>r\<in>copies (show_events measured evs c) i. \<exists>r0\<in>copies c i. ci_status r = last_status i evs (ci_status r0))
    \<and> map (map_option (map ci_id)) (qc_instance_lists (show_events measured evs c)) = map (map_option (map ci_id)) (qc_instance_lists c)
    \<and> ((\<forall>ev\<in>set evs. event_instance ev \<noteq> Some i) \<longrightarrow> copies (show_events measured evs c) i = copies c i)"
proof (intro conjI)
  note rows = show_events_rows [OF assms, of measured evs]
  show all: "copies (show_events measured evs c) i = (\<lambda>r. foldl row_after r evs) ` copies c i"
    using rows by (intro copies_map) simp_all
  show "\<forall>r\<in>copies (show_events measured evs c) i. \<exists>r0\<in>copies c i. ci_status r = last_status i evs (ci_status r0)"
    unfolding all by (auto simp: status_after copies_def)
  show "map (map_option (map ci_id)) (qc_instance_lists (show_events measured evs c)) = map (map_option (map ci_id)) (qc_instance_lists c)"
    using rows by (simp add: option.map_comp comp_def)
  have "foldl row_after r evs = r" if "\<forall>ev\<in>set evs. event_instance ev \<noteq> Some (ci_id r)" for r
    using that by (induction evs) (simp_all add: row_after_def)
  then show "(\<forall>ev\<in>set evs. event_instance ev \<noteq> Some i) \<longrightarrow> copies (show_events measured evs c) i = copies c i"
    unfolding all by (force simp: copies_def image_iff)
qed

definition sample_row :: cached_instance where
  "sample_row = \<lparr>ci_id = 1, ci_my_role = Some Owner, ci_status = Stopped, ci_error = None, ci_last_stats = None,
     ci_players_online = None\<rparr>"

definition sample_cache :: "unit query_cache" where
  "sample_cache = \<lparr>qc_instance_lists = [Some [sample_row], None], qc_instance = [1 \<mapsto> sample_row], qc_node_lists = [],
     qc_every_node = None, qc_node = Map.empty, qc_refetch = []\<rparr>"

lemma cached_copies_follow_witness:
  "copies (show_events (\<lambda>_. 0) [Instance_Status_Event 1 Starting None, Instance_Status_Event 2 Crashed None,
      Instance_Status_Event 1 Running None :: (unit, unit) ui_event] sample_cache) 1 = {sample_row\<lparr>ci_status := Running\<rparr>}"
proof -
  have "keyed sample_cache" "copies sample_cache 1 = {sample_row}"
    by (auto simp: keyed_def copies_def sample_cache_def sample_row_def split: if_splits)
  then show ?thesis
    using cached_copies_follow [of sample_cache "\<lambda>_. 0" "[Instance_Status_Event 1 Starting None, Instance_Status_Event 2 Crashed None,
      Instance_Status_Event 1 Running None :: (unit, unit) ui_event]" 1]
    by (simp add: row_after_def sample_row_def)
qed

section \<open>Buttons and the server\<close>

lemma permission_granted: "assert_instance_permission st u iid perm \<in> range Inr \<longleftrightarrow> role_allows (role_on st u iid) perm"
  by (auto simp: assert_instance_permission_def role_allows_def split: option.split)

lemma power_failed_effects: "length (p_effects p) \<le> length (p_effects (fst (power_failed iid e p)))"
  by (auto simp: power_failed_def tell_def save_instance_def change_instances_def split: sum.split)

lemma power_taken_up:
  assumes "get_instance p iid = Inr i" "is_connected p (i_node_id i)" "i_installed_at i \<noteq> None"
  shows "fst (power_begin hmac iid action actor p) \<noteq> p \<longleftrightarrow> i_status i \<in> set (power_allowed action)"
proof (cases "i_status i \<in> set (power_allowed action)")
  case True
  have "length (p_effects p) < length (p_effects (fst (power_begin hmac iid action actor p)))"
    using assms True power_failed_effects [of "tell [Audit (Some actor) (''instance.'' @ action_name action) iid] p" iid]
    by (auto simp: power_begin_def assert_online_def guard_def Let_def tell_def split: sum.split prod.split)
      (metis Suc_le_eq fst_conv length_append_singleton)+
  then show ?thesis using True by auto
qed (use assms in \<open>simp add: power_begin_def assert_online_def guard_def\<close>)

text \<open>A button says what the server will do: for a row that shows the panel's status and the user's role, of an
  installed instance on a connected node, and with no power request of its own pending, a power button is
  enabled exactly if the server lets the user's request through its permission check and takes it up; the console's
  input likewise.\<close>

theorem buttons_match_server:
  assumes row: "get_instance p (ci_id r) = Inr i" "ci_status r = i_status i" "ci_my_role r = role_on (p_store p) u (ci_id r)"
    and ready: "is_connected p (i_node_id i)" "i_installed_at i \<noteq> None" and idle: "\<forall>a. pending \<noteq> Some (ci_id r, a)"
  shows "(power_button pending r action \<longleftrightarrow>
        assert_instance_permission (p_store p) u (ci_id r) Power \<in> range Inr
        \<and> fst (power_begin hmac (ci_id r) action actor p) \<noteq> p)
    \<and> (command_input r \<longleftrightarrow> assert_instance_permission (p_store p) u (ci_id r) Command \<in> range Inr
        \<and> command_begin (ci_id r) cmd p = Inr (Req_Command (i_uuid i) cmd))"
proof
  have "fst (power_begin hmac (ci_id r) action actor p) \<noteq> p \<longleftrightarrow> i_status i \<in> set (power_allowed action)"
    using assms by (simp add: power_taken_up)
  then show "power_button pending r action \<longleftrightarrow> assert_instance_permission (p_store p) u (ci_id r) Power \<in> range Inr
        \<and> fst (power_begin hmac (ci_id r) action actor p) \<noteq> p"
    using row idle by (simp add: power_button_def power_offered_def permission_granted)
next
  show "command_input r \<longleftrightarrow> assert_instance_permission (p_store p) u (ci_id r) Command \<in> range Inr
        \<and> command_begin (ci_id r) cmd p = Inr (Req_Command (i_uuid i) cmd)"
    using row ready by (simp add: command_input_def command_offered_def permission_granted command_begin_def
        assert_online_def guard_def)
qed

lemma buttons_match_server_witness:
  "power_button None sample_row Start
    \<and> assert_instance_permission (p_store sample_panel) (sample_user\<lparr>u_role := Admin\<rparr>) 1 Power \<in> range Inr
    \<and> fst (power_begin (\<lambda>m. m) 1 Start 5 sample_panel) \<noteq> sample_panel"
proof -
  have "get_instance sample_panel (ci_id sample_row) = Inr sample_instance"
    "ci_status sample_row = i_status sample_instance" "is_connected sample_panel (i_node_id sample_instance)"
    "i_installed_at sample_instance \<noteq> None"
    "ci_my_role sample_row = role_on (p_store sample_panel) (sample_user\<lparr>u_role := Admin\<rparr>) (ci_id sample_row)"
    by (simp_all add: get_instance_def find_instance_def sample_panel_def sample_row_def sample_store_defs is_connected_def role_on_def)
  note match = buttons_match_server [OF this(1,2,5,3,4), of None Start "\<lambda>m. m" 5]
  have "power_button None sample_row Start"
    by (simp add: power_button_def power_offered_def sample_row_def role_allows_def)
  moreover have "ci_id sample_row = 1" by (simp add: sample_row_def)
  ultimately show ?thesis using match by simp
qed

end
