(* ===== verification/Uploads.thy ===== *)
theory Uploads
  imports Ui_Cache Remote_Files
begin

text \<open>
  The uploads a page runs (\<open>Uploads\<close> and \<open>xhrSend\<close> of web/src/api/files.ts, with the tray of
  web/src/components/files/upload-tray.tsx that cancels and dismisses them). An id is its number; a request is
  named by the upload it belongs to and is in flight until the platform reports one of the three ways it can end.
  What the page tells outside is a list of outputs.
\<close>

datatype upload_phase = Up_Uploading | Up_Done | Up_Failed | Up_Cancelled

record upload_item =
  up_id :: nat
  up_instance :: nat
  up_name :: string
  up_path :: string
  up_size :: nat
  up_loaded :: nat
  up_state :: upload_phase
  up_error :: "string option"
  up_placing :: bool
  up_xhr :: "nat option"

record upload_store =
  us_items :: "upload_item list"
  us_seq :: nat
  us_in_flight :: "nat set"

datatype xhr_end = Xhr_Loaded int "error_body option" | Xhr_Lost | Xhr_Aborted

datatype upload_output = Upload_Put nat nat string bool | Upload_Ended nat nat

section \<open>Operations\<close>

definition xhr_outcome :: "xhr_end \<Rightarrow> unit result" where
  "xhr_outcome x = (case x of
     Xhr_Loaded st err \<Rightarrow> if 200 \<le> st \<and> st < 300 then Inr ()
       else let e = (case err of None \<Rightarrow> \<lparr>eb_code = None, eb_message = None, eb_details = []\<rparr> | Some e \<Rightarrow> e) in
         Inl (HttpError st (case eb_code e of None \<Rightarrow> ''http_error'' | Some k \<Rightarrow> k)
           (case eb_message e of None \<Rightarrow> ''Upload failed ('' @ string_of_int st @ '')'' | Some m \<Rightarrow> m) [])
   | Xhr_Lost \<Rightarrow> Inl (HttpError 0 ''network'' ''The connection was lost'' [])
   | Xhr_Aborted \<Rightarrow> Inl (HttpError 0 ''cancelled'' ''Cancelled'' []))"

definition set_upload :: "nat \<Rightarrow> (upload_item \<Rightarrow> upload_item) \<Rightarrow> upload_store \<Rightarrow> upload_store" where
  "set_upload k chg s = s\<lparr>us_items := map (\<lambda>u. if up_id u = k then chg u else u) (us_items s)\<rparr>"

definition start_upload :: "nat \<Rightarrow> string \<Rightarrow> string \<Rightarrow> nat \<Rightarrow> bool \<Rightarrow> string option \<Rightarrow> upload_store \<Rightarrow>
    upload_store \<times> upload_output list" where
  "start_upload inst dir file_name sz overwrite as_name s =
     (let k = us_seq s + 1; n = (case as_name of None \<Rightarrow> file_name | Some m \<Rightarrow> m); path = join_path dir n;
          s1 = s\<lparr>us_seq := k, us_items := us_items s @ [\<lparr>up_id = k, up_instance = inst, up_name = n, up_path = path,
            up_size = sz, up_loaded = 0, up_state = Up_Uploading, up_error = None, up_placing = False, up_xhr = None\<rparr>]\<rparr> in
      ((set_upload k (\<lambda>u. u\<lparr>up_xhr := Some k\<rparr>) s1)\<lparr>us_in_flight := insert k (us_in_flight s)\<rparr>,
       [Upload_Put k inst path overwrite]))"

definition upload_progress :: "nat \<Rightarrow> nat \<Rightarrow> upload_store \<Rightarrow> upload_store" where
  "upload_progress k n = set_upload k (\<lambda>u. u\<lparr>up_loaded := n\<rparr>)"

definition upload_sent :: "nat \<Rightarrow> upload_store \<Rightarrow> upload_store" where
  "upload_sent k = set_upload k (\<lambda>u. u\<lparr>up_loaded := up_size u, up_placing := True\<rparr>)"

definition settle_upload :: "nat \<Rightarrow> nat \<Rightarrow> xhr_end \<Rightarrow> upload_store \<Rightarrow> upload_store \<times> upload_output list" where
  "settle_upload k inst x s0 =
     (let s = s0\<lparr>us_in_flight := us_in_flight s0 - {k}\<rparr> in
      (case xhr_outcome x of
         Inr _ \<Rightarrow> set_upload k (\<lambda>u. u\<lparr>up_state := Up_Done, up_placing := False, up_xhr := None\<rparr>) s
       | Inl e \<Rightarrow> set_upload k (\<lambda>u. u\<lparr>up_state := (if code e = ''cancelled'' then Up_Cancelled else Up_Failed),
           up_error := (if code e = ''cancelled'' then None else Some (message e)), up_placing := False, up_xhr := None\<rparr>) s,
       [Upload_Ended k inst]))"

text \<open>\<open>abort\<close> of a request in flight ends it at once; of one that ended, it does nothing.\<close>

definition cancel_upload :: "nat \<Rightarrow> upload_store \<Rightarrow> upload_store \<times> upload_output list" where
  "cancel_upload k s = (case find (\<lambda>u. up_id u = k) (us_items s) of
     None \<Rightarrow> (s, [])
   | Some u \<Rightarrow> (case up_xhr u of
       None \<Rightarrow> (s, [])
     | Some x \<Rightarrow> if x \<in> us_in_flight s then settle_upload x (up_instance u) Xhr_Aborted s else (s, [])))"

definition dismiss_upload :: "nat \<Rightarrow> upload_store \<Rightarrow> upload_store" where
  "dismiss_upload k s = s\<lparr>us_items := filter (\<lambda>u. up_id u \<noteq> k) (us_items s)\<rparr>"

definition clear_finished :: "upload_store \<Rightarrow> upload_store" where
  "clear_finished s = s\<lparr>us_items := filter (\<lambda>u. up_state u = Up_Uploading) (us_items s)\<rparr>"

text \<open>The tray's cross: cancel while it uploads, dismiss afterwards.\<close>

definition upload_cross :: "upload_item \<Rightarrow> upload_store \<Rightarrow> upload_store \<times> upload_output list" where
  "upload_cross u s = (if up_state u = Up_Uploading then cancel_upload (up_id u) s else (dismiss_upload (up_id u) s, []))"

section \<open>Runs\<close>

text \<open>A run with everything put out: files are added, requests progress and end, the tray's buttons are pressed on
  what it shows, and finished or cancelled uploads go away on their own.\<close>

inductive upload_run :: "upload_store \<Rightarrow> upload_output list \<Rightarrow> bool" where
  up_init: "upload_run \<lparr>us_items = [], us_seq = 0, us_in_flight = {}\<rparr> []"
| up_start: "upload_run s outs \<Longrightarrow> start_upload inst dir n sz overwrite as_name s = (s', os) \<Longrightarrow> upload_run s' (outs @ os)"
| up_progress: "upload_run s outs \<Longrightarrow> k \<in> us_in_flight s \<Longrightarrow> (\<forall>u\<in>set (us_items s). up_id u = k \<longrightarrow> n \<le> up_size u \<and> \<not> up_placing u) \<Longrightarrow>
    upload_run (upload_progress k n s) outs"
| up_sent: "upload_run s outs \<Longrightarrow> k \<in> us_in_flight s \<Longrightarrow> upload_run (upload_sent k s) outs"
| up_end: "upload_run s outs \<Longrightarrow> u \<in> set (us_items s) \<Longrightarrow> up_id u \<in> us_in_flight s \<Longrightarrow>
    settle_upload (up_id u) (up_instance u) x s = (s', os) \<Longrightarrow> upload_run s' (outs @ os)"
| up_cross: "upload_run s outs \<Longrightarrow> u \<in> set (us_items s) \<Longrightarrow> upload_cross u s = (s', os) \<Longrightarrow> upload_run s' (outs @ os)"
| up_timeout: "upload_run s outs \<Longrightarrow> u \<in> set (us_items s) \<Longrightarrow> up_state u = Up_Done \<or> up_state u = Up_Cancelled \<Longrightarrow>
    upload_run (dismiss_upload (up_id u) s) outs"
| up_clear: "upload_run s outs \<Longrightarrow> upload_run (clear_finished s) outs"

definition item_ok :: "nat set \<Rightarrow> upload_item \<Rightarrow> bool" where
  "item_ok flight u \<longleftrightarrow> (up_state u = Up_Uploading \<longleftrightarrow> up_id u \<in> flight) \<and> up_xhr u = (if up_id u \<in> flight then Some (up_id u) else None)
     \<and> (up_placing u \<longrightarrow> up_id u \<in> flight \<and> up_loaded u = up_size u) \<and> up_loaded u \<le> up_size u
     \<and> (up_error u \<noteq> None \<longleftrightarrow> up_state u = Up_Failed)"

definition ends :: "nat \<Rightarrow> upload_output list \<Rightarrow> nat" where
  "ends k outs = length (filter (\<lambda>e. case e of Upload_Ended j _ \<Rightarrow> j = k | Upload_Put _ _ _ _ \<Rightarrow> False) outs)"

lemma ends_simps [simp]: "ends k [] = 0" "ends k (xs @ ys) = ends k xs + ends k ys"
  "ends k [Upload_Ended j i] = (if j = k then 1 else 0)" "ends k [Upload_Put a b c d] = 0"
  by (simp_all add: ends_def)

definition uploads_ok :: "upload_store \<Rightarrow> upload_output list \<Rightarrow> bool" where
  "uploads_ok s outs \<longleftrightarrow> distinct (map up_id (us_items s)) \<and> us_in_flight s \<subseteq> up_id ` set (us_items s)
     \<and> (\<forall>u\<in>set (us_items s). up_id u \<in> {1..us_seq s} \<and> item_ok (us_in_flight s) u \<and>
         (\<exists>ow. Upload_Put (up_id u) (up_instance u) (up_path u) ow \<in> set outs))
     \<and> (\<forall>k. ends k outs = (if k \<in> {1..us_seq s} \<and> k \<notin> us_in_flight s then 1 else 0))"

lemma set_upload_fields [simp]: "us_seq (set_upload k f s) = us_seq s" "us_in_flight (set_upload k f s) = us_in_flight s"
  "us_items (set_upload k f s) = map (\<lambda>u. if up_id u = k then f u else u) (us_items s)"
  by (simp_all add: set_upload_def)

lemma ids_same: "(\<And>u. up_id (f u) = up_id u) \<Longrightarrow> map up_id (map (\<lambda>u. if up_id u = k then f u else u) us) = map up_id us"
  by (simp add: if_distrib [of up_id] comp_def cong: if_cong)

text \<open>A change of one item, by what it must keep.\<close>

lemma uploads_ok_set:
  assumes ok: "uploads_ok s outs" and f: "\<And>u. up_id (f u) = up_id u" "\<And>u. up_instance (f u) = up_instance u" "\<And>u. up_path (f u) = up_path u"
    and flight: "flight = us_in_flight s \<or> flight = us_in_flight s - {k}"
    and item: "\<And>u. u \<in> set (us_items s) \<Longrightarrow> up_id u = k \<Longrightarrow> item_ok flight (f u)"
    and ended: "\<And>j. ends j os = (if j = k \<and> k \<in> us_in_flight s \<and> k \<notin> flight then 1 else 0)"
  shows "uploads_ok ((set_upload k f s)\<lparr>us_in_flight := flight\<rparr>) (outs @ os)"
proof -
  let ?g = "\<lambda>u. if up_id u = k then f u else u"
  have other: "item_ok flight u \<longleftrightarrow> item_ok (us_in_flight s) u" if "up_id u \<noteq> k" for u
    using that flight by (auto simp: item_ok_def)
  have known: "k \<in> us_in_flight s \<longrightarrow> k \<in> {1..us_seq s}" using ok by (force simp: uploads_ok_def)
  have "ends j outs = (if j \<in> {1..us_seq s} \<and> j \<notin> us_in_flight s then 1 else 0)" for j
    using ok by (simp add: uploads_ok_def)
  then have count: "ends j (outs @ os) = (if j \<in> {1..us_seq s} \<and> j \<notin> flight then 1 else 0)" for j
    using flight known by (cases "j = k") (auto simp: ended)
  have items: "up_id u \<in> {1..us_seq s} \<and> item_ok flight u
      \<and> (\<exists>ow. Upload_Put (up_id u) (up_instance u) (up_path u) ow \<in> set (outs @ os))"
    if "u \<in> set (map ?g (us_items s))" for u
  proof -
    from that obtain v where v: "v \<in> set (us_items s)" "u = ?g v" unfolding set_map by (elim imageE)
    have "up_id v \<in> {1..us_seq s} \<and> item_ok (us_in_flight s) v
        \<and> (\<exists>ow. Upload_Put (up_id v) (up_instance v) (up_path v) ow \<in> set outs)"
      using ok v(1) by (simp add: uploads_ok_def)
    then show ?thesis using item [OF v(1)] other [of v] v(2) f by auto
  qed
  have ids: "map up_id (map ?g (us_items s)) = map up_id (us_items s)" by (rule ids_same) (rule f)
  then have image: "up_id ` set (map ?g (us_items s)) = up_id ` set (us_items s)" by (metis set_map)
  have "distinct (map up_id (us_items s)) \<and> flight \<subseteq> up_id ` set (us_items s)"
    using ok flight unfolding uploads_ok_def by blast
  then have "distinct (map up_id (map ?g (us_items s)))" "flight \<subseteq> up_id ` set (map ?g (us_items s))"
    unfolding ids image by simp_all
  moreover have "us_items ((set_upload k f s)\<lparr>us_in_flight := flight\<rparr>) = map ?g (us_items s)"
    "us_in_flight ((set_upload k f s)\<lparr>us_in_flight := flight\<rparr>) = flight"
    "us_seq ((set_upload k f s)\<lparr>us_in_flight := flight\<rparr>) = us_seq s"
    by (simp_all add: set_upload_def)
  ultimately show ?thesis using items count unfolding uploads_ok_def by metis
qed

lemma uploads_ok_start:
  assumes ok: "uploads_ok s outs" and step: "start_upload inst dir n sz overwrite as_name s = (s', os)"
  shows "uploads_ok s' (outs @ os)"
proof -
  have fresh: "Suc (us_seq s) \<notin> up_id ` set (us_items s)" "Suc (us_seq s) \<notin> us_in_flight s"
    using ok by (force simp: uploads_ok_def)+
  have same: "map (\<lambda>u. if up_id u = Suc (us_seq s) then u\<lparr>up_xhr := Some (Suc (us_seq s))\<rparr> else u) (us_items s) = us_items s"
    using fresh by (intro map_idI) (auto simp: image_iff)
  let ?n = "case as_name of None \<Rightarrow> n | Some m \<Rightarrow> m"
  have s': "s' = s\<lparr>us_seq := Suc (us_seq s), us_items := us_items s @ [\<lparr>up_id = Suc (us_seq s), up_instance = inst, up_name = ?n,
      up_path = join_path dir ?n, up_size = sz, up_loaded = 0, up_state = Up_Uploading, up_error = None, up_placing = False,
      up_xhr = Some (Suc (us_seq s))\<rparr>], us_in_flight := insert (Suc (us_seq s)) (us_in_flight s)\<rparr>"
    and os: "os = [Upload_Put (Suc (us_seq s)) inst (join_path dir ?n) overwrite]"
    using step same by (simp_all add: start_upload_def Let_def set_upload_def)
  have "item_ok (insert (Suc (us_seq s)) (us_in_flight s)) u" if "u \<in> set (us_items s)" for u
    using that ok fresh by (auto simp: item_ok_def uploads_ok_def image_iff)
  then have "\<forall>u\<in>set (us_items s'). up_id u \<in> {1..us_seq s'} \<and> item_ok (us_in_flight s') u
      \<and> (\<exists>ow. Upload_Put (up_id u) (up_instance u) (up_path u) ow \<in> set (outs @ os))"
    using ok by (auto simp: s' os uploads_ok_def item_ok_def)
  moreover have "ends k (outs @ os) = (if k \<in> {1..us_seq s'} \<and> k \<notin> us_in_flight s' then 1 else 0)" for k
    using ok fresh by (auto simp: s' os uploads_ok_def)
  ultimately show ?thesis using ok fresh unfolding uploads_ok_def by (auto simp: s')
qed

lemma uploads_ok_settle:
  assumes ok: "uploads_ok s outs" and k: "u \<in> set (us_items s)" "up_id u \<in> us_in_flight s"
  shows "uploads_ok (fst (settle_upload (up_id u) i x s)) (outs @ snd (settle_upload (up_id u) i x s))"
proof -
  let ?f = "\<lambda>u. case xhr_outcome x of
      Inr _ \<Rightarrow> u\<lparr>up_state := Up_Done, up_placing := False, up_xhr := None\<rparr>
    | Inl e \<Rightarrow> u\<lparr>up_state := (if code e = ''cancelled'' then Up_Cancelled else Up_Failed),
           up_error := (if code e = ''cancelled'' then None else Some (message e)), up_placing := False, up_xhr := None\<rparr>"
  have "settle_upload (up_id u) i x s
      = ((set_upload (up_id u) ?f s)\<lparr>us_in_flight := us_in_flight s - {up_id u}\<rparr>, [Upload_Ended (up_id u) i])"
    by (simp add: settle_upload_def Let_def set_upload_def split: sum.split)
  moreover have "uploads_ok ((set_upload (up_id u) ?f s)\<lparr>us_in_flight := us_in_flight s - {up_id u}\<rparr>) (outs @ [Upload_Ended (up_id u) i])"
  proof (rule uploads_ok_set [OF ok])
    show "item_ok (us_in_flight s - {up_id u}) (?f v)" if "v \<in> set (us_items s)" "up_id v = up_id u" for v
    proof -
      have "item_ok (us_in_flight s) v" using ok that(1) by (simp add: uploads_ok_def)
      then show ?thesis using that(2) k(2) by (cases "xhr_outcome x") (simp_all add: item_ok_def)
    qed
  qed (use k in \<open>auto split: sum.split\<close>)
  ultimately show ?thesis by simp
qed

lemma uploads_ok_filter:
  assumes ok: "uploads_ok s outs" and P: "\<And>u. u \<in> set (us_items s) \<Longrightarrow> up_state u = Up_Uploading \<Longrightarrow> P u"
  shows "uploads_ok (s\<lparr>us_items := filter P (us_items s)\<rparr>) outs"
  using assms by (force simp: uploads_ok_def item_ok_def distinct_map_filter)

lemma upload_run_ok: "upload_run s outs \<Longrightarrow> uploads_ok s outs"
proof (induction rule: upload_run.induct)
  case up_init
  show ?case by (simp add: uploads_ok_def)
next
  case (up_start s outs inst dir n sz overwrite as_name s' os)
  then show ?case using uploads_ok_start by blast
next
  case (up_progress s outs k n)
  then have "uploads_ok ((set_upload k (\<lambda>u. u\<lparr>up_loaded := n\<rparr>) s)\<lparr>us_in_flight := us_in_flight s\<rparr>) (outs @ [])"
    by (intro uploads_ok_set) (auto simp: uploads_ok_def item_ok_def)
  then show ?case by (simp add: upload_progress_def set_upload_def)
next
  case (up_sent s outs k)
  then have "uploads_ok ((set_upload k (\<lambda>u. u\<lparr>up_loaded := up_size u, up_placing := True\<rparr>) s)\<lparr>us_in_flight := us_in_flight s\<rparr>) (outs @ [])"
    by (intro uploads_ok_set) (auto simp: uploads_ok_def item_ok_def)
  then show ?case by (simp add: upload_sent_def set_upload_def)
next
  case (up_end s outs u x s' os)
  then show ?case using uploads_ok_settle [of s outs u "up_instance u" x] by simp
next
  case (up_cross s outs u s' os)
  have "uploads_ok (dismiss_upload (up_id u) s) outs" if "up_state u \<noteq> Up_Uploading"
    unfolding dismiss_upload_def
    using that up_cross.IH up_cross.hyps(2) by (intro uploads_ok_filter) (auto simp: uploads_ok_def item_ok_def)
  moreover have "uploads_ok (fst (cancel_upload (up_id u) s)) (outs @ snd (cancel_upload (up_id u) s))"
  proof (cases "find (\<lambda>v. up_id v = up_id u) (us_items s)")
    case (Some v)
    then have v: "v \<in> set (us_items s)" "up_id v = up_id u" by (auto dest: find_SomeD)
    then have "up_xhr v = (if up_id v \<in> us_in_flight s then Some (up_id v) else None)"
      using up_cross.IH by (auto simp: uploads_ok_def item_ok_def)
    then show ?thesis using Some v up_cross.IH uploads_ok_settle [of s outs v "up_instance v" Xhr_Aborted]
      by (simp add: cancel_upload_def)
  qed (simp add: cancel_upload_def up_cross.IH)
  ultimately show ?case using up_cross.hyps(3) by (auto simp: upload_cross_def split: if_splits)
next
  case (up_timeout s outs u)
  then show ?case unfolding dismiss_upload_def by (intro uploads_ok_filter) (auto simp: uploads_ok_def item_ok_def)
next
  case (up_clear s outs)
  then show ?case unfolding clear_finished_def by (intro uploads_ok_filter) auto
qed

lemma find_upload: "distinct (map up_id us) \<Longrightarrow> u \<in> set us \<Longrightarrow> find (\<lambda>v. up_id v = up_id u) us = Some u"
  by (induction us) (auto simp: rev_image_eqI)

section \<open>Properties\<close>

text \<open>C33. Every upload a page shows as running has its request in flight and the tray's cross ends exactly that
  request, after which the upload shows as cancelled; every other upload's request has ended, and was reported
  once; a message is shown for failed uploads only; no upload is shown as verified before all of it was sent or
  further than its size; and no running request is without its row, whatever was dismissed or cleared.\<close>

theorem uploads_settle_once:
  assumes run: "upload_run s outs" and u: "u \<in> set (us_items s)"
  shows "(up_state u = Up_Uploading \<longleftrightarrow> up_id u \<in> us_in_flight s)
    \<and> ends (up_id u) outs = (if up_state u = Up_Uploading then 0 else 1)
    \<and> (up_error u \<noteq> None \<longleftrightarrow> up_state u = Up_Failed)
    \<and> up_loaded u \<le> up_size u \<and> (up_placing u \<longrightarrow> up_state u = Up_Uploading \<and> up_loaded u = up_size u)
    \<and> us_in_flight s = up_id ` {v \<in> set (us_items s). up_state v = Up_Uploading}
    \<and> (up_state u = Up_Uploading \<longrightarrow>
        upload_cross u s = settle_upload (up_id u) (up_instance u) Xhr_Aborted s
        \<and> (\<forall>v\<in>set (us_items (fst (upload_cross u s))). up_id v = up_id u \<longrightarrow> up_state v = Up_Cancelled))"
proof -
  have ok: "uploads_ok s outs" by (rule upload_run_ok [OF run])
  then have items: "up_id v \<in> {1..us_seq s} \<and> item_ok (us_in_flight s) v" if "v \<in> set (us_items s)" for v
    using that by (simp add: uploads_ok_def)
  have flight: "us_in_flight s = up_id ` {v \<in> set (us_items s). up_state v = Up_Uploading}"
    using ok items unfolding uploads_ok_def item_ok_def by blast
  have "ends (up_id u) outs = (if up_id u \<in> us_in_flight s then 0 else 1)"
    using ok items [OF u] by (simp add: uploads_ok_def)
  moreover have "upload_cross u s = settle_upload (up_id u) (up_instance u) Xhr_Aborted s"
    if "up_state u = Up_Uploading"
  proof -
    have "distinct (map up_id (us_items s))" using ok by (simp add: uploads_ok_def)
    then have "find (\<lambda>v. up_id v = up_id u) (us_items s) = Some u"
      using u by (rule find_upload)
    then show ?thesis using that items [OF u] by (simp add: upload_cross_def cancel_upload_def item_ok_def)
  qed
  moreover have "\<forall>v\<in>set (us_items (fst (settle_upload (up_id u) i Xhr_Aborted s))). up_id v = up_id u \<longrightarrow> up_state v = Up_Cancelled" for i
    by (auto simp: settle_upload_def xhr_outcome_def Let_def)
  ultimately show ?thesis using items [OF u] flight by (auto simp: item_ok_def)
qed

definition sample_upload :: upload_item where
  "sample_upload = \<lparr>up_id = 1, up_instance = 7, up_name = ''a'', up_path = ''a'', up_size = 3, up_loaded = 0,
     up_state = Up_Uploading, up_error = None, up_placing = False, up_xhr = Some 1\<rparr>"

definition sample_uploads :: upload_store where
  "sample_uploads = \<lparr>us_items = [sample_upload], us_seq = 1, us_in_flight = {1}\<rparr>"

lemma uploads_settle_once_witness:
  "snd (upload_cross sample_upload sample_uploads) = [Upload_Ended 1 7]
    \<and> map up_state (us_items (fst (upload_cross sample_upload sample_uploads))) = [Up_Cancelled]"
proof -
  have "start_upload 7 [] ''a'' 3 False None \<lparr>us_items = [], us_seq = 0, us_in_flight = {}\<rparr>
      = (sample_uploads, [Upload_Put 1 7 ''a'' False])"
    by (simp add: start_upload_def Let_def set_upload_def sample_uploads_def sample_upload_def join_path_def trim_slashes_def)
  from up_start [OF up_init this] have run: "upload_run sample_uploads [Upload_Put 1 7 ''a'' False]" by simp
  have "sample_upload \<in> set (us_items sample_uploads)" by (simp add: sample_uploads_def)
  from uploads_settle_once [OF run this]
  have "upload_cross sample_upload sample_uploads = settle_upload 1 7 Xhr_Aborted sample_uploads"
    by (simp add: sample_upload_def)
  then show ?thesis
    by (simp add: settle_upload_def xhr_outcome_def Let_def sample_uploads_def sample_upload_def)
qed

end
