(* ===== verification/Spec2Isabelle.thy ===== *)
theory Spec2Isabelle
  imports Panel Gateway Users Nodes Transfers Players Sftp Backups Releases Audit_Log Reachability Remote_Files Template_Rows Version_Sources Settings Firewall Uploads
begin

text \<open>
  A verification library for the panel's server of Ionnet GSM, a manager of game servers: the TypeScript
  under server/src, the definitions it shares with the agents under shared/src, and the parts of the web
  interface under web/src that keep state of their own. The panel keeps the
  rows of nodes, instances and users, allocates ports, builds the specification an agent runs a
  container from, and talks to one agent per node over a WebSocket.

  Parts and how they fit together (theory: code).
  \<^item> \<open>Prelude\<close>: errors (lib/errors.ts) as \<open>http_error\<close>, results as sums, JavaScript's strings, numbers,
    maps and splitting. \<open>Enums\<close>: shared/src/enums.ts.
  \<^item> \<open>Version\<close>: shared/src/version.ts, agent versions and their order.
  \<^item> \<open>Template\<close>, \<open>Variables\<close>, \<open>Ports\<close>, \<open>Paths\<close>: shared/src/api/templates.ts and
    modules/instances/ports.ts, mounts.ts. A template's definition, its variables and their validation
    (\<open>merge_variables\<close>), placeholders (\<open>substitute\<close>), port blocks (\<open>allocate_ports\<close>) and bind mounts.
  \<^item> \<open>Models\<close>, \<open>Spec\<close>: the rows (modules/*/models.ts) and modules/instances/spec.ts, the environment and
    port bindings of the container an agent starts.
  \<^item> \<open>Access\<close>: modules/instances/access.ts and modules/nodes/access.ts, who may do what. The queries on
    the tables are a locale, interpreted on the rows.
  \<^item> \<open>Console\<close>: modules/instances/console.ts, the ring buffers, as a refinement of a bounded history.
  \<^item> \<open>Instances\<close>, \<open>Supervisor\<close>, \<open>Panel\<close>: modules/instances/service.ts, agent-events.ts, supervisor.ts.
    The state \<open>panel\<close> holds the tables, the console buffers, the uuid cache and the emitted effects;
    a service function that awaits an agent is a pair \<open>_begin\<close> and \<open>_end\<close>, so that other steps may come
    between; \<open>panel_step\<close> is their union and \<open>panel_inv\<close> the invariant of every run.
  \<^item> \<open>Gateway\<close>: ws/agent-gateway.ts, the connections of the agents and the requests pending on them.
  \<^item> \<open>Rate_Limit\<close>: lib/rate-limit.ts; its users see the locale \<open>limits\<close>, interpreted for each limiter.
  \<^item> \<open>Totp\<close>: modules/auth/totp.ts and the comparison of lib/ids.ts, on \<open>word\<close>s.
  \<^item> \<open>Auth_Models\<close>, \<open>Accounts\<close>, \<open>Two_Factor\<close>, \<open>Factor_Rules\<close>, \<open>Password_Reset\<close>, \<open>Sign_In\<close>:
    modules/auth. The state \<open>auth\<close> holds the tables, limiters, mails and the audit log; \<open>login_route\<close> and
    \<open>verify_route\<close> compose limiters, password, factors and sessions as routes.ts does.
  \<^item> \<open>Ui_Gateway\<close>: ws/ui-gateway.ts, the sockets of browsers and the events of shared/src/protocol/ui.ts.
  \<^item> \<open>Users\<close>: modules/users, on the tables of \<open>auth\<close>, with what it does to browser sockets.
  \<^item> \<open>Nodes\<close>: modules/nodes, the enrollment and authentication of agents, a node's settings, presence and
    owners, and jobs/offline-detector.ts. It has its own full node rows; \<open>Models\<close> keeps the columns the
    instances need.
  \<^item> \<open>Transfers\<close>: modules/files/tickets.ts and transfers.ts, uploads and downloads between a browser's
    request and the request of the agent that fetches or sends the bytes.
  \<^item> \<open>Player_Parse\<close>, \<open>Players\<close>: modules/players and the player matching of shared/src/api/templates.ts.
    Console lines are matched against a template's patterns, who is online is tracked per instance, and
    actions on a player become console commands.
  \<^item> \<open>Sftp_Keys\<close>, \<open>Sftp\<close>: modules/sftp/keys.ts and service.ts, SSH keys, SFTP names and passwords, the
    sign-in an agent asks for and the closing of sessions after access was taken away.
  \<^item> \<open>Backups\<close>: modules/backups/service.ts on top of the whole \<open>panel\<close>: rows, runs in memory that a restart
    of the panel forgets, restoring and removing, with every other handler in between.
  \<^item> \<open>Releases\<close>: modules/releases/service.ts, agent builds as rows and files, the latest marks, downloads,
    roll-out and seeding from disk.
  \<^item> \<open>Prune\<close>, \<open>Audit_Log\<close>: lib/prune.ts and modules/audit/service.ts, loops that delete in batches, the paged
    export, CSV cells and the archive as a machine that can stop anywhere.
  \<^item> \<open>Reachability\<close>: modules/reachability, connecting to ports from outside and probing a stopped
    instance's, with the check that is running as state beside the \<open>panel\<close>.
  \<^item> \<open>Remote_Files\<close>: modules/files/service.ts and shared/src/api/files.ts, the file manager on top of
    \<open>Transfers\<close>, with a download's stream as a machine of events.
  \<^item> \<open>Template_Rows\<close>, \<open>Version_Sources\<close>: modules/templates, the rows of templates with the seeding of the
    shipped ones, version lists and installer URLs.
  \<^item> \<open>Settings\<close>: modules/settings, the cached values and the masking of passwords. \<open>Firewall\<close>:
    modules/firewall on the \<open>panel\<close>, together with the agents' rules.
  \<^item> \<open>Ui_Socket\<close>, \<open>Ui_Cache\<close>, \<open>Uploads\<close>: the page, web/src/ws/ui-socket.ts, the caches and buttons of api/instances.ts,
    lib/status.ts and components/instances, and the uploads of api/files.ts. The socket is run against
    \<open>Ui_Gateway\<close>, the buttons against \<open>Access\<close> and \<open>Instances\<close>.

  What the lemmas show. Ports: an allocation gives each template port a free port of the node's range, in
  runs as the template asks, and finds one whenever the ports are plain and one is left; every reachable
  panel keeps ports unique per node. Variables: accepted values are exactly the valid ones and end up in
  the environment under the platform's own names only where those are not taken. Access: the role of a
  user is the same however it is asked, and an instance without a role looks like a missing one.
  Requests: a guarded power action, installs and reports move an instance's status as the code says, and
  where they strand it the findings say so. Gateway: each request settles exactly once, also when its
  connection ends. Signing in: no session without every factor, no second use of a code, challenge, step
  or link, and bounded wrong codes. Users: an enabled administrator remains over any run, and what
  disabling an account closes and leaves open. Browsers: nobody gets an event outside the scope their
  socket opened with. Nodes: machines, pools and owners stay consistent over any run and presence is
  announced alternately. Transfers: each is served once, to the right node, and a digest is told only
  for exactly the announced bytes. Players: the online ones are those announced since the last list, and a
  command sent for an action is one line. SFTP: whoever is let in has the role and a valid credential, and
  what a change of access closes. Backups: a finished one stays as it is until it is removed with its archive,
  and what a restart leaves stuck. Releases: downloads match their digests and the newest build is marked.
  Audit log: archiving ends and loses nothing, and exports are complete and readable. Reachability: a port
  shown as open was reached, and which ports a check covers when they change. Files: a download arrives whole
  or fails, a failed upload is withdrawn, and a ticket serves what was checked. Templates: slugs stay unique,
  changes raise the revision and seeding settles if the database keeps the order of keys. Settings and
  firewalls: what is read was saved, and opened ports follow an instance whose node is connected. The page:
  the server sends it the consoles it follows, it reconnects until its session ends, copies of a row agree,
  a button is enabled when the server would take the request up, and each upload settles once.

  Bounds. Nothing here needs fuel: loops of the code that count are structural recursions or have a
  measure, the batched deletes are \<open>partial_function\<close>s that are shown to return; the draws of \<open>generate_code\<close> and the searched ports are finite lists. Strings are lists of
  code units below 256. Numbers the code uses as integers are \<open>int\<close> or \<open>nat\<close>; where rounding of
  doubles or 32-bit operators matter (memory sizes, number variables, one-time passwords) they are
  written out.

  Parameters. Password hashing, SHA-256, HMAC, AES-GCM, base64, the engine of regular
  expressions, random numbers, the mail server, zod schemas of
  payloads and the agents' answers are arguments of the definitions that use them. Each service call is
  one step of the state except where it awaits an agent or an expensive hash, so data races between two
  transactions inside one call are not modelled.

  Not modelled: the rest of the web interface (web/), which draws and queries, the agent (agent/, in Go), database migrations and column
  declarations, the mailer and the texts of emails, logging, configuration, packaging and images; the
  routes of instances, which only parse and call a service; the hourly housekeeping, which calls sweeps that
  are modelled with their tables; and the health check.
\<close>

end
